(* ===== verification/Prelude.thy ===== *)
theory Prelude
  imports Main "HOL-Library.Word"
begin

unbundle bit_operations_syntax

text \<open>
  The machine-integer vocabulary every component shares: the C integer types
  at their width, the conversions the sources write as casts, and the lemmas
  about lanes, bits and loops that the component theories use.

  A C expression of an unsigned type is a word of that width. A C expression
  of a signed type is an \<open>int\<close>; every such expression of the modelled
  code stays inside its type, and the lemmas collected in \<open>c_range\<close> say so.
\<close>

section \<open>C integer types\<close>

type_synonym u8 = "8 word"
type_synonym u16 = "16 word"
type_synonym u32 = "32 word"
type_synonym u64 = "64 word"

text \<open>The shifts of the sources, named as they are read there.\<close>

abbreviation shl :: "'a::len word \<Rightarrow> nat \<Rightarrow> 'a word" where
  "shl w n \<equiv> push_bit n w"

abbreviation shr :: "'a::len word \<Rightarrow> nat \<Rightarrow> 'a word" where
  "shr w n \<equiv> drop_bit n w"

abbreviation u32_of :: "int \<Rightarrow> u32" where
  "u32_of i \<equiv> word_of_int i"

abbreviation u64_of :: "int \<Rightarrow> u64" where
  "u64_of i \<equiv> word_of_int i"

abbreviation int32_min :: int where "int32_min \<equiv> - 2147483648"
abbreviation int32_max :: int where "int32_max \<equiv> 2147483647"

text \<open>Shifts by a successor stay shifts; the default rules turn them into arithmetic.\<close>

declare push_bit_Suc [simp del] drop_bit_Suc [simp del]

text \<open>The truth value of a C expression and the integer of a C comparison.\<close>

definition c_bool :: "bool \<Rightarrow> 'a::len word" where
  "c_bool b = (if b then 1 else 0)"

lemma c_bool_simps [simp]: "c_bool True = 1" "c_bool False = 0"
  by (simp_all add: c_bool_def)

lemma bit_c_bool [simp]: "bit (c_bool p :: 'a::len word) n \<longleftrightarrow> n = 0 \<and> p"
  by (auto simp: c_bool_def bit_simps)

lemma c_bool_eq_iff [simp]: "c_bool p = (c_bool q :: 'a::len word) \<longleftrightarrow> p = q"
  by (auto simp: c_bool_def)

lemma and_1_bit: "shr (w :: 'a::len word) i AND 1 = c_bool (bit w i)"
proof (rule bit_word_eqI)
  fix n
  show "bit (shr w i AND 1) n = bit (c_bool (bit w i) :: 'a word) n"
    by (cases n) (auto simp: bit_simps)
qed

lemma bit_shl_1: "bit (shl 1 k :: 'a::len word) i \<longleftrightarrow> i = k \<and> k < LENGTH('a)"
  by (auto simp: bit_simps)

lemma bit_if_shl_1: "bit (if p then shl (1 :: u32) k else 0) i \<longleftrightarrow> p \<and> i = k \<and> k < 32"
  by (cases p) (simp_all only: if_True if_False bit_shl_1 bit_0_eq bot_apply bot_bool_def, simp_all)

lemma bit_low_nibble: "bit (0xF :: u32) i \<longleftrightarrow> i < 4"
proof -
  have "(0xF :: u32) = mask 4" by (simp add: mask_eq_exp_minus_1)
  then show ?thesis by (simp only: bit_mask_iff) auto
qed

lemma bit_not_low_nibble: "bit (NOT 0xF :: u32) i \<longleftrightarrow> 4 \<le> i \<and> i < 32"
  unfolding bit_not_iff possible_bit_word bit_low_nibble by auto

text \<open>The same masks as integers, the form the simplifier turns word numerals into.\<close>

lemma bit_nibble_int [simp]: "bit (15 :: int) i \<longleftrightarrow> i < 4" "bit (- 16 :: int) i \<longleftrightarrow> 4 \<le> i"
proof -
  have "(15 :: int) = mask 4" "(- 16 :: int) = NOT (mask 4)" by (simp_all add: mask_eq_exp_minus_1)
  then show "bit (15 :: int) i \<longleftrightarrow> i < 4" "bit (- 16 :: int) i \<longleftrightarrow> 4 \<le> i"
    by (simp_all only: bit_mask_iff bit_not_iff possible_bit_int) auto
qed

named_theorems c_range \<open>ranges of signed C expressions\<close>
named_theorems lane_simps \<open>what the lanes of a packed word are\<close>

text \<open>An early return in front of a result.\<close>

lemma if_None_Some: "(if b then None else x) = Some y \<longleftrightarrow> \<not> b \<and> x = Some y"
  by simp

lemma if_eq_None: "(if b then x else y) = None \<longleftrightarrow> (if b then x = None else y = None)"
  by simp

section \<open>Loops that collect bits\<close>

lemma bit_fold_or:
  "bit (fold (\<lambda>i r. r OR f i) xs (r0 :: 'a::len word)) k \<longleftrightarrow>
     bit r0 k \<or> (\<exists>i\<in>set xs. bit (f i) k)"
  by (induction xs arbitrary: r0) (auto simp: bit_simps)

lemma fold_or_commute:
  "fold (\<lambda>i r. r OR f i) xs (r0 OR r1) = r0 OR fold (\<lambda>i r. r OR f i) xs (r1 :: 'a::len word)"
  by (rule bit_word_eqI) (auto simp: bit_fold_or bit_simps)

text \<open>Byte and halfword fields laid side by side do not overlap.\<close>

lemma field8: "(i :: nat) < 8 \<Longrightarrow> k * 8 \<le> n * 8 + i \<Longrightarrow> n * 8 + i - k * 8 < 8 \<Longrightarrow> k = n"
  by arith

lemma field16: "(i :: nat) < 16 \<Longrightarrow> k * 16 \<le> n * 16 + i \<Longrightarrow> n * 16 + i - k * 16 < 16 \<Longrightarrow> k = n"
  by arith

lemma upt_4: "[0..<4] = [0, 1, 2, 3]"
  by (simp add: upt_rec)

lemma less_4_cases: "n < (4::nat) \<Longrightarrow> n = 0 \<or> n = 1 \<or> n = 2 \<or> n = 3"
  by auto

lemma ball_less_4: "(\<forall>n<(4::nat). P n) \<longleftrightarrow> P 0 \<and> P 1 \<and> P 2 \<and> P 3"
  by (auto dest!: less_4_cases)

text \<open>Bits above the width of a word are clear, as rewrite rules at each C width.\<close>

lemma bit_u8_out [simp]: "8 \<le> n \<Longrightarrow> \<not> bit (w :: u8) n"
  using bit_imp_le_length [of w n] by auto

lemma bit_u16_out [simp]: "16 \<le> n \<Longrightarrow> \<not> bit (w :: u16) n"
  using bit_imp_le_length [of w n] by auto

lemma bit_u32_out [simp]: "32 \<le> n \<Longrightarrow> \<not> bit (w :: u32) n"
  using bit_imp_le_length [of w n] by auto

lemma bit_u64_out [simp]: "64 \<le> n \<Longrightarrow> \<not> bit (w :: u64) n"
  using bit_imp_le_length [of w n] by auto

section \<open>High bits of small integers\<close>

lemma bit_negative_int:
  assumes "v < 0" "- (2 ^ m) \<le> v" "m \<le> k"
  shows "bit (v :: int) k"
proof -
  have "(2 :: int) ^ m \<le> 2 ^ k" using assms(3) by (simp add: power_increasing)
  with assms(2) have "0 \<le> v + 2 ^ k" by linarith
  with assms(1) have "v div 2 ^ k = - 1"
    by (intro int_div_pos_eq [of _ _ _ "v + 2 ^ k"]) simp_all
  then show ?thesis by (simp add: bit_iff_odd)
qed

lemma bit_small_int:
  assumes "bit (v :: int) k" "0 \<le> v" "v < 2 ^ m"
  shows "k < m"
proof -
  have "take_bit m v = v" using assms(2,3) by (simp add: take_bit_int_eq_self)
  then show ?thesis using assms(1) by (metis bit_take_bit_iff)
qed

lemma div_pow2_range:
  assumes "l \<le> (v :: int)" "v \<le> u" "l \<le> 0" "0 \<le> u"
  shows "l \<le> v div 2 ^ k" "v div 2 ^ k \<le> u"
proof -
  have "l * 2 ^ k \<le> l" using assms(3) mult_left_mono_neg [of 1 "2 ^ k" l] by simp
  then have "l * 2 ^ k \<le> v" using assms(1) by linarith
  then show "l \<le> v div 2 ^ k" using zdiv_mono1 [of "l * 2 ^ k" v "2 ^ k"] by simp
  show "v div 2 ^ k \<le> u" 
  proof (cases "0 \<le> v")
    case True
    then show ?thesis using zdiv_mono2 [of v 1 "2 ^ k"] assms(2) by simp
  next
    case False
    then have "v div 2 ^ k < 0" by (simp add: div_neg_pos_less0)
    then show ?thesis using assms(4) by linarith
  qed
qed

section \<open>Casts\<close>

lemma unat_lt_exp: "unat (x :: 'a::len word) < 2 ^ LENGTH('a)"
  by (rule unsigned_less)

lemma unat_u8_lt [c_range]: "unat (x :: u8) < 256"
  using unat_lt_exp [of x] by simp

lemma unat_u16_lt [c_range]: "unat (x :: u16) < 65536"
  using unat_lt_exp [of x] by simp

lemma unat_u32_lt [c_range]: "unat (x :: u32) < 4294967296"
  using unat_lt_exp [of x] by simp

lemma uint_u8_range [c_range]: "0 \<le> uint (x :: u8)" "uint (x :: u8) \<le> 255"
  using uint_lt2p [of x] by simp_all

lemma uint_u16_range [c_range]: "0 \<le> uint (x :: u16)" "uint (x :: u16) \<le> 65535"
  using uint_lt2p [of x] by simp_all

lemma uint_u32_range [c_range]: "0 \<le> uint (x :: u32)" "uint (x :: u32) \<le> 4294967295"
  using uint_lt2p [of x] by simp_all

lemma sint_u8_range [c_range]: "- 128 \<le> sint (x :: u8)" "sint (x :: u8) \<le> 127"
  using sint_ge [of x] sint_lt [of x] by simp_all

lemma sint_u16_range [c_range]: "- 32768 \<le> sint (x :: u16)" "sint (x :: u16) \<le> 32767"
  using sint_ge [of x] sint_lt [of x] by simp_all

lemma sint_u32_range [c_range]: "int32_min \<le> sint (x :: u32)" "sint (x :: u32) \<le> int32_max"
  using sint_ge [of x] sint_lt [of x] by simp_all

lemma of_sint: "word_of_int (sint x) = x"
  by simp

lemma sint_eq_iff: "sint x = sint y \<longleftrightarrow> x = y"
  by (auto intro: signed_word_eqI)

text \<open>Widening an unsigned value keeps it.\<close>

lemma uint_widen [simp]:
  "uint (ucast (a :: u8) :: u32) = uint a"
  "uint (ucast (a :: u8) :: u64) = uint a"
  "uint (ucast (b :: u16) :: u32) = uint b"
  "uint (ucast (b :: u16) :: u64) = uint b"
  "uint (ucast (c :: u32) :: u64) = uint c"
  by (simp_all add: unsigned_ucast_eq take_bit_int_eq_self_iff
        order_less_le_trans [OF uint_lt2p])

lemma unat_widen [simp]:
  "unat (ucast (a :: u8) :: u32) = unat a"
  "unat (ucast (a :: u8) :: u64) = unat a"
  "unat (ucast (b :: u16) :: u32) = unat b"
  "unat (ucast (b :: u16) :: u64) = unat b"
  "unat (ucast (c :: u32) :: u64) = unat c"
  by (simp_all only: unat_eq_nat_uint uint_widen)

lemma uint_shr: "uint (shr w n) = uint w div 2 ^ n"
  by (simp only: unsigned_drop_bit_eq)
     (simp add: take_bit_int_eq_self drop_bit_eq_div)

text \<open>A signed value that fits survives the cast to a word and back.\<close>

lemma sint_of_int_u8: "- 128 \<le> k \<Longrightarrow> k \<le> 127 \<Longrightarrow> sint (word_of_int k :: u8) = k"
  by (simp add: signed_of_int signed_take_bit_int_eq_self)

lemma sint_of_int_u16: "- 32768 \<le> k \<Longrightarrow> k \<le> 32767 \<Longrightarrow> sint (word_of_int k :: u16) = k"
  by (simp add: signed_of_int signed_take_bit_int_eq_self)

lemma sint_of_int_u32: "int32_min \<le> k \<Longrightarrow> k \<le> int32_max \<Longrightarrow> sint (word_of_int k :: u32) = k"
  by (simp add: signed_of_int signed_take_bit_int_eq_self)

lemma uint_of_int_u8: "0 \<le> k \<Longrightarrow> k \<le> 255 \<Longrightarrow> uint (word_of_int k :: u8) = k"
  by (simp add: uint_word_of_int)

lemma uint_of_int_u16: "0 \<le> k \<Longrightarrow> k \<le> 65535 \<Longrightarrow> uint (word_of_int k :: u16) = k"
  by (simp add: uint_word_of_int)

lemma uint_of_int_u32: "0 \<le> k \<Longrightarrow> k \<le> 4294967295 \<Longrightarrow> uint (word_of_int k :: u32) = k"
  by (simp add: uint_word_of_int)

section \<open>Masks\<close>

text \<open>The masks of the sources as truncations, so that bit-level simplification applies.\<close>

lemma and_mask_numerals:
  "(w :: 'a::len word) AND 1 = take_bit 1 w"
  "w AND 0x3 = take_bit 2 w"
  "w AND 0x7 = take_bit 3 w"
  "w AND 0xF = take_bit 4 w"
  "w AND 0x1F = take_bit 5 w"
  "w AND 0x3F = take_bit 6 w"
  "w AND 0x7F = take_bit 7 w"
  "w AND 0xFF = take_bit 8 w"
  "w AND 0x1FF = take_bit 9 w"
  "w AND 0x7FFF = take_bit 15 w"
  "w AND 0xFFFF = take_bit 16 w"
  "w AND 0xFFFFFFFF = take_bit 32 w"
  "w AND 0xFFFFFFFFFF = take_bit 40 w"
  by (simp_all add: take_bit_eq_mask mask_eq_exp_minus_1)

lemma and_high_half: "(w :: u32) AND 0xFFFF0000 = shl (shr w 16) 16"
proof -
  have *: "(0xFFFF0000 :: u32) = NOT (mask 16)" by (simp add: mask_eq_exp_minus_1)
  show ?thesis unfolding * by (rule bit_word_eqI) (auto simp: bit_simps)
qed

lemma ucast_ucast_32: "ucast (ucast (a :: u32) :: u64) = a"
  by (rule bit_word_eqI) (simp add: bit_simps)

end
