(* ===== verification/Lanes.thy ===== *)
theory Lanes
  imports Prelude
begin

text \<open>
  Packed data: a register read as an array of lanes, and the contract of an
  instruction that works on each lane alone. \<open>lanewise\<close> is that contract; its
  lemmas (no lane disturbs another, commutativity, uniqueness) are proved once
  and every packed 8-bit and 16-bit instruction interprets it on its model.
\<close>

section \<open>Views of a register\<close>

text \<open>\<open>(uint8_t)(word >> (n * 8))\<close>: byte \<open>n\<close> from the least significant end.\<close>

definition ubyte :: "u32 \<Rightarrow> nat \<Rightarrow> u8" where
  "ubyte word n = ucast (shr word (n * 8))"

definition sbyte :: "u32 \<Rightarrow> nat \<Rightarrow> int" where
  "sbyte word n = sint (ubyte word n)"

definition uhalf :: "u32 \<Rightarrow> nat \<Rightarrow> u16" where
  "uhalf word n = ucast (shr word (n * 16))"

definition uhalf64 :: "u64 \<Rightarrow> nat \<Rightarrow> u16" where
  "uhalf64 word n = ucast (shr word (n * 16))"

lemma bytes_eqI:
  assumes "\<And>n. n < 4 \<Longrightarrow> ubyte a n = ubyte b n"
  shows "a = b"
proof (rule bit_word_eqI)
  fix i assume i: "i < LENGTH(32)"
  then have "bit (ubyte a (i div 8)) (i mod 8) = bit (ubyte b (i div 8)) (i mod 8)"
    using assms [of "i div 8"] by simp
  with i show "bit a i = bit b i" by (simp add: ubyte_def bit_simps)
qed

lemma halves_eqI:
  assumes "\<And>n. n < 2 \<Longrightarrow> uhalf a n = uhalf b n"
  shows "a = b"
proof (rule bit_word_eqI)
  fix i assume i: "i < LENGTH(32)"
  then have "bit (uhalf a (i div 16)) (i mod 16) = bit (uhalf b (i div 16)) (i mod 16)"
    using assms [of "i div 16"] by simp
  with i show "bit a i = bit b i" by (simp add: uhalf_def bit_simps)
qed

lemma halves64_eqI:
  assumes "\<And>n. n < 4 \<Longrightarrow> uhalf64 a n = uhalf64 b n"
  shows "a = b"
proof (rule bit_word_eqI)
  fix i assume i: "i < LENGTH(64)"
  then have "bit (uhalf64 a (i div 16)) (i mod 16) = bit (uhalf64 b (i div 16)) (i mod 16)"
    using assms [of "i div 16"] by simp
  with i show "bit a i = bit b i" by (simp add: uhalf64_def bit_simps)
qed

lemma sbyte_range [c_range]: "- 128 \<le> sbyte w n" "sbyte w n \<le> 127"
  using sint_ge [of "ubyte w n"] sint_lt [of "ubyte w n"] by (simp_all add: sbyte_def)

lemma sbyte_eq_iff: "sbyte a n = sbyte b n \<longleftrightarrow> ubyte a n = ubyte b n"
  by (auto simp: sbyte_def intro: signed_word_eqI)

text \<open>A loop that ORs one masked field per byte builds a word with those bytes.\<close>

lemma ubyte_fold:
  assumes "n < 4"
  shows "ubyte (fold (\<lambda>k result. result OR shl (p k AND 0xFF) (k * 8)) [0..<4] 0) n = ucast (p n)"
proof (rule bit_word_eqI)
  fix i assume i: "i < LENGTH(8)"
  then show "bit (ubyte (fold (\<lambda>k result. result OR shl (p k AND 0xFF) (k * 8)) [0..<4] 0) n) i
      = bit (ucast (p n) :: u8) i"
    using assms
    by (auto simp: ubyte_def bit_fold_or bit_simps and_mask_numerals
          dest: field8 intro!: bexI [of _ n])
qed

text \<open>A 64-bit result written as \<open>(uint64_t)odd << 32 | even\<close>, and its two registers.\<close>

lemma pair_high [lane_simps]: "ucast (shr (shl (ucast (h :: u32)) 32 OR ucast (l :: u32) :: u64) 32) = h"
  by (rule bit_word_eqI) (auto simp: bit_simps)

lemma pair_high_or [lane_simps]:
  "ucast (shr (shl (ucast (h :: u32)) 32) 32 OR shr (ucast (l :: u32)) 32 :: u64) = h"
  by (rule bit_word_eqI) (auto simp: bit_simps)

lemma pair_low [lane_simps]: "ucast (shl (ucast (h :: u32)) 32 OR ucast (l :: u32) :: u64) = l"
  by (rule bit_word_eqI) (auto simp: bit_simps)

section \<open>Lane-wise instructions\<close>

text \<open>
  An instruction \<open>op\<close> reads its operands through \<open>lin\<close> and its result is read
  through \<open>lout\<close>; lane \<open>n\<close> of the result is \<open>f\<close> of the operands' lanes \<open>n\<close>.
\<close>

locale lanewise =
  fixes lanes :: nat
    and lin :: "'a \<Rightarrow> nat \<Rightarrow> 'l"
    and lout :: "'b \<Rightarrow> nat \<Rightarrow> 'm"
    and op :: "'a \<Rightarrow> 'a \<Rightarrow> 'b"
    and f :: "'l \<Rightarrow> 'l \<Rightarrow> 'm"
  assumes lout_ext: "(\<And>n. n < lanes \<Longrightarrow> lout x n = lout y n) \<Longrightarrow> x = y"
    and op_lane: "n < lanes \<Longrightarrow> lout (op a b) n = f (lin a n) (lin b n)"
begin

lemma lane_independent:
  "n < lanes \<Longrightarrow> lin a n = lin a' n \<Longrightarrow> lin b n = lin b' n \<Longrightarrow>
     lout (op a b) n = lout (op a' b') n"
  by (simp add: op_lane)

lemma op_commute: "(\<And>x y. f x y = f y x) \<Longrightarrow> op a b = op b a"
  by (rule lout_ext) (simp add: op_lane)

text \<open>The lanes determine the instruction: two lane-wise routines with one lane
  function are the same routine.\<close>

lemma op_unique:
  assumes "\<And>a b n. n < lanes \<Longrightarrow> lout (op' a b) n = f (lin a n) (lin b n)"
  shows "op' = op"
  by (rule ext, rule ext, rule lout_ext) (simp add: assms op_lane)

end

locale lanewise_closed = lanewise lanes lin lin op f
  for lanes :: nat and lin :: "'a \<Rightarrow> nat \<Rightarrow> 'l" and op :: "'a \<Rightarrow> 'a \<Rightarrow> 'a" and f :: "'l \<Rightarrow> 'l \<Rightarrow> 'l"
begin

lemma op_assoc: "(\<And>x y z. f (f x y) z = f x (f y z)) \<Longrightarrow> op (op a b) c = op a (op b c)"
  by (rule lout_ext) (simp add: op_lane)

lemma op_idem: "(\<And>x. f x x = x) \<Longrightarrow> op a a = a"
  by (rule lout_ext) (simp add: op_lane)

end

end
