(* ===== verification/C674x_Packed8.thy ===== *)
theory C674x_Packed8
  imports Lanes
begin

text \<open>
  \<^verbatim>\<open>emulator/qemu/cdj_c674x_packed8.c\<close>: the packed 8-bit (4x8) instructions
  of the C674x. Each loop over \<open>out[n]\<close> is the function \<open>\<lambda>n. ...\<close> handed to
  \<open>pack_bytes\<close>; each loop that ORs bits into \<open>result\<close> is a \<open>fold\<close>. Every
  byte-to-byte and byte-to-halfword instruction interprets the lane contract
  with the arithmetic the manual gives for one lane.
\<close>

section \<open>The instructions\<close>

definition pack_bytes :: "(nat \<Rightarrow> u8) \<Rightarrow> u32" where
  "pack_bytes bytes = ucast (bytes 0) OR shl (ucast (bytes 1)) 8 OR
     shl (ucast (bytes 2)) 16 OR shl (ucast (bytes 3)) 24"

definition add4 :: "u32 \<Rightarrow> u32 \<Rightarrow> u32" where
  "add4 src1 src2 = pack_bytes (\<lambda>n. ubyte src1 n + ubyte src2 n)"

definition sub4 :: "u32 \<Rightarrow> u32 \<Rightarrow> u32" where
  "sub4 src1 src2 = pack_bytes (\<lambda>n. ubyte src1 n - ubyte src2 n)"

definition subabs4 :: "u32 \<Rightarrow> u32 \<Rightarrow> u32" where
  "subabs4 src1 src2 = pack_bytes (\<lambda>n.
     let a = ubyte src1 n; b = ubyte src2 n in if a \<ge> b then a - b else b - a)"

definition saddu4 :: "u32 \<Rightarrow> u32 \<Rightarrow> u32" where
  "saddu4 src1 src2 = pack_bytes (\<lambda>n.
     let sum = ucast (ubyte src1 n) + ucast (ubyte src2 n) :: u32
     in ucast (if sum > 255 then 255 else sum))"

definition avgu4 :: "u32 \<Rightarrow> u32 \<Rightarrow> u32" where
  "avgu4 src1 src2 = pack_bytes (\<lambda>n.
     ucast (shr (ucast (ubyte src1 n) + ucast (ubyte src2 n) + 1 :: u32) 1))"

definition maxu4 :: "u32 \<Rightarrow> u32 \<Rightarrow> u32" where
  "maxu4 src1 src2 = pack_bytes (\<lambda>n.
     let a = ubyte src1 n; b = ubyte src2 n in if a \<ge> b then a else b)"

definition minu4 :: "u32 \<Rightarrow> u32 \<Rightarrow> u32" where
  "minu4 src1 src2 = pack_bytes (\<lambda>n.
     let a = ubyte src1 n; b = ubyte src2 n in if a \<le> b then a else b)"

definition cmpeq4 :: "u32 \<Rightarrow> u32 \<Rightarrow> u32" where
  "cmpeq4 src1 src2 =
     fold (\<lambda>n result. result OR (if sbyte src1 n = sbyte src2 n then shl 1 n else 0)) [0..<4] 0"

definition cmpgtu4 :: "u32 \<Rightarrow> u32 \<Rightarrow> u32" where
  "cmpgtu4 src1 src2 =
     fold (\<lambda>n result. result OR (if ubyte src1 n > ubyte src2 n then shl 1 n else 0)) [0..<4] 0"

definition mpyu4 :: "u32 \<Rightarrow> u32 \<Rightarrow> u64" where
  "mpyu4 src1 src2 = fold (\<lambda>n result.
     let product = ucast (ubyte src1 n) * ucast (ubyte src2 n) :: u32
     in result OR shl (ucast (product AND 0xffff)) (n * 16)) [0..<4] 0"

definition mpysu4 :: "u32 \<Rightarrow> u32 \<Rightarrow> u64" where
  "mpysu4 src1 src2 = fold (\<lambda>n result.
     let product = sbyte src1 n * uint (ubyte src2 n)
     in result OR shl (ucast (u32_of product AND 0xffff)) (n * 16)) [0..<4] 0"

definition spack_byte :: "u32 \<Rightarrow> bool \<Rightarrow> u8" where
  "spack_byte word high =
     (let value = sint (ucast (if high then shr word 16 else word) :: u16)
      in word_of_int (if value > 255 then 255 else if value < 0 then 0 else value))"

definition spacku4 :: "u32 \<Rightarrow> u32 \<Rightarrow> u32" where
  "spacku4 src1 src2 = pack_bytes (\<lambda>n.
     [spack_byte src2 False, spack_byte src2 True,
      spack_byte src1 False, spack_byte src1 True] ! n)"

section \<open>Lanes of the results\<close>

lemma ubyte_pack_bytes [lane_simps]: "n < 4 \<Longrightarrow> ubyte (pack_bytes bytes) n = bytes n"
  by (rule bit_word_eqI)
     (auto simp: ubyte_def pack_bytes_def bit_simps dest!: less_4_cases)

lemma uhalf64_fold:
  assumes "n < 4"
  shows "uhalf64 (fold (\<lambda>n result. result OR shl (ucast (p n AND (0xFFFF :: u32))) (n * 16)) [0..<4] 0) n
         = ucast (p n)"
proof (rule bit_word_eqI)
  fix i assume i: "i < LENGTH(16)"
  then show "bit (uhalf64 (fold (\<lambda>n result. result OR shl (ucast (p n AND 0xFFFF)) (n * 16)) [0..<4] 0) n) i
      = bit (ucast (p n) :: u16) i"
    using assms
    by (auto simp: uhalf64_def bit_fold_or bit_simps and_mask_numerals
          dest: field16 intro!: bexI [of _ n])
qed

section \<open>Lane-wise correctness\<close>

lemma uint_add_u8_wide:
  "uint (ucast (a :: u8) + ucast (b :: u8) :: u32) = uint a + uint b"
  "uint (ucast a + ucast b + 1 :: u32) = uint a + uint b + 1"
  using uint_u8_range [of a] uint_u8_range [of b] by (simp_all add: uint_word_ariths)

lemma lanewise_pack_bytesI:
  assumes "\<And>a b. op a b = pack_bytes (\<lambda>n. g (ubyte a n) (ubyte b n))"
    and "\<And>x y. g x y = f x y"
  shows "lanewise_closed 4 ubyte op f"
  using assms by unfold_locales (simp_all add: lane_simps bytes_eqI)

interpretation add4: lanewise_closed 4 ubyte add4 "(+)"
  by (rule lanewise_pack_bytesI, rule add4_def) simp

interpretation sub4: lanewise_closed 4 ubyte sub4 "(-)"
  by (rule lanewise_pack_bytesI, rule sub4_def) simp

interpretation subabs4: lanewise_closed 4 ubyte subabs4 "\<lambda>x y. word_of_int \<bar>uint x - uint y\<bar>"
  by (rule lanewise_pack_bytesI, rule subabs4_def)
     (auto simp: Let_def word_le_def wi_hom_sub [symmetric])

lemma uint_u8_distance: "\<bar>uint (a :: u8) - uint (b :: u8)\<bar> \<le> 255"
  using uint_u8_range [of a] uint_u8_range [of b] by linarith

lemma saddu_lane:
  "(let sum = ucast (a :: u8) + ucast (b :: u8) :: u32
    in ucast (if sum > 255 then 255 else sum)) = (word_of_int (min 255 (uint a + uint b)) :: u8)"
proof -
  have "(255 :: u32) < ucast a + ucast b \<longleftrightarrow> 255 < uint a + uint b"
    by (simp add: word_less_def uint_add_u8_wide)
  moreover have "ucast (ucast a + ucast b :: u32) = (word_of_int (uint a + uint b) :: u8)"
    by (simp only: ucast_eq [of "ucast a + ucast b :: u32"] uint_add_u8_wide)
  ultimately show ?thesis by (auto simp only: Let_def min_def split: if_splits) simp_all
qed

interpretation saddu4: lanewise_closed 4 ubyte saddu4 "\<lambda>x y. word_of_int (min 255 (uint x + uint y))"
  by (rule lanewise_pack_bytesI, rule saddu4_def) (rule saddu_lane)

lemma avgu_lane:
  "ucast (shr (ucast (a :: u8) + ucast (b :: u8) + 1 :: u32) 1) =
     (word_of_int ((uint a + uint b + 1) div 2) :: u8)"
proof -
  have "uint (shr (ucast a + ucast b + 1 :: u32) 1) = (uint a + uint b + 1) div 2"
    by (simp only: uint_shr uint_add_u8_wide) simp
  then show ?thesis by (simp only: ucast_eq)
qed

interpretation avgu4: lanewise_closed 4 ubyte avgu4 "\<lambda>x y. word_of_int ((uint x + uint y + 1) div 2)"
  by (rule lanewise_pack_bytesI, rule avgu4_def) (rule avgu_lane)

interpretation maxu4: lanewise_closed 4 ubyte maxu4 max
  by (rule lanewise_pack_bytesI, rule maxu4_def) (auto simp: Let_def max_def)

interpretation minu4: lanewise_closed 4 ubyte minu4 min
  by (rule lanewise_pack_bytesI, rule minu4_def) (auto simp: Let_def min_def)

lemma lanewise_fold_halvesI:
  assumes "\<And>a b. op a b = fold (\<lambda>n result. result OR shl (ucast (p a b n AND (0xFFFF :: u32))) (n * 16)) [0..<4] 0"
    and "\<And>a b n. ucast (p a b n) = f (ubyte a n) (ubyte b n)"
  shows "lanewise 4 ubyte uhalf64 op f"
  by unfold_locales (simp_all only: assms uhalf64_fold, rule halves64_eqI)

lemma mpyu_lane: "ucast (ucast (a :: u8) * ucast (b :: u8) :: u32) = (word_of_int (uint a * uint b) :: u16)"
proof -
  have "uint a * uint b \<le> 255 * 255"
    using uint_u8_range by (intro mult_mono) auto
  then have "uint (ucast (a :: u8) * ucast (b :: u8) :: u32) = uint a * uint b"
    by (simp add: uint_word_ariths)
  then show ?thesis by (simp only: ucast_eq)
qed

interpretation mpyu4: lanewise 4 ubyte uhalf64 mpyu4 "\<lambda>x y. word_of_int (uint x * uint y)"
  by (rule lanewise_fold_halvesI [OF _ mpyu_lane]) (simp only: mpyu4_def Let_def)

lemma ucast_of_int_u32_u16: "ucast (u32_of k) = (word_of_int k :: u16)"
  by (rule bit_word_eqI) (simp add: bit_simps)

interpretation mpysu4: lanewise 4 ubyte uhalf64 mpysu4 "\<lambda>x y. word_of_int (sint x * uint y)"
  by (rule lanewise_fold_halvesI [OF _ ucast_of_int_u32_u16])
     (simp only: mpysu4_def Let_def sbyte_def)

lemma bit_cmpeq4 [lane_simps]: "bit (cmpeq4 a b) n \<longleftrightarrow> n < 4 \<and> ubyte a n = ubyte b n"
  by (auto simp: cmpeq4_def bit_fold_or bit_simps sbyte_eq_iff)

lemma bit_cmpgtu4 [lane_simps]: "bit (cmpgtu4 a b) n \<longleftrightarrow> n < 4 \<and> ubyte a n > ubyte b n"
  by (auto simp: cmpgtu4_def bit_fold_or bit_simps)

lemma spack_byte_clamp:
  "spack_byte word high =
     word_of_int (max 0 (min 255 (sint (uhalf word (if high then 1 else 0)))))"
  by (simp add: spack_byte_def uhalf_def Let_def max_def min_def)

lemma ubyte_spacku4 [lane_simps]:
  assumes "n < 4"
  shows "ubyte (spacku4 a b) n =
    word_of_int (max 0 (min 255 (sint (uhalf (if n < 2 then b else a) (n mod 2)))))"
  using assms less_4_cases [OF assms]
  by (elim disjE) (simp_all add: spacku4_def lane_simps spack_byte_clamp)

section \<open>Properties\<close>

text \<open>every byte-to-byte instruction computes, in each of its four lanes, the
  value the manual gives for that lane and nothing else: wrapping add and
  subtract, absolute difference, unsigned saturating add, rounded average,
  maximum, minimum, and the clamp of signed halfwords of SPACKU4.\<close>

theorem packed8_lane_values:
  assumes "n < 4"
  shows "ubyte (add4 a b) n = ubyte a n + ubyte b n \<and>
    ubyte (sub4 a b) n = ubyte a n - ubyte b n \<and>
    uint (ubyte (subabs4 a b) n) = \<bar>uint (ubyte a n) - uint (ubyte b n)\<bar> \<and>
    uint (ubyte (saddu4 a b) n) = min 255 (uint (ubyte a n) + uint (ubyte b n)) \<and>
    uint (ubyte (avgu4 a b) n) = (uint (ubyte a n) + uint (ubyte b n) + 1) div 2 \<and>
    ubyte (maxu4 a b) n = max (ubyte a n) (ubyte b n) \<and>
    ubyte (minu4 a b) n = min (ubyte a n) (ubyte b n) \<and>
    uint (ubyte (spacku4 a b) n)
      = max 0 (min 255 (sint (uhalf (if n < 2 then b else a) (n mod 2))))"
  using uint_u8_range [of "ubyte a n"] uint_u8_range [of "ubyte b n"]
    uint_u8_distance [of "ubyte a n" "ubyte b n"]
  by (simp add: assms add4.op_lane sub4.op_lane subabs4.op_lane saddu4.op_lane
      avgu4.op_lane maxu4.op_lane minu4.op_lane ubyte_spacku4 uint_of_int_u8)

theorem packed8_lane_values_witness:
  "uint (ubyte (saddu4 0xF0000001 0x20000002) 3) = 255 \<and>
   uint (ubyte (spacku4 0xF0000001 0x20000002) 3) = 0"
  using packed8_lane_values [of 3 "0xF0000001" "0x20000002"]
  by (simp add: ubyte_def uhalf_def)

end
