(* ===== verification/C674x_Packed16.thy ===== *)
theory C674x_Packed16
  imports Lanes
begin

text \<open>
  \<^verbatim>\<open>emulator/qemu/cdj_c674x_packed16.c\<close>: the packed 16-bit instructions
  and the saturating variable shifts SSHVL/SSHVR. \<open>msb16\<close> and \<open>lsb16\<close> read a
  half as a signed integer, as the C helpers of those names do; each pair of
  half-word computations interprets the lane contract of theory Lanes.
\<close>

section \<open>Halves, clamps and the arithmetic shift\<close>

definition msb16 :: "u32 \<Rightarrow> int" where
  "msb16 word = sint (ucast (shr word 16) :: u16)"

definition lsb16 :: "u32 \<Rightarrow> int" where
  "lsb16 word = sint (ucast word :: u16)"

definition pack :: "u32 \<Rightarrow> u32 \<Rightarrow> u32" where
  "pack high low = shl (high AND 0xFFFF) 16 OR (low AND 0xFFFF)"

definition asr :: "int \<Rightarrow> nat \<Rightarrow> u32" where
  "asr value count =
     (if value < 0 then NOT (shr (NOT (u32_of value)) count) else shr (u32_of value) count)"

definition sat16 :: "int \<Rightarrow> u32" where
  "sat16 value =
     u32_of (if value > 32767 then 32767 else if value < - 32768 then - 32768 else value) AND 0xFFFF"

definition satu16 :: "int \<Rightarrow> u32" where
  "satu16 value =
     u32_of (if value > 65535 then 65535 else if value < 0 then 0 else value) AND 0xFFFF"

definition abs16 :: "int \<Rightarrow> u32" where
  "abs16 value =
     u32_of (if value = - 32768 then 32767 else if value < 0 then - value else value) AND 0xFFFF"

section \<open>The instructions\<close>

definition abs2 :: "u32 \<Rightarrow> u32" where
  "abs2 src2 = pack (abs16 (msb16 src2)) (abs16 (lsb16 src2))"

definition add2 :: "u32 \<Rightarrow> u32 \<Rightarrow> u32" where
  "add2 src1 src2 =
     pack (u32_of (msb16 src1 + msb16 src2)) (u32_of (lsb16 src1 + lsb16 src2))"

definition sub2 :: "u32 \<Rightarrow> u32 \<Rightarrow> u32" where
  "sub2 src1 src2 =
     pack (u32_of (msb16 src1 - msb16 src2)) (u32_of (lsb16 src1 - lsb16 src2))"

definition sadd2 :: "u32 \<Rightarrow> u32 \<Rightarrow> u32" where
  "sadd2 src1 src2 =
     pack (sat16 (msb16 src1 + msb16 src2)) (sat16 (lsb16 src1 + lsb16 src2))"

definition ssub2 :: "u32 \<Rightarrow> u32 \<Rightarrow> u32" where
  "ssub2 src1 src2 =
     pack (sat16 (msb16 src1 - msb16 src2)) (sat16 (lsb16 src1 - lsb16 src2))"

definition saddus2 :: "u32 \<Rightarrow> u32 \<Rightarrow> u32" where
  "saddus2 src1 src2 =
     pack (satu16 (uint (ucast (shr src1 16) :: u16) + msb16 src2))
          (satu16 (uint (ucast src1 :: u16) + lsb16 src2))"

definition max2 :: "u32 \<Rightarrow> u32 \<Rightarrow> u32" where
  "max2 src1 src2 =
     pack (u32_of (if msb16 src1 \<ge> msb16 src2 then msb16 src1 else msb16 src2))
          (u32_of (if lsb16 src1 \<ge> lsb16 src2 then lsb16 src1 else lsb16 src2))"

definition min2 :: "u32 \<Rightarrow> u32 \<Rightarrow> u32" where
  "min2 src1 src2 =
     pack (u32_of (if msb16 src1 \<le> msb16 src2 then msb16 src1 else msb16 src2))
          (u32_of (if lsb16 src1 \<le> lsb16 src2 then lsb16 src1 else lsb16 src2))"

definition avg2 :: "u32 \<Rightarrow> u32 \<Rightarrow> u32" where
  "avg2 src1 src2 =
     pack (asr (msb16 src1 + msb16 src2 + 1) 1) (asr (lsb16 src1 + lsb16 src2 + 1) 1)"

definition shr2 :: "u32 \<Rightarrow> u32 \<Rightarrow> u32" where
  "shr2 src2 src1 =
     (let count = unat (src1 AND 31)
      in pack (asr (msb16 src2) count) (asr (lsb16 src2) count))"

definition shru2 :: "u32 \<Rightarrow> u32 \<Rightarrow> u32" where
  "shru2 src2 src1 =
     (let count = unat (src1 AND 31)
      in pack (shr (ucast (ucast (shr src2 16) :: u16)) count)
              (shr (ucast (ucast src2 :: u16)) count))"

definition cmpeq2 :: "u32 \<Rightarrow> u32 \<Rightarrow> u32" where
  "cmpeq2 src1 src2 =
     shl (c_bool (msb16 src1 = msb16 src2)) 1 OR c_bool (lsb16 src1 = lsb16 src2)"

definition cmpgt2 :: "u32 \<Rightarrow> u32 \<Rightarrow> u32" where
  "cmpgt2 src1 src2 =
     shl (c_bool (msb16 src1 > msb16 src2)) 1 OR c_bool (lsb16 src1 > lsb16 src2)"

definition spack2 :: "u32 \<Rightarrow> u32 \<Rightarrow> u32" where
  "spack2 src1 src2 = pack (sat16 (sint src1)) (sat16 (sint src2))"

record packed16_sat =
  p16_value :: u32
  p16_saturated :: bool

definition sshv_count :: "u32 \<Rightarrow> bool \<Rightarrow> int" where
  "sshv_count src1 right =
     (let count = if right then - sint src1 else sint src1;
          count = if count > 31 then 31 else count
      in if count < - 31 then - 31 else count)"

definition sshv :: "u32 \<Rightarrow> u32 \<Rightarrow> bool \<Rightarrow> packed16_sat" where
  "sshv src2 src1 right =
     (let count = sshv_count src1 right in
      if count < 0
      then \<lparr>p16_value = asr (sint src2) (nat (- count)), p16_saturated = False\<rparr>
      else let shifted = sint src2 * 2 ^ nat count;
               saturated = (shifted > int32_max \<or> shifted < int32_min)
           in if \<not> saturated
              then \<lparr>p16_value = u32_of shifted, p16_saturated = False\<rparr>
              else \<lparr>p16_value = (if shifted > 0 then 0x7FFFFFFF else 0x80000000),
                    p16_saturated = True\<rparr>)"

section \<open>Reading the halves of a result\<close>

lemma msb16_uhalf: "msb16 w = sint (uhalf w 1)"
  by (simp add: msb16_def uhalf_def)

lemma lsb16_uhalf: "lsb16 w = sint (uhalf w 0)"
  by (simp add: lsb16_def uhalf_def)

lemma uhalf_pack [lane_simps]:
  "uhalf (pack h l) 0 = ucast l" "uhalf (pack h l) (Suc 0) = ucast h"
  by (rule bit_word_eqI; auto simp: uhalf_def pack_def bit_simps and_mask_numerals)+

lemma less_2_cases: "n < (2::nat) \<Longrightarrow> n = 0 \<or> n = Suc 0"
  by auto

lemma lanewise_packI:
  assumes "\<And>a b. op a b = pack (g (uhalf a 1) (uhalf b 1)) (g (uhalf a 0) (uhalf b 0))"
    and "\<And>x y. ucast (g x y) = f x y"
  shows "lanewise_closed 2 uhalf op f"
  by unfold_locales (auto simp: assms lane_simps dest!: less_2_cases intro: halves_eqI)

lemma asr_div:
  assumes "int32_min \<le> v" "v \<le> int32_max"
  shows "asr v c = u32_of (v div 2 ^ c)"
proof (cases "v < 0")
  case True
  then show ?thesis
    using assms bit_negative_int [of v 31]
    by (intro bit_word_eqI) (auto simp: asr_def bit_simps drop_bit_eq_div [symmetric] not_less)
next
  case False
  then show ?thesis
    using assms
    by (intro bit_word_eqI)
       (auto simp: asr_def bit_simps drop_bit_eq_div [symmetric] dest: bit_small_int [of v _ 31])
qed

lemma ucast_u32_of_u16: "ucast (u32_of k) = (word_of_int k :: u16)"
  by (rule bit_word_eqI) (simp add: bit_simps)

lemma ucast_masked_u16: "ucast ((w :: u32) AND 0xFFFF) = (ucast w :: u16)"
  by (rule bit_word_eqI) (simp add: bit_simps and_mask_numerals)

text \<open>The signed 16-bit clamp of SADD2, SSUB2 and SPACK2.\<close>

definition clamp16 :: "int \<Rightarrow> int" where
  "clamp16 v = max (- 32768) (min 32767 v)"

lemma clamp16_range [c_range]: "- 32768 \<le> clamp16 v" "clamp16 v \<le> 32767"
  by (simp_all add: clamp16_def)

lemma sat16_lane: "ucast (sat16 v) = (word_of_int (clamp16 v) :: u16)"
  by (auto simp: sat16_def ucast_masked_u16 ucast_u32_of_u16 clamp16_def)

lemma satu16_lane: "ucast (satu16 v) = (word_of_int (max 0 (min 65535 v)) :: u16)"
  by (auto simp: satu16_def ucast_masked_u16 ucast_u32_of_u16)

lemma abs16_lane: "ucast (abs16 v) = (word_of_int (if v = - 32768 then 32767 else \<bar>v\<bar>) :: u16)"
  by (auto simp: abs16_def ucast_masked_u16 ucast_u32_of_u16)

section \<open>Lane-wise correctness\<close>

lemma add_lane: "ucast (u32_of (sint x + sint y)) = (x + y :: u16)"
  by (subst ucast_u32_of_u16) (simp only: wi_hom_add [symmetric] of_sint)

lemma sub_lane: "ucast (u32_of (sint x - sint y)) = (x - y :: u16)"
  by (subst ucast_u32_of_u16) (simp only: wi_hom_sub [symmetric] of_sint)

interpretation add2: lanewise_closed 2 uhalf add2 "(+)"
  by (rule lanewise_packI [OF _ add_lane]) (simp only: add2_def msb16_uhalf lsb16_uhalf)

interpretation sub2: lanewise_closed 2 uhalf sub2 "(-)"
  by (rule lanewise_packI [OF _ sub_lane]) (simp only: sub2_def msb16_uhalf lsb16_uhalf)

interpretation sadd2: lanewise_closed 2 uhalf sadd2 "\<lambda>x y. word_of_int (clamp16 (sint x + sint y))"
  by (rule lanewise_packI [where g = "\<lambda>x y. sat16 (sint x + sint y)"])
     (simp_all add: sadd2_def msb16_uhalf lsb16_uhalf sat16_lane)

interpretation ssub2: lanewise_closed 2 uhalf ssub2 "\<lambda>x y. word_of_int (clamp16 (sint x - sint y))"
  by (rule lanewise_packI [where g = "\<lambda>x y. sat16 (sint x - sint y)"])
     (simp_all add: ssub2_def msb16_uhalf lsb16_uhalf sat16_lane)

interpretation saddus2: lanewise_closed 2 uhalf saddus2
    "\<lambda>x y. word_of_int (max 0 (min 65535 (uint x + sint y)))"
  by (rule lanewise_packI [where g = "\<lambda>x y. satu16 (uint x + sint y)"])
     (simp_all add: saddus2_def msb16_uhalf lsb16_uhalf satu16_lane uhalf_def)

interpretation max2: lanewise_closed 2 uhalf max2 "\<lambda>x y. word_of_int (max (sint x) (sint y))"
  by (rule lanewise_packI [where g = "\<lambda>x y. u32_of (if sint x \<ge> sint y then sint x else sint y)"])
     (simp_all add: max2_def msb16_uhalf lsb16_uhalf ucast_u32_of_u16 max_def)

interpretation min2: lanewise_closed 2 uhalf min2 "\<lambda>x y. word_of_int (min (sint x) (sint y))"
  by (rule lanewise_packI [where g = "\<lambda>x y. u32_of (if sint x \<le> sint y then sint x else sint y)"])
     (simp_all add: min2_def msb16_uhalf lsb16_uhalf ucast_u32_of_u16 min_def)

lemma avg_lane: "ucast (asr (sint (x :: u16) + sint (y :: u16) + 1) 1)
    = (word_of_int ((sint x + sint y + 1) div 2) :: u16)"
  using sint_u16_range [of x] sint_u16_range [of y]
  by (subst asr_div) (simp_all add: ucast_u32_of_u16)

interpretation avg2: lanewise_closed 2 uhalf avg2 "\<lambda>x y. word_of_int ((sint x + sint y + 1) div 2)"
  by (rule lanewise_packI [where g = "\<lambda>x y. asr (sint x + sint y + 1) 1", OF _ avg_lane])
     (simp only: avg2_def msb16_uhalf lsb16_uhalf)

lemma uhalf_abs2 [lane_simps]:
  "n < 2 \<Longrightarrow> uhalf (abs2 a) n =
     (let v = sint (uhalf a n) in word_of_int (if v = - 32768 then 32767 else \<bar>v\<bar>))"
  by (auto simp: abs2_def lane_simps abs16_lane msb16_uhalf lsb16_uhalf Let_def dest!: less_2_cases)

lemma uhalf_shr2 [lane_simps]:
  assumes "n < 2"
  shows "uhalf (shr2 a b) n = word_of_int (sint (uhalf a n) div 2 ^ unat (b AND 31))"
proof -
  have "asr (sint (h :: u16)) c = u32_of (sint h div 2 ^ c)" for h c
    using sint_u16_range [of h] by (intro asr_div) simp_all
  with less_2_cases [OF assms] show ?thesis
    by (auto simp: shr2_def lane_simps msb16_uhalf lsb16_uhalf Let_def ucast_u32_of_u16)
qed

lemma uhalf_shru2 [lane_simps]:
  assumes "n < 2"
  shows "uhalf (shru2 a b) n = shr (uhalf a n) (unat (b AND 31))"
proof -
  have "ucast (shr (ucast (h :: u16) :: u32) c) = shr h c" for h :: u16 and c
    by (rule bit_word_eqI) (auto simp: bit_simps dest: bit_imp_le_length)
  moreover have "shru2 a b = pack (shr (ucast (uhalf a (Suc 0))) (unat (b AND 31)))
      (shr (ucast (uhalf a 0)) (unat (b AND 31)))"
    by (simp add: shru2_def uhalf_def Let_def)
  ultimately show ?thesis
    using less_2_cases [OF assms] by (auto simp: lane_simps)
qed

lemma bit_cmp2:
  "bit (cmpeq2 a b) n \<longleftrightarrow> n < 2 \<and> uhalf a n = uhalf b n"
  "bit (cmpgt2 a b) n \<longleftrightarrow> n < 2 \<and> sint (uhalf a n) > sint (uhalf b n)"
proof -
  have *: "bit (shl (c_bool p) 1 OR c_bool q :: u32) n \<longleftrightarrow> (n = 1 \<and> p) \<or> (n = 0 \<and> q)" for p q
    by (auto simp: c_bool_def bit_simps)
  show "bit (cmpeq2 a b) n \<longleftrightarrow> n < 2 \<and> uhalf a n = uhalf b n"
    unfolding cmpeq2_def * by (auto simp: msb16_uhalf lsb16_uhalf sint_eq_iff dest!: less_2_cases)
  show "bit (cmpgt2 a b) n \<longleftrightarrow> n < 2 \<and> sint (uhalf a n) > sint (uhalf b n)"
    unfolding cmpgt2_def * by (auto simp: msb16_uhalf lsb16_uhalf dest!: less_2_cases)
qed

lemma spack2_halves [lane_simps]:
  "sint (uhalf (spack2 a b) 0) = clamp16 (sint b)"
  "sint (uhalf (spack2 a b) (Suc 0)) = clamp16 (sint a)"
  by (simp_all add: spack2_def lane_simps sat16_lane sint_of_int_u16 clamp16_range)

section \<open>The saturating variable shift\<close>

lemma sshv_count_clamp:
  "sshv_count b r = max (- 31) (min 31 (if r then - sint b else sint b))"
  by (simp add: sshv_count_def Let_def)

text \<open>The exact shift of an integer, and the signed 32-bit clamp.\<close>

definition shift_int :: "int \<Rightarrow> int \<Rightarrow> int" where
  "shift_int v c = (if c < 0 then v div 2 ^ nat (- c) else v * 2 ^ nat c)"

definition clamp32 :: "int \<Rightarrow> int" where "clamp32 v = max int32_min (min int32_max v)"

lemma sshv_eq:
  "sshv a b r = \<lparr>p16_value = u32_of (clamp32 (shift_int (sint a) (sshv_count b r))),
     p16_saturated = (clamp32 (shift_int (sint a) (sshv_count b r)) \<noteq> shift_int (sint a) (sshv_count b r))\<rparr>"
proof (cases "sshv_count b r < 0")
  case True
  have "sint a div 2 ^ k \<le> int32_max \<and> int32_min \<le> sint a div 2 ^ k" for k :: nat
    using sint_u32_range [of a] div_pow2_range [of int32_min "sint a" int32_max] by simp
  with True show ?thesis
    using sint_u32_range [of a]
    by (simp add: sshv_def Let_def shift_int_def asr_div clamp32_def)
next
  case False
  then show ?thesis
    by (auto simp: sshv_def Let_def shift_int_def clamp32_def)
qed

section \<open>Properties\<close>

text \<open>each half of every packed 16-bit instruction is the documented function of
  the operands' corresponding halves: wrapping and saturating sums and
  differences, the mixed-sign saturating sum, maximum, minimum, rounded average,
  saturated absolute value, and the arithmetic and logical shifts of SHR2/SHRU2
  with the count taken from the low five bits (so counts 16 to 31 need no case
  of their own).\<close>

theorem packed16_half_values:
  assumes "n < 2"
  shows "uhalf (add2 a b) n = uhalf a n + uhalf b n \<and>
    uhalf (sub2 a b) n = uhalf a n - uhalf b n \<and>
    sint (uhalf (sadd2 a b) n) = clamp16 (sint (uhalf a n) + sint (uhalf b n)) \<and>
    sint (uhalf (ssub2 a b) n) = clamp16 (sint (uhalf a n) - sint (uhalf b n)) \<and>
    uint (uhalf (saddus2 a b) n) = max 0 (min 65535 (uint (uhalf a n) + sint (uhalf b n))) \<and>
    sint (uhalf (max2 a b) n) = max (sint (uhalf a n)) (sint (uhalf b n)) \<and>
    sint (uhalf (min2 a b) n) = min (sint (uhalf a n)) (sint (uhalf b n)) \<and>
    sint (uhalf (avg2 a b) n) = (sint (uhalf a n) + sint (uhalf b n) + 1) div 2 \<and>
    sint (uhalf (abs2 a) n) = min 32767 \<bar>sint (uhalf a n)\<bar> \<and>
    sint (uhalf (shr2 a b) n) = sint (uhalf a n) div 2 ^ unat (b AND 31) \<and>
    uint (uhalf (shru2 a b) n) = uint (uhalf a n) div 2 ^ unat (b AND 31)"
  using sint_u16_range [of "uhalf a n"] sint_u16_range [of "uhalf b n"]
    div_pow2_range [of "- 32768" "sint (uhalf a n)" 32767 "unat (b AND 31)"]
  by (simp add: assms add2.op_lane sub2.op_lane sadd2.op_lane ssub2.op_lane saddus2.op_lane
      max2.op_lane min2.op_lane avg2.op_lane uhalf_abs2 uhalf_shr2 uhalf_shru2 Let_def
      sint_of_int_u16 uint_of_int_u16 clamp16_range uint_shr)

theorem packed16_half_values_witness:
  "sint (uhalf (sadd2 0x7FFF8000 0x0001FFFF) 1) = 32767 \<and>
   sint (uhalf (shr2 0x80000000 31) 1) = - 1"
  using packed16_half_values [of 1 "0x7FFF8000" "0x0001FFFF"]
    packed16_half_values [of 1 "0x80000000" 31]
  by (simp add: uhalf_def clamp16_def)

text \<open>SSHVL and SSHVR return the exact shift of the signed operand clamped to 32
  bits, with the shift value limited to -31..31 and its sign reversed for
  SSHVR, and report saturation exactly when the clamp changed the value.\<close>

theorem sshv_saturating_shift:
  "let exact = shift_int (sint src2) (max (- 31) (min 31 (if right then - sint src1 else sint src1)))
   in sint (p16_value (sshv src2 src1 right)) = clamp32 exact \<and>
      (p16_saturated (sshv src2 src1 right) \<longleftrightarrow> clamp32 exact \<noteq> exact)"
  by (simp add: Let_def sshv_eq sshv_count_clamp [symmetric] sint_of_int_u32 clamp32_def)

end
