(* ===== verification/C674x_Packbits.thy ===== *)
theory C674x_Packbits
  imports C674x_Packed8 C674x_Packed16
begin

text \<open>
  \<^verbatim>\<open>emulator/qemu/cdj_c674x_packbits.c\<close>: pack/unpack, shuffle, rotate, bit
  count and normalise instructions, and the dual-result add/subtract forms of
  the .L unit. A C loop that ORs one bit per iteration is a \<open>fold\<close> over its
  index range; a loop with an early exit is a structural recursion on its
  descending index.
\<close>

section \<open>Byte and bit permutations\<close>

definition unpkhu4 :: "u32 \<Rightarrow> u32" where
  "unpkhu4 src2 = shl (shr src2 24 AND 0xFF) 16 OR (shr src2 16 AND 0xFF)"

definition unpklu4 :: "u32 \<Rightarrow> u32" where
  "unpklu4 src2 = shl (shr src2 8 AND 0xFF) 16 OR (src2 AND 0xFF)"

definition swap4 :: "u32 \<Rightarrow> u32" where
  "swap4 src2 = shl (shr src2 16 AND 0xFF) 24 OR shl (shr src2 24 AND 0xFF) 16 OR
     shl (src2 AND 0xFF) 8 OR (shr src2 8 AND 0xFF)"

definition bitr :: "u32 \<Rightarrow> u32" where
  "bitr src2 = fold (\<lambda>i dst. dst OR shl (shr src2 i AND 1) (31 - i)) [0..<32] 0"

definition bitc4 :: "u32 \<Rightarrow> u32" where
  "bitc4 src2 = fold (\<lambda>byte dst.
     let count = fold (\<lambda>i count. count + (shr src2 (byte * 8 + i) AND 1)) [0..<8] 0
     in dst OR shl count (byte * 8)) [0..<4] 0"

definition deal :: "u32 \<Rightarrow> u32" where
  "deal src2 = fold (\<lambda>i dst. dst OR
     (shl (shr src2 (2 * i) AND 1) i OR shl (shr src2 (2 * i + 1) AND 1) (16 + i))) [0..<16] 0"

definition shfl :: "u32 \<Rightarrow> u32" where
  "shfl src2 = fold (\<lambda>i dst. dst OR
     (shl (shr src2 i AND 1) (2 * i) OR shl (shr src2 (16 + i) AND 1) (2 * i + 1))) [0..<16] 0"

definition shfl3 :: "u32 \<Rightarrow> u32 \<Rightarrow> u64" where
  "shfl3 src1 src2 =
     (let inp0 = src2 AND 0xFFFF; inp1 = src1 AND 0xFFFF; inp2 = shr src1 16 AND 0xFFFF
      in fold (\<lambda>i result. result OR
           (shl (ucast (shr inp0 i AND 1)) (i * 3) OR
            shl (ucast (shr inp1 i AND 1)) (i * 3 + 1) OR
            shl (ucast (shr inp2 i AND 1)) (i * 3 + 2))) [0..<16] 0)"

definition xpnd2 :: "u32 \<Rightarrow> u32" where
  "xpnd2 src2 = (if src2 AND 2 \<noteq> 0 then 0xFFFF0000 else 0) OR
                (if src2 AND 1 \<noteq> 0 then 0xFFFF else 0)"

definition xpnd4 :: "u32 \<Rightarrow> u32" where
  "xpnd4 src2 = fold (\<lambda>byte dst.
     dst OR (if shr src2 byte AND 1 \<noteq> 0 then shl 0xFF (byte * 8) else 0)) [0..<4] 0"

definition rotl :: "u32 \<Rightarrow> u32 \<Rightarrow> u32" where
  "rotl src2 src1 = (let n = unat (src1 AND 31)
     in if n \<noteq> 0 then shl src2 n OR shr src2 (32 - n) else src2)"

fun lmbd_loop :: "u32 \<Rightarrow> u32 \<Rightarrow> nat \<Rightarrow> u32" where
  "lmbd_loop wanted src2 0 = 32"
| "lmbd_loop wanted src2 (Suc i) =
     (if shr src2 i AND 1 = wanted then 31 - of_nat i else lmbd_loop wanted src2 i)"

definition lmbd :: "u32 \<Rightarrow> u32 \<Rightarrow> u32" where
  "lmbd src1 src2 = lmbd_loop (src1 AND 1) src2 32"

fun norm_loop :: "'a::len word \<Rightarrow> 'a word \<Rightarrow> nat \<Rightarrow> u32 \<Rightarrow> u32" where
  "norm_loop sign src2 0 count = count"
| "norm_loop sign src2 (Suc i) count =
     (if shr src2 i AND 1 \<noteq> sign then count else norm_loop sign src2 i (count + 1))"

definition norm32 :: "u32 \<Rightarrow> u32" where
  "norm32 src2 = norm_loop (shr src2 31 AND 1) src2 31 0"

definition norm40 :: "u64 \<Rightarrow> u32" where
  "norm40 src2 = norm_loop (shr src2 39 AND 1) src2 39 0"

definition shlmb :: "u32 \<Rightarrow> u32 \<Rightarrow> u32" where
  "shlmb src1 src2 = shl src2 8 OR (shr src1 24 AND 0xFF)"

definition shrmb :: "u32 \<Rightarrow> u32 \<Rightarrow> u32" where
  "shrmb src1 src2 = shl (src1 AND 0xFF) 24 OR shr src2 8"

definition dpack2 :: "u32 \<Rightarrow> u32 \<Rightarrow> u64" where
  "dpack2 src1 src2 =
     (let even = shl (src1 AND 0xFFFF) 16 OR (src2 AND 0xFFFF);
          odd = (src1 AND 0xFFFF0000) OR shr src2 16
      in shl (ucast odd) 32 OR ucast even)"

definition dpackx2 :: "u32 \<Rightarrow> u32 \<Rightarrow> u64" where
  "dpackx2 src1 src2 =
     (let even = shl (src1 AND 0xFFFF) 16 OR shr src2 16;
          odd = shl (src2 AND 0xFFFF) 16 OR shr src1 16
      in shl (ucast odd) 32 OR ucast even)"

section \<open>The dual-result add/subtract forms\<close>

definition sat32_signed :: "int \<Rightarrow> bool \<Rightarrow> int \<times> bool" where
  "sat32_signed v saturated =
     (if v > 0x7FFFFFFF then (0x7FFFFFFF, True)
      else if v < - 0x80000000 then (- 0x80000000, True)
      else (v, saturated))"

definition sat16_halves :: "int \<Rightarrow> int \<Rightarrow> u32" where
  "sat16_halves hi lo =
     (let hi = (if hi > 32767 then 32767 else if hi < - 32768 then - 32768 else hi);
          lo = (if lo > 32767 then 32767 else if lo < - 32768 then - 32768 else lo)
      in shl (u32_of hi AND 0xFFFF) 16 OR (u32_of lo AND 0xFFFF))"

record addsub_result =
  as_value :: u64
  as_saturated :: bool
  as_valid :: bool

definition addsub :: "u32 \<Rightarrow> u32 \<Rightarrow> u32 \<Rightarrow> addsub_result" where
  "addsub opfield src1 src2 =
     (let s1h = sint (ucast (shr src1 16) :: u16); s1l = sint (ucast (src1 AND 0xFFFF) :: u16);
          s2h = sint (ucast (shr src2 16) :: u16); s2l = sint (ucast (src2 AND 0xFFFF) :: u16);
          result = (\<lambda>add sub sat. \<lparr>as_value = shl (ucast (add :: u32)) 32 OR ucast (sub :: u32),
                                   as_saturated = sat, as_valid = True\<rparr>)
      in if opfield = 0x0C then result (src1 + src2) (src1 - src2) False
         else if opfield = 0x0D then
           result (shl (u32_of (s1h + s2h) AND 0xFFFF) 16 OR (u32_of (s1l + s2l) AND 0xFFFF))
                  (shl (u32_of (s1h - s2h) AND 0xFFFF) 16 OR (u32_of (s1l - s2l) AND 0xFFFF)) False
         else if opfield = 0x0E then
           (let (add, sat1) = sat32_signed (sint src1 + sint src2) False;
                (sub, sat2) = sat32_signed (sint src1 - sint src2) sat1
            in result (u32_of add) (u32_of sub) sat2)
         else if opfield = 0x0F then
           result (sat16_halves (s1h + s2h) (s1l + s2l)) (sat16_halves (s1h - s2h) (s1l - s2l)) False
         else \<lparr>as_value = 0, as_saturated = False, as_valid = False\<rparr>)"

section \<open>What the bits of each result are\<close>

lemma bit_bitr [lane_simps]: "bit (bitr w) k \<longleftrightarrow> k < 32 \<and> bit w (31 - k)"
proof
  assume "k < 32 \<and> bit w (31 - k)"
  then show "bit (bitr w) k"
    by (auto simp: bitr_def bit_fold_or bit_simps intro!: bexI [of _ "31 - k"])
qed (auto simp: bitr_def bit_fold_or bit_simps)

lemma bit_deal [lane_simps]:
  "bit (deal w) k \<longleftrightarrow> k < 16 \<and> bit w (2 * k) \<or> 16 \<le> k \<and> k < 32 \<and> bit w (2 * (k - 16) + 1)"
proof
  assume "k < 16 \<and> bit w (2 * k) \<or> 16 \<le> k \<and> k < 32 \<and> bit w (2 * (k - 16) + 1)"
  then show "bit (deal w) k"
    by (auto simp: deal_def bit_fold_or bit_simps intro: bexI [of _ k] bexI [of _ "k - 16"])
qed (auto simp: deal_def bit_fold_or bit_simps)

lemma bit_shfl [lane_simps]:
  "bit (shfl w) k \<longleftrightarrow> k < 32 \<and> bit w (if even k then k div 2 else 16 + k div 2)"
proof
  assume "k < 32 \<and> bit w (if even k then k div 2 else 16 + k div 2)"
  then show "bit (shfl w) k"
    by (auto simp: shfl_def bit_fold_or bit_simps elim!: evenE oddE intro: bexI [of _ "k div 2"] split: if_splits)
next
  have "k = Suc (2 * i)" if "Suc (2 * i) \<le> k" "k - Suc 0 = 2 * i" for i
    using that by arith
  then show "bit (shfl w) k \<Longrightarrow> k < 32 \<and> bit w (if even k then k div 2 else 16 + k div 2)"
    by (auto simp: shfl_def bit_fold_or bit_simps)
qed

lemma bitr_involution: "bitr (bitr w) = w"
  by (rule bit_word_eqI) (auto simp: lane_simps)

lemma deal_shfl: "deal (shfl w) = w"
  by (rule bit_word_eqI) (auto simp: lane_simps)

lemma shfl_deal: "shfl (deal w) = w"
  by (rule bit_word_eqI) (auto simp: lane_simps elim!: evenE oddE)

lemma ubyte_swap4 [lane_simps]:
  "ubyte (swap4 w) 0 = ubyte w 1" "ubyte (swap4 w) (Suc 0) = ubyte w 0"
  "ubyte (swap4 w) 2 = ubyte w 3" "ubyte (swap4 w) 3 = ubyte w 2"
  by (rule bit_word_eqI; auto simp: swap4_def ubyte_def bit_simps and_mask_numerals)+

lemma swap4_involution: "swap4 (swap4 w) = w"
  by (rule bytes_eqI) (auto simp: lane_simps dest!: less_4_cases)

lemma unat_low5: "unat ((s :: u32) AND 31) < 32"
  using take_bit_nat_less_exp [of 5 "unat s"] by (simp add: and_mask_numerals unsigned_take_bit_eq)

lemma rotl_word_rotl: "rotl w s = word_rotl (unat (s AND 31)) w"
proof (rule bit_word_eqI)
  fix k assume "k < LENGTH(32)"
  moreover have "(k + (32 - n)) mod 32 = (if n \<le> k then k - n else 32 + k - n)" if "n < 32" "k < 32" for n
    using that by (auto simp: mod_if)
  ultimately show "bit (rotl w s) k = bit (word_rotl (unat (s AND 31)) w) k"
    using unat_low5 [of s] by (auto simp: rotl_def Let_def bit_simps)
qed

text \<open>LMBD: every bit above the answer differs from the wanted bit, the answer's does not.\<close>

lemma lmbd_loop_spec:
  "k \<le> 32 \<Longrightarrow> (lmbd_loop (c_bool p) w k = 32 \<and> (\<forall>i<k. bit w i \<noteq> p)) \<or>
     (\<exists>i<k. lmbd_loop (c_bool p) w k = 31 - of_nat i \<and> bit w i = p \<and> (\<forall>j. i < j \<and> j < k \<longrightarrow> bit w j \<noteq> p))"
proof (induction k)
  case (Suc k)
  then show ?case
    by (cases "bit w k = p") (auto simp: and_1_bit less_Suc_eq)
qed simp

lemma norm_loop_spec:
  "\<exists>c\<le>k. norm_loop (c_bool p) w k n = n + of_nat c \<and>
     (\<forall>i. k - c \<le> i \<and> i < k \<longrightarrow> bit w i = p) \<and> (c < k \<longrightarrow> bit w (k - c - 1) \<noteq> p)"
proof (induction k arbitrary: n)
  case (Suc k)
  show ?case
  proof (cases "bit w k = p")
    case True
    obtain c where c: "c \<le> k" "norm_loop (c_bool p) w k (n + 1) = n + 1 + of_nat c"
        "\<forall>i. k - c \<le> i \<and> i < k \<longrightarrow> bit w i = p" "c < k \<longrightarrow> bit w (k - c - 1) \<noteq> p"
      using Suc [of "n + 1"] by blast
    with True show ?thesis
      by (intro exI [of _ "Suc c"]) (auto simp: and_1_bit less_Suc_eq)
  next
    case False
    then show ?thesis by (intro exI [of _ 0]) (auto simp: and_1_bit)
  qed
qed simp

lemma ubyte_shlmb [lane_simps]:
  "ubyte (shlmb a b) 0 = ubyte a 3" "ubyte (shlmb a b) (Suc n) = (if n < 3 then ubyte b n else 0)"
  by (rule bit_word_eqI; auto simp: shlmb_def ubyte_def bit_simps and_mask_numerals)+

lemma ubyte_shrmb [lane_simps]:
  "ubyte (shrmb a b) 3 = ubyte a 0" "n < 3 \<Longrightarrow> ubyte (shrmb a b) n = ubyte b (Suc n)"
  by (rule bit_word_eqI; auto simp: shrmb_def ubyte_def bit_simps and_mask_numerals algebra_simps)+

lemma uhalf64_dpack2 [lane_simps]:
  "uhalf64 (dpack2 a b) 0 = uhalf b 0" "uhalf64 (dpack2 a b) (Suc 0) = uhalf a 0"
  "uhalf64 (dpack2 a b) 2 = uhalf b (Suc 0)" "uhalf64 (dpack2 a b) 3 = uhalf a (Suc 0)"
  by (rule bit_word_eqI; auto simp: dpack2_def uhalf_def uhalf64_def bit_simps and_mask_numerals and_high_half)+

lemma uhalf64_dpackx2 [lane_simps]:
  "uhalf64 (dpackx2 a b) 0 = uhalf b (Suc 0)" "uhalf64 (dpackx2 a b) (Suc 0) = uhalf a 0"
  "uhalf64 (dpackx2 a b) 2 = uhalf a (Suc 0)" "uhalf64 (dpackx2 a b) 3 = uhalf b 0"
  by (rule bit_word_eqI; auto simp: dpackx2_def uhalf_def uhalf64_def bit_simps and_mask_numerals)+

lemma ubyte_unpk [lane_simps]:
  "n < 4 \<Longrightarrow> ubyte (unpkhu4 w) n = (if even n then ubyte w (2 + n div 2) else 0)"
  "n < 4 \<Longrightarrow> ubyte (unpklu4 w) n = (if even n then ubyte w (n div 2) else 0)"
  by (auto dest!: less_4_cases; rule bit_word_eqI;
      auto simp: unpkhu4_def unpklu4_def ubyte_def bit_simps and_mask_numerals)+

text \<open>SHFL3 interleaves three halfwords, one bit of each in turn.\<close>

lemma bit_shfl3_raw:
  "bit (shfl3 a b) k \<longleftrightarrow> (\<exists>i<16. (k = i * 3 \<and> bit b i) \<or> (k = i * 3 + 1 \<and> bit a i) \<or> (k = i * 3 + 2 \<and> bit a (16 + i)))"
  (is "_ \<longleftrightarrow> ?R")
proof -
  have *: "(shr (shr w j AND 0xFFFF) i AND 1) = c_bool (i < 16 \<and> bit w (j + i))"
     "(shr (w AND 0xFFFF) i AND 1) = c_bool (i < 16 \<and> bit w i)" for w :: u32 and i j
    unfolding and_1_bit by (auto simp: bit_simps and_mask_numerals)
  have u: "ucast (c_bool p :: u32) = (c_bool p :: u64)" for p by (simp add: c_bool_def)
  have e: "n \<le> k \<and> k < 64 \<and> k - n = 0 \<and> p \<longleftrightarrow> k = n \<and> n < 64 \<and> p" for n p
    by auto
  show ?thesis
    unfolding shfl3_def Let_def * u
    by (simp add: bit_fold_or bit_simps e Bex_def) fastforce
qed

lemma bit_shfl3:
  "bit (shfl3 a b) (i * 3) \<longleftrightarrow> i < 16 \<and> bit b i"
  "bit (shfl3 a b) (i * 3 + 1) \<longleftrightarrow> i < 16 \<and> bit a i"
  "bit (shfl3 a b) (i * 3 + 2) \<longleftrightarrow> i < 16 \<and> bit a (16 + i)"
proof -
  have "(i * 3 = j * 3 + 1) = False" "(i * 3 = j * 3 + 2) = False" "(i * 3 + 1 = j * 3) = False"
    "(i * 3 + 1 = j * 3 + 2) = False" "(i * 3 + 2 = j * 3) = False" "(i * 3 + 2 = j * 3 + 1) = False" for j
    by presburger+
  note * = this
  show "bit (shfl3 a b) (i * 3) \<longleftrightarrow> i < 16 \<and> bit b i"
  "bit (shfl3 a b) (i * 3 + 1) \<longleftrightarrow> i < 16 \<and> bit a i"
  "bit (shfl3 a b) (i * 3 + 2) \<longleftrightarrow> i < 16 \<and> bit a (16 + i)"
  by (simp_all only: bit_shfl3_raw *) auto
qed

lemma count_fold:
  "fold (\<lambda>i count. count + (shr (w :: u32) (m + i) AND 1)) xs (of_nat n) =
     (of_nat (n + length (filter (\<lambda>i. bit w (m + i)) xs)) :: u32)"
  unfolding and_1_bit
proof (induction xs arbitrary: n)
  case (Cons x xs)
  show ?case
    using Cons [of n] Cons [of "Suc n"]
    by (cases "bit w (m + x)") (simp_all add: ac_simps)
qed simp

text \<open>BITC4: each byte of the result is the number of one bits of that byte.\<close>

lemma ubyte_bitc4 [lane_simps]:
  assumes "n < 4"
  shows "ubyte (bitc4 w) n = of_nat (length (filter (bit (ubyte w n)) [0..<8]))"
proof -
  let ?c = "\<lambda>k. length (filter (\<lambda>i. bit w (k * 8 + i)) [0..<8])"
  have le: "?c k \<le> 8" for k
    by (rule order_trans [OF length_filter_le]) simp
  have "(of_nat (?c k) :: u32) AND 0xFF = of_nat (?c k)" for k
  proof (rule unsigned_word_eqI)
    show "unat ((of_nat (?c k) :: u32) AND 0xFF) = unat (of_nat (?c k) :: u32)"
      using le [of k] by (simp add: and_mask_numerals unsigned_take_bit_eq unsigned_of_nat
          take_bit_nat_eq_self)
  qed
  note masked = this
  have "fold (\<lambda>i count. count + (shr w (k * 8 + i) AND 1)) [0..<8] 0 = (of_nat (?c k) :: u32)" for k
    using count_fold [where n = 0 and w = w and m = "k * 8" and xs = "[0..<8]"] by simp
  then have "bitc4 w = fold (\<lambda>k result. result OR shl ((of_nat (?c k) :: u32) AND 0xFF) (k * 8)) [0..<4] 0"
    unfolding bitc4_def Let_def masked by (simp only:)
  then have "ubyte (bitc4 w) n = ucast (of_nat (?c n) :: u32)"
    using ubyte_fold [OF assms] by simp
  also have "\<dots> = of_nat (?c n)"
    using le [of n] by (intro unsigned_word_eqI) (simp add: unsigned_ucast_eq unsigned_of_nat take_bit_nat_eq_self)
  also have "filter (\<lambda>i. bit w (n * 8 + i)) [0..<8] = filter (bit (ubyte w n)) [0..<8]"
    by (rule filter_cong) (auto simp: ubyte_def bit_simps)
  finally show ?thesis .
qed

text \<open>XPND4 spreads the result bits of a 4x8 compare over the compared bytes.\<close>

lemma ubyte_xpnd4 [lane_simps]:
  assumes "n < 4"
  shows "ubyte (xpnd4 w) n = (if bit w n then 0xFF else 0)"
proof -
  have "(if shr w byte AND 1 \<noteq> 0 then shl 0xFF (byte * 8) else 0)
      = shl ((if bit w byte then 0xFF else 0) AND 0xFF) (byte * 8)" for byte
    unfolding and_1_bit by simp
  note * = this
  have "xpnd4 w = fold (\<lambda>byte dst. dst OR shl ((if bit w byte then 0xFF else 0) AND 0xFF) (byte * 8)) [0..<4] 0"
    unfolding xpnd4_def * by (rule refl)
  then show ?thesis using ubyte_fold [OF assms] by simp
qed

lemma uhalf_xpnd2 [lane_simps]:
  "uhalf (xpnd2 w) 0 = (if bit w 0 then 0xFFFF else 0)"
  "uhalf (xpnd2 w) (Suc 0) = (if bit w 1 then 0xFFFF else 0)"
proof -
  have "(w AND 1 \<noteq> 0) = bit w 0" "(w AND 2 \<noteq> 0) = bit w 1"
    using and_exp_eq_0_iff_not_bit [of w 0] and_exp_eq_0_iff_not_bit [of w 1] by auto
  then have *: "xpnd2 w = (if bit w 1 then 0xFFFF0000 else 0) OR (if bit w 0 then 0xFFFF else 0)"
    unfolding xpnd2_def by simp
  show "uhalf (xpnd2 w) 0 = (if bit w 0 then 0xFFFF else 0)"
    "uhalf (xpnd2 w) (Suc 0) = (if bit w 1 then 0xFFFF else 0)"
    unfolding * uhalf_def by auto
qed

lemma sat32_signed_clamp:
  "sat32_signed v s = (clamp32 v, s \<or> clamp32 v \<noteq> v)"
  by (auto simp: sat32_signed_def clamp32_def)

lemma sat16_halves_pack: "sat16_halves h l = pack (sat16 h) (sat16 l)"
  by (simp add: sat16_halves_def pack_def sat16_def and.assoc)

lemma low_half_eq: "sint (ucast ((w :: u32) AND 0xFFFF) :: u16) = lsb16 w"
  by (simp add: lsb16_def ucast_masked_u16)

text \<open>The four dual forms against the single-result instructions of the packed 16-bit file.\<close>

lemma addsub_forms:
  "addsub 0x0C a b = \<lparr>as_value = shl (ucast (a + b)) 32 OR ucast (a - b),
     as_saturated = False, as_valid = True\<rparr>"
  "addsub 0x0D a b = \<lparr>as_value = shl (ucast (add2 a b)) 32 OR ucast (sub2 a b),
     as_saturated = False, as_valid = True\<rparr>"
  "addsub 0x0E a b = \<lparr>as_value =
       shl (ucast (u32_of (clamp32 (sint a + sint b)))) 32 OR ucast (u32_of (clamp32 (sint a - sint b))),
     as_saturated = (clamp32 (sint a + sint b) \<noteq> sint a + sint b \<or> clamp32 (sint a - sint b) \<noteq> sint a - sint b),
     as_valid = True\<rparr>"
  "addsub 0x0F a b = \<lparr>as_value = shl (ucast (sadd2 a b)) 32 OR ucast (ssub2 a b),
     as_saturated = False, as_valid = True\<rparr>"
  unfolding addsub_def low_half_eq msb16_def [symmetric] Let_def sat32_signed_clamp sat16_halves_pack
    add2_def sub2_def sadd2_def ssub2_def pack_def
  by simp_all

lemma addsub_valid_iff: "as_valid (addsub opfield a b) \<longleftrightarrow> opfield \<in> {0x0C, 0x0D, 0x0E, 0x0F}"
  unfolding addsub_def Let_def by (simp split: prod.splits)

section \<open>Properties\<close>

text \<open>C40: the permutation instructions are permutations: SHFL and DEAL are inverse to each
  other, BITR and SWAP4 are their own inverses, and ROTL is the library's word
  rotation by the low five bits of its count, so rotating on by the
  complementary count restores the operand.\<close>

theorem permutations_round_trip:
  "deal (shfl w) = w \<and> shfl (deal w) = w \<and> bitr (bitr w) = w \<and> swap4 (swap4 w) = w \<and>
   rotl w s = word_rotl (unat (s AND 31)) w \<and>
   word_rotr (unat (s AND 31)) (rotl w s) = w"
  by (simp add: deal_shfl shfl_deal bitr_involution swap4_involution rotl_word_rotl)

text \<open>LMBD returns the number of bits to the left of the first bit of src2 that equals
  the low bit of src1, and 32 when there is none.\<close>

theorem lmbd_leftmost_bit:
  "(lmbd src1 src2 = 32 \<and> (\<forall>i<32. bit src2 i \<noteq> bit src1 0)) \<or>
   (\<exists>i<32. lmbd src1 src2 = 31 - of_nat i \<and> bit src2 i = bit src1 0 \<and>
           (\<forall>j. i < j \<and> j < 32 \<longrightarrow> bit src2 j \<noteq> bit src1 0))"
proof -
  have "lmbd src1 src2 = lmbd_loop (c_bool (bit src1 0)) src2 32"
    using and_1_bit [of 0 src1] by (simp add: lmbd_def)
  then show ?thesis using lmbd_loop_spec [where k = 32 and p = "bit src1 0" and w = src2] by simp
qed

text \<open>NORM counts the redundant sign bits: the top \<open>c\<close> bits below the sign agree with
  it and the next one, when there is one, does not; at 32 and at 40 bits.\<close>

theorem norm_redundant_sign_bits:
  "(\<exists>c\<le>31. norm32 w = of_nat c \<and> (\<forall>i. 31 - c \<le> i \<and> i < 31 \<longrightarrow> bit w i = bit w 31) \<and>
      (c < 31 \<longrightarrow> bit w (30 - c) \<noteq> bit w 31)) \<and>
   (\<exists>c\<le>39. norm40 v = of_nat c \<and> (\<forall>i. 39 - c \<le> i \<and> i < 39 \<longrightarrow> bit v i = bit v 39) \<and>
      (c < 39 \<longrightarrow> bit v (38 - c) \<noteq> bit v 39))"
  using norm_loop_spec [of 31 "bit w 31" w 0] norm_loop_spec [of 39 "bit v 39" v 0]
  unfolding norm32_def norm40_def and_1_bit by simp

theorem norm_redundant_sign_bits_witness:
  "\<exists>c\<le>31. norm32 0x00010000 = of_nat c \<and> (c = 31 \<or> bit (0x00010000 :: u32) (30 - c))"
proof -
  have *: "\<not> bit (0x00010000 :: u32) 31" by simp
  obtain c where c: "c \<le> 31" "norm32 0x00010000 = of_nat c"
    "c < 31 \<longrightarrow> bit (0x00010000 :: u32) (30 - c) \<noteq> bit (0x00010000 :: u32) 31"
    using norm_redundant_sign_bits [of "0x00010000" 1] by blast
  then have "c = 31 \<or> bit (0x00010000 :: u32) (30 - c)" using * by auto
  then show ?thesis using c by blast
qed

text \<open>expanding a byte compare with XPND4 gives the byte mask of the lanes where the
  compare held, and BITC4 counts the one bits of each byte.\<close>

theorem compare_expand_mask:
  assumes "n < 4"
  shows "ubyte (xpnd4 (cmpeq4 a b)) n = (if ubyte a n = ubyte b n then 0xFF else 0) \<and>
    ubyte (xpnd4 (cmpgtu4 a b)) n = (if ubyte a n > ubyte b n then 0xFF else 0) \<and>
    unat (ubyte (bitc4 a) n) = length (filter (bit (ubyte a n)) [0..<8])"
proof -
  have "length (filter (bit (ubyte a n)) [0..<8]) \<le> 8"
    by (rule order_trans [OF length_filter_le]) simp
  then show ?thesis
    using assms by (simp add: lane_simps unsigned_of_nat take_bit_nat_eq_self)
qed

theorem compare_expand_mask_witness:
  "ubyte (xpnd4 (cmpeq4 0x11223344 0x11003300)) 3 = 0xFF \<and>
   ubyte (xpnd4 (cmpeq4 0x11223344 0x11003300)) 2 = 0"
  using compare_expand_mask [of 3 "0x11223344" "0x11003300"]
    compare_expand_mask [of 2 "0x11223344" "0x11003300"]
  by (simp add: ubyte_def)

text \<open>the dual-result forms put the sum in the odd register and the difference in the
  even one; ADDSUB2 and SADDSUB2 are the packed 16-bit instructions run side by
  side, SADDSUB clamps to 32 bits and is the only form that reports saturation,
  exactly when a clamp changed a value.\<close>

theorem addsub_dual_results:
  "ucast (shr (as_value (addsub 0x0D a b)) 32) = add2 a b \<and>
   ucast (as_value (addsub 0x0D a b)) = sub2 a b \<and>
   ucast (shr (as_value (addsub 0x0F a b)) 32) = sadd2 a b \<and>
   ucast (as_value (addsub 0x0F a b)) = ssub2 a b \<and>
   sint (ucast (shr (as_value (addsub 0x0E a b)) 32) :: u32) = clamp32 (sint a + sint b) \<and>
   sint (ucast (as_value (addsub 0x0E a b)) :: u32) = clamp32 (sint a - sint b) \<and>
   (as_saturated (addsub opfield a b) \<longleftrightarrow> opfield = 0x0E \<and>
      (clamp32 (sint a + sint b) \<noteq> sint a + sint b \<or> clamp32 (sint a - sint b) \<noteq> sint a - sint b))"
proof -
  have "as_saturated (addsub opfield a b) \<Longrightarrow> opfield = 0x0E"
    unfolding addsub_def Let_def by (auto split: if_splits prod.splits)
  then show ?thesis
    using addsub_forms(3) [of a b]
    by (auto simp: addsub_forms lane_simps sint_of_int_u32 clamp32_def)
qed

end
