(* ===== verification/C674x_Mpy.thy ===== *)
theory C674x_Mpy
  imports C674x_Packed16
begin

text \<open>
  \<^verbatim>\<open>emulator/qemu/cdj_c674x_mpy.c\<close> and \<^verbatim>\<open>cdj_c674x_mpy32.c\<close>: the saturating
  16x16 multiplies, 32-bit multiply, Galois-field multiply, and the 40-bit long
  instructions of the .L and .S units. A 40-bit long is the low 40 bits of a
  64-bit register pair; \<open>sx40\<close> is its signed value.
\<close>

section \<open>16x16 and 32x32 multiplies\<close>

record mpy_result =
  mpy_value :: u32
  mpy_saturated :: bool

definition smpy16 :: "u32 \<Rightarrow> u32 \<Rightarrow> bool \<Rightarrow> bool \<Rightarrow> mpy_result" where
  "smpy16 src1 src2 src1_high src2_high =
     (let left = sint (ucast (if src1_high then shr src1 16 else src1) :: u16);
          right = sint (ucast (if src2_high then shr src2 16 else src2) :: u16);
          shifted = shl (u32_of (left * right)) 1;
          saturated = (shifted = 0x80000000)
      in \<lparr>mpy_value = (if saturated then 0x7FFFFFFF else shifted), mpy_saturated = saturated\<rparr>)"

definition mpyi :: "u32 \<Rightarrow> u32 \<Rightarrow> u64" where
  "mpyi src1 src2 = u64_of (sint src1 * sint src2)"

definition mpy2 :: "u32 \<Rightarrow> u32 \<Rightarrow> u64" where
  "mpy2 src1 src2 =
     (let low = u32_of (sint (ucast src1 :: u16) * sint (ucast src2 :: u16));
          high = u32_of (sint (ucast (shr src1 16) :: u16) * sint (ucast (shr src2 16) :: u16))
      in shl (ucast high) 32 OR ucast low)"

section \<open>Galois-field multiplies\<close>

definition gmpy_byte :: "u32 \<Rightarrow> u32 \<Rightarrow> u32 \<Rightarrow> nat \<Rightarrow> u32" where
  "gmpy_byte a b poly sz =
     (let m = sz + 1; msk = shl 1 m - 1; generator = shl 1 m OR (poly AND msk);
          a = a AND msk; b = b AND msk;
          product = fold (\<lambda>i product.
            if shr b i AND 1 \<noteq> 0 then product XOR shl a i else product) [0..<8] 0;
          product = fold (\<lambda>i product.
            if shr product i AND 1 \<noteq> 0 then product XOR shl generator (i - m) else product)
            (rev [m..<16]) product
      in product AND msk)"

definition gmpy4 :: "u32 \<Rightarrow> u32 \<Rightarrow> u32 \<Rightarrow> nat \<Rightarrow> u32" where
  "gmpy4 src1 src2 poly sz =
     fold (\<lambda>n result. result OR
       shl (gmpy_byte (shr src1 (n * 8) AND 0xFF) (shr src2 (n * 8) AND 0xFF) poly sz AND 0xFF) (n * 8))
       [0..<4] 0"

definition gmpy_word_step :: "u32 \<Rightarrow> u32 \<Rightarrow> u32 \<Rightarrow> nat \<Rightarrow> u32 \<Rightarrow> u32" where
  "gmpy_word_step src1 src2 poly k product =
     (let product = (if src2 AND shl 1 k \<noteq> 0 then product XOR src1 else product);
          carry = (product AND 0x80000000 \<noteq> 0);
          product = shl product 1
      in if carry then product XOR poly else product)"

definition gmpy_word :: "u32 \<Rightarrow> u32 \<Rightarrow> u32 \<Rightarrow> u32" where
  "gmpy_word src1 src2 poly =
     (let product = fold (gmpy_word_step src1 src2 poly) (rev [1..<9]) 0
      in if src2 AND 1 \<noteq> 0 then product XOR src1 else product)"

section \<open>Signed longs and single-word arithmetic\<close>

abbreviation LONG40_MASK :: u64 where
  "LONG40_MASK \<equiv> 0xFFFFFFFFFF"

definition sx40 :: "u64 \<Rightarrow> int" where
  "sx40 raw = sint ((raw AND LONG40_MASK) XOR shl 1 39) - 2 ^ 39"

definition sat40 :: "u64 \<Rightarrow> u32 \<times> bool" where
  "sat40 src2 =
     (let value = sx40 src2; saturated = (value > 0x7FFFFFFF \<or> value < - 0x80000000)
      in if value > 0x7FFFFFFF then (0x7FFFFFFF, saturated)
         else if value < - 0x80000000 then (0x80000000, saturated)
         else (u32_of value, saturated))"

definition subc :: "u32 \<Rightarrow> u32 \<Rightarrow> u32" where
  "subc src1 src2 = (if src1 \<ge> src2 then shl (src1 - src2) 1 + 1 else shl src1 1)"

definition abs32 :: "u32 \<Rightarrow> u32" where
  "abs32 src2 =
     (if src2 = 0x80000000 then 0x7FFFFFFF
      else if src2 AND 0x80000000 \<noteq> 0 then 0 - src2 else src2)"

definition abs40 :: "u64 \<Rightarrow> u64" where
  "abs40 src2 =
     (let value = src2 AND LONG40_MASK
      in if value = shl 1 39 then shl 1 39 - 1
         else if value AND shl 1 39 = 0 then value
         else (0 - value) AND LONG40_MASK)"

datatype shift40_op = SHIFT40_LEFT | SHIFT40_ARITHMETIC | SHIFT40_LOGICAL

definition shift40 :: "u64 \<Rightarrow> u32 \<Rightarrow> shift40_op \<Rightarrow> u64" where
  "shift40 src2 count operation =
     (let value = src2 AND LONG40_MASK;
          n = (if count AND 63 > 39 then 40 else unat (count AND 63))
      in if operation = SHIFT40_LEFT then shl value n AND LONG40_MASK
         else if operation = SHIFT40_LOGICAL then shr value n
         else let shifted = shr value n;
                  shifted = (if n \<noteq> 0 \<and> value AND shl 1 39 \<noteq> 0
                             then shifted OR shl LONG40_MASK (40 - n) else shifted)
              in shifted AND LONG40_MASK)"

section \<open>Exact products\<close>

lemma abs_prod_le:
  assumes "\<bar>a\<bar> \<le> m" "\<bar>b\<bar> \<le> n"
  shows "\<bar>a * b\<bar> \<le> m * (n :: int)"
proof -
  have "0 \<le> m" using assms(1) by linarith
  then show ?thesis unfolding abs_mult by (intro mult_mono assms abs_ge_zero)
qed

lemma prod16_range:
  "- 1073709056 \<le> sint (x :: u16) * sint (y :: u16)" "sint x * sint y \<le> 1073741824"
proof -
  have r: "- 32768 \<le> sint x" "sint x \<le> 32767" "- 32768 \<le> sint y" "sint y \<le> 32767"
    using sint_u16_range [of x] sint_u16_range [of y] by auto
  have "\<bar>sint x * sint y\<bar> \<le> 32768 * 32768" using r by (intro abs_prod_le) auto
  then show "sint x * sint y \<le> 1073741824" by auto
  show "- 1073709056 \<le> sint x * sint y"
  proof (cases "sint x = - 32768")
    case False
    then have "\<bar>sint x * sint y\<bar> \<le> 32767 * 32768" using r by (intro abs_prod_le) auto
    then show ?thesis by auto
  qed (use r in simp)
qed

lemma prod16_max_iff: "sint (x :: u16) * sint (y :: u16) = 1073741824 \<longleftrightarrow> x = 0x8000 \<and> y = 0x8000"
proof
  assume *: "sint x * sint y = 1073741824"
  have r: "\<bar>sint x\<bar> \<le> 32768" "\<bar>sint y\<bar> \<le> 32768"
    using sint_u16_range [of x] sint_u16_range [of y] by auto
  have p: "\<bar>sint x\<bar> * \<bar>sint y\<bar> = 32768 * 32768" using * by (simp flip: abs_mult)
  have "\<bar>sint x\<bar> = 32768"
  proof (rule ccontr)
    assume "\<bar>sint x\<bar> \<noteq> 32768"
    with r have "\<bar>sint x\<bar> \<le> 32767" by simp
    with r have "\<bar>sint x\<bar> * \<bar>sint y\<bar> \<le> 32767 * 32768" by (intro mult_mono) simp_all
    with p show False by simp
  qed
  moreover from this p have "\<bar>sint y\<bar> = 32768" by simp
  ultimately have "sint x = - 32768" "sint y = - 32768"
    using sint_u16_range [of x] sint_u16_range [of y] by auto
  then have "sint x = sint (0x8000 :: u16)" "sint y = sint (0x8000 :: u16)" by simp_all
  then show "x = 0x8000 \<and> y = 0x8000" by (simp only: sint_eq_iff)
qed simp

lemma shl_u32_of: "shl (u32_of v) n = u32_of (v * 2 ^ n)"
  by (simp add: push_bit_eq_mult wi_hom_mult [symmetric] word_of_int_2p)

lemma sint_of_prod16: "sint (u32_of (sint (x :: u16) * sint (y :: u16))) = sint x * sint y"
  using prod16_range [of x y] by (intro sint_of_int_u32) simp_all

lemma doubled_product_saturates:
  assumes "- 1073709056 \<le> v" "v \<le> 1073741824"
  shows "u32_of (v * 2) = 0x80000000 \<longleftrightarrow> v = 1073741824"
    and "sint (if u32_of (v * 2) = 0x80000000 then 0x7FFFFFFF else u32_of (v * 2)) = clamp32 (2 * v)"
proof -
  show s: "u32_of (v * 2) = 0x80000000 \<longleftrightarrow> v = 1073741824"
  proof
    assume *: "u32_of (v * 2) = 0x80000000"
    show "v = 1073741824"
    proof (rule ccontr)
      assume "v \<noteq> 1073741824"
      then have "sint (u32_of (v * 2)) = v * 2" using assms by (intro sint_of_int_u32) simp_all
      with * assms show False by simp
    qed
  qed simp
  show "sint (if u32_of (v * 2) = 0x80000000 then 0x7FFFFFFF else u32_of (v * 2)) = clamp32 (2 * v)"
  proof (cases "v = 1073741824")
    case False
    then have "sint (u32_of (v * 2)) = v * 2" using assms by (intro sint_of_int_u32) simp_all
    with False s assms show ?thesis by (simp add: clamp32_def del: of_int_mult)
  qed (simp add: clamp32_def)
qed

lemma smpy16_eq:
  fixes a b :: u32 and ah bh :: bool
  defines "x \<equiv> uhalf a (if ah then 1 else 0)" and "y \<equiv> uhalf b (if bh then 1 else 0)"
  shows "sint (mpy_value (smpy16 a b ah bh)) = clamp32 (2 * (sint x * sint y))"
    and "mpy_saturated (smpy16 a b ah bh) \<longleftrightarrow> x = 0x8000 \<and> y = 0x8000"
proof -
  have h: "ucast (if ah then shr a 16 else a) = x" "ucast (if bh then shr b 16 else b) = y"
    by (simp_all add: x_def y_def uhalf_def)
  have e: "smpy16 a b ah bh =
      \<lparr>mpy_value = (if u32_of (sint x * sint y * 2) = 0x80000000 then 0x7FFFFFFF
                     else u32_of (sint x * sint y * 2)),
       mpy_saturated = (u32_of (sint x * sint y * 2) = 0x80000000)\<rparr>"
    unfolding smpy16_def h Let_def shl_u32_of power_one_right by (rule refl)
  note s = doubled_product_saturates [OF prod16_range [of x y]]
  show "mpy_saturated (smpy16 a b ah bh) \<longleftrightarrow> x = 0x8000 \<and> y = 0x8000"
    unfolding e by (simp only: mpy_result.simps s(1) prod16_max_iff)
  show "sint (mpy_value (smpy16 a b ah bh)) = clamp32 (2 * (sint x * sint y))"
    unfolding e by (simp only: mpy_result.simps s(2))
qed

lemma sint_mpyi: "sint (mpyi a b) = sint a * sint b"
proof -
  have "\<bar>sint a * sint b\<bar> \<le> 2147483648 * 2147483648"
    using sint_u32_range [of a] sint_u32_range [of b] by (intro abs_prod_le) auto
  then show ?thesis
    by (simp only: mpyi_def signed_of_int of_int_eq_id id_apply)
       (rule signed_take_bit_int_eq_self, simp_all)
qed

lemma mpy2_products:
  "sint (ucast (mpy2 a b) :: u32) = sint (uhalf a 0) * sint (uhalf b 0)"
  "sint (ucast (shr (mpy2 a b) 32) :: u32) = sint (uhalf a 1) * sint (uhalf b 1)"
  unfolding mpy2_def Let_def pair_low pair_high sint_of_prod16
  by (simp_all add: uhalf_def)

section \<open>Galois-field arithmetic\<close>

text \<open>The carry-less product of the loop, over the low \<open>n\<close> bits of the multiplier.\<close>

definition clmul :: "nat \<Rightarrow> u32 \<Rightarrow> u32 \<Rightarrow> u32" where
  "clmul n a b = fold (\<lambda>i product.
     if shr b i AND 1 \<noteq> 0 then product XOR shl a i else product) [0..<n] 0"

definition xor_linear :: "(u32 \<Rightarrow> u32) \<Rightarrow> bool" where
  "xor_linear h \<longleftrightarrow> (\<forall>p q. h (p XOR q) = h p XOR h q)"

lemma xor_linearD: "xor_linear h \<Longrightarrow> h (p XOR q) = h p XOR h q"
  by (simp add: xor_linear_def)

lemma xor_linear_fold: "(\<And>i. xor_linear (h i)) \<Longrightarrow> xor_linear (fold h xs)"
  by (induction xs) (simp_all add: xor_linear_def)

lemma xor_linear_comp: "xor_linear f \<Longrightarrow> xor_linear g \<Longrightarrow> xor_linear (\<lambda>p. f (g p))"
  by (simp add: xor_linear_def)

lemma xor_linear_and: "xor_linear (\<lambda>p. p AND c)"
  unfolding xor_linear_def by (intro allI bit_word_eqI) (auto simp: bit_simps)

lemma xor_linear_reduce: "xor_linear (\<lambda>p. if shr p i AND 1 \<noteq> 0 then p XOR c else p)"
  unfolding xor_linear_def and_1_bit
  by (intro allI) (auto simp: bit_simps c_bool_def xor.assoc xor.left_commute xor.commute)

lemma xor_fold_combine:
  assumes "\<And>i x y. h i (x XOR y) = f i x XOR (g i y :: u32)"
  shows "fold h xs (x XOR y) = fold f xs x XOR fold g xs y"
  using assms by (induction xs arbitrary: x y) simp_all

lemma clmul_linear: "xor_linear (clmul n a)" "xor_linear (\<lambda>a. clmul n a b)"
proof -
  show "xor_linear (clmul n a)"
    unfolding xor_linear_def clmul_def and_1_bit
    by (intro allI, subst (2) xor_self_eq [of 0, symmetric], rule xor_fold_combine)
       (auto simp: bit_simps c_bool_def xor.assoc xor.left_commute xor.commute)
  show "xor_linear (\<lambda>a. clmul n a b)"
    unfolding xor_linear_def clmul_def and_1_bit
    by (intro allI, subst (2) xor_self_eq [of 0, symmetric], rule xor_fold_combine)
       (auto simp: push_bit_xor c_bool_def xor.assoc xor.left_commute xor.commute)
qed

lemma clmul_Suc: "clmul (Suc n) a b = (if bit b n then clmul n a b XOR shl a n else clmul n a b)"
  by (simp add: clmul_def and_1_bit)

lemma clmul_0 [simp]: "clmul 0 a b = 0"
  by (simp add: clmul_def)

lemma clmul_zero [simp]: "clmul n a 0 = 0"
  by (induction n) (simp_all add: clmul_Suc)

lemma clmul_none: "n \<le> k \<Longrightarrow> clmul n a (shl 1 k) = 0"
  by (induction n) (auto simp: clmul_Suc bit_simps)

lemma clmul_power: "k < n \<Longrightarrow> n \<le> 32 \<Longrightarrow> clmul n a (shl 1 k) = shl a k"
proof (induction n)
  case (Suc n)
  then show ?case by (cases "k = n") (auto simp: clmul_Suc clmul_none bit_simps simp del: push_bit_of_1)
qed simp

lemma clmul_bit_out:
  assumes "\<And>i. m \<le> i \<Longrightarrow> \<not> bit a i" "m + n \<le> Suc k"
  shows "\<not> bit (clmul n a b) k"
  using assms(2) by (induction n) (auto simp: clmul_Suc bit_simps assms(1))

section \<open>The reduction loop\<close>

definition gf_reduce :: "nat \<Rightarrow> u32 \<Rightarrow> nat list \<Rightarrow> u32 \<Rightarrow> u32" where
  "gf_reduce m g = fold (\<lambda>i product.
     if shr product i AND 1 \<noteq> 0 then product XOR shl g (i - m) else product)"

text \<open>Reducing from bit 15 down leaves a remainder: the product differs from it
  by a multiple of the generator, and no bit at or above \<open>m\<close> is left.\<close>

lemma rev_upt_Suc: "m \<le> n \<Longrightarrow> rev [m..<Suc n] = n # rev [m..<n]"
  by simp

lemma gf_reduce_multiple:
  assumes "m \<le> n" "n \<le> 16" "0 < m"
  shows "\<exists>q. gf_reduce m g (rev [m..<n]) p = p XOR clmul 16 g q"
  using assms
proof (induction n arbitrary: p)
  case (Suc n)
  show ?case
  proof (cases "m = Suc n")
    case False
    define p' where "p' = (if shr p n AND 1 \<noteq> 0 then p XOR shl g (n - m) else p)"
    have "m \<le> n" "n \<le> 16" using False Suc.prems by auto
    then obtain q where q: "gf_reduce m g (rev [m..<n]) p' = p' XOR clmul 16 g q"
      using Suc.IH [of p'] Suc.prems by auto
    have e: "gf_reduce m g (rev [m..<Suc n]) p = gf_reduce m g (rev [m..<n]) p'"
      using \<open>m \<le> n\<close> by (simp add: gf_reduce_def p'_def)
    show ?thesis
    proof (cases "shr p n AND 1 \<noteq> 0")
      case True
      have "clmul 16 g (shl 1 (n - m)) = shl g (n - m)"
        using Suc.prems by (intro clmul_power) auto
      then have "p' XOR clmul 16 g q = p XOR clmul 16 g (shl 1 (n - m) XOR q)"
        using True xor_linearD [OF clmul_linear(1)] by (simp add: p'_def ac_simps)
      then show ?thesis using e q by auto
    next
      case False
      then show ?thesis using e q by (auto simp: p'_def)
    qed
  qed (auto simp: gf_reduce_def intro!: exI [of _ 0])
qed (auto simp: gf_reduce_def)

lemma gf_reduce_bits:
  assumes "m \<le> n" "n \<le> 16" "bit g m" "\<And>i. m < i \<Longrightarrow> \<not> bit g i" "\<And>i. n \<le> i \<Longrightarrow> \<not> bit p i" "m \<le> k"
  shows "\<not> bit (gf_reduce m g (rev [m..<n]) p) k"
  using assms(1,2,5)
proof (induction n arbitrary: p)
  case (Suc n)
  show ?case
  proof (cases "m = Suc n")
    case False
    define p' where "p' = (if shr p n AND 1 \<noteq> 0 then p XOR shl g (n - m) else p)"
    have "m \<le> n" using False Suc.prems by auto
    moreover have "\<not> bit p' i" if "n \<le> i" for i
    proof (cases "i = n")
      case True
      then show ?thesis using \<open>m \<le> n\<close> Suc.prems(2) assms(3)
        by (auto simp: p'_def and_1_bit bit_simps c_bool_def)
    next
      case False
      then have "n < i" using that by simp
      then show ?thesis using Suc.prems(3) [of i] \<open>m \<le> n\<close>
        by (auto simp: p'_def bit_simps assms(4))
    qed
    ultimately show ?thesis using Suc.IH [of p'] Suc.prems(2)
      by (simp add: gf_reduce_def p'_def)
  qed (use Suc.prems(3) assms(6) in \<open>simp add: gf_reduce_def\<close>)
qed (use assms(5,6) in \<open>simp add: gf_reduce_def\<close>)

lemma gmpy_byte_unfold:
  "gmpy_byte a b poly sz =
     gf_reduce (sz + 1) (shl 1 (sz + 1) OR (poly AND (shl 1 (sz + 1) - 1))) (rev [sz + 1..<16])
       (clmul 8 (a AND (shl 1 (sz + 1) - 1)) (b AND (shl 1 (sz + 1) - 1)))
     AND (shl 1 (sz + 1) - 1)"
  by (simp only: gmpy_byte_def Let_def clmul_def gf_reduce_def)

lemma field_mask: "shl 1 m - 1 = (mask m :: u32)"
  by (simp add: mask_eq_decr_exp)

lemma xor_linear_gf_reduce: "xor_linear (gf_reduce m g xs)"
  unfolding gf_reduce_def by (intro xor_linear_fold xor_linear_reduce)

lemma gmpy_byte_linear:
  "xor_linear (\<lambda>a. gmpy_byte a b poly sz)" "xor_linear (\<lambda>b. gmpy_byte a b poly sz)"
  unfolding gmpy_byte_unfold
  by (simp_all only: xor_linear_def xor_linearD [OF xor_linear_and] xor_linearD [OF xor_linear_gf_reduce]
      xor_linearD [OF clmul_linear(1)] xor_linearD [OF clmul_linear(2)] simp_thms)

text \<open>The remainder theorem of the field multiply.\<close>

lemma gmpy_byte_remainder:
  fixes sz poly defines "m \<equiv> sz + 1"
  assumes "sz < 8"
  shows "\<exists>q. clmul 8 (a AND mask m) (b AND mask m) =
               clmul 16 (shl 1 m OR (poly AND mask m)) q XOR gmpy_byte a b poly sz"
    and "gmpy_byte a b poly sz = take_bit m (gmpy_byte a b poly sz)"
proof -
  let ?g = "shl 1 m OR (poly AND mask m) :: u32" and ?p = "clmul 8 (a AND mask m) (b AND mask m)"
  let ?r = "gf_reduce m ?g (rev [m..<16]) ?p"
  have "\<not> bit ?p i" if "16 \<le> i" for i
    using that assms(2) by (intro clmul_bit_out [of 8]) (auto simp: bit_simps m_def)
  then have nb: "\<not> bit ?r k" if "m \<le> k" for k
    using that assms(2) by (intro gf_reduce_bits) (auto simp: bit_simps m_def)
  then have t: "take_bit m ?r = ?r"
    by (intro bit_word_eqI, unfold bit_take_bit_iff) (use not_le in blast)
  have r: "gmpy_byte a b poly sz = ?r"
    unfolding gmpy_byte_unfold field_mask m_def [symmetric] take_bit_eq_mask [symmetric]
    unfolding take_bit_eq_mask by (rule t [unfolded take_bit_eq_mask])
  obtain q where "?r = ?p XOR clmul 16 ?g q"
    using gf_reduce_multiple [of m 16 ?g ?p] assms(2) by (auto simp: m_def)
  then show "\<exists>q. ?p = clmul 16 ?g q XOR gmpy_byte a b poly sz"
    unfolding r by (intro exI [of _ q]) (simp add: ac_simps)
  show "gmpy_byte a b poly sz = take_bit m (gmpy_byte a b poly sz)"
    unfolding r by (rule t [symmetric])
qed

lemma ubyte_gmpy4:
  assumes "n < 4"
  shows "ubyte (gmpy4 a b poly sz) n =
     ucast (gmpy_byte (ucast (ubyte a n)) (ucast (ubyte b n)) poly sz)"
proof -
  have "shr w (n * 8) AND 0xFF = ucast (ubyte w n)" for w
    by (rule bit_word_eqI) (auto simp: ubyte_def bit_simps and_mask_numerals)
  then show ?thesis
    unfolding gmpy4_def
    by (subst ubyte_fold [OF assms]) simp
qed

interpretation gmpy4: lanewise_closed 4 ubyte "\<lambda>a b. gmpy4 a b poly sz"
    "\<lambda>x y. ucast (gmpy_byte (ucast x) (ucast y) poly sz)"
  by unfold_locales (auto intro: bytes_eqI simp: ubyte_gmpy4)

lemma carry_bit: "(w :: u32) AND 0x80000000 \<noteq> 0 \<longleftrightarrow> bit w 31"
proof -
  have "(0x80000000 :: u32) = shl 1 31" by simp
  then show ?thesis by (simp only: bit_iff_and_push_bit_not_eq_0)
qed

lemma gmpy_word_step_xor:
  "gmpy_word_step (a XOR a') b poly k (x XOR y) =
     gmpy_word_step a b poly k x XOR gmpy_word_step a' b poly k y"
  "gmpy_word_step a (b XOR b') poly k (x XOR y) =
     gmpy_word_step a b poly k x XOR gmpy_word_step a b' poly k y"
  unfolding gmpy_word_step_def Let_def carry_bit bit_iff_and_push_bit_not_eq_0 [symmetric]
  by (auto simp: push_bit_xor bit_simps xor.assoc xor.left_commute xor.commute)

lemma gmpy_word_fold_xor:
  "fold (gmpy_word_step (a XOR a') b poly) xs 0 =
     fold (gmpy_word_step a b poly) xs 0 XOR fold (gmpy_word_step a' b poly) xs 0"
  "fold (gmpy_word_step a (b XOR b') poly) xs 0 =
     fold (gmpy_word_step a b poly) xs 0 XOR fold (gmpy_word_step a b' poly) xs 0"
  using xor_fold_combine [where x = 0 and y = 0 and h = "gmpy_word_step (a XOR a') b poly"
      and f = "gmpy_word_step a b poly" and g = "gmpy_word_step a' b poly" and xs = xs]
    xor_fold_combine [where x = 0 and y = 0 and h = "gmpy_word_step a (b XOR b') poly"
      and f = "gmpy_word_step a b poly" and g = "gmpy_word_step a b' poly" and xs = xs]
  by (simp_all add: gmpy_word_step_xor)

lemma gmpy_word_linear:
  "xor_linear (\<lambda>a. gmpy_word a b poly)" "xor_linear (\<lambda>b. gmpy_word a b poly)"
proof -
  have 1: "w AND 1 \<noteq> 0 \<longleftrightarrow> bit w 0" for w :: u32
    by (simp add: and_one_eq odd_iff_mod_2_eq_one bit_0)
  show "xor_linear (\<lambda>a. gmpy_word a b poly)" "xor_linear (\<lambda>b. gmpy_word a b poly)"
    unfolding xor_linear_def gmpy_word_def Let_def 1 gmpy_word_fold_xor
    by (auto simp: bit_xor_iff xor.assoc xor.left_commute xor.commute)
qed

section \<open>40-bit longs\<close>

lemma LONG40: "(w :: u64) AND LONG40_MASK = take_bit 40 w"
  by (simp add: and_mask_numerals)

lemma uint_take_bit_40: "uint (take_bit 40 (w :: u64)) = take_bit 40 (uint w)"
  by (rule bit_eqI) (auto simp: bit_simps)

lemma sint_nonneg_u64: "\<not> bit (w :: u64) 63 \<Longrightarrow> sint w = uint w"
proof (rule bit_eqI)
  fix n assume "\<not> bit w 63"
  then have "\<not> bit w n" if "63 \<le> n" using that by (cases "n = 63") auto
  then show "bit (sint w) n = bit (uint w) n" using \<open>\<not> bit w 63\<close>
    by (auto simp: bit_simps min_def)
qed

lemma sx40_signed: "sx40 raw = signed_take_bit 39 (uint raw)"
proof -
  let ?w = "take_bit 40 raw XOR shl 1 39 :: u64"
  let ?t = "take_bit 40 (uint raw)"
  have "uint (shl 1 39 :: u64) = push_bit 39 1" by simp
  then have u: "uint ?w = ?t XOR push_bit 39 1"
    by (simp only: unsigned_xor_eq uint_take_bit_40)
  have "\<not> bit ?w 63" by (simp add: bit_simps)
  then have s: "sint ?w = uint ?w" by (rule sint_nonneg_u64)
  have f: "?t XOR push_bit 39 1 = ?t + (if bit (uint raw) 39 then - (2 ^ 39) else 2 ^ 39)"
    unfolding flip_bit_def [symmetric] flip_bit_eq_if
    by (auto simp: unset_bit_eq set_bit_eq bit_take_bit_iff)
  show ?thesis unfolding sx40_def LONG40 s u f
    by (simp add: signed_take_bit_eq_take_bit_minus)
qed

lemma sx40_range [c_range]: "- (2 ^ 39) \<le> sx40 raw" "sx40 raw < 2 ^ 39"
  unfolding sx40_signed
  using signed_take_bit_int_greater_eq_minus_exp [of 39 "uint raw"]
    signed_take_bit_int_less_exp [of 39 "uint raw"] by simp_all

lemma sx40_of_int:
  assumes "- (2 ^ 39) \<le> v" "v < 2 ^ 39"
  shows "sx40 (u64_of v) = v" "sx40 (u64_of v AND LONG40_MASK) = v"
proof -
  have *: "signed_take_bit 39 (take_bit k v) = v" if "40 \<le> k" for k
  proof -
    have "signed_take_bit 39 (take_bit k v) = signed_take_bit 39 v"
      using that by (simp add: signed_take_bit_take_bit)
    then show ?thesis using assms by (simp add: signed_take_bit_int_eq_self)
  qed
  show "sx40 (u64_of v) = v" "sx40 (u64_of v AND LONG40_MASK) = v"
    unfolding LONG40 sx40_signed uint_take_bit_40 unsigned_of_int take_bit_take_bit
    using * by (simp_all add: )
qed

lemma sat40_eq:
  "sint (fst (sat40 x)) = clamp32 (sx40 x)" "snd (sat40 x) \<longleftrightarrow> clamp32 (sx40 x) \<noteq> sx40 x"
  unfolding sat40_def Let_def clamp32_def
  by (auto simp: sint_of_int_u32)

lemma abs32_eq: "sint (abs32 x) = min int32_max \<bar>sint x\<bar>"
proof -
  have b: "x AND 0x80000000 \<noteq> 0 \<longleftrightarrow> sint x < 0"
  proof -
    have "(0x80000000 :: u32) = push_bit 31 1" by simp
    then show ?thesis
      by (simp only: bit_iff_and_push_bit_not_eq_0 [symmetric]) (use bit_last_iff [of x] in simp)
  qed
  show ?thesis
  proof (cases "x = 0x80000000")
    case False
    have "sint x \<noteq> sint (0x80000000 :: u32)" using False by (simp only: sint_eq_iff not_False_eq_True)
    then have *: "int32_min < sint x" "sint x \<le> int32_max"
      using sint_u32_range [of x] by simp_all
    have "sint (0 - x) = - sint x"
    proof -
      have "0 - x = u32_of (- sint x)" by simp
      then show ?thesis using * by (simp only: sint_of_int_u32)
    qed
    then show ?thesis using False b * unfolding abs32_def by auto
  qed (simp add: abs32_def)
qed

lemma bit39: "(w :: u64) AND shl 1 39 \<noteq> 0 \<longleftrightarrow> bit w 39"
  by (simp only: bit_iff_and_push_bit_not_eq_0)

lemma shift40_count:
  "(if count AND 63 > 39 then 40 else unat (count AND 63)) = min 40 (unat (count :: u32) mod 64)"
proof -
  have u: "unat (count AND 63) = unat count mod 64"
    by (simp only: and_mask_numerals unsigned_take_bit_eq) (simp only: take_bit_eq_mod, simp)
  have "count AND 63 > 39 \<longleftrightarrow> 39 < unat (count AND 63)" by (simp add: word_less_nat_alt)
  then show ?thesis unfolding u by (simp add: min_def)
qed

lemma shift40_left:
  "uint (shift40 x count SHIFT40_LEFT) =
     (uint x * 2 ^ min 40 (unat count mod 64)) mod 2 ^ 40"
proof -
  let ?n = "min 40 (unat count mod 64)"
  have "uint (take_bit 40 (shl (take_bit 40 x) ?n)) = take_bit 40 (push_bit ?n (uint x))"
    by (rule bit_eqI) (auto simp: bit_simps)
  then show ?thesis
    unfolding shift40_def Let_def shift40_count LONG40 by (simp add: take_bit_eq_mod push_bit_eq_mult)
qed

lemma shift40_logical:
  "uint (shift40 x count SHIFT40_LOGICAL) =
     (uint x mod 2 ^ 40) div 2 ^ min 40 (unat count mod 64)"
  unfolding shift40_def Let_def shift40_count LONG40
  by (simp only: uint_shr uint_take_bit_40 shift40_op.distinct if_False if_True simp_thms)
     (simp only: take_bit_eq_mod)

lemma bit_shift40_arithmetic:
  "bit (shift40 x count SHIFT40_ARITHMETIC) i
    \<longleftrightarrow> i < 40 \<and> bit x (min 39 (i + min 40 (unat count mod 64)))"
proof -
  define n where "n = min 40 (unat count mod 64)"
  have n: "n \<le> 40" by (simp add: n_def)
  have m: "LONG40_MASK = mask 40" by (simp add: mask_eq_decr_exp)
  have 1: "bit (shl (mask 40 :: u64) (40 - n)) i \<longleftrightarrow> 40 - n \<le> i" if "i < 40"
    using that n by (auto simp: bit_simps)
  have 2: "bit (shr (take_bit 40 x) n) i \<longleftrightarrow> i + n < 40 \<and> bit x (i + n)"
    by (auto simp: bit_simps add.commute)
  have 3: "bit (take_bit 40 x) 39 \<longleftrightarrow> bit x 39" by (simp add: bit_simps)
  have e: "bit (shift40 x count SHIFT40_ARITHMETIC) i \<longleftrightarrow>
      i < 40 \<and> (i + n < 40 \<and> bit x (i + n) \<or> n \<noteq> 0 \<and> bit x 39 \<and> 40 - n \<le> i)"
  proof (cases "i < 40")
    case True
    show ?thesis
      unfolding shift40_def Let_def shift40_count LONG40 bit39
      unfolding m n_def [symmetric]
      using True 1 [OF True] 2 3 by (auto simp only: shift40_op.distinct if_False bit_take_bit_iff bit_or_iff split: if_splits)
  next
    case False
    then show ?thesis unfolding shift40_def Let_def LONG40
      by (simp only: shift40_op.distinct if_False bit_take_bit_iff) simp
  qed
  show ?thesis unfolding e n_def [symmetric]
  proof (cases "i + n < 39")
    case True
    then show "(i < 40 \<and> (i + n < 40 \<and> bit x (i + n) \<or> n \<noteq> 0 \<and> bit x 39 \<and> 40 - n \<le> i)) = (i < 40 \<and> bit x (min 39 (i + n)))"
      using n by auto
  next
    case False
    then have *: "min 39 (i + n) = 39" by auto
    have **: "n = 0 \<Longrightarrow> i < 40 \<Longrightarrow> i = 39" "i + n < 40 \<Longrightarrow> i + n = 39" "\<not> i + n < 40 \<Longrightarrow> 40 - n \<le> i"
      using False by auto
    show "(i < 40 \<and> (i + n < 40 \<and> bit x (i + n) \<or> n \<noteq> 0 \<and> bit x 39 \<and> 40 - n \<le> i)) = (i < 40 \<and> bit x (min 39 (i + n)))"
      unfolding * using False ** by (cases "n = 0"; cases "i + n < 40") auto
  qed
qed

lemma shift40_arithmetic:
  "sx40 (shift40 x count SHIFT40_ARITHMETIC) = sx40 x div 2 ^ min 40 (unat count mod 64)"
proof -
  have *: "min n 39 < 40" "min 39 (min 39 n + k) = min 39 (k + n)" "min 39 n < 40" for n k :: nat by auto
  have "signed_take_bit 39 (uint (shift40 x count SHIFT40_ARITHMETIC)) =
     drop_bit (min 40 (unat count mod 64)) (signed_take_bit 39 (uint x))"
    by (rule bit_eqI)
       (simp add: bit_signed_take_bit_iff bit_unsigned_iff bit_drop_bit_eq bit_shift40_arithmetic
          *)
  then show ?thesis unfolding sx40_signed by (simp only: drop_bit_eq_div)
qed

lemma sx40_zero_or_sign: "sx40 x = (if bit x 39 then uint (take_bit 40 x) - 2 ^ 40 else uint (take_bit 40 x))"
  unfolding sx40_signed signed_take_bit_eq_take_bit_minus uint_take_bit_40
  by (simp add: bit_unsigned_iff)

lemma abs40_eq: "sx40 (abs40 x) = min (2 ^ 39 - 1) \<bar>sx40 x\<bar>"
proof -
  define v where "v = take_bit 40 x"
  have lt: "uint v < 2 ^ 40" unfolding v_def uint_take_bit_40 by (rule take_bit_int_less_exp)
  have r: "- (2 ^ 39) \<le> sx40 x" "sx40 x < 2 ^ 39" by (rule sx40_range)+
  have b: "bit v 39 \<longleftrightarrow> bit x 39" by (simp add: v_def bit_simps)
  have sv: "sx40 x = (if bit x 39 then uint v - 2 ^ 40 else uint v)"
    by (simp add: sx40_zero_or_sign v_def)
  have svv: "sx40 v = sx40 x" by (simp add: sx40_zero_or_sign v_def bit_simps)
  have u39: "uint (shl 1 39 :: u64) = 2 ^ 39" by simp
  consider "v = shl 1 39" | "v \<noteq> shl 1 39" "\<not> bit x 39" | "v \<noteq> shl 1 39" "bit x 39" by blast
  then show ?thesis
  proof cases
    case 1
    then have "bit x 39" using b by (simp add: bit_simps flip: push_bit_of_1)
    then have "sx40 x = - (2 ^ 39)" using sv 1 by simp
    moreover have "sx40 (shl 1 39 - 1) = 2 ^ 39 - 1"
      using sx40_of_int(1) [of "2 ^ 39 - 1"] by simp
    ultimately show ?thesis unfolding abs40_def Let_def LONG40 v_def [symmetric] using 1 by simp
  next
    case 2
    then have "abs40 x = v" unfolding abs40_def Let_def LONG40 v_def [symmetric]
      using bit39 [of v] b by auto
    then show ?thesis using svv sv 2 r lt by (simp add: min_def)
  next
    case 3
    have "uint v \<noteq> 2 ^ 39" using 3(1) u39 by (metis word_eq_iff_unsigned)
    then have ne: "sx40 x \<noteq> - (2 ^ 39)" using sv 3(2) by simp
    have neg: "sx40 x < 0" using sv 3(2) lt by simp
    have "abs40 x = (0 - v) AND LONG40_MASK" unfolding abs40_def Let_def LONG40 v_def [symmetric]
      using bit39 [of v] b 3 by auto
    also have "\<dots> = u64_of (- sx40 x) AND LONG40_MASK"
    proof -
      have "0 - v = u64_of (- uint v)" by simp
      moreover have "take_bit 40 (u64_of k) = u64_of (take_bit 40 k)" for k
        by (rule bit_word_eqI) (auto simp: bit_simps)
      moreover have "take_bit 40 (- (uint v - 2 ^ 40)) = take_bit 40 (- uint v)"
        unfolding take_bit_eq_mod by (simp add: mod_diff_eq mod_minus_eq)
      ultimately show ?thesis using sv 3(2) by (simp only: LONG40 if_True)
    qed
    finally show ?thesis using sx40_of_int(2) [of "- sx40 x"] r ne neg by simp
  qed
qed

section \<open>Division by conditional subtraction\<close>

definition subc_inv :: "nat \<Rightarrow> nat \<Rightarrow> nat \<Rightarrow> nat \<Rightarrow> bool" where
  "subc_inv n d k x \<longleftrightarrow> (\<exists>r q. x = 2 ^ k * r + q \<and> q < 2 ^ k \<and>
     n = q * (d * 2 ^ (16 - k)) + r \<and> r < d * 2 ^ (16 - k))"

lemma subc_inv_less:
  assumes "subc_inv n d k x" "k \<le> 16" "d < 65536"
  shows "x < 4294967296"
proof -
  obtain r q where *: "x = 2 ^ k * r + q" "q < 2 ^ k" "r < d * 2 ^ (16 - k)"
    using assms(1) by (auto simp: subc_inv_def)
  have "x < 2 ^ k * (r + 1)" using * by simp
  also have "\<dots> \<le> 2 ^ k * (d * 2 ^ (16 - k))" using *(3) by (intro mult_le_mono2) simp
  also have "\<dots> = d * 2 ^ (k + (16 - k))" by (simp only: power_add ac_simps)
  also have "\<dots> \<le> 65536 * 65536" using assms(2,3) by simp
  finally show ?thesis by simp
qed

lemma subc_inv_step:
  assumes "subc_inv n d k x" "k < 16"
  shows "subc_inv n d (Suc k) (if d * 2 ^ 15 \<le> x then 2 * (x - d * 2 ^ 15) + 1 else 2 * x)"
proof -
  obtain j where j: "15 = k + j" using assms(2) by (auto dest: less_imp_Suc_add)
  define e where "e = d * 2 ^ j"
  have s: "16 - k = Suc j" "16 - Suc k = j" using j by auto
  have D: "d * 2 ^ 15 = 2 ^ k * e" unfolding j e_def by (simp only: power_add ac_simps)
  obtain r q where *: "x = 2 ^ k * r + q" "q < 2 ^ k" "n = q * (2 * e) + r" "r < 2 * e"
    using assms(1) by (auto simp: subc_inv_def s e_def ac_simps)
  show ?thesis
  proof (cases "e \<le> r")
    case True
    then obtain t where t: "r = e + t" using le_Suc_ex by blast
    have "2 ^ k * e \<le> x" "x - 2 ^ k * e = 2 ^ k * t + q" unfolding *(1) t by (simp_all add: algebra_simps)
    then show ?thesis unfolding subc_inv_def s D e_def [symmetric] using * t
      by (intro exI [of _ t] exI [of _ "2 * q + 1"]) (auto simp: algebra_simps)
  next
    case False
    then have "2 ^ k * (r + 1) \<le> 2 ^ k * e" by (intro mult_le_mono2) simp
    then have "\<not> 2 ^ k * e \<le> x" using * by (simp add: algebra_simps)
    then show ?thesis unfolding subc_inv_def s D e_def [symmetric] using * False
      by (intro exI [of _ r] exI [of _ "2 * q"]) (auto simp: algebra_simps)
  qed
qed

lemma subc_inv_16:
  assumes "subc_inv n d 16 x" "n < 65536" "0 < d"
  shows "x = (n mod d) * 65536 + n div d"
proof -
  obtain r q where "x = 2 ^ 16 * r + q" "n = q * d + r" "r < d"
    using assms(1) by (auto simp: subc_inv_def)
  then show ?thesis using assms(3) by simp
qed

lemma unat_subc:
  assumes "(if unat b \<le> unat a then 2 * (unat a - unat b) + 1 else 2 * unat a) < 4294967296"
  shows "unat (subc a b) = (if unat b \<le> unat a then 2 * (unat a - unat b) + 1 else 2 * unat a)"
proof -
  let ?v = "if unat b \<le> unat a then 2 * (unat a - unat b) + 1 else 2 * unat a"
  have "subc a b = of_nat ?v"
    unfolding subc_def word_le_nat_alt push_bit_eq_mult
    by (auto simp: of_nat_diff)
  then show ?thesis using assms by (simp only: unat_of_nat take_bit_eq_mod) simp
qed

lemma subc_iterate:
  assumes "unat a < 65536" "0 < unat d" "unat d < 65536" "k \<le> 16"
  shows "subc_inv (unat a) (unat d) k (unat (((\<lambda>x. subc x (shl d 15)) ^^ k) a))"
  using assms(4)
proof (induction k)
  case 0
  have "unat a < unat d * 65536" using assms(1,2) by (metis One_nat_def Suc_leI less_le_trans mult_le_mono1 nat_mult_1)
  then show ?case by (simp add: subc_inv_def)
next
  case (Suc k)
  let ?x = "((\<lambda>x. subc x (shl d 15)) ^^ k) a"
  have i: "subc_inv (unat a) (unat d) k (unat ?x)" using Suc by simp
  have D: "unat (shl d 15) = unat d * 2 ^ 15"
    unfolding push_bit_eq_mult using assms(3)
    by (subst unat_mult_lem [THEN iffD1]) simp_all
  have "subc_inv (unat a) (unat d) (Suc k) (if unat d * 2 ^ 15 \<le> unat ?x then 2 * (unat ?x - unat d * 2 ^ 15) + 1 else 2 * unat ?x)"
    using subc_inv_step [OF i] Suc.prems by simp
  moreover have "unat (subc ?x (shl d 15)) = (if unat d * 2 ^ 15 \<le> unat ?x then 2 * (unat ?x - unat d * 2 ^ 15) + 1 else 2 * unat ?x)"
    unfolding D [symmetric]
    by (rule unat_subc) (use subc_inv_less [OF calculation Suc.prems assms(3)] in \<open>simp only: D\<close>)
  ultimately show ?case by simp
qed

section \<open>Properties\<close>

text \<open>The multiplies are exact. \<open>smpy16\<close> gives the doubled signed product of the
  selected halfwords clamped to 32 bits and flags saturation exactly for 8000h by 8000h;
  \<open>mpyi\<close> is the full signed 64-bit product; each register of the pair \<open>mpy2\<close> writes is
  the signed product of the corresponding halfwords.\<close>

lemma multiplies_exact:
  "sint (mpy_value (smpy16 a b ah bh)) =
     clamp32 (2 * (sint (uhalf a (if ah then 1 else 0)) * sint (uhalf b (if bh then 1 else 0)))) \<and>
   (mpy_saturated (smpy16 a b ah bh) \<longleftrightarrow>
     uhalf a (if ah then 1 else 0) = 0x8000 \<and> uhalf b (if bh then 1 else 0) = 0x8000) \<and>
   sint (mpyi a b) = sint a * sint b \<and>
   sint (ucast (mpy2 a b) :: u32) = sint (uhalf a 0) * sint (uhalf b 0) \<and>
   sint (ucast (shr (mpy2 a b) 32) :: u32) = sint (uhalf a 1) * sint (uhalf b 1)"
  by (intro conjI smpy16_eq sint_mpyi mpy2_products)

text \<open>C37: A Galois-field byte multiply is polynomial multiplication modulo the generator
  \<open>x^m + poly\<close> with \<open>m = SIZE + 1\<close>: the carry-less product of the field elements and the
  result differ by a multiple of the generator, and the result has no bit at or above \<open>m\<close>,
  so it is the remainder.\<close>

lemma gmpy_byte_is_field_product:
  assumes "sz < 8"
  shows "(\<exists>q. clmul 8 (a AND mask (sz + 1)) (b AND mask (sz + 1)) =
            clmul 16 (shl 1 (sz + 1) OR (poly AND mask (sz + 1))) q XOR gmpy_byte a b poly sz) \<and>
         gmpy_byte a b poly sz = take_bit (sz + 1) (gmpy_byte a b poly sz)"
  by (intro conjI gmpy_byte_remainder assms)

lemma gmpy_byte_is_field_product_witness:
  "gmpy_byte 0x53 0xCA 0x1B 7 = take_bit 8 (gmpy_byte 0x53 0xCA 0x1B 7)"
  using gmpy_byte_is_field_product [of 7 "0x53" "0xCA" "0x1B"] by simp

text \<open>\<open>GMPY4\<close> multiplies each byte of one source with the same byte of the other and is
  linear over XOR in both sources, as is the word form \<open>GMPY\<close>.\<close>

lemma galois_multiplies_linear:
  "gmpy4 (a XOR a') b poly sz = gmpy4 a b poly sz XOR gmpy4 a' b poly sz \<and>
   gmpy4 a (b XOR b') poly sz = gmpy4 a b poly sz XOR gmpy4 a b' poly sz \<and>
   gmpy_word (a XOR a') b poly = gmpy_word a b poly XOR gmpy_word a' b poly \<and>
   gmpy_word a (b XOR b') poly = gmpy_word a b poly XOR gmpy_word a b' poly"
proof -
  have u: "ubyte (x XOR y) n = ubyte x n XOR ubyte y n" for x y n
    by (rule bit_word_eqI) (auto simp: ubyte_def bit_simps)
  have c: "ucast (x XOR y) = (ucast x XOR ucast y :: u32)" for x y :: u8
    by (rule bit_word_eqI) (auto simp: bit_simps)
  have d: "ucast (x XOR y) = (ucast x XOR ucast y :: u8)" for x y :: u32
    by (rule bit_word_eqI) (auto simp: bit_simps)
  show ?thesis
    by (intro conjI bytes_eqI)
       (simp_all add: ubyte_gmpy4 u c xor_linearD [OF gmpy_byte_linear(1)] xor_linearD [OF gmpy_byte_linear(2)] d
          xor_linearD [OF gmpy_word_linear(1)] xor_linearD [OF gmpy_word_linear(2)])
qed

text \<open>C38: Sixteen conditional subtractions divide. For a 16-bit dividend and a nonzero 16-bit
  divisor placed at bit 15, sixteen \<open>SUBC\<close> steps leave the quotient in the low halfword
  and the remainder in the high halfword.\<close>

lemma subc_divides:
  assumes "unat n < 65536" "0 < unat d" "unat d < 65536"
  shows "unat (((\<lambda>x. subc x (shl d 15)) ^^ 16) n) =
           (unat n mod unat d) * 65536 + unat n div unat d"
  by (rule subc_inv_16 [OF subc_iterate]) (use assms in simp_all)

lemma subc_divides_witness:
  "unat (((\<lambda>x. subc x (shl 7 15)) ^^ 16) 100) = 2 * 65536 + 14"
  using subc_divides [of 100 7] by simp

text \<open>The 40-bit instructions are arithmetic on the signed 40-bit value of the pair:
  \<open>SAT\<close> clamps it to 32 bits and flags exactly the values that change, \<open>ABS\<close> saturates at
  the largest positive value, and the shifts by the low six bits of the count
  (at most 40) are multiplication and floor division by a power of two.\<close>

lemma long40_arithmetic:
  "sint (fst (sat40 x)) = clamp32 (sx40 x) \<and> (snd (sat40 x) \<longleftrightarrow> clamp32 (sx40 x) \<noteq> sx40 x) \<and>
   sx40 (abs40 x) = min (2 ^ 39 - 1) \<bar>sx40 x\<bar> \<and> sint (abs32 w) = min int32_max \<bar>sint w\<bar> \<and>
   uint (shift40 x count SHIFT40_LEFT) = (uint x * 2 ^ min 40 (unat count mod 64)) mod 2 ^ 40 \<and>
   uint (shift40 x count SHIFT40_LOGICAL) = (uint x mod 2 ^ 40) div 2 ^ min 40 (unat count mod 64) \<and>
   sx40 (shift40 x count SHIFT40_ARITHMETIC) = sx40 x div 2 ^ min 40 (unat count mod 64)"
  by (intro conjI sat40_eq abs40_eq abs32_eq shift40_left shift40_logical shift40_arithmetic)

end
