(* ===== verification/C674x_Dotp.thy ===== *)
theory C674x_Dotp
  imports C674x_Mpy
begin

text \<open>
  \<^verbatim>\<open>emulator/qemu/cdj_c674x_dotp.c\<close>: the packed dot products and the
  nonconditional complex multiplies of the .M unit. Every routine selects its
  arithmetic by the instruction's opfield; an opfield of neither table gives
  \<open>valid = False\<close>. The intermediate sums are 64-bit in C and never leave that
  range, so they are integers here; only the casts to 32 bits are explicit.
\<close>

section \<open>Operand halves and bytes\<close>

definition s16 :: "u32 \<Rightarrow> nat \<Rightarrow> int" where
  "s16 word half = sint (ucast (shr word (16 * half)) :: u16)"

definition u16 :: "u32 \<Rightarrow> nat \<Rightarrow> int" where
  "u16 word half = uint (ucast (shr word (16 * half)) :: u16)"

definition s8 :: "u32 \<Rightarrow> nat \<Rightarrow> int" where
  "s8 word byte = sint (ucast (shr word (8 * byte)) :: u8)"

definition u8 :: "u32 \<Rightarrow> nat \<Rightarrow> int" where
  "u8 word byte = uint (ucast (shr word (8 * byte)) :: u8)"

definition shift_right_16 :: "int \<Rightarrow> int" where
  "shift_right_16 value =
     (let shifted = shr (u32_of value) 16;
          shifted = (if value < 0 then shifted OR 0xFFFF0000 else shifted)
      in sint shifted)"

section \<open>Dot products\<close>

record dotp_result =
  dp_value :: u64
  dp_undefined :: bool
  dp_valid :: bool

definition rounded :: "int \<Rightarrow> dotp_result" where
  "rounded products =
     (let intermediate = products + 0x8000
      in if intermediate > int32_max \<or> intermediate < int32_min
         then \<lparr>dp_value = 0, dp_undefined = True, dp_valid = True\<rparr>
         else \<lparr>dp_value = u64_of (shift_right_16 intermediate), dp_undefined = False, dp_valid = True\<rparr>)"

abbreviation DOTPSU4 :: u32 where "DOTPSU4 \<equiv> 0x02"
abbreviation DOTPU4 :: u32 where "DOTPU4 \<equiv> 0x06"
abbreviation DOTPNRSU2 :: u32 where "DOTPNRSU2 \<equiv> 0x07"
abbreviation DOTPN2 :: u32 where "DOTPN2 \<equiv> 0x09"
abbreviation DOTP2L :: u32 where "DOTP2L \<equiv> 0x0B"
abbreviation DOTP2 :: u32 where "DOTP2 \<equiv> 0x0C"
abbreviation DOTPRSU2 :: u32 where "DOTPRSU2 \<equiv> 0x0D"

definition dotp :: "u32 \<Rightarrow> u32 \<Rightarrow> u32 \<Rightarrow> dotp_result" where
  "dotp opfield src1 src2 =
     (let result = \<lparr>dp_value = 0, dp_undefined = False, dp_valid = True\<rparr>
      in if opfield = DOTP2 \<or> opfield = DOTP2L then
           result\<lparr>dp_value := u64_of (s16 src1 0 * s16 src2 0 + s16 src1 1 * s16 src2 1)\<rparr>
         else if opfield = DOTPN2 then
           result\<lparr>dp_value := u64_of (s16 src1 1 * s16 src2 1 - s16 src1 0 * s16 src2 0)\<rparr>
         else if opfield = DOTPNRSU2 then
           rounded (s16 src1 1 * u16 src2 1 - s16 src1 0 * u16 src2 0)
         else if opfield = DOTPRSU2 then
           rounded (s16 src1 1 * u16 src2 1 + s16 src1 0 * u16 src2 0)
         else if opfield = DOTPSU4 then
           result\<lparr>dp_value := u64_of
             (s8 src1 0 * u8 src2 0 + s8 src1 1 * u8 src2 1 +
              s8 src1 2 * u8 src2 2 + s8 src1 3 * u8 src2 3)\<rparr>
         else if opfield = DOTPU4 then
           result\<lparr>dp_value := ucast (u32_of
             (u8 src1 0 * u8 src2 0 + u8 src1 1 * u8 src2 1 +
              u8 src1 2 * u8 src2 2 + u8 src1 3 * u8 src2 3))\<rparr>
         else result\<lparr>dp_valid := False\<rparr>)"

section \<open>Nonconditional complex multiplies\<close>

text \<open>\<open>sat32\<close> and the two rounding helpers set the caller's flag and never clear it:
  they return the flag that results.\<close>

definition sat32 :: "int \<Rightarrow> bool \<Rightarrow> int \<times> bool" where
  "sat32 v saturated =
     (if v > 0x7FFFFFFF then (0x7FFFFFFF, True)
      else if v < - 0x80000000 then (- 0x80000000, True)
      else (v, saturated))"

definition round_msb16 :: "int \<Rightarrow> bool \<Rightarrow> u32 \<times> bool" where
  "round_msb16 value saturated =
     (let (v, saturated) = sat32 (value + 0x8000) saturated
      in (shr (u32_of v) 16 AND 0xFFFF, saturated))"

definition round_shift_msb16 :: "int \<Rightarrow> bool \<Rightarrow> u32 \<times> bool" where
  "round_shift_msb16 value saturated =
     (let (v, saturated) = sat32 ((value + 0x4000) * 2) saturated
      in (shr (u32_of v) 16 AND 0xFFFF, saturated))"

record cmpy_result =
  cm_value :: u64
  cm_pair_dst :: bool
  cm_pair_src1 :: bool
  cm_saturated :: bool
  cm_valid :: bool

abbreviation CMPY :: u32 where "CMPY \<equiv> 0x0A"
abbreviation CMPYR :: u32 where "CMPYR \<equiv> 0x0B"
abbreviation CMPYR1 :: u32 where "CMPYR1 \<equiv> 0x0C"
abbreviation DDOTPL2R :: u32 where "DDOTPL2R \<equiv> 0x14"
abbreviation DDOTPH2R :: u32 where "DDOTPH2R \<equiv> 0x15"
abbreviation DDOTPL2 :: u32 where "DDOTPL2 \<equiv> 0x16"
abbreviation DDOTPH2 :: u32 where "DDOTPH2 \<equiv> 0x17"
abbreviation DDOTP4 :: u32 where "DDOTP4 \<equiv> 0x18"

text \<open>The two shapes of \<open>r.value\<close>: a register pair, and two halfwords of one register.\<close>

definition pair_value :: "u32 \<Rightarrow> u32 \<Rightarrow> u64" where
  "pair_value high low = shl (ucast high) 32 OR ucast low"

definition half_value :: "u32 \<Rightarrow> u32 \<Rightarrow> u64" where
  "half_value high low = ucast (shl high 16 OR low)"

definition cmpy :: "u32 \<Rightarrow> u32 \<Rightarrow> u32 \<Rightarrow> u32 \<Rightarrow> cmpy_result" where
  "cmpy opfield src1 src1_hi src2 =
     (let r = \<lparr>cm_value = 0, cm_pair_dst = False, cm_pair_src1 = False,
               cm_saturated = False, cm_valid = True\<rparr>;
          s1h = s16 src1 1; s1l = s16 src1 0; s2h = s16 src2 1; s2l = s16 src2 0;
          o1h = s16 src1_hi 1; o1l = s16 src1_hi 0
      in if opfield = CMPY then
           (let e = s1l * s2h + s1h * s2l; od = s1h * s2h - s1l * s2l;
                (ev, s) = sat32 e False
            in r\<lparr>cm_pair_dst := True, cm_value := pair_value (u32_of od) (u32_of ev), cm_saturated := s\<rparr>)
         else if opfield = CMPYR then
           (let (e, s) = sat32 (s1l * s2h + s1h * s2l) False;
                (od, s) = sat32 (s1h * s2h - s1l * s2l) s;
                (h, s) = round_msb16 od s;
                (l, s) = round_msb16 e s
            in r\<lparr>cm_value := half_value h l, cm_saturated := s\<rparr>)
         else if opfield = CMPYR1 then
           (let (e, s) = sat32 (s1l * s2h + s1h * s2l) False;
                (od, s) = sat32 (s1h * s2h - s1l * s2l) s;
                (h, s) = round_shift_msb16 od s;
                (l, s) = round_shift_msb16 e s
            in r\<lparr>cm_value := half_value h l, cm_saturated := s\<rparr>)
         else if opfield = DDOTP4 then
           (let e = s1h * s8 src2 1 + s1l * s8 src2 0; od = s1h * s8 src2 3 + s1l * s8 src2 2
            in r\<lparr>cm_pair_dst := True, cm_value := pair_value (u32_of od) (u32_of e)\<rparr>)
         else if opfield = DDOTPH2 then
           (let (od, s) = sat32 (o1h * s2h + o1l * s2l) False;
                (e, s) = sat32 (o1l * s2h + s1h * s2l) s
            in r\<lparr>cm_pair_dst := True, cm_pair_src1 := True,
                 cm_value := pair_value (u32_of od) (u32_of e), cm_saturated := s\<rparr>)
         else if opfield = DDOTPL2 then
           (let (od, s) = sat32 (o1l * s2h + s1h * s2l) False;
                (e, s) = sat32 (s1h * s2h + s1l * s2l) s
            in r\<lparr>cm_pair_dst := True, cm_pair_src1 := True,
                 cm_value := pair_value (u32_of od) (u32_of e), cm_saturated := s\<rparr>)
         else if opfield = DDOTPH2R then
           (let (h, s) = round_msb16 (o1h * s2h + o1l * s2l) False;
                (l, s) = round_msb16 (o1l * s2h + s1h * s2l) s
            in r\<lparr>cm_pair_src1 := True, cm_value := half_value h l, cm_saturated := s\<rparr>)
         else if opfield = DDOTPL2R then
           (let (h, s) = round_msb16 (o1l * s2h + s1h * s2l) False;
                (l, s) = round_msb16 (s1h * s2h + s1l * s2l) s
            in r\<lparr>cm_pair_src1 := True, cm_value := half_value h l, cm_saturated := s\<rparr>)
         else r\<lparr>cm_valid := False\<rparr>)"

abbreviation SMPY32 :: u32 where "SMPY32 \<equiv> 0x19"
abbreviation MPY2IR :: u32 where "MPY2IR \<equiv> 0x0F"

definition mpy32_nonconditional :: "u32 \<Rightarrow> u32 \<Rightarrow> u32 \<Rightarrow> cmpy_result" where
  "mpy32_nonconditional opfield src1 src2 =
     (let r = \<lparr>cm_value = 0, cm_pair_dst = False, cm_pair_src1 = False,
               cm_saturated = False, cm_valid = True\<rparr>
      in if opfield = SMPY32 then
           (let product = sint src1 * sint src2;
                (shifted, s) = (if product \<ge> 2 ^ 62 then (2 ^ 63 - 1, True) else (product * 2, False))
            in r\<lparr>cm_value := ucast (ucast (shr (u64_of shifted) 32) :: u32), cm_saturated := s\<rparr>)
         else if opfield = MPY2IR then
           (let hi = sint (ucast (shr src1 16) :: u16);
                lo = sint (ucast (src1 AND 0xFFFF) :: u16);
                sat_o = (hi = - 32768 \<and> src2 = 0x80000000);
                sat_e = (lo = - 32768 \<and> src2 = 0x80000000);
                od = (if sat_o then 0x7FFFFFFF else u32_of (drop_bit 15 (hi * sint src2 + 0x4000)));
                e = (if sat_e then 0x7FFFFFFF else u32_of (drop_bit 15 (lo * sint src2 + 0x4000)))
            in r\<lparr>cm_pair_dst := True, cm_saturated := sat_o \<or> sat_e, cm_value := pair_value od e\<rparr>)
         else r\<lparr>cm_valid := False\<rparr>)"

section \<open>Ranges\<close>

lemma s16_uhalf: "s16 w h = sint (uhalf w h)"
  by (simp add: s16_def uhalf_def mult.commute)

lemma s16_range [c_range]: "- 32768 \<le> s16 w h" "s16 w h \<le> 32767"
  unfolding s16_def by (rule sint_u16_range)+

lemma u16_range [c_range]: "0 \<le> u16 w h" "u16 w h \<le> 65535"
  unfolding u16_def by (rule uint_u16_range)+

lemma s8_range [c_range]: "- 128 \<le> s8 w n" "s8 w n \<le> 127"
  unfolding s8_def by (rule sint_u8_range)+

lemma u8_range [c_range]: "0 \<le> u8 w n" "u8 w n \<le> 255"
  unfolding u8_def by (rule uint_u8_range)+

lemma s16_prod_range:
  "- 1073709056 \<le> s16 a i * s16 b j" "s16 a i * s16 b j \<le> 1073741824"
  unfolding s16_uhalf by (rule prod16_range)+

lemma prod_bounds:
  assumes "- m \<le> a" "a \<le> m" "- n \<le> b" "b \<le> (n :: int)"
  shows "- (m * n) \<le> a * b" "a * b \<le> m * n"
  using abs_prod_le [of a m b n] assms by (auto simp: abs_le_iff)

lemma sum_4: "(\<Sum>i<4. f i) = f 0 + f 1 + f 2 + f (3 :: nat)" for f :: "nat \<Rightarrow> int"
proof -
  have "{..<4 :: nat} = {0, 1, 2, 3}" by auto
  then show ?thesis by simp
qed

lemma s16_u16_prod_range:
  "- 2147450880 \<le> s16 a i * u16 b j" "s16 a i * u16 b j \<le> 2147450880"
  using prod_bounds [of 32768 "s16 a i" 65535 "u16 b j"] s16_range [of a i] u16_range [of b j] by auto

lemma s8_u8_prod_range: "- 32640 \<le> s8 a i * u8 b j" "s8 a i * u8 b j \<le> 32640"
  using prod_bounds [of 128 "s8 a i" 255 "u8 b j"] s8_range [of a i] u8_range [of b j] by auto

lemma u8_prod_range: "0 \<le> u8 a i * u8 b j" "u8 a i * u8 b j \<le> 65025"
  using prod_bounds [of 255 "u8 a i" 255 "u8 b j"] u8_range [of a i] u8_range [of b j] by auto

lemma s16_s8_prod_range: "- 4194304 \<le> s16 a i * s8 b j" "s16 a i * s8 b j \<le> 4194304"
  using prod_bounds [of 32768 "s16 a i" 128 "s8 b j"] s16_range [of a i] s8_range [of b j] by auto

lemma sint_u64_of: "- (2 ^ 63) \<le> v \<Longrightarrow> v < 2 ^ 63 \<Longrightarrow> sint (u64_of v) = v"
  by (simp add: signed_of_int signed_take_bit_int_eq_self)

lemma shift_right_16_eq:
  assumes "int32_min \<le> v" "v \<le> int32_max"
  shows "shift_right_16 v = v div 2 ^ 16"
proof -
  have r: "int32_min \<le> v div 2 ^ 16" "v div 2 ^ 16 \<le> int32_max"
    using div_pow2_range [of int32_min v int32_max 16] assms by auto
  have m: "(0xFFFF0000 :: u32) = NOT (mask 16)" by (simp add: mask_eq_exp_minus_1)
  have "(if v < 0 then shr (u32_of v) 16 OR 0xFFFF0000 else shr (u32_of v) 16) = u32_of (v div 2 ^ 16)"
  proof (rule bit_word_eqI)
    fix i assume i: "i < LENGTH(32)"
    have d: "bit (v div 2 ^ 16) i \<longleftrightarrow> bit v (i + 16)"
      unfolding drop_bit_eq_div [symmetric] by (simp add: bit_drop_bit_eq add.commute)
    have n: "v < 0 \<Longrightarrow> 16 \<le> i \<Longrightarrow> bit v (i + 16)"
      using assms by (intro bit_negative_int [of v 31]) auto
    have z: "\<not> v < 0 \<Longrightarrow> bit v (i + 16) \<Longrightarrow> i < 16"
      using assms bit_small_int [of v "i + 16" 31] by simp
    show "bit (if v < 0 then shr (u32_of v) 16 OR 0xFFFF0000 else shr (u32_of v) 16) i =
        bit (u32_of (v div 2 ^ 16)) i"
      unfolding m bit_of_int_iff d using i n z by (auto simp: bit_simps add.commute)
  qed
  then show ?thesis unfolding shift_right_16_def Let_def by (simp only: sint_of_int_u32 [OF r])
qed

lemma rounded_eq:
  "dp_undefined (rounded p) \<longleftrightarrow> clamp32 (p + 0x8000) \<noteq> p + 0x8000"
  "\<not> dp_undefined (rounded p) \<Longrightarrow> sint (dp_value (rounded p)) = (p + 0x8000) div 2 ^ 16"
  "dp_valid (rounded p)"
proof -
  show "dp_undefined (rounded p) \<longleftrightarrow> clamp32 (p + 0x8000) \<noteq> p + 0x8000" "dp_valid (rounded p)"
    by (auto simp: rounded_def Let_def clamp32_def)
  assume "\<not> dp_undefined (rounded p)"
  then have r: "int32_min \<le> p + 0x8000" "p + 0x8000 \<le> int32_max"
    by (auto simp: rounded_def Let_def split: if_splits)
  then have "sint (u64_of ((p + 0x8000) div 2 ^ 16)) = (p + 0x8000) div 2 ^ 16"
    using div_pow2_range [of int32_min "p + 0x8000" int32_max 16]
    by (intro sint_u64_of) auto
  then show "sint (dp_value (rounded p)) = (p + 0x8000) div 2 ^ 16"
    using r by (simp add: rounded_def Let_def shift_right_16_eq)
qed

text \<open>The plain dot products are exact: the 64-bit result of DOTP2 (both destination forms),
  DOTPN2 and DOTPSU4 is the signed sum or difference of the products of corresponding
  fields, DOTPU4's is the unsigned sum, so no overflow case is lost.\<close>

lemma dot_products_exact:
  "sint (dp_value (dotp DOTP2 a b)) = s16 a 0 * s16 b 0 + s16 a 1 * s16 b 1 \<and>
   dotp DOTP2L a b = dotp DOTP2 a b \<and>
   sint (dp_value (dotp DOTPN2 a b)) = s16 a 1 * s16 b 1 - s16 a 0 * s16 b 0 \<and>
   sint (dp_value (dotp DOTPSU4 a b)) = (\<Sum>i<4. s8 a i * u8 b i) \<and>
   uint (dp_value (dotp DOTPU4 a b)) = (\<Sum>i<4. u8 a i * u8 b i)"
proof (intro conjI)
  note r = s16_prod_range [of a 0 b 0] s16_prod_range [of a 1 b 1]
  show "sint (dp_value (dotp DOTP2 a b)) = s16 a 0 * s16 b 0 + s16 a 1 * s16 b 1"
    using r by (simp add: dotp_def sint_u64_of del: of_int_add of_int_mult)
  show "dotp DOTP2L a b = dotp DOTP2 a b" by (simp add: dotp_def)
  show "sint (dp_value (dotp DOTPN2 a b)) = s16 a 1 * s16 b 1 - s16 a 0 * s16 b 0"
    using r by (simp add: dotp_def sint_u64_of del: of_int_diff of_int_mult)
  show "sint (dp_value (dotp DOTPSU4 a b)) = (\<Sum>i<4. s8 a i * u8 b i)"
    using s8_u8_prod_range [of a 0 b 0] s8_u8_prod_range [of a 1 b 1]
      s8_u8_prod_range [of a 2 b 2] s8_u8_prod_range [of a 3 b 3]
    by (simp add: dotp_def sint_u64_of sum_4 del: of_int_add of_int_mult)
  show "uint (dp_value (dotp DOTPU4 a b)) = (\<Sum>i<4. u8 a i * u8 b i)"
    using u8_prod_range [of a 0 b 0] u8_prod_range [of a 1 b 1]
      u8_prod_range [of a 2 b 2] u8_prod_range [of a 3 b 3]
    by (simp add: dotp_def uint_of_int_u32 sum_4 del: of_int_add of_int_mult)
qed

text \<open>The rounded dot products. DOTPRSU2 and DOTPNRSU2 combine two signed by unsigned
  halfword products, add 8000h and divide by 65536 rounding down; they are reported undefined
  exactly when the rounded sum leaves the signed 32-bit range, and then no value is given.
  The seven opfields of the table, and no others, are valid.\<close>

lemma dot_products_rounded:
  "let sum = s16 a 1 * u16 b 1 + s16 a 0 * u16 b 0 + 0x8000;
       dif = s16 a 1 * u16 b 1 - s16 a 0 * u16 b 0 + 0x8000;
       r = dotp DOTPRSU2 a b; n = dotp DOTPNRSU2 a b
   in (if clamp32 sum = sum then sint (dp_value r) = sum div 2 ^ 16 \<and> \<not> dp_undefined r
       else dp_undefined r \<and> dp_value r = 0) \<and>
      (if clamp32 dif = dif then sint (dp_value n) = dif div 2 ^ 16 \<and> \<not> dp_undefined n
       else dp_undefined n \<and> dp_value n = 0) \<and>
      (dp_valid (dotp opf a b) \<longleftrightarrow>
         opf \<in> {DOTPSU4, DOTPU4, DOTPNRSU2, DOTPN2, DOTP2L, DOTP2, DOTPRSU2})"
proof -
  have u: "dp_undefined (rounded p) \<Longrightarrow> dp_value (rounded p) = 0" for p
    by (auto simp: rounded_def Let_def split: if_splits)
  have "dp_valid (dotp opf a b) \<longleftrightarrow>
      opf \<in> {DOTPSU4, DOTPU4, DOTPNRSU2, DOTPN2, DOTP2L, DOTP2, DOTPRSU2}"
    by (simp add: dotp_def Let_def rounded_eq(3))
  moreover have "dotp DOTPRSU2 a b = rounded (s16 a 1 * u16 b 1 + s16 a 0 * u16 b 0)"
    "dotp DOTPNRSU2 a b = rounded (s16 a 1 * u16 b 1 - s16 a 0 * u16 b 0)"
    by (simp_all add: dotp_def)
  ultimately show ?thesis
    unfolding Let_def using rounded_eq u by presburger
qed

section \<open>Complex multiplies\<close>

lemma sat32_eq: "sat32 v s = (clamp32 v, s \<or> clamp32 v \<noteq> v)"
  by (auto simp: sat32_def clamp32_def)

lemma clamp32_range [c_range]: "int32_min \<le> clamp32 v" "clamp32 v \<le> int32_max"
  by (simp_all add: clamp32_def)

lemma clamp32_id: "int32_min \<le> v \<Longrightarrow> v \<le> int32_max \<Longrightarrow> clamp32 v = v"
  by (simp add: clamp32_def)

lemma sint_clamp32: "sint (u32_of (clamp32 v)) = clamp32 v"
  by (rule sint_of_int_u32) (rule clamp32_range)+

lemma pair_value_regs [simp]:
  "ucast (pair_value h l) = l" "ucast (shr (pair_value h l) 32) = h"
  unfolding pair_value_def by (rule pair_low pair_high)+

text \<open>The upper half of a clamped value, as both rounding helpers take it.\<close>

definition top16 :: "int \<Rightarrow> u32" where
  "top16 v = shr (u32_of (clamp32 v)) 16 AND 0xFFFF"

lemma round_eq:
  "round_msb16 v s = (top16 (v + 0x8000), s \<or> clamp32 (v + 0x8000) \<noteq> v + 0x8000)"
  "round_shift_msb16 v s = (top16 ((v + 0x4000) * 2), s \<or> clamp32 ((v + 0x4000) * 2) \<noteq> (v + 0x4000) * 2)"
  by (simp_all add: round_msb16_def round_shift_msb16_def sat32_eq top16_def)

lemma sint_high_half: "sint (ucast (shr (w :: u32) 16) :: u16) = drop_bit 16 (sint w)"
proof (rule bit_eqI)
  fix n :: nat
  have "min 31 (16 + min 15 n) = min 31 (16 + n)" by simp
  then show "bit (sint (ucast (shr w 16) :: u16)) n = bit (drop_bit 16 (sint w)) n"
    by (simp add: bit_signed_iff bit_ucast_iff bit_drop_bit_eq min_less_iff_disj)
qed

lemma top16_value: "sint (ucast (top16 v) :: u16) = clamp32 v div 2 ^ 16"
proof -
  have "ucast (top16 v) = (ucast (shr (u32_of (clamp32 v)) 16) :: u16)"
    unfolding top16_def by (rule ucast_masked_u16)
  then show ?thesis by (simp only: sint_high_half sint_clamp32) (simp only: drop_bit_eq_div)
qed

lemma half_value_halves:
  "ucast (half_value (top16 h) (top16 l)) = (ucast (top16 l) :: u16)"
  "ucast (shr (half_value (top16 h) (top16 l)) 16) = (ucast (top16 h) :: u16)"
proof -
  have *: "\<not> bit (top16 v) i" if "16 \<le> i" for v i
    using that by (simp add: top16_def and_mask_numerals bit_simps)
  show "ucast (half_value (top16 h) (top16 l)) = (ucast (top16 l) :: u16)"
    unfolding half_value_def by (rule bit_word_eqI) (auto simp: bit_simps *)
  show "ucast (shr (half_value (top16 h) (top16 l)) 16) = (ucast (top16 h) :: u16)"
    unfolding half_value_def by (rule bit_word_eqI) (auto simp: bit_simps *)
qed

text \<open>Real and imaginary part of the complex product of two packed operands.\<close>

definition c_re :: "u32 \<Rightarrow> u32 \<Rightarrow> int" where
  "c_re a b = s16 a 1 * s16 b 1 - s16 a 0 * s16 b 0"

definition c_im :: "u32 \<Rightarrow> u32 \<Rightarrow> int" where
  "c_im a b = s16 a 0 * s16 b 1 + s16 a 1 * s16 b 0"

lemma c_re_range: "int32_min \<le> c_re a b" "c_re a b \<le> int32_max"
  unfolding c_re_def using s16_prod_range [of a 0 b 0] s16_prod_range [of a 1 b 1] by auto

lemma c_im_range: "int32_min \<le> c_im a b" "c_im a b \<le> int32_max + 1"
  unfolding c_im_def using s16_prod_range [of a 0 b 1] s16_prod_range [of a 1 b 0] by auto

lemmas cmpy_forms = cmpy_def Let_def sat32_eq round_eq case_prod_conv

lemma s16_prod_max: "s16 a i * s16 b j = 1073741824 \<longleftrightarrow> uhalf a i = 0x8000 \<and> uhalf b j = 0x8000"
  unfolding s16_uhalf by (rule prod16_max_iff)

text \<open>C39: CMPY is the complex product of two packed 16-bit complex numbers: the odd register
  is the exact real part, which always fits in 32 bits, the even register the imaginary
  part clamped to 32 bits, and the saturation flag is set exactly when all four
  halfwords are 8000h, the one case in which the clamp changes it.\<close>

lemma cmpy_complex_product:
  "let r = cmpy CMPY a hi b
   in sint (ucast (shr (cm_value r) 32) :: u32) = c_re a b \<and>
      sint (ucast (cm_value r) :: u32) = clamp32 (c_im a b) \<and>
      (cm_saturated r \<longleftrightarrow> uhalf a 0 = 0x8000 \<and> uhalf a 1 = 0x8000 \<and>
                         uhalf b 0 = 0x8000 \<and> uhalf b 1 = 0x8000) \<and>
      (cm_saturated r \<longleftrightarrow> clamp32 (c_im a b) \<noteq> c_im a b) \<and>
      cm_pair_dst r \<and> \<not> cm_pair_src1 r \<and> cm_valid r"
proof -
  define r where "r = cmpy CMPY a hi b"
  have r: "cm_value r = pair_value (u32_of (c_re a b)) (u32_of (clamp32 (c_im a b)))"
    "cm_saturated r = (clamp32 (c_im a b) \<noteq> c_im a b)"
    "cm_pair_dst r" "\<not> cm_pair_src1 r" "cm_valid r"
    unfolding r_def cmpy_forms c_re_def c_im_def by simp_all
  have "clamp32 (c_im a b) \<noteq> c_im a b \<longleftrightarrow> c_im a b = 2147483648"
    using c_im_range [of a b] by (auto simp: clamp32_def)
  also have "\<dots> \<longleftrightarrow> s16 a 0 * s16 b 1 = 1073741824 \<and> s16 a 1 * s16 b 0 = 1073741824"
    unfolding c_im_def using s16_prod_range [of a 0 b 1] s16_prod_range [of a 1 b 0] by auto
  finally have "cm_saturated r \<longleftrightarrow> uhalf a 0 = 0x8000 \<and> uhalf a 1 = 0x8000 \<and>
                         uhalf b 0 = 0x8000 \<and> uhalf b 1 = 0x8000"
    unfolding r(2) s16_prod_max by auto
  then show ?thesis
    unfolding Let_def r_def [symmetric] using r
    by (simp only: pair_value_regs sint_clamp32 sint_of_int_u32 [OF c_re_range] simp_thms)
qed

text \<open>The rounding complex multiplies. CMPYR packs the real and the imaginary part, each
  clamped, rounded by 8000h, clamped again and divided by 65536, into the high and low half
  of one register; CMPYR1 rounds by 4000h and doubles first. Both set the flag exactly
  when one of the clamps changed a value.\<close>

lemma cmpy_rounded:
  "let r = cmpy CMPYR a hi b; q = cmpy CMPYR1 a hi b; im = clamp32 (c_im a b)
   in sint (ucast (shr (cm_value r) 16) :: u16) = clamp32 (c_re a b + 0x8000) div 2 ^ 16 \<and>
      sint (ucast (cm_value r) :: u16) = clamp32 (im + 0x8000) div 2 ^ 16 \<and>
      (cm_saturated r \<longleftrightarrow> im \<noteq> c_im a b \<or> clamp32 (im + 0x8000) \<noteq> im + 0x8000 \<or>
         clamp32 (c_re a b + 0x8000) \<noteq> c_re a b + 0x8000) \<and>
      sint (ucast (shr (cm_value q) 16) :: u16) = clamp32 ((c_re a b + 0x4000) * 2) div 2 ^ 16 \<and>
      sint (ucast (cm_value q) :: u16) = clamp32 ((im + 0x4000) * 2) div 2 ^ 16 \<and>
      (cm_saturated q \<longleftrightarrow> im \<noteq> c_im a b \<or> clamp32 ((im + 0x4000) * 2) \<noteq> (im + 0x4000) * 2 \<or>
         clamp32 ((c_re a b + 0x4000) * 2) \<noteq> (c_re a b + 0x4000) * 2)"
proof -
  have re: "clamp32 (c_re a b) = c_re a b" by (rule clamp32_id) (rule c_re_range)+
  have 1: "cmpy CMPYR a hi b = \<lparr>cm_value = half_value (top16 (c_re a b + 0x8000)) (top16 (clamp32 (c_im a b) + 0x8000)),
      cm_pair_dst = False, cm_pair_src1 = False,
      cm_saturated = (((clamp32 (c_im a b) \<noteq> c_im a b \<or> False) \<or> clamp32 (c_re a b + 0x8000) \<noteq> c_re a b + 0x8000) \<or>
         clamp32 (clamp32 (c_im a b) + 0x8000) \<noteq> clamp32 (c_im a b) + 0x8000), cm_valid = True\<rparr>"
    unfolding cmpy_forms c_re_def [symmetric] c_im_def [symmetric] re by simp
  have 2: "cmpy CMPYR1 a hi b = \<lparr>cm_value = half_value (top16 ((c_re a b + 0x4000) * 2)) (top16 ((clamp32 (c_im a b) + 0x4000) * 2)),
      cm_pair_dst = False, cm_pair_src1 = False,
      cm_saturated = (((clamp32 (c_im a b) \<noteq> c_im a b \<or> False) \<or> clamp32 ((c_re a b + 0x4000) * 2) \<noteq> (c_re a b + 0x4000) * 2) \<or>
         clamp32 ((clamp32 (c_im a b) + 0x4000) * 2) \<noteq> (clamp32 (c_im a b) + 0x4000) * 2), cm_valid = True\<rparr>"
    unfolding cmpy_forms c_re_def [symmetric] c_im_def [symmetric] re by simp
  show ?thesis
    unfolding Let_def 1 2 cmpy_result.simps half_value_halves top16_value by (intro conjI) auto
qed

text \<open>The two sums of a double dot product, and the one that straddles the source pair.\<close>

definition dot2 :: "u32 \<Rightarrow> u32 \<Rightarrow> int" where
  "dot2 a b = s16 a 1 * s16 b 1 + s16 a 0 * s16 b 0"

definition dot2_straddle :: "u32 \<Rightarrow> u32 \<Rightarrow> u32 \<Rightarrow> int" where
  "dot2_straddle e od b = s16 od 0 * s16 b 1 + s16 e 1 * s16 b 0"

text \<open>The double dot products. DDOTPH2 writes the clamped dot product of the odd source
  register to the odd destination and the clamped straddling sum to the even one; DDOTPL2
  crosses them; the R forms pack the same sums, rounded by 8000h and clamped, into the
  halves of one register; DDOTP4's sums of halfword by byte products are exact.\<close>

lemma double_dot_products:
  "let h = cmpy DDOTPH2 e od b; l = cmpy DDOTPL2 e od b;
       hr = cmpy DDOTPH2R e od b; lr = cmpy DDOTPL2R e od b; d4 = cmpy DDOTP4 e od b
   in sint (ucast (shr (cm_value h) 32) :: u32) = clamp32 (dot2 od b) \<and>
      sint (ucast (cm_value h) :: u32) = clamp32 (dot2_straddle e od b) \<and>
      sint (ucast (cm_value l) :: u32) = clamp32 (dot2 e b) \<and>
      sint (ucast (shr (cm_value l) 32) :: u32) = clamp32 (dot2_straddle e od b) \<and>
      sint (ucast (shr (cm_value hr) 16) :: u16) = clamp32 (dot2 od b + 0x8000) div 2 ^ 16 \<and>
      sint (ucast (cm_value hr) :: u16) = clamp32 (dot2_straddle e od b + 0x8000) div 2 ^ 16 \<and>
      sint (ucast (cm_value lr) :: u16) = clamp32 (dot2 e b + 0x8000) div 2 ^ 16 \<and>
      sint (ucast (shr (cm_value lr) 16) :: u16) = clamp32 (dot2_straddle e od b + 0x8000) div 2 ^ 16 \<and>
      sint (ucast (cm_value d4) :: u32) = s16 e 1 * s8 b 1 + s16 e 0 * s8 b 0 \<and>
      sint (ucast (shr (cm_value d4) 32) :: u32) = s16 e 1 * s8 b 3 + s16 e 0 * s8 b 2"
proof -
  have "cm_value (cmpy DDOTPH2 e od b) =
      pair_value (u32_of (clamp32 (dot2 od b))) (u32_of (clamp32 (dot2_straddle e od b)))"
    "cm_value (cmpy DDOTPL2 e od b) =
      pair_value (u32_of (clamp32 (dot2_straddle e od b))) (u32_of (clamp32 (dot2 e b)))"
    "cm_value (cmpy DDOTPH2R e od b) =
      half_value (top16 (dot2 od b + 0x8000)) (top16 (dot2_straddle e od b + 0x8000))"
    "cm_value (cmpy DDOTPL2R e od b) =
      half_value (top16 (dot2_straddle e od b + 0x8000)) (top16 (dot2 e b + 0x8000))"
    "cm_value (cmpy DDOTP4 e od b) =
      pair_value (u32_of (s16 e 1 * s8 b 3 + s16 e 0 * s8 b 2)) (u32_of (s16 e 1 * s8 b 1 + s16 e 0 * s8 b 0))"
    unfolding cmpy_forms dot2_def dot2_straddle_def by simp_all
  note v = this
  have r: "int32_min \<le> s16 e 1 * s8 b m + s16 e 0 * s8 b n" "s16 e 1 * s8 b m + s16 e 0 * s8 b n \<le> int32_max" for m n
    using s16_s8_prod_range [of e 1 b m] s16_s8_prod_range [of e 0 b n] by auto
  show ?thesis
    unfolding Let_def v pair_value_regs half_value_halves top16_value sint_clamp32 sint_of_int_u32 [OF r]
    by (intro conjI refl)
qed

section \<open>SMPY32 and MPY2IR\<close>

lemma prod32_range:
  "- (2 ^ 62) < sint (a :: u32) * sint (b :: u32)" "sint a * sint b \<le> 2 ^ 62"
proof -
  have r: "- 2147483648 \<le> sint a" "sint a \<le> 2147483647" "- 2147483648 \<le> sint b" "sint b \<le> 2147483647"
    using sint_u32_range [of a] sint_u32_range [of b] by auto
  show "sint a * sint b \<le> 2 ^ 62"
    using prod_bounds [of 2147483648 "sint a" 2147483648 "sint b"] r by simp
  show "- (2 ^ 62) < sint a * sint b"
  proof (cases "sint a = - 2147483648")
    case False
    then show ?thesis using prod_bounds [of 2147483647 "sint a" 2147483648 "sint b"] r by simp
  qed (use r in simp)
qed

lemma prod32_max_iff: "sint (a :: u32) * sint b = 2 ^ 62 \<longleftrightarrow> a = 0x80000000 \<and> (b :: u32) = 0x80000000"
proof
  assume *: "sint a * sint b = 2 ^ 62"
  have r: "- 2147483648 \<le> sint a" "sint a \<le> 2147483647" "- 2147483648 \<le> sint b" "sint b \<le> 2147483647"
    using sint_u32_range [of a] sint_u32_range [of b] by auto
  have "sint a = - 2147483648"
  proof (rule ccontr)
    assume "sint a \<noteq> - 2147483648"
    then show False using prod_bounds [of 2147483647 "sint a" 2147483648 "sint b"] r * by simp
  qed
  then have "sint b = - 2147483648" using * by simp
  with \<open>sint a = - 2147483648\<close> have "sint a = sint (0x80000000 :: u32)" "sint b = sint (0x80000000 :: u32)"
    by simp_all
  then show "a = 0x80000000 \<and> b = 0x80000000" by (simp only: sint_eq_iff)
qed simp

lemma sint_top32: "- (2 ^ 63) \<le> v \<Longrightarrow> v < 2 ^ 63 \<Longrightarrow> sint (ucast (shr (u64_of v) 32) :: u32) = v div 2 ^ 32"
proof -
  assume v: "- (2 ^ 63) \<le> v" "v < 2 ^ 63"
  have "sint (ucast (shr (w :: u64) 32) :: u32) = drop_bit 32 (sint w)" for w
  proof (rule bit_eqI)
    fix n :: nat
    have "min 63 (32 + min 31 n) = min 63 (32 + n)" by simp
    then show "bit (sint (ucast (shr w 32) :: u32)) n = bit (drop_bit 32 (sint w)) n"
      by (simp add: bit_signed_iff bit_ucast_iff bit_drop_bit_eq min_less_iff_disj)
  qed
  then show ?thesis by (simp only: sint_u64_of [OF v]) (simp only: drop_bit_eq_div)
qed

lemma mpy2ir_half:
  fixes h :: u16 and w :: u32
  shows "sint (if sint h = - 32768 \<and> w = 0x80000000 then 0x7FFFFFFF
      else u32_of (drop_bit 15 (sint h * sint w + 0x4000))) =
    clamp32 ((sint h * sint w + 0x4000) div 2 ^ 15)" (is ?val)
    "(sint h = - 32768 \<and> w = 0x80000000) \<longleftrightarrow>
    clamp32 ((sint h * sint w + 0x4000) div 2 ^ 15) \<noteq> (sint h * sint w + 0x4000) div 2 ^ 15" (is ?flag)
proof (atomize (full), cases "sint h = - 32768 \<and> w = 0x80000000")
  case False
  have r: "- 32768 \<le> sint h" "sint h \<le> 32767" "- 2147483648 \<le> sint w" "sint w \<le> 2147483647"
    using sint_u16_range [of h] sint_u32_range [of w] by auto
  have "sint w \<noteq> - 2147483648 \<or> sint h \<noteq> - 32768"
    using False sint_eq_iff [of w "0x80000000"] by auto
  then have u: "sint h * sint w \<le> 2147483647 * 32768"
  proof
    assume "sint w \<noteq> - 2147483648"
    then show ?thesis using prod_bounds [of 32768 "sint h" 2147483647 "sint w"] r by simp
  next
    assume "sint h \<noteq> - 32768"
    then show ?thesis using prod_bounds [of 32767 "sint h" 2147483648 "sint w"] r by simp
  qed
  have l: "- (2147483648 * 32768) \<le> sint h * sint w"
    using prod_bounds [of 32768 "sint h" 2147483648 "sint w"] r by simp
  have d: "int32_min \<le> (sint h * sint w + 0x4000) div 2 ^ 15" "(sint h * sint w + 0x4000) div 2 ^ 15 \<le> int32_max"
    using u l by (simp_all add: div_int_pos_iff)
  have ?val unfolding if_not_P [OF False] drop_bit_eq_div clamp32_id [OF d]
    by (rule sint_of_int_u32 [OF d])
  then show "?val \<and> ?flag" using False clamp32_id [OF d] by simp
qed (auto simp: clamp32_def)

text \<open>SMPY32 returns the high word of the doubled signed product, which saturates (with the
  flag) only for 8000 0000h squared; each register of MPY2IR is the halfword by word
  product rounded by 4000h and divided by 32768, clamped to 32 bits, and its flag is set
  exactly when one of the two clamps changed the value.\<close>

lemma mpy32_rounded_products:
  "let s = mpy32_nonconditional SMPY32 a b; r = mpy32_nonconditional MPY2IR a b;
       h = (sint (uhalf a 1) * sint b + 0x4000) div 2 ^ 15;
       l = (sint (uhalf a 0) * sint b + 0x4000) div 2 ^ 15
   in sint (ucast (cm_value s) :: u32) = min (2 ^ 63 - 1) (2 * (sint a * sint b)) div 2 ^ 32 \<and>
      (cm_saturated s \<longleftrightarrow> a = 0x80000000 \<and> b = 0x80000000) \<and>
      sint (ucast (shr (cm_value r) 32) :: u32) = clamp32 h \<and>
      sint (ucast (cm_value r) :: u32) = clamp32 l \<and>
      (cm_saturated r \<longleftrightarrow> \<not> (clamp32 h = h \<and> clamp32 l = l))"
proof -
  define h l where "h = (sint (uhalf a 1) * sint b + 0x4000) div 2 ^ 15"
    and "l = (sint (uhalf a 0) * sint b + 0x4000) div 2 ^ 15"
  have lo: "ucast (a AND 0xFFFF) = uhalf a 0"
    by (simp add: ucast_masked_u16 uhalf_def)
  have hi: "ucast (shr a 16) = uhalf a 1" by (simp add: uhalf_def)
  define s where "s = mpy32_nonconditional SMPY32 a b"
  define r where "r = mpy32_nonconditional MPY2IR a b"
  let ?p = "sint a * sint b"
  have s: "cm_value s = ucast (ucast (shr (u64_of (if ?p \<ge> 2 ^ 62 then 2 ^ 63 - 1 else ?p * 2)) 32) :: u32)"
    "cm_saturated s = (?p \<ge> 2 ^ 62)"
    by (simp_all add: s_def mpy32_nonconditional_def Let_def)
  have "sint (ucast (cm_value s) :: u32) = (if ?p \<ge> 2 ^ 62 then 2 ^ 63 - 1 else ?p * 2) div 2 ^ 32"
  proof -
    have "ucast (ucast (w :: u32) :: u64) = w" for w by (rule bit_word_eqI) (simp add: bit_simps)
    then show ?thesis unfolding s using prod32_range [of a b]
      by (simp only:) (rule sint_top32, auto)
  qed
  then have S: "sint (ucast (cm_value s) :: u32) = min (2 ^ 63 - 1) (2 * ?p) div 2 ^ 32"
    by (simp add: min_def mult.commute)
  have "?p \<ge> 2 ^ 62 \<longleftrightarrow> ?p = 2 ^ 62" using prod32_range [of a b] by auto
  then have T: "cm_saturated s \<longleftrightarrow> a = 0x80000000 \<and> b = 0x80000000"
    unfolding s prod32_max_iff .
  have R: "cm_value r = pair_value
      (if sint (uhalf a 1) = - 32768 \<and> b = 0x80000000 then 0x7FFFFFFF
       else u32_of (drop_bit 15 (sint (uhalf a 1) * sint b + 0x4000)))
      (if sint (uhalf a 0) = - 32768 \<and> b = 0x80000000 then 0x7FFFFFFF
       else u32_of (drop_bit 15 (sint (uhalf a 0) * sint b + 0x4000)))"
    "cm_saturated r = ((sint (uhalf a 1) = - 32768 \<and> b = 0x80000000) \<or>
       (sint (uhalf a 0) = - 32768 \<and> b = 0x80000000))"
    unfolding r_def mpy32_nonconditional_def Let_def lo hi by simp_all
  have "sint (ucast (shr (cm_value r) 32) :: u32) = clamp32 h" "sint (ucast (cm_value r) :: u32) = clamp32 l"
    unfolding R pair_value_regs h_def l_def by (rule mpy2ir_half(1))+
  moreover have "cm_saturated r \<longleftrightarrow> \<not> (clamp32 h = h \<and> clamp32 l = l)"
    unfolding R h_def l_def mpy2ir_half(2) de_Morgan_conj by (rule refl)
  ultimately show ?thesis
    unfolding Let_def s_def [symmetric] r_def [symmetric] h_def [symmetric] l_def [symmetric]
    using S T by (intro conjI)
qed

end
