(* ===== verification/C674x_Uncond.thy ===== *)
theory C674x_Uncond
  imports Prelude
begin

text \<open>
  \<^verbatim>\<open>emulator/qemu/cdj_c674x_uncond.c\<close>: the classifier of the 32-bit encodings whose
  bits 31-28 are the literal 0001 opcode field, and the long-immediate address adds.
  The classifier is compared with the encoding figures of the instruction set
  manual, written as a table of masks and values.
\<close>

section \<open>Opfield classes\<close>

datatype uncond_kind =
    UNCOND_NONE | UNCOND_ADDAB | UNCOND_ADDAH | UNCOND_ADDAW
  | UNCOND_UNIMPLEMENTED | UNCOND_ARM_TABLE

text \<open>The C functions return 0 for an opfield that is not theirs.\<close>

datatype l_class = L_NONE | L_DST4 | L_DST5
datatype m_class = M_NONE | M_UNIMPLEMENTED | M_ARM_TABLE

definition l_unit_op :: "u32 \<Rightarrow> l_class" where
  "l_unit_op op =
     (if op = 0x0C \<or> op = 0x0D \<or> op = 0x0E \<or> op = 0x0F \<or> op = 0x33 \<or> op = 0x34 then L_DST4
      else if op = 0x36 then L_DST5
      else L_NONE)"

definition m_unit_op :: "u32 \<Rightarrow> m_class" where
  "m_unit_op op =
     (if op = 0x1B \<or> op = 0x1F then M_ARM_TABLE
      else if op = 0x0A \<or> op = 0x0B \<or> op = 0x0C \<or> op = 0x14 \<or> op = 0x15 \<or> op = 0x16 \<or>
              op = 0x17 \<or> op = 0x18 \<or> op = 0x0F \<or> op = 0x19 then M_ARM_TABLE
      else M_NONE)"

section \<open>The classifier\<close>

text \<open>Each early-return block of the C function gives \<open>None\<close> when it falls through.\<close>

definition classify_l :: "u32 \<Rightarrow> uncond_kind option" where
  "classify_l word =
     (if word AND 0x1C = 0x18 then
        (let op = shr word 5 AND 0x7F; l = l_unit_op op
         in if l = L_DST5 \<or> (l = L_DST4 \<and> word AND shl 1 23 = 0) then
              Some (if op = 0x33 \<or> op = 0x34 \<or> op = 0x36 \<or> (op \<ge> 0x0C \<and> op \<le> 0x0F)
                    then UNCOND_ARM_TABLE else UNCOND_UNIMPLEMENTED)
            else None)
      else None)"

definition classify_ms :: "u32 \<Rightarrow> uncond_kind option" where
  "classify_ms word =
     (if word AND 0x3C = 0x30 then
        (let extent = shr word 10 AND 3;
             m = (if extent AND 2 = 0 then m_unit_op (shr word 6 AND 0x1F) else M_NONE)
         in if m = M_ARM_TABLE then Some UNCOND_ARM_TABLE
            else if m = M_UNIMPLEMENTED then Some UNCOND_UNIMPLEMENTED
            else if extent = 3 \<and> shr word 6 AND 0xF = 0xB then Some UNCOND_ARM_TABLE
            else None)
      else None)"

definition uncond_classify :: "u32 \<Rightarrow> uncond_kind" where
  "uncond_classify word =
     (if shr word 28 \<noteq> 1 then UNCOND_NONE
      else if word AND 0x7C = 0x3C then UNCOND_ADDAB
      else if word AND 0x7C = 0x5C then UNCOND_ADDAH
      else if word AND 0x7C = 0x7C then UNCOND_ADDAW
      else case classify_l word of Some k \<Rightarrow> k
        | None \<Rightarrow> (case classify_ms word of Some k \<Rightarrow> k
            | None \<Rightarrow> if word AND NOT 0x2001 = 0x10000000 then UNCOND_UNIMPLEMENTED
                      else UNCOND_NONE))"

record adda_long_result =
  al_dst :: u32
  al_side :: u32
  al_result :: u32

definition adda_long :: "uncond_kind \<Rightarrow> u32 \<Rightarrow> u32 \<Rightarrow> u32 \<Rightarrow> adda_long_result" where
  "adda_long kind word b14 b15 =
     (let shift = (if kind = UNCOND_ADDAH then 1 else if kind = UNCOND_ADDAW then 2 else 0);
          base = (if word AND 0x80 \<noteq> 0 then b15 else b14)
      in \<lparr>al_dst = shr word 23 AND 31, al_side = shr word 1 AND 1,
          al_result = base + shl (shr word 8 AND 0x7FFF) shift\<rparr>)"

section \<open>The encoding figures\<close>

text \<open>One row per figure: mask, value, class. \<open>l_row\<close> is the .L figure with the reserved bit
  23, \<open>m_row\<close> the .M figure.\<close>

type_synonym encoding_row = "u32 \<times> u32 \<times> uncond_kind"

definition adda_rows :: "encoding_row list" where
  "adda_rows = [(0xF000007C, 0x1000003C, UNCOND_ADDAB), (0xF000007C, 0x1000005C, UNCOND_ADDAH),
     (0xF000007C, 0x1000007C, UNCOND_ADDAW)]"

definition l_rows :: "encoding_row list" where
  "l_rows = map (\<lambda>op. (0xF0800FFC, 0x10000018 OR shl op 5, UNCOND_ARM_TABLE))
       [0x0C, 0x0D, 0x0E, 0x0F, 0x33, 0x34] @
     [(0xF0000FFC, 0x10000018 OR shl 0x36 5, UNCOND_ARM_TABLE)]"

definition m_rows :: "encoding_row list" where
  "m_rows = map (\<lambda>op. (0xF0000FFC, 0x10000030 OR shl op 6, UNCOND_ARM_TABLE))
     [0x1B, 0x1F, 0x0A, 0x0B, 0x0C, 0x14, 0x15, 0x16, 0x17, 0x18, 0x0F, 0x19]"

definition s_rows :: "encoding_row list" where
  "s_rows = [(0xF0000FFC, 0x10000EF0, UNCOND_ARM_TABLE)]"

definition h_rows :: "encoding_row list" where
  "h_rows = [(0xFFFFDFFE, 0x10000000, UNCOND_UNIMPLEMENTED)]"

fun lookup_row :: "encoding_row list \<Rightarrow> u32 \<Rightarrow> uncond_kind option" where
  "lookup_row [] word = None"
| "lookup_row ((m, v, k) # rows) word = (if word AND m = v then Some k else lookup_row rows word)"

definition encoding_table :: "encoding_row list" where
  "encoding_table = adda_rows @ l_rows @ m_rows @ s_rows @ h_rows"

section \<open>The classifier implements the figures\<close>

lemma and_or_split:
  assumes "m1 AND m2 = 0" "v1 AND NOT m1 = 0" "v2 AND NOT m2 = 0"
  shows "(w :: u32) AND (m1 OR m2) = v1 OR v2 \<longleftrightarrow> w AND m1 = v1 \<and> w AND m2 = v2"
proof -
  have b: "\<not> (bit m1 i \<and> bit m2 i)" "\<not> (bit v1 i \<and> \<not> bit m1 i)" "\<not> (bit v2 i \<and> \<not> bit m2 i)" if "i < 32" for i
    using that assms[THEN arg_cong [where f = "\<lambda>x. bit x i"]] by (simp_all add: bit_simps)
  show ?thesis
  proof
    assume *: "w AND (m1 OR m2) = v1 OR v2"
    have **: "bit w i \<and> (bit m1 i \<or> bit m2 i) \<longleftrightarrow> bit v1 i \<or> bit v2 i" if "i < 32" for i
      using *[THEN arg_cong [where f = "\<lambda>x. bit x i"]] by (simp add: bit_simps)
    show "w AND m1 = v1 \<and> w AND m2 = v2"
      by (intro conjI bit_word_eqI) (use b ** in \<open>auto simp: bit_simps\<close>)
  next
    assume "w AND m1 = v1 \<and> w AND m2 = v2"
    then show "w AND (m1 OR m2) = v1 OR v2" by (auto simp: bit.conj_disj_distrib)
  qed
qed

lemma field_eq:
  assumes "v AND NOT m = 0" "shr (shl m k) k = m"
  shows "shr (w :: u32) k AND m = v \<longleftrightarrow> w AND shl m k = shl v k"
proof
  assume *: "shr w k AND m = v"
  show "w AND shl m k = shl v k" unfolding *[symmetric]
    by (rule bit_word_eqI) (auto simp: bit_simps)
next
  assume *: "w AND shl m k = shl v k"
  have "shr w k AND m = shr (w AND shl m k) k" unfolding drop_bit_and assms(2) by (rule refl)
  also have "\<dots> = v"
  proof (rule bit_word_eqI)
    fix i assume "i < LENGTH(32)"
    have "bit v i \<Longrightarrow> bit m i" using assms(1)[THEN arg_cong [where f = "\<lambda>x. bit x i"]] by (auto simp: bit_simps)
    moreover have "bit m i \<Longrightarrow> i + k < 32"
      using assms(2)[THEN arg_cong [where f = "\<lambda>x. bit x i"]] by (auto simp: bit_simps)
    ultimately show "bit (shr (w AND shl m k) k) i = bit v i"
      unfolding * by (auto simp: bit_simps add.commute)
  qed
  finally show "shr w k AND m = v" .
qed

lemma top_nibble: "shr (w :: u32) 28 = 1 \<longleftrightarrow> w AND 0xF0000000 = 0x10000000"
proof -
  have "shr w 28 AND 0xF = shr w 28"
    by (rule bit_word_eqI) (auto simp: bit_simps and_mask_numerals dest: bit_imp_le_length)
  then show ?thesis using field_eq [of 1 "0xF" 28 w] by simp
qed

text \<open>An opfield of \<open>n\<close> bits at bit \<open>k\<close>, together with a literal part of the mask.\<close>

lemma op_row:
  assumes "take_bit n op = op" "n + k \<le> 32" "m AND shl (mask n) k = 0" "v AND NOT m = 0"
  shows "(w :: u32) AND (m OR shl (mask n) k) = v OR shl op k \<longleftrightarrow>
    w AND m = v \<and> shr w k AND mask n = op"
proof -
  have b: "bit op i \<Longrightarrow> i < n" for i
    using assms(1)[THEN arg_cong [where f = "\<lambda>x. bit x i"]] by (simp add: bit_simps)
  have "shl op k AND NOT (shl (mask n) k) = 0"
    by (rule bit_word_eqI) (auto simp: bit_simps dest: b)
  moreover have "op AND NOT (mask n) = 0"
    by (rule bit_word_eqI) (auto simp: bit_simps dest: b)
  moreover have "shr (shl (mask n) k) k = (mask n :: u32)"
    by (rule bit_word_eqI) (use assms(2) in \<open>auto simp: bit_simps\<close>)
  ultimately show ?thesis using and_or_split assms(3,4) field_eq by presburger
qed

lemma masks: "mask 7 = (0x7F :: u32)" "mask 5 = (0x1F :: u32)" "mask 4 = (0xF :: u32)" "mask 2 = (3 :: u32)"
  by (simp_all add: mask_eq_exp_minus_1)

lemma nibble_row:
  "m AND 0xF0000000 = 0 \<Longrightarrow> v AND NOT m = 0 \<Longrightarrow>
   (w :: u32) AND (0xF0000000 OR m) = 0x10000000 OR v \<longleftrightarrow> shr w 28 = 1 \<and> w AND m = v"
  using and_or_split [of "0xF0000000" m "0x10000000" v w] by (simp add: top_nibble and.commute)

lemma l5_row: "take_bit 7 op = op \<Longrightarrow>
  (w :: u32) AND 0xF0000FFC = 0x10000018 OR shl op 5 \<longleftrightarrow>
    shr w 28 = 1 \<and> w AND 0x1C = 0x18 \<and> shr w 5 AND 0x7F = op"
  using op_row [of 7 op 5 "0xF000001C" "0x10000018" w] nibble_row [of "0x1C" "0x18" w]
  by (simp add: masks)

lemma l4_row: "take_bit 7 op = op \<Longrightarrow>
  (w :: u32) AND 0xF0800FFC = 0x10000018 OR shl op 5 \<longleftrightarrow>
    shr w 28 = 1 \<and> w AND 0x1C = 0x18 \<and> w AND 0x800000 = 0 \<and> shr w 5 AND 0x7F = op"
  using op_row [of 7 op 5 "0xF080001C" "0x10000018" w] nibble_row [of "0x80001C" "0x18" w]
    and_or_split [of "0x1C" "0x800000" "0x18" 0 w]
  by (simp add: masks)

lemma m_row: "take_bit 5 op = op \<Longrightarrow>
  (w :: u32) AND 0xF0000FFC = 0x10000030 OR shl op 6 \<longleftrightarrow>
    shr w 28 = 1 \<and> w AND 0x3C = 0x30 \<and> w AND 0x800 = 0 \<and> shr w 6 AND 0x1F = op"
  using op_row [of 5 op 6 "0xF000083C" "0x10000030" w] nibble_row [of "0x83C" "0x30" w]
    and_or_split [of "0x3C" "0x800" "0x30" 0 w]
  by (simp add: masks)

lemma s_row: "(w :: u32) AND 0xF0000FFC = 0x10000EF0 \<longleftrightarrow>
    shr w 28 = 1 \<and> w AND 0x3C = 0x30 \<and> shr w 10 AND 3 = 3 \<and> shr w 6 AND 0xF = 0xB"
  using op_row [of 4 "0xB" 6 "0xF0000C3C" "0x10000C30" w] nibble_row [of "0xC3C" "0xC30" w]
    op_row [of 2 3 10 "0x3C" "0x30" w]
  by (simp add: masks)

lemma h_row: "(w :: u32) AND 0xFFFFDFFE = 0x10000000 \<Longrightarrow> shr w 28 = 1 \<and> w AND 0x1C = 0 \<and> w AND 0x3C = 0 \<and> w AND 0x7C = 0"
  using nibble_row [of "0xFFFDFFE" 0 w] and_or_split [of "0xFFFDF82" "0x7C" 0 0 w]
    and_or_split [of "0x60" "0x1C" 0 0 w]  and_or_split [of "0x40" "0x3C" 0 0 w]
  by simp

lemma extent_bit: "(shr (w :: u32) 10 AND 3) AND 2 = 0 \<longleftrightarrow> w AND 0x800 = 0"
proof -
  have "(shr w 10 AND 3) AND 2 = shr w 10 AND 2" by (simp add: and.assoc)
  then show ?thesis using field_eq [of 0 2 10 w] by simp
qed

lemma adda_rows: "(w :: u32) AND 0xF000007C = 0x1000003C \<longleftrightarrow> shr w 28 = 1 \<and> w AND 0x7C = 0x3C"
  "w AND 0xF000007C = 0x1000005C \<longleftrightarrow> shr w 28 = 1 \<and> w AND 0x7C = 0x5C"
  "w AND 0xF000007C = 0x1000007C \<longleftrightarrow> shr w 28 = 1 \<and> w AND 0x7C = 0x7C"
  using nibble_row [of "0x7C" "0x3C" w] nibble_row [of "0x7C" "0x5C" w] nibble_row [of "0x7C" "0x7C" w]
  by simp_all

lemma lookup_row_append:
  "lookup_row (xs @ ys) w = (case lookup_row xs w of Some k \<Rightarrow> Some k | None \<Rightarrow> lookup_row ys w)"
  by (induction xs w rule: lookup_row.induct) auto

lemma lookup_adda:
  "lookup_row adda_rows w = (if shr w 28 \<noteq> 1 then None
     else if w AND 0x7C = 0x3C then Some UNCOND_ADDAB
     else if w AND 0x7C = 0x5C then Some UNCOND_ADDAH
     else if w AND 0x7C = 0x7C then Some UNCOND_ADDAW else None)"
  by (simp add: adda_rows_def adda_rows)

text \<open>The rows of the .L and .M figures as conditions on fields, one per opfield.\<close>

lemmas l_row_conditions =
  l4_row [of "0x0C", simplified] l4_row [of "0x0D", simplified] l4_row [of "0x0E", simplified]
  l4_row [of "0x0F", simplified] l4_row [of "0x33", simplified] l4_row [of "0x34", simplified]
  l5_row [of "0x36", simplified]

lemmas m_row_conditions =
  m_row [of "0x1B", simplified] m_row [of "0x1F", simplified] m_row [of "0x0A", simplified]
  m_row [of "0x0B", simplified] m_row [of "0x0C", simplified] m_row [of "0x14", simplified]
  m_row [of "0x15", simplified] m_row [of "0x16", simplified] m_row [of "0x17", simplified]
  m_row [of "0x18", simplified] m_row [of "0x0F", simplified] m_row [of "0x19", simplified]

lemma l_arm: "l_unit_op op \<noteq> L_NONE \<Longrightarrow>
  op = 0x33 \<or> op = 0x34 \<or> op = 0x36 \<or> (op \<ge> 0x0C \<and> op \<le> 0x0F)"
  by (auto simp: l_unit_op_def split: if_splits)

lemma classify_l_arm:
  "classify_l w =
     (if w AND 0x1C = 0x18 \<and> (l_unit_op (shr w 5 AND 0x7F) = L_DST5 \<or>
         (l_unit_op (shr w 5 AND 0x7F) = L_DST4 \<and> w AND shl 1 23 = 0))
      then Some UNCOND_ARM_TABLE else None)"
  using l_arm [of "shr w 5 AND 0x7F"] unfolding classify_l_def Let_def by (auto simp del: push_bit_of_1)

lemma l_class_iff:
  "l_unit_op op = L_DST5 \<longleftrightarrow> op = 0x36"
  "l_unit_op op = L_DST4 \<longleftrightarrow> op \<in> {0x0C, 0x0D, 0x0E, 0x0F, 0x33, 0x34}"
  by (auto simp: l_unit_op_def)

lemma lookup_l: "lookup_row l_rows w = (if shr w 28 = 1 then classify_l w else None)"
proof -
  have b: "w AND shl 1 23 = w AND (0x800000 :: u32)" by simp
  show ?thesis
    unfolding classify_l_arm l_class_iff b by (auto simp: l_rows_def l_row_conditions)
qed

lemma lookup_ms: "lookup_row (m_rows @ s_rows) w = (if shr w 28 = 1 then classify_ms w else None)"
proof -
  have ex: "shr w 10 AND 3 = 3 \<Longrightarrow> w AND 0x800 \<noteq> 0"
    using field_eq [of 3 3 10 w] and_or_split [of "0x800" "0x400" "0x800" "0x400" w] by simp
  show ?thesis
    unfolding m_rows_def s_rows_def classify_ms_def Let_def m_unit_op_def extent_bit
    using ex by (simp add: m_row_conditions s_row)
qed

lemma lookup_h: "lookup_row h_rows w =
    (if w AND 0xFFFFDFFE = 0x10000000 then Some UNCOND_UNIMPLEMENTED else None)"
  by (simp add: h_rows_def)

lemma sorted_wrt_cases:
  "sorted_wrt P xs \<Longrightarrow> (\<And>x y. P x y \<Longrightarrow> P y x) \<Longrightarrow> x \<in> set xs \<Longrightarrow> y \<in> set xs \<Longrightarrow> x = y \<or> P x y"
  by (induction xs) auto

definition rows_apart :: "encoding_row \<Rightarrow> encoding_row \<Rightarrow> bool" where
  "rows_apart r r' \<longleftrightarrow> (fst (snd r) XOR fst (snd r')) AND (fst r AND fst r') \<noteq> 0"

lemma rows_disjoint: "sorted_wrt rows_apart encoding_table"
  by (simp add: encoding_table_def adda_rows_def l_rows_def m_rows_def s_rows_def h_rows_def rows_apart_def)

lemma rows_apart_exclusive:
  assumes "rows_apart r r'" "w AND fst r = fst (snd r)"
  shows "w AND fst r' \<noteq> fst (snd r')"
proof
  assume *: "w AND fst r' = fst (snd r')"
  have "(fst (snd r) XOR fst (snd r')) AND (fst r AND fst r') = 0"
    unfolding assms(2) [symmetric] * [symmetric] by (rule bit_word_eqI) (auto simp: bit_simps)
  with assms(1) show False by (simp add: rows_apart_def)
qed

text \<open>The classifier implements the encoding figures: the class of a word is that of the row of
  \<open>encoding_table\<close> whose mask and value it matches, \<open>UNCOND_NONE\<close> when it matches none,
  and no word matches two rows.\<close>

theorem uncond_classify_table:
  "uncond_classify w = (case lookup_row encoding_table w of Some k \<Rightarrow> k | None \<Rightarrow> UNCOND_NONE) \<and>
   (\<forall>r\<in>set encoding_table. \<forall>r'\<in>set encoding_table.
      w AND fst r = fst (snd r) \<and> w AND fst r' = fst (snd r') \<longrightarrow> r = r')"
proof (intro conjI ballI impI)
  have n: "(NOT 0x2001 :: u32) = 0xFFFFDFFE" by simp
  have t: "lookup_row encoding_table w =
      (case lookup_row adda_rows w of Some k \<Rightarrow> Some k | None \<Rightarrow>
        (case lookup_row l_rows w of Some k \<Rightarrow> Some k | None \<Rightarrow>
          (case lookup_row (m_rows @ s_rows) w of Some k \<Rightarrow> Some k | None \<Rightarrow> lookup_row h_rows w)))"
    unfolding encoding_table_def by (auto simp: lookup_row_append split: option.splits)
  show "uncond_classify w = (case lookup_row encoding_table w of Some k \<Rightarrow> k | None \<Rightarrow> UNCOND_NONE)"
    unfolding t lookup_adda lookup_l lookup_ms lookup_h uncond_classify_def n
    using h_row [of w] by (cases "shr w 28 = 1") (auto split: option.splits)
  fix r r' assume r: "r \<in> set encoding_table" "r' \<in> set encoding_table"
    and m: "w AND fst r = fst (snd r) \<and> w AND fst r' = fst (snd r')"
  have "r = r' \<or> rows_apart r r'"
    by (rule sorted_wrt_cases [OF rows_disjoint _ r]) (simp add: rows_apart_def ac_simps)
  then show "r = r'" using rows_apart_exclusive m by blast
qed

theorem uncond_classify_table_witness:
  "uncond_classify 0x10000198 = UNCOND_ARM_TABLE \<and> (0x10000198 :: u32) AND 0xF0800FFC = 0x10000198"
  using uncond_classify_table [of "0x10000198"]
  by (simp add: encoding_table_def adda_rows_def l_rows_def)

text \<open>The instruction bits the figures leave free do not change the class: the p bit never, and the
  destination and source fields (bits 27-24 and 22-13) of any word that is not a bit pattern
  of the reserved all-zero figure; a word whose top nibble is not 0001 is never classified, and
  \<open>UNCOND_UNIMPLEMENTED\<close> is given to the two software-event words of that figure only.\<close>

theorem uncond_classify_fields:
  "uncond_classify (w XOR 1) = uncond_classify w \<and>
   (shr w 28 \<noteq> 1 \<longrightarrow> uncond_classify w = UNCOND_NONE) \<and>
   (uncond_classify w = UNCOND_UNIMPLEMENTED \<longleftrightarrow> w AND 0xFFFFDFFE = 0x10000000)"
proof (intro conjI impI)
  have p: "(w XOR 1) AND m = w AND m" if "\<not> bit m 0" for m :: u32
    using that by (intro bit_word_eqI) (auto simp: bit_simps bit_1_iff intro!: gr0I)
  have s: "shr (w XOR 1) k = shr w k" if "0 < k" for k
    using that by (intro bit_word_eqI) (auto simp: bit_simps bit_1_iff)
  have m: "\<not> bit (0x1C :: u32) 0" "\<not> bit (0x3C :: u32) 0" "\<not> bit (shl 1 23 :: u32) 0" by simp_all
  have *: "classify_l (w XOR 1) = classify_l w" "classify_ms (w XOR 1) = classify_ms w"
    unfolding classify_l_def classify_ms_def p [OF m(1)] p [OF m(2)] p [OF m(3)]
      s [OF zero_less_numeral] by (rule refl)+
  have m': "\<not> bit (0x7C :: u32) 0" "\<not> bit (NOT 0x2001 :: u32) 0" by simp_all
  show "uncond_classify (w XOR 1) = uncond_classify w"
    unfolding uncond_classify_def unfolding * p [OF m'(1)] p [OF m'(2)] s [OF zero_less_numeral]
    by (rule refl)
  show "shr w 28 \<noteq> 1 \<Longrightarrow> uncond_classify w = UNCOND_NONE" by (simp add: uncond_classify_def)
  have n: "(NOT 0x2001 :: u32) = 0xFFFFDFFE" by simp
  have ms: "classify_ms w \<noteq> Some UNCOND_UNIMPLEMENTED"
    unfolding classify_ms_def Let_def m_unit_op_def by simp
  have l: "classify_l w \<noteq> Some UNCOND_UNIMPLEMENTED" by (simp add: classify_l_arm)
  have h: "classify_l w = None \<and> classify_ms w = None" if "w AND 0xFFFFDFFE = 0x10000000"
    using h_row [OF that] by (simp add: classify_l_def classify_ms_def)
  show "uncond_classify w = UNCOND_UNIMPLEMENTED \<longleftrightarrow> w AND 0xFFFFDFFE = 0x10000000"
    unfolding uncond_classify_def n
    using h_row [of w] h ms l by (auto split: option.split)
qed

theorem uncond_classify_fields_witness:
  "uncond_classify 0x9234567F = UNCOND_NONE"
  using uncond_classify_fields [of "0x9234567F"] by simp

text \<open>The long-immediate address adds add the 15-bit unsigned field scaled by the access
  size to B14 or B15, and name the destination register and side of the word.\<close>

theorem adda_long_address:
  "let r = adda_long kind w b14 b15; offset = (unat w div 256) mod 32768;
       scale = (if kind = UNCOND_ADDAH then 2 else if kind = UNCOND_ADDAW then 4 else 1)
   in al_result r = (if bit w 7 then b15 else b14) + of_nat (offset * scale) \<and>
      unat (al_dst r) = unat w div 2 ^ 23 mod 32 \<and> al_side r = c_bool (bit w 1)"
proof -
  have b: "w AND 0x80 \<noteq> 0 \<longleftrightarrow> bit w 7"
    using bit_iff_and_push_bit_not_eq_0 [of w 7] by simp
  have u: "unat (take_bit n (shr w k)) = unat w div 2 ^ k mod 2 ^ n" for k n
    by (simp only: unsigned_take_bit_eq unat_drop_bit_eq) (simp only: take_bit_eq_mod drop_bit_eq_div)
  have "of_nat (unat (shr w 8 AND 0x7FFF)) = (of_nat (unat w div 256 mod 32768) :: u32)"
    unfolding and_mask_numerals u by simp
  then have o: "shr w 8 AND 0x7FFF = of_nat (unat w div 256 mod 32768)" by simp
  have d: "unat (shr w 23 AND 31) = unat w div 2 ^ 23 mod 32"
    using u [of 5 23] unfolding and_mask_numerals by simp
  show ?thesis
    unfolding adda_long_def Let_def b o adda_long_result.simps and_1_bit
    using d by (auto simp: push_bit_eq_mult simp del: of_nat_mod of_nat_div)
qed

end
