(* ===== verification/C674x_Control.thy ===== *)
theory C674x_Control
  imports Prelude
begin

text \<open>
  \<^verbatim>\<open>emulator/qemu/cdj_c674x_control.c\<close>: the read view of the control register file and
  which registers MVC can reach. \<open>cpu_control\<close> holds the three fields of the CPU state
  these functions read; register numbers are the five-bit numbers of the decoder.
\<close>

record cpu_control =
  control :: "nat \<Rightarrow> u32"
  control_ready :: "nat \<Rightarrow> u64"
  cycles :: u64

definition timestamp :: "'a cpu_control_scheme \<Rightarrow> u64" where
  "timestamp cpu =
     (let origin = control_ready cpu 16
      in if origin = 0 \<or> cycles cpu \<le> origin then 0 else cycles cpu - origin)"

lemma istp_scan_shrinks: "(pending :: u32) \<noteq> 0 \<Longrightarrow> unat (shr pending 1) < unat pending"
  by (simp only: unat_drop_bit_eq) (simp only: drop_bit_eq_div power_one_right, simp add: unat_gt_0)

text \<open>The loop of the ISTP read, which counts the zero bits below the lowest set bit.\<close>

function istp_scan :: "u32 \<Rightarrow> u32 \<Rightarrow> u32" where
  "istp_scan pending highest =
     (if pending \<noteq> 0 \<and> pending AND 1 = 0 then istp_scan (shr pending 1) (highest + 1) else highest)"
  by auto

termination
  by (relation "measure (\<lambda>(pending, _). unat pending)") (auto simp: istp_scan_shrinks [unfolded One_nat_def])

declare istp_scan.simps [simp del]

definition control_read :: "'a cpu_control_scheme \<Rightarrow> nat \<Rightarrow> u32" where
  "control_read cpu n =
     (if n = 0 then control cpu n AND 0x03FFFFFF
      else if n = 1 then control cpu n AND 0xFFFF03FF
      else if n = 2 then control cpu n AND 0xFFF2
      else if n = 21 then control cpu n AND 0x3F
      else if n = 4 then (control cpu n AND 0xFFF2) OR 1
      else if n = 5 then
        (let pending = control cpu 2 AND control cpu 4 AND 0xFFF2;
             highest = istp_scan pending 0
         in (control cpu n AND 0xFFFFFC00) OR shl highest 5)
      else if n = 6 \<or> n = 7 \<or> n = 13 \<or> n = 14 \<or> n = 22 \<or> n = 23 then control cpu n
      else if n = 24 then control cpu n AND 0x070000FF
      else if n = 11 then control cpu 16
      else if n = 10 then ucast (timestamp cpu)
      else if n = 27 then (control cpu n AND 0xC6DE) OR (shr (control cpu 1) 1 AND 1)
      else if n = 18 \<or> n = 19 \<or> n = 20 then control cpu n AND 0x07FF07FF
      else if n = 26 then (control cpu n AND 0xC6DE) OR (control cpu 1 AND 1)
      else 0)"

definition control_read_supported :: "nat \<Rightarrow> bool" where
  "control_read_supported n \<longleftrightarrow>
     n = 0 \<or> n = 1 \<or> n = 2 \<or> n = 4 \<or> n = 5 \<or> n = 6 \<or> n = 7 \<or> n = 10 \<or> n = 11 \<or>
     n = 13 \<or> n = 14 \<or> n = 22 \<or> n = 23 \<or> n = 24 \<or> n = 26 \<or> n = 27 \<or> (n \<ge> 18 \<and> n \<le> 21)"

definition control_write_supported :: "nat \<Rightarrow> bool" where
  "control_write_supported n \<longleftrightarrow>
     n \<le> 7 \<or> n = 10 \<or> n = 13 \<or> n = 14 \<or> n = 22 \<or> n = 23 \<or> n = 24 \<or> n = 26 \<or> n = 27 \<or>
     (n \<ge> 18 \<and> n \<le> 21)"

section \<open>The interrupt service table pointer\<close>

lemma istp_scan_lowest:
  assumes "bit pending k" "\<And>i. i < k \<Longrightarrow> \<not> bit pending i"
  shows "istp_scan pending h = h + of_nat k"
  using assms
proof (induction k arbitrary: pending h)
  case 0
  then have "pending AND 1 \<noteq> 0" by (simp add: and_one_eq bit_0 odd_iff_mod_2_eq_one)
  then show ?case by (subst istp_scan.simps) simp
next
  case (Suc k)
  have "pending \<noteq> 0" using Suc.prems(1) by auto
  moreover have "pending AND 1 = 0" using Suc.prems(2) [of 0] by (simp add: and_one_eq bit_0 even_iff_mod_2_eq_zero)
  moreover have "istp_scan (shr pending 1) (h + 1) = (h + 1) + of_nat k"
    using Suc.prems by (intro Suc.IH) (simp_all add: bit_drop_bit_eq)
  ultimately show ?case by (subst istp_scan.simps) simp
qed

lemma istp_scan_none: "istp_scan 0 h = h"
  by (subst istp_scan.simps) simp

lemma lowest_bit_ex:
  assumes "(w :: u32) \<noteq> 0"
  obtains k where "bit w k" "\<And>i. i < k \<Longrightarrow> \<not> bit w i" "k < 32"
proof -
  have "\<exists>i. bit w i" using assms by (metis bit_0_eq bit_word_eqI bot_apply bot_bool_def)
  then obtain k where "bit w k" "\<forall>i<k. \<not> bit w i" using exists_least_iff [of "bit w"] by auto
  then show ?thesis using that bit_imp_le_length [of w k] by auto
qed

lemma shl_5_field:
  assumes "k < 32"
  shows "shr ((c AND 0xFFFFFC00) OR shl (of_nat k :: u32) 5) 5 AND 0x1F = of_nat k"
    "((c AND 0xFFFFFC00) OR shl (of_nat k :: u32) 5) AND 0x1F = 0"
    "shr ((c AND 0xFFFFFC00) OR shl (of_nat k :: u32) 5) 10 = shr c 10"
proof -
  have k: "bit (of_nat k :: u32) i \<Longrightarrow> i < 5" for i
  proof -
    assume "bit (of_nat k :: u32) i"
    then have "bit k i" by (simp add: bit_of_nat_iff)
    moreover have "take_bit 5 k = k" using assms by (simp add: take_bit_nat_eq_self)
    ultimately show "i < 5" by (metis bit_take_bit_iff)
  qed
  have m: "(0xFFFFFC00 :: u32) = NOT (mask 10)" by (simp add: mask_eq_exp_minus_1)
  define n where "n = (of_nat k :: u32)"
  have k: "bit n i \<Longrightarrow> i < 5" for i using k by (simp add: n_def)
  show "shr ((c AND 0xFFFFFC00) OR shl (of_nat k :: u32) 5) 5 AND 0x1F = of_nat k"
    unfolding m and_mask_numerals n_def [symmetric]
    by (rule bit_word_eqI) (auto simp: bit_simps dest: k)
  show "((c AND 0xFFFFFC00) OR shl (of_nat k :: u32) 5) AND 0x1F = 0"
    unfolding m and_mask_numerals by (rule bit_word_eqI) (auto simp: bit_simps)
  show "shr ((c AND 0xFFFFFC00) OR shl (of_nat k :: u32) 5) 10 = shr c 10"
    unfolding m n_def [symmetric]
    by (rule bit_word_eqI) (auto simp: bit_simps dest: k bit_imp_le_length)
qed

section \<open>Properties\<close>

text \<open>Reading ISTP gives the service table base of the register with the number of the
  lowest pending and enabled interrupt in bits 9-5, zero when there is none; bits 4-0 read
  as zero. So the field is at most 15 and names a set bit of IFR and IER.\<close>

theorem istp_names_highest_priority:
  assumes "pending = control cpu 2 AND control cpu 4 AND 0xFFF2"
  shows "shr (control_read cpu 5) 10 = shr (control cpu 5) 10 \<and>
    control_read cpu 5 AND 0x1F = 0 \<and>
    (pending = 0 \<and> shr (control_read cpu 5) 5 AND 0x1F = 0 \<or>
     (\<exists>k. k \<in> {1, 4, 5, 6, 7, 8, 9, 10, 11, 12, 13, 14, 15} \<and>
        bit (control cpu 2) k \<and> bit (control cpu 4) k \<and> (\<forall>i<k. \<not> bit pending i) \<and>
        shr (control_read cpu 5) 5 AND 0x1F = of_nat k))"
proof -
  have r: "control_read cpu 5 = (control cpu 5 AND 0xFFFFFC00) OR shl (istp_scan pending 0) 5"
    by (simp add: control_read_def assms Let_def)
  show ?thesis
  proof (cases "pending = 0")
    case True
    then have "control_read cpu 5 = (control cpu 5 AND 0xFFFFFC00) OR shl (of_nat 0) 5"
      by (simp add: r istp_scan_none)
    then show ?thesis using True shl_5_field [of 0 "control cpu 5"] by simp
  next
    case False
    then obtain k where k: "bit pending k" "\<And>i. i < k \<Longrightarrow> \<not> bit pending i" "k < 32"
      using lowest_bit_ex by blast
    have "control_read cpu 5 = (control cpu 5 AND 0xFFFFFC00) OR shl (of_nat k) 5"
      by (simp add: r istp_scan_lowest [OF k(1,2)])
    moreover have "bit (0xFFF2 :: u32) k" "bit (control cpu 2) k" "bit (control cpu 4) k"
      using k(1) by (simp_all add: assms bit_simps)
    moreover have "k \<in> {1, 4, 5, 6, 7, 8, 9, 10, 11, 12, 13, 14, 15}"
    proof -
      have "\<forall>k<32. bit (0xFFF2 :: u32) k \<longrightarrow> k \<in> {1, 4, 5, 6, 7, 8, 9, 10, 11, 12, 13, 14, 15}"
        by (simp add: numeral_eq_Suc All_less_Suc)
      then show ?thesis using k(3) calculation(2) by blast
    qed
    ultimately show ?thesis using k shl_5_field [OF k(3), of "control cpu 5"] by metis
  qed
qed

theorem istp_names_highest_priority_witness:
  "shr (control_read \<lparr>control = (\<lambda>_. 0x50), control_ready = (\<lambda>_. 0), cycles = 0\<rparr> 5) 5 AND 0x1F = 4"
  using istp_names_highest_priority
    [of "0x50" "\<lparr>control = (\<lambda>_. 0x50), control_ready = (\<lambda>_. 0), cycles = 0\<rparr>"]
  by (auto dest: spec [of _ 4])

text \<open>The bits a control register reserves read as zero or as their fixed value, a register
  MVC cannot read reads as zero, and the readable and writable sets differ in ISR/ICR's
  number 3 (write only) and TSCH's number 11 (read only) alone.\<close>

theorem control_read_reserved:
  "control_read cpu 0 AND 0xFC000000 = 0 \<and> control_read cpu 1 AND 0xFC00 = 0 \<and>
   control_read cpu 2 AND 0xFFFF000D = 0 \<and> control_read cpu 4 AND 0xFFFF000D = 1 \<and>
   control_read cpu 21 AND 0xFFFFFFC0 = 0 \<and> control_read cpu 24 AND 0xF8FFFF00 = 0 \<and>
   control_read cpu 18 AND 0xF800F800 = 0 \<and> control_read cpu 26 AND 0xFFFF3920 = 0 \<and>
   control_read cpu 27 AND 0xFFFF3920 = 0 \<and>
   (control_read_supported n \<or> control_read cpu n = 0) \<and>
   (control_write_supported n \<noteq> control_read_supported n \<longleftrightarrow> n = 3 \<or> n = 11)"
proof -
  have bits: "(w AND m) AND z = 0" if "m AND z = 0" for w m z :: u32
    using that by (simp add: and.assoc)
  have ored: "((w AND m) OR v) AND z = v AND z" if "m AND z = 0" for w m v z :: u32
    using that by (simp add: bit.conj_disj_distrib2 and.assoc)
  have one: "(w AND 1) AND z = 0" if "1 AND z = 0" for w z :: u32
    using that by (simp add: and.assoc)
  have "control_read_supported n \<or> control_read cpu n = 0"
    unfolding control_read_supported_def control_read_def by simp
  moreover have "control_write_supported n \<noteq> control_read_supported n \<longleftrightarrow> n = 3 \<or> n = 11"
    unfolding control_read_supported_def control_write_supported_def by presburger
  ultimately show ?thesis
    by (intro conjI) (simp_all add: control_read_def bits ored one)
qed

text \<open>The time stamp counter reads zero until it is started and at its start cycle, and then
  counts cycles exactly: the 64-bit difference, of which TSCL returns the low word.\<close>

theorem timestamp_counts:
  assumes "control_ready cpu 16 = origin"
  shows "(origin = 0 \<or> cycles cpu \<le> origin \<longrightarrow> timestamp cpu = 0) \<and>
    (origin \<noteq> 0 \<and> origin \<le> cycles cpu \<longrightarrow>
       unat (timestamp cpu) = unat (cycles cpu) - unat origin) \<and>
    control_read cpu 10 = of_nat (unat (timestamp cpu))"
proof -
  have "ucast (timestamp cpu) = (of_nat (unat (timestamp cpu)) :: u32)" by simp
  then show ?thesis
    using assms by (auto simp: timestamp_def Let_def control_read_def unat_sub word_le_nat_alt)
qed

theorem timestamp_counts_witness:
  "unat (timestamp \<lparr>control = (\<lambda>_. 0), control_ready = (\<lambda>_. 7), cycles = 100\<rparr>) = 93"
  using timestamp_counts [of "\<lparr>control = (\<lambda>_. 0), control_ready = (\<lambda>_. 7), cycles = 100\<rparr>" 7] by simp

end
