(* ===== verification/C674x_Loop.thy ===== *)
theory C674x_Loop
  imports Prelude
begin

text \<open>
  \<^verbatim>\<open>emulator/qemu/cdj_c674x_loop.c\<close>: the software-pipelined loop buffer (SPLOOP,
  SPLOOPD, SPLOOPW). \<open>tags i j\<close> is tag \<open>j\<close> of the packet loaded at cycle \<open>i\<close>; a C call that
  returns false is \<open>None\<close>, and then the buffer is unchanged. The candidate filter is
  the parameter \<open>allow\<close>, everywhere true for the null callback; a packet handed to
  \<open>loop_load\<close> is a list, whose length is the C argument \<open>count\<close>. The process-wide
  timing mode is the argument \<open>functional\<close>.
\<close>

section \<open>State and loading\<close>

record loop_buf =
  lp_tags :: "nat \<Rightarrow> nat \<Rightarrow> u32"
  lp_count :: "nat \<Rightarrow> nat"
  lp_ii :: u32
  lp_length :: u32
  lp_iterations :: u32
  lp_cycle :: u64
  lp_post_cycle :: u64
  lp_end_cycle :: u64
  lp_sealed :: bool
  lp_predicate_loop :: bool
  lp_delayed_count :: bool

definition loop_init :: "u32 \<Rightarrow> u32 \<Rightarrow> loop_buf option" where
  "loop_init ii iterations =
     (if ii = 0 \<or> ii > 16 then None
      else Some \<lparr>lp_tags = (\<lambda>_ _. 0), lp_count = (\<lambda>_. 0), lp_ii = ii, lp_length = 0,
        lp_iterations = iterations, lp_cycle = 0, lp_post_cycle = 0, lp_end_cycle = 0,
        lp_sealed = False, lp_predicate_loop = False, lp_delayed_count = False\<rparr>)"

abbreviation UINT64_MAX :: u64 where "UINT64_MAX \<equiv> 0xFFFFFFFFFFFFFFFF"

text \<open>The block under \<open>if (finish)\<close>: the cycles at which post-loop fetch and draining happen.\<close>

definition loop_seal :: "bool \<Rightarrow> u32 \<Rightarrow> loop_buf \<Rightarrow> loop_buf" where
  "loop_seal functional delay lp =
     (let lp = lp\<lparr>lp_sealed := True\<rparr>
      in if lp_predicate_loop lp then lp\<lparr>lp_post_cycle := UINT64_MAX, lp_end_cycle := UINT64_MAX\<rparr>
         else
           (let loading_end = ucast (((lp_length lp + lp_ii lp - 1) div lp_ii lp) * lp_ii lp);
                post = ucast (lp_iterations lp) * ucast (lp_ii lp) + ucast delay;
                post = (if functional \<and> lp_delayed_count lp then post + 2 else post);
                post = (if post < loading_end then loading_end else post);
                end_cycle = (if lp_iterations lp \<noteq> 0
                  then ucast (lp_iterations lp - 1) * ucast (lp_ii lp) + ucast (lp_length lp)
                  else loading_end);
                post = (if post > end_cycle then end_cycle else post)
            in lp\<lparr>lp_post_cycle := post, lp_end_cycle := end_cycle\<rparr>))"

definition loop_load :: "bool \<Rightarrow> loop_buf \<Rightarrow> u32 list \<Rightarrow> bool \<Rightarrow> u32 \<Rightarrow> loop_buf option" where
  "loop_load functional lp packet finish delay =
     (if lp_ii lp = 0 \<or> lp_sealed lp \<or> lp_cycle lp \<ge> 48 \<or> length packet > 8 \<or>
         ucast (lp_length lp) > lp_cycle lp then None
      else
        (let index = unat (lp_cycle lp);
             lp = lp\<lparr>lp_tags := (lp_tags lp)(index := (\<lambda>j. if j < length packet then packet ! j
                                                         else lp_tags lp index j)),
                     lp_count := (lp_count lp)(index := length packet),
                     lp_length := of_nat (index + 1)\<rparr>
         in Some (if finish then loop_seal functional delay lp else lp)))"

section \<open>Issue\<close>

lemma unat_origin_step:
  assumes "(origin :: u64) < ucast (len :: u32)"
  shows "unat (origin + ucast (ii :: u32)) = unat origin + unat ii"
proof -
  have "unat origin < unat len" using assms by (simp add: word_less_nat_alt)
  then have "unat origin + unat ii < 2 ^ 64"
    using unat_u32_lt [of len] unat_u32_lt [of ii] by simp
  then show ?thesis by (simp add: unat_word_ariths)
qed

text \<open>The origins the issue loops visit: from \<open>origin\<close> upwards by \<open>ii\<close>. The callers have
  returned before the loop when \<open>ii\<close> is zero.\<close>

function loop_origins :: "u32 \<Rightarrow> u32 \<Rightarrow> u64 \<Rightarrow> u64 \<Rightarrow> u64 list" where
  "loop_origins ii len local origin =
     (if ii \<noteq> 0 \<and> origin < ucast len \<and> origin \<le> local
      then origin # loop_origins ii len local (origin + ucast ii) else [])"
  by auto

termination
proof (relation "measure (\<lambda>(ii, len, local, origin). unat len - unat origin)")
  fix ii len :: u32 and local origin :: u64
  assume *: "ii \<noteq> 0 \<and> origin < ucast len \<and> origin \<le> local"
  then have "unat origin < unat len" "0 < unat ii"
    by (simp_all add: word_less_nat_alt unat_gt_0)
  then show "((ii, len, local, origin + ucast ii), ii, len, local, origin)
      \<in> measure (\<lambda>(ii, len, local, origin). unat len - unat origin)"
    using * unat_origin_step [of origin len ii] by simp
qed simp

declare loop_origins.simps [simp del]

text \<open>The inner loop over one packet: \<open>None\<close> is the return on a ninth instruction.\<close>

fun collect_tags :: "(u32 \<Rightarrow> bool) \<Rightarrow> u32 list \<Rightarrow> u32 list \<Rightarrow> u32 list option" where
  "collect_tags allow [] result = Some result"
| "collect_tags allow (tag # tags) result =
     (if \<not> allow tag then collect_tags allow tags result
      else if length result = 8 then None
      else collect_tags allow tags (result @ [tag]))"

definition packet_tags :: "loop_buf \<Rightarrow> u64 \<Rightarrow> u32 list" where
  "packet_tags lp origin = map (lp_tags lp (unat origin)) [0..<lp_count lp (unat origin)]"

fun collect_origins ::
  "loop_buf \<Rightarrow> (u32 \<Rightarrow> bool) \<Rightarrow> u64 \<Rightarrow> u64 option \<Rightarrow> u64 list \<Rightarrow> u32 list \<Rightarrow> u32 list option" where
  "collect_origins lp allow local limit [] result = Some result"
| "collect_origins lp allow local limit (origin # origins) result =
     (if (case limit of None \<Rightarrow> False
            | Some iterations \<Rightarrow> (local - origin) div ucast (lp_ii lp) \<ge> iterations)
      then collect_origins lp allow local limit origins result
      else case collect_tags allow (packet_tags lp origin) result of
          None \<Rightarrow> None
        | Some result \<Rightarrow> collect_origins lp allow local limit origins result)"

record issue_result =
  is_tags :: "u32 list"
  is_post_fetch :: bool
  is_drained :: bool

definition loop_issue_filtered ::
  "loop_buf \<Rightarrow> (u32 \<Rightarrow> bool) \<Rightarrow> (issue_result \<times> loop_buf) option" where
  "loop_issue_filtered lp allow =
     (if lp_ii lp = 0 \<or> (\<not> lp_sealed lp \<and> lp_cycle lp \<ge> 48) then None
      else
        (let finite = (\<not> lp_predicate_loop lp \<or> (lp_sealed lp \<and> lp_end_cycle lp \<noteq> UINT64_MAX));
             limit = (if finite then Some (ucast (lp_iterations lp)) else None);
             origins = loop_origins (lp_ii lp) (lp_length lp) (lp_cycle lp)
                         (lp_cycle lp mod ucast (lp_ii lp))
         in case collect_origins lp allow (lp_cycle lp) limit origins [] of
              None \<Rightarrow> None
            | Some result \<Rightarrow>
                Some (\<lparr>is_tags = result,
                       is_post_fetch = (lp_sealed lp \<and> lp_cycle lp \<ge> lp_post_cycle lp),
                       is_drained = (lp_sealed lp \<and> lp_cycle lp \<ge> lp_end_cycle lp)\<rparr>,
                      lp\<lparr>lp_cycle := lp_cycle lp + 1\<rparr>)))"

definition loop_issue :: "loop_buf \<Rightarrow> (issue_result \<times> loop_buf) option" where
  "loop_issue lp = loop_issue_filtered lp (\<lambda>_. True)"

text \<open>One pass of the invocation loop of \<open>cdj_c674x_loop_issue_reload\<close>.\<close>

definition reload_pass ::
  "loop_buf \<Rightarrow> (u32 \<Rightarrow> bool) \<Rightarrow> u64 \<Rightarrow> u64 \<Rightarrow> u64 \<Rightarrow> u32 list \<Rightarrow> u32 list option" where
  "reload_pass lp allow start end_cycle iterations result =
     (if end_cycle = 0 \<or> lp_cycle lp < start \<or> lp_cycle lp \<ge> end_cycle then Some result
      else
        (let local = lp_cycle lp - start
         in collect_origins lp allow local (Some iterations)
              (loop_origins (lp_ii lp) (lp_length lp) local (local mod ucast (lp_ii lp))) result))"

definition loop_issue_reload ::
  "loop_buf \<Rightarrow> u64 \<Rightarrow> u64 \<Rightarrow> u64 \<Rightarrow> u64 \<Rightarrow> (u32 \<Rightarrow> bool) \<Rightarrow> (issue_result \<times> loop_buf) option" where
  "loop_issue_reload lp current_start old_start old_end post_end allow =
     (if \<not> lp_sealed lp \<or> lp_ii lp = 0 \<or> lp_length lp = 0 \<or> current_start > lp_cycle lp \<or>
         (old_end \<noteq> 0 \<and> (old_end < old_start \<or> old_end - old_start < ucast (lp_length lp))) then None
      else
        (let old_iterations = (old_end - old_start - ucast (lp_length lp)) div ucast (lp_ii lp) + 1
         in case reload_pass lp allow old_start old_end old_iterations [] of
              None \<Rightarrow> None
            | Some result \<Rightarrow>
          (case reload_pass lp allow current_start (lp_end_cycle lp) (ucast (lp_iterations lp)) result of
              None \<Rightarrow> None
            | Some result \<Rightarrow>
                Some (\<lparr>is_tags = result,
                       is_post_fetch = (lp_cycle lp \<ge> lp_post_cycle lp \<and> lp_cycle lp < post_end),
                       is_drained = (lp_end_cycle lp \<noteq> 0 \<and> lp_cycle lp \<ge> lp_end_cycle lp - 1 \<and>
                                     (old_end = 0 \<or> lp_cycle lp \<ge> old_end - 1))\<rparr>,
                      lp\<lparr>lp_cycle := lp_cycle lp + 1\<rparr>))))"

definition loop_interrupt_drain :: "loop_buf \<Rightarrow> loop_buf option" where
  "loop_interrupt_drain lp =
     (if \<not> lp_sealed lp \<or> lp_ii lp = 0 \<or> lp_cycle lp mod ucast (lp_ii lp) \<noteq> 0 \<or> lp_cycle lp = 0 then None
      else
        (let launched = lp_cycle lp div ucast (lp_ii lp);
             end_cycle = (launched - 1) * ucast (lp_ii lp) + ucast (lp_length lp)
         in if launched > 0xFFFFFFFF then None
            else if end_cycle < lp_cycle lp then None
            else Some (lp\<lparr>lp_iterations := ucast launched, lp_post_cycle := end_cycle,
                          lp_end_cycle := end_cycle\<rparr>)))"

section \<open>What the issue loops visit\<close>

text \<open>The origins are the loaded cycles congruent to the current one, in order.\<close>

lemma loop_origins_set:
  assumes "ii \<noteq> 0" "unat origin mod unat ii = unat local mod unat ii"
  shows "set (map unat (loop_origins ii len local origin)) =
    {x. unat origin \<le> x \<and> x < unat len \<and> x \<le> unat local \<and> x mod unat ii = unat local mod unat ii}"
  using assms
proof (induction ii len local origin rule: loop_origins.induct)
  case (1 ii len local origin)
  show ?case
  proof (cases "origin < ucast len \<and> origin \<le> local")
    case True
    then have s: "unat (origin + ucast ii) = unat origin + unat ii"
      by (intro unat_origin_step) auto
    have p: "0 < unat ii" using "1.prems" by (simp add: unat_gt_0)
    have IH: "set (map unat (loop_origins ii len local (origin + ucast ii))) =
        {x. unat origin + unat ii \<le> x \<and> x < unat len \<and> x \<le> unat local \<and> x mod unat ii = unat local mod unat ii}"
      using "1.IH" True "1.prems" by (simp add: s)
    have "x = unat origin \<or> unat origin + unat ii \<le> x" if "unat origin \<le> x" "x mod unat ii = unat local mod unat ii" for x
    proof -
      have "unat ii dvd x - unat origin" using that "1.prems"(2) by (metis mod_eq_dvd_iff_nat)
      then show ?thesis using that(1) p by (auto dest: dvd_imp_le)
    qed
    then show ?thesis using True "1.prems" IH
      by (subst loop_origins.simps) (auto simp: word_less_nat_alt word_le_nat_alt)
  next
    case False
    then show ?thesis by (subst loop_origins.simps) (auto simp: word_less_nat_alt word_le_nat_alt not_less)
  qed
qed

lemma loop_origins_sorted:
  "sorted_wrt (<) (map unat (loop_origins ii len local origin)) \<and>
   (\<forall>x\<in>set (loop_origins ii len local origin). unat origin \<le> unat x)"
proof (induction ii len local origin rule: loop_origins.induct)
  case (1 ii len local origin)
  show ?case
  proof (cases "ii \<noteq> 0 \<and> origin < ucast len \<and> origin \<le> local")
    case True
    then have s: "unat (origin + ucast ii) = unat origin + unat ii" "0 < unat ii"
      by (auto intro: unat_origin_step simp: unat_gt_0)
    show ?thesis using "1.IH" True s
      by (subst (1 2) loop_origins.simps) fastforce
  next
    case False
    then have "loop_origins ii len local origin = []" by (subst loop_origins.simps) auto
    then show ?thesis by simp
  qed
qed

lemma loop_origins_eq:
  assumes "ii \<noteq> 0"
  shows "map unat (loop_origins ii len local (local mod ucast ii)) =
    filter (\<lambda>x. x \<le> unat local \<and> x mod unat ii = unat local mod unat ii) [0..<unat len]"
proof -
  have m: "unat (local mod ucast ii) = unat local mod unat ii" by (simp add: unat_mod_distrib)
  have "x mod unat ii = unat local mod unat ii \<Longrightarrow> unat local mod unat ii \<le> x" for x
    by (metis mod_less_eq_dividend)
  then have "set (map unat (loop_origins ii len local (local mod ucast ii))) =
     set (filter (\<lambda>x. x \<le> unat local \<and> x mod unat ii = unat local mod unat ii) [0..<unat len])"
    using assms by (subst loop_origins_set) (auto simp: m)
  then show ?thesis
    using loop_origins_sorted [of ii len local "local mod ucast ii"]
    by (intro sorted_distinct_set_unique) (auto simp: strict_sorted_iff sorted_wrt_filter distinct_filter)
qed

section \<open>Collecting\<close>

lemma collect_tags_eq:
  "length result \<le> 8 \<Longrightarrow> collect_tags allow tags result =
     (if length result + length (filter allow tags) \<le> 8 then Some (result @ filter allow tags) else None)"
  by (induction allow tags result rule: collect_tags.induct) auto

definition in_limit :: "u32 \<Rightarrow> u64 \<Rightarrow> u64 option \<Rightarrow> u64 \<Rightarrow> bool" where
  "in_limit ii local limit origin =
     (case limit of None \<Rightarrow> True | Some iterations \<Rightarrow> (local - origin) div ucast ii < iterations)"

lemma collect_origins_eq:
  "length result \<le> 8 \<Longrightarrow> collect_origins lp allow local limit origins result =
     (let all = filter allow (concat (map (packet_tags lp)
                  (filter (in_limit (lp_ii lp) local limit) origins)))
      in if length result + length all \<le> 8 then Some (result @ all) else None)"
proof (induction lp allow local limit origins result rule: collect_origins.induct)
  case (2 lp allow local limit origin origins result)
  show ?case
  proof (cases "in_limit (lp_ii lp) local limit origin")
    case True
    then have f: "\<not> (case limit of None \<Rightarrow> False | Some iterations \<Rightarrow> (local - origin) div ucast (lp_ii lp) \<ge> iterations)"
      by (auto simp: in_limit_def not_le split: option.splits)
    show ?thesis
      using "2.IH"(2) [OF f] "2.prems" True f
      by (auto simp: collect_tags_eq Let_def)
  next
    case False
    then have f: "case limit of None \<Rightarrow> False | Some iterations \<Rightarrow> (local - origin) div ucast (lp_ii lp) \<ge> iterations"
      by (auto simp: in_limit_def not_less split: option.splits)
    show ?thesis using "2.IH"(1) [OF f] "2.prems" False f by simp
  qed
qed simp

section \<open>The schedule\<close>

text \<open>A packet loaded at cycle \<open>i\<close> is due at cycle \<open>c\<close> for iteration \<open>k\<close> when \<open>c = i + k * ii\<close>; a finite
  loop has \<open>limit = Some n\<close> iterations.\<close>

definition due :: "nat \<Rightarrow> nat option \<Rightarrow> nat \<Rightarrow> nat \<Rightarrow> bool" where
  "due ii limit c i \<longleftrightarrow> i \<le> c \<and> ii dvd (c - i) \<and>
     (case limit of None \<Rightarrow> True | Some n \<Rightarrow> (c - i) div ii < n)"

lemma due_iff:
  assumes "0 < ii"
  shows "due ii limit c i \<longleftrightarrow>
    (\<exists>k. c = i + k * ii \<and> (case limit of None \<Rightarrow> True | Some n \<Rightarrow> k < n))"
  using assms by (auto simp: due_def dvd_def mult.commute le_iff_add split: option.splits)

definition schedule :: "loop_buf \<Rightarrow> nat option \<Rightarrow> nat \<Rightarrow> u32 list" where
  "schedule lp limit c =
     concat (map (\<lambda>i. map (lp_tags lp i) [0..<lp_count lp i])
       (filter (due (unat (lp_ii lp)) limit c) [0..<unat (lp_length lp)]))"

lemma scheduled_origins:
  assumes "lp_ii lp \<noteq> 0"
  shows "concat (map (packet_tags lp) (filter (in_limit (lp_ii lp) local limit)
      (loop_origins (lp_ii lp) (lp_length lp) local (local mod ucast (lp_ii lp))))) =
    schedule lp (map_option unat limit) (unat local)"
proof -
  let ?ii = "unat (lp_ii lp)" and ?os = "loop_origins (lp_ii lp) (lp_length lp) local (local mod ucast (lp_ii lp))"
  have o: "map unat ?os = filter (\<lambda>x. x \<le> unat local \<and> x mod ?ii = unat local mod ?ii) [0..<unat (lp_length lp)]"
    by (rule loop_origins_eq [OF assms])
  have le: "x \<in> set ?os \<Longrightarrow> unat x \<le> unat local" for x
    using o by (metis (mono_tags, lifting) image_eqI list.set_map mem_Collect_eq set_filter)
  define test where "test i \<longleftrightarrow> (case limit of None \<Rightarrow> True | Some n \<Rightarrow> (unat local - i) div ?ii < unat n)" for i
  have t: "in_limit (lp_ii lp) local limit x = test (unat x)" if "x \<in> set ?os" for x
    using le [OF that]
    by (auto simp: in_limit_def test_def word_less_nat_alt unat_div_distrib unat_sub word_le_nat_alt split: option.splits)
  have *: "map (packet_tags lp) (filter (in_limit (lp_ii lp) local limit) ?os) =
      map (\<lambda>i. map (lp_tags lp i) [0..<lp_count lp i]) (map unat (filter (test \<circ> unat) ?os))"
    using t by (simp add: packet_tags_def cong: filter_cong)
  have m: "x mod ?ii = unat local mod ?ii \<longleftrightarrow> ?ii dvd unat local - x" if "x \<le> unat local" for x
    using mod_eq_dvd_iff_nat [OF that, of ?ii] by auto
  have **: "filter test (map unat ?os) = filter (due ?ii (map_option unat limit) (unat local)) [0..<unat (lp_length lp)]"
    unfolding o filter_filter
    by (intro filter_cong refl)
       (auto simp: due_def test_def m split: option.splits)
  show ?thesis unfolding schedule_def ** [symmetric] * by (simp only: filter_map map_map)
qed

lemma collect_schedule:
  assumes "lp_ii lp \<noteq> 0" "length result \<le> 8"
  shows "collect_origins lp allow local limit
      (loop_origins (lp_ii lp) (lp_length lp) local (local mod ucast (lp_ii lp))) result =
    (let all = filter allow (schedule lp (map_option unat limit) (unat local))
     in if length result + length all \<le> 8 then Some (result @ all) else None)"
  unfolding collect_origins_eq [OF assms(2)] scheduled_origins [OF assms(1)] by (rule refl)

text \<open>The iterations an issue may start: all launched ones of a counted loop, no limit for a loop
  still waiting for its predicate.\<close>

definition loop_limit :: "loop_buf \<Rightarrow> nat option" where
  "loop_limit lp =
     (if \<not> lp_predicate_loop lp \<or> (lp_sealed lp \<and> lp_end_cycle lp \<noteq> UINT64_MAX)
      then Some (unat (lp_iterations lp)) else None)"

lemma loop_issue_eq:
  assumes "lp_ii lp \<noteq> 0" "lp_sealed lp \<or> lp_cycle lp < 48"
  shows "loop_issue_filtered lp allow =
    (let all = filter allow (schedule lp (loop_limit lp) (unat (lp_cycle lp)))
     in if length all \<le> 8 then
          Some (\<lparr>is_tags = all, is_post_fetch = (lp_sealed lp \<and> lp_cycle lp \<ge> lp_post_cycle lp),
                 is_drained = (lp_sealed lp \<and> lp_cycle lp \<ge> lp_end_cycle lp)\<rparr>,
                lp\<lparr>lp_cycle := lp_cycle lp + 1\<rparr>)
        else None)"
  using assms unfolding loop_issue_filtered_def loop_limit_def
  by (auto simp: Let_def collect_schedule not_le)

section \<open>Sealing and draining\<close>

lemma unat_product_sum:
  assumes "unat ii \<le> 16"
  shows "unat (ucast (n :: u32) * ucast (ii :: u32) + ucast (d :: u32) :: u64) = unat n * unat ii + unat d"
proof -
  have b: "unat n * unat ii \<le> 4294967295 * 16"
    using assms unat_u32_lt [of n] by (intro mult_le_mono) simp_all
  have "unat (ucast n * ucast ii :: u64) = unat n * unat ii"
    using b by (subst unat_mult_lem [THEN iffD1]) simp_all
  then show ?thesis
    using b unat_u32_lt [of d] by (subst unat_add_lem [THEN iffD1]) simp_all
qed

lemma unat_pred: "(n :: u32) \<noteq> 0 \<Longrightarrow> unat (n - 1) = unat n - 1"
  by (rule unat_minus_one)

lemma capped_le: "(if p > e then e else p) \<le> (e :: u64)"
  by (simp add: not_less)

text \<open>The end cycle of a counted loop, and the order of the two cycles.\<close>

lemma loop_seal_cycles:
  fixes functional :: bool and delay :: u32
  assumes "unat (lp_ii lp) \<le> 16" "\<not> lp_predicate_loop lp"
  defines "sealed \<equiv> loop_seal functional delay lp"
  shows "lp_iterations lp \<noteq> 0 \<Longrightarrow> unat (lp_end_cycle sealed) =
      (unat (lp_iterations lp) - 1) * unat (lp_ii lp) + unat (lp_length lp)"
    and "lp_post_cycle sealed \<le> lp_end_cycle sealed"
proof -
  show "lp_post_cycle sealed \<le> lp_end_cycle sealed"
  proof -
    have p: "\<not> lp_predicate_loop (lp\<lparr>lp_sealed := True\<rparr>)" using assms(2) by simp
    have f: "lp_post_cycle (x\<lparr>lp_post_cycle := a, lp_end_cycle := b\<rparr>) = a"
      "lp_end_cycle (x\<lparr>lp_post_cycle := a, lp_end_cycle := b\<rparr>) = b" for x a b by simp_all
    show ?thesis unfolding sealed_def loop_seal_def Let_def if_not_P [OF p] f by (rule capped_le)
  qed
  assume n: "lp_iterations lp \<noteq> 0"
  have "lp_end_cycle sealed =
      ucast (lp_iterations lp - 1) * ucast (lp_ii lp) + ucast (lp_length lp)"
    using assms(2) n unfolding sealed_def loop_seal_def Let_def by simp
  then show "unat (lp_end_cycle sealed) =
      (unat (lp_iterations lp) - 1) * unat (lp_ii lp) + unat (lp_length lp)"
    by (simp only: unat_product_sum [OF assms(1)] unat_pred [OF n])
qed

lemma loop_seal_frame [simp]:
  "lp_tags (loop_seal f d lp) = lp_tags lp" "lp_count (loop_seal f d lp) = lp_count lp"
  "lp_ii (loop_seal f d lp) = lp_ii lp" "lp_length (loop_seal f d lp) = lp_length lp"
  "lp_iterations (loop_seal f d lp) = lp_iterations lp" "lp_cycle (loop_seal f d lp) = lp_cycle lp"
  "lp_sealed (loop_seal f d lp)" "lp_predicate_loop (loop_seal f d lp) = lp_predicate_loop lp"
  by (simp_all add: loop_seal_def Let_def)

lemma nothing_due_after_end:
  assumes "0 < ii" "0 < n" "i < len" "(n - 1) * ii + len \<le> c"
  shows "\<not> due ii (Some n) c i"
proof
  assume "due ii (Some n) c i"
  then obtain k where k: "c = i + k * ii" "k < n" using due_iff [OF assms(1)] by auto
  have "k * ii \<le> (n - 1) * ii" using k(2) by (intro mult_le_mono1) simp
  then show False using k(1) assms(3,4) by linarith
qed

lemma schedule_after_end:
  assumes "lp_ii lp \<noteq> 0" "n = 0 \<or> (n - 1) * unat (lp_ii lp) + unat (lp_length lp) \<le> c"
  shows "schedule lp (Some n) c = []"
proof -
  have "\<not> due (unat (lp_ii lp)) (Some n) c i" if "i < unat (lp_length lp)" for i
  proof (cases "n = 0")
    case False
    then show ?thesis using assms that by (intro nothing_due_after_end) (auto simp: unat_gt_0)
  qed (simp add: due_def)
  then have "filter (due (unat (lp_ii lp)) (Some n) c) [0..<unat (lp_length lp)] = []"
    by (auto simp: filter_empty_conv)
  then show ?thesis by (simp add: schedule_def)
qed

section \<open>Reachable buffers\<close>

text \<open>The buffers the CPU can reach: initialised, with the two mode flags it sets before loading,
  then loaded, issued and drained in any order.\<close>

inductive loop_reach :: "loop_buf \<Rightarrow> bool" where
  init: "loop_init ii n = Some lp \<Longrightarrow>
    loop_reach (lp\<lparr>lp_predicate_loop := predicate, lp_delayed_count := delayed\<rparr>)"
| load: "loop_reach lp \<Longrightarrow> loop_load functional lp packet finish delay = Some lp' \<Longrightarrow> loop_reach lp'"
| issue: "loop_reach lp \<Longrightarrow> loop_issue_filtered lp allow = Some (r, lp') \<Longrightarrow> loop_reach lp'"
| reload: "loop_reach lp \<Longrightarrow>
    loop_issue_reload lp cs os oe pe allow = Some (r, lp') \<Longrightarrow> loop_reach lp'"
| drain: "loop_reach lp \<Longrightarrow> loop_interrupt_drain lp = Some lp' \<Longrightarrow> loop_reach lp'"

definition loop_wf :: "loop_buf \<Rightarrow> bool" where
  "loop_wf lp \<longleftrightarrow> lp_ii lp \<noteq> 0 \<and> unat (lp_ii lp) \<le> 16 \<and> unat (lp_length lp) \<le> 48 \<and>
     (\<forall>i. lp_count lp i \<le> 8) \<and>
     (lp_sealed lp \<longrightarrow> lp_length lp \<noteq> 0 \<and> lp_post_cycle lp \<le> lp_end_cycle lp \<and>
        (lp_end_cycle lp \<noteq> UINT64_MAX \<and> lp_iterations lp \<noteq> 0 \<longrightarrow>
           unat (lp_end_cycle lp) = (unat (lp_iterations lp) - 1) * unat (lp_ii lp) + unat (lp_length lp)))"

lemma loop_wf_cycle [simp]: "loop_wf (lp\<lparr>lp_cycle := c\<rparr>) = loop_wf lp"
  by (simp add: loop_wf_def)

lemma issue_cycle: "loop_issue_filtered lp allow = Some (r, lp') \<Longrightarrow> lp' = lp\<lparr>lp_cycle := lp_cycle lp + 1\<rparr>"
  by (auto simp: loop_issue_filtered_def Let_def split: if_splits option.splits)

lemma reload_cycle:
  "loop_issue_reload lp cs os oe pe allow = Some (r, lp') \<Longrightarrow> lp' = lp\<lparr>lp_cycle := lp_cycle lp + 1\<rparr>"
  by (auto simp: loop_issue_reload_def Let_def split: if_splits option.splits)

lemma loop_wf_init: "loop_init ii n = Some lp \<Longrightarrow>
    loop_wf (lp\<lparr>lp_predicate_loop := predicate, lp_delayed_count := delayed\<rparr>)"
  by (auto simp: loop_init_def loop_wf_def word_less_nat_alt split: if_splits)

lemma loop_wf_seal:
  assumes "loop_wf lp" "\<not> lp_sealed lp" "lp_length lp \<noteq> 0"
  shows "loop_wf (loop_seal functional delay lp)"
proof (cases "lp_predicate_loop lp")
  case True
  then have "lp_end_cycle (loop_seal functional delay lp) = UINT64_MAX"
    by (simp add: loop_seal_def Let_def)
  then show ?thesis using assms True by (auto simp: loop_wf_def loop_seal_def Let_def)
next
  case False
  then show ?thesis
    using assms loop_seal_cycles [of lp functional delay] by (auto simp: loop_wf_def)
qed

lemma loop_wf_load:
  assumes "loop_wf lp" "loop_load functional lp packet finish delay = Some lp'"
  shows "loop_wf lp'"
proof -
  define lq where "lq = lp\<lparr>lp_tags := (lp_tags lp)(unat (lp_cycle lp) := (\<lambda>j. if j < length packet then packet ! j
                                                         else lp_tags lp (unat (lp_cycle lp)) j)),
                     lp_count := (lp_count lp)(unat (lp_cycle lp) := length packet),
                     lp_length := of_nat (unat (lp_cycle lp) + 1)\<rparr>"
  have g: "\<not> lp_sealed lp" "lp_cycle lp < 48" "length packet \<le> 8"
    and lp': "lp' = (if finish then loop_seal functional delay lq else lq)"
    using assms(2) by (auto simp: loop_load_def Let_def lq_def not_le split: if_splits)
  have c: "unat (lp_cycle lp) < 48" using g(2) by (simp add: word_less_nat_alt)
  then have n: "unat (of_nat (unat (lp_cycle lp) + 1) :: u32) = unat (lp_cycle lp) + 1"
    by (subst unat_of_nat) (simp add: take_bit_nat_eq_self)
  have l: "unat (lp_length lq) = unat (lp_cycle lp) + 1" unfolding lq_def using n by simp
  then have "lp_length lq \<noteq> 0" by auto
  moreover have "loop_wf lq" using assms(1) g c l by (auto simp: loop_wf_def lq_def)
  moreover have "\<not> lp_sealed lq" using g by (simp add: lq_def)
  ultimately show ?thesis unfolding lp' by (simp add: loop_wf_seal)
qed

lemma loop_drain_cases:
  assumes "loop_interrupt_drain lp = Some lp'"
  obtains launched e where "lp_sealed lp" "lp_ii lp \<noteq> 0" "lp_cycle lp \<noteq> 0" "launched \<noteq> 0"
    "unat (lp_cycle lp) = unat launched * unat (lp_ii lp)"
    "lp' = lp\<lparr>lp_iterations := launched, lp_post_cycle := e, lp_end_cycle := e\<rparr>"
    "e = ucast (launched - 1) * ucast (lp_ii lp) + ucast (lp_length lp)" "lp_cycle lp \<le> e"
proof -
  define q where "q = lp_cycle lp div ucast (lp_ii lp)"
  define n where "n = (ucast q :: u32)"
  let ?e = "(q - 1) * ucast (lp_ii lp) + ucast (lp_length lp)"
  have g: "lp_sealed lp" "lp_ii lp \<noteq> 0" "lp_cycle lp \<noteq> 0" "lp_cycle lp mod ucast (lp_ii lp) = 0"
    "q \<le> 0xFFFFFFFF" "lp_cycle lp \<le> ?e"
    and lp': "lp' = lp\<lparr>lp_iterations := n, lp_post_cycle := ?e, lp_end_cycle := ?e\<rparr>"
    using assms by (auto simp: loop_interrupt_drain_def Let_def q_def n_def not_le split: if_splits)
  have "unat q \<le> 4294967295" using g(5) by (simp add: word_le_nat_alt)
  then have qn: "unat n = unat q" unfolding n_def
    by (simp add: unsigned_ucast_eq take_bit_nat_eq_self)
  have qe: "q = ucast n" by (rule unsigned_word_eqI [where 'a = nat]) (simp add: qn)
  have c: "unat (lp_cycle lp) = unat q * unat (lp_ii lp)"
  proof -
    have "unat (lp_cycle lp) mod unat (lp_ii lp) = 0"
      using arg_cong [OF g(4), of unat] by (simp add: unat_mod_distrib)
    then show ?thesis by (simp add: q_def unat_div_distrib mult.commute mult_div_mod_eq [symmetric] dvd_eq_mod_eq_0)
  qed
  have n0: "n \<noteq> 0"
  proof
    assume "n = 0"
    then have "unat (lp_cycle lp) = 0" using c qn by simp
    then show False using g(3) by (simp add: unat_eq_zero)
  qed
  have "unat (ucast n - 1 :: u64) = unat n - 1" using n0 by (subst unat_minus_one) (auto simp: unat_eq_zero dest: arg_cong [of _ _ unat])
  moreover have "unat (ucast (n - 1) :: u64) = unat n - 1" by (simp only: unat_widen unat_pred [OF n0])
  ultimately have "q - 1 = ucast (n - 1)" unfolding qe by (metis unsigned_word_eqI)
  then have "?e = ucast (n - 1) * ucast (lp_ii lp) + ucast (lp_length lp)" by simp
  then show thesis
    using that [of n ?e] g(1-3,6) c qn n0 lp' by simp
qed

lemma loop_wf_drain:
  assumes "loop_wf lp" "loop_interrupt_drain lp = Some lp'"
  shows "loop_wf lp'"
  using assms(2)
proof (rule loop_drain_cases)
  fix launched e
  assume *: "lp_sealed lp" "launched \<noteq> 0" "e = ucast (launched - 1) * ucast (lp_ii lp) + ucast (lp_length lp)"
    and lp': "lp' = lp\<lparr>lp_iterations := launched, lp_post_cycle := e, lp_end_cycle := e\<rparr>"
  have ii: "unat (lp_ii lp) \<le> 16" using assms(1) by (simp add: loop_wf_def)
  have "unat e = (unat launched - 1) * unat (lp_ii lp) + unat (lp_length lp)"
    unfolding *(3) by (simp only: unat_product_sum [OF ii] unat_pred [OF *(2)])
  then show ?thesis using assms(1) *(1) unfolding lp' by (simp add: loop_wf_def)
qed

lemma loop_reach_wf: "loop_reach lp \<Longrightarrow> loop_wf lp"
  by (induction rule: loop_reach.induct)
     (auto intro: loop_wf_init loop_wf_load loop_wf_drain dest!: issue_cycle reload_cycle)

section \<open>Properties\<close>

lemma issue_schedule:
  "loop_issue_filtered lp allow =
    (let all = filter allow (schedule lp (loop_limit lp) (unat (lp_cycle lp)))
     in if lp_ii lp = 0 \<or> (\<not> lp_sealed lp \<and> lp_cycle lp \<ge> 48) \<or> length all > 8 then None
        else Some (\<lparr>is_tags = all, is_post_fetch = (lp_sealed lp \<and> lp_cycle lp \<ge> lp_post_cycle lp),
                    is_drained = (lp_sealed lp \<and> lp_cycle lp \<ge> lp_end_cycle lp)\<rparr>,
                   lp\<lparr>lp_cycle := lp_cycle lp + 1\<rparr>))"
proof (cases "lp_ii lp = 0 \<or> (\<not> lp_sealed lp \<and> lp_cycle lp \<ge> 48)")
  case True
  then show ?thesis by (auto simp: loop_issue_filtered_def Let_def)
next
  case False
  then show ?thesis by (subst loop_issue_eq) (auto simp: Let_def not_le)
qed

text \<open>C23: The congruence-stepping issue loop is the schedule: an issue fails only with no buffer, or
  past the 48 loading cycles unsealed, or when more than eight admitted instructions are due;
  otherwise it returns the admitted instructions of every packet due at this cycle, in loading
  order, with the fetch and drain flags of the two boundary cycles, and advances one cycle.\<close>

theorem loop_issue_schedule:
  "loop_issue_filtered lp allow =
    (let all = filter allow (schedule lp (loop_limit lp) (unat (lp_cycle lp)))
     in if lp_ii lp = 0 \<or> (\<not> lp_sealed lp \<and> lp_cycle lp \<ge> 48) \<or> length all > 8 then None
        else Some (\<lparr>is_tags = all, is_post_fetch = (lp_sealed lp \<and> lp_cycle lp \<ge> lp_post_cycle lp),
                    is_drained = (lp_sealed lp \<and> lp_cycle lp \<ge> lp_end_cycle lp)\<rparr>,
                   lp\<lparr>lp_cycle := lp_cycle lp + 1\<rparr>))"
  by (rule issue_schedule)

lemma reload_pass_eq:
  assumes "lp_ii lp \<noteq> 0" "length result \<le> 8"
  shows "reload_pass lp allow start e iterations result =
    (let all = (if e \<noteq> 0 \<and> start \<le> lp_cycle lp \<and> lp_cycle lp < e
                then filter allow (schedule lp (Some (unat iterations)) (unat (lp_cycle lp) - unat start)) else [])
     in if length result + length all \<le> 8 then Some (result @ all) else None)"
  using assms
  by (auto simp: reload_pass_def Let_def collect_schedule unat_sub not_less not_le)

text \<open>C30: An immediate reload issues, from one buffer, what is due of the draining invocation and then
  what is due of the current one: each invocation counts its own cycles from its start, issues
  nothing outside its window, and the old one runs as many iterations as its window holds.
  The cycle fails when the two together exceed eight instructions.\<close>

theorem loop_reload_schedule:
  assumes "loop_issue_reload lp current_start old_start old_end post_end allow = Some (r, lp')"
  shows "is_tags r =
    (if old_end \<noteq> 0 \<and> old_start \<le> lp_cycle lp \<and> lp_cycle lp < old_end
     then filter allow (schedule lp
       (Some (unat ((old_end - old_start - ucast (lp_length lp)) div ucast (lp_ii lp) + 1)))
       (unat (lp_cycle lp) - unat old_start)) else []) @
    (if lp_end_cycle lp \<noteq> 0 \<and> lp_cycle lp < lp_end_cycle lp
     then filter allow (schedule lp (Some (unat (lp_iterations lp)))
       (unat (lp_cycle lp) - unat current_start)) else []) \<and>
    length (is_tags r) \<le> 8 \<and> lp' = lp\<lparr>lp_cycle := lp_cycle lp + 1\<rparr>"
proof -
  have g: "lp_ii lp \<noteq> 0" "current_start \<le> lp_cycle lp"
    using assms by (auto simp: loop_issue_reload_def split: if_splits)
  obtain first second where
      1: "reload_pass lp allow old_start old_end
        ((old_end - old_start - ucast (lp_length lp)) div ucast (lp_ii lp) + 1) [] = Some first"
    and 2: "reload_pass lp allow current_start (lp_end_cycle lp) (ucast (lp_iterations lp)) first = Some second"
    and r: "is_tags r = second"
    using assms by (auto simp: loop_issue_reload_def Let_def split: if_splits option.splits)
  have f: "length first \<le> 8" using 1 g
    by (subst (asm) reload_pass_eq) (auto simp: Let_def split: if_splits)
  have s: "length second \<le> 8" using 2 g f
    by (subst (asm) reload_pass_eq) (auto simp: Let_def split: if_splits)
  show ?thesis
    using 1 2 r s f g reload_cycle [OF assms]
    by (auto simp: reload_pass_eq Let_def split: if_splits)
qed

definition loop_example :: loop_buf where
  "loop_example = \<lparr>lp_tags = (\<lambda>i j. of_nat (10 * i + j)), lp_count = (\<lambda>i. if i < 2 then 1 else 0),
     lp_ii = 1, lp_length = 2, lp_iterations = 3, lp_cycle = 1, lp_post_cycle = 3, lp_end_cycle = 4,
     lp_sealed = True, lp_predicate_loop = False, lp_delayed_count = False\<rparr>"

lemma schedule_example: "schedule loop_example (Some 3) (Suc 0) = [0, 10]"
  by (simp add: schedule_def due_def loop_example_def upt_rec)

lemma loop_example_sel [simp]:
  "lp_ii loop_example = 1" "lp_length loop_example = 2" "lp_iterations loop_example = 3"
  "lp_cycle loop_example = 1" "lp_end_cycle loop_example = 4" "lp_sealed loop_example"
  "lp_post_cycle loop_example = 3"
  by (simp_all add: loop_example_def)

theorem loop_reload_schedule_witness:
  "\<exists>r lp'. loop_issue_reload loop_example 0 0 0 10 (\<lambda>_. True) = Some (r, lp') \<and> is_tags r = [0, 10]"
proof -
  obtain r lp' where *: "loop_issue_reload loop_example 0 0 0 10 (\<lambda>_. True) = Some (r, lp')"
    by (simp add: loop_issue_reload_def reload_pass_eq Let_def schedule_example)
  have "is_tags r = [0, 10]"
    using loop_reload_schedule [OF *] by (simp add: schedule_example)
  with * show ?thesis by blast
qed

section \<open>A whole loop\<close>

text \<open>The run of a loop without masks, as the CPU drives it: each of the first cycles loads one packet, the last one
  with \<open>finish\<close>, and issues; \<open>n\<close> further cycles only issue. The result is what each cycle issued.\<close>

fun loop_issues :: "nat \<Rightarrow> loop_buf \<Rightarrow> u32 list list option" where
  "loop_issues 0 lp = Some []"
| "loop_issues (Suc n) lp =
     (case loop_issue lp of None \<Rightarrow> None
      | Some (r, lp) \<Rightarrow> map_option ((#) (is_tags r)) (loop_issues n lp))"

fun loop_run :: "bool \<Rightarrow> u32 \<Rightarrow> nat \<Rightarrow> u32 list list \<Rightarrow> loop_buf \<Rightarrow> u32 list list option" where
  "loop_run functional delay n [] lp = loop_issues n lp"
| "loop_run functional delay n (packet # packets) lp =
     (case loop_load functional lp packet (packets = []) delay of None \<Rightarrow> None
      | Some lp \<Rightarrow>
          (case loop_issue lp of None \<Rightarrow> None
           | Some (r, lp) \<Rightarrow> map_option ((#) (is_tags r)) (loop_run functional delay n packets lp)))"

text \<open>A counted loop that holds the packets \<open>qs\<close>, at cycle \<open>c\<close>.\<close>

definition buffered :: "u32 list list \<Rightarrow> u32 \<Rightarrow> u32 \<Rightarrow> nat \<Rightarrow> loop_buf \<Rightarrow> bool" where
  "buffered qs ii iterations c lp \<longleftrightarrow>
     lp_ii lp = ii \<and> lp_iterations lp = iterations \<and> \<not> lp_predicate_loop lp \<and> unat (lp_cycle lp) = c \<and>
     unat (lp_length lp) = length qs \<and> length qs \<le> 48 \<and>
     (\<forall>i<length qs. map (lp_tags lp i) [0..<lp_count lp i] = qs ! i)"

definition issued_at :: "u32 list list \<Rightarrow> nat \<Rightarrow> nat \<Rightarrow> nat \<Rightarrow> u32 list" where
  "issued_at ps ii iterations c = concat (map ((!) ps) (filter (due ii (Some iterations) c) [0..<length ps]))"

lemma buffered_load:
  assumes "buffered qs ii N (length qs) lp" "loop_load functional lp p finish delay = Some lp'"
  shows "buffered (qs @ [p]) ii N (length qs) lp'"
proof -
  have c: "lp_cycle lp < 48" and n: "length p \<le> 8" using assms(2) by (auto simp: loop_load_def split: if_splits)
  have q: "length qs < 48" using assms(1) c by (simp add: buffered_def word_less_nat_alt)
  define w where "w = lp\<lparr>lp_tags := (lp_tags lp)(length qs := (\<lambda>j. if j < length p then p ! j else lp_tags lp (length qs) j)),
    lp_count := (lp_count lp)(length qs := length p), lp_length := of_nat (length qs + 1)\<rparr>"
  have l: "lp' = (if finish then loop_seal functional delay w else w)"
    using assms by (auto simp: loop_load_def Let_def w_def buffered_def split: if_splits)
  have "map (\<lambda>j. if j < length p then p ! j else x j) [0..<length p] = p" for x by (rule nth_equalityI) simp_all
  then have "buffered (qs @ [p]) ii N (length qs) w"
    using assms(1) q by (auto simp: buffered_def w_def nth_append less_Suc_eq unat_of_nat simp del: of_nat_Suc of_nat_add)
  then show ?thesis by (simp add: l buffered_def)
qed

lemma buffered_issue:
  assumes "buffered qs ii N c lp" "loop_issue lp = Some (r, lp')" "c + 1 < 2 ^ 64"
  shows "is_tags r = issued_at qs (unat ii) (unat N) c" "buffered qs ii N (c + 1) lp'"
proof -
  have b: "lp_ii lp = ii" "lp_iterations lp = N" "\<not> lp_predicate_loop lp" "unat (lp_cycle lp) = c" "unat (lp_length lp) = length qs"
    "\<forall>i<length qs. map (lp_tags lp i) [0..<lp_count lp i] = qs ! i"
    using assms(1) by (simp_all add: buffered_def)
  have "schedule lp (Some (unat N)) c = issued_at qs (unat ii) (unat N) c"
    unfolding schedule_def issued_at_def b using b(6) by (intro arg_cong [of _ _ concat] map_cong) auto
  then show "is_tags r = issued_at qs (unat ii) (unat N) c"
    using assms(2) b(2-4) unfolding loop_issue_def issue_schedule
    by (auto simp: Let_def loop_limit_def split: if_splits)
  have "unat (lp_cycle lp + 1) = c + 1" using b(4) assms(3) by (simp add: unat_word_ariths)
  moreover have "lp' = lp\<lparr>lp_cycle := lp_cycle lp + 1\<rparr>" using assms(2) unfolding loop_issue_def by (rule issue_cycle)
  ultimately show "buffered qs ii N (c + 1) lp'" using assms(1) by (simp add: buffered_def)
qed

text \<open>Packets not loaded yet are not due.\<close>

lemma issued_at_loaded: "c < length qs \<Longrightarrow> issued_at (qs @ ps) ii N c = issued_at qs ii N c"
proof -
  assume c: "c < length qs"
  have "filter (due ii (Some N) c) [0..<length (qs @ ps)] = filter (due ii (Some N) c) [0..<length qs]"
    using c by (auto simp: upt_add_eq_append [of 0] due_def filter_empty_conv)
  then show ?thesis unfolding issued_at_def
    by (simp only:) (intro arg_cong [of _ _ concat] map_cong, auto simp: nth_append)
qed

lemma upt_first: "[c..<c + Suc n] = c # [c + 1..<c + 1 + n]"
  by (simp add: upt_conv_Cons del: upt_Suc)

lemma loop_issues_schedule:
  "loop_issues n lp = Some rs \<Longrightarrow> buffered qs ii N c lp \<Longrightarrow> c + n < 2 ^ 64 \<Longrightarrow>
    rs = map (issued_at qs (unat ii) (unat N)) [c..<c + n]"
proof (induction n arbitrary: lp rs c)
  case (Suc n)
  obtain r lp' rs' where r: "loop_issue lp = Some (r, lp')" "loop_issues n lp' = Some rs'" "rs = is_tags r # rs'"
    using Suc.prems(1) by (auto split: option.splits)
  have "c + 1 < 2 ^ 64" using Suc.prems(3) by simp
  note i = buffered_issue [OF Suc.prems(2) r(1) this]
  have "rs' = map (issued_at qs (unat ii) (unat N)) [c + 1..<c + 1 + n]" using Suc.IH [OF r(2) i(2)] Suc.prems(3) by simp
  then show ?case unfolding upt_first by (simp add: r(3) i(1))
qed simp

lemma loop_run_schedule:
  "loop_run functional delay n ps lp = Some rs \<Longrightarrow> buffered qs ii N (length qs) lp \<Longrightarrow> length qs + length ps + n < 2 ^ 64 \<Longrightarrow>
    rs = map (issued_at (qs @ ps) (unat ii) (unat N)) [length qs..<length qs + length ps + n]"
proof (induction ps arbitrary: lp rs qs)
  case Nil
  then show ?case using loop_issues_schedule [of n lp rs qs ii N "length qs"] by simp
next
  case (Cons p ps)
  obtain l1 r l2 rs' where l1: "loop_load functional lp p (ps = []) delay = Some l1" and r: "loop_issue l1 = Some (r, l2)"
    and rs: "loop_run functional delay n ps l2 = Some rs'" "rs = is_tags r # rs'"
    using Cons.prems(1) by (auto split: option.splits)
  have "length qs + 1 < 2 ^ 64" using Cons.prems(3) by simp
  note i = buffered_issue [OF buffered_load [OF Cons.prems(2) l1] r this]
  have "rs' = map (issued_at (qs @ p # ps) (unat ii) (unat N)) [length qs + 1..<length qs + 1 + length ps + n]"
    using Cons.IH [OF rs(1), of "qs @ [p]"] i(2) Cons.prems(3) by simp
  moreover have "is_tags r = issued_at (qs @ p # ps) (unat ii) (unat N) (length qs)"
    using i(1) issued_at_loaded [of "length qs" "qs @ [p]" ps] by simp
  moreover have "[length qs..<length qs + length (p # ps) + n] = length qs # [length qs + 1..<length qs + 1 + length ps + n]"
    using upt_first [of "length qs" "length ps + n"] by (simp add: add.assoc del: upt_Suc)
  ultimately show ?case by (simp only: rs(2) list.map)
qed

lemma buffered_init: "loop_init ii N = Some lp \<Longrightarrow> buffered [] ii N 0 lp"
  by (auto simp: loop_init_def buffered_def split: if_splits)

text \<open>Of an instruction that occurs once, a cycle issues one if its packet is due and none otherwise.\<close>

lemma count_issued:
  assumes "i < length ps" "count_list (ps ! i) t = 1" "\<forall>j<length ps. j \<noteq> i \<longrightarrow> t \<notin> set (ps ! j)"
  shows "count_list (issued_at ps ii N c) t = (if due ii (Some N) c i then 1 else 0)"
proof -
  have z: "count_list (ps ! j) t = 0" if "j < length ps" "j \<noteq> i" for j using that assms(3) by simp
  have all: "count_list (concat (map ((!) ps) js)) t = (if i \<in> set js then 1 else 0)" if "distinct js" "set js \<subseteq> {..<length ps}" for js
    using that by (induction js) (use z assms(2) in auto)
  show ?thesis unfolding issued_at_def using assms(1) by (subst all) auto
qed

text \<open>C24: A counted loop executes each of its instructions once per iteration. Whenever the run of a loop
  succeeds, loading its packets in the first cycles and issuing in all of them, the instruction \<open>t\<close> of packet
  \<open>i\<close> is issued exactly at the cycles \<open>i\<close>, \<open>i + ii\<close>, \<open>i + 2 ii\<close>, ..., one for each iteration; once the run reaches
  the last of them it has been issued as often as the loop counts, however long the run goes on.\<close>

theorem loop_executes_each_iteration:
  assumes "loop_init ii iterations = Some lp" "loop_run functional delay n packets lp = Some issued"
    and "length packets + n < 2 ^ 64"
    and "i < length packets" "count_list (packets ! i) t = 1" "\<forall>j<length packets. j \<noteq> i \<longrightarrow> t \<notin> set (packets ! j)"
  shows "length issued = length packets + n \<and>
    (\<forall>c<length issued. count_list (issued ! c) t = (if \<exists>k<unat iterations. c = i + k * unat ii then 1 else 0)) \<and>
    ((unat iterations - 1) * unat ii \<le> n \<longrightarrow> count_list (concat issued) t = unat iterations)"
proof -
  let ?N = "unat iterations" and ?ii = "unat ii"
  have ii: "0 < ?ii" using assms(1) by (auto simp: loop_init_def unat_gt_0 split: if_splits)
  have e: "issued = map (issued_at packets ?ii ?N) [0..<length packets + n]"
    using loop_run_schedule [OF assms(2), of "[]"] buffered_init [OF assms(1)] assms(3) by simp
  have count: "count_list (issued_at packets ?ii ?N c) t = (if \<exists>k<?N. c = i + k * ?ii then 1 else 0)" for c
    unfolding count_issued [OF assms(4-6)] due_iff [OF ii] by auto
  have "count_list (concat issued) t = ?N" if last: "(?N - 1) * ?ii \<le> n"
  proof -
    have "count_list (concat (map f cs)) t = sum_list (map (\<lambda>c. count_list (f c) t) cs)" for f and cs :: "nat list"
      by (induction cs) auto
    then have "count_list (concat issued) t = (\<Sum>c\<leftarrow>[0..<length packets + n]. if \<exists>k<?N. c = i + k * ?ii then 1 else 0)"
      by (simp add: e count)
    also have "\<dots> = card {c \<in> {0..<length packets + n}. \<exists>k<?N. c = i + k * ?ii}"
      by (simp add: interv_sum_list_conv_sum_set_nat sum.If_cases Int_def)
    also have "{c \<in> {0..<length packets + n}. \<exists>k<?N. c = i + k * ?ii} = (\<lambda>k. i + k * ?ii) ` {..<?N}"
    proof -
      have "i + k * ?ii < length packets + n" if "k < ?N" for k
      proof -
        have "k * ?ii \<le> (?N - 1) * ?ii" using that by (intro mult_le_mono1) simp
        then show ?thesis using last assms(4) by linarith
      qed
      then show ?thesis by auto
    qed
    also have "card ((\<lambda>k. i + k * ?ii) ` {..<?N}) = ?N" using ii by (simp add: card_image inj_on_def)
    finally show ?thesis .
  qed
  then show ?thesis using count by (simp add: e)
qed

text \<open>Two packets of one instruction each, three iterations, one cycle apart.\<close>

theorem loop_executes_each_iteration_witness:
  "\<exists>lp issued. loop_init 1 3 = Some lp \<and> loop_run False 0 4 [[5], [7]] lp = Some issued \<and>
     issued ! 3 = [7] \<and> count_list (concat issued) 7 = 3"
proof -
  have r: "loop_run False 0 4 [[5], [7]] (the (loop_init 1 3)) = Some [[5], [5, 7], [5, 7], [7], [], []]"
    by code_simp
  have i: "loop_init 1 3 = Some (the (loop_init 1 3))" by (simp add: loop_init_def)
  have "\<forall>j<length [[5], [7 :: u32]]. j \<noteq> 1 \<longrightarrow> 7 \<notin> set ([[5], [7 :: u32]] ! j)" by (auto simp: less_Suc_eq)
  from loop_executes_each_iteration [OF i r _ _ _ this]
  show ?thesis using i r by (intro exI [of _ "the (loop_init 1 3)"] exI [of _ "[[5], [5, 7], [5, 7], [7], [], []]"]) simp
qed

text \<open>C28: The drain report is sound. In every buffer the operations can reach, a counted or draining
  loop that reports drained issues nothing in that cycle.\<close>

theorem loop_drained_issues_nothing:
  assumes "loop_reach lp" "loop_issue_filtered lp allow = Some (r, lp')"
    and "is_drained r" "lp_end_cycle lp \<noteq> UINT64_MAX"
  shows "is_tags r = []"
proof -
  have wf: "loop_wf lp" by (rule loop_reach_wf [OF assms(1)])
  then have ii: "lp_ii lp \<noteq> 0" by (simp add: loop_wf_def)
  have i: "loop_issue_filtered lp allow = Some (r, lp')" by (rule assms(2))
  have d: "lp_sealed lp" "lp_end_cycle lp \<le> lp_cycle lp"
    and t: "is_tags r = filter allow (schedule lp (loop_limit lp) (unat (lp_cycle lp)))"
    using i assms(3) unfolding issue_schedule by (auto simp: Let_def split: if_splits)
  have l: "loop_limit lp = Some (unat (lp_iterations lp))" using d(1) assms(4) by (simp add: loop_limit_def)
  have "schedule lp (Some (unat (lp_iterations lp))) (unat (lp_cycle lp)) = []"
    using wf ii d assms(4) by (intro schedule_after_end) (auto simp: loop_wf_def word_le_nat_alt unat_eq_zero)
  then show ?thesis unfolding t l by simp
qed

theorem loop_drained_issues_nothing_witness:
  "\<exists>lp r lp'. loop_reach lp \<and> loop_issue lp = Some (r, lp') \<and> is_drained r \<and> is_tags r = []"
proof -
  obtain l0 where 0: "loop_init 1 0 = Some l0" by (simp add: loop_init_def)
  then have l0: "l0\<lparr>lp_predicate_loop := False, lp_delayed_count := False\<rparr> = l0"
    by (auto simp: loop_init_def)
  have r0: "loop_reach l0" using loop_reach.init [OF 0, of False False] l0 by simp
  obtain l1 where 1: "loop_load False l0 [5] True 0 = Some l1"
    using 0 by (auto simp: loop_init_def loop_load_def)
  obtain a l2 where 2: "loop_issue l1 = Some (a, l2)" "lp_sealed l2" "lp_cycle l2 = 1" "lp_end_cycle l2 = 1"
      "lp_ii l2 = 1" "lp_iterations l2 = 0" "\<not> lp_predicate_loop l2"
    using 0 1 by (auto simp: loop_init_def loop_load_def loop_seal_def Let_def loop_issue_def
        issue_schedule schedule_def due_def loop_limit_def)
  have r2: "loop_reach l2"
    using loop_reach.issue [OF loop_reach.load [OF r0 1] 2(1) [unfolded loop_issue_def]] .
  obtain r lp' where 3: "loop_issue l2 = Some (r, lp')" "is_drained r"
    using 2 by (simp add: loop_issue_def issue_schedule Let_def loop_limit_def schedule_after_end)
  have "is_tags r = []"
    using loop_drained_issues_nothing [OF r2 3(1) [unfolded loop_issue_def] 3(2)] 2 by simp
  with r2 3 show ?thesis by blast
qed

text \<open>C29: Interrupt draining keeps what was started and starts nothing: from the interrupt cycle on,
  an instruction is due exactly for the iterations begun before it, post-loop fetch never
  precedes the end, and the end is not in the past.\<close>

theorem loop_interrupt_drain_finishes:
  assumes "loop_interrupt_drain lp = Some lp'" "lp_cycle lp' = c0"
  shows "lp_cycle lp = c0 \<and> lp_post_cycle lp' = lp_end_cycle lp' \<and> c0 \<le> lp_end_cycle lp' \<and>
    (due (unat (lp_ii lp')) (Some (unat (lp_iterations lp'))) c i \<longleftrightarrow>
       (\<exists>k. c = i + k * unat (lp_ii lp) \<and> k * unat (lp_ii lp) < unat c0))"
  using assms(1)
proof (rule loop_drain_cases)
  fix launched e
  assume ii: "lp_ii lp \<noteq> 0"
    and c: "unat (lp_cycle lp) = unat launched * unat (lp_ii lp)" and le: "lp_cycle lp \<le> e"
    and lp': "lp' = lp\<lparr>lp_iterations := launched, lp_post_cycle := e, lp_end_cycle := e\<rparr>"
  have p: "0 < unat (lp_ii lp)" using ii by (simp add: unat_gt_0)
  have "lp_cycle lp = c0" using assms(2) lp' by simp
  then show ?thesis
    using le p c by (auto simp: lp' due_iff)
qed

theorem loop_interrupt_drain_finishes_witness:
  "\<exists>lp'. loop_interrupt_drain loop_example = Some lp' \<and>
     due (unat (lp_ii lp')) (Some (unat (lp_iterations lp'))) 1 1"
proof -
  obtain lp' where *: "loop_interrupt_drain loop_example = Some lp'" "lp_cycle lp' = 1"
    by (simp add: loop_interrupt_drain_def loop_example_def)
  then show ?thesis
    using loop_interrupt_drain_finishes [OF *, of 1 1]
    by (auto simp: loop_example_def intro!: exI [of _ 0])
qed

end
