(* ===== verification/Dsp_Scheduler.thy ===== *)
theory Dsp_Scheduler
  imports Prelude
begin

text \<open>
  \<^verbatim>\<open>emulator/qemu/cdj_dsp_scheduler.c\<close>: the deferred DSP scheduler. A request starts an
  activation of a million steps, which the host runs in slices of 4096; a request
  during an activation arms one more. \<open>None\<close> is a false return, which leaves the
  state unchanged; \<open>sched_begin\<close> returns its quota, 0 for no slice.
\<close>

section \<open>State and operations\<close>

record scheduler =
  sc_activation_id :: u64
  sc_slice_id :: u64
  sc_remaining :: u32
  sc_slice_steps :: u32
  sc_pending :: u8
  sc_rearm :: u8
  sc_mode :: u8
  sc_reserved :: u8

abbreviation MODE_LEGACY :: u8 where "MODE_LEGACY \<equiv> 0"
abbreviation MODE_DEFERRED_V1 :: u8 where "MODE_DEFERRED_V1 \<equiv> 1"
abbreviation ACTIVATION_STEPS :: u32 where "ACTIVATION_STEPS \<equiv> 1000000"
abbreviation SLICE_STEPS :: u32 where "SLICE_STEPS \<equiv> 4096"
abbreviation UINT64_TOP :: u64 where "UINT64_TOP \<equiv> 0xFFFFFFFFFFFFFFFF"

definition scheduler_idle :: "scheduler \<Rightarrow> bool" where
  "scheduler_idle s \<longleftrightarrow> sc_activation_id s = 0 \<and> sc_slice_id s = 0 \<and> sc_remaining s = 0 \<and>
     sc_slice_steps s = 0 \<and> sc_pending s = 0 \<and> sc_rearm s = 0"

definition sched_reset :: scheduler where
  "sched_reset = \<lparr>sc_activation_id = 0, sc_slice_id = 0, sc_remaining = 0, sc_slice_steps = SLICE_STEPS,
     sc_pending = 0, sc_rearm = 0, sc_mode = MODE_DEFERRED_V1, sc_reserved = 0\<rparr>"

definition sched_valid :: "scheduler \<Rightarrow> bool" where
  "sched_valid s =
     (if sc_reserved s \<noteq> 0 \<or> sc_pending s > 1 \<or> sc_rearm s > 1 then False
      else if sc_mode s = MODE_LEGACY then scheduler_idle s
      else if sc_mode s \<noteq> MODE_DEFERRED_V1 \<or> sc_slice_steps s \<noteq> SLICE_STEPS \<or>
              sc_remaining s > ACTIVATION_STEPS \<or> sc_pending s \<noteq> c_bool (sc_remaining s \<noteq> 0) \<or>
              (sc_rearm s \<noteq> 0 \<and> sc_pending s = 0) then False
      else if sc_activation_id s = 0 then
        sc_slice_id s = 0 \<and> sc_remaining s = 0 \<and> sc_pending s = 0 \<and> sc_rearm s = 0
      else if sc_slice_id s = 0 \<and> sc_remaining s \<noteq> ACTIVATION_STEPS then False
      else if sc_remaining s \<noteq> 0 \<and> (ACTIVATION_STEPS - sc_remaining s) mod sc_slice_steps s \<noteq> 0 then False
      else True)"

definition sched_request :: "scheduler \<Rightarrow> scheduler option" where
  "sched_request s =
     (if \<not> sched_valid s \<or> sc_mode s \<noteq> MODE_DEFERRED_V1 then None
      else if sc_pending s \<noteq> 0 then Some (s\<lparr>sc_rearm := 1\<rparr>)
      else if sc_activation_id s = UINT64_TOP then None
      else Some (s\<lparr>sc_activation_id := sc_activation_id s + 1, sc_remaining := ACTIVATION_STEPS, sc_pending := 1\<rparr>))"

definition sched_quota :: "scheduler \<Rightarrow> u32" where
  "sched_quota s = (if sc_remaining s < sc_slice_steps s then sc_remaining s else sc_slice_steps s)"

definition sched_begin :: "scheduler \<Rightarrow> u32 \<times> scheduler" where
  "sched_begin s =
     (if \<not> sched_valid s \<or> sc_mode s \<noteq> MODE_DEFERRED_V1 \<or> sc_pending s = 0 \<or>
         sc_slice_id s = UINT64_TOP then (0, s)
      else (sched_quota s, s\<lparr>sc_slice_id := sc_slice_id s + 1\<rparr>))"

text \<open>The update of the copy \<open>next\<close>; \<open>None\<close> is the return inside it.\<close>

definition sched_next :: "scheduler \<Rightarrow> u32 \<Rightarrow> bool \<Rightarrow> bool \<Rightarrow> scheduler option" where
  "sched_next s executed hint fault =
     (if hint \<or> fault then Some (s\<lparr>sc_remaining := 0, sc_pending := 0, sc_rearm := 0\<rparr>)
      else
        (let nxt = s\<lparr>sc_remaining := sc_remaining s - executed\<rparr>
         in if sc_remaining nxt = 0 then
              (if sc_rearm nxt \<noteq> 0 then
                 (if sc_activation_id nxt = UINT64_TOP then None
                  else Some (nxt\<lparr>sc_activation_id := sc_activation_id nxt + 1,
                                 sc_remaining := ACTIVATION_STEPS, sc_rearm := 0\<rparr>))
               else Some (nxt\<lparr>sc_pending := 0\<rparr>))
            else Some nxt))"

definition sched_end :: "scheduler \<Rightarrow> u32 \<Rightarrow> bool \<Rightarrow> bool \<Rightarrow> scheduler option" where
  "sched_end s executed hint fault =
     (if \<not> sched_valid s \<or> sc_mode s \<noteq> MODE_DEFERRED_V1 \<or> sc_pending s = 0 then None
      else if executed > sched_quota s \<or> (\<not> hint \<and> \<not> fault \<and> executed \<noteq> sched_quota s) then None
      else case sched_next s executed hint fault of None \<Rightarrow> None
        | Some nxt \<Rightarrow> if \<not> sched_valid nxt then None else Some nxt)"

section \<open>Validity\<close>

text \<open>The three shapes of a valid deferred scheduler: never requested, between activations, running.\<close>

definition deferred_wf :: "scheduler \<Rightarrow> bool" where
  "deferred_wf s \<longleftrightarrow> sc_mode s = MODE_DEFERRED_V1 \<and> sc_reserved s = 0 \<and> sc_slice_steps s = SLICE_STEPS \<and>
     (sc_remaining s = 0 \<and> sc_pending s = 0 \<and> sc_rearm s = 0 \<and>
        (sc_activation_id s = 0 \<longleftrightarrow> sc_slice_id s = 0) \<or>
      sc_pending s = 1 \<and> sc_rearm s \<le> 1 \<and> sc_activation_id s \<noteq> 0 \<and>
        (\<exists>k\<le>244. unat (sc_remaining s) + 4096 * k = 1000000 \<and> (sc_slice_id s = 0 \<longrightarrow> k = 0)))"

lemma slice_count:
  fixes r :: u32
  assumes "r \<noteq> 0" "r \<le> 1000000"
  shows "(1000000 - r) mod 4096 = 0 \<longleftrightarrow> (\<exists>k\<le>244. unat r + 4096 * k = 1000000)"
proof -
  have r: "unat r \<le> 1000000" "0 < unat r" using assms by (simp_all add: word_le_nat_alt unat_gt_0)
  have "unat (1000000 - r) = 1000000 - unat r" using assms(2) by (simp add: unat_sub)
  then have "unat ((1000000 - r) mod 4096) = (1000000 - unat r) mod 4096"
    by (simp add: unat_mod_distrib)
  then have "(1000000 - r) mod 4096 = 0 \<longleftrightarrow> (1000000 - unat r) mod 4096 = 0"
    unfolding unat_eq_zero [symmetric] by simp
  also have "\<dots> \<longleftrightarrow> (\<exists>k\<le>244. unat r + 4096 * k = 1000000)"
  proof
    assume "(1000000 - unat r) mod 4096 = 0"
    then obtain k where "1000000 - unat r = 4096 * k" by (auto elim: dvdE)
    then show "\<exists>k\<le>244. unat r + 4096 * k = 1000000" using r by (intro exI [of _ k]) linarith
  next
    assume "\<exists>k\<le>244. unat r + 4096 * k = 1000000"
    then obtain k where "unat r + 4096 * k = 1000000" by blast
    then have "1000000 - unat r = 4096 * k" by linarith
    then show "(1000000 - unat r) mod 4096 = 0" by simp
  qed
  finally show ?thesis .
qed

lemma u8_le_1: "\<not> (p :: u8) > 1 \<longleftrightarrow> p = 0 \<or> p = 1"
proof -
  have "\<not> p > 1 \<longleftrightarrow> unat p = 0 \<or> unat p = unat (1 :: u8)" by (auto simp: word_less_nat_alt)
  then show ?thesis by (simp only: unat_eq_zero word_eq_iff_unsigned [symmetric])
qed

lemma no_whole_slices: "64 * k \<noteq> (15625 :: nat)"
  by presburger

lemma deferred_valid:
  assumes m: "sc_mode s = MODE_DEFERRED_V1"
  shows "sched_valid s \<longleftrightarrow> deferred_wf s"
proof (cases "sc_remaining s = 0")
  case True
  then show ?thesis
    using m unfolding sched_valid_def deferred_wf_def u8_le_1 by (auto simp: no_whole_slices)
next
  case False
  define K where "K \<longleftrightarrow> (\<exists>k\<le>244. unat (sc_remaining s) + 4096 * k = 1000000)"
  define M where "M = (1000000 - sc_remaining s) mod 4096"
  have le: "K \<Longrightarrow> sc_remaining s \<le> 1000000"
    by (auto simp: K_def word_le_nat_alt)
  have u: "unat (1000000 :: u32) = 1000000" by simp
  have full: "sc_remaining s = 1000000 \<longleftrightarrow> unat (sc_remaining s) = 1000000"
    by (metis u unsigned_word_eqI)
  have k: "(\<exists>k\<le>244. unat (sc_remaining s) + 4096 * k = 1000000 \<and> (sc_slice_id s = 0 \<longrightarrow> k = 0)) \<longleftrightarrow>
      K \<and> (sc_slice_id s = 0 \<longrightarrow> sc_remaining s = 1000000)"
    unfolding full K_def by auto
  have p: "sc_rearm s \<le> 1 \<longleftrightarrow> sc_rearm s = 0 \<or> sc_rearm s = 1"
    using u8_le_1 [of "sc_rearm s"] by (simp add: not_less)
  have c: "sc_remaining s \<le> 1000000 \<Longrightarrow> M = 0 \<longleftrightarrow> K"
    unfolding K_def M_def by (rule slice_count [OF False])
  have v: "sched_valid s \<longleftrightarrow> sc_reserved s = 0 \<and> (sc_pending s = 0 \<or> sc_pending s = 1) \<and>
      (sc_rearm s = 0 \<or> sc_rearm s = 1) \<and> sc_slice_steps s = 4096 \<and> sc_remaining s \<le> 1000000 \<and>
      sc_pending s = 1 \<and> sc_activation_id s \<noteq> 0 \<and>
      (sc_slice_id s = 0 \<longrightarrow> sc_remaining s = 1000000) \<and> M = 0"
    unfolding sched_valid_def M_def u8_le_1 [symmetric] using False m by (auto simp: not_less)
  show ?thesis
    unfolding v deferred_wf_def k p using False m c le by auto
qed

section \<open>Operations preserve validity\<close>

lemma u64_inc_nonzero: "(x :: u64) \<noteq> UINT64_TOP \<Longrightarrow> x + 1 \<noteq> 0"
proof
  assume "x \<noteq> UINT64_TOP" "x + 1 = 0"
  then have "x = - 1" by (simp add: eq_neg_iff_add_eq_0)
  with \<open>x \<noteq> UINT64_TOP\<close> show False by simp
qed

lemma wf_remaining:
  assumes "deferred_wf s" "sc_pending s \<noteq> 0"
  obtains k where "k \<le> 244" "unat (sc_remaining s) + 4096 * k = 1000000" "sc_slice_id s = 0 \<Longrightarrow> k = 0"
    "sc_pending s = 1" "sc_activation_id s \<noteq> 0" "unat (sc_remaining s) \<noteq> 0"
proof -
  obtain k where k: "k \<le> 244" "unat (sc_remaining s) + 4096 * k = 1000000" "sc_slice_id s = 0 \<longrightarrow> k = 0"
    and s: "sc_pending s = 1" "sc_activation_id s \<noteq> 0"
    using assms unfolding deferred_wf_def by blast
  have "unat (sc_remaining s) \<noteq> 0" using k(2) no_whole_slices [of k] by (cases "unat (sc_remaining s)") auto
  then show thesis using that k s by blast
qed

lemma unat_quota:
  "sc_slice_steps s = SLICE_STEPS \<Longrightarrow> unat (sched_quota s) = min (unat (sc_remaining s)) 4096"
  by (simp add: sched_quota_def word_less_nat_alt min_def)

lemma wf_request: "deferred_wf s \<Longrightarrow> sched_request s = Some s' \<Longrightarrow> deferred_wf s'"
  by (auto simp: sched_request_def deferred_wf_def u64_inc_nonzero split: if_splits)

lemma wf_begin: "deferred_wf s \<Longrightarrow> deferred_wf (snd (sched_begin s))"
  by (auto simp: sched_begin_def deferred_wf_def u64_inc_nonzero)

lemma wf_next:
  assumes "deferred_wf s" "sc_pending s \<noteq> 0" "sc_slice_id s \<noteq> 0"
    and "hint \<or> fault \<or> executed = sched_quota s"
    and "sched_next s executed hint fault = Some s'"
  shows "deferred_wf s'"
proof (cases "hint \<or> fault")
  case True
  then show ?thesis using assms by (auto simp: sched_next_def deferred_wf_def)
next
  case False
  obtain k where k: "k \<le> 244" "unat (sc_remaining s) + 4096 * k = 1000000" "unat (sc_remaining s) \<noteq> 0"
    using wf_remaining [OF assms(1,2)] by metis
  define r where "r = sc_remaining s - sched_quota s"
  have ss: "sc_slice_steps s = SLICE_STEPS" using assms(1) by (simp add: deferred_wf_def)
  have r: "unat r = unat (sc_remaining s) - min (unat (sc_remaining s)) 4096"
    unfolding r_def using unat_quota [OF ss] by (subst unat_sub) (auto simp: word_le_nat_alt)
  have nz: "\<exists>k\<le>244. unat r + 4096 * k = 1000000" if "sc_remaining s \<noteq> sched_quota s"
  proof -
    have "unat r \<noteq> 0" using that by (simp add: unat_eq_zero r_def)
    then have "unat r + 4096 * Suc k = 1000000" using r k by auto
    then show ?thesis by (intro exI [of _ "Suc k"]) auto
  qed
  show ?thesis
    using assms False nz
    by (auto simp: sched_next_def deferred_wf_def Let_def r_def [symmetric] u64_inc_nonzero split: if_splits)
qed

text \<open>When a slice may end. For a running deferred scheduler \<open>end\<close> fails exactly when the
  executed steps exceed the quota, or differ from it with neither a hint nor a fault, when no
  slice was begun yet, or when the re-armed activation has no number left; in particular the
  final validity check of the new state never fails for another reason.\<close>

lemma end_without_begin:
  assumes "deferred_wf s" "sc_pending s \<noteq> 0" "sc_slice_id s = 0" "hint \<or> fault \<or> executed = sched_quota s"
    "sched_next s executed hint fault = Some s'"
  shows "\<not> deferred_wf s'"
proof -
  obtain k where k: "unat (sc_remaining s) = 1000000" "sc_activation_id s \<noteq> 0"
    using wf_remaining [OF assms(1,2)] assms(3) by (metis add.right_neutral mult_0_right)
  have ss: "sc_slice_steps s = SLICE_STEPS" using assms(1) by (simp add: deferred_wf_def)
  have "unat (sc_remaining s - sched_quota s) = 1000000 - 4096"
    using unat_quota [OF ss] k by (subst unat_sub) (auto simp: word_le_nat_alt)
  then show ?thesis
    using assms k by (auto simp: sched_next_def deferred_wf_def Let_def split: if_splits)
qed

lemma end_fails_iff:
  assumes "sched_valid s" "sc_mode s = MODE_DEFERRED_V1" "sc_pending s \<noteq> 0"
  shows "sched_end s executed hint fault = None \<longleftrightarrow>
    executed > sched_quota s \<or> (\<not> hint \<and> \<not> fault \<and> executed \<noteq> sched_quota s) \<or> sc_slice_id s = 0 \<or>
    (\<not> hint \<and> \<not> fault \<and> sc_remaining s = executed \<and> sc_rearm s \<noteq> 0 \<and> sc_activation_id s = UINT64_TOP)"
proof (cases "executed > sched_quota s \<or> (\<not> hint \<and> \<not> fault \<and> executed \<noteq> sched_quota s)")
  case True
  then show ?thesis by (auto simp: sched_end_def)
next
  case False
  have wf: "deferred_wf s" using assms by (simp add: deferred_valid)
  have e: "hint \<or> fault \<or> executed = sched_quota s" using False by auto
  have f: "sched_next s executed hint fault = None \<longleftrightarrow>
      \<not> hint \<and> \<not> fault \<and> sc_remaining s = executed \<and> sc_rearm s \<noteq> 0 \<and> sc_activation_id s = UINT64_TOP"
    by (auto simp: sched_next_def Let_def)
  have m: "sched_next s executed hint fault = Some s' \<Longrightarrow> sc_mode s' = MODE_DEFERRED_V1" for s'
    using assms(2) by (auto simp: sched_next_def Let_def split: if_splits)
  have "sched_end s executed hint fault = (case sched_next s executed hint fault of None \<Rightarrow> None
        | Some nxt \<Rightarrow> if \<not> sched_valid nxt then None else Some nxt)"
    using assms False by (auto simp: sched_end_def)
  moreover have "sched_valid s' \<longleftrightarrow> sc_slice_id s \<noteq> 0" if "sched_next s executed hint fault = Some s'" for s'
    using wf_next [OF wf assms(3) _ e that] end_without_begin [OF wf assms(3) _ e that]
    by (auto simp: deferred_valid [OF m [OF that]])
  ultimately show ?thesis using False f by (cases "sched_next s executed hint fault") auto
qed

text \<open>C32: Ending a slice of a pending activation fails in exactly four cases: more steps were run than the quota;
  fewer were run, with neither a hint nor a fault to explain it; no slice has ever been begun; or the
  activation is complete, another is due at once, and the activation counter is at its top.\<close>

theorem sched_end_fails_iff:
  assumes "sched_valid s" "sc_mode s = MODE_DEFERRED_V1" "sc_pending s \<noteq> 0"
  shows "sched_end s executed hint fault = None \<longleftrightarrow>
    executed > sched_quota s \<or> (\<not> hint \<and> \<not> fault \<and> executed \<noteq> sched_quota s) \<or> sc_slice_id s = 0 \<or>
    (\<not> hint \<and> \<not> fault \<and> sc_remaining s = executed \<and> sc_rearm s \<noteq> 0 \<and> sc_activation_id s = UINT64_TOP)"
  by (rule end_fails_iff [OF assms])

theorem sched_end_fails_iff_witness:
  "sched_end (sched_reset\<lparr>sc_activation_id := 1, sc_remaining := 1000000, sc_pending := 1\<rparr>) 4096 False False = None"
  using sched_end_fails_iff [of "sched_reset\<lparr>sc_activation_id := 1, sc_remaining := 1000000, sc_pending := 1\<rparr>"]
  by (simp add: sched_reset_def sched_valid_def)

section \<open>Reachable schedulers\<close>

inductive sched_reach :: "scheduler \<Rightarrow> bool" where
  reset: "sched_reach sched_reset"
| request: "sched_reach s \<Longrightarrow> sched_request s = Some s' \<Longrightarrow> sched_reach s'"
| begin_slice: "sched_reach s \<Longrightarrow> sched_begin s = (quota, s') \<Longrightarrow> sched_reach s'"
| end_slice: "sched_reach s \<Longrightarrow> sched_end s executed hint fault = Some s' \<Longrightarrow> sched_reach s'"

lemma wf_end: "sc_mode s = MODE_DEFERRED_V1 \<Longrightarrow> sched_end s executed hint fault = Some s' \<Longrightarrow> deferred_wf s'"
proof -
  assume "sc_mode s = MODE_DEFERRED_V1" "sched_end s executed hint fault = Some s'"
  then have "sched_valid s'" "sc_mode s' = MODE_DEFERRED_V1"
    by (auto simp: sched_end_def sched_next_def Let_def split: if_splits option.splits)
  then show ?thesis by (simp add: deferred_valid)
qed

lemma sched_reach_wf: "sched_reach s \<Longrightarrow> deferred_wf s"
proof (induction rule: sched_reach.induct)
  case reset
  then show ?case by (simp add: sched_reset_def deferred_wf_def)
next
  case (begin_slice s quota s')
  then show ?case using wf_begin [of s] by simp
next
  case (end_slice s executed hint fault s')
  then show ?case by (intro wf_end) (auto simp: deferred_wf_def)
qed (rule wf_request)

text \<open>C31: Every scheduler the operations reach from reset is valid, and its remaining count is zero
  exactly when it is idle and otherwise a whole number of slices short of an activation.\<close>

theorem sched_reach_valid:
  assumes "sched_reach s"
  shows "sched_valid s \<and> (sc_pending s = 0 \<longleftrightarrow> sc_remaining s = 0) \<and>
    (sc_remaining s = 0 \<or> (\<exists>k\<le>244. unat (sc_remaining s) + 4096 * k = 1000000))"
proof -
  have wf: "deferred_wf s" by (rule sched_reach_wf [OF assms])
  then have "sched_valid s" by (simp add: deferred_valid deferred_wf_def)
  then show ?thesis using wf no_whole_slices by (auto simp: deferred_wf_def)
qed

theorem sched_reach_valid_witness:
  "sched_valid (the (sched_request sched_reset)) \<and> sc_remaining (the (sched_request sched_reset)) \<noteq> 0"
proof -
  have *: "sched_request sched_reset = Some (the (sched_request sched_reset))"
    by (simp add: sched_request_def sched_reset_def sched_valid_def)
  have "sched_reach (the (sched_request sched_reset))"
    using sched_reach.request [OF sched_reach.reset *] .
  from sched_reach_valid [OF this] show ?thesis
    by (simp add: sched_request_def sched_reset_def sched_valid_def)
qed

section \<open>Running an activation\<close>

text \<open>The host loop: begin a slice, execute its whole quota, end it; the total of steps run.\<close>

fun run_slices :: "nat \<Rightarrow> scheduler \<Rightarrow> (nat \<times> scheduler) option" where
  "run_slices 0 s = Some (0, s)"
| "run_slices (Suc n) s =
     (let (quota, s1) = sched_begin s
      in case sched_end s1 quota False False of None \<Rightarrow> None
        | Some s2 \<Rightarrow> (case run_slices n s2 of None \<Rightarrow> None
            | Some (steps, s3) \<Rightarrow> Some (unat quota + steps, s3)))"

definition finished :: "scheduler \<Rightarrow> scheduler" where
  "finished s =
     (if sc_rearm s = 0 then s\<lparr>sc_remaining := 0, sc_pending := 0\<rparr>
      else s\<lparr>sc_activation_id := sc_activation_id s + 1, sc_remaining := ACTIVATION_STEPS, sc_rearm := 0\<rparr>)"

lemma run_one_slice:
  assumes "deferred_wf s" "sc_pending s \<noteq> 0" "sc_slice_id s \<noteq> UINT64_TOP"
    and "sc_rearm s = 0 \<or> sc_activation_id s \<noteq> UINT64_TOP"
  defines "s1 \<equiv> s\<lparr>sc_slice_id := sc_slice_id s + 1\<rparr>"
  shows "sched_begin s = (sched_quota s, s1)"
    and "sched_end s1 (sched_quota s) False False =
      Some (if unat (sc_remaining s) \<le> 4096 then finished s1
            else s1\<lparr>sc_remaining := sc_remaining s - 4096\<rparr>)"
proof -
  have v: "sched_valid s" "sc_mode s = MODE_DEFERRED_V1" "sc_slice_steps s = SLICE_STEPS"
    using assms(1) deferred_valid by (auto simp: deferred_wf_def)
  show b: "sched_begin s = (sched_quota s, s1)"
    using v assms by (simp add: sched_begin_def s1_def)
  have wf1: "deferred_wf s1" using wf_begin [OF assms(1)] b by simp
  have m1: "sc_mode s1 = MODE_DEFERRED_V1" "sc_pending s1 \<noteq> 0" "sc_slice_id s1 \<noteq> 0"
    and q1: "sched_quota s1 = sched_quota s"
    using v assms u64_inc_nonzero by (simp_all add: s1_def sched_quota_def)
  have v1: "sched_valid s1" using wf1 m1 by (simp add: deferred_valid)
  have q: "sched_quota s = (if unat (sc_remaining s) \<le> 4096 then sc_remaining s else 4096)"
  proof (cases "unat (sc_remaining s) = 4096")
    case True
    then have "sc_remaining s = 4096" using unsigned_word_eqI [of "sc_remaining s" 4096] by simp
    then show ?thesis using v by (simp add: sched_quota_def)
  qed (use v in \<open>auto simp: sched_quota_def word_less_nat_alt\<close>)
  have ne: "sc_remaining s - 4096 \<noteq> 0" if "\<not> unat (sc_remaining s) \<le> 4096"
    using that by auto
  have "sched_end s1 (sched_quota s) False False \<noteq> None"
    using assms(4) m1 q1 by (subst end_fails_iff [OF v1 m1(1,2)]) (auto simp: s1_def)
  then have "sched_end s1 (sched_quota s) False False = sched_next s1 (sched_quota s) False False"
    by (auto simp: sched_end_def split: option.splits if_splits)
  also have "\<dots> = Some (if unat (sc_remaining s) \<le> 4096 then finished s1
            else s1\<lparr>sc_remaining := sc_remaining s - 4096\<rparr>)"
    using assms(4) ne unfolding q by (auto simp: sched_next_def Let_def finished_def s1_def)
  finally show "sched_end s1 (sched_quota s) False False =
      Some (if unat (sc_remaining s) \<le> 4096 then finished s1
            else s1\<lparr>sc_remaining := sc_remaining s - 4096\<rparr>)" .
qed

lemma unat_quota_wf: "deferred_wf s \<Longrightarrow> unat (sched_quota s) = min (unat (sc_remaining s)) 4096"
  by (rule unat_quota) (simp add: deferred_wf_def)

lemma run_activation:
  assumes "deferred_wf s" "sc_pending s \<noteq> 0" "sc_rearm s = 0 \<or> sc_activation_id s \<noteq> UINT64_TOP"
    and "4096 * n < unat (sc_remaining s)" "unat (sc_remaining s) \<le> 4096 * Suc n"
    and "unat (sc_slice_id s) + Suc n < 2 ^ 64"
  shows "run_slices (Suc n) s = Some (unat (sc_remaining s),
    finished (s\<lparr>sc_slice_id := sc_slice_id s + of_nat (Suc n)\<rparr>))"
  using assms
proof (induction n arbitrary: s)
  case 0
  have t: "sc_slice_id s \<noteq> UINT64_TOP" using "0.prems"(6) by auto
  show ?case using run_one_slice [OF "0.prems"(1,2) t "0.prems"(3)] "0.prems" unat_quota_wf [OF "0.prems"(1)]
    by simp
next
  case (Suc n)
  have t: "sc_slice_id s \<noteq> UINT64_TOP" using Suc.prems(6) by auto
  define s1 where "s1 = s\<lparr>sc_slice_id := sc_slice_id s + 1\<rparr>"
  define s2 where "s2 = s1\<lparr>sc_remaining := sc_remaining s - 4096\<rparr>"
  note r = run_one_slice [OF Suc.prems(1,2) t Suc.prems(3), folded s1_def]
  have e: "sched_end s1 (sched_quota s) False False = Some s2"
    using r(2) Suc.prems(4) by (simp add: s2_def)
  have "sc_mode s1 = MODE_DEFERRED_V1" using Suc.prems(1) by (simp add: s1_def deferred_wf_def)
  then have wf2: "deferred_wf s2" by (rule wf_end [OF _ e])
  have u: "unat (sc_remaining s2) = unat (sc_remaining s) - 4096"
    unfolding s2_def using Suc.prems(4) by (simp add: unat_sub word_le_nat_alt)
  have i: "unat (sc_slice_id s2) = Suc (unat (sc_slice_id s))"
    unfolding s2_def s1_def using Suc.prems(6) by (simp add: unat_word_ariths)
  have "run_slices (Suc n) s2 = Some (unat (sc_remaining s2),
      finished (s2\<lparr>sc_slice_id := sc_slice_id s2 + of_nat (Suc n)\<rparr>))"
    using Suc.prems u i wf2 by (intro Suc.IH) (auto simp: s2_def s1_def)
  moreover have "finished (s2\<lparr>sc_slice_id := sc_slice_id s2 + of_nat (Suc n)\<rparr>) =
      finished (s\<lparr>sc_slice_id := sc_slice_id s + of_nat (Suc (Suc n))\<rparr>)"
    by (simp add: finished_def s2_def s1_def add.assoc)
  moreover have "unat (sched_quota s) + unat (sc_remaining s2) = unat (sc_remaining s)"
    using Suc.prems(1,4) u by (simp add: unat_quota_wf)
  ultimately show ?case
    by (subst run_slices.simps(2)) (simp add: r(1) e del: run_slices.simps)
qed

text \<open>C25: An activation runs to completion. From any reachable running state whose counters have
  room, ending every slice with its full quota executes exactly the remaining steps in the
  least number of slices and leaves the scheduler idle, or, when a request arrived
  meanwhile, at the start of exactly one new activation.\<close>

theorem sched_activation_completes:
  assumes "sched_reach s" "sc_pending s \<noteq> 0" "sc_activation_id s \<noteq> UINT64_TOP"
    and "unat (sc_slice_id s) + (unat (sc_remaining s) + 4095) div 4096 < 2 ^ 64"
  shows "\<exists>s'. run_slices ((unat (sc_remaining s) + 4095) div 4096) s = Some (unat (sc_remaining s), s') \<and>
    sched_valid s' \<and>
    (if sc_rearm s = 0 then sc_pending s' = 0 \<and> sc_activation_id s' = sc_activation_id s
     else sc_pending s' = 1 \<and> sc_remaining s' = ACTIVATION_STEPS \<and> sc_rearm s' = 0 \<and>
       sc_activation_id s' = sc_activation_id s + 1)"
proof -
  have wf: "deferred_wf s" by (rule sched_reach_wf [OF assms(1)])
  have nz: "unat (sc_remaining s) \<noteq> 0" using wf_remaining [OF wf assms(2)] by metis
  define n where "n = (unat (sc_remaining s) - 1) div 4096"
  have n: "(unat (sc_remaining s) + 4095) div 4096 = Suc n" using nz by (simp add: n_def)
  let ?s' = "finished (s\<lparr>sc_slice_id := sc_slice_id s + of_nat (Suc n)\<rparr>)"
  have run: "run_slices (Suc n) s = Some (unat (sc_remaining s), ?s')"
    using assms nz n wf by (intro run_activation) (auto simp: n_def)
  have "unat (sc_slice_id s + of_nat (Suc n)) = unat (sc_slice_id s) + Suc n"
    using assms(4) unfolding n by (simp add: unat_word_ariths unat_of_nat)
  then have "sc_slice_id s + of_nat (Suc n) \<noteq> 0" by (metis add_is_0 nat.distinct(1) unat_0)
  then have "deferred_wf ?s'"
    using wf assms(2,3) wf_remaining [OF wf assms(2)] u64_inc_nonzero
    by (auto simp: finished_def deferred_wf_def)
  moreover have "sc_mode ?s' = MODE_DEFERRED_V1" using wf by (simp add: finished_def deferred_wf_def)
  ultimately have "sched_valid ?s'" by (simp add: deferred_valid)
  moreover have "sc_pending s = 1" using wf_remaining [OF wf assms(2)] by metis
  ultimately show ?thesis unfolding n using run by (auto simp: finished_def)
qed

theorem sched_activation_completes_witness:
  "\<exists>s s'. sched_request sched_reset = Some s \<and> run_slices 245 s = Some (1000000, s') \<and> sc_pending s' = 0"
proof -
  obtain s where s: "sched_request sched_reset = Some s" "sc_pending s \<noteq> 0" "sc_rearm s = 0"
      "sc_remaining s = 1000000" "sc_slice_id s = 0" "sc_activation_id s = 1"
    by (simp add: sched_request_def sched_reset_def sched_valid_def)
  have "sched_reach s" using sched_reach.request [OF sched_reach.reset s(1)] .
  from sched_activation_completes [OF this s(2)] s show ?thesis by auto
qed

end
