(* ===== verification/Bus_Contract.thy ===== *)
theory Bus_Contract
  imports Prelude
begin

text \<open>
  The register-write contract of \<^verbatim>\<open>CdjC674xWrite\<close> in \<^verbatim>\<open>emulator/qemu/cdj_c674x.h\<close>, which
  every peripheral of the DSP promises the CPU: a write is first checked
  (\<open>commit = False\<close>), which must have no effect, and committed later, which must
  succeed when the check did. \<open>None\<close> is a rejected transfer. The CPU queues
  several checked stores before it commits them, so the contract also asks that
  acceptance does not depend on the register state; \<open>mmio_port_stable\<close> is that
  part, and \<open>queued_stores_commit\<close> what the CPU gets from it.
\<close>

type_synonym 's mmio_write = "'s \<Rightarrow> u32 \<Rightarrow> u64 \<Rightarrow> nat \<Rightarrow> bool \<Rightarrow> 's option"

text \<open>A queued store, and the commit of a queue in order.\<close>

record mmio_store =
  st_address :: u32
  st_value :: u64
  st_size :: nat

definition check_store :: "'s mmio_write \<Rightarrow> 's \<Rightarrow> mmio_store \<Rightarrow> bool" where
  "check_store wr s st \<longleftrightarrow> wr s (st_address st) (st_value st) (st_size st) False \<noteq> None"

fun commit_all :: "'s mmio_write \<Rightarrow> 's \<Rightarrow> mmio_store list \<Rightarrow> 's option" where
  "commit_all wr s [] = Some s"
| "commit_all wr s (st # sts) =
     (case wr s (st_address st) (st_value st) (st_size st) True of
        None \<Rightarrow> None
      | Some s' \<Rightarrow> commit_all wr s' sts)"

locale mmio_port =
  fixes wr :: "'s mmio_write"
  assumes check_pure: "wr s a v n False = Some s' \<Longrightarrow> s' = s"
    and commit_accepts: "wr s a v n True = None \<longleftrightarrow> wr s a v n False = None"
begin

lemma check_then_commit: "check_store wr s st \<Longrightarrow> \<exists>s'. commit_all wr s [st] = Some s'"
  using commit_accepts by (auto simp: check_store_def split: option.splits)

lemma check_result: "wr s a v n False = (if wr s a v n True = None then None else Some s)"
  using check_pure commit_accepts by (metis option.exhaust)

end

locale mmio_port_stable = mmio_port +
  assumes accept_stable: "wr s a v n False = None \<Longrightarrow> wr s' a v n False = None"
begin

lemma check_stable: "check_store wr s st = check_store wr s' st"
  unfolding check_store_def by (metis accept_stable)

lemma queued_stores_commit:
  "(\<And>st. st \<in> set sts \<Longrightarrow> \<exists>s. check_store wr s st) \<Longrightarrow> \<exists>s''. commit_all wr s' sts = Some s''"
proof (induction sts arbitrary: s')
  case (Cons st sts)
  then have "check_store wr s' st" using check_stable by fastforce
  then obtain t where "wr s' (st_address st) (st_value st) (st_size st) True = Some t"
    unfolding check_store_def by (metis commit_accepts option.exhaust)
  then show ?case using Cons by simp
qed simp

end

locale mmio_port_inv = mmio_port wr for wr :: "'s mmio_write" +
  fixes inv :: "'s \<Rightarrow> bool"
  assumes inv_write: "inv s \<Longrightarrow> wr s a v n True = Some s' \<Longrightarrow> inv s'"
begin

lemma inv_commit_all: "inv s \<Longrightarrow> commit_all wr s sts = Some s' \<Longrightarrow> inv s'"
  by (induction sts arbitrary: s) (auto intro: inv_write split: option.splits)

lemma inv_any: "inv s \<Longrightarrow> wr s a v n c = Some s' \<Longrightarrow> inv s'"
  by (metis (full_types) inv_write check_pure)

end

section \<open>Countdown commands\<close>

text \<open>
  A command register that starts a countdown (the GO bits of the power and PLL
  controllers): while \<open>remaining\<close> counts, the visible state stays, and the tick that
  brings it to zero makes the target visible.
\<close>

locale countdown =
  fixes remaining :: "'s \<Rightarrow> nat" and tick :: "'s \<Rightarrow> 's"
    and visible :: "'s \<Rightarrow> 'v" and target :: "'s \<Rightarrow> 'v"
  assumes tick_counts: "remaining s = Suc n \<Longrightarrow> remaining (tick s) = n"
    and tick_keeps: "remaining s \<noteq> 1 \<Longrightarrow> visible (tick s) = visible s"
    and tick_keeps_target: "1 < remaining s \<Longrightarrow> target (tick s) = target s"
    and tick_fires: "remaining s = 1 \<Longrightarrow> visible (tick s) = target s"
    and tick_idle: "remaining s = 0 \<Longrightarrow> remaining (tick s) = 0"
begin

lemma counting:
  "k < remaining s \<Longrightarrow> remaining ((tick ^^ k) s) = remaining s - k \<and>
     visible ((tick ^^ k) s) = visible s \<and> target ((tick ^^ k) s) = target s"
proof (induction k)
  case (Suc k)
  let ?t = "(tick ^^ k) s"
  have t: "remaining ?t = Suc (remaining s - Suc k)" "visible ?t = visible s" "target ?t = target s"
    using Suc by auto
  have "1 < remaining ?t" using t(1) Suc.prems by simp
  then show ?case
    using t tick_counts [OF t(1)] tick_keeps [of ?t] tick_keeps_target [of ?t] by simp
qed simp

lemma completes:
  assumes "0 < remaining s"
  shows "visible ((tick ^^ remaining s) s) = target s" "remaining ((tick ^^ remaining s) s) = 0"
proof -
  obtain k where k: "remaining s = Suc k" using assms by (cases "remaining s") auto
  let ?t = "(tick ^^ k) s"
  have t: "remaining ?t = Suc 0" "target ?t = target s" using counting [of k s] k by auto
  show "visible ((tick ^^ remaining s) s) = target s" "remaining ((tick ^^ remaining s) s) = 0"
    using t tick_fires [of ?t] tick_counts [OF t(1)] by (simp_all add: k)
qed

end

end
