(* ===== verification/C6747_Psc.thy ===== *)
theory C6747_Psc
  imports Bus_Contract
begin

text \<open>
  \<^verbatim>\<open>emulator/qemu/cdj_c6747_psc.c\<close>: the two power and sleep controllers. Arrays are
  functions of controller and module (or domain). \<open>psc_remaining\<close> is the C counter
  of caller ticks; it is only ever decremented when nonzero.
\<close>

section \<open>State\<close>

record psc =
  psc_control :: "nat \<Rightarrow> nat \<Rightarrow> u32"
  psc_status :: "nat \<Rightarrow> nat \<Rightarrow> u32"
  psc_target :: "nat \<Rightarrow> nat \<Rightarrow> u32"
  psc_remaining :: "nat \<Rightarrow> nat \<Rightarrow> nat"

definition populated :: "nat \<Rightarrow> nat \<Rightarrow> bool" where
  "populated b m \<longleftrightarrow> (if b = 0 then 0xBA3F else 0x87333FFE :: u32) AND shl 1 m \<noteq> 0"

definition always_enabled :: "nat \<Rightarrow> nat \<Rightarrow> bool" where
  "always_enabled b m \<longleftrightarrow> (if b = 0 then 0x1800 else 0x87000000 :: u32) AND shl 1 m \<noteq> 0"

definition domain :: "nat \<Rightarrow> nat \<Rightarrow> nat" where
  "domain bank module = (if module = (if bank \<noteq> 0 then 31 else 15) then 1 else 0)"

definition psc_mapped :: "u32 \<Rightarrow> (nat \<times> u32) option" where
  "psc_mapped address =
     (if address AND 3 \<noteq> 0 then None
      else if address \<ge> 0x01C10000 \<and> address < 0x01C11000 then Some (0, address AND 0xFFF)
      else if address \<ge> 0x01E27000 \<and> address < 0x01E28000 then Some (1, address AND 0xFFF)
      else None)"

definition status :: "u32 \<Rightarrow> u32" where
  "status state = 0xB00 OR state OR (if state \<ge> 2 then 0x400 else 0) OR
     (if state = 1 \<or> state = 3 then 0x1000 else 0)"

definition psc_reset :: psc where
  "psc_reset =
     (let state = (\<lambda>b m. if always_enabled b m \<or> (b = 0 \<and> m = 15) then 3 else 0)
      in \<lparr>psc_control = (\<lambda>b m. if b < 2 \<and> m < 32 \<and> populated b m
            then (if b = 0 \<and> m = 15 then state b m OR 0x100 else state b m) else 0),
          psc_status = (\<lambda>b m. if b < 2 \<and> m < 32 \<and> populated b m then status (state b m) else 0),
          psc_target = (\<lambda>_ _. 0), psc_remaining = (\<lambda>_ _. 0)\<rparr>)"

section \<open>Operations\<close>

definition in_domain :: "nat \<Rightarrow> nat \<Rightarrow> nat \<Rightarrow> bool" where
  "in_domain b d m \<longleftrightarrow> m < 32 \<and> populated b m \<and> domain b m = d"

text \<open>The body of the tick loop for controller \<open>b\<close> and domain \<open>d\<close>.\<close>

definition psc_tick_one :: "nat \<times> nat \<Rightarrow> psc \<Rightarrow> psc" where
  "psc_tick_one bd s =
     (let (b, d) = bd
      in if psc_remaining s b d = 0 then s
         else
           (let s = s\<lparr>psc_remaining := (psc_remaining s)(b := (psc_remaining s b)(d := psc_remaining s b d - 1))\<rparr>
            in if psc_remaining s b d \<noteq> 0 then s
               else s\<lparr>psc_status := (psc_status s)(b := \<lambda>m.
                        if in_domain b d m then status (psc_target s b m) else psc_status s b m)\<rparr>))"

definition psc_tick :: "psc \<Rightarrow> psc" where
  "psc_tick s = fold psc_tick_one [(0, 0), (0, 1), (1, 0), (1, 1)] s"

definition psc_read :: "psc \<Rightarrow> u32 \<Rightarrow> u32 option" where
  "psc_read s address =
     (case psc_mapped address of None \<Rightarrow> None
      | Some (b, off) \<Rightarrow>
          if off = 0x120 then Some 0
          else if off = 0x128 then
            Some ((if psc_remaining s b 0 \<noteq> 0 then 1 else 0) OR (if psc_remaining s b 1 \<noteq> 0 then 2 else 0))
          else if (off \<ge> 0x800 \<and> off < 0x880) \<or> (off \<ge> 0xA00 \<and> off < 0xA80) then
            (let m = unat ((off AND 0x7F) div 4)
             in if \<not> populated b m then None
                else Some (if off < 0xA00 then psc_status s b m else psc_control s b m))
          else None)"

text \<open>The GO loop body: a busy domain ignores the command.\<close>

definition psc_go :: "nat \<Rightarrow> u64 \<Rightarrow> nat \<Rightarrow> psc \<Rightarrow> psc" where
  "psc_go b value d s =
     (if value AND shl 1 d = 0 then s
      else if psc_remaining s b d \<noteq> 0 then s
      else s\<lparr>psc_target := (psc_target s)(b := \<lambda>m.
               if in_domain b d m then (if always_enabled b m then 3 else psc_control s b m AND 3)
               else psc_target s b m),
             psc_remaining := (psc_remaining s)(b := (psc_remaining s b)(d := 8))\<rparr>)"

definition psc_write :: "psc \<Rightarrow> u32 \<Rightarrow> u64 \<Rightarrow> nat \<Rightarrow> bool \<Rightarrow> psc option" where
  "psc_write s address value sz commit =
     (if sz \<noteq> 4 then None
      else case psc_mapped address of None \<Rightarrow> None
      | Some (b, off) \<Rightarrow>
          if off \<ge> 0xA00 \<and> off < 0xA80 then
            (let m = unat ((off - 0xA00) div 4);
                 allowed = (if b = 0 \<and> m = 15 then 0x103 else 3 :: u64)
             in if \<not> populated b m then None
                else if value AND NOT allowed \<noteq> 0 then None
                else if b = 0 \<and> m = 15 \<and> value \<noteq> 0x103 then None
                else Some (if commit
                  then s\<lparr>psc_control := (psc_control s)(b := (psc_control s b)(m := ucast value))\<rparr> else s))
          else if off \<noteq> 0x120 \<or> value AND NOT 3 \<noteq> 0 then None
          else Some (if commit then fold (psc_go b value) [0, 1] s else s))"

section \<open>One tick, register by register\<close>

lemma domain_cases: "domain b m = 0 \<or> domain b m = 1"
  by (simp add: domain_def)

lemma tick_one_frame [simp]:
  "psc_control (psc_tick_one bd s) = psc_control s" "psc_target (psc_tick_one bd s) = psc_target s"
  by (simp_all add: psc_tick_one_def Let_def split: prod.split)

lemma tick_one_remaining:
  "psc_remaining (psc_tick_one (b, d) s) b' d' =
     (if b' = b \<and> d' = d then psc_remaining s b d - 1 else psc_remaining s b' d')"
  by (simp add: psc_tick_one_def Let_def)

lemma tick_one_status:
  "psc_status (psc_tick_one (b, d) s) b' m =
     (if b' = b \<and> in_domain b d m \<and> psc_remaining s b d = 1 then status (psc_target s b m)
      else psc_status s b' m)"
  by (auto simp: psc_tick_one_def Let_def)

lemma psc_tick_frame [simp]:
  "psc_control (psc_tick s) = psc_control s" "psc_target (psc_tick s) = psc_target s"
  by (simp_all add: psc_tick_def)

lemma psc_tick_remaining:
  "b < 2 \<Longrightarrow> d < 2 \<Longrightarrow> psc_remaining (psc_tick s) b d = psc_remaining s b d - 1"
  by (auto simp: psc_tick_def tick_one_remaining dest!: less_2_cases)

lemma psc_tick_status:
  assumes "b < 2" "d < 2" "in_domain b d m"
  shows "psc_status (psc_tick s) b m =
    (if psc_remaining s b d = 1 then status (psc_target s b m) else psc_status s b m)"
proof -
  have "in_domain b d' m \<longleftrightarrow> d' = d" for d' using assms(3) by (auto simp: in_domain_def)
  then show ?thesis using assms(1,2)
    by (auto simp: psc_tick_def tick_one_status tick_one_remaining dest!: less_2_cases)
qed

text \<open>Each domain of each controller is a countdown: its visible state is the status of its modules.\<close>

definition psc_view :: "nat \<Rightarrow> nat \<Rightarrow> psc \<Rightarrow> nat \<Rightarrow> u32" where
  "psc_view b d s m = (if in_domain b d m then psc_status s b m else 0)"

definition psc_goal :: "nat \<Rightarrow> nat \<Rightarrow> psc \<Rightarrow> nat \<Rightarrow> u32" where
  "psc_goal b d s m = (if in_domain b d m then status (psc_target s b m) else 0)"

lemma psc_countdown:
  assumes "b < 2" "d < 2"
  shows "countdown (\<lambda>s. psc_remaining s b d) psc_tick (psc_view b d) (psc_goal b d)"
  using assms
  by unfold_locales (auto simp: psc_tick_remaining psc_view_def psc_goal_def psc_tick_status fun_eq_iff)

interpretation psc00: countdown "\<lambda>s. psc_remaining s 0 0" psc_tick "psc_view 0 0" "psc_goal 0 0"
  by (rule psc_countdown) simp_all
interpretation psc01: countdown "\<lambda>s. psc_remaining s 0 1" psc_tick "psc_view 0 1" "psc_goal 0 1"
  by (rule psc_countdown) simp_all
interpretation psc10: countdown "\<lambda>s. psc_remaining s 1 0" psc_tick "psc_view 1 0" "psc_goal 1 0"
  by (rule psc_countdown) simp_all
interpretation psc11: countdown "\<lambda>s. psc_remaining s 1 1" psc_tick "psc_view 1 1" "psc_goal 1 1"
  by (rule psc_countdown) simp_all

interpretation psc_mmio: mmio_port_stable psc_write
  by unfold_locales (auto simp: psc_write_def Let_def split: option.splits prod.splits if_splits)

section \<open>GO commands\<close>

lemma psc_mapped_bank: "psc_mapped a = Some (b, off) \<Longrightarrow> b < 2"
  by (auto simp: psc_mapped_def split: if_splits)

lemma go_bit: "(v :: u64) AND shl 1 d = 0 \<longleftrightarrow> \<not> bit v d"
  using bit_iff_and_push_bit_not_eq_0 [of v d] by blast

lemma psc_go_frame [simp]: "psc_control (psc_go b v d s) = psc_control s" "psc_status (psc_go b v d s) = psc_status s"
  by (simp_all add: psc_go_def)

lemma psc_go_remaining:
  "psc_remaining (psc_go b v d s) b' d' =
     (if b' = b \<and> d' = d \<and> bit v d \<and> psc_remaining s b d = 0 then 8 else psc_remaining s b' d')"
  by (simp add: psc_go_def go_bit del: push_bit_of_1)

lemma psc_go_target:
  "psc_target (psc_go b v d s) b' m =
     (if b' = b \<and> in_domain b d m \<and> bit v d \<and> psc_remaining s b d = 0
      then (if always_enabled b m then 3 else psc_control s b m AND 3) else psc_target s b' m)"
  by (auto simp: psc_go_def go_bit simp del: push_bit_of_1)

lemma psc_write_go:
  "psc_mapped a = Some (b, 0x120) \<Longrightarrow> psc_write s a v n True = Some s' \<Longrightarrow> s' = psc_go b v 1 (psc_go b v 0 s)"
  by (auto simp: psc_write_def split: if_splits)

lemma psc_go_both:
  assumes "d < 2"
  shows "psc_remaining (psc_go b v 1 (psc_go b v 0 s)) b d =
      (if bit v d \<and> psc_remaining s b d = 0 then 8 else psc_remaining s b d)"
    and "in_domain b d m \<Longrightarrow> psc_target (psc_go b v 1 (psc_go b v 0 s)) b m =
      (if bit v d \<and> psc_remaining s b d = 0 then (if always_enabled b m then 3 else psc_control s b m AND 3)
       else psc_target s b m)"
proof -
  show "psc_remaining (psc_go b v 1 (psc_go b v 0 s)) b d =
      (if bit v d \<and> psc_remaining s b d = 0 then 8 else psc_remaining s b d)"
    using less_2_cases [OF assms] by (auto simp: psc_go_remaining)
  assume "in_domain b d m"
  then have e: "in_domain b d' m = (d' = d)" for d' by (auto simp: in_domain_def)
  from less_2_cases [OF assms] show "psc_target (psc_go b v 1 (psc_go b v 0 s)) b m =
      (if bit v d \<and> psc_remaining s b d = 0 then (if always_enabled b m then 3 else psc_control s b m AND 3)
       else psc_target s b m)"
    unfolding psc_go_target psc_go_remaining psc_go_frame e by (elim disjE) simp_all
qed

text \<open>What the countdown does to the state: the status of the domain's modules and the time left.\<close>

lemma psc_go_countdown:
  assumes "psc_write s a v n True = Some s'" "psc_mapped a = Some (b, 0x120)"
    and "bit v d" "d < 2" "psc_remaining s b d = 0" "in_domain b d m"
  shows "(\<forall>k<8. psc_status ((psc_tick ^^ k) s') b m = psc_status s b m \<and> psc_remaining ((psc_tick ^^ k) s') b d = 8 - k) \<and>
    psc_status ((psc_tick ^^ 8) s') b m =
      status (if always_enabled b m then 3 else psc_control s b m AND 3) \<and>
    psc_remaining ((psc_tick ^^ 8) s') b d = 0"
proof -
  have s': "s' = psc_go b v 1 (psc_go b v 0 s)" by (rule psc_write_go [OF assms(2,1)])
  note b = psc_mapped_bank [OF assms(2)]
  note run = countdown.counting [OF psc_countdown [OF b assms(4)]]
    and fin = countdown.completes [OF psc_countdown [OF b assms(4)]]
  have r: "psc_remaining s' b d = 8"
    and t: "psc_target s' b m = (if always_enabled b m then 3 else psc_control s b m AND 3)"
    unfolding s' psc_go_both(1) [OF assms(4)] psc_go_both(2) [OF assms(4,6)] using assms(3,5) by simp_all
  have v: "psc_status u b m = psc_view b d u m" for u using assms(6) by (simp add: psc_view_def)
  have "psc_status ((psc_tick ^^ k) s') b m = psc_status s b m \<and> psc_remaining ((psc_tick ^^ k) s') b d = 8 - k" if "k < 8" for k
  proof -
    have "psc_view b d ((psc_tick ^^ k) s') = psc_view b d s'" "psc_remaining ((psc_tick ^^ k) s') b d = 8 - k"
      using run [of k s'] r that by simp_all
    then show ?thesis unfolding v by (simp add: psc_view_def s')
  qed
  moreover have "psc_view b d ((psc_tick ^^ 8) s') = psc_goal b d s'" "psc_remaining ((psc_tick ^^ 8) s') b d = 0"
    using fin [of s'] unfolding r by simp_all
  then have "psc_status ((psc_tick ^^ 8) s') b m =
      status (if always_enabled b m then 3 else psc_control s b m AND 3)"
    "psc_remaining ((psc_tick ^^ 8) s') b d = 0"
    unfolding v using assms(6) t by (simp_all add: psc_goal_def)
  ultimately show ?thesis by blast
qed

lemma psc_read_status:
  assumes "psc_mapped a = Some (b, 0x800 + 4 * of_nat m)" "m < 32" "populated b m"
  shows "psc_read s a = Some (psc_status s b m)"
proof -
  have "list_all (\<lambda>m. let off = 0x800 + 4 * of_nat m :: u32 in off \<noteq> 0x120 \<and> off \<noteq> 0x128 \<and> off \<ge> 0x800 \<and> off < 0x880 \<and>
    off < 0xA00 \<and> unat ((off AND 0x7F) div 4) = m) [0..<32]" by code_simp
  then have o: "let off = 0x800 + 4 * of_nat m :: u32 in off \<noteq> 0x120 \<and> off \<noteq> 0x128 \<and> off \<ge> 0x800 \<and> off < 0x880 \<and>
    off < 0xA00 \<and> unat ((off AND 0x7F) div 4) = m" unfolding list_all_iff by (rule bspec) (simp add: assms(2))
  define off where "off = (0x800 + 4 * of_nat m :: u32)"
  show ?thesis
    using o assms(1,3) unfolding off_def [symmetric] by (simp add: psc_read_def Let_def)
qed

lemma psc_read_busy:
  assumes "psc_mapped a = Some (b, 0x128)" "d < 2"
  shows "\<exists>w. psc_read s a = Some w \<and> (bit w d \<longleftrightarrow> psc_remaining s b d \<noteq> 0)"
  using assms(1) less_2_cases [OF assms(2)] by (auto simp: psc_read_def bit_simps)

text \<open>C27: A GO command takes effect after exactly eight ticks, as the registers show it. After a command to an
  idle domain PTSTAT reads the domain busy at once and for seven ticks, and meanwhile the status register of
  each populated module of the domain reads as before the command. At the eighth tick PTSTAT reads idle, and the
  status register names the state the module's control register asked for when the command was given (Enable
  for the modules restricted to it).\<close>

theorem psc_go_eight_ticks:
  assumes "psc_write s a v n True = Some s'" "psc_mapped a = Some (b, 0x120)"
    and "bit v d" "d < 2" "psc_remaining s b d = 0" "in_domain b d m"
    and "psc_mapped ptstat = Some (b, 0x128)" "psc_mapped mdstat = Some (b, 0x800 + 4 * of_nat m)"
  shows "(\<forall>k<8. (\<exists>w. psc_read ((psc_tick ^^ k) s') ptstat = Some w \<and> bit w d) \<and>
      psc_read ((psc_tick ^^ k) s') mdstat = psc_read s mdstat) \<and>
    (\<exists>w. psc_read ((psc_tick ^^ 8) s') ptstat = Some w \<and> \<not> bit w d) \<and>
    psc_read ((psc_tick ^^ 8) s') mdstat = Some (status (if always_enabled b m then 3 else psc_control s b m AND 3))"
proof -
  note c = psc_go_countdown [OF assms(1-6)]
  have m: "psc_read u mdstat = Some (psc_status u b m)" for u
    using psc_read_status [OF assms(8)] assms(6) by (simp add: in_domain_def)
  note busy = psc_read_busy [OF assms(7,4)]
  have "\<exists>w. psc_read ((psc_tick ^^ k) s') ptstat = Some w \<and> bit w d" if "k < 8" for k
  proof -
    have "psc_remaining ((psc_tick ^^ k) s') b d \<noteq> 0" using c that by auto
    then show ?thesis using busy [of "(psc_tick ^^ k) s'"] by blast
  qed
  moreover have "\<exists>w. psc_read ((psc_tick ^^ 8) s') ptstat = Some w \<and> \<not> bit w d"
    using busy [of "(psc_tick ^^ 8) s'"] c by auto
  ultimately show ?thesis using c by (auto simp: m)
qed

text \<open>The example enables module 3 of the first controller, disabled at reset.\<close>

theorem psc_go_eight_ticks_witness:
  "\<exists>s s'. psc_write psc_reset 0x01C10A0C 3 4 True = Some s \<and> psc_write s 0x01C10120 1 4 True = Some s' \<and>
     psc_read ((psc_tick ^^ 7) s') 0x01C1080C = Some (status 0) \<and> psc_read ((psc_tick ^^ 8) s') 0x01C1080C = Some (status 3) \<and>
     status 3 \<noteq> status 0"
proof -
  have m: "psc_mapped 0x01C10120 = Some (0, 0x120)" "psc_mapped 0x01C10128 = Some (0, 0x128)"
    "psc_mapped 0x01C1080C = Some (0, 0x800 + 4 * of_nat 3)" "psc_mapped 0x01C10A0C = Some (0, 0xA0C)"
    by (simp_all add: psc_mapped_def)
  obtain s where s: "psc_write psc_reset 0x01C10A0C 3 4 True = Some s"
      "s = psc_reset\<lparr>psc_control := (psc_control psc_reset)(0 := (psc_control psc_reset 0)(3 := 3))\<rparr>"
    by (simp add: psc_write_def m populated_def)
  obtain s' where s': "psc_write s 0x01C10120 1 4 True = Some s'" by (simp add: psc_write_def m)
  have d: "in_domain 0 0 3" "psc_remaining s 0 0 = 0" "psc_control s 0 3 = 3" "\<not> always_enabled 0 3"
    "psc_read s 0x01C1080C = Some (status 0)"
    by (simp_all add: s(2) in_domain_def populated_def domain_def psc_reset_def always_enabled_def
        psc_read_def psc_mapped_def)
  show ?thesis using psc_go_eight_ticks [OF s' m(1) _ _ d(2,1) m(2,3)] d s(1) s' by (auto simp: status_def)
qed

text \<open>A GO command to a busy domain is accepted and ignored: it neither restarts the countdown nor
  changes the states it will set.\<close>

theorem psc_busy_go_ignored:
  assumes "psc_write s a v n True = Some s'" "psc_mapped a = Some (b, 0x120)"
    and "d < 2" "psc_remaining s b d \<noteq> 0" "in_domain b d m"
  shows "psc_remaining s' b d = psc_remaining s b d \<and> psc_target s' b m = psc_target s b m \<and>
    psc_status s' b m = psc_status s b m"
  unfolding psc_write_go [OF assms(2,1)]
  using assms(4) by (simp add: psc_go_both(1) [OF assms(3)] psc_go_both(2) [OF assms(3,5)] del: One_nat_def)

theorem psc_busy_go_ignored_witness:
  "psc_remaining (the (psc_write (psc_reset\<lparr>psc_remaining := \<lambda>_ _. 5\<rparr>) 0x01C10120 1 4 True)) 0 0 = 5"
proof -
  let ?s = "psc_reset\<lparr>psc_remaining := \<lambda>_ _. 5\<rparr>"
  have m: "psc_mapped 0x01C10120 = Some (0, 0x120)" by (simp add: psc_mapped_def)
  have *: "psc_write ?s 0x01C10120 1 4 True = Some (the (psc_write ?s 0x01C10120 1 4 True))"
    by (simp add: psc_write_def m)
  have "in_domain 0 0 3" by (simp add: in_domain_def populated_def domain_def)
  then show ?thesis using psc_busy_go_ignored [OF * m, of 0 3] by simp
qed

section \<open>Reachable controllers\<close>

inductive psc_reach :: "psc \<Rightarrow> bool" where
  reset: "psc_reach psc_reset"
| tick: "psc_reach s \<Longrightarrow> psc_reach (psc_tick s)"
| mmio: "psc_reach s \<Longrightarrow> psc_write s a v n c = Some s' \<Longrightarrow> psc_reach s'"

text \<open>The modules that are held in Enable: those restricted to it, and the DSP itself.\<close>

definition held_enabled :: "nat \<Rightarrow> nat \<Rightarrow> bool" where
  "held_enabled b m \<longleftrightarrow> b < 2 \<and> m < 32 \<and> populated b m \<and> (always_enabled b m \<or> b = 0 \<and> m = 15)"

definition psc_inv :: "psc \<Rightarrow> bool" where
  "psc_inv s \<longleftrightarrow> psc_control s 0 15 = 0x103 \<and>
     (\<forall>b m. held_enabled b m \<longrightarrow> psc_status s b m = status 3 \<and>
        (psc_remaining s b (domain b m) \<noteq> 0 \<longrightarrow> psc_target s b m = 3)) \<and>
     (\<forall>b d. psc_remaining s b d \<le> 8)"

lemma held_in_domain: "held_enabled b m \<Longrightarrow> in_domain b (domain b m) m \<and> b < 2 \<and> domain b m < 2"
  by (auto simp: held_enabled_def in_domain_def domain_def)

lemma psc_inv_reset: "psc_inv psc_reset"
  by (auto simp: psc_inv_def psc_reset_def held_enabled_def populated_def)

lemma psc_inv_tick:
  assumes "psc_inv s"
  shows "psc_inv (psc_tick s)"
proof -
  have "psc_remaining (psc_tick s) b d \<le> 8" for b d
    using assms unfolding psc_inv_def psc_tick_def
    by (auto simp: tick_one_remaining intro: order_trans [OF diff_le_self])
  moreover have "psc_status (psc_tick s) b m = status 3 \<and>
        (psc_remaining (psc_tick s) b (domain b m) \<noteq> 0 \<longrightarrow> psc_target (psc_tick s) b m = 3)" if h: "held_enabled b m" for b m
    using assms h held_in_domain [OF h] by (auto simp: psc_inv_def psc_tick_status psc_tick_remaining)
  ultimately show ?thesis using assms unfolding psc_inv_def by auto
qed

lemma psc_inv_go:
  assumes "psc_inv s"
  shows "psc_inv (psc_go b v d s)"
proof -
  have t: "psc_target (psc_go b v d s) b' m = 3"
    if h: "held_enabled b' m" "psc_remaining (psc_go b v d s) b' (domain b' m) \<noteq> 0" for b' m
  proof (cases "b' = b \<and> in_domain b d m \<and> bit v d \<and> psc_remaining s b d = 0")
    case True
    then show ?thesis using h(1) assms
      by (auto simp: psc_go_target held_enabled_def psc_inv_def)
  next
    case False
    then have "psc_remaining s b' (domain b' m) \<noteq> 0"
      using h(2) held_in_domain [OF h(1)] by (auto simp: psc_go_remaining split: if_splits)
    then show ?thesis using False h(1) assms by (auto simp: psc_go_target psc_inv_def)
  qed
  then show ?thesis using assms unfolding psc_inv_def by (auto simp: psc_go_remaining)
qed

lemma psc_write_cases:
  assumes "psc_write s a v n True = Some s'"
  obtains (control) b m where "s' = s\<lparr>psc_control := (psc_control s)(b := (psc_control s b)(m := ucast v))\<rparr>"
      "b = 0 \<and> m = 15 \<longrightarrow> v = 0x103"
    | (go) b where "s' = psc_go b v 1 (psc_go b v 0 s)"
  using assms unfolding psc_write_def Let_def
  by (auto split: option.splits if_splits)

lemma psc_inv_write:
  assumes "psc_inv s" "psc_write s a v n True = Some s'"
  shows "psc_inv s'"
  using assms(2)
proof (cases rule: psc_write_cases)
  case (control b m)
  then show ?thesis using assms(1) by (auto simp: psc_inv_def)
next
  case (go b)
  then show ?thesis using psc_inv_go [OF psc_inv_go [OF assms(1)]] by simp
qed

interpretation psc_mmio: mmio_port_inv psc_write psc_inv
  by unfold_locales (rule psc_inv_write)

lemma psc_reach_inv: "psc_reach s \<Longrightarrow> psc_inv s"
  by (induction rule: psc_reach.induct) (auto intro: psc_inv_reset psc_inv_tick psc_mmio.inv_any)

text \<open>Nothing turns off a module the controllers must keep enabled. In every reachable state the
  modules restricted to Enable, and the DSP with its local reset released, report the
  Enable status, the DSP's control register holds 103h, and no countdown exceeds eight.\<close>

theorem psc_enabled_modules_stay:
  assumes "psc_reach s" "b < 2" "m < 32" "populated b m" "always_enabled b m \<or> b = 0 \<and> m = 15"
  shows "psc_status s b m = status 3 \<and> psc_control s 0 15 = 0x103 \<and> psc_remaining s b (domain b m) \<le> 8"
  using psc_reach_inv [OF assms(1)] assms(2-5) by (auto simp: psc_inv_def held_enabled_def)

theorem psc_enabled_modules_stay_witness:
  "psc_status (psc_tick psc_reset) 0 15 = status 3"
  using psc_enabled_modules_stay [OF psc_reach.tick [OF psc_reach.reset], of 0 15]
  by (simp add: populated_def)

end
