(* ===== verification/C6747_Syscfg.thy ===== *)
theory C6747_Syscfg
  imports Bus_Contract
begin

text \<open>
  \<^verbatim>\<open>emulator/qemu/cdj_c6747_syscfg.c\<close>: the system configuration registers behind the
  KICK lock, and the bus-master priority registers that share the lock. Protection is
  evaluated when a store commits: a locked store is accepted and changes nothing.
\<close>

section \<open>State and registers\<close>

record syscfg =
  kick :: "nat \<Rightarrow> u32"
  pinmux :: "nat \<Rightarrow> u32"
  cfgchip :: "nat \<Rightarrow> u32"
  amute_clear_pulses :: u32
  unlocked :: bool

abbreviation KICK0 :: u32 where "KICK0 \<equiv> 0x01C14038"
abbreviation KICK1 :: u32 where "KICK1 \<equiv> 0x01C1403C"
abbreviation PINMUX0 :: u32 where "PINMUX0 \<equiv> 0x01C14120"
abbreviation CFGCHIP0 :: u32 where "CFGCHIP0 \<equiv> 0x01C1417C"
abbreviation MSTPRI0 :: u32 where "MSTPRI0 \<equiv> 0x01C14110"
abbreviation KEY0 :: u32 where "KEY0 \<equiv> 0x83E70B13"
abbreviation KEY1 :: u32 where "KEY1 \<equiv> 0x95A4F1E0"

definition pinmux_address :: "u32 \<Rightarrow> bool" where
  "pinmux_address address \<longleftrightarrow> address \<ge> PINMUX0 \<and> address \<le> PINMUX0 + 19 * 4 \<and> address AND 3 = 0"

definition syscfg_reset :: syscfg where
  "syscfg_reset = \<lparr>kick = (\<lambda>_. 0), pinmux = (\<lambda>_. 0), cfgchip = (\<lambda>_. 0)(2 := 0xEF00, 3 := 0xFF00),
     amute_clear_pulses = 0, unlocked = False\<rparr>"

definition cfgchip_address :: "u32 \<Rightarrow> bool" where
  "cfgchip_address address \<longleftrightarrow> address \<ge> CFGCHIP0 \<and> address \<le> CFGCHIP0 + 16 \<and> address AND 3 = 0"

definition syscfg_read :: "syscfg \<Rightarrow> u32 \<Rightarrow> u32 option" where
  "syscfg_read s address =
     (if pinmux_address address then Some (pinmux s (unat ((address - PINMUX0) div 4)))
      else if cfgchip_address address then
        (let index = unat ((address - CFGCHIP0) div 4)
         in Some (if index = 4 then 0 else cfgchip s index))
      else if address \<noteq> KICK0 \<and> address \<noteq> KICK1 then None
      else Some (kick s (unat ((address - KICK0) div 4))))"

text \<open>The field checks of a CFGCHIP write, in the order of the code.\<close>

definition cfgchip_legal :: "nat \<Rightarrow> u32 \<Rightarrow> bool" where
  "cfgchip_legal index v =
     (if index = 0 \<and> (v AND NOT 0x1F \<noteq> 0 \<or> v AND 3 = 3 \<or> shr v 2 AND 3 = 3) then False
      else if index = 1 \<and> (v AND 0x6000 \<noteq> 0 \<or> v AND 15 > 8 \<or> shr v 4 AND 15 > 8 \<or> shr v 8 AND 15 > 8 \<or>
          shr v 17 AND 31 > 0x12 \<or> shr v 22 AND 31 > 0x12 \<or> shr v 27 AND 31 > 0x12) then False
      else if index = 2 \<and> (v AND 0xFFFC0000 \<noteq> 0 \<or> v AND 15 > 9) then False
      else if (index = 3 \<or> index = 4) \<and> (v AND NOT 0xFF07 \<noteq> 0 \<or> v AND 0xFF00 \<noteq> 0xFF00) then False
      else True)"

definition cfgchip_commit :: "syscfg \<Rightarrow> nat \<Rightarrow> u32 \<Rightarrow> syscfg" where
  "cfgchip_commit s index v =
     (if index < 4 then
        s\<lparr>cfgchip := (cfgchip s)(index := (if index = 2 then v AND 0xFFFF else v))\<rparr>
      else s\<lparr>amute_clear_pulses := amute_clear_pulses s OR (v AND 7)\<rparr>)"

definition kick_commit :: "syscfg \<Rightarrow> nat \<Rightarrow> u32 \<Rightarrow> syscfg" where
  "kick_commit s index v =
     (let s = s\<lparr>kick := (kick s)(index := v)\<rparr>
      in if v \<noteq> (if index \<noteq> 0 then KEY1 else KEY0) then s\<lparr>unlocked := False\<rparr>
         else if index \<noteq> 0 \<and> kick s 0 = KEY0 then s\<lparr>unlocked := True\<rparr>
         else s)"

definition syscfg_write :: "syscfg \<Rightarrow> u32 \<Rightarrow> u64 \<Rightarrow> nat \<Rightarrow> bool \<Rightarrow> syscfg option" where
  "syscfg_write s address value sz commit =
     (if sz = 4 \<and> cfgchip_address address then
        (let index = unat ((address - CFGCHIP0) div 4); v = ucast value
         in if value > 0xFFFFFFFF then None
            else if \<not> cfgchip_legal index v then None
            else Some (if commit \<and> unlocked s then cfgchip_commit s index v else s))
      else if sz = 4 \<and> pinmux_address address then
        (if address = PINMUX0 + 19 * 4 \<and> value AND 0xFFFFFFF0 \<noteq> 0 then None
         else Some (if commit \<and> unlocked s
           then s\<lparr>pinmux := (pinmux s)(unat ((address - PINMUX0) div 4) := ucast value)\<rparr> else s))
      else if sz \<noteq> 4 \<or> (address \<noteq> KICK0 \<and> address \<noteq> KICK1) then None
      else if \<not> commit then Some s
      else Some (kick_commit s (unat ((address - KICK0) div 4)) (ucast value)))"

definition syscfg_pll_locked :: "syscfg \<Rightarrow> bool" where
  "syscfg_pll_locked s \<longleftrightarrow> cfgchip s 0 AND 16 \<noteq> 0"

section \<open>Bus-master priorities\<close>

definition mstpri_reset :: "nat \<Rightarrow> u32" where
  "mstpri_reset i = [0x44442222, 0x44440000, 0x54604404] ! i"

definition mstpri_writable :: "nat \<Rightarrow> u32" where
  "mstpri_writable i = [0x00007700, 0x00007777, 0x77707707] ! i"

text \<open>\<open>CdjC6747SyscfgPriority\<close> is the array of the three registers.\<close>

type_synonym mstpri = "nat \<Rightarrow> u32"

definition priority_reset :: "mstpri \<Rightarrow> mstpri" where
  "priority_reset s = (\<lambda>i. if i < 3 then mstpri_reset i else s i)"

fun priority_valid_from :: "nat list \<Rightarrow> mstpri \<Rightarrow> bool" where
  "priority_valid_from [] s = True"
| "priority_valid_from (i # is) s =
     (if s i AND NOT (mstpri_writable i) \<noteq> mstpri_reset i AND NOT (mstpri_writable i) then False
      else priority_valid_from is s)"

definition priority_valid :: "mstpri \<Rightarrow> bool" where
  "priority_valid s = priority_valid_from [0, 1, 2] s"

definition mstpri_address :: "u32 \<Rightarrow> bool" where
  "mstpri_address address \<longleftrightarrow> \<not> (address < MSTPRI0 \<or> address > MSTPRI0 + 8 \<or> (address - MSTPRI0) AND 3 \<noteq> 0)"

definition priority_read :: "mstpri \<Rightarrow> u32 \<Rightarrow> u32 option" where
  "priority_read s address =
     (if \<not> mstpri_address address then None else Some (s (unat ((address - MSTPRI0) div 4))))"

definition priority_write :: "mstpri \<Rightarrow> syscfg \<Rightarrow> u32 \<Rightarrow> u64 \<Rightarrow> nat \<Rightarrow> bool \<Rightarrow> mstpri option" where
  "priority_write s cfg address value sz commit =
     (if sz \<noteq> 4 \<or> value > 0xFFFFFFFF \<or> \<not> mstpri_address address then None
      else
        (let index = unat ((address - MSTPRI0) div 4); v = ucast value
         in if v AND NOT (mstpri_writable index) \<noteq> mstpri_reset index AND NOT (mstpri_writable index) then None
            else Some (if commit \<and> unlocked cfg then s(index := v) else s)))"

section \<open>The write contract\<close>

interpretation syscfg_mmio: mmio_port_stable syscfg_write
  by unfold_locales (auto simp: syscfg_write_def Let_def split: if_splits)

interpretation priority_mmio: mmio_port_stable "\<lambda>s. priority_write s cfg"
  by unfold_locales (auto simp: priority_write_def Let_def split: if_splits)

lemma priority_valid_iff:
  "priority_valid s \<longleftrightarrow> (\<forall>i<3. s i AND NOT (mstpri_writable i) = mstpri_reset i AND NOT (mstpri_writable i))"
proof -
  have "i < 3 \<longleftrightarrow> i = 0 \<or> i = 1 \<or> i = (2 :: nat)" for i by auto
  then show ?thesis by (auto simp: priority_valid_def)
qed

lemma priority_valid_write:
  "priority_valid s \<Longrightarrow> priority_write s cfg a v n True = Some s' \<Longrightarrow> priority_valid s'"
  by (auto simp: priority_valid_iff priority_write_def Let_def split: if_splits)

interpretation priority_mmio: mmio_port_inv "\<lambda>s. priority_write s cfg" priority_valid
  by unfold_locales (rule priority_valid_write)

section \<open>The lock\<close>

text \<open>Legal contents of the chip configuration registers, and the meaning of the lock: it is open
  only while both key registers hold their keys.\<close>

definition syscfg_inv :: "syscfg \<Rightarrow> bool" where
  "syscfg_inv s \<longleftrightarrow> (unlocked s \<longrightarrow> kick s 0 = KEY0 \<and> kick s 1 = KEY1) \<and>
     (\<forall>i<4. cfgchip_legal i (cfgchip s i)) \<and> cfgchip s 2 AND 0xFFFF0000 = 0 \<and>
     pinmux s 19 AND 0xFFFFFFF0 = 0 \<and> amute_clear_pulses s AND NOT 7 = 0"

lemma syscfg_inv_reset: "syscfg_inv syscfg_reset"
proof -
  have "i < 4 \<Longrightarrow> cfgchip_legal i (cfgchip syscfg_reset i)" for i
    by (auto simp: syscfg_reset_def cfgchip_legal_def dest!: less_4_cases)
  then show ?thesis by (simp add: syscfg_inv_def) (simp add: syscfg_reset_def)
qed

lemma kick_index: "a = KICK0 \<or> a = KICK1 \<Longrightarrow> unat ((a - KICK0) div 4) = (if a = KICK0 then 0 else 1)"
  by auto

lemma cfgchip_index:
  assumes "cfgchip_address a"
  shows "unat ((a - CFGCHIP0) div 4) \<le> 4"
proof -
  have "unat (a - CFGCHIP0) \<le> 16"
    using assms by (simp add: cfgchip_address_def word_le_nat_alt unat_sub) linarith
  then show ?thesis by (simp add: unat_div_distrib)
qed

lemma syscfg_inv_kick: "syscfg_inv s \<Longrightarrow> syscfg_inv (kick_commit s index v)" if "index \<le> 1"
  using that by (cases "index = 0") (auto simp: syscfg_inv_def kick_commit_def Let_def le_Suc_eq)

lemma cfgchip_2_masked: "cfgchip_legal 2 v \<Longrightarrow> cfgchip_legal 2 (v AND 0xFFFF) \<and> (v AND 0xFFFF) AND 0xFFFF0000 = 0"
proof -
  assume l: "cfgchip_legal 2 v"
  have "(v AND 0xFFFF) AND 0xFFFC0000 = 0" "(v AND 0xFFFF) AND 15 = v AND 15" "(v AND 0xFFFF) AND 0xFFFF0000 = 0"
    by (simp_all add: and.assoc)
  with l show ?thesis unfolding cfgchip_legal_def by (auto split: if_splits)
qed

lemma syscfg_inv_cfgchip:
  assumes "syscfg_inv s" "cfgchip_legal index v" "index \<le> 4"
  shows "syscfg_inv (cfgchip_commit s index v)"
proof -
  have a: "(amute_clear_pulses s OR (v AND 7)) AND NOT 7 = 0" if "amute_clear_pulses s AND NOT 7 = 0"
    unfolding bit.conj_disj_distrib2 that and.assoc bit.conj_cancel_right by simp
  show ?thesis
  proof (cases "index = 2")
    case True
    then show ?thesis using assms cfgchip_2_masked [of v] by (auto simp: syscfg_inv_def cfgchip_commit_def)
  next
    case False
    then show ?thesis using assms a by (auto simp: syscfg_inv_def cfgchip_commit_def)
  qed
qed

lemma pinmux_index:
  assumes "pinmux_address a" "unat ((a - PINMUX0) div 4) = 19"
  shows "a = PINMUX0 + 19 * 4"
proof -
  have r: "unat (a - PINMUX0) \<le> 76" "unat PINMUX0 \<le> unat a"
    using assms(1) by (simp_all add: pinmux_address_def word_le_nat_alt unat_sub, linarith)
  moreover have "unat (a - PINMUX0) div 4 = 19" using assms(2) by (simp add: unat_div_distrib)
  ultimately have "unat (a - PINMUX0) = 76" by linarith
  then have "a - PINMUX0 = 76" using unsigned_word_eqI [of "a - PINMUX0" "76"] by simp
  then have "a = PINMUX0 + 76" by (simp add: algebra_simps)
  then show ?thesis by simp
qed

lemma syscfg_write_cases:
  assumes "syscfg_write s a v n True = Some s'"
  obtains (cfg) index where "cfgchip_address a" "n = 4" "cfgchip_legal index (ucast v)" "index \<le> 4"
      "s' = (if unlocked s then cfgchip_commit s index (ucast v) else s)"
    | (pin) index where "pinmux_address a" "n = 4" "index = 19 \<longrightarrow> v AND 0xFFFFFFF0 = 0"
      "s' = (if unlocked s then s\<lparr>pinmux := (pinmux s)(index := ucast v)\<rparr> else s)"
    | (kick) index where "a = KICK0 \<and> index = 0 \<or> a = KICK1 \<and> index = 1" "s' = kick_commit s index (ucast v)"
proof (cases "n = 4 \<and> cfgchip_address a")
  case True
  then show ?thesis using assms cfgchip_index [of a] cfg
    by (auto simp: syscfg_write_def Let_def split: if_splits)
next
  case nc: False
  show ?thesis
  proof (cases "n = 4 \<and> pinmux_address a")
    case True
    have "\<not> (a = PINMUX0 + 19 * 4 \<and> v AND 0xFFFFFFF0 \<noteq> 0)"
      "s' = (if unlocked s then s\<lparr>pinmux := (pinmux s)(unat ((a - PINMUX0) div 4) := ucast v)\<rparr> else s)"
      using assms nc True unfolding syscfg_write_def by (auto simp del: fun_upd_apply split: if_splits)
    then show ?thesis using True pinmux_index [of a] pin by blast
  next
    case False
    then have k: "a = KICK0 \<or> a = KICK1" "s' = kick_commit s (unat ((a - KICK0) div 4)) (ucast v)"
      using assms nc unfolding syscfg_write_def by (auto split: if_splits)
    then show ?thesis using kick [of "if a = KICK0 then 0 else 1"] kick_index [OF k(1)] by auto
  qed
qed

lemma syscfg_inv_write:
  assumes "syscfg_inv s" "syscfg_write s a v n True = Some s'"
  shows "syscfg_inv s'"
  using assms(2)
proof (cases rule: syscfg_write_cases)
  case (cfg index)
  then show ?thesis using assms(1) syscfg_inv_cfgchip by simp
next
  case (pin index)
  have "(ucast v :: u32) AND 0xFFFFFFF0 = 0" if "v AND 0xFFFFFFF0 = 0"
  proof -
    have "(ucast v :: u32) AND 0xFFFFFFF0 = ucast (v AND 0xFFFFFFF0)"
      by (rule bit_word_eqI) (auto simp: bit_simps)
    then show ?thesis using that by simp
  qed
  then show ?thesis using assms(1) pin by (auto simp: syscfg_inv_def)
next
  case (kick index)
  then show ?thesis using assms(1) syscfg_inv_kick [of index s] by auto
qed

interpretation syscfg_mmio: mmio_port_inv syscfg_write syscfg_inv
  by unfold_locales (rule syscfg_inv_write)

section \<open>Properties\<close>

inductive syscfg_reach :: "syscfg \<Rightarrow> bool" where
  reset: "syscfg_reach syscfg_reset"
| mmio: "syscfg_reach s \<Longrightarrow> syscfg_write s a v n c = Some s' \<Longrightarrow> syscfg_reach s'"

lemma syscfg_reach_inv: "syscfg_reach s \<Longrightarrow> syscfg_inv s"
  by (induction rule: syscfg_reach.induct) (auto intro: syscfg_inv_reset syscfg_mmio.inv_any)

text \<open>In every reachable configuration the registers hold legal contents, their reserved and
  read-only bits are clear, and the lock is open only while KICK0 and KICK1 both hold their
  keys.\<close>

theorem syscfg_reachable_legal:
  assumes "syscfg_reach s"
  shows "(unlocked s \<longrightarrow> kick s 0 = KEY0 \<and> kick s 1 = KEY1) \<and>
    (\<forall>i<4. cfgchip_legal i (cfgchip s i)) \<and> cfgchip s 2 AND 0xFFFF0000 = 0 \<and>
    pinmux s 19 AND 0xFFFFFFF0 = 0 \<and> amute_clear_pulses s AND NOT 7 = 0"
  using syscfg_reach_inv [OF assms] unfolding syscfg_inv_def .

theorem syscfg_reachable_legal_witness:
  "cfgchip_legal 2 (cfgchip syscfg_reset 2) \<and> syscfg_reach syscfg_reset"
  using syscfg_reachable_legal [OF syscfg_reach.reset] syscfg_reach.reset by simp

text \<open>C35: The KICK protocol. Writing the first key and then the second opens the lock from any state;
  any other value in either register closes it; while it is closed every accepted write to a
  pin multiplexing or chip configuration register leaves the whole state unchanged, and so
  does a priority write.\<close>

theorem syscfg_kick_protocol:
  "(\<exists>s1 s2. syscfg_write s KICK0 (ucast KEY0) 4 True = Some s1 \<and>
      syscfg_write s1 KICK1 (ucast KEY1) 4 True = Some s2 \<and> unlocked s2 \<and>
      cfgchip s2 = cfgchip s \<and> pinmux s2 = pinmux s) \<and>
   (ucast v = KEY0 \<or> \<not> unlocked (the (syscfg_write s KICK0 v 4 True))) \<and>
   (ucast v = KEY1 \<or> \<not> unlocked (the (syscfg_write s KICK1 v 4 True))) \<and>
   (unlocked s \<or> (a = KICK0 \<or> a = KICK1 \<or> syscfg_write s a v n True \<in> {None, Some s})) \<and>
   (unlocked s \<or> priority_write p s a v n True \<in> {None, Some p})"
proof (intro conjI)
  have a: "\<not> cfgchip_address KICK0" "\<not> pinmux_address KICK0" "\<not> cfgchip_address KICK1" "\<not> pinmux_address KICK1"
    by (simp_all add: cfgchip_address_def pinmux_address_def)
  have k: "syscfg_write t KICK0 w 4 True = Some (kick_commit t 0 (ucast w))"
    "syscfg_write t KICK1 w 4 True = Some (kick_commit t 1 (ucast w))" for t w
    using a by (simp_all add: syscfg_write_def)
  have u: "ucast (ucast w :: u64) = (w :: u32)" for w by (rule bit_word_eqI) (simp add: bit_simps)
  show "\<exists>s1 s2. syscfg_write s KICK0 (ucast KEY0) 4 True = Some s1 \<and>
      syscfg_write s1 KICK1 (ucast KEY1) 4 True = Some s2 \<and> unlocked s2 \<and>
      cfgchip s2 = cfgchip s \<and> pinmux s2 = pinmux s"
    unfolding k option.inject u by (auto simp: kick_commit_def Let_def)
  show "ucast v = KEY0 \<or> \<not> unlocked (the (syscfg_write s KICK0 v 4 True))"
    "ucast v = KEY1 \<or> \<not> unlocked (the (syscfg_write s KICK1 v 4 True))"
    unfolding k by (auto simp: kick_commit_def Let_def)
  show "unlocked s \<or> (a = KICK0 \<or> a = KICK1 \<or> syscfg_write s a v n True \<in> {None, Some s})"
  proof (cases "syscfg_write s a v n True")
    case (Some s')
    then have "unlocked s \<or> a = KICK0 \<or> a = KICK1 \<or> s' = s"
      by (cases rule: syscfg_write_cases) auto
    with Some show ?thesis by auto
  qed simp
  show "unlocked s \<or> priority_write p s a v n True \<in> {None, Some p}"
    by (auto simp: priority_write_def Let_def)
qed

theorem syscfg_kick_protocol_witness:
  "\<not> unlocked (the (syscfg_write syscfg_reset KICK0 1 4 True)) \<and>
     syscfg_write syscfg_reset PINMUX0 0x11 4 True \<in> {None, Some syscfg_reset}"
proof -
  have "\<not> unlocked syscfg_reset" "(ucast (1 :: u64) :: u32) \<noteq> KEY0" "PINMUX0 \<noteq> KICK0" "PINMUX0 \<noteq> KICK1"
    by (simp_all add: syscfg_reset_def)
  moreover have "ucast (1 :: u64) = KEY0 \<or> \<not> unlocked (the (syscfg_write syscfg_reset KICK0 1 4 True))"
    using syscfg_kick_protocol [of syscfg_reset 1] by blast
  moreover have "unlocked syscfg_reset \<or> (PINMUX0 = KICK0 \<or> PINMUX0 = KICK1 \<or>
      syscfg_write syscfg_reset PINMUX0 0x11 4 True \<in> {None, Some syscfg_reset})"
    using syscfg_kick_protocol [of syscfg_reset "0x11" PINMUX0 4] by blast
  ultimately show ?thesis by blast
qed

text \<open>No queue of priority stores, whatever their values and the state of the lock, changes a bit
  of the bus-master priority registers outside the writable fields, and a queue of
  stores that passed their checks commits completely.\<close>

theorem priority_stores_keep_reserved:
  assumes "\<forall>st\<in>set sts. \<exists>s0. check_store (\<lambda>s. priority_write s cfg) s0 st"
  shows "\<exists>s'. commit_all (\<lambda>s. priority_write s cfg) (priority_reset s) sts = Some s' \<and>
    (\<forall>i<3. s' i AND NOT (mstpri_writable i) = mstpri_reset i AND NOT (mstpri_writable i))"
proof -
  obtain s' where s': "commit_all (\<lambda>s. priority_write s cfg) (priority_reset s) sts = Some s'"
    using priority_mmio.queued_stores_commit [of sts cfg] assms by blast
  have "priority_valid (priority_reset s)" by (simp add: priority_valid_iff priority_reset_def)
  then have "priority_valid s'" by (rule priority_mmio.inv_commit_all [OF _ s'])
  then show ?thesis using s' by (simp add: priority_valid_iff)
qed

theorem priority_stores_keep_reserved_witness:
  "\<exists>s'. commit_all (\<lambda>s. priority_write s (syscfg_reset\<lparr>unlocked := True\<rparr>)) (priority_reset (\<lambda>_. 0))
     [\<lparr>st_address = MSTPRI0, st_value = 0x44443322, st_size = 4\<rparr>] = Some s' \<and>
     s' 2 AND NOT (mstpri_writable 2) = mstpri_reset 2 AND NOT (mstpri_writable 2)"
proof -
  let ?c = "syscfg_reset\<lparr>unlocked := True\<rparr>"
  have "check_store (\<lambda>s. priority_write s ?c) (\<lambda>_. 0) \<lparr>st_address = MSTPRI0, st_value = 0x44443322, st_size = 4\<rparr>"
    by (simp add: check_store_def priority_write_def mstpri_address_def mstpri_writable_def mstpri_reset_def)
  then have "\<forall>st\<in>set [\<lparr>st_address = MSTPRI0, st_value = 0x44443322, st_size = 4\<rparr>].
      \<exists>s0. check_store (\<lambda>s. priority_write s ?c) s0 st" by auto
  from priority_stores_keep_reserved [OF this, of "\<lambda>_. 0"] show ?thesis
    by (elim exE conjE) (rule exI, rule conjI, assumption, simp)
qed

end
