(* ===== verification/C6747_Gpio.thy ===== *)
theory C6747_Gpio
  imports Bus_Contract
begin

text \<open>
  \<^verbatim>\<open>emulator/qemu/cdj_c6747_gpio.c\<close>: eight banks of sixteen pins, two banks per
  register. A direction bit of one means input.
\<close>

section \<open>State and operations\<close>

record gpio =
  gp_dir :: "nat \<Rightarrow> u32"
  gp_output :: "nat \<Rightarrow> u32"
  gp_input :: "nat \<Rightarrow> u32"
  gp_rising :: "nat \<Rightarrow> u32"
  gp_falling :: "nat \<Rightarrow> u32"
  gp_binten :: u32

text \<open>The register pair and the offset of an address.\<close>

definition gpio_locate :: "u32 \<Rightarrow> (nat \<times> nat) option" where
  "gpio_locate address =
     (if address < 0x01E26010 \<or> address \<ge> 0x01E260B0 \<or> address AND 3 \<noteq> 0 then None
      else Some (unat ((address - 0x01E26010) div 0x28), unat ((address - 0x01E26010) mod 0x28)))"

definition gpio_reset :: gpio where
  "gpio_reset = \<lparr>gp_dir = (\<lambda>p. if p < 4 then 0xFFFFFFFF else 0), gp_output = (\<lambda>_. 0), gp_input = (\<lambda>_. 0),
     gp_rising = (\<lambda>_. 0), gp_falling = (\<lambda>_. 0), gp_binten = 0\<rparr>"

definition gpio_set_input :: "gpio \<Rightarrow> nat \<Rightarrow> nat \<Rightarrow> bool \<Rightarrow> gpio option" where
  "gpio_set_input s bank pin high =
     (if bank \<ge> 8 \<or> pin \<ge> 16 then None
      else
        (let pair = bank div 2; k = pin + (bank mod 2) * 16
         in Some (s\<lparr>gp_input := (gp_input s)(pair :=
              if high then gp_input s pair OR shl 1 k else gp_input s pair AND NOT (shl 1 k))\<rparr>)))"

definition gpio_read :: "gpio \<Rightarrow> u32 \<Rightarrow> u32 option" where
  "gpio_read s address =
     (if address = 0x01E26008 then Some (gp_binten s)
      else case gpio_locate address of None \<Rightarrow> None
      | Some (p, off) \<Rightarrow>
          if off = 0 then Some (gp_dir s p)
          else if off = 4 \<or> off = 8 \<or> off = 12 then Some (gp_output s p)
          else if off = 16 then
            Some ((gp_output s p AND NOT (gp_dir s p)) OR (gp_input s p AND gp_dir s p))
          else if off = 20 \<or> off = 24 then Some (gp_rising s p)
          else if off = 28 \<or> off = 32 then Some (gp_falling s p)
          else None)"

definition gpio_commit :: "gpio \<Rightarrow> nat \<Rightarrow> nat \<Rightarrow> u32 \<Rightarrow> gpio" where
  "gpio_commit s p off v =
     (if off = 0 then s\<lparr>gp_dir := (gp_dir s)(p := v)\<rparr>
      else if off = 4 then s\<lparr>gp_output := (gp_output s)(p := v)\<rparr>
      else if off = 8 then s\<lparr>gp_output := (gp_output s)(p := gp_output s p OR v)\<rparr>
      else if off = 12 then s\<lparr>gp_output := (gp_output s)(p := gp_output s p AND NOT v)\<rparr>
      else if off = 20 then s\<lparr>gp_rising := (gp_rising s)(p := gp_rising s p OR v)\<rparr>
      else if off = 24 then s\<lparr>gp_rising := (gp_rising s)(p := gp_rising s p AND NOT v)\<rparr>
      else if off = 28 then s\<lparr>gp_falling := (gp_falling s)(p := gp_falling s p OR v)\<rparr>
      else if off = 32 then s\<lparr>gp_falling := (gp_falling s)(p := gp_falling s p AND NOT v)\<rparr>
      else s)"

definition gpio_write :: "gpio \<Rightarrow> u32 \<Rightarrow> u64 \<Rightarrow> nat \<Rightarrow> bool \<Rightarrow> gpio option" where
  "gpio_write s address value sz commit =
     (if sz \<noteq> 4 \<or> value > 0xFFFFFFFF then None
      else if address = 0x01E26008 then
        (if value AND ucast (NOT 255 :: u32) \<noteq> 0 then None
         else Some (if commit then s\<lparr>gp_binten := ucast value\<rparr> else s))
      else case gpio_locate address of None \<Rightarrow> None
      | Some (p, off) \<Rightarrow>
          if off = 16 \<or> off = 36 then None
          else Some (if commit then gpio_commit s p off (ucast value) else s))"

interpretation gpio_mmio: mmio_port_stable gpio_write
  by unfold_locales (auto simp: gpio_write_def split: if_splits option.splits prod.splits)

section \<open>Properties\<close>

text \<open>The address of register \<open>off\<close> of pair \<open>p\<close>.\<close>

definition gpio_address :: "nat \<Rightarrow> nat \<Rightarrow> u32" where
  "gpio_address p off = of_nat (0x01E26010 + p * 0x28 + off)"

lemma gpio_locate_address:
  assumes "p < 4" "off \<in> {0, 4, 8, 12, 16, 20, 24, 28, 32, 36}"
  shows "gpio_locate (gpio_address p off) = Some (p, off)"
  using less_4_cases [OF assms(1)] assms(2)
  by (elim disjE insertE emptyE) (simp_all add: gpio_locate_def gpio_address_def)

lemma gpio_address_neq: "gpio_locate a \<noteq> None \<Longrightarrow> a \<noteq> 0x01E26008"
  by (auto simp: gpio_locate_def)

lemma gpio_read_at:
  "gpio_locate a = Some (p, 16) \<Longrightarrow>
     gpio_read s a = Some ((gp_output s p AND NOT (gp_dir s p)) OR (gp_input s p AND gp_dir s p))"
  using gpio_address_neq [of a] by (simp add: gpio_read_def)

text \<open>The input data register shows each pin at its place: an input pin the level last driven onto
  it, an output pin its output latch. Driving a pin changes only that pin's level.\<close>

theorem gpio_pin_level:
  assumes "gpio_set_input s bank pin high = Some s'"
  shows "bank < 8 \<and> pin < 16 \<and>
    (\<exists>v. gpio_read s' (gpio_address (bank div 2) 16) = Some v \<and>
      (bit v (pin + (bank mod 2) * 16) \<longleftrightarrow>
         (if bit (gp_dir s (bank div 2)) (pin + (bank mod 2) * 16) then high
          else bit (gp_output s (bank div 2)) (pin + (bank mod 2) * 16)))) \<and>
    (\<forall>p i. (p, i) \<noteq> (bank div 2, pin + (bank mod 2) * 16) \<longrightarrow> bit (gp_input s' p) i = bit (gp_input s p) i)"
proof -
  let ?p = "bank div 2" and ?k = "pin + (bank mod 2) * 16"
  have b: "bank < 8" "pin < 16" using assms by (auto simp: gpio_set_input_def split: if_splits)
  have p: "?p < 4" and k: "?k < 32" using b by auto
  have s': "s' = s\<lparr>gp_input := (gp_input s)(?p :=
      if high then gp_input s ?p OR shl 1 ?k else gp_input s ?p AND NOT (shl 1 ?k))\<rparr>"
    using assms b by (simp add: gpio_set_input_def Let_def)
  have bits: "bit (gp_input s' q) i = (if q = ?p \<and> i = ?k then high else bit (gp_input s q) i)" for q i
    unfolding s' using k
    by (auto simp: bit_or_iff bit_and_iff bit_not_iff bit_shl_1 simp del: push_bit_of_1 dest: bit_imp_le_length)
  have l: "gpio_locate (gpio_address ?p 16) = Some (?p, 16)" using p by (simp add: gpio_locate_address)
  have "gp_dir s' = gp_dir s" "gp_output s' = gp_output s" unfolding s' by simp_all
  then show ?thesis
    using b k bits gpio_read_at [OF l, of s']
    by (auto simp: bit_or_iff bit_and_iff bit_not_iff dest: bit_imp_le_length)
qed

theorem gpio_pin_level_witness:
  "\<exists>s' v. gpio_set_input gpio_reset 3 2 True = Some s' \<and>
     gpio_read s' (gpio_address 1 16) = Some v \<and> bit v 18"
proof -
  obtain s' where *: "gpio_set_input gpio_reset 3 2 True = Some s'" by (simp add: gpio_set_input_def)
  have "bit (gp_dir gpio_reset 1) 18" by (simp add: gpio_reset_def)
  with gpio_pin_level [OF *] * show ?thesis by auto
qed

text \<open>The set and clear registers change exactly the bits written as one, of their own bank pair
  and function, so that two writers never disturb each other's pins; the input data and
  interrupt status registers accept no write.\<close>

theorem gpio_set_clear_registers:
  fixes v :: u32
  assumes "p < 4" "i < 32"
  shows "let w = (\<lambda>off. the (gpio_write s (gpio_address p off) (ucast v) 4 True))
    in (bit (gp_output (w 8) p) i \<longleftrightarrow> bit (gp_output s p) i \<or> bit v i) \<and>
       (bit (gp_output (w 12) p) i \<longleftrightarrow> bit (gp_output s p) i \<and> \<not> bit v i) \<and>
       (bit (gp_rising (w 20) p) i \<longleftrightarrow> bit (gp_rising s p) i \<or> bit v i) \<and>
       (bit (gp_rising (w 24) p) i \<longleftrightarrow> bit (gp_rising s p) i \<and> \<not> bit v i) \<and>
       (bit (gp_falling (w 28) p) i \<longleftrightarrow> bit (gp_falling s p) i \<or> bit v i) \<and>
       (bit (gp_falling (w 32) p) i \<longleftrightarrow> bit (gp_falling s p) i \<and> \<not> bit v i) \<and>
       gp_dir (w 8) = gp_dir s \<and> gp_rising (w 12) = gp_rising s \<and> gp_output (w 20) = gp_output s \<and>
       gpio_write s (gpio_address p 16) (ucast v) 4 True = None \<and>
       gpio_write s (gpio_address p 36) (ucast v) 4 True = None"
proof -
  have v: "\<not> (ucast (v :: u32) :: u64) > 0xFFFFFFFF" "ucast (ucast v :: u64) = v"
  proof -
    show "\<not> (ucast (v :: u32) :: u64) > 0xFFFFFFFF"
      using unat_u32_lt [of v] by (simp add: word_less_nat_alt)
    show "ucast (ucast v :: u64) = v" by (rule bit_word_eqI) (simp add: bit_simps)
  qed
  have l: "gpio_locate (gpio_address p off) = Some (p, off)"
    if "off \<in> {8, 12, 16, 20, 24, 28, 32, 36}" for off
    using that assms(1) by (intro gpio_locate_address) auto
  have w: "gpio_write s (gpio_address p off) (ucast v) 4 True =
      (if off = 16 \<or> off = 36 then None else Some (gpio_commit s p off v))"
    if "off \<in> {8, 12, 16, 20, 24, 28, 32, 36}" for off
    using l [OF that] v gpio_address_neq [of "gpio_address p off"] by (simp add: gpio_write_def)
  show ?thesis
    using assms(2) by (simp add: Let_def w gpio_commit_def bit_or_iff bit_and_iff bit_not_iff)
qed

theorem gpio_set_clear_registers_witness:
  "bit (gp_output (the (gpio_write gpio_reset (gpio_address 2 8) (ucast (0x10 :: u32)) 4 True)) 2) 4"
  using gpio_set_clear_registers [of 2 4 gpio_reset "0x10"] by (simp add: Let_def)

end
