(* ===== verification/C6747_I2c.thy ===== *)
theory C6747_I2c
  imports Bus_Contract
begin

text \<open>
  \<^verbatim>\<open>emulator/qemu/cdj_c6747_i2c.c\<close>: the two I2C modules, held in reset or released
  into idle GPIO mode. The interlock between the reset-release bit of the mode register
  and the pin function register makes the acceptance of a write depend on the state.
\<close>

section \<open>State and operations\<close>

record i2c =
  i2c_mode :: "nat \<Rightarrow> u32"
  i2c_function :: "nat \<Rightarrow> u32"
  i2c_direction :: "nat \<Rightarrow> u32"
  i2c_output :: "nat \<Rightarrow> u32"

definition i2c_locate :: "u32 \<Rightarrow> (nat \<times> u32) option" where
  "i2c_locate address =
     (let base = address AND NOT 0xFFF
      in if (base \<noteq> 0x01C22000 \<and> base \<noteq> 0x01E28000) \<or> address AND 3 \<noteq> 0 then None
         else Some (if base = 0x01E28000 then 1 else 0, address - base))"

definition i2c_reset :: i2c where
  "i2c_reset = \<lparr>i2c_mode = (\<lambda>_. 0), i2c_function = (\<lambda>_. 0), i2c_direction = (\<lambda>_. 0), i2c_output = (\<lambda>_. 0)\<rparr>"

definition i2c_read :: "i2c \<Rightarrow> u32 \<Rightarrow> u32 option" where
  "i2c_read s address =
     (case i2c_locate address of None \<Rightarrow> None
      | Some (b, off) \<Rightarrow>
          if off = 0x24 then Some (i2c_mode s b)
          else if off = 0x48 then Some (i2c_function s b)
          else if off = 0x4C then Some (i2c_direction s b)
          else if off = 0x54 then Some (i2c_output s b)
          else None)"

text \<open>The first switch of the write: the writable mask, or the early return.\<close>

definition i2c_mask :: "i2c \<Rightarrow> nat \<Rightarrow> u32 \<Rightarrow> u64 \<Rightarrow> u32 option" where
  "i2c_mask s b off value =
     (if off = 0x24 then
        (if value AND 0x20 \<noteq> 0 \<and> (i2c_function s b \<noteq> 1 \<or> value AND ucast (NOT 0x4020 :: u32) \<noteq> 0) then None
         else Some 0xEFFF)
      else if off = 0x48 then
        (if i2c_mode s b AND 0x20 \<noteq> 0 \<and> value \<noteq> ucast (i2c_function s b) then None else Some 1)
      else if off = 0x4C \<or> off = 0x54 \<or> off = 0x58 \<or> off = 0x5C then Some 3
      else None)"

definition i2c_commit :: "i2c \<Rightarrow> nat \<Rightarrow> u32 \<Rightarrow> u32 \<Rightarrow> i2c" where
  "i2c_commit s b off v =
     (if off = 0x24 then s\<lparr>i2c_mode := (i2c_mode s)(b := v)\<rparr>
      else if off = 0x48 then s\<lparr>i2c_function := (i2c_function s)(b := v)\<rparr>
      else if off = 0x4C then s\<lparr>i2c_direction := (i2c_direction s)(b := v)\<rparr>
      else if off = 0x54 then s\<lparr>i2c_output := (i2c_output s)(b := v)\<rparr>
      else if off = 0x58 then s\<lparr>i2c_output := (i2c_output s)(b := i2c_output s b OR v)\<rparr>
      else if off = 0x5C then s\<lparr>i2c_output := (i2c_output s)(b := i2c_output s b AND NOT v)\<rparr>
      else s)"

definition i2c_write :: "i2c \<Rightarrow> u32 \<Rightarrow> u64 \<Rightarrow> nat \<Rightarrow> bool \<Rightarrow> i2c option" where
  "i2c_write s address value sz commit =
     (if sz \<noteq> 4 \<or> value > 0xFFFFFFFF then None
      else case i2c_locate address of None \<Rightarrow> None
      | Some (b, off) \<Rightarrow>
          (case i2c_mask s b off value of None \<Rightarrow> None
           | Some m \<Rightarrow>
               if value AND ucast (NOT m) \<noteq> 0 then None
               else Some (if commit then i2c_commit s b off (ucast value) else s)))"

interpretation i2c_mmio: mmio_port i2c_write
  by unfold_locales (auto simp: i2c_write_def split: if_splits option.splits prod.splits)

section \<open>The GPIO-mode interlock\<close>

definition i2c_inv :: "i2c \<Rightarrow> bool" where
  "i2c_inv s \<longleftrightarrow> (\<forall>b. i2c_mode s b AND NOT 0xEFFF = 0 \<and> i2c_function s b AND NOT 1 = 0 \<and>
     i2c_direction s b AND NOT 3 = 0 \<and> i2c_output s b AND NOT 3 = 0 \<and>
     (i2c_mode s b AND 0x20 \<noteq> 0 \<longrightarrow> i2c_function s b = 1 \<and> i2c_mode s b AND NOT 0x4020 = 0))"

lemma ucast_masked:
  assumes "(value :: u64) AND ucast (NOT m :: u32) = 0"
  shows "(ucast value :: u32) AND NOT m = 0"
proof -
  have "(ucast value :: u32) AND NOT m = ucast (value AND ucast (NOT m :: u32))"
    by (rule bit_word_eqI) (auto simp: bit_simps)
  with assms show ?thesis by simp
qed

lemma ucast_and_numeral:
  "ucast ((value :: u64) AND 0x20) = (ucast value AND 0x20 :: u32)"
  by (rule bit_word_eqI) (auto simp: bit_simps)

lemma i2c_inv_reset: "i2c_inv i2c_reset"
  by (simp add: i2c_inv_def i2c_reset_def)

lemma i2c_write_cases:
  assumes "i2c_write s a v n True = Some s'"
  obtains b off m where "i2c_mask s b off v = Some m" "(ucast v :: u32) AND NOT m = 0"
    "v \<le> 0xFFFFFFFF" "s' = i2c_commit s b off (ucast v)"
  using assms ucast_masked
  by (auto simp: i2c_write_def not_less split: if_splits option.splits prod.splits)

text \<open>The commit of an accepted value keeps the invariant, register by register.\<close>

lemma i2c_inv_mode:
  assumes "i2c_inv s" "v AND NOT 0xEFFF = 0" "v AND 0x20 \<noteq> 0 \<longrightarrow> i2c_function s b = 1 \<and> v AND NOT 0x4020 = 0"
  shows "i2c_inv (s\<lparr>i2c_mode := (i2c_mode s)(b := v)\<rparr>)"
  using assms unfolding i2c_inv_def by simp

lemma i2c_inv_function:
  assumes "i2c_inv s" "v AND NOT 1 = 0" "i2c_mode s b AND 0x20 \<noteq> 0 \<longrightarrow> v = i2c_function s b"
  shows "i2c_inv (s\<lparr>i2c_function := (i2c_function s)(b := v)\<rparr>)"
  using assms unfolding i2c_inv_def by simp

lemma i2c_inv_pins:
  assumes "i2c_inv s" "v AND NOT 3 = 0"
  shows "i2c_inv (s\<lparr>i2c_direction := (i2c_direction s)(b := v)\<rparr>)"
    "i2c_inv (s\<lparr>i2c_output := (i2c_output s)(b := v)\<rparr>)"
  using assms unfolding i2c_inv_def by simp_all

lemma i2c_pins_set_clear:
  assumes "(x :: u32) AND NOT 3 = 0" "y AND NOT 3 = 0"
  shows "(x OR y) AND NOT 3 = 0" "(x AND NOT y) AND NOT 3 = 0"
proof -
  show "(x OR y) AND NOT 3 = 0" unfolding bit.conj_disj_distrib2 assms by simp
  have "(x AND NOT y) AND NOT 3 = (x AND NOT 3) AND NOT y" by (simp only: ac_simps)
  then show "(x AND NOT y) AND NOT 3 = 0" unfolding assms by simp
qed

lemma i2c_inv_commit:
  assumes inv: "i2c_inv s" and m: "i2c_mask s b off v = Some m" and v: "(ucast v :: u32) AND NOT m = 0"
  shows "i2c_inv (i2c_commit s b off (ucast v))"
proof -
  consider "off = 0x24" | "off = 0x48" | "off = 0x4C" | "off = 0x54" | "off = 0x58" | "off = 0x5C"
    using m by (auto simp: i2c_mask_def split: if_splits)
  then show ?thesis
  proof cases
    case 1
    have "w AND 0x20 = 0 \<Longrightarrow> (ucast w :: u32) AND 0x20 = 0" for w :: u64
      unfolding ucast_and_numeral [symmetric] by simp
    with 1 m v show ?thesis
      by (auto simp only: i2c_commit_def i2c_mask_def if_True option.inject split: if_splits
          intro!: i2c_inv_mode [OF inv] dest: ucast_masked)
  next
    case 2
    have "ucast (ucast (w :: u32) :: u64) = w" for w by (rule bit_word_eqI) (simp add: bit_simps)
    with 2 m v show ?thesis
      by (auto simp: i2c_commit_def i2c_mask_def intro!: i2c_inv_function [OF inv] split: if_splits)
  next
    case 3
    then show ?thesis using m v by (auto simp: i2c_commit_def i2c_mask_def intro!: i2c_inv_pins [OF inv])
  next
    case 4
    then show ?thesis using m v by (auto simp: i2c_commit_def i2c_mask_def intro!: i2c_inv_pins [OF inv])
  next
    case 5
    moreover have "i2c_output s b AND NOT 3 = 0" using inv by (simp add: i2c_inv_def)
    ultimately show ?thesis using m v i2c_pins_set_clear(1)
      by (auto simp: i2c_commit_def i2c_mask_def intro!: i2c_inv_pins [OF inv])
  next
    case 6
    moreover have "i2c_output s b AND NOT 3 = 0" using inv by (simp add: i2c_inv_def)
    ultimately show ?thesis using m v i2c_pins_set_clear(2)
      by (auto simp: i2c_commit_def i2c_mask_def intro!: i2c_inv_pins [OF inv])
  qed
qed

interpretation i2c_mmio: mmio_port_inv i2c_write i2c_inv
  by unfold_locales (auto elim: i2c_write_cases intro: i2c_inv_commit)

inductive i2c_reach :: "i2c \<Rightarrow> bool" where
  reset: "i2c_reach i2c_reset"
| mmio: "i2c_reach s \<Longrightarrow> i2c_write s a v n c = Some s' \<Longrightarrow> i2c_reach s'"

lemma i2c_reach_inv: "i2c_reach s \<Longrightarrow> i2c_inv s"
  by (induction rule: i2c_reach.induct) (auto intro: i2c_inv_reset i2c_mmio.inv_any)

text \<open>In every reachable state a module released from reset is in GPIO pin mode and idle (its mode
  register has no bit but the reset release and the debugger's FREE bit), the mode register
  never holds its reserved bit and the pin registers only their two pins.\<close>

theorem i2c_released_is_idle_gpio:
  assumes "i2c_reach s"
  shows "i2c_mode s b AND NOT 0xEFFF = 0 \<and> i2c_function s b AND NOT 1 = 0 \<and>
     i2c_direction s b AND NOT 3 = 0 \<and> i2c_output s b AND NOT 3 = 0 \<and>
     (i2c_mode s b AND 0x20 = 0 \<or> i2c_function s b = 1 \<and> i2c_mode s b AND NOT 0x4020 = 0)"
  using i2c_reach_inv [OF assms] unfolding i2c_inv_def by blast

theorem i2c_released_is_idle_gpio_witness:
  "\<exists>s. i2c_reach s \<and> i2c_mode s 0 = 0x20 \<and> i2c_function s 0 = 1 \<and> i2c_mode s 0 AND NOT 0x4020 = 0"
proof -
  obtain s1 where s1: "i2c_write i2c_reset 0x01C22048 1 4 True = Some s1" "i2c_function s1 0 = 1"
    "i2c_mode s1 0 = 0"
    by (simp add: i2c_write_def i2c_locate_def Let_def i2c_mask_def i2c_reset_def i2c_commit_def)
  obtain s2 where s2: "i2c_write s1 0x01C22024 0x20 4 True = Some s2" "i2c_mode s2 0 = 0x20"
    using s1 by (simp add: i2c_write_def i2c_locate_def Let_def i2c_mask_def i2c_commit_def)
  have r: "i2c_reach s2" using i2c_reach.reset s1(1) s2(1) by (blast intro: i2c_reach.mmio)
  have "i2c_function s2 0 = 1 \<and> i2c_mode s2 0 AND NOT 0x4020 = 0"
    using i2c_released_is_idle_gpio [OF r, of 0] s2(2) by simp
  with r s2(2) show ?thesis by blast
qed

text \<open>C36: The acceptance of a write is not stable: a store to the mode register that passes its check in
  GPIO mode is refused at its commit if an earlier queued store has left that mode, so a
  queue of stores that all passed their checks need not commit.\<close>

theorem i2c_acceptance_depends_on_state:
  "\<exists>s st1 st2. i2c_reach s \<and> check_store i2c_write s st1 \<and> check_store i2c_write s st2 \<and>
     commit_all i2c_write s [st1, st2] = None"
proof -
  obtain s where s: "i2c_write i2c_reset 0x01C22048 1 4 True = Some s" "i2c_function s 0 = 1"
    "i2c_mode s 0 = 0"
    by (simp add: i2c_write_def i2c_locate_def Let_def i2c_mask_def i2c_reset_def i2c_commit_def)
  let ?st1 = "\<lparr>st_address = 0x01C22048, st_value = 0, st_size = 4\<rparr>"
  let ?st2 = "\<lparr>st_address = 0x01C22024, st_value = 0x20, st_size = 4\<rparr>"
  have "check_store i2c_write s ?st1" "check_store i2c_write s ?st2" "commit_all i2c_write s [?st1, ?st2] = None"
    using s by (simp_all add: check_store_def i2c_write_def i2c_locate_def Let_def i2c_mask_def i2c_commit_def)
  moreover have "i2c_reach s" using i2c_reach.reset s(1) by (blast intro: i2c_reach.mmio)
  ultimately show ?thesis by blast
qed

end
