(* ===== verification/C6747_Hpi.thy ===== *)
theory C6747_Hpi
  imports Bus_Contract
begin

text \<open>
  \<^verbatim>\<open>emulator/qemu/cdj_c6747_hpi.c\<close>: the host port control register HPIC that the host
  processor and the DSP share, with its two interrupt flags. Each side raises the
  other's flag and acknowledges its own by writing a one.
\<close>

section \<open>State and operations\<close>

record hpi =
  hpirst :: bool
  hwob :: bool
  dual_hpia :: bool
  hpiasel :: bool
  dspint :: bool
  hint :: bool

abbreviation HPI_BASE :: u32 where "HPI_BASE \<equiv> 0x01E10000"
abbreviation HPIC :: u32 where "HPIC \<equiv> HPI_BASE + 0x30"

definition hpi_host_value :: "hpi \<Rightarrow> u16" where
  "hpi_host_value s = 0x48 OR (if hpirst s then 0x80 else 0) OR (if hwob s then 0x101 else 0) OR
     (if dual_hpia s then 0x200 else 0) OR (if hpiasel s then 0x800 else 0) OR
     (if hint s then 4 else 0) OR (if dspint s then 2 else 0)"

definition hpi_reset :: hpi where
  "hpi_reset = \<lparr>hpirst = True, hwob = False, dual_hpia = False, hpiasel = False, dspint = False, hint = False\<rparr>"

definition hpi_rom_boot_ready :: "hpi \<Rightarrow> hpi" where
  "hpi_rom_boot_ready s = s\<lparr>hpirst := False, hint := True, dspint := False\<rparr>"

definition hpi_host_read :: "hpi \<Rightarrow> u32" where
  "hpi_host_read s = (let v = ucast (hpi_host_value s) in v OR shl v 16)"

definition hpi_host_write :: "hpi \<Rightarrow> u32 \<Rightarrow> hpi" where
  "hpi_host_write s value_in =
     (let v = (ucast (value_in OR shr value_in 16) :: u16);
          reset = (v AND 0x80 \<noteq> 0);
          s = s\<lparr>hwob := (v AND 1 \<noteq> 0), dual_hpia := (v AND 0x200 \<noteq> 0), hpiasel := (v AND 0x800 \<noteq> 0)\<rparr>;
          s = (if v AND 4 \<noteq> 0 then s\<lparr>hint := False\<rparr> else s);
          s = (if v AND 2 \<noteq> 0 then s\<lparr>dspint := True\<rparr> else s);
          s = s\<lparr>hpirst := reset\<rparr>
      in if reset then s\<lparr>hint := False, dspint := False\<rparr> else s)"

definition hpi_cpu_read :: "hpi \<Rightarrow> u32 \<Rightarrow> u32 option" where
  "hpi_cpu_read s address =
     (if address = HPI_BASE then Some 0x4421210A
      else if address \<noteq> HPIC then None
      else Some (ucast (hpi_host_value s) AND NOT 1))"

definition hpi_cpu_write :: "hpi \<Rightarrow> u32 \<Rightarrow> u64 \<Rightarrow> nat \<Rightarrow> bool \<Rightarrow> hpi option" where
  "hpi_cpu_write s address value_in sz commit =
     (if address \<noteq> HPIC \<or> sz \<noteq> 4 \<or> value_in > 0xFFFFFFFF then None
      else if \<not> commit then Some s
      else
        (let v = (ucast value_in :: u32);
             s = s\<lparr>hpirst := (v AND 0x80 \<noteq> 0)\<rparr>;
             s = (if v AND 2 \<noteq> 0 then s\<lparr>dspint := False\<rparr> else s);
             s = (if v AND 4 \<noteq> 0 then s\<lparr>hint := True\<rparr> else s)
         in Some (if hpirst s then s\<lparr>hint := False, dspint := False\<rparr> else s)))"

section \<open>Invariant\<close>

text \<open>While the port is in reset neither interrupt flag is set.\<close>

definition hpi_inv :: "hpi \<Rightarrow> bool" where
  "hpi_inv s \<longleftrightarrow> (hpirst s \<longrightarrow> \<not> hint s \<and> \<not> dspint s)"

interpretation hpi_mmio: mmio_port_stable hpi_cpu_write
  by unfold_locales (auto simp: hpi_cpu_write_def Let_def split: if_splits)

interpretation hpi_mmio: mmio_port_inv hpi_cpu_write hpi_inv
  by unfold_locales (auto simp: hpi_cpu_write_def hpi_inv_def Let_def split: if_splits)

inductive hpi_reach :: "hpi \<Rightarrow> bool" where
  reset: "hpi_reach hpi_reset"
| boot: "hpi_reach s \<Longrightarrow> hpi_reach (hpi_rom_boot_ready s)"
| host: "hpi_reach s \<Longrightarrow> hpi_reach (hpi_host_write s v)"
| cpu: "hpi_reach s \<Longrightarrow> hpi_cpu_write s a w n c = Some s' \<Longrightarrow> hpi_reach s'"

lemma hpi_inv_host: "hpi_inv (hpi_host_write s v)"
  by (auto simp: hpi_inv_def hpi_host_write_def Let_def)

lemma hpi_reach_inv: "hpi_reach s \<Longrightarrow> hpi_inv s"
proof (induction rule: hpi_reach.induct)
  case (cpu s a w n c s')
  then show ?case by (blast intro: hpi_mmio.inv_any)
qed (simp_all add: hpi_inv_host, simp_all add: hpi_inv_def hpi_reset_def hpi_rom_boot_ready_def)

section \<open>The flags both sides read\<close>

text \<open>The bits of the mask constants, one position at a time.\<close>

lemma u16_flag:
  "(v :: u16) AND 1 \<noteq> 0 \<longleftrightarrow> bit v 0" "v AND 2 \<noteq> 0 \<longleftrightarrow> bit v 1" "v AND 4 \<noteq> 0 \<longleftrightarrow> bit v 2"
  "v AND 0x80 \<noteq> 0 \<longleftrightarrow> bit v 7" "v AND 0x200 \<noteq> 0 \<longleftrightarrow> bit v 9" "v AND 0x800 \<noteq> 0 \<longleftrightarrow> bit v 11"
  using and_exp_eq_0_iff_not_bit [of v 0] and_exp_eq_0_iff_not_bit [of v 1] and_exp_eq_0_iff_not_bit [of v 2]
    and_exp_eq_0_iff_not_bit [of v 7] and_exp_eq_0_iff_not_bit [of v 9] and_exp_eq_0_iff_not_bit [of v 11]
  by (simp_all del: bit_0)

lemma hpi_host_value_bits:
  "bit (hpi_host_value s) 0 = hwob s" "bit (hpi_host_value s) 1 = dspint s" "bit (hpi_host_value s) 2 = hint s"
  "bit (hpi_host_value s) 7 = hpirst s" "bit (hpi_host_value s) 8 = hwob s"
  "bit (hpi_host_value s) 9 = dual_hpia s" "bit (hpi_host_value s) 11 = hpiasel s"
  by (simp_all add: hpi_host_value_def bit_or_iff)

lemma hpi_host_read_bit: "bit (hpi_host_read s) i \<longleftrightarrow> (if i < 16 then bit (hpi_host_value s) i
    else i < 32 \<and> bit (hpi_host_value s) (i - 16))"
  by (auto simp: hpi_host_read_def Let_def bit_simps)

lemma hpi_union_bit: "i < 16 \<Longrightarrow> bit (ucast (v OR shr v 16) :: u16) i \<longleftrightarrow> bit (v :: u32) i \<or> bit v (i + 16)"
  by (auto simp: bit_simps add.commute)

lemma u32_flag: "(v :: u32) AND 2 \<noteq> 0 \<longleftrightarrow> bit v 1" "v AND 4 \<noteq> 0 \<longleftrightarrow> bit v 2" "v AND 0x80 \<noteq> 0 \<longleftrightarrow> bit v 7"
  using and_exp_eq_0_iff_not_bit [of v 1] and_exp_eq_0_iff_not_bit [of v 2] and_exp_eq_0_iff_not_bit [of v 7]
  by simp_all

lemma hpi_host_write_flags:
  "let h = hpi_host_write s v; b = (\<lambda>i. bit v i \<or> bit v (i + 16))
   in hpirst h = b 7 \<and> hint h = (hint s \<and> \<not> b 2 \<and> \<not> b 7) \<and> dspint h = ((dspint s \<or> b 1) \<and> \<not> b 7) \<and>
      hwob h = b 0 \<and> dual_hpia h = b 9 \<and> hpiasel h = b 11"
  unfolding hpi_host_write_def Let_def u16_flag
  by (simp del: bit_0 add: hpi_union_bit)

lemma hpi_cpu_write_flags:
  "let d = the (hpi_cpu_write s HPIC (ucast (v :: u32)) 4 True)
   in hpirst d = bit v 7 \<and> hint d = ((hint s \<or> bit v 2) \<and> \<not> bit v 7) \<and>
      dspint d = (dspint s \<and> \<not> bit v 1 \<and> \<not> bit v 7) \<and>
      hwob d = hwob s \<and> dual_hpia d = dual_hpia s \<and> hpiasel d = hpiasel s"
proof -
  have "\<not> (ucast v :: u64) > 0xFFFFFFFF" using unat_u32_lt [of v] by (simp add: word_less_nat_alt)
  moreover have "ucast (ucast v :: u64) = v" by (rule bit_word_eqI) (simp add: bit_simps)
  ultimately show ?thesis unfolding hpi_cpu_write_def Let_def by (simp add: u32_flag)
qed

lemma hpi_read_flags:
  "let r = hpi_host_read s; c = the (hpi_cpu_read s HPIC)
   in bit r 1 = dspint s \<and> bit r 2 = hint s \<and> bit r 7 = hpirst s \<and> bit r 17 = dspint s \<and>
      bit r 18 = hint s \<and> bit r 23 = hpirst s \<and> bit c 1 = dspint s \<and> bit c 2 = hint s \<and>
      bit c 7 = hpirst s \<and> \<not> bit c 0 \<and> bit c 8 = hwob s"
  unfolding Let_def hpi_host_read_bit
  by (simp del: bit_0 add: hpi_host_value_bits hpi_host_value_bits(2) [unfolded One_nat_def] hpi_cpu_read_def bit_simps)

text \<open>The port's interrupt handshake. A host write (either halfword) and a DSP write set, clear and
  reset the flags exactly as follows: the host raises DSPINT and acknowledges HINT, the DSP
  raises HINT and acknowledges DSPINT, the reset bit clears both, and neither side touches
  the flag it does not own otherwise; the host reads the flags in both halfwords, the DSP
  in the low one; and in every reachable state a port held in reset has neither flag set.\<close>

theorem hpi_interrupt_handshake:
  "(let h = hpi_host_write s v; b = (\<lambda>i. bit v i \<or> bit v (i + 16))
   in hpirst h = b 7 \<and> hint h = (hint s \<and> \<not> b 2 \<and> \<not> b 7) \<and> dspint h = ((dspint s \<or> b 1) \<and> \<not> b 7) \<and>
      hwob h = b 0 \<and> dual_hpia h = b 9 \<and> hpiasel h = b 11) \<and>
   (let d = the (hpi_cpu_write s HPIC (ucast (v :: u32)) 4 True)
   in hpirst d = bit v 7 \<and> hint d = ((hint s \<or> bit v 2) \<and> \<not> bit v 7) \<and>
      dspint d = (dspint s \<and> \<not> bit v 1 \<and> \<not> bit v 7) \<and>
      hwob d = hwob s \<and> dual_hpia d = dual_hpia s \<and> hpiasel d = hpiasel s) \<and>
   (let r = hpi_host_read s; c = the (hpi_cpu_read s HPIC)
   in bit r 1 = dspint s \<and> bit r 2 = hint s \<and> bit r 7 = hpirst s \<and> bit r 17 = dspint s \<and>
      bit r 18 = hint s \<and> bit r 23 = hpirst s \<and> bit c 1 = dspint s \<and> bit c 2 = hint s \<and>
      bit c 7 = hpirst s \<and> \<not> bit c 0 \<and> bit c 8 = hwob s) \<and>
   (hpi_reach s \<longrightarrow> hpirst s \<longrightarrow> \<not> hint s \<and> \<not> dspint s)"
  using hpi_host_write_flags hpi_cpu_write_flags hpi_read_flags hpi_reach_inv [of s]
  unfolding hpi_inv_def by blast

theorem hpi_interrupt_handshake_witness:
  "hpi_reach hpi_reset \<and> hpirst hpi_reset \<and> \<not> hint hpi_reset \<and> \<not> dspint hpi_reset"
proof -
  have r: "hpi_reach hpi_reset" "hpirst hpi_reset" by (rule hpi_reach.reset) (simp add: hpi_reset_def)
  with hpi_interrupt_handshake [of hpi_reset 0] show ?thesis by blast
qed

end
