(* ===== verification/C6747_Edma.thy ===== *)
theory C6747_Edma
  imports Bus_Contract
begin

text \<open>
  \<^verbatim>\<open>emulator/qemu/cdj_c6747_edma.c\<close>: the EDMA controller. A trigger completes
  synchronously: a queue of pending DMA and QDMA events is served until it is empty, each
  event moving bytes over the client's bus, updating its parameter set, and possibly
  chaining to further events.

  The bus is the client's: \<open>'m\<close> is its memory, a read gives bytes or fails, and a write
  returns its success and the memory. An operation returns its success with the controller
  and the memory it leaves, because the code updates both in place before it fails.
  Allocation of the byte buffer and of the queue is taken to succeed.
\<close>

section \<open>State\<close>

abbreviation EDMA_BASE :: u32 where "EDMA_BASE \<equiv> 0x01C00000"
abbreviation (input) EDMA_CHANNELS :: nat where "EDMA_CHANNELS \<equiv> 32"
abbreviation (input) EDMA_QCHANNELS :: nat where "EDMA_QCHANNELS \<equiv> 8"
abbreviation (input) EDMA_PARAMS :: nat where "EDMA_PARAMS \<equiv> 128"
abbreviation (input) EDMA_REGIONS :: nat where "EDMA_REGIONS \<equiv> 4"
abbreviation (input) SERVICE_LIMIT :: nat where "SERVICE_LIMIT \<equiv> 1048576"

text \<open>The option bits by position, and the mask of the options the model supports.\<close>

abbreviation (input) OPT_ITCCHEN :: nat where "OPT_ITCCHEN \<equiv> 23"
abbreviation (input) OPT_TCCHEN :: nat where "OPT_TCCHEN \<equiv> 22"
abbreviation (input) OPT_ITCINTEN :: nat where "OPT_ITCINTEN \<equiv> 21"
abbreviation (input) OPT_TCINTEN :: nat where "OPT_TCINTEN \<equiv> 20"
abbreviation (input) OPT_STATIC :: nat where "OPT_STATIC \<equiv> 3"
abbreviation (input) OPT_SYNCDIM :: nat where "OPT_SYNCDIM \<equiv> 2"
abbreviation (input) OPT_DAM :: nat where "OPT_DAM \<equiv> 1"
abbreviation (input) OPT_SAM :: nat where "OPT_SAM \<equiv> 0"
abbreviation OPT_ALLOWED :: u32 where "OPT_ALLOWED \<equiv> 0x00F3FF0F"

definition flag :: "u32 \<Rightarrow> nat \<Rightarrow> bool" where
  "flag w k \<longleftrightarrow> w AND shl 1 k \<noteq> 0"

datatype event_kind = EVENT_DMA | EVENT_QDMA

type_synonym pending_event = "event_kind \<times> nat"
type_synonym param_set = "nat \<Rightarrow> u32"

record edma =
  param :: "nat \<Rightarrow> param_set"
  qchmap :: "nat \<Rightarrow> u32"
  dmaqnum :: "nat \<Rightarrow> u32"
  qdmaqnum :: u32
  qwmthra :: u32
  drae :: "nat \<Rightarrow> u32"
  qrae :: "nat \<Rightarrow> u32"
  er :: u32
  esr :: u32
  cer :: u32
  eer :: u32
  ser :: u32
  qer :: u32
  qeer :: u32
  qser :: u32
  ier :: u32
  ipr :: u32
  irq_notifications :: u32
  emr :: u32
  qemr :: u32
  ccerr :: u32
  transfer_requests :: u64
  bytes_transferred :: u64

record 'm edma_bus =
  bus_read :: "'m \<Rightarrow> u32 \<Rightarrow> nat \<Rightarrow> u8 list option"
  bus_write :: "'m \<Rightarrow> u32 \<Rightarrow> u8 list \<Rightarrow> bool \<Rightarrow> bool \<times> 'm"

definition edma_locate :: "u32 \<Rightarrow> u32 option" where
  "edma_locate address =
     (if address < EDMA_BASE \<or> address \<ge> EDMA_BASE + 0x8000 \<or> address AND 3 \<noteq> 0 then None
      else Some (address - EDMA_BASE))"

definition edma_write_mapped :: "u32 \<Rightarrow> nat \<Rightarrow> bool" where
  "edma_write_mapped address sz \<longleftrightarrow> (sz = 4 \<or> sz = 8) \<and> edma_locate address \<noteq> None"

definition legal_opt :: "u32 \<Rightarrow> bool" where
  "legal_opt v =
     (let tcc = shr v 12 AND 0x3F; fwid = shr v 8 AND 7
      in v AND NOT OPT_ALLOWED = 0 \<and> tcc < 32 \<and> fwid \<le> 5)"

definition legal_queue_map :: "u32 \<Rightarrow> bool" where
  "legal_queue_map v \<longleftrightarrow> v AND NOT 0x11111111 = 0"

definition legal_qchmap :: "u32 \<Rightarrow> bool" where
  "legal_qchmap v \<longleftrightarrow> v AND NOT 0x0FFC = 0 \<and> (shr v 5 AND 0x1FF) < 128"

definition valid_param :: "param_set \<Rightarrow> bool" where
  "valid_param p =
     (if \<not> legal_opt (p 0) \<or> flag (p 0) OPT_DAM \<or> flag (p 0) OPT_SAM \<or> p 2 AND 0xFFFF = 0 \<or> shr (p 2) 16 = 0 \<or>
         p 7 AND 0xFFFF = 0 \<or> p 7 AND 0xFFFF0000 \<noteq> 0 then False
      else
        (let link = (ucast (p 5) :: u16)
         in if link \<noteq> 0xFFFF then
              (let off = ucast link AND (0x3FFF :: u32) in \<not> (off AND 31 \<noteq> 0 \<or> off \<ge> 128 * 32))
            else True))"

section \<open>Moving bytes\<close>

text \<open>The sign-extended 16-bit indices of a parameter word.\<close>

definition index_lo :: "u32 \<Rightarrow> u32" where
  "index_lo w = scast (ucast w :: u16)"

definition index_hi :: "u32 \<Rightarrow> u32" where
  "index_hi w = scast (ucast (shr w 16) :: u16)"

fun transfer_arrays ::
  "'m edma_bus \<Rightarrow> bool \<Rightarrow> u32 \<Rightarrow> nat \<Rightarrow> nat \<Rightarrow> u32 \<Rightarrow> u32 \<Rightarrow> 'm \<Rightarrow> bool \<times> 'm" where
  "transfer_arrays bus commit idx count 0 src dst m = (True, m)"
| "transfer_arrays bus commit idx count (Suc n) src dst m =
     (case bus_read bus m src count of None \<Rightarrow> (False, m)
      | Some bytes \<Rightarrow>
          (case bus_write bus m dst bytes False of (ok, m) \<Rightarrow>
             if \<not> ok then (False, m)
             else
               (case (if commit then bus_write bus m dst bytes True else (True, m)) of (ok, m) \<Rightarrow>
                  if \<not> ok then (False, m)
                  else transfer_arrays bus commit idx count n (src + index_lo idx) (dst + index_hi idx) m)))"

definition transfer_bytes :: "'m edma_bus \<Rightarrow> bool \<Rightarrow> param_set \<Rightarrow> 'm \<Rightarrow> bool \<times> 'm" where
  "transfer_bytes bus commit p m =
     (if \<not> valid_param p then (False, m)
      else transfer_arrays bus commit (p 4) (unat (p 2 AND 0xFFFF))
        (if flag (p 0) OPT_SYNCDIM then unat (shr (p 2) 16) else 1) (p 1) (p 3) m)"

section \<open>Completing one event\<close>

text \<open>The queue holds every event of one service in order; \<open>tail\<close> is its length.\<close>

definition enqueue :: "pending_event list \<Rightarrow> event_kind \<Rightarrow> nat \<Rightarrow> pending_event list option" where
  "enqueue queue kind channel =
     (if length queue \<ge> SERVICE_LIMIT then None else Some (queue @ [(kind, channel)]))"

definition clear_event :: "edma \<Rightarrow> event_kind \<Rightarrow> nat \<Rightarrow> edma" where
  "clear_event s kind channel =
     (case kind of
        EVENT_DMA \<Rightarrow> s\<lparr>er := er s AND NOT (shl 1 channel), esr := esr s AND NOT (shl 1 channel),
          cer := cer s AND NOT (shl 1 channel), ser := ser s AND NOT (shl 1 channel)\<rparr>
      | EVENT_QDMA \<Rightarrow> s\<lparr>qer := qer s AND NOT (shl 1 channel), qser := qser s AND NOT (shl 1 channel)\<rparr>)"

text \<open>The update of a set between the events of one transfer.\<close>

definition next_param :: "param_set \<Rightarrow> param_set" where
  "next_param orig =
     (let bcnt = shr (orig 2) 16; ccnt = orig 7 AND 0xFFFF
      in if flag (orig 0) OPT_SYNCDIM then
           orig(7 := ccnt - 1, 1 := orig 1 + index_lo (orig 6), 3 := orig 3 + index_hi (orig 6))
         else if bcnt > 1 then
           orig(2 := (orig 2 AND 0xFFFF) OR shl (bcnt - 1) 16,
             1 := orig 1 + index_lo (orig 4), 3 := orig 3 + index_hi (orig 4))
         else
           orig(2 := (orig 2 AND 0xFFFF) OR (orig 5 AND 0xFFFF0000), 7 := ccnt - 1,
             1 := orig 1 + index_lo (orig 6), 3 := orig 3 + index_hi (orig 6)))"

text \<open>The QDMA channels a link into a set triggers, and their triggering in order.\<close>

definition link_matches :: "edma \<Rightarrow> nat \<Rightarrow> nat list" where
  "link_matches s pset =
     filter (\<lambda>q. flag (qeer s) q \<and> unat (shr (qchmap s q) 5 AND 0x1FF) = pset) [0..<EDMA_QCHANNELS]"

fun link_trigger :: "edma \<Rightarrow> pending_event list \<Rightarrow> nat list \<Rightarrow> bool \<times> edma \<times> pending_event list" where
  "link_trigger s queue [] = (True, s, queue)"
| "link_trigger s queue (q # qs) =
     (let s = (if flag (qer s) q then s\<lparr>qemr := qemr s OR shl 1 q\<rparr> else s\<lparr>qer := qer s OR shl 1 q\<rparr>)
      in case enqueue queue EVENT_QDMA q of None \<Rightarrow> (False, s, queue)
         | Some queue \<Rightarrow> link_trigger s queue qs)"

text \<open>The block under the STATIC test.\<close>

definition final_event :: "param_set \<Rightarrow> bool" where
  "final_event orig \<longleftrightarrow> (flag (orig 0) OPT_SYNCDIM \<or> shr (orig 2) 16 = 1) \<and> orig 7 AND 0xFFFF = 1"

definition update_params :: "edma \<Rightarrow> nat \<Rightarrow> param_set \<Rightarrow> pending_event list \<Rightarrow> bool \<times> edma \<times> pending_event list" where
  "update_params s pset orig queue =
     (if flag (orig 0) OPT_STATIC then (True, s, queue)
      else if \<not> final_event orig then (True, s\<lparr>param := (param s)(pset := next_param orig)\<rparr>, queue)
      else
        (let link = (ucast (orig 5) :: u16)
         in if link = 0xFFFF then (True, s\<lparr>param := (param s)(pset := (\<lambda>_. 0)(5 := 0xFFFF))\<rparr>, queue)
            else
              (let linked_set = unat ((ucast link AND 0x3FFF :: u32) div 32);
                   s = s\<lparr>param := (param s)(pset := param s linked_set)\<rparr>
               in link_trigger s queue (link_matches s pset))))"

definition region_pending :: "edma \<Rightarrow> nat \<Rightarrow> bool" where
  "region_pending s r \<longleftrightarrow> (ipr s AND ier s AND drae s r) \<noteq> 0"

definition complete_interrupt :: "edma \<Rightarrow> u32 \<Rightarrow> edma" where
  "complete_interrupt s tcc =
     (let pending = region_pending s;
          s = s\<lparr>ipr := ipr s OR shl 1 (unat tcc)\<rparr>
      in fold (\<lambda>r s. if \<not> pending r \<and> region_pending s r
           then s\<lparr>irq_notifications := irq_notifications s OR shl 1 r\<rparr> else s) [0..<EDMA_REGIONS] s)"

text \<open>Everything after the bytes have moved.\<close>

definition chain_event :: "edma \<Rightarrow> u32 \<Rightarrow> edma" where
  "chain_event s tcc =
     (if flag (cer s) (unat tcc) then s\<lparr>emr := emr s OR shl 1 (unat tcc)\<rparr> else s\<lparr>cer := cer s OR shl 1 (unat tcc)\<rparr>)"

definition count_transfer :: "edma \<Rightarrow> param_set \<Rightarrow> edma" where
  "count_transfer s orig =
     s\<lparr>transfer_requests := transfer_requests s + 1,
       bytes_transferred := bytes_transferred s + ucast (orig 2 AND 0xFFFF) *
         (if flag (orig 0) OPT_SYNCDIM then ucast (shr (orig 2) 16) else 1)\<rparr>"

definition finish_event ::
  "event_kind \<Rightarrow> nat \<Rightarrow> nat \<Rightarrow> param_set \<Rightarrow> edma \<Rightarrow> pending_event list \<Rightarrow> bool \<times> edma \<times> pending_event list" where
  "finish_event kind channel pset orig s queue =
     (let final = final_event orig; tcc = shr (orig 0) 12 AND 0x3F
      in case update_params (clear_event s kind channel) pset orig queue of (ok, s, queue) \<Rightarrow>
           if \<not> ok then (False, s, queue)
           else
             (let s = (if flag (orig 0) (if final then OPT_TCINTEN else OPT_ITCINTEN)
                       then complete_interrupt s tcc else s)
              in if flag (orig 0) (if final then OPT_TCCHEN else OPT_ITCCHEN) then
                   (case enqueue queue EVENT_DMA (unat tcc) of
                      None \<Rightarrow> (False, chain_event s tcc, queue)
                    | Some queue \<Rightarrow> (True, count_transfer (chain_event s tcc) orig, queue))
                 else (True, count_transfer s orig, queue)))"

definition complete_one ::
  "'m edma_bus \<Rightarrow> bool \<Rightarrow> pending_event \<Rightarrow> edma \<Rightarrow> 'm \<Rightarrow> pending_event list \<Rightarrow>
     bool \<times> edma \<times> 'm \<times> pending_event list" where
  "complete_one bus commit ev s m queue =
     (case ev of (kind, channel) \<Rightarrow>
        (let pset = (if kind = EVENT_DMA then channel else unat (shr (qchmap s channel) 5 AND 0x1FF))
         in if pset \<ge> EDMA_PARAMS then (False, s, m, queue)
            else
              (case transfer_bytes bus commit (param s pset) m of (ok, m) \<Rightarrow>
                 if \<not> ok then (False, s, m, queue)
                 else
                   (case finish_event kind channel pset (param s pset) s queue of (ok, s, queue) \<Rightarrow>
                      (ok, s, m, queue)))))"

section \<open>Service\<close>

text \<open>No event completion brings the queue above its limit.\<close>

lemma enqueue_Some: "enqueue queue k c = Some queue' \<longleftrightarrow> length queue < SERVICE_LIMIT \<and> queue' = queue @ [(k, c)]"
  by (auto simp: enqueue_def)

lemma link_trigger_limit:
  "link_trigger s queue qs = (ok, s', queue') \<Longrightarrow> length queue' \<le> max (length queue) SERVICE_LIMIT"
proof (induction qs arbitrary: s queue)
  case (Cons q qs)
  then show ?case by (fastforce simp: Let_def enqueue_def split: if_splits)
qed simp

lemma update_params_limit:
  "update_params s pset orig queue = (ok, s', queue') \<Longrightarrow> length queue' \<le> max (length queue) SERVICE_LIMIT"
  by (auto simp: update_params_def Let_def dest: link_trigger_limit split: if_splits)

lemma finish_event_limit:
  "finish_event kind channel pset orig s queue = (ok, s', queue') \<Longrightarrow>
     length queue' \<le> max (length queue) SERVICE_LIMIT"
  unfolding finish_event_def Let_def
  by (auto simp: enqueue_def dest!: update_params_limit split: prod.splits if_splits)

lemma complete_one_limit:
  "complete_one bus commit ev s m queue = (ok, s', m', queue') \<Longrightarrow>
     length queue' \<le> max (length queue) SERVICE_LIMIT"
  unfolding complete_one_def Let_def
  by (auto dest!: finish_event_limit split: prod.splits if_splits)

function service_loop ::
  "'m edma_bus \<Rightarrow> bool \<Rightarrow> edma \<Rightarrow> 'm \<Rightarrow> pending_event list \<Rightarrow> nat \<Rightarrow> bool \<times> edma \<times> 'm" where
  "service_loop bus commit s m queue head =
     (if head < length queue then
        (case complete_one bus commit (queue ! head) s m queue of (ok, s, m, queue) \<Rightarrow>
           if \<not> ok then (False, s, m) else service_loop bus commit s m queue (head + 1))
      else (True, s, m))"
  by pat_completeness auto

termination
  by (relation "measure (\<lambda>(bus, commit, s, m, queue, head). max (length queue) SERVICE_LIMIT - head)")
    (auto dest!: complete_one_limit [OF sym])

declare service_loop.simps [simp del]

fun enqueue_all :: "pending_event list \<Rightarrow> pending_event list \<Rightarrow> pending_event list option" where
  "enqueue_all queue [] = Some queue"
| "enqueue_all queue ((kind, channel) # evs) =
     (case enqueue queue kind channel of None \<Rightarrow> None | Some queue \<Rightarrow> enqueue_all queue evs)"

definition service :: "'m edma_bus \<Rightarrow> bool \<Rightarrow> pending_event list \<Rightarrow> edma \<Rightarrow> 'm \<Rightarrow> bool \<times> edma \<times> 'm" where
  "service bus commit initial s m =
     (case enqueue_all [] initial of None \<Rightarrow> (False, s, m)
      | Some queue \<Rightarrow> service_loop bus commit s m queue 0)"

section \<open>Registers\<close>

definition edma_reset :: edma where
  "edma_reset = \<lparr>param = (\<lambda>_ _. 0), qchmap = (\<lambda>_. 0), dmaqnum = (\<lambda>_. 0), qdmaqnum = 0, qwmthra = 0,
     drae = (\<lambda>_. 0), qrae = (\<lambda>_. 0), er = 0, esr = 0, cer = 0, eer = 0, ser = 0, qer = 0, qeer = 0, qser = 0,
     ier = 0, ipr = 0, irq_notifications = 0, emr = 0, qemr = 0, ccerr = 0,
     transfer_requests = 0, bytes_transferred = 0\<rparr>"

definition edma_valid :: "edma \<Rightarrow> bool" where
  "edma_valid s \<longleftrightarrow>
     list_all (\<lambda>q. legal_qchmap (qchmap s q)) [0..<EDMA_QCHANNELS] \<and>
     list_all (\<lambda>n. legal_queue_map (dmaqnum s n)) [0..<4] \<and>
     \<not> (\<not> legal_queue_map (qdmaqnum s) \<or> qwmthra s AND NOT 0x1F1F \<noteq> 0 \<or>
        qer s AND NOT 0xFF \<noteq> 0 \<or> qeer s AND NOT 0xFF \<noteq> 0 \<or> qser s AND NOT 0xFF \<noteq> 0 \<or> qemr s AND NOT 0xFF \<noteq> 0 \<or>
        irq_notifications s AND NOT (shl 1 EDMA_REGIONS - 1) \<noteq> 0 \<or> ccerr s AND NOT 0x00030003 \<noteq> 0) \<and>
     list_all (\<lambda>r. qrae s r AND NOT 0xFF = 0) [0..<EDMA_REGIONS] \<and>
     list_all (\<lambda>p. legal_opt (param s p 0) \<and> param s p 7 AND 0xFFFF0000 = 0) [0..<EDMA_PARAMS]"

text \<open>The global channel registers, and the shadow views of the regions through their access masks:
  the local offset, the two masks and the region.\<close>

definition channel_view :: "edma \<Rightarrow> u32 \<Rightarrow> (u32 \<times> u32 \<times> u32 \<times> nat option) option" where
  "channel_view s off =
     (if off \<ge> 0x1000 \<and> off \<le> 0x1094 then Some (off - 0x1000, 0xFFFFFFFF, 0xFF, None)
      else if off \<ge> 0x2000 \<and> off < 0x2800 then
        (let r = unat ((off - 0x2000) div 0x200); within = (off - 0x2000) mod 0x200
         in if r \<ge> EDMA_REGIONS \<or> within > 0x94 then None
            else Some (within, drae s r, qrae s r AND 0xFF, Some r))
      else None)"

definition read_channel :: "edma \<Rightarrow> u32 \<Rightarrow> u32 \<Rightarrow> u32 \<Rightarrow> u32 option" where
  "read_channel s local dmask qmask =
     (if local = 0x00 \<or> local = 0x08 then Some (er s AND dmask)
      else if local = 0x10 then Some (esr s AND dmask)
      else if local = 0x18 then Some (cer s AND dmask)
      else if local = 0x20 \<or> local = 0x28 \<or> local = 0x30 then Some (eer s AND dmask)
      else if local = 0x38 \<or> local = 0x40 then Some (ser s AND dmask)
      else if local = 0x50 \<or> local = 0x58 \<or> local = 0x60 then Some (ier s AND dmask)
      else if local = 0x68 then Some (ipr s AND dmask)
      else if local = 0x70 then Some 0
      else if local = 0x80 then Some (qer s AND qmask)
      else if local = 0x84 \<or> local = 0x88 \<or> local = 0x8C then Some (qeer s AND qmask)
      else if local = 0x90 \<or> local = 0x94 then Some (qser s AND qmask)
      else None)"

definition edma_read :: "edma \<Rightarrow> u32 \<Rightarrow> u32 option" where
  "edma_read s address =
     (case edma_locate address of None \<Rightarrow> None
      | Some off \<Rightarrow>
          if off \<ge> 0x4000 \<and> off < 0x5000 then
            Some (param s (unat ((off - 0x4000) div 32)) (unat (((off - 0x4000) mod 32) div 4)))
          else if off = 0x000 then Some 0x40015300
          else if off = 0x004 then Some 0x00213344
          else if off \<ge> 0x200 \<and> off \<le> 0x21C then Some (qchmap s (unat ((off - 0x200) div 4)))
          else if off \<ge> 0x240 \<and> off \<le> 0x24C then Some (dmaqnum s (unat ((off - 0x240) div 4)))
          else if off = 0x260 then Some (qdmaqnum s)
          else if off = 0x300 \<or> off = 0x308 then Some (emr s)
          else if off = 0x310 \<or> off = 0x314 then Some (qemr s)
          else if off = 0x318 \<or> off = 0x31C then Some (ccerr s)
          else if off \<ge> 0x340 \<and> off \<le> 0x358 \<and> (off - 0x340) AND 7 = 0 then
            Some (drae s (unat ((off - 0x340) div 8)))
          else if off \<ge> 0x380 \<and> off \<le> 0x38C then Some (qrae s (unat ((off - 0x380) div 4)))
          else if off = 0x600 \<or> off = 0x604 \<or> off = 0x640 then Some 0
          else if off = 0x620 then Some (qwmthra s)
          else (case channel_view s off of None \<Rightarrow> None
            | Some (local, dmask, qmask, region) \<Rightarrow> read_channel s local dmask qmask))"

text \<open>A trigger: the events are first served on a copy of the controller without committing, then,
  for a committing write, on the controller itself. \<open>latch\<close> is the register update that goes
  with the trigger.\<close>

definition channel_events :: "u32 \<Rightarrow> pending_event list" where
  "channel_events d = map (Pair EVENT_DMA) (filter (flag d) [0..<EDMA_CHANNELS])"

definition trigger ::
  "'m edma_bus \<Rightarrow> bool \<Rightarrow> (edma \<Rightarrow> edma) \<Rightarrow> pending_event list \<Rightarrow> edma \<Rightarrow> 'm \<Rightarrow> bool \<times> edma \<times> 'm" where
  "trigger bus commit latch evs s m =
     (case service bus False evs (latch s) m of (ok, preview, m) \<Rightarrow>
        if \<not> ok then (False, s, m)
        else if \<not> commit then (True, s, m)
        else service bus True evs (latch s) m)"

definition write_channel ::
  "'m edma_bus \<Rightarrow> u32 \<Rightarrow> u32 \<Rightarrow> u32 \<Rightarrow> nat option \<Rightarrow> u32 \<Rightarrow> bool \<Rightarrow> edma \<Rightarrow> 'm \<Rightarrow> bool \<times> edma \<times> 'm" where
  "write_channel bus local dmask qmask region v commit s m =
     (let d = v AND dmask; q = v AND qmask; upd = (\<lambda>f. if commit then f s else s)
      in if local = 0x08 then (True, upd (\<lambda>s. s\<lparr>er := er s AND NOT d\<rparr>), m)
         else if local = 0x10 then
           trigger bus commit (\<lambda>s. s\<lparr>esr := esr s OR d\<rparr>) (channel_events d) s m
         else if local = 0x28 then (True, upd (\<lambda>s. s\<lparr>eer := eer s AND NOT d\<rparr>), m)
         else if local = 0x30 then
           (let evs = channel_events (d AND er s); latch = (\<lambda>s. s\<lparr>eer := eer s OR d\<rparr>)
            in if evs \<noteq> [] then trigger bus commit latch evs s m
               else (True, upd latch, m))
         else if local = 0x40 then (True, upd (\<lambda>s. s\<lparr>ser := ser s AND NOT d\<rparr>), m)
         else if local = 0x58 then (True, upd (\<lambda>s. s\<lparr>ier := ier s AND NOT d\<rparr>), m)
         else if local = 0x60 then (True, upd (\<lambda>s. s\<lparr>ier := ier s OR d\<rparr>), m)
         else if local = 0x70 then (True, upd (\<lambda>s. s\<lparr>ipr := ipr s AND NOT d\<rparr>), m)
         else if local = 0x78 then
           (if v > 1 then (False, s, m)
            else (True, upd (\<lambda>s. case region of
                Some r \<Rightarrow> if v \<noteq> 0 \<and> region_pending s r
                  then s\<lparr>irq_notifications := irq_notifications s OR shl 1 r\<rparr> else s
              | None \<Rightarrow> s), m))
         else if local = 0x88 then (v AND NOT 0xFF = 0, upd (\<lambda>s. s\<lparr>qeer := qeer s AND NOT q\<rparr>), m)
         else if local = 0x8C then (v AND NOT 0xFF = 0, upd (\<lambda>s. s\<lparr>qeer := qeer s OR q\<rparr>), m)
         else if local = 0x94 then (v AND NOT 0xFF = 0, upd (\<lambda>s. s\<lparr>qser := qser s AND NOT q\<rparr>), m)
         else (False, s, m))"

text \<open>A write of one or two words of a parameter set, which may trigger QDMA channels.\<close>

definition store_words :: "nat \<Rightarrow> nat \<Rightarrow> u32 list \<Rightarrow> edma \<Rightarrow> edma" where
  "store_words pset word ws s =
     s\<lparr>param := (param s)(pset := (\<lambda>k. if word \<le> k \<and> k < word + length ws then ws ! (k - word) else param s pset k))\<rparr>"

definition qdma_matches :: "edma \<Rightarrow> nat \<Rightarrow> nat \<Rightarrow> nat \<Rightarrow> nat list" where
  "qdma_matches s pset word n =
     filter (\<lambda>q. flag (qeer s) q \<and> unat (shr (qchmap s q) 5 AND 0x1FF) = pset \<and>
       word \<le> unat (shr (qchmap s q) 2 AND 7) \<and> unat (shr (qchmap s q) 2 AND 7) < word + n) [0..<EDMA_QCHANNELS]"

definition latch_qdma :: "nat list \<Rightarrow> edma \<Rightarrow> edma" where
  "latch_qdma qs s = s\<lparr>qer := fold (\<lambda>q r. r OR shl 1 q) qs (qer s)\<rparr>"

definition write_param ::
  "'m edma_bus \<Rightarrow> nat \<Rightarrow> nat \<Rightarrow> u32 list \<Rightarrow> bool \<Rightarrow> edma \<Rightarrow> 'm \<Rightarrow> bool \<times> edma \<times> 'm" where
  "write_param bus pset word ws commit s m =
     (if \<exists>i<length ws. (word + i = 0 \<and> \<not> legal_opt (ws ! i)) \<or> (word + i = 7 \<and> ws ! i AND 0xFFFF0000 \<noteq> 0)
      then (False, s, m)
      else
        (let preview = store_words pset word ws s;
             matches = qdma_matches preview pset word (length ws);
             evs = map (Pair EVENT_QDMA) matches
         in case (if evs \<noteq> [] then service bus False evs preview m else (True, preview, m)) of (ok, _, m) \<Rightarrow>
              if \<not> ok then (False, s, m)
              else if \<not> commit then (True, s, m)
              else
                (let s = latch_qdma matches (store_words pset word ws s)
                 in if evs \<noteq> [] then service bus True evs s m else (True, s, m))))"

definition edma_write ::
  "'m edma_bus \<Rightarrow> u32 \<Rightarrow> u64 \<Rightarrow> nat \<Rightarrow> bool \<Rightarrow> edma \<Rightarrow> 'm \<Rightarrow> bool \<times> edma \<times> 'm" where
  "edma_write bus address value_in sz commit s m =
     (case edma_locate address of None \<Rightarrow> (False, s, m)
      | Some off \<Rightarrow>
        if sz \<noteq> 4 \<and> sz \<noteq> 8 then (False, s, m)
        else if sz = 8 \<and> (off < 0x4000 \<or> off \<ge> 0x5000 \<or> off AND 31 > 24) then (False, s, m)
        else if sz = 4 \<and> value_in > 0xFFFFFFFF then (False, s, m)
        else
          (let v = (ucast value_in :: u32); upd = (\<lambda>f. if commit then f s else s)
           in if off \<ge> 0x4000 \<and> off < 0x5000 then
                write_param bus (unat ((off - 0x4000) div 32)) (unat (((off - 0x4000) mod 32) div 4))
                  (take (sz div 4) [ucast value_in, ucast (shr value_in 32)]) commit s m
              else if off \<ge> 0x200 \<and> off \<le> 0x21C then
                (if \<not> legal_qchmap v then (False, s, m)
                 else (True, upd (\<lambda>s. s\<lparr>qchmap := (qchmap s)(unat ((off - 0x200) div 4) := v)\<rparr>), m))
              else if off \<ge> 0x240 \<and> off \<le> 0x24C then
                (if \<not> legal_queue_map v then (False, s, m)
                 else (True, upd (\<lambda>s. s\<lparr>dmaqnum := (dmaqnum s)(unat ((off - 0x240) div 4) := v)\<rparr>), m))
              else if off = 0x260 then
                (if \<not> legal_queue_map v then (False, s, m) else (True, upd (\<lambda>s. s\<lparr>qdmaqnum := v\<rparr>), m))
              else if off = 0x308 then (True, upd (\<lambda>s. s\<lparr>emr := emr s AND NOT v\<rparr>), m)
              else if off = 0x314 then
                (if v AND NOT 0xFF \<noteq> 0 then (False, s, m) else (True, upd (\<lambda>s. s\<lparr>qemr := qemr s AND NOT v\<rparr>), m))
              else if off = 0x31C then
                (if v AND NOT 0x00030003 \<noteq> 0 then (False, s, m)
                 else (True, upd (\<lambda>s. s\<lparr>ccerr := ccerr s AND NOT v\<rparr>), m))
              else if off = 0x320 then (v \<le> 1, s, m)
              else if off \<ge> 0x340 \<and> off \<le> 0x358 \<and> (off - 0x340) AND 7 = 0 then
                (True, upd (\<lambda>s. s\<lparr>drae := (drae s)(unat ((off - 0x340) div 8) := v)\<rparr>), m)
              else if off \<ge> 0x380 \<and> off \<le> 0x38C then
                (if v AND NOT 0xFF \<noteq> 0 then (False, s, m)
                 else (True, upd (\<lambda>s. s\<lparr>qrae := (qrae s)(unat ((off - 0x380) div 4) := v)\<rparr>), m))
              else if off = 0x620 then
                (if v AND NOT 0x1F1F \<noteq> 0 then (False, s, m) else (True, upd (\<lambda>s. s\<lparr>qwmthra := v\<rparr>), m))
              else (case channel_view s off of
                  Some (local, dmask, qmask, region) \<Rightarrow> write_channel bus local dmask qmask region v commit s m
                | None \<Rightarrow> (False, s, m))))"

text \<open>A peripheral event.\<close>

definition latch_event :: "nat \<Rightarrow> edma \<Rightarrow> edma" where
  "latch_event channel s =
     (let s = (if flag (er s) channel then s\<lparr>emr := emr s OR shl 1 channel\<rparr> else s)
      in s\<lparr>er := er s OR shl 1 channel\<rparr>)"

definition edma_event :: "'m edma_bus \<Rightarrow> nat \<Rightarrow> edma \<Rightarrow> 'm \<Rightarrow> bool \<times> edma \<times> 'm" where
  "edma_event bus channel s m =
     (if channel \<ge> EDMA_CHANNELS then (False, s, m)
      else if \<not> flag (eer s) channel then (True, s\<lparr>er := er s OR shl 1 channel\<rparr>, m)
      else trigger bus True (latch_event channel) [(EVENT_DMA, channel)] s m)"

definition edma_irq_pending :: "edma \<Rightarrow> nat \<Rightarrow> bool" where
  "edma_irq_pending s region \<longleftrightarrow> region < EDMA_REGIONS \<and> region_pending s region"

definition edma_take_irq_notification :: "edma \<Rightarrow> nat \<Rightarrow> bool \<times> edma" where
  "edma_take_irq_notification s region =
     (if region \<ge> EDMA_REGIONS \<or> \<not> flag (irq_notifications s) region then (False, s)
      else (True, s\<lparr>irq_notifications := irq_notifications s AND NOT (shl 1 region)\<rparr>))"

end
