(* ===== verification/C6747_Edma_Contract.thy ===== *)
theory C6747_Edma_Contract
  imports C6747_Edma
begin

text \<open>
  The EDMA controller against its client's bus: a checked register write that triggers
  transfers agrees with its commit, so the controller keeps the register-write contract
  of the CPU over every bus that keeps the contract of \<open>edma_memory\<close>.
\<close>

section \<open>The QDMA event registers do not steer a service\<close>

text \<open>
  The preview of a parameter write leaves the triggered bits of QER clear, the commit sets
  them first. The two services still agree, because QER and QEMR only record events:
  \<open>same_events\<close> relates controllers that differ in them alone.
\<close>

definition erase_events :: "edma \<Rightarrow> edma" where
  "erase_events s = s\<lparr>qer := 0, qemr := 0\<rparr>"

definition same_events :: "edma \<Rightarrow> edma \<Rightarrow> bool" where
  "same_events s t \<longleftrightarrow> erase_events s = erase_events t"

lemma same_events_refl: "same_events s s"
  by (simp add: same_events_def)

lemma same_events_trans: "same_events s t \<Longrightarrow> same_events t u \<Longrightarrow> same_events s u"
  by (simp add: same_events_def)

lemma same_events_sym: "same_events s t \<Longrightarrow> same_events t s"
  by (simp add: same_events_def)

lemma same_eventsE:
  assumes "same_events s t"
  obtains a b where "t = s\<lparr>qer := a, qemr := b\<rparr>"
proof -
  have "t = s\<lparr>qer := qer t, qemr := qemr t\<rparr>"
    using assms unfolding same_events_def erase_events_def by (cases s, cases t) simp
  then show ?thesis by (rule that)
qed

lemma same_events_fields:
  assumes "same_events s t"
  shows "param s = param t" "qchmap s = qchmap t" "qeer s = qeer t" "cer s = cer t" "emr s = emr t"
    "region_pending s = region_pending t"
proof -
  have f: "param (erase_events u) = param u" "qchmap (erase_events u) = qchmap u" "qeer (erase_events u) = qeer u"
    "cer (erase_events u) = cer u" "emr (erase_events u) = emr u" "ipr (erase_events u) = ipr u"
    "ier (erase_events u) = ier u" "drae (erase_events u) = drae u" for u by (simp_all add: erase_events_def)
  show "param s = param t" "qchmap s = qchmap t" "qeer s = qeer t" "cer s = cer t" "emr s = emr t"
    by (metis assms [unfolded same_events_def] f)+
  show "region_pending s = region_pending t"
    unfolding region_pending_def fun_eq_iff by (metis assms [unfolded same_events_def] f)
qed

lemma same_events_link: "same_events (fst (snd (link_trigger s queue qs))) s"
proof (induction qs arbitrary: s queue)
  case (Cons q qs)
  define u where "u = (if flag (qer s) q then s\<lparr>qemr := qemr s OR shl 1 q\<rparr> else s\<lparr>qer := qer s OR shl 1 q\<rparr>)"
  have u: "same_events u s" by (simp add: u_def same_events_def erase_events_def)
  show ?case
    unfolding link_trigger.simps Let_def u_def [symmetric]
    using u same_events_trans [OF Cons.IH u] by (cases "enqueue queue EVENT_QDMA q") simp_all
qed (simp add: same_events_refl)

lemma link_trigger_result:
  "fst (link_trigger s queue qs) = fst (link_trigger t queue qs) \<and>
     snd (snd (link_trigger s queue qs)) = snd (snd (link_trigger t queue qs))"
  by (induction qs arbitrary: s t queue) (auto simp: Let_def split: option.splits)

lemma same_events_upd:
  assumes "same_events s t"
  shows "same_events (clear_event s k c) (clear_event t k c)" "same_events (s\<lparr>param := f\<rparr>) (t\<lparr>param := f\<rparr>)"
    "same_events (chain_event s tcc) (chain_event t tcc)" "same_events (count_transfer s orig) (count_transfer t orig)"
    "same_events (complete_interrupt s tcc) (complete_interrupt t tcc)"
proof -
  obtain a b where e: "t = s\<lparr>qer := a, qemr := b\<rparr>" using assms by (rule same_eventsE)
  show "same_events (clear_event s k c) (clear_event t k c)"
    unfolding e by (cases k; simp add: same_events_def erase_events_def clear_event_def)
  show "same_events (s\<lparr>param := f\<rparr>) (t\<lparr>param := f\<rparr>)"
    unfolding e by (simp add: same_events_def erase_events_def)
  show "same_events (chain_event s tcc) (chain_event t tcc)"
    unfolding e by (simp add: same_events_def erase_events_def chain_event_def)
  show "same_events (count_transfer s orig) (count_transfer t orig)"
    unfolding e by (simp add: same_events_def erase_events_def count_transfer_def)
  define g where "g = (\<lambda>p r s. if \<not> p r \<and> region_pending s r
           then s\<lparr>irq_notifications := irq_notifications s OR shl 1 r\<rparr> else s)"
  have g: "same_events (g p r u) (g p r v)" if uv: "same_events u v" for p r u v
  proof -
    obtain a b where ev: "v = u\<lparr>qer := a, qemr := b\<rparr>" using uv by (rule same_eventsE)
    have "region_pending v = region_pending u" using same_events_fields(6) [OF uv] by simp
    then show ?thesis unfolding g_def using uv by (auto simp: same_events_def erase_events_def ev)
  qed
  have gf: "same_events (fold (g p) rs u) (fold (g p) rs v)" if "same_events u v" for p rs u v
    using that by (induction rs arbitrary: u v) (simp_all add: g)
  have "same_events (s\<lparr>ipr := ipr s OR shl 1 (unat tcc)\<rparr>) (t\<lparr>ipr := ipr t OR shl 1 (unat tcc)\<rparr>)"
    unfolding e by (simp add: same_events_def erase_events_def)
  then show "same_events (complete_interrupt s tcc) (complete_interrupt t tcc)"
    unfolding complete_interrupt_def Let_def same_events_fields(6) [OF assms]
    using gf [unfolded g_def] by blast
qed


text \<open>Two services from related controllers run the same queue and stay related.\<close>

definition agree :: "bool \<times> edma \<times> 'q \<Rightarrow> bool \<times> edma \<times> 'q \<Rightarrow> bool" where
  "agree x y \<longleftrightarrow> fst x = fst y \<and> same_events (fst (snd x)) (fst (snd y)) \<and> snd (snd x) = snd (snd y)"

lemma agree_link:
  assumes "same_events s t"
  shows "agree (link_trigger s queue qs) (link_trigger t queue qs)"
  using link_trigger_result [of s queue qs t] same_events_trans [OF same_events_link [of s queue qs]
      same_events_trans [OF assms same_events_sym [OF same_events_link [of t queue qs]]]]
  by (simp add: agree_def)

lemma agree_update:
  assumes "same_events s t"
  shows "agree (update_params s pset orig queue) (update_params t pset orig queue)"
proof -
  note f = same_events_fields [OF assms]
  have p: "same_events (s\<lparr>param := g\<rparr>) (t\<lparr>param := g\<rparr>)" for g by (rule same_events_upd(2) [OF assms])
  have m: "link_matches (s\<lparr>param := g\<rparr>) pset = link_matches (t\<lparr>param := g\<rparr>) pset" for g
    by (simp add: link_matches_def f)
  show ?thesis
    unfolding update_params_def f(1) Let_def m
    using assms p agree_link [OF p] by (simp add: agree_def)
qed

lemma agree_finish:
  assumes "same_events s t"
  shows "agree (finish_event k c pset orig s queue) (finish_event k c pset orig t queue)"
proof -
  note u = agree_update [OF same_events_upd(1) [OF assms, of k c], of pset orig queue]
  obtain ok s1 q1 where 1: "update_params (clear_event s k c) pset orig queue = (ok, s1, q1)"
    by (cases "update_params (clear_event s k c) pset orig queue") auto
  obtain t1 where 2: "update_params (clear_event t k c) pset orig queue = (ok, t1, q1)" "same_events s1 t1"
    using u 1 by (cases "update_params (clear_event t k c) pset orig queue") (auto simp: agree_def)
  let ?i = "\<lambda>v. if flag (orig 0) (if final_event orig then OPT_TCINTEN else OPT_ITCINTEN)
      then complete_interrupt v (shr (orig 0) 12 AND 0x3F) else v"
  have i: "same_events (?i s1) (?i t1)" using 2(2) same_events_upd(5) by simp
  show ?thesis
    unfolding finish_event_def Let_def 1 2(1) prod.case
    using 2(2) i same_events_upd(3,4) by (auto simp: agree_def split: option.splits)
qed

lemma agree_complete:
  assumes "same_events s t" "complete_one bus c ev s m queue = (ok, s', m', queue')"
  shows "\<exists>t'. complete_one bus c ev t m queue = (ok, t', m', queue') \<and> same_events s' t'"
proof -
  obtain kind channel where ev: "ev = (kind, channel)" by (cases ev)
  note f = same_events_fields [OF assms(1)]
  define pset where "pset = (if kind = EVENT_DMA then channel else unat (shr (qchmap t channel) 5 AND 0x1FF))"
  obtain okt x where x: "transfer_bytes bus c (param t pset) m = (okt, x)"
    by (cases "transfer_bytes bus c (param t pset) m")
  obtain okf s1 q1 where s1: "finish_event kind channel pset (param t pset) s queue = (okf, s1, q1)"
    by (cases "finish_event kind channel pset (param t pset) s queue") auto
  then obtain t1 where t1: "finish_event kind channel pset (param t pset) t queue = (okf, t1, q1)" "same_events s1 t1"
    using agree_finish [OF assms(1), of kind channel pset "param t pset" queue]
    by (cases "finish_event kind channel pset (param t pset) t queue") (auto simp: agree_def)
  show ?thesis
    using assms t1(2)
    unfolding complete_one_def ev prod.case f pset_def [symmetric] Let_def x s1 t1(1)
    by (auto split: if_splits)
qed

lemma agree_service_loop:
  "same_events s t \<Longrightarrow> service_loop bus c s m queue head = (ok, s', m') \<Longrightarrow>
     \<exists>t'. service_loop bus c t m queue head = (ok, t', m') \<and> same_events s' t'"
proof (induction "max (length queue) SERVICE_LIMIT - head" arbitrary: s t m queue head rule: less_induct)
  case less
  show ?case
  proof (cases "head < length queue")
    case True
    obtain ok1 s1 m1 q1 where c1: "complete_one bus c (queue ! head) s m queue = (ok1, s1, m1, q1)"
      by (cases "complete_one bus c (queue ! head) s m queue") auto
    obtain t1 where c2: "complete_one bus c (queue ! head) t m queue = (ok1, t1, m1, q1)" "same_events s1 t1"
      using agree_complete [OF less.prems(1) c1] by blast
    have d: "max (length q1) SERVICE_LIMIT - (head + 1) < max (length queue) SERVICE_LIMIT - head"
      using complete_one_limit [OF c1] True by linarith
    show ?thesis
      using less.prems True c1 c2 less.hyps [OF d c2(2)]
      by (cases ok1) (simp_all add: service_loop.simps [of bus c s] service_loop.simps [of bus c t])
  next
    case False
    then show ?thesis using less.prems by (simp add: service_loop.simps)
  qed
qed

lemma agree_service:
  assumes "same_events s t" "service bus c evs s m = (ok, s', m')"
  shows "\<exists>t'. service bus c evs t m = (ok, t', m') \<and> same_events s' t'"
  using assms agree_service_loop by (auto simp: service_def split: option.splits)

text \<open>What a check must do against the commit of the same write, and how it goes through a cascade of
  register cases.\<close>

definition checks :: "'c \<Rightarrow> bool \<times> 'c \<Rightarrow> bool \<times> 'c \<Rightarrow> bool" where
  "checks st x y \<longleftrightarrow> fst x = fst y \<and> snd x = st"

lemma checks_if:
  "checks st x y \<Longrightarrow> checks st x' y' \<Longrightarrow> checks st (if b then x else x') (if b then y else y')"
  by simp

lemma checks_leaf: "checks (s, m) (ok, s, m) (ok, st)"
  by (simp add: checks_def)

section \<open>The bus contract\<close>

text \<open>
  What the controller's header asks of its client: reads have no effect (they are
  functions of the memory), a check changes nothing, and whether an access is accepted
  depends on its address and size, not on the contents or on the check having been made.
\<close>

locale edma_memory =
  fixes bus :: "'m edma_bus"
  assumes read_stable: "bus_read bus m a n = None \<Longrightarrow> bus_read bus m' a n = None"
    and read_length: "bus_read bus m a n = Some bs \<Longrightarrow> length bs = n"
    and check_keeps: "snd (bus_write bus m a bs False) = m"
    and write_stable: "length bs = length bs' \<Longrightarrow> fst (bus_write bus m a bs c) = fst (bus_write bus m' a bs' c')"
begin

lemma transfer_arrays_check: "snd (transfer_arrays bus False idx count n src dst m) = m"
proof (induction n arbitrary: src dst)
  case (Suc n)
  have "snd (bus_write bus m dst bs False) = m" for bs by (rule check_keeps)
  then show ?case using Suc by (auto split: option.splits prod.splits) (metis snd_conv)+
qed simp

lemma transfer_arrays_stable:
  "fst (transfer_arrays bus c idx count n src dst m) = fst (transfer_arrays bus c' idx count n src dst m')"
proof (induction n arbitrary: src dst m m')
  case (Suc n)
  show ?case
  proof (cases "bus_read bus m src count")
    case None
    then show ?thesis using read_stable [of m src count m'] by simp
  next
    case (Some bs)
    then obtain bs' where bs': "bus_read bus m' src count = Some bs'"
      using read_stable [of m' src count m] by fastforce
    have len: "length bs = length bs'" using read_length Some bs' by metis
    have e: "fst (bus_write bus x dst bs d) = fst (bus_write bus y dst bs' d')"
      "fst (bus_write bus x dst bs d) = fst (bus_write bus y dst bs d')" for x y d d'
      using len by (rule write_stable, intro write_stable refl)
    obtain ok x where w: "bus_write bus m dst bs False = (ok, x)" by (cases "bus_write bus m dst bs False")
    obtain y where w': "bus_write bus m' dst bs' False = (ok, y)"
      using e(1) [of m False m' False] w by (cases "bus_write bus m' dst bs' False") simp
    define z z' where "z = snd (if c then bus_write bus x dst bs True else (True, x))"
      and "z' = snd (if c' then bus_write bus y dst bs' True else (True, y))"
    have z: "(if c then bus_write bus x dst bs True else (True, x)) = (ok \<or> \<not> c, z)"
      using e(2) [of x True m False] w by (auto simp: z_def prod_eq_iff)
    have z': "(if c' then bus_write bus y dst bs' True else (True, y)) = (ok \<or> \<not> c', z')"
      using e(1) [of m False y True] w by (auto simp: z'_def prod_eq_iff)
    show ?thesis using Some bs' w w' z z' Suc by simp
  qed
qed simp

lemma transfer_bytes_stable: "fst (transfer_bytes bus c p m) = fst (transfer_bytes bus c' p m')"
  using transfer_arrays_stable by (simp add: transfer_bytes_def)

lemma transfer_bytes_check: "snd (transfer_bytes bus False p m) = m"
  using transfer_arrays_check by (simp add: transfer_bytes_def)

text \<open>So the controller's side of a completion does not depend on the memory or on committing.\<close>

lemma complete_one_stable:
  assumes "complete_one bus c ev s m queue = (ok, s', x, queue')"
  shows "\<exists>y. complete_one bus c' ev s m' queue = (ok, s', y, queue')"
proof -
  obtain kind channel where ev: "ev = (kind, channel)" by (cases ev)
  define pset where "pset = (if kind = EVENT_DMA then channel else unat (shr (qchmap s channel) 5 AND 0x1FF))"
  obtain okt xt where xt: "transfer_bytes bus c (param s pset) m = (okt, xt)"
    by (cases "transfer_bytes bus c (param s pset) m")
  obtain yt where yt: "transfer_bytes bus c' (param s pset) m' = (okt, yt)"
    using transfer_bytes_stable [of c "param s pset" m c' m'] xt
    by (cases "transfer_bytes bus c' (param s pset) m'") simp
  show ?thesis
    using assms unfolding complete_one_def ev prod.case pset_def [symmetric] Let_def xt yt
    by (auto split: prod.splits if_splits)
qed

lemma complete_one_check: "complete_one bus False ev s m queue = (ok, s', x, queue') \<Longrightarrow> x = m"
  using transfer_bytes_check unfolding complete_one_def Let_def
  by (auto split: prod.splits if_splits) (metis snd_conv)+

lemma service_loop_stable:
  "service_loop bus c s m queue head = (ok, s', x) \<Longrightarrow>
     \<exists>y. service_loop bus c' s m' queue head = (ok, s', y) \<and> (c' = False \<longrightarrow> y = m')"
proof (induction "max (length queue) SERVICE_LIMIT - head" arbitrary: s m m' queue head rule: less_induct)
  case less
  show ?case
  proof (cases "head < length queue")
    case True
    obtain ok1 s1 m1 q1 where c1: "complete_one bus c (queue ! head) s m queue = (ok1, s1, m1, q1)"
      by (cases "complete_one bus c (queue ! head) s m queue") auto
    obtain m2 where c2: "complete_one bus c' (queue ! head) s m' queue = (ok1, s1, m2, q1)"
      using complete_one_stable [OF c1] by blast
    have m2: "c' = False \<longrightarrow> m2 = m'" using c2 complete_one_check by blast
    have d: "max (length q1) SERVICE_LIMIT - (head + 1) < max (length queue) SERVICE_LIMIT - head"
      using complete_one_limit [OF c1] True by linarith
    show ?thesis
    proof (cases ok1)
      case ok1: True
      have "service_loop bus c s1 m1 q1 (head + 1) = (ok, s', x)"
        using less.prems True c1 ok1 by (simp add: service_loop.simps [of bus c s])
      then obtain y where y: "service_loop bus c' s1 m2 q1 (head + 1) = (ok, s', y)" "c' = False \<longrightarrow> y = m2"
        using less.hyps [OF d] by blast
      then have "service_loop bus c' s m' queue head = (ok, s', y)"
        using True c2 ok1 by (simp add: service_loop.simps [of bus c' s])
      then show ?thesis using y(2) m2 by blast
    next
      case False
      then show ?thesis using less.prems True c1 c2 m2
        by (simp add: service_loop.simps [of bus c s] service_loop.simps [of bus c' s])
    qed
  next
    case False
    then show ?thesis using less.prems by (simp add: service_loop.simps)
  qed
qed

lemma service_stable:
  assumes "service bus c evs s m = (ok, s', x)"
  shows "\<exists>y. service bus c' evs s m' = (ok, s', y) \<and> (c' = False \<longrightarrow> y = m')"
  using assms service_loop_stable [of c s m _ 0 ok s' x c' m']
  by (auto simp: service_def split: option.splits)

text \<open>A trigger that passes its preview commits, with the controller the preview computed.\<close>

lemma trigger_cases:
  obtains (rejects) "\<And>c m. trigger bus c latch evs s m = (False, s, m)"
    | (accepts) s' where "\<And>m. trigger bus False latch evs s m = (True, s, m)"
      "\<And>m. \<exists>m'. trigger bus True latch evs s m = (True, s', m')"
proof -
  obtain ok s' x where v: "service bus False evs (latch s) undefined = (ok, s', x)"
    by (cases "service bus False evs (latch s) undefined") auto
  have p: "service bus False evs (latch s) m = (ok, s', m)" for m
    using service_stable [OF v, of False m] by auto
  have q: "\<exists>m'. service bus True evs (latch s) m = (ok, s', m')" for m
    using service_stable [OF v, of True m] by blast
  show ?thesis
  proof (cases ok)
    case True
    then show ?thesis using p q by (intro accepts [of s']) (auto simp: trigger_def)
  next
    case False
    then show ?thesis using p by (intro rejects) (auto simp: trigger_def)
  qed
qed

lemma trigger_check:
  "fst (trigger bus False latch evs s m) = fst (trigger bus True latch evs s m) \<and>
     snd (trigger bus False latch evs s m) = (s, m)"
proof (cases rule: trigger_cases [of latch evs s])
  case rejects
  then show ?thesis by simp
next
  case (accepts s')
  obtain m' where "trigger bus True latch evs s m = (True, s', m')" using accepts(2) [of m] by blast
  with accepts(1) [of m] show ?thesis by simp
qed

lemma write_channel_check:
  "fst (write_channel bus local dmask qmask region v False s m) = fst (write_channel bus local dmask qmask region v True s m) \<and>
     snd (write_channel bus local dmask qmask region v False s m) = (s, m)"
  using trigger_check by (simp add: write_channel_def Let_def)

text \<open>A parameter write may trigger QDMA channels; its preview leaves QER as it was.\<close>

lemma write_param_check:
  "fst (write_param bus pset word ws False s m) = fst (write_param bus pset word ws True s m) \<and>
     snd (write_param bus pset word ws False s m) = (s, m)"
proof -
  define pre where "pre = store_words pset word ws s"
  define qs where "qs = qdma_matches pre pset word (length ws)"
  obtain ok s1 x where v: "service bus False (map (Pair EVENT_QDMA) qs) pre m = (ok, s1, x)"
    by (cases "service bus False (map (Pair EVENT_QDMA) qs) pre m") auto
  have "same_events pre (latch_qdma qs pre)" by (simp add: same_events_def erase_events_def latch_qdma_def)
  then obtain t1 where "service bus False (map (Pair EVENT_QDMA) qs) (latch_qdma qs pre) m = (ok, t1, x)"
    using agree_service [OF _ v] by blast
  then have c: "\<exists>y. service bus True (map (Pair EVENT_QDMA) qs) (latch_qdma qs pre) m' = (ok, t1, y)" for m'
    using service_stable by blast
  have "x = m" using service_stable [OF v, of False m] v by simp
  then show ?thesis
    using v c [of m] unfolding write_param_def Let_def pre_def [symmetric] qs_def [symmetric]
    by (cases "qs = []") auto
qed

lemma checks_write: "checks (s, m) (edma_write bus a v n False s m) (edma_write bus a v n True s m)"
proof -
  have p: "checks (s, m) (write_param bus pset word ws False s m) (write_param bus pset word ws True s m)" for pset word ws
    using write_param_check unfolding checks_def by blast
  have c: "checks (s, m) (case channel_view s off of
        Some (local, dmask, qmask, region) \<Rightarrow> write_channel bus local dmask qmask region w False s m | None \<Rightarrow> (False, s, m))
      (case channel_view s off of
        Some (local, dmask, qmask, region) \<Rightarrow> write_channel bus local dmask qmask region w True s m | None \<Rightarrow> (False, s, m))" for off w
    using write_channel_check unfolding checks_def by (cases "channel_view s off") auto
  show ?thesis
  proof (cases "edma_locate a")
    case None
    then show ?thesis by (simp add: edma_write_def checks_leaf)
  next
    case (Some off)
    show ?thesis
      unfolding edma_write_def Some option.case Let_def if_True if_False
      by (intro checks_if checks_leaf p c)
  qed
qed

lemma edma_write_check:
  "fst (edma_write bus a v n False s m) = fst (edma_write bus a v n True s m) \<and>
     snd (edma_write bus a v n False s m) = (s, m)"
  using checks_write unfolding checks_def .

end

text \<open>The controller with its memory, as a register port of the CPU: a rejected write is \<open>None\<close>.\<close>

definition edma_port :: "'m edma_bus \<Rightarrow> (edma \<times> 'm) mmio_write" where
  "edma_port bus st a v n commit =
     (case edma_write bus a v n commit (fst st) (snd st) of (ok, s, m) \<Rightarrow> if ok then Some (s, m) else None)"

sublocale edma_memory \<subseteq> edma_mmio: mmio_port "edma_port bus"
proof
  fix st a v n st'
  note w = edma_write_check [of a v n "fst st" "snd st"]
  show "edma_port bus st a v n False = Some st' \<Longrightarrow> st' = st"
    using w by (auto simp: edma_port_def split: prod.splits if_splits)
  show "edma_port bus st a v n True = None \<longleftrightarrow> edma_port bus st a v n False = None"
    using w by (auto simp: edma_port_def split: prod.splits if_splits)
qed

end
