(* ===== verification/C6747_Edma_Invariant.thy ===== *)
theory C6747_Edma_Invariant
  imports C6747_Edma_Contract
begin

text \<open>
  What the EDMA controller keeps and what one event does: the register validity predicate
  of the code is an invariant of every operation, an event moves its array and updates its
  set, and a chain that never ends is rejected.
\<close>

section \<open>Register validity\<close>

lemma edma_valid_iff:
  "edma_valid s \<longleftrightarrow>
     (\<forall>q<8. legal_qchmap (qchmap s q)) \<and> (\<forall>n<4. legal_queue_map (dmaqnum s n)) \<and> legal_queue_map (qdmaqnum s) \<and>
     qwmthra s AND NOT 0x1F1F = 0 \<and> qer s AND NOT 0xFF = 0 \<and> qeer s AND NOT 0xFF = 0 \<and> qser s AND NOT 0xFF = 0 \<and>
     qemr s AND NOT 0xFF = 0 \<and> irq_notifications s AND NOT 0xF = 0 \<and> ccerr s AND NOT 0x00030003 = 0 \<and>
     (\<forall>r<4. qrae s r AND NOT 0xFF = 0) \<and>
     (\<forall>p<128. legal_opt (param s p 0) \<and> param s p 7 AND 0xFFFF0000 = 0)"
  unfolding edma_valid_def list_all_iff set_upt by auto

text \<open>Setting and clearing bits under a mask.\<close>

lemma masked_clear:
  assumes "(x :: u32) AND k = 0" shows "(x AND y) AND k = 0"
proof -
  have "(x AND y) AND k = (x AND k) AND y" by (simp only: and.assoc and.commute and.left_commute)
  then show ?thesis using assms by simp
qed

lemma masked_or: "(x :: u32) AND k = 0 \<Longrightarrow> y AND k = 0 \<Longrightarrow> (x OR y) AND k = 0"
  by (simp only: bit.conj_disj_distrib2 or.right_neutral)

lemma shl_1_masked_mask: "q < n \<Longrightarrow> shl (1 :: u32) q AND NOT (mask n) = 0"
  by (rule bit_word_eqI) (auto simp: bit_simps simp del: push_bit_of_1)

lemma shl_1_masked:
  "q < 8 \<Longrightarrow> shl (1 :: u32) q AND - 256 = 0" "r < 4 \<Longrightarrow> shl (1 :: u32) r AND - 16 = 0"
  using shl_1_masked_mask [of q 8] shl_1_masked_mask [of r 4]
  by (simp_all add: mask_eq_exp_minus_1 not_eq_complement del: push_bit_of_1)

lemmas edma_masks = masked_clear masked_or shl_1_masked

lemma legal_opt_0: "legal_opt 0"
  by (simp add: legal_opt_def)

lemma valid_clear: "edma_valid s \<Longrightarrow> edma_valid (clear_event s k c)"
  unfolding edma_valid_iff by (cases k) (simp_all add: clear_event_def masked_clear)

lemma valid_param_upd:
  "edma_valid s \<Longrightarrow> legal_opt (f 0) \<Longrightarrow> f 7 AND 0xFFFF0000 = 0 \<Longrightarrow>
     edma_valid (s\<lparr>param := (param s)(pset := f)\<rparr>)"
  unfolding edma_valid_iff by simp

lemma valid_link: "edma_valid s \<Longrightarrow> \<forall>q\<in>set qs. q < 8 \<Longrightarrow> edma_valid (fst (snd (link_trigger s queue qs)))"
proof (induction qs arbitrary: s queue)
  case (Cons q qs)
  define u where "u = (if flag (qer s) q then s\<lparr>qemr := qemr s OR shl 1 q\<rparr> else s\<lparr>qer := qer s OR shl 1 q\<rparr>)"
  have "edma_valid u"
    using Cons.prems unfolding edma_valid_iff u_def by (simp add: masked_or shl_1_masked del: push_bit_of_1)
  then show ?case
    unfolding link_trigger.simps Let_def u_def [symmetric]
    using Cons by (cases "enqueue queue EVENT_QDMA q") simp_all
qed simp

lemma ccnt_minus_1:
  assumes "(w :: u32) AND 0xFFFF \<noteq> 0"
  shows "(w AND 0xFFFF) - 1 AND 0xFFFF0000 = 0"
proof -
  have "unat (w AND 0xFFFF) < 65536"
    by (simp add: and_mask_numerals unsigned_take_bit_eq take_bit_eq_mod unat_mod)
  moreover have "unat ((w AND 0xFFFF) - 1) = unat (w AND 0xFFFF) - 1" using assms by (simp add: unat_minus_one)
  ultimately have "unat ((w AND 0xFFFF) - 1) < 2 ^ 16" by simp
  then have "take_bit 16 (unat ((w AND 0xFFFF) - 1)) = unat ((w AND 0xFFFF) - 1)" by (rule take_bit_nat_eq_self)
  then have "(w AND 0xFFFF) - 1 = take_bit 16 ((w AND 0xFFFF) - 1)" by (simp add: word_unat_eq_iff unsigned_take_bit_eq)
  then have b: "bit ((w AND 0xFFFF) - 1) i \<Longrightarrow> i < 16" for i by (metis bit_take_bit_iff)
  show ?thesis
    unfolding and_high_half by (rule bit_word_eqI) (auto simp only: bit_push_bit_iff bit_drop_bit_eq o_def bit_0_eq bot_apply bot_bool_def dest: b)
qed

lemma valid_update:
  assumes v: "edma_valid s" and p: "valid_param orig"
  shows "edma_valid (fst (snd (update_params s pset orig queue)))"
proof -
  have o: "legal_opt (orig 0)" "orig 7 AND 0xFFFF \<noteq> 0" "orig 7 AND 0xFFFF0000 = 0"
    "(ucast (orig 5) :: u16) \<noteq> 0xFFFF \<longrightarrow> \<not> (ucast (ucast (orig 5) :: u16) AND 0x3FFF :: u32) \<ge> 128 * 32"
    using p unfolding valid_param_def Let_def by (auto split: if_splits)
  have n: "legal_opt (next_param orig 0)" "next_param orig 7 AND 0xFFFF0000 = 0"
    using o ccnt_minus_1 [OF o(2)] by (simp_all add: next_param_def Let_def)
  consider "flag (orig 0) OPT_STATIC" | "\<not> flag (orig 0) OPT_STATIC" "\<not> final_event orig"
    | "\<not> flag (orig 0) OPT_STATIC" "final_event orig" "(ucast (orig 5) :: u16) = 0xFFFF"
    | "\<not> flag (orig 0) OPT_STATIC" "final_event orig" "(ucast (orig 5) :: u16) \<noteq> 0xFFFF" by blast
  then show ?thesis
  proof cases
    case 1 then show ?thesis using v by (simp add: update_params_def)
  next
    case 2 then show ?thesis using v n valid_param_upd by (simp add: update_params_def)
  next
    case 3
    have "edma_valid (s\<lparr>param := (param s)(pset := (\<lambda>_. 0)(5 := 0xFFFF))\<rparr>)"
      using v legal_opt_0 by (intro valid_param_upd) simp_all
    then show ?thesis using 3 by (simp add: update_params_def)
  next
    case 4
    define l where "l = unat ((ucast (ucast (orig 5) :: u16) AND 0x3FFF :: u32) div 32)"
    have "l < 128"
      using o(4) 4(3) by (simp add: l_def unat_div_distrib word_le_nat_alt not_le div_less_dividend less_mult_imp_div_less)
    then have "legal_opt (param s l 0)" "param s l 7 AND 0xFFFF0000 = 0" using v unfolding edma_valid_iff by blast+
    then have "edma_valid (s\<lparr>param := (param s)(pset := param s l)\<rparr>)" using v by (intro valid_param_upd)
    then have "edma_valid (fst (snd (link_trigger (s\<lparr>param := (param s)(pset := param s l)\<rparr>) queue
        (link_matches (s\<lparr>param := (param s)(pset := param s l)\<rparr>) pset))))"
      by (rule valid_link) (simp add: link_matches_def)
    then show ?thesis using 4 by (simp add: update_params_def Let_def l_def)
  qed
qed

lemma valid_interrupt: "edma_valid s \<Longrightarrow> edma_valid (complete_interrupt s tcc)"
proof -
  assume v: "edma_valid s"
  define g where "g = (\<lambda>r u. if \<not> region_pending s r \<and> region_pending u r
           then u\<lparr>irq_notifications := irq_notifications u OR shl 1 r\<rparr> else u)"
  have g: "edma_valid (g r u)" if "edma_valid u" "r < 4" for r u
    using that unfolding g_def edma_valid_iff by (simp add: masked_or shl_1_masked del: push_bit_of_1)
  have "edma_valid (fold g rs u)" if "edma_valid u" "\<forall>r\<in>set rs. r < 4" for rs u
    using that by (induction rs arbitrary: u) (simp_all add: g)
  moreover have "edma_valid (s\<lparr>ipr := ipr s OR shl 1 (unat tcc)\<rparr>)"
    using v unfolding edma_valid_iff by simp
  ultimately show ?thesis unfolding complete_interrupt_def Let_def g_def by simp
qed

lemma valid_finish:
  assumes "edma_valid s" "valid_param orig"
  shows "edma_valid (fst (snd (finish_event k c pset orig s queue)))"
proof -
  obtain ok s1 q1 where u: "update_params (clear_event s k c) pset orig queue = (ok, s1, q1)"
    by (cases "update_params (clear_event s k c) pset orig queue") auto
  then have s1: "edma_valid s1" using valid_update [OF valid_clear [OF assms(1)] assms(2), of k c pset queue] by simp
  let ?s2 = "if flag (orig 0) (if final_event orig then OPT_TCINTEN else OPT_ITCINTEN)
      then complete_interrupt s1 (shr (orig 0) 12 AND 0x3F) else s1"
  have s2: "edma_valid ?s2" using s1 valid_interrupt by simp
  have c: "edma_valid (chain_event u t)" "edma_valid (count_transfer u orig)" if "edma_valid u" for u t
    using that unfolding edma_valid_iff by (simp_all add: chain_event_def count_transfer_def)
  show ?thesis
    unfolding finish_event_def Let_def u prod.case
    using s1 s2 c by (auto split: option.split)
qed

lemma valid_complete:
  "edma_valid s \<Longrightarrow> complete_one bus c ev s m queue = (ok, s', m', queue') \<Longrightarrow> edma_valid s'"
proof -
  have t: "transfer_bytes bus c p m = (True, x) \<Longrightarrow> valid_param p" for p x
    by (simp add: transfer_bytes_def split: if_splits)
  show "edma_valid s \<Longrightarrow> complete_one bus c ev s m queue = (ok, s', m', queue') \<Longrightarrow> edma_valid s'"
    unfolding complete_one_def Let_def
    using valid_finish by (auto split: prod.splits if_splits dest!: t) (metis fst_conv snd_conv)+
qed

lemma valid_service_loop:
  "edma_valid s \<Longrightarrow> service_loop bus c s m queue head = (ok, s', m') \<Longrightarrow> edma_valid s'"
proof (induction bus c s m queue head rule: service_loop.induct)
  case (1 bus c s m queue head)
  show ?case
  proof (cases "head < length queue")
    case True
    obtain ok1 s1 m1 q1 where c1: "complete_one bus c (queue ! head) s m queue = (ok1, s1, m1, q1)"
      by (cases "complete_one bus c (queue ! head) s m queue") auto
    show ?thesis
      using 1 True c1 valid_complete [OF 1(2) c1] by (cases ok1) (auto simp: service_loop.simps [of bus c s])
  qed (use 1 in \<open>simp add: service_loop.simps\<close>)
qed

lemma valid_service: "edma_valid s \<Longrightarrow> service bus c evs s m = (ok, s', m') \<Longrightarrow> edma_valid s'"
  by (auto simp: service_def split: option.splits dest: valid_service_loop)

lemma valid_trigger:
  assumes "edma_valid s" "edma_valid (latch s)" "trigger bus c latch evs s m = (ok, s', m')"
  shows "edma_valid s'"
  using assms valid_service by (auto simp: trigger_def split: prod.splits if_splits)

text \<open>Validity of the controller an operation leaves, and how it goes through a cascade of cases.\<close>

definition leaves_valid :: "bool \<times> edma \<times> 'm \<Rightarrow> bool" where
  "leaves_valid x \<longleftrightarrow> edma_valid (fst (snd x))"

lemma leaves_valid_leaf: "edma_valid s \<Longrightarrow> leaves_valid (ok, s, m)"
  by (simp add: leaves_valid_def)

lemma edma_valid_if: "edma_valid s \<Longrightarrow> edma_valid t \<Longrightarrow> edma_valid (if c then s else t)"
  by simp

lemma leaves_valid_if:
  "(b \<Longrightarrow> leaves_valid x) \<Longrightarrow> (\<not> b \<Longrightarrow> leaves_valid y) \<Longrightarrow> leaves_valid (if b then x else y)"
  by simp

lemma leaves_valid_trigger: "edma_valid s \<Longrightarrow> edma_valid (latch s) \<Longrightarrow> leaves_valid (trigger bus c latch evs s m)"
  using valid_trigger unfolding leaves_valid_def by (metis prod.collapse)

text \<open>Register updates that keep validity, one rule per register group.\<close>

lemma valid_regs:
  assumes "edma_valid s"
  shows "edma_valid (s\<lparr>er := a\<rparr>)" "edma_valid (s\<lparr>esr := a\<rparr>)" "edma_valid (s\<lparr>eer := a\<rparr>)" "edma_valid (s\<lparr>ser := a\<rparr>)"
    "edma_valid (s\<lparr>ier := a\<rparr>)" "edma_valid (s\<lparr>ipr := a\<rparr>)" "edma_valid (s\<lparr>emr := a\<rparr>)" "edma_valid (s\<lparr>drae := f\<rparr>)"
    "edma_valid (s\<lparr>qeer := qeer s AND x\<rparr>)" "edma_valid (s\<lparr>qser := qser s AND x\<rparr>)" "edma_valid (s\<lparr>qemr := qemr s AND x\<rparr>)"
    "edma_valid (s\<lparr>ccerr := ccerr s AND x\<rparr>)" "edma_valid (s\<lparr>irq_notifications := irq_notifications s AND x\<rparr>)"
    "a AND NOT 0xFF = 0 \<Longrightarrow> edma_valid (s\<lparr>qeer := qeer s OR a\<rparr>)"
    "a AND NOT 0xFF = 0 \<Longrightarrow> edma_valid (s\<lparr>qrae := (qrae s)(n := a)\<rparr>)"
    "a AND NOT 0x1F1F = 0 \<Longrightarrow> edma_valid (s\<lparr>qwmthra := a\<rparr>)"
    "legal_qchmap a \<Longrightarrow> edma_valid (s\<lparr>qchmap := (qchmap s)(n := a)\<rparr>)"
    "legal_queue_map a \<Longrightarrow> edma_valid (s\<lparr>dmaqnum := (dmaqnum s)(n := a)\<rparr>)"
    "legal_queue_map a \<Longrightarrow> edma_valid (s\<lparr>qdmaqnum := a\<rparr>)"
    "r < 4 \<Longrightarrow> edma_valid (s\<lparr>irq_notifications := irq_notifications s OR shl 1 r\<rparr>)"
  using assms unfolding edma_valid_iff by (simp_all add: edma_masks del: push_bit_of_1)

lemma channel_view_bounds:
  assumes "edma_valid s" "channel_view s off = Some (local, dmask, qmask, region)"
  shows "qmask AND NOT 0xFF = 0 \<and> (\<forall>r. region = Some r \<longrightarrow> r < 4)"
proof -
  have "(0xFF :: u32) AND NOT 0xFF = 0" by (simp only: bit.conj_cancel_right)
  then have "(x AND 0xFF) AND NOT 0xFF = 0" for x :: u32
    by (simp only: and.assoc and_zero_eq)
  then show ?thesis
    using assms(2) \<open>0xFF AND NOT 0xFF = 0\<close> by (auto simp: channel_view_def Let_def simp del: bit.conj_cancel_right split: if_splits)
qed

lemma valid_write_channel:
  assumes v: "edma_valid s" and q: "qmask AND NOT 0xFF = 0" "\<forall>r. region = Some r \<longrightarrow> r < 4"
  shows "leaves_valid (write_channel bus local dmask qmask region x c s m)"
proof -
  have qm: "(x AND qmask) AND NOT 0xFF = 0" by (simp only: and.assoc q(1) and_zero_eq)
  have i: "edma_valid (case region of Some r \<Rightarrow> if b \<and> P r then s\<lparr>irq_notifications := irq_notifications s OR shl 1 r\<rparr> else s
      | None \<Rightarrow> s)" for b P
    using v q(2) valid_regs(20) [OF v] by (auto split: option.split)
  show ?thesis
    unfolding write_channel_def Let_def
    by (intro leaves_valid_if leaves_valid_leaf leaves_valid_trigger v valid_regs i qm edma_valid_if)
qed

lemma param_index_bound:
  assumes "0x4000 \<le> off" "(off :: u32) < 0x5000"
  shows "unat ((off - 0x4000) div 32) < 128"
proof -
  have "unat (off - 0x4000) < 0x1000" using assms by unat_arith
  then show ?thesis by (simp add: unat_div)
qed

text \<open>A parameter write checks the two words that matter; the set and word index are in range.\<close>

lemma valid_store_words:
  assumes v: "edma_valid s" "pset < 128"
    and ws: "\<not> (\<exists>i<length ws. (word + i = 0 \<and> \<not> legal_opt (ws ! i)) \<or> (word + i = 7 \<and> ws ! i AND 0xFFFF0000 \<noteq> 0))"
  shows "edma_valid (store_words pset word ws s)"
proof -
  have p: "legal_opt (param s pset 0)" "param s pset 7 AND 0xFFFF0000 = 0"
    using v unfolding edma_valid_iff by blast+
  let ?f = "\<lambda>k. if word \<le> k \<and> k < word + length ws then ws ! (k - word) else param s pset k"
  have "legal_opt (?f 0)" using p(1) ws by auto
  moreover have "?f 7 AND 0xFFFF0000 = 0"
  proof (cases "word \<le> 7 \<and> 7 < word + length ws")
    case True
    then have "7 - word < length ws" "word + (7 - word) = 7" by linarith+
    then have "ws ! (7 - word) AND 0xFFFF0000 = 0" using ws by blast
    then show ?thesis using True by (simp only: if_True simp_thms)
  next
    case False
    then show ?thesis using p(2) by (simp only: if_False)
  qed
  ultimately show ?thesis unfolding store_words_def by (intro valid_param_upd v(1))
qed

lemma valid_latch_qdma:
  assumes "edma_valid s" "\<forall>q\<in>set qs. q < 8"
  shows "edma_valid (latch_qdma qs s)"
proof -
  have "fold (\<lambda>q r. r OR shl 1 q) qs r AND NOT 0xFF = 0" if "r AND NOT 0xFF = 0" "\<forall>q\<in>set qs. q < 8" for r :: u32 and qs
    using that by (induction qs arbitrary: r) (simp_all add: edma_masks del: push_bit_of_1)
  then show ?thesis using assms unfolding edma_valid_iff latch_qdma_def by simp
qed

lemma valid_write_param:
  assumes v: "edma_valid s" "pset < 128"
  shows "leaves_valid (write_param bus pset word ws c s m)"
proof (cases "\<exists>i<length ws. (word + i = 0 \<and> \<not> legal_opt (ws ! i)) \<or> (word + i = 7 \<and> ws ! i AND 0xFFFF0000 \<noteq> 0)")
  case True
  then show ?thesis using v by (simp add: write_param_def leaves_valid_leaf)
next
  case False
  define qs where "qs = qdma_matches (store_words pset word ws s) pset word (length ws)"
  define t where "t = latch_qdma qs (store_words pset word ws s)"
  have t: "edma_valid t"
    unfolding t_def by (intro valid_latch_qdma valid_store_words v False) (simp add: qs_def qdma_matches_def)
  have r: "leaves_valid (service bus True evs t m')" for evs m'
    unfolding leaves_valid_def using valid_service [OF t] by (metis prod.collapse)
  show ?thesis
    unfolding write_param_def Let_def qs_def [symmetric] t_def [symmetric] using False v t r
    by (auto simp: leaves_valid_leaf split: prod.split)
qed

lemma valid_write: "edma_valid s \<Longrightarrow> leaves_valid (edma_write bus a x n c s m)"
proof -
  assume v: "edma_valid s"
  have ch: "leaves_valid (case channel_view s off of
        Some (local, dmask, qmask, region) \<Rightarrow> write_channel bus local dmask qmask region w c s m | None \<Rightarrow> (False, s, m))" for off w
  proof (cases "channel_view s off")
    case (Some y)
    obtain local dmask qmask region where y: "y = (local, dmask, qmask, region)" by (cases y)
    show ?thesis
      using channel_view_bounds [OF v Some [unfolded y]]
      unfolding Some y option.case prod.case by (intro valid_write_channel v) blast+
  qed (simp add: v leaves_valid_leaf)
  show ?thesis
  proof (cases "edma_locate a")
    case None
    then show ?thesis by (simp add: edma_write_def v leaves_valid_leaf)
  next
    case (Some off)
    have nn: "\<not> \<not> P \<Longrightarrow> P" "\<not> P \<noteq> Q \<Longrightarrow> P = Q" for P Q :: bool by blast+
    have pw: "0x4000 \<le> off \<and> off < 0x5000 \<Longrightarrow>
        leaves_valid (write_param bus (unat ((off - 0x4000) div 32)) word ws c s m)" for word ws
      by (intro valid_write_param v param_index_bound) blast+
    show ?thesis
      unfolding edma_write_def Some option.case Let_def
      by (intro leaves_valid_if pw ch; (assumption)?; (intro leaves_valid_leaf edma_valid_if v valid_regs; blast?)?)
  qed
qed

section \<open>Reachable controllers\<close>

text \<open>The controller with its client's memory: register writes, peripheral events, taken interrupt
  notifications, and whatever the rest of the machine does to the memory.\<close>

inductive edma_reachable :: "'m edma_bus \<Rightarrow> edma \<Rightarrow> 'm \<Rightarrow> bool" for bus where
  at_reset: "edma_reachable bus edma_reset m"
| at_write: "edma_reachable bus s m \<Longrightarrow> edma_write bus a v n c s m = (ok, s', m') \<Longrightarrow> edma_reachable bus s' m'"
| at_event: "edma_reachable bus s m \<Longrightarrow> edma_event bus channel s m = (ok, s', m') \<Longrightarrow> edma_reachable bus s' m'"
| at_notification: "edma_reachable bus s m \<Longrightarrow> edma_take_irq_notification s r = (ok, s') \<Longrightarrow> edma_reachable bus s' m"
| at_memory: "edma_reachable bus s m \<Longrightarrow> edma_reachable bus s m'"

inductive_cases edma_reachableE: "edma_reachable bus s m"

lemma valid_reset: "edma_valid edma_reset"
  by (simp add: edma_valid_iff edma_reset_def legal_qchmap_def legal_queue_map_def legal_opt_def)

lemma valid_latch_event: "edma_valid s \<Longrightarrow> edma_valid (latch_event channel s)"
  by (simp add: latch_event_def Let_def valid_regs)

lemma valid_event: "edma_valid s \<Longrightarrow> edma_event bus channel s m = (ok, s', m') \<Longrightarrow> edma_valid s'"
  unfolding edma_event_def
  by (auto simp: valid_regs split: if_splits dest!: valid_trigger [where latch = "latch_event channel", rotated 2]
    intro: valid_latch_event)

lemma valid_take: "edma_valid s \<Longrightarrow> edma_take_irq_notification s r = (ok, s') \<Longrightarrow> edma_valid s'"
  by (auto simp: edma_take_irq_notification_def valid_regs split: if_splits)

text \<open>C7: in every controller reached from reset, by any register writes, peripheral events and
  notifications over any bus, every register is legal: what the code's own validity predicate for a
  restored checkpoint asks always holds.\<close>

theorem edma_reachable_valid: "edma_reachable bus s m \<Longrightarrow> edma_valid s"
proof (induction rule: edma_reachable.induct)
  case (at_write s m a v n c ok s' m')
  then show ?case using valid_write [of s bus a v n c m] by (simp add: leaves_valid_def)
qed (auto intro: valid_reset valid_event valid_take)

definition no_memory_bus :: "unit edma_bus" where
  "no_memory_bus = \<lparr>bus_read = (\<lambda>_ _ _. None), bus_write = (\<lambda>m _ _ _. (False, m))\<rparr>"

lemma edma_reachable_valid_witness:
  "edma_valid (fst (snd (edma_write no_memory_bus 0x01C00200 0x0FE0 4 True edma_reset ())))"
proof -
  have "edma_reachable no_memory_bus (fst (snd (edma_write no_memory_bus 0x01C00200 0x0FE0 4 True edma_reset ()))) ()"
    by (rule edma_reachable.at_write [OF edma_reachable.at_reset]) (simp add: prod_eq_iff)
  then show ?thesis by (rule edma_reachable_valid)
qed

section \<open>One event\<close>

lemma complete_interrupt_fields:
  "param (complete_interrupt s tcc) = param s" "er (complete_interrupt s tcc) = er s"
  "ipr (complete_interrupt s tcc) = ipr s OR shl 1 (unat tcc)"
  "transfer_requests (complete_interrupt s tcc) = transfer_requests s"
  "bytes_transferred (complete_interrupt s tcc) = bytes_transferred s"
proof -
  define g where "g = (\<lambda>r u. if \<not> region_pending s r \<and> region_pending u r
      then u\<lparr>irq_notifications := irq_notifications u OR shl 1 r\<rparr> else u)"
  have "param (fold g rs u) = param u \<and> er (fold g rs u) = er u \<and> ipr (fold g rs u) = ipr u \<and>
      transfer_requests (fold g rs u) = transfer_requests u \<and> bytes_transferred (fold g rs u) = bytes_transferred u" for rs u
    by (induction rs arbitrary: u) (simp_all add: g_def)
  then show "param (complete_interrupt s tcc) = param s" "er (complete_interrupt s tcc) = er s"
    "ipr (complete_interrupt s tcc) = ipr s OR shl 1 (unat tcc)"
    "transfer_requests (complete_interrupt s tcc) = transfer_requests s"
    "bytes_transferred (complete_interrupt s tcc) = bytes_transferred s"
    unfolding complete_interrupt_def Let_def g_def [symmetric] by simp_all
qed

lemma trigger_one:
  assumes "complete_one bus False ev (latch s) m [ev] = (True, s', m, [ev])"
    "complete_one bus True ev (latch s) m [ev] = (True, s', m', [ev])"
  shows "trigger bus True latch [ev] s m = (True, s', m')"
  using assms by (cases ev) (simp add: trigger_def service_def enqueue_def service_loop.simps)

text \<open>What a set becomes when the event it served is an A-synchronised one: a static set stays; a set with arrays
  left in its frame moves on by the B indices; a set with frames left reloads its B count and moves on by the
  C indices; a set that has served its last event becomes the set its link names, or the null set.\<close>

definition array_successor :: "edma \<Rightarrow> param_set \<Rightarrow> param_set" where
  "array_successor s p =
     (if flag (p 0) OPT_STATIC then p
      else if 1 < shr (p 2) 16 then p(1 := p 1 + index_lo (p 4), 2 := p 2 - 0x10000, 3 := p 3 + index_hi (p 4))
      else if 1 < p 7 then
        p(1 := p 1 + index_lo (p 6), 2 := (p 2 AND 0xFFFF) OR (p 5 AND 0xFFFF0000), 3 := p 3 + index_hi (p 6), 7 := p 7 - 1)
      else if p 5 AND 0xFFFF = 0xFFFF then (\<lambda>_. 0)(5 := 0xFFFF)
      else param s (unat ((p 5 AND 0x3FFF) div 32)))"

text \<open>The last event of a linked set.\<close>

definition links :: "param_set \<Rightarrow> bool" where
  "links p \<longleftrightarrow> \<not> flag (p 0) OPT_STATIC \<and> final_event p \<and> p 5 AND 0xFFFF \<noteq> 0xFFFF"

lemma halves_apart: "(w AND 0xFFFF) AND shl (v :: u32) 16 = 0"
  unfolding and_mask_numerals by (rule bit_word_eqI) (auto simp: bit_simps)

lemma halves_join: "(w AND 0xFFFF) OR shl (shr (w :: u32) 16) 16 = w"
  unfolding and_mask_numerals
proof (rule bit_word_eqI)
  fix n
  show "bit (take_bit 16 w OR shl (shr w 16) 16) n = bit w n" if "n < LENGTH(32)"
    using that by (cases "n < 16") (simp_all add: bit_simps)
qed

lemma bcnt_minus_1: "1 < shr (w :: u32) 16 \<Longrightarrow> (w AND 0xFFFF) OR shl (shr w 16 - 1) 16 = w - 0x10000"
proof -
  assume a: "1 < shr w 16"
  have w: "w = (w AND 0xFFFF) + shl (shr w 16) 16"
  proof -
    have "(w AND 0xFFFF) + shl (shr w 16) 16 = (w AND 0xFFFF) OR shl (shr w 16) 16"
      by (rule disjunctive_add_eq_or [OF halves_apart])
    also have "\<dots> = w" by (rule halves_join)
    finally show ?thesis by simp
  qed
  have "(w AND 0xFFFF) OR shl (shr w 16 - 1) 16 = (w AND 0xFFFF) + shl (shr w 16 - 1) 16"
    by (rule disjunctive_add_eq_or [OF halves_apart, symmetric])
  moreover have "shl (shr w 16 - 1) 16 = shl (shr w 16) 16 - 0x10000" by (simp add: push_bit_eq_mult algebra_simps)
  moreover have "(w AND 0xFFFF) + (shl (shr w 16) 16 - 0x10000) = w - 0x10000"
    by (simp only: add_diff_eq w [symmetric])
  ultimately show ?thesis by (simp only:)
qed

lemma update_array:
  assumes "valid_param p" "\<not> flag (p 0) OPT_SYNCDIM" "links p \<longrightarrow> link_matches s channel = []" "param s channel = p"
  shows "update_params s channel p queue = (True, s\<lparr>param := (param s)(channel := array_successor s p)\<rparr>, queue)"
proof -
  have c: "p 7 AND 0xFFFF0000 = 0" "p 7 AND 0xFFFF \<noteq> 0" "shr (p 2) 16 \<noteq> 0"
    using assms(1) unfolding valid_param_def Let_def by (auto split: if_splits)
  have "(p 7 AND 0xFFFF) OR (p 7 AND 0xFFFF0000) = p 7" by (simp only: and_high_half halves_join)
  then have p7: "p 7 AND 0xFFFF = p 7" by (simp only: c(1) or.right_neutral)
  then have nz: "p 7 \<noteq> 0" using c(2) by simp
  have le1: "w \<noteq> 0 \<Longrightarrow> \<not> 1 < w \<longleftrightarrow> w = 1" for w :: u32 by unat_arith
  have f: "final_event p \<longleftrightarrow> \<not> 1 < shr (p 2) 16 \<and> \<not> 1 < p 7"
    using assms(2) le1 [OF nz] le1 [OF c(3)] by (simp only: final_event_def p7 simp_thms)
  have l: "(ucast (p 5) :: u16) = 0xFFFF \<longleftrightarrow> p 5 AND 0xFFFF = 0xFFFF"
    "(ucast (ucast (p 5) :: u16) AND 0x3FFF :: u32) = p 5 AND 0x3FFF"
  proof -
    have "unsigned (ucast (p 5) :: u16) = p 5 AND (0xFFFF :: u32)"
      unfolding and_mask_numerals by (rule bit_word_eqI) (auto simp: bit_simps)
    moreover have "x = 0xFFFF \<longleftrightarrow> (ucast x :: u32) = 0xFFFF" for x :: u16
      by (simp add: word_unat_eq_iff unsigned_ucast_eq)
    ultimately show "(ucast (p 5) :: u16) = 0xFFFF \<longleftrightarrow> p 5 AND 0xFFFF = 0xFFFF" by metis
  next
    have m: "w AND 0x3FFF = take_bit 14 w" for w :: u32 by (simp add: take_bit_eq_mask mask_eq_exp_minus_1)
    show "(ucast (ucast (p 5) :: u16) AND 0x3FFF :: u32) = p 5 AND 0x3FFF"
      unfolding m by (rule bit_word_eqI) (auto simp: bit_simps)
  qed
  have same: "s\<lparr>param := (param s)(channel := p)\<rparr> = s" using assms(4) by (metis edma.surjective edma.update_convs(1) fun_upd_triv)
  have next7: "p 7 - 1 = (p 7 AND 0xFFFF) - 1" using p7 by simp
  consider "flag (p 0) OPT_STATIC" | "\<not> flag (p 0) OPT_STATIC" "1 < shr (p 2) 16"
    | "\<not> flag (p 0) OPT_STATIC" "\<not> 1 < shr (p 2) 16" "1 < p 7" | "\<not> flag (p 0) OPT_STATIC" "\<not> 1 < shr (p 2) 16" "\<not> 1 < p 7"
    by blast
  then show ?thesis
  proof cases
    case 1
    then show ?thesis by (simp add: update_params_def array_successor_def same)
  next
    case 2
    have "next_param p = array_successor s p"
      using 2 assms(2) bcnt_minus_1 [OF 2(2)] by (auto simp: next_param_def array_successor_def Let_def)
    then show ?thesis using 2 f by (simp add: update_params_def)
  next
    case 3
    have "next_param p = array_successor s p"
      using 3 assms(2) p7 by (auto simp: next_param_def array_successor_def Let_def)
    then show ?thesis using 3 f by (simp add: update_params_def)
  next
    case 4
    then show ?thesis
      using assms(3) by (auto simp: update_params_def array_successor_def Let_def f l links_def link_matches_def)
  qed
qed

text \<open>An event on a bus that accepts the array.\<close>

lemma edma_event_array:
  assumes ch: "channel < 32" "flag (eer s) channel"
    and p: "param s channel = p" "valid_param p" "\<not> flag (p 0) OPT_SYNCDIM"
      "\<not> flag (p 0) (if final_event p then OPT_TCCHEN else OPT_ITCCHEN)" "links p \<longrightarrow> link_matches s channel = []"
    and r: "bus_read bus m (p 1) (unat (p 2 AND 0xFFFF)) = Some bs"
    and w: "bus_write bus m (p 3) bs False = (True, m)" "bus_write bus m (p 3) bs True = (True, m')"
  shows "\<exists>s'. edma_event bus channel s m = (True, s', m') \<and>
    param s' = (param s)(channel := array_successor s p) \<and>
    ipr s' = ipr s OR (if flag (p 0) (if final_event p then OPT_TCINTEN else OPT_ITCINTEN)
      then shl 1 (unat (shr (p 0) 12 AND 0x3F)) else 0) \<and>
    er s' = er s AND NOT (shl 1 channel) \<and> transfer_requests s' = transfer_requests s + 1 \<and>
    bytes_transferred s' = bytes_transferred s + ucast (p 2 AND 0xFFFF)"
proof -
  define t where "t = clear_event (latch_event channel s) EVENT_DMA channel"
  define u where "u = t\<lparr>param := (param s)(channel := array_successor s p)\<rparr>"
  define v where "v = (if flag (p 0) (if final_event p then OPT_TCINTEN else OPT_ITCINTEN)
      then complete_interrupt u (shr (p 0) 12 AND 0x3F) else u)"
  have par: "param (latch_event channel s) = param s" "param t = param s" "qeer t = qeer s" "qchmap t = qchmap s"
    by (simp_all add: t_def latch_event_def clear_event_def Let_def)
  have "links p \<longrightarrow> link_matches t channel = []" using p(5) by (simp add: link_matches_def par)
  moreover have "array_successor t p = array_successor s p" by (simp add: array_successor_def par)
  ultimately have up: "update_params t channel p [(EVENT_DMA, channel)] = (True, u, [(EVENT_DMA, channel)])"
    using update_array [OF p(2,3), of t channel] p(1) by (simp add: u_def par)
  have fin: "finish_event EVENT_DMA channel channel p (latch_event channel s) [(EVENT_DMA, channel)]
      = (True, count_transfer v p, [(EVENT_DMA, channel)])"
    using p(4) up unfolding finish_event_def Let_def t_def [symmetric] by (simp add: v_def)
  have x: "transfer_bytes bus False p m = (True, m)" "transfer_bytes bus True p m = (True, m')"
    using p r w by (simp_all add: transfer_bytes_def)
  have c: "complete_one bus False (EVENT_DMA, channel) (latch_event channel s) m [(EVENT_DMA, channel)]
        = (True, count_transfer v p, m, [(EVENT_DMA, channel)])"
      "complete_one bus True (EVENT_DMA, channel) (latch_event channel s) m [(EVENT_DMA, channel)]
        = (True, count_transfer v p, m', [(EVENT_DMA, channel)])"
    using ch x p fin by (simp_all add: complete_one_def par)
  have "edma_event bus channel s m = (True, count_transfer v p, m')"
    using ch trigger_one [where latch = "latch_event channel" and s = s, OF c] by (simp add: edma_event_def)
  moreover have "er t = er s AND NOT (shl 1 channel)"
    by (rule bit_word_eqI) (auto simp: t_def latch_event_def clear_event_def Let_def bit_simps simp del: push_bit_of_1)
  then have "er v = er s AND NOT (shl 1 channel)" by (simp add: v_def u_def complete_interrupt_fields)
  moreover have "param v = (param s)(channel := array_successor s p)"
    by (simp add: v_def u_def complete_interrupt_fields)
  moreover have "ipr v = ipr s OR (if flag (p 0) (if final_event p then OPT_TCINTEN else OPT_ITCINTEN)
      then shl 1 (unat (shr (p 0) 12 AND 0x3F)) else 0)"
    by (simp add: v_def u_def complete_interrupt_fields t_def latch_event_def clear_event_def Let_def del: push_bit_of_1)
  moreover have "transfer_requests v = transfer_requests s" "bytes_transferred v = bytes_transferred s"
    by (simp_all add: v_def u_def complete_interrupt_fields t_def latch_event_def clear_event_def Let_def)
  ultimately show ?thesis using p(3) by (simp add: count_transfer_def)
qed

text \<open>A bus that records the writes it commits and reads zeros, for the examples.\<close>

definition recording_bus :: "(u32 \<times> u8 list) list edma_bus" where
  "recording_bus = \<lparr>bus_read = (\<lambda>_ _ n. Some (replicate n 0)),
     bus_write = (\<lambda>m a bs c. (True, if c then m @ [(a, bs)] else m))\<rparr>"

lemma recording_bus_memory: "edma_memory recording_bus"
  by unfold_locales (auto simp: recording_bus_def)

definition example_edma :: "u32 \<Rightarrow> edma" where
  "example_edma opt = edma_reset\<lparr>eer := 4,
     param := (\<lambda>n. if n = 2 then (\<lambda>k. [opt, 0x11800000, 0x00030002, 0x80000000, 0x00020002, 0xFFFF, 0, 1] ! k) else (\<lambda>_. 0))\<rparr>"

section \<open>Chaining that never ends\<close>

text \<open>A completion that keeps its sets and chains to its own channel only lengthens the queue.\<close>

lemma self_chain_loop:
  assumes step: "\<And>s queue. P s \<Longrightarrow> length queue < SERVICE_LIMIT \<Longrightarrow>
      \<exists>s'. complete_one bus c (EVENT_DMA, channel) s m queue = (True, s', m, queue @ [(EVENT_DMA, channel)]) \<and> P s'"
    and stop: "\<And>s queue. P s \<Longrightarrow> length queue = SERVICE_LIMIT \<Longrightarrow> \<not> fst (complete_one bus c (EVENT_DMA, channel) s m queue)"
  shows "P s \<Longrightarrow> length queue = Suc head \<Longrightarrow> queue ! head = (EVENT_DMA, channel) \<Longrightarrow> length queue \<le> SERVICE_LIMIT \<Longrightarrow>
    \<not> fst (service_loop bus c s m queue head)"
proof (induction "SERVICE_LIMIT - length queue" arbitrary: s queue head)
  case 0
  then have "length queue = SERVICE_LIMIT" by linarith
  from stop [OF "0.prems"(1) this] show ?case
    using 0 by (auto simp: service_loop.simps [of bus c s] split: prod.splits)
next
  case (Suc k)
  then have lt: "length queue < SERVICE_LIMIT" by linarith
  obtain s' where s': "complete_one bus c (EVENT_DMA, channel) s m queue = (True, s', m, queue @ [(EVENT_DMA, channel)])" "P s'"
    using step [OF Suc.prems(1) lt] by blast
  have "\<not> fst (service_loop bus c s' m (queue @ [(EVENT_DMA, channel)]) (head + 1))"
  proof (rule Suc.hyps(1) [OF _ s'(2)])
    show "k = SERVICE_LIMIT - length (queue @ [(EVENT_DMA, channel)])" using Suc.hyps(2) by simp
  qed (use Suc.prems lt in \<open>simp_all add: nth_append\<close>)
  then show ?case using Suc.prems s' by (simp add: service_loop.simps [of bus c s])
qed

text \<open>C9: a set that keeps itself (STATIC) and chains every completion to its own channel would be served
  for ever; the service limit makes the event fail instead, and a failed event leaves controller and
  memory as they were, with nothing latched.\<close>

theorem edma_self_chain_rejected:
  assumes bus: "edma_memory bus"
    and ch: "channel < 32" "flag (eer s) channel"
    and p: "param s channel = p" "flag (p 0) OPT_STATIC" "flag (p 0) OPT_TCCHEN" "flag (p 0) OPT_ITCCHEN"
      "unat (shr (p 0) 12 AND 0x3F) = channel"
    and x: "fst (transfer_bytes bus False p m)"
  shows "edma_event bus channel s m = (False, s, m)"
proof -
  have x: "transfer_bytes bus False p m = (True, m)"
    using x edma_memory.transfer_bytes_check [OF bus, of p m] by (simp add: prod_eq_iff)
  have ci: "param (if b then complete_interrupt u tcc else u) = param u" for b u tcc
    by (simp add: complete_interrupt_fields)
  have fin: "\<exists>s'. finish_event EVENT_DMA channel channel p t queue =
      (length queue < SERVICE_LIMIT, s', if length queue < SERVICE_LIMIT then queue @ [(EVENT_DMA, channel)] else queue) \<and>
      param s' = param t" for t queue
  proof -
    define u where "u = clear_event t EVENT_DMA channel"
    have u: "param u = param t" by (simp add: u_def clear_event_def)
    define v where "v = (if flag (p 0) (if final_event p then OPT_TCINTEN else OPT_ITCINTEN)
      then complete_interrupt u (shr (p 0) 12 AND 0x3F) else u)"
    have v: "param v = param t" by (simp only: v_def ci u)
    have "update_params u channel p queue = (True, u, queue)" using p by (simp add: update_params_def)
    then show ?thesis
      using p v unfolding finish_event_def Let_def u_def [symmetric]
      by (auto simp: v_def [symmetric] enqueue_def count_transfer_def chain_event_def)
  qed
  have one: "\<exists>s'. complete_one bus False (EVENT_DMA, channel) t m queue =
      (length queue < SERVICE_LIMIT, s', m, if length queue < SERVICE_LIMIT then queue @ [(EVENT_DMA, channel)] else queue) \<and>
      param s' channel = p" if "param t channel = p" for t queue
    using fin [of t queue] ch x that by (auto simp: complete_one_def)
  have step: "\<exists>s'. complete_one bus False (EVENT_DMA, channel) t m queue = (True, s', m, queue @ [(EVENT_DMA, channel)]) \<and>
      param s' channel = p" if "param t channel = p" "length queue < SERVICE_LIMIT" for t queue
    using one [OF that(1), of queue] that(2) by simp
  have stop: "\<not> fst (complete_one bus False (EVENT_DMA, channel) t m queue)"
    if "param t channel = p" "length queue = SERVICE_LIMIT" for t queue
  proof -
    have "\<not> length queue < SERVICE_LIMIT" using that(2) by linarith
    then show ?thesis using one [OF that(1), of queue] by (elim exE) (simp only: fst_conv if_False simp_thms)
  qed
  have "\<not> fst (service_loop bus False t m [(EVENT_DMA, channel)] 0)" if "param t channel = p" for t
    by (rule self_chain_loop [where P = "\<lambda>t. param t channel = p", OF step stop]) (simp_all add: that)
  moreover have "param (latch_event channel s) channel = p" using p by (simp add: latch_event_def Let_def)
  ultimately have "\<not> fst (service bus False [(EVENT_DMA, channel)] (latch_event channel s) m)"
    by (simp add: service_def enqueue_def)
  moreover obtain ok t y where sv: "service bus False [(EVENT_DMA, channel)] (latch_event channel s) m = (ok, t, y)"
    by (cases "service bus False [(EVENT_DMA, channel)] (latch_event channel s) m") auto
  moreover have "y = m"
    using edma_memory.service_stable [OF bus sv, of False m] sv by simp
  ultimately show ?thesis using ch by (simp add: edma_event_def trigger_def)
qed

lemma edma_self_chain_rejected_witness:
  "edma_event recording_bus 2 (example_edma 0x00C02008) [] = (False, example_edma 0x00C02008, [])"
  by (rule edma_self_chain_rejected [OF recording_bus_memory _ _ refl]) code_simp+

end
