(* ===== verification/C6747_Edma_Simulation.thy ===== *)
theory C6747_Edma_Simulation
  imports C6747_Edma
begin

text \<open>
  Two clients of the EDMA controller whose buses simulate each other: related memories read
  the same bytes and stay related by the same write. Every operation of the controller then
  gives the same answer and the same controller over both, and leaves related memories.
\<close>

locale edma_simulation =
  fixes bus1 :: "'m edma_bus" and bus2 :: "'n edma_bus" and R :: "'m \<Rightarrow> 'n \<Rightarrow> bool"
  assumes sim_read: "R m n \<Longrightarrow> bus_read bus1 m a k = bus_read bus2 n a k"
    and sim_write: "R m n \<Longrightarrow> fst (bus_write bus1 m a bs c) = fst (bus_write bus2 n a bs c) \<and>
      R (snd (bus_write bus1 m a bs c)) (snd (bus_write bus2 n a bs c))"
begin

text \<open>Related results: same answer, same controller, related memories.\<close>

definition rel2 :: "bool \<times> 'm \<Rightarrow> bool \<times> 'n \<Rightarrow> bool" where
  "rel2 x y \<longleftrightarrow> fst x = fst y \<and> R (snd x) (snd y)"

definition rel3 :: "bool \<times> edma \<times> 'm \<Rightarrow> bool \<times> edma \<times> 'n \<Rightarrow> bool" where
  "rel3 x y \<longleftrightarrow> fst x = fst y \<and> fst (snd x) = fst (snd y) \<and> R (snd (snd x)) (snd (snd y))"

lemma rel3_leaf: "R m n \<Longrightarrow> rel3 (ok, s, m) (ok, s, n)"
  by (simp add: rel3_def)

lemma rel3_if: "rel3 x y \<Longrightarrow> rel3 x' y' \<Longrightarrow> rel3 (if b then x else x') (if b then y else y')"
  by simp

lemma sim_arrays:
  "R m n \<Longrightarrow> rel2 (transfer_arrays bus1 c idx count k src dst m) (transfer_arrays bus2 c idx count k src dst n)"
proof (induction k arbitrary: src dst m n)
  case (Suc k)
  show ?case
  proof (cases "bus_read bus1 m src count")
    case None
    then show ?thesis using Suc.prems sim_read [OF Suc.prems, of src count] by (simp add: rel2_def)
  next
    case (Some bs)
    then have r: "bus_read bus2 n src count = Some bs" using sim_read [OF Suc.prems, of src count] by simp
    obtain ok m1 where w1: "bus_write bus1 m dst bs False = (ok, m1)" by (cases "bus_write bus1 m dst bs False")
    then obtain n1 where w2: "bus_write bus2 n dst bs False = (ok, n1)" and R1: "R m1 n1"
      using sim_write [OF Suc.prems, of dst bs False] by (cases "bus_write bus2 n dst bs False") auto
    define x y where "x = (if c then bus_write bus1 m1 dst bs True else (True, m1))"
      and "y = (if c then bus_write bus2 n1 dst bs True else (True, n1))"
    have xy: "fst x = fst y" "R (snd x) (snd y)" using sim_write [OF R1, of dst bs True] R1 by (auto simp: x_def y_def)
    then show ?thesis
      using Suc.IH [OF xy(2)] Some r w1 w2 R1 by (cases x, cases y) (simp add: x_def [symmetric] y_def [symmetric] rel2_def)
  qed
qed (simp add: rel2_def)

lemma sim_bytes: "R m n \<Longrightarrow> rel2 (transfer_bytes bus1 c p m) (transfer_bytes bus2 c p n)"
  using sim_arrays by (simp add: transfer_bytes_def rel2_def)

lemma sim_complete:
  assumes "R m n" "complete_one bus1 c ev s m queue = (ok, s', m', queue')"
  shows "\<exists>n'. complete_one bus2 c ev s n queue = (ok, s', n', queue') \<and> R m' n'"
proof -
  obtain kind channel where ev: "ev = (kind, channel)" by (cases ev)
  define pset where "pset = (if kind = EVENT_DMA then channel else unat (shr (qchmap s channel) 5 AND 0x1FF))"
  obtain okt m1 n1 where t: "transfer_bytes bus1 c (param s pset) m = (okt, m1)" "transfer_bytes bus2 c (param s pset) n = (okt, n1)" "R m1 n1"
    using sim_bytes [OF assms(1), of c "param s pset"]
    by (cases "transfer_bytes bus1 c (param s pset) m", cases "transfer_bytes bus2 c (param s pset) n") (auto simp: rel2_def)
  show ?thesis
    using assms t(3) unfolding complete_one_def ev prod.case pset_def [symmetric] Let_def t(1,2)
    by (auto split: prod.splits if_splits)
qed

lemma sim_loop:
  "R m n \<Longrightarrow> rel3 (service_loop bus1 c s m queue head) (service_loop bus2 c s n queue head)"
proof (induction "max (length queue) SERVICE_LIMIT - head" arbitrary: s m n queue head rule: less_induct)
  case less
  show ?case
  proof (cases "head < length queue")
    case True
    obtain ok s1 m1 q1 where c1: "complete_one bus1 c (queue ! head) s m queue = (ok, s1, m1, q1)"
      by (cases "complete_one bus1 c (queue ! head) s m queue") auto
    obtain n1 where c2: "complete_one bus2 c (queue ! head) s n queue = (ok, s1, n1, q1)" "R m1 n1"
      using sim_complete [OF less.prems c1] by blast
    have d: "max (length q1) SERVICE_LIMIT - (head + 1) < max (length queue) SERVICE_LIMIT - head"
      using complete_one_limit [OF c1] True by linarith
    show ?thesis
      using less.hyps [OF d c2(2), of s1] True c1 c2
      by (cases ok) (simp_all add: service_loop.simps [of bus1 c s] service_loop.simps [of bus2 c s] rel3_leaf)
  next
    case False
    then show ?thesis using less.prems by (simp add: service_loop.simps rel3_leaf)
  qed
qed

lemma sim_service: "R m n \<Longrightarrow> rel3 (service bus1 c evs s m) (service bus2 c evs s n)"
  using sim_loop by (simp add: service_def rel3_leaf split: option.split)

lemma sim_trigger: "R m n \<Longrightarrow> rel3 (trigger bus1 c latch evs s m) (trigger bus2 c latch evs s n)"
proof -
  assume R: "R m n"
  obtain ok t m1 n1 where v: "service bus1 False evs (latch s) m = (ok, t, m1)" "service bus2 False evs (latch s) n = (ok, t, n1)" "R m1 n1"
    using sim_service [OF R, of False evs "latch s"]
    by (cases "service bus1 False evs (latch s) m", cases "service bus2 False evs (latch s) n") (auto simp: rel3_def)
  show ?thesis unfolding trigger_def v prod.case by (intro rel3_if rel3_leaf v(3) sim_service)
qed

lemma sim_channel:
  "R m n \<Longrightarrow> rel3 (write_channel bus1 local dmask qmask region v c s m) (write_channel bus2 local dmask qmask region v c s n)"
  unfolding write_channel_def Let_def by (intro rel3_if rel3_leaf sim_trigger)

lemma sim_param: "R m n \<Longrightarrow> rel3 (write_param bus1 pset word ws c s m) (write_param bus2 pset word ws c s n)"
proof -
  assume R: "R m n"
  define pre where "pre = store_words pset word ws s"
  define evs where "evs = map (Pair EVENT_QDMA) (qdma_matches pre pset word (length ws))"
  define x y where "x = (if evs \<noteq> [] then service bus1 False evs pre m else (True, pre, m))"
    and "y = (if evs \<noteq> [] then service bus2 False evs pre n else (True, pre, n))"
  have "rel3 x y" unfolding x_def y_def by (intro rel3_if rel3_leaf sim_service R)
  then obtain ok t m1 n1 where xy: "x = (ok, t, m1)" "y = (ok, t, n1)" "R m1 n1"
    by (cases x, cases y) (auto simp: rel3_def)
  show ?thesis
    unfolding write_param_def Let_def pre_def [symmetric] evs_def [symmetric] x_def [symmetric] y_def [symmetric] xy prod.case
    by (intro rel3_if rel3_leaf R xy(3) sim_service)
qed

lemma sim_edma_write: "R m n \<Longrightarrow> rel3 (edma_write bus1 a v k c s m) (edma_write bus2 a v k c s n)"
proof -
  assume R: "R m n"
  have ch: "rel3 (case channel_view s off of Some (local, dmask, qmask, region) \<Rightarrow> write_channel bus1 local dmask qmask region w c s m
        | None \<Rightarrow> (False, s, m))
      (case channel_view s off of Some (local, dmask, qmask, region) \<Rightarrow> write_channel bus2 local dmask qmask region w c s n
        | None \<Rightarrow> (False, s, n))" for off w
    using R sim_channel [OF R] by (cases "channel_view s off") (auto simp: rel3_leaf)
  show ?thesis
  proof (cases "edma_locate a")
    case None
    then show ?thesis using R by (simp add: edma_write_def rel3_leaf)
  next
    case (Some off)
    show ?thesis
      unfolding edma_write_def Some option.case Let_def
      by (intro rel3_if rel3_leaf R sim_param ch)
  qed
qed

lemma sim_edma_event: "R m n \<Longrightarrow> rel3 (edma_event bus1 channel s m) (edma_event bus2 channel s n)"
  unfolding edma_event_def by (intro rel3_if rel3_leaf sim_trigger)

end

end
