(* ===== verification/C6747_Mcasp.thy ===== *)
theory C6747_Mcasp
  imports Bus_Contract
begin

text \<open>
  \<^verbatim>\<open>emulator/qemu/cdj_c6747_mcasp.c\<close>: the three audio serial ports. The pin latches, the
  transmit control registers, the transmit buffers with their two write ports, and the
  slot boundary at which the active serializers take their buffers.

  The per-instance arrays are functions of the instance; the arrays of serializers are
  functions of the instance and the serializer.
\<close>

section \<open>State\<close>

record mcasp =
  pfunc :: "nat \<Rightarrow> u32"
  pdir :: "nat \<Rightarrow> u32"
  pdout :: "nat \<Rightarrow> u32"

record mcasp_control =
  undocumented04 :: "nat \<Rightarrow> u32"
  gblctl :: "nat \<Rightarrow> u32"
  amute :: "nat \<Rightarrow> u32"
  dlbctl :: "nat \<Rightarrow> u32"
  ditctl :: "nat \<Rightarrow> u32"
  xmask :: "nat \<Rightarrow> u32"
  xfmt :: "nat \<Rightarrow> u32"
  afsxctl :: "nat \<Rightarrow> u32"
  aclkxctl :: "nat \<Rightarrow> u32"
  ahclkxctl :: "nat \<Rightarrow> u32"
  xtdm :: "nat \<Rightarrow> u32"
  xintctl :: "nat \<Rightarrow> u32"
  xstat :: "nat \<Rightarrow> u32"
  xclkchk :: "nat \<Rightarrow> u32"
  dit :: "nat \<Rightarrow> nat \<Rightarrow> u32"
  srctl :: "nat \<Rightarrow> nat \<Rightarrow> u32"
  xrdy :: "nat \<Rightarrow> u32"
  xbuf :: "nat \<Rightarrow> nat \<Rightarrow> u32"
  xdma_next :: "nat \<Rightarrow> nat"
  xbuf_sequence :: "nat \<Rightarrow> nat \<Rightarrow> u64"
  xbuf_writes :: "nat \<Rightarrow> u64"
  axevt_generation :: "nat \<Rightarrow> u64"
  xrsr :: "nat \<Rightarrow> nat \<Rightarrow> u32"
  xslot :: "nat \<Rightarrow> u32"
  xrsr_source_sequence :: "nat \<Rightarrow> nat \<Rightarrow> u64"
  tx_slot_boundaries :: "nat \<Rightarrow> u64"

definition pin_mask :: "nat \<Rightarrow> u32" where
  "pin_mask b = [0xFE00FFFF, 0xFE000FFF, 0xFE00000F] ! b"

definition serializer_count :: "nat \<Rightarrow> nat" where
  "serializer_count b = [16, 12, 4] ! b"

definition mcasp_locate :: "u32 \<Rightarrow> (nat \<times> nat) option" where
  "mcasp_locate address =
     (if address < 0x01D00000 \<or> address \<ge> 0x01D0C000 \<or> address AND 3 \<noteq> 0 then None
      else Some (unat ((address - 0x01D00000) div 0x4000), unat ((address - 0x01D00000) mod 0x4000)))"

definition mcasp_control_write_mapped :: "u32 \<Rightarrow> nat \<Rightarrow> bool" where
  "mcasp_control_write_mapped address sz \<longleftrightarrow> sz = 4 \<and> mcasp_locate address \<noteq> None"

section \<open>Pins\<close>

definition mcasp_reset :: mcasp where
  "mcasp_reset = \<lparr>pfunc = (\<lambda>_. 0), pdir = (\<lambda>_. 0), pdout = (\<lambda>_. 0)\<rparr>"

definition mcasp_read :: "mcasp \<Rightarrow> u32 \<Rightarrow> u32 option" where
  "mcasp_read s address =
     (case mcasp_locate address of None \<Rightarrow> None
      | Some (b, off) \<Rightarrow>
          if off = 0x10 then Some (pfunc s b)
          else if off = 0x14 then Some (pdir s b)
          else if off = 0x18 then Some (pdout s b)
          else None)"

definition mcasp_write :: "mcasp \<Rightarrow> u32 \<Rightarrow> u64 \<Rightarrow> nat \<Rightarrow> bool \<Rightarrow> mcasp option" where
  "mcasp_write s address v sz commit =
     (if sz \<noteq> 4 \<or> v > 0xFFFFFFFF then None
      else case mcasp_locate address of None \<Rightarrow> None
      | Some (b, off) \<Rightarrow>
          if off < 0x10 \<or> off > 0x20 \<or> v AND ucast (NOT (pin_mask b)) \<noteq> 0 then None
          else if \<not> commit then Some s
          else Some (if off = 0x10 then s\<lparr>pfunc := (pfunc s)(b := ucast v)\<rparr>
            else if off = 0x14 then s\<lparr>pdir := (pdir s)(b := ucast v)\<rparr>
            else if off = 0x18 then s\<lparr>pdout := (pdout s)(b := ucast v)\<rparr>
            else if off = 0x1C then s\<lparr>pdout := (pdout s)(b := pdout s b OR ucast v)\<rparr>
            else if off = 0x20 then s\<lparr>pdout := (pdout s)(b := pdout s b AND NOT (ucast v))\<rparr>
            else s))"

section \<open>Transmit control\<close>

definition control_reset :: mcasp_control where
  "control_reset = \<lparr>undocumented04 = (\<lambda>_. 0), gblctl = (\<lambda>_. 0), amute = (\<lambda>_. 0), dlbctl = (\<lambda>_. 0), ditctl = (\<lambda>_. 0),
     xmask = (\<lambda>_. 0), xfmt = (\<lambda>_. 0), afsxctl = (\<lambda>_. 0), aclkxctl = (\<lambda>_. 0x60), ahclkxctl = (\<lambda>_. 0x8000),
     xtdm = (\<lambda>_. 0), xintctl = (\<lambda>_. 0), xstat = (\<lambda>_. 0), xclkchk = (\<lambda>_. 0), dit = (\<lambda>_ _. 0), srctl = (\<lambda>_ _. 0),
     xrdy = (\<lambda>_. 0), xbuf = (\<lambda>_ _. 0), xdma_next = serializer_count, xbuf_sequence = (\<lambda>_ _. 0),
     xbuf_writes = (\<lambda>_. 0), axevt_generation = (\<lambda>_. 0), xrsr = (\<lambda>_ _. 0), xslot = (\<lambda>_. 0x17F),
     xrsr_source_sequence = (\<lambda>_ _. 0), tx_slot_boundaries = (\<lambda>_. 0)\<rparr>"

definition active_tx_mask :: "mcasp_control \<Rightarrow> nat \<Rightarrow> u32" where
  "active_tx_mask s b =
     fold (\<lambda>n mask. mask OR (if srctl s b n AND 3 = 1 then shl 1 n else 0)) [0..<serializer_count b] 0"

definition next_tx_serializer :: "mcasp_control \<Rightarrow> nat \<Rightarrow> nat \<Rightarrow> nat" where
  "next_tx_serializer s b after =
     (case filter (\<lambda>n. srctl s b n AND 3 = 1) [after..<serializer_count b] of
        [] \<Rightarrow> serializer_count b | n # _ \<Rightarrow> n)"

definition clear_xdata :: "nat \<Rightarrow> mcasp_control \<Rightarrow> mcasp_control" where
  "clear_xdata b s = (if xrdy s b AND active_tx_mask s b = 0 then s\<lparr>xstat := (xstat s)(b := xstat s b AND NOT 0x20)\<rparr> else s)"

definition note_xbuf_write :: "nat \<Rightarrow> nat \<Rightarrow> u32 \<Rightarrow> mcasp_control \<Rightarrow> mcasp_control" where
  "note_xbuf_write b serializer v s =
     clear_xdata b
       (s\<lparr>xbuf := (xbuf s)(b := (xbuf s b)(serializer := v)),
          xbuf_writes := (xbuf_writes s)(b := xbuf_writes s b + 1),
          xbuf_sequence := (xbuf_sequence s)(b := (xbuf_sequence s b)(serializer := xbuf_writes s b + 1)),
          xrdy := (xrdy s)(b := xrdy s b AND NOT (shl 1 serializer))\<rparr>)"

definition axevt_ready :: "mcasp_control \<Rightarrow> nat \<Rightarrow> bool" where
  "axevt_ready s b \<longleftrightarrow> b < 3 \<and> xstat s b AND 0x20 \<noteq> 0"

definition xstat_read :: "mcasp_control \<Rightarrow> nat \<Rightarrow> u32" where
  "xstat_read s b =
     (let v = (xstat s b AND 0xF7) OR shl (c_bool (xslot s b AND 1 = 0)) 3
      in if v AND 0x87 \<noteq> 0 then v OR 0x100 else v)"

definition control_read :: "mcasp_control \<Rightarrow> u32 \<Rightarrow> u32 option" where
  "control_read s address =
     (case mcasp_locate address of None \<Rightarrow> None
      | Some (b, off) \<Rightarrow>
          if off = 0x44 \<or> off = 0x60 \<or> off = 0xA0 then Some (gblctl s b)
          else if off = 0x48 then Some (amute s b)
          else if off = 0x4C then Some (dlbctl s b)
          else if off = 0x50 then Some (ditctl s b)
          else if off = 0xA4 then Some (xmask s b)
          else if off = 0xA8 then Some (xfmt s b)
          else if off = 0xAC then Some (afsxctl s b)
          else if off = 0xB0 then Some (aclkxctl s b)
          else if off = 0xB4 then Some (ahclkxctl s b)
          else if off = 0xB8 then Some (xtdm s b)
          else if off = 0xBC then Some (xintctl s b)
          else if off = 0xC0 then Some (xstat_read s b)
          else if off = 0xC4 then Some (xslot s b)
          else if off = 0xC8 then Some (xclkchk s b)
          else if off = 0xCC then Some 0
          else if off \<ge> 0x100 \<and> off < 0x160 \<and> off mod 4 = 0 then Some (dit s b ((off - 0x100) div 4))
          else if off \<ge> 0x180 \<and> off < 0x1C0 \<and> off mod 4 = 0 then
            (let serializer = (off - 0x180) div 4
             in if serializer \<ge> serializer_count b then None
                else Some (srctl s b serializer OR shl (shr (xrdy s b) serializer AND 1) 4))
          else None)"

definition legal_xfmt :: "u32 \<Rightarrow> bool" where
  "legal_xfmt v =
     (let data_delay = shr v 16; pad = shr v 13 AND 3; slot_size = shr v 4 AND 15
      in v AND NOT 0x3FFFF = 0 \<and> data_delay \<noteq> 3 \<and> pad \<noteq> 3 \<and> slot_size \<ge> 3 \<and> slot_size AND 1 \<noteq> 0)"

definition legal_afsxctl :: "u32 \<Rightarrow> bool" where
  "legal_afsxctl v =
     (let mode = shr v 7
      in v AND NOT 0xFF93 = 0 \<and> (mode = 0 \<or> (mode \<ge> 2 \<and> mode \<le> 0x20) \<or> mode = 0x180))"

definition legal_dlbctl :: "u32 \<Rightarrow> bool" where
  "legal_dlbctl v =
     (if v AND NOT 0x0F \<noteq> 0 then False
      else (let mode = shr v 2 AND 3 in if v AND 1 \<noteq> 0 then mode = 1 else mode = 0))"

definition legal_srctl :: "u32 \<Rightarrow> bool" where
  "legal_srctl v =
     (let mode = v AND 3; drive = shr v 2 AND 3 in v AND NOT 0x0F = 0 \<and> mode \<noteq> 3 \<and> drive \<noteq> 1)"

text \<open>The validity predicate of a restored checkpoint, as the loop over the three instances writes it.\<close>

definition control_valid_one :: "mcasp_control \<Rightarrow> nat \<Rightarrow> bool" where
  "control_valid_one s b =
     (if undocumented04 s b > 1 \<or> gblctl s b AND NOT 0x1F1F \<noteq> 0 \<or> amute s b AND NOT 0x1FEF \<noteq> 0 \<or> amute s b AND 3 = 3 \<or>
         \<not> legal_dlbctl (dlbctl s b) \<or> ditctl s b AND NOT 0x0D \<noteq> 0 \<or> (xfmt s b \<noteq> 0 \<and> \<not> legal_xfmt (xfmt s b)) \<or>
         \<not> legal_afsxctl (afsxctl s b) \<or> aclkxctl s b AND NOT 0xFF \<noteq> 0 \<or> ahclkxctl s b AND NOT 0xCFFF \<noteq> 0 \<or>
         xintctl s b AND NOT 0xBF \<noteq> 0 \<or> xstat s b AND NOT 0xF7 \<noteq> 0 \<or> xclkchk s b AND NOT 0x00FFFF0F \<noteq> 0 \<or>
         xclkchk s b AND 0xF > 8 then False
      else if xrdy s b AND NOT (shl 1 (serializer_count b) - 1) \<noteq> 0 \<or> xdma_next s b > serializer_count b then False
      else if xstat s b AND 0x20 \<noteq> 0 \<and> xrdy s b AND active_tx_mask s b = 0 then False
      else if list_ex (\<lambda>n. xbuf_sequence s b n > xbuf_writes s b \<or> xrsr_source_sequence s b n > xbuf_sequence s b n \<or>
          (xrsr_source_sequence s b n = 0 \<and> xrsr s b n \<noteq> 0)) [0..<serializer_count b] then False
      else if xslot s b > 0x17F then False
      else list_all (\<lambda>n. if n \<ge> serializer_count b then
            srctl s b n = 0 \<and> xbuf s b n = 0 \<and> xbuf_sequence s b n = 0 \<and> xrsr s b n = 0 \<and> xrsr_source_sequence s b n = 0
          else legal_srctl (srctl s b n) \<and> \<not> (shr (xrdy s b) n AND 1 \<noteq> 0 \<and> srctl s b n AND 3 \<noteq> 1)) [0..<16])"

definition control_valid :: "mcasp_control \<Rightarrow> bool" where
  "control_valid s \<longleftrightarrow> list_all (control_valid_one s) [0..<3]"

definition raise_axevt :: "nat \<Rightarrow> mcasp_control \<Rightarrow> mcasp_control" where
  "raise_axevt b s =
     (let s = s\<lparr>xstat := (xstat s)(b := xstat s b OR 0x20)\<rparr>
      in if axevt_generation s b \<noteq> - 1 then s\<lparr>axevt_generation := (axevt_generation s)(b := axevt_generation s b + 1)\<rparr>
         else s)"

text \<open>The three consequences of a new GBLCTL value: the slot counter, the serializers, the underrun.\<close>

definition gblctl_slot :: "nat \<Rightarrow> u32 \<Rightarrow> mcasp_control \<Rightarrow> mcasp_control" where
  "gblctl_slot b nxt s = (if nxt AND 0x1000 = 0 then s\<lparr>xslot := (xslot s)(b := 0x17F)\<rparr> else s)"

definition gblctl_serializers :: "nat \<Rightarrow> u32 \<Rightarrow> u32 \<Rightarrow> mcasp_control \<Rightarrow> mcasp_control" where
  "gblctl_serializers b nxt rising s =
     (if nxt AND 0x400 = 0 then
        s\<lparr>xrdy := (xrdy s)(b := 0), xstat := (xstat s)(b := xstat s b AND NOT 0x20),
          xdma_next := (xdma_next s)(b := serializer_count b)\<rparr>
      else if rising AND 0x400 \<noteq> 0 then
        (let s = s\<lparr>xrdy := (xrdy s)(b := active_tx_mask s b), xdma_next := (xdma_next s)(b := next_tx_serializer s b 0)\<rparr>
         in if xrdy s b \<noteq> 0 then raise_axevt b s else s)
      else s)"

definition gblctl_underrun :: "nat \<Rightarrow> u32 \<Rightarrow> mcasp_control \<Rightarrow> mcasp_control" where
  "gblctl_underrun b rising s =
     (if rising AND 0x800 \<noteq> 0 \<and> xrdy s b \<noteq> 0 then s\<lparr>xstat := (xstat s)(b := xstat s b OR 1)\<rparr> else s)"

definition write_gblctl :: "nat \<Rightarrow> nat \<Rightarrow> u32 \<Rightarrow> mcasp_control \<Rightarrow> mcasp_control" where
  "write_gblctl b off v s =
     (let m = (if off = 0x60 then 0x001F else if off = 0xA0 then 0x1F00 else 0x1F1F);
          old = gblctl s b;
          nxt = (old AND NOT m) OR (v AND m);
          rising = nxt AND NOT old
      in gblctl_underrun b rising (gblctl_serializers b nxt rising (gblctl_slot b nxt (s\<lparr>gblctl := (gblctl s)(b := nxt)\<rparr>))))"

section \<open>Transmit clocks\<close>

abbreviation (input) TAP_AHCLKX :: nat where "TAP_AHCLKX \<equiv> 0"
abbreviation (input) TAP_ACLKX :: nat where "TAP_ACLKX \<equiv> 1"
abbreviation (input) TAP_AFSX :: nat where "TAP_AFSX \<equiv> 2"

definition tx_clock_hz :: "mcasp_control \<Rightarrow> nat \<Rightarrow> u32 \<Rightarrow> nat \<Rightarrow> (u64 \<times> u32) option" where
  "tx_clock_hz s b auxclk_hz tap =
     (if b \<ge> 3 \<or> auxclk_hz = 0 \<or> tap > TAP_AFSX then None
      else if ahclkxctl s b AND 0x8000 = 0 then None
      else
        (let den = (ahclkxctl s b AND 0xFFF) + 1
         in if tap = TAP_AHCLKX then Some (ucast auxclk_hz, den)
            else if aclkxctl s b AND 0x20 = 0 then None
            else
              (let den = den * ((aclkxctl s b AND 0x1F) + 1)
               in if tap = TAP_ACLKX then Some (ucast auxclk_hz, den)
                  else if ditctl s b AND 1 \<noteq> 0 then None
                  else if afsxctl s b AND 2 = 0 then None
                  else
                    (let slots = shr (afsxctl s b) 7; slot_size = shr (xfmt s b) 4 AND 15
                     in if slots < 2 \<or> slots > 0x20 then None
                        else if slot_size < 3 \<or> slot_size AND 1 = 0 then None
                        else Some (ucast auxclk_hz, den * (slots * 2 * (slot_size + 1)))))))"

section \<open>One transmit slot\<close>

text \<open>The number of slots of a frame, when the format has one.\<close>

definition frame_slots :: "mcasp_control \<Rightarrow> nat \<Rightarrow> u32 option" where
  "frame_slots s b =
     (let mode = shr (afsxctl s b) 7
      in if ditctl s b AND 1 \<noteq> 0 then
           (if mode \<noteq> 0x180 \<or> xtdm s b \<noteq> - 1 then None else Some 0x180)
         else if mode < 2 \<or> mode > 32 then None
         else Some mode)"

text \<open>The serializer loop: an active serializer takes a buffer written since its last transfer; one without
  underruns.\<close>

definition shift_serializer :: "nat \<Rightarrow> u32 \<Rightarrow> nat \<Rightarrow> bool \<times> mcasp_control \<Rightarrow> bool \<times> mcasp_control" where
  "shift_serializer b active n st =
     (case st of (underrun, s) \<Rightarrow>
        if active AND shl 1 n = 0 then (underrun, s)
        else if xbuf_sequence s b n > xrsr_source_sequence s b n then
          (underrun, s\<lparr>xrsr := (xrsr s)(b := (xrsr s b)(n := xbuf s b n)),
             xrsr_source_sequence := (xrsr_source_sequence s)(b := (xrsr_source_sequence s b)(n := xbuf_sequence s b n))\<rparr>)
        else (True, s))"

definition shift_out :: "nat \<Rightarrow> u32 \<Rightarrow> mcasp_control \<Rightarrow> mcasp_control" where
  "shift_out b active s =
     (case fold (shift_serializer b active) [0..<serializer_count b] (False, s) of (underrun, s) \<Rightarrow>
        (let s = (if underrun then s\<lparr>xstat := (xstat s)(b := xstat s b OR 1)\<rparr> else s)
         in s\<lparr>xrdy := (xrdy s)(b := active), xdma_next := (xdma_next s)(b := next_tx_serializer s b 0),
              xstat := (xstat s)(b := xstat s b OR 0x20),
              axevt_generation := (axevt_generation s)(b := axevt_generation s b + 1)\<rparr>))"

definition tx_slot :: "mcasp_control \<Rightarrow> nat \<Rightarrow> (bool \<times> mcasp_control) option" where
  "tx_slot s b =
     (if b \<ge> 3 then None
      else
        (let active = active_tx_mask s b
         in if gblctl s b AND 0x1F00 \<noteq> 0x1F00 \<or> active = 0 then None
            else case frame_slots s b of None \<Rightarrow> None
            | Some slots \<Rightarrow>
                if xslot s b \<noteq> 0x17F \<and> xslot s b \<ge> slots then None
                else
                  (let nxt = (if xslot s b = 0x17F \<or> xslot s b + 1 = slots then 0 else xslot s b + 1);
                       active_slot = (ditctl s b AND 1 \<noteq> 0 \<or> xtdm s b AND shl 1 (unat nxt) \<noteq> 0)
                   in if tx_slot_boundaries s b = - 1 \<or> (active_slot \<and> axevt_generation s b = - 1) then None
                      else
                        (let s = s\<lparr>xslot := (xslot s)(b := nxt), tx_slot_boundaries := (tx_slot_boundaries s)(b := tx_slot_boundaries s b + 1)\<rparr>
                         in if \<not> active_slot then Some (False, s) else Some (True, shift_out b active s)))))"

section \<open>Register writes\<close>

text \<open>The value check of a register, \<open>None\<close> for an offset that is not one of the simple registers.\<close>

definition register_check :: "mcasp_control \<Rightarrow> nat \<Rightarrow> nat \<Rightarrow> u32 \<Rightarrow> bool option" where
  "register_check s b off v =
     (if off = 0x44 \<or> off = 0x60 \<or> off = 0xA0 then Some (v AND NOT 0x1F1F = 0)
      else if off = 0x48 then Some (v AND NOT 0x1FEF = 0 \<and> v AND 3 \<noteq> 3)
      else if off = 0x4C then Some (legal_dlbctl v)
      else if off = 0x50 then
        Some (v AND NOT 0x0D = 0 \<and> ((v XOR ditctl s b) AND 1 = 0 \<or> gblctl s b AND 0x800 = 0))
      else if off = 0xA4 then Some True
      else if off = 0xA8 then Some (legal_xfmt v)
      else if off = 0xAC then Some (legal_afsxctl v)
      else if off = 0xB0 then Some (v AND NOT 0xFF = 0)
      else if off = 0xB4 then Some (v AND NOT 0xCFFF = 0)
      else if off = 0xB8 then Some True
      else if off = 0xBC then Some (v AND NOT 0xBF = 0)
      else if off = 0xC0 then Some (v AND 0xFFFF0000 = 0)
      else if off = 0xC4 then Some False
      else if off = 0xC8 then Some (v AND NOT 0x00FFFF0F = 0 \<and> v AND 0xF \<le> 8)
      else if off = 0xCC then Some (v = 0)
      else None)"

definition register_commit :: "nat \<Rightarrow> nat \<Rightarrow> u32 \<Rightarrow> mcasp_control \<Rightarrow> mcasp_control" where
  "register_commit b off v s =
     (if off = 0x44 \<or> off = 0x60 \<or> off = 0xA0 then write_gblctl b off v s
      else if off = 0x48 then s\<lparr>amute := (amute s)(b := v)\<rparr>
      else if off = 0x4C then s\<lparr>dlbctl := (dlbctl s)(b := v)\<rparr>
      else if off = 0x50 then s\<lparr>ditctl := (ditctl s)(b := v)\<rparr>
      else if off = 0xA4 then s\<lparr>xmask := (xmask s)(b := v)\<rparr>
      else if off = 0xA8 then s\<lparr>xfmt := (xfmt s)(b := v)\<rparr>
      else if off = 0xAC then s\<lparr>afsxctl := (afsxctl s)(b := v)\<rparr>
      else if off = 0xB0 then s\<lparr>aclkxctl := (aclkxctl s)(b := v)\<rparr>
      else if off = 0xB4 then s\<lparr>ahclkxctl := (ahclkxctl s)(b := v)\<rparr>
      else if off = 0xB8 then s\<lparr>xtdm := (xtdm s)(b := v)\<rparr>
      else if off = 0xBC then s\<lparr>xintctl := (xintctl s)(b := v)\<rparr>
      else if off = 0xC0 then s\<lparr>xstat := (xstat s)(b := xstat s b AND NOT (v AND 0xF7))\<rparr>
      else if off = 0xC8 then s\<lparr>xclkchk := (xclkchk s)(b := v)\<rparr>
      else s)"

text \<open>Serializer control: leaving transmit mode drops the buffer's readiness and the DMA pointer.\<close>

definition srctl_commit :: "nat \<Rightarrow> nat \<Rightarrow> u32 \<Rightarrow> mcasp_control \<Rightarrow> mcasp_control" where
  "srctl_commit b serializer v s =
     (let s = s\<lparr>srctl := (srctl s)(b := (srctl s b)(serializer := v))\<rparr>
      in if v AND 3 = 1 then s
         else
           (let s = s\<lparr>xrdy := (xrdy s)(b := xrdy s b AND NOT (shl 1 serializer))\<rparr>;
                s = (if xdma_next s b = serializer
                     then s\<lparr>xdma_next := (xdma_next s)(b := next_tx_serializer s b (serializer + 1))\<rparr> else s)
            in clear_xdata b s))"

definition dma_port_write :: "nat \<Rightarrow> u32 \<Rightarrow> bool \<Rightarrow> mcasp_control \<Rightarrow> mcasp_control option" where
  "dma_port_write b v commit s =
     (if xfmt s b AND 8 \<noteq> 0 then Some s
      else
        (let serializer = xdma_next s b
         in if serializer \<ge> serializer_count b then
              Some (if commit then s\<lparr>xstat := (xstat s)(b := xstat s b OR 0x80)\<rparr> else s)
            else if xbuf_writes s b = - 1 then None
            else if \<not> commit then Some s
            else
              (let s = note_xbuf_write b serializer v s
               in Some (s\<lparr>xdma_next := (xdma_next s)(b := next_tx_serializer s b (serializer + 1))\<rparr>))))"

definition config_port_write :: "nat \<Rightarrow> nat \<Rightarrow> u32 \<Rightarrow> bool \<Rightarrow> mcasp_control \<Rightarrow> mcasp_control option" where
  "config_port_write b serializer v commit s =
     (if serializer \<ge> serializer_count b then None
      else if xfmt s b AND 8 = 0 then Some s
      else if xbuf_writes s b = - 1 then None
      else if \<not> commit then Some s
      else Some (note_xbuf_write b serializer v s))"

definition control_write :: "mcasp_control \<Rightarrow> u32 \<Rightarrow> u64 \<Rightarrow> nat \<Rightarrow> bool \<Rightarrow> mcasp_control option" where
  "control_write s address value_in sz commit =
     (if sz \<noteq> 4 \<or> value_in > 0xFFFFFFFF then None
      else case mcasp_locate address of None \<Rightarrow> None
      | Some (b, off) \<Rightarrow>
          (let v = (ucast value_in :: u32)
           in if off = 0x04 then
                (if v \<noteq> 1 then None
                 else Some (if commit then s\<lparr>undocumented04 := (undocumented04 s)(b := 1)\<rparr> else s))
              else if off = 0x2000 then dma_port_write b v commit s
              else if off \<ge> 0x200 \<and> off < 0x240 then config_port_write b ((off - 0x200) div 4) v commit s
              else
                (case register_check s b off v of
                   Some ok \<Rightarrow>
                     if \<not> ok then None else if \<not> commit then Some s else Some (register_commit b off v s)
                 | None \<Rightarrow>
                     if off \<ge> 0x100 \<and> off < 0x160 \<and> off mod 4 = 0 then
                       Some (if commit then s\<lparr>dit := (dit s)(b := (dit s b)((off - 0x100) div 4 := v))\<rparr> else s)
                     else if off < 0x180 \<or> off \<ge> 0x1C0 \<or> off mod 4 \<noteq> 0 then None
                     else
                       (let serializer = (off - 0x180) div 4
                        in if serializer \<ge> serializer_count b \<or> \<not> legal_srctl v then None
                           else if \<not> commit then Some s
                           else Some (srctl_commit b serializer v s)))))"

section \<open>Transmit state, bit by bit\<close>

lemma serializer_count_le: "b < 3 \<Longrightarrow> serializer_count b \<le> 16 \<and> 0 < serializer_count b"
  by (auto simp: serializer_count_def less_Suc_eq numeral_3_eq_3)

lemma bit_active: "bit (active_tx_mask s b) n \<longleftrightarrow> n < serializer_count b \<and> n < 32 \<and> srctl s b n AND 3 = 1"
proof -
  have "bit (active_tx_mask s b) n \<longleftrightarrow> (\<exists>i\<in>set [0..<serializer_count b]. bit (if srctl s b i AND 3 = 1 then shl 1 i else 0 :: u32) n)"
    unfolding active_tx_mask_def bit_fold_or by simp
  also have "\<dots> \<longleftrightarrow> n < serializer_count b \<and> n < 32 \<and> srctl s b n AND 3 = 1"
    by (auto simp: bit_simps simp del: push_bit_of_1)
  finally show ?thesis .
qed

lemma active_cong: "srctl s b = srctl t b \<Longrightarrow> active_tx_mask s b = active_tx_mask t b"
  by (simp add: active_tx_mask_def)

lemma next_tx_le: "next_tx_serializer s b k \<le> serializer_count b"
proof (cases "filter (\<lambda>n. srctl s b n AND 3 = 1) [k..<serializer_count b]")
  case (Cons n ns)
  have "n \<in> set (filter (\<lambda>n. srctl s b n AND 3 = 1) [k..<serializer_count b])" unfolding Cons by simp
  then have "n < serializer_count b" by simp
  then show ?thesis by (simp add: next_tx_serializer_def Cons)
qed (simp add: next_tx_serializer_def)

lemma next_tx_cong: "srctl s b = srctl t b \<Longrightarrow> next_tx_serializer s b = next_tx_serializer t b"
  by (simp add: next_tx_serializer_def fun_eq_iff)

lemma and_zero_bits: "(x :: u32) AND y = 0 \<longleftrightarrow> (\<forall>n. \<not> (bit x n \<and> bit y n))"
proof
  assume z: "x AND y = 0"
  have "bit (x AND y) n = (bit x n \<and> bit y n)" for n by (rule bit_and_iff)
  then show "\<forall>n. \<not> (bit x n \<and> bit y n)" unfolding z by simp
next
  show "\<forall>n. \<not> (bit x n \<and> bit y n) \<Longrightarrow> x AND y = 0" by (rule bit_word_eqI) (simp add: bit_and_iff)
qed

lemma not_mask_bits: "(x :: u32) AND NOT (shl 1 k - 1) = 0 \<longleftrightarrow> (\<forall>n. bit x n \<longrightarrow> n < k)"
proof -
  have "(shl 1 k - 1 :: u32) = mask k" by (simp add: mask_eq_exp_minus_1)
  then show ?thesis
    unfolding and_zero_bits using bit_imp_le_length [of x]
    by (auto simp: bit_simps simp del: push_bit_of_1) (metis len_num1 less_trans not_less)?
qed

lemma shr_and_1: "(shr (x :: u32) n AND 1 \<noteq> 0) = bit x n"
  by (simp add: and_1_bit c_bool_def)

text \<open>Registers whose legality nothing but a write to them affects, and the transmit state.\<close>

definition regs_ok :: "mcasp_control \<Rightarrow> nat \<Rightarrow> bool" where
  "regs_ok s b \<longleftrightarrow> undocumented04 s b \<le> 1 \<and> gblctl s b AND NOT 0x1F1F = 0 \<and> amute s b AND NOT 0x1FEF = 0 \<and> amute s b AND 3 \<noteq> 3 \<and>
     legal_dlbctl (dlbctl s b) \<and> ditctl s b AND NOT 0x0D = 0 \<and> (xfmt s b = 0 \<or> legal_xfmt (xfmt s b)) \<and>
     legal_afsxctl (afsxctl s b) \<and> aclkxctl s b AND NOT 0xFF = 0 \<and> ahclkxctl s b AND NOT 0xCFFF = 0 \<and>
     xintctl s b AND NOT 0xBF = 0 \<and> xclkchk s b AND NOT 0x00FFFF0F = 0 \<and> xclkchk s b AND 0xF \<le> 8"

definition serializer_ok :: "mcasp_control \<Rightarrow> nat \<Rightarrow> nat \<Rightarrow> bool" where
  "serializer_ok s b n \<longleftrightarrow> legal_srctl (srctl s b n) \<and> (bit (xrdy s b) n \<longrightarrow> srctl s b n AND 3 = 1) \<and>
     xbuf_sequence s b n \<le> xbuf_writes s b \<and> xrsr_source_sequence s b n \<le> xbuf_sequence s b n \<and>
     (xrsr_source_sequence s b n = 0 \<longrightarrow> xrsr s b n = 0)"

definition transmit_ok0 :: "mcasp_control \<Rightarrow> nat \<Rightarrow> bool" where
  "transmit_ok0 s b \<longleftrightarrow> xstat s b AND NOT 0xF7 = 0 \<and> (\<forall>n. bit (xrdy s b) n \<longrightarrow> n < serializer_count b) \<and>
     xdma_next s b \<le> serializer_count b \<and> xslot s b \<le> 0x17F \<and>
     (\<forall>n < serializer_count b. serializer_ok s b n) \<and>
     (\<forall>n<16. serializer_count b \<le> n \<longrightarrow> srctl s b n = 0 \<and> xbuf s b n = 0 \<and> xbuf_sequence s b n = 0 \<and>
        xrsr s b n = 0 \<and> xrsr_source_sequence s b n = 0)"

definition transmit_ok :: "mcasp_control \<Rightarrow> nat \<Rightarrow> bool" where
  "transmit_ok s b \<longleftrightarrow> transmit_ok0 s b \<and> (bit (xstat s b) 5 \<longrightarrow> xrdy s b \<noteq> 0)"

lemma and_0x20: "(x :: u32) AND 0x20 \<noteq> 0 \<longleftrightarrow> bit x 5"
  using bit_iff_and_push_bit_not_eq_0 [of x 5] by simp

lemma ready_active:
  assumes "b < 3" "\<forall>n. bit (xrdy s b) n \<longrightarrow> n < serializer_count b" "\<forall>n < serializer_count b. bit (xrdy s b) n \<longrightarrow> srctl s b n AND 3 = 1"
  shows "xrdy s b AND active_tx_mask s b = xrdy s b"
proof (rule bit_word_eqI)
  fix n assume "n < LENGTH(32)"
  then show "bit (xrdy s b AND active_tx_mask s b) n = bit (xrdy s b) n"
    using assms by (auto simp: bit_simps bit_active)
qed

lemma control_valid_one_iff:
  assumes "b < 3"
  shows "control_valid_one s b \<longleftrightarrow> regs_ok s b \<and> transmit_ok s b"
proof -
  let ?seq = "\<lambda>n. xbuf_sequence s b n \<le> xbuf_writes s b \<and> xrsr_source_sequence s b n \<le> xbuf_sequence s b n \<and>
    \<not> (xrsr_source_sequence s b n = 0 \<and> xrsr s b n \<noteq> 0)"
  let ?off = "\<lambda>n. srctl s b n = 0 \<and> xbuf s b n = 0 \<and> xbuf_sequence s b n = 0 \<and> xrsr s b n = 0 \<and> xrsr_source_sequence s b n = 0"
  let ?on = "\<lambda>n. legal_srctl (srctl s b n) \<and> \<not> (bit (xrdy s b) n \<and> srctl s b n AND 3 \<noteq> 1)"
  note c = serializer_count_le [OF assms]
  have all: "list_all P [0..<k] \<longleftrightarrow> (\<forall>n<k. P n)" "\<not> list_ex P [0..<k] \<longleftrightarrow> (\<forall>n<k. \<not> P n)" for P k
    by (auto simp: list_all_iff list_ex_iff)
  have ff: "(if p then False else q) \<longleftrightarrow> \<not> p \<and> q" for p q by simp
  have split16: "(\<forall>n<16. if serializer_count b \<le> n then P n else Q n) \<longleftrightarrow>
      (\<forall>n < serializer_count b. Q n) \<and> (\<forall>n<16. serializer_count b \<le> n \<longrightarrow> P n)" for P Q
    using c by (metis less_le_trans not_le)
  have valid: "control_valid_one s b \<longleftrightarrow> (regs_ok s b \<and> xstat s b AND NOT 0xF7 = 0) \<and>
     ((\<forall>n. bit (xrdy s b) n \<longrightarrow> n < serializer_count b) \<and> xdma_next s b \<le> serializer_count b) \<and>
     \<not> (bit (xstat s b) 5 \<and> xrdy s b AND active_tx_mask s b = 0) \<and> (\<forall>n < serializer_count b. ?seq n) \<and> xslot s b \<le> 0x17F \<and>
     (\<forall>n < serializer_count b. ?on n) \<and> (\<forall>n<16. serializer_count b \<le> n \<longrightarrow> ?off n)"
    unfolding control_valid_one_def ff all not_mask_bits shr_and_1 and_0x20 split16 [symmetric] regs_ok_def
      de_Morgan_disj not_not not_less by blast
  have active: "\<not> (bit (xstat s b) 5 \<and> xrdy s b AND active_tx_mask s b = 0) \<longleftrightarrow> (bit (xstat s b) 5 \<longrightarrow> xrdy s b \<noteq> 0)"
    if "\<forall>n. bit (xrdy s b) n \<longrightarrow> n < serializer_count b" "\<forall>n < serializer_count b. ?on n"
    using ready_active [OF assms that(1)] that(2) by fastforce
  have ok: "(\<forall>n < serializer_count b. serializer_ok s b n) \<longleftrightarrow> (\<forall>n < serializer_count b. ?seq n) \<and> (\<forall>n < serializer_count b. ?on n)"
    unfolding serializer_ok_def by blast
  show ?thesis unfolding valid transmit_ok_def transmit_ok0_def ok using active by argo
qed

section \<open>Every operation keeps the checkpoint validity\<close>

lemma control_valid_iff: "control_valid s \<longleftrightarrow> (\<forall>b<3. regs_ok s b \<and> transmit_ok s b)"
  using control_valid_one_iff by (auto simp: control_valid_def list_all_iff)

text \<open>The predicate alone is not inductive: it says nothing of a held serializer reset, out of which XDATA
  would survive. Reachable controllers have no ready buffer while the serializers are held in reset.\<close>

definition clock_ok :: "mcasp_control \<Rightarrow> nat \<Rightarrow> bool" where
  "clock_ok s b \<longleftrightarrow> (gblctl s b AND 0x400 = 0 \<longrightarrow> xrdy s b = 0)"

definition control_ok :: "mcasp_control \<Rightarrow> bool" where
  "control_ok s \<longleftrightarrow> (\<forall>b<3. regs_ok s b \<and> transmit_ok s b \<and> clock_ok s b)"

lemma control_ok_valid: "control_ok s \<Longrightarrow> control_valid s"
  by (simp add: control_ok_def control_valid_iff)

text \<open>An operation on instance \<open>b\<close> leaves the others as they were.\<close>

definition others_same :: "nat \<Rightarrow> mcasp_control \<Rightarrow> mcasp_control \<Rightarrow> bool" where
  "others_same b s t \<longleftrightarrow> (\<forall>b'. b' \<noteq> b \<longrightarrow> regs_ok t b' = regs_ok s b' \<and> transmit_ok t b' = transmit_ok s b' \<and>
     clock_ok t b' = clock_ok s b')"

lemmas ok_defs = regs_ok_def transmit_ok_def transmit_ok0_def serializer_ok_def clock_ok_def

lemma others_ok: "control_ok s \<Longrightarrow> others_same b s t \<Longrightarrow> regs_ok t b \<Longrightarrow> transmit_ok t b \<Longrightarrow> clock_ok t b \<Longrightarrow> control_ok t"
  unfolding control_ok_def others_same_def by metis

lemma others_trans: "others_same b s t \<Longrightarrow> others_same b t u \<Longrightarrow> others_same b s u"
  by (simp add: others_same_def)

text \<open>A register update of one instance.\<close>

lemma others_upd:
  "others_same b s (s\<lparr>undocumented04 := (undocumented04 s)(b := v)\<rparr>)" "others_same b s (s\<lparr>gblctl := (gblctl s)(b := v)\<rparr>)"
  "others_same b s (s\<lparr>amute := (amute s)(b := v)\<rparr>)" "others_same b s (s\<lparr>dlbctl := (dlbctl s)(b := v)\<rparr>)"
  "others_same b s (s\<lparr>ditctl := (ditctl s)(b := v)\<rparr>)" "others_same b s (s\<lparr>xmask := (xmask s)(b := v)\<rparr>)"
  "others_same b s (s\<lparr>xfmt := (xfmt s)(b := v)\<rparr>)" "others_same b s (s\<lparr>afsxctl := (afsxctl s)(b := v)\<rparr>)"
  "others_same b s (s\<lparr>aclkxctl := (aclkxctl s)(b := v)\<rparr>)" "others_same b s (s\<lparr>ahclkxctl := (ahclkxctl s)(b := v)\<rparr>)"
  "others_same b s (s\<lparr>xtdm := (xtdm s)(b := v)\<rparr>)" "others_same b s (s\<lparr>xintctl := (xintctl s)(b := v)\<rparr>)"
  "others_same b s (s\<lparr>xstat := (xstat s)(b := v)\<rparr>)" "others_same b s (s\<lparr>xclkchk := (xclkchk s)(b := v)\<rparr>)"
  "others_same b s (s\<lparr>dit := (dit s)(b := f)\<rparr>)" "others_same b s (s\<lparr>srctl := (srctl s)(b := f)\<rparr>)"
  "others_same b s (s\<lparr>xrdy := (xrdy s)(b := v)\<rparr>)" "others_same b s (s\<lparr>xdma_next := (xdma_next s)(b := k)\<rparr>)"
  "others_same b s (s\<lparr>xslot := (xslot s)(b := v)\<rparr>)" "others_same b s (s\<lparr>xbuf := (xbuf s)(b := f)\<rparr>)"
  "others_same b s (s\<lparr>xbuf_sequence := (xbuf_sequence s)(b := g)\<rparr>)" "others_same b s (s\<lparr>xbuf_writes := (xbuf_writes s)(b := w)\<rparr>)"
  "others_same b s (s\<lparr>xrsr := (xrsr s)(b := f)\<rparr>)" "others_same b s (s\<lparr>axevt_generation := (axevt_generation s)(b := w)\<rparr>)"
  "others_same b s (s\<lparr>xrsr_source_sequence := (xrsr_source_sequence s)(b := g)\<rparr>)"
  "others_same b s (s\<lparr>tx_slot_boundaries := (tx_slot_boundaries s)(b := w)\<rparr>)" "others_same b s s"
  by (simp_all add: others_same_def ok_defs)

lemma others_if: "others_same b s t \<Longrightarrow> others_same b s u \<Longrightarrow> others_same b s (if c then t else u)"
  by simp

lemma others_ops:
  "others_same b s (clear_xdata b s)" "others_same b s (note_xbuf_write b n v s)" "others_same b s (raise_axevt b s)"
  "others_same b s (write_gblctl b off v s)" "others_same b s (srctl_commit b n v s)"
  "others_same b s (register_commit b off v s)"
proof -
  have c: "others_same b t (clear_xdata b t)" for t by (auto simp: clear_xdata_def intro: others_upd)
  show "others_same b s (clear_xdata b s)" by (rule c)
  show "others_same b s (note_xbuf_write b n v s)"
    unfolding note_xbuf_write_def by (rule others_trans [OF _ c]) (simp add: others_same_def ok_defs)
  have r: "others_same b t (raise_axevt b t)" for t by (simp add: raise_axevt_def Let_def others_same_def ok_defs)
  show "others_same b s (raise_axevt b s)" by (rule r)
  have g1: "others_same b t (gblctl_slot b x t)" "others_same b t (gblctl_underrun b x t)" for x t
    by (simp_all add: gblctl_slot_def gblctl_underrun_def others_upd)
  have g2: "others_same b t (t\<lparr>xrdy := (xrdy t)(b := x), xdma_next := (xdma_next t)(b := y)\<rparr>)" for x y t
    by (simp add: others_same_def ok_defs)
  have g3: "others_same b t (gblctl_serializers b x y t)" for x y t
    unfolding gblctl_serializers_def Let_def
    by (intro others_if others_upd others_trans [OF g2 r] g2) (simp add: others_same_def ok_defs)
  show g: "others_same b s (write_gblctl b off v s)"
    unfolding write_gblctl_def Let_def by (intro others_trans [OF others_trans [OF others_trans [OF others_upd(2) g1(1)] g3] g1(2)])
  have m: "others_same b t (t\<lparr>srctl := (srctl t)(b := f), xrdy := (xrdy t)(b := x)\<rparr>)"
    "others_same b t (t\<lparr>srctl := (srctl t)(b := f), xrdy := (xrdy t)(b := x), xdma_next := (xdma_next t)(b := y)\<rparr>)" for f x y t
    by (simp_all add: others_same_def ok_defs)
  show "others_same b s (srctl_commit b n v s)"
    unfolding srctl_commit_def Let_def
    by (simp add: others_upd m others_trans [OF m(1) c] others_trans [OF m(2) c])
  show "others_same b s (register_commit b off v s)"
    unfolding register_commit_def by (intro others_if others_upd g)
qed

text \<open>Transmit state at the instance itself.\<close>

lemma masked_stays: "(x :: u32) AND k = 0 \<Longrightarrow> (x AND y) AND k = 0"
  unfolding and_zero_bits by (simp add: bit_and_iff)

lemma masked_join: "(x :: u32) AND k = 0 \<Longrightarrow> y AND k = 0 \<Longrightarrow> (x OR y) AND k = 0"
  unfolding and_zero_bits by (simp add: bit_or_iff) blast

lemma ok_clear_xdata:
  assumes "b < 3" "transmit_ok0 s b"
  shows "transmit_ok (clear_xdata b s) b"
proof -
  have "xrdy s b AND active_tx_mask s b = xrdy s b"
    using assms(2) by (intro ready_active assms(1)) (auto simp: transmit_ok0_def serializer_ok_def)
  moreover have "\<not> bit (xstat s b AND NOT 0x20) 5" by (simp add: bit_and_iff bit_not_iff)
  ultimately show ?thesis
    using assms(2) masked_stays [of "xstat s b"]
    by (auto simp: clear_xdata_def transmit_ok_def transmit_ok0_def serializer_ok_def)
qed

lemma ok_xstat_or:
  "transmit_ok s b \<Longrightarrow> x AND NOT 0xF7 = 0 \<Longrightarrow> \<not> bit x 5 \<Longrightarrow> transmit_ok (s\<lparr>xstat := (xstat s)(b := xstat s b OR x)\<rparr>) b"
  using masked_join [of "xstat s b" "NOT 0xF7" x]
  by (simp add: transmit_ok_def transmit_ok0_def serializer_ok_def bit_or_iff)

lemma ok_xstat_and:
  "transmit_ok s b \<Longrightarrow> transmit_ok (s\<lparr>xstat := (xstat s)(b := xstat s b AND x)\<rparr>) b"
  using masked_stays [of "xstat s b" "NOT 0xF7" x]
  by (simp add: transmit_ok_def transmit_ok0_def serializer_ok_def bit_and_iff)

lemma ok_note_xbuf:
  assumes b: "b < 3" and v: "transmit_ok s b" and n: "n < serializer_count b" "xbuf_writes s b \<noteq> - 1"
  shows "transmit_ok (note_xbuf_write b n v s) b"
proof -
  have w: "unat (xbuf_writes s b + 1) = unat (xbuf_writes s b) + 1"
    using n(2) unatSuc [of "xbuf_writes s b"] add_eq_0_iff [of 1 "xbuf_writes s b"] by (simp add: add.commute)
  then have le: "x \<le> xbuf_writes s b \<Longrightarrow> x \<le> xbuf_writes s b + 1" for x by (simp add: word_le_nat_alt)
  show ?thesis
    unfolding note_xbuf_write_def
    by (rule ok_clear_xdata [OF b])
      (use v n le in \<open>auto simp: transmit_ok_def transmit_ok0_def serializer_ok_def bit_and_iff bit_not_iff\<close>)
qed

lemma ok_xdma: "transmit_ok s b \<Longrightarrow> k \<le> serializer_count b \<Longrightarrow> transmit_ok (s\<lparr>xdma_next := (xdma_next s)(b := k)\<rparr>) b"
  by (simp add: transmit_ok_def transmit_ok0_def serializer_ok_def)

lemma ok_gblctl:
  assumes b: "b < 3" and v: "transmit_ok s b"
  shows "transmit_ok (gblctl_slot b x s) b" "transmit_ok (gblctl_underrun b x s) b"
    "(y AND 0x400 \<noteq> 0 \<Longrightarrow> \<not> bit (xstat s b) 5) \<Longrightarrow> transmit_ok (gblctl_serializers b x y s) b"
proof -
  show "transmit_ok (gblctl_slot b x s) b"
    using v by (simp add: gblctl_slot_def transmit_ok_def transmit_ok0_def serializer_ok_def)
  show "transmit_ok (gblctl_underrun b x s) b"
    using v by (simp add: gblctl_underrun_def ok_xstat_or)
  have bits: "\<not> bit (xstat s b AND NOT 0x20) 5" by (simp add: bit_and_iff bit_not_iff)
  have a: "\<forall>n. bit (active_tx_mask s b) n \<longrightarrow> n < serializer_count b \<and> srctl s b n AND 3 = 1"
    by (simp add: bit_active)
  have z: "(0x20 :: u32) AND NOT 0xF7 = 0" by simp
  assume y: "y AND 0x400 \<noteq> 0 \<Longrightarrow> \<not> bit (xstat s b) 5"
  show "transmit_ok (gblctl_serializers b x y s) b"
    using v y a next_tx_le [of s b 0] bits masked_stays [of "xstat s b" _ "NOT 0x20"] masked_join [of "xstat s b" _ "0x20"]
    unfolding gblctl_serializers_def raise_axevt_def Let_def transmit_ok_def transmit_ok0_def serializer_ok_def
    by simp
qed

lemma ok_srctl:
  assumes b: "b < 3" and v: "transmit_ok s b" and n: "n < serializer_count b" "legal_srctl x"
  shows "transmit_ok (srctl_commit b n x s) b"
proof (cases "x AND 3 = 1")
  case True
  then show ?thesis
    using v n by (auto simp: srctl_commit_def transmit_ok_def transmit_ok0_def serializer_ok_def)
next
  case False
  define t where "t = s\<lparr>srctl := (srctl s)(b := (srctl s b)(n := x)), xrdy := (xrdy s)(b := xrdy s b AND NOT (shl 1 n))\<rparr>"
  have bn: "bit (xrdy t b) k \<longleftrightarrow> bit (xrdy s b) k \<and> k \<noteq> n" for k
    using serializer_count_le [OF b] n(1) bit_imp_le_length [of "xrdy s b" k]
    by (auto simp: t_def bit_simps simp del: push_bit_of_1)
  have t: "transmit_ok0 t b"
    using v n bn unfolding transmit_ok_def transmit_ok0_def serializer_ok_def by (auto simp: t_def)
  have "transmit_ok0 (if c then t\<lparr>xdma_next := (xdma_next t)(b := next_tx_serializer t b k)\<rparr> else t) b" for c k
    using t next_tx_le [of t b k] by (simp add: transmit_ok0_def serializer_ok_def)
  note ok = ok_clear_xdata [OF b this]
  have e: "srctl_commit b n x s = clear_xdata b
      (if xdma_next t b = n then t\<lparr>xdma_next := (xdma_next t)(b := next_tx_serializer t b (n + 1))\<rparr> else t)"
    using False unfolding srctl_commit_def Let_def by (simp only: t_def if_False) simp
  show ?thesis unfolding e by (rule ok)
qed

text \<open>A slot boundary.\<close>

lemma shift_keeps:
  assumes "shift_serializer b a n (u, s) = (u', t)"
  shows "xstat t = xstat s \<and> xrdy t = xrdy s \<and> srctl t = srctl s \<and> xdma_next t = xdma_next s \<and> xslot t = xslot s \<and>
    xbuf t = xbuf s \<and> xbuf_sequence t = xbuf_sequence s \<and> xbuf_writes t = xbuf_writes s \<and> regs_ok t = regs_ok s \<and>
    axevt_generation t = axevt_generation s \<and>
    (\<forall>b' k. b' \<noteq> b \<or> k \<noteq> n \<longrightarrow> xrsr t b' k = xrsr s b' k \<and> xrsr_source_sequence t b' k = xrsr_source_sequence s b' k)"
  using assms unfolding shift_serializer_def prod.case
  by (simp split: if_splits) (auto simp: regs_ok_def fun_eq_iff)

text \<open>What the serializer loop does, one serializer at a time.\<close>

lemma shift_loop:
  assumes "fold (shift_serializer b a) ns (u, s) = (u', t)" "distinct ns"
  shows "(u' \<longleftrightarrow> u \<or> (\<exists>n\<in>set ns. a AND shl 1 n \<noteq> 0 \<and> xbuf_sequence s b n \<le> xrsr_source_sequence s b n)) \<and>
    (\<exists>f g. t = s\<lparr>xrsr := f, xrsr_source_sequence := g\<rparr> \<and> (\<forall>b' k.
      if b' = b \<and> k \<in> set ns \<and> a AND shl 1 k \<noteq> 0 \<and> xrsr_source_sequence s b k < xbuf_sequence s b k
      then f b' k = xbuf s b k \<and> g b' k = xbuf_sequence s b k
      else f b' k = xrsr s b' k \<and> g b' k = xrsr_source_sequence s b' k))"
  using assms
proof (induction ns arbitrary: u s)
  case Nil
  then show ?case by (intro conjI exI [of _ "xrsr s"] exI [of _ "xrsr_source_sequence s"]) simp_all
next
  case (Cons n ns)
  obtain v r where one: "shift_serializer b a n (u, s) = (v, r)" by (cases "shift_serializer b a n (u, s)")
  have rest: "fold (shift_serializer b a) ns (v, r) = (u', t)" "distinct ns" using Cons.prems one by simp_all
  have v: "v \<longleftrightarrow> u \<or> (a AND shl 1 n \<noteq> 0 \<and> xbuf_sequence s b n \<le> xrsr_source_sequence s b n)"
    using one by (auto simp: shift_serializer_def not_less simp del: push_bit_of_1 split: if_splits)
  let ?c = "a AND shl 1 n \<noteq> 0 \<and> xrsr_source_sequence s b n < xbuf_sequence s b n"
  have r: "r = s\<lparr>xrsr := (xrsr s)(b := (xrsr s b)(n := if ?c then xbuf s b n else xrsr s b n)),
      xrsr_source_sequence := (xrsr_source_sequence s)(b := (xrsr_source_sequence s b)(n := if ?c then xbuf_sequence s b n
        else xrsr_source_sequence s b n))\<rparr>"
    using one by (auto simp: shift_serializer_def simp del: push_bit_of_1 split: if_splits)
  have q: "xbuf r = xbuf s" "xbuf_sequence r = xbuf_sequence s" "xrsr r b' k = (if b' = b \<and> k = n \<and> ?c then xbuf s b n else xrsr s b' k)"
    "xrsr_source_sequence r b' k = (if b' = b \<and> k = n \<and> ?c then xbuf_sequence s b n else xrsr_source_sequence s b' k)" for b' k
    by (simp_all add: r del: push_bit_of_1)
  obtain f g where fg: "t = r\<lparr>xrsr := f, xrsr_source_sequence := g\<rparr>" "\<forall>b' k.
      if b' = b \<and> k \<in> set ns \<and> a AND shl 1 k \<noteq> 0 \<and> xrsr_source_sequence r b k < xbuf_sequence r b k
      then f b' k = xbuf r b k \<and> g b' k = xbuf_sequence r b k
      else f b' k = xrsr r b' k \<and> g b' k = xrsr_source_sequence r b' k"
    and u': "u' \<longleftrightarrow> v \<or> (\<exists>n\<in>set ns. a AND shl 1 n \<noteq> 0 \<and> xbuf_sequence r b n \<le> xrsr_source_sequence r b n)"
    using Cons.IH [OF rest] by blast
  have n: "n \<notin> set ns" using Cons.prems(2) by simp
  define D where "D k \<longleftrightarrow> a AND shl 1 k \<noteq> 0 \<and> xrsr_source_sequence s b k < xbuf_sequence s b k" for k
  have Dr: "k \<in> set ns \<Longrightarrow> (a AND shl 1 k \<noteq> 0 \<and> xrsr_source_sequence r b k < xbuf_sequence r b k) = D k" for k
    using n unfolding q D_def by auto
  have qD: "xrsr r b' k = (if b' = b \<and> k = n \<and> D n then xbuf s b n else xrsr s b' k)"
    "xrsr_source_sequence r b' k = (if b' = b \<and> k = n \<and> D n then xbuf_sequence s b n else xrsr_source_sequence s b' k)" for b' k
    unfolding D_def by (rule q)+
  have "if b' = b \<and> k \<in> set (n # ns) \<and> D k
      then f b' k = xbuf s b k \<and> g b' k = xbuf_sequence s b k
      else f b' k = xrsr s b' k \<and> g b' k = xrsr_source_sequence s b' k" for b' k
  proof (cases "b' = b \<and> k \<in> set ns \<and> D k")
    case True
    then show ?thesis using fg(2) [rule_format, of b' k] Dr [of k] by (simp add: q)
  next
    case False
    then have "f b' k = xrsr r b' k \<and> g b' k = xrsr_source_sequence r b' k"
      using fg(2) [rule_format, of b' k] Dr [of k] by auto
    then show ?thesis using False by (auto simp: qD)
  qed
  then have "if b' = b \<and> k \<in> set (n # ns) \<and> a AND shl 1 k \<noteq> 0 \<and> xrsr_source_sequence s b k < xbuf_sequence s b k
      then f b' k = xbuf s b k \<and> g b' k = xbuf_sequence s b k
      else f b' k = xrsr s b' k \<and> g b' k = xrsr_source_sequence s b' k" for b' k
    unfolding D_def .
  moreover have "t = s\<lparr>xrsr := f, xrsr_source_sequence := g\<rparr>" using fg(1) by (simp add: r)
  moreover have "xbuf_sequence r b k \<le> xrsr_source_sequence r b k \<longleftrightarrow> xbuf_sequence s b k \<le> xrsr_source_sequence s b k" if "k \<in> set ns" for k
    using that n unfolding q by auto
  then have "u' \<longleftrightarrow> u \<or> (\<exists>k\<in>set (n # ns). a AND shl 1 k \<noteq> 0 \<and> xbuf_sequence s b k \<le> xrsr_source_sequence s b k)"
    unfolding u' v by auto
  ultimately show ?case by blast
qed

lemma and_shl_1: "(a :: u32) AND shl 1 n \<noteq> 0 \<longleftrightarrow> bit a n"
  using bit_iff_and_push_bit_not_eq_0 [of a n] by blast

text \<open>The state after a transfer, written out.\<close>

lemma shift_out_fields:
  "xrsr (shift_out b a s) b' k = (if b' = b \<and> k < serializer_count b \<and> bit a k \<and> xrsr_source_sequence s b k < xbuf_sequence s b k
      then xbuf s b k else xrsr s b' k)" (is ?rsr)
  "xrsr_source_sequence (shift_out b a s) b' k =
     (if b' = b \<and> k < serializer_count b \<and> bit a k \<and> xrsr_source_sequence s b k < xbuf_sequence s b k
      then xbuf_sequence s b k else xrsr_source_sequence s b' k)" (is ?src)
  "xstat (shift_out b a s) = (xstat s)(b := (if \<exists>n < serializer_count b. bit a n \<and> xbuf_sequence s b n \<le> xrsr_source_sequence s b n
      then xstat s b OR 1 else xstat s b) OR 0x20)" (is ?stat)
  "xrdy (shift_out b a s) = (xrdy s)(b := a)" "xdma_next (shift_out b a s) = (xdma_next s)(b := next_tx_serializer s b 0)"
  "axevt_generation (shift_out b a s) = (axevt_generation s)(b := axevt_generation s b + 1)"
  "regs_ok (shift_out b a s) = regs_ok s" "srctl (shift_out b a s) = srctl s" "xslot (shift_out b a s) = xslot s"
  "xbuf (shift_out b a s) = xbuf s" "xbuf_sequence (shift_out b a s) = xbuf_sequence s" "xbuf_writes (shift_out b a s) = xbuf_writes s"
  "gblctl (shift_out b a s) = gblctl s"
proof -
  obtain u t where l: "fold (shift_serializer b a) [0..<serializer_count b] (False, s) = (u, t)"
    by (cases "fold (shift_serializer b a) [0..<serializer_count b] (False, s)")
  note loop = shift_loop [OF l distinct_upt, unfolded and_shl_1]
  obtain f g where t: "t = s\<lparr>xrsr := f, xrsr_source_sequence := g\<rparr>"
    and fg: "\<forall>b' k. if b' = b \<and> k \<in> set [0..<serializer_count b] \<and> bit a k \<and> xrsr_source_sequence s b k < xbuf_sequence s b k
      then f b' k = xbuf s b k \<and> g b' k = xbuf_sequence s b k
      else f b' k = xrsr s b' k \<and> g b' k = xrsr_source_sequence s b' k"
    using loop [THEN conjunct2] by (elim exE conjE) (rule that)
  have u: "u \<longleftrightarrow> (\<exists>n < serializer_count b. bit a n \<and> xbuf_sequence s b n \<le> xrsr_source_sequence s b n)"
    using loop [THEN conjunct1] by (simp add: Bex_def)
  have nx: "next_tx_serializer (s\<lparr>xrsr := f, xrsr_source_sequence := g, xstat := x\<rparr>) b = next_tx_serializer s b"
    "next_tx_serializer (s\<lparr>xrsr := f, xrsr_source_sequence := g\<rparr>) b = next_tx_serializer s b" for x
    by (rule next_tx_cong; simp)+
  have e: "shift_out b a s =
      (let s = (if u then t\<lparr>xstat := (xstat t)(b := xstat t b OR 1)\<rparr> else t)
       in s\<lparr>xrdy := (xrdy s)(b := a), xdma_next := (xdma_next s)(b := next_tx_serializer s b 0),
            xstat := (xstat s)(b := xstat s b OR 0x20),
            axevt_generation := (axevt_generation s)(b := axevt_generation s b + 1)\<rparr>)"
    by (simp only: shift_out_def l prod.case)
  define C where "C \<longleftrightarrow> b' = b \<and> k < serializer_count b \<and> bit a k \<and> xrsr_source_sequence s b k < xbuf_sequence s b k"
  have "xrsr (shift_out b a s) = f" "xrsr_source_sequence (shift_out b a s) = g" by (cases u; simp add: e Let_def t)+
  moreover have "if C then f b' k = xbuf s b k \<and> g b' k = xbuf_sequence s b k
      else f b' k = xrsr s b' k \<and> g b' k = xrsr_source_sequence s b' k"
    using fg [rule_format, of b' k] by (simp only: C_def set_upt atLeastLessThan_iff le0 simp_thms)
  ultimately show ?rsr ?src unfolding C_def [symmetric] by (cases C; simp)+
  show ?stat unfolding u [symmetric] by (cases u) (simp_all add: e Let_def t)
  show "xrdy (shift_out b a s) = (xrdy s)(b := a)" "xdma_next (shift_out b a s) = (xdma_next s)(b := next_tx_serializer s b 0)"
    "axevt_generation (shift_out b a s) = (axevt_generation s)(b := axevt_generation s b + 1)"
    "srctl (shift_out b a s) = srctl s" "xslot (shift_out b a s) = xslot s"
    "xbuf (shift_out b a s) = xbuf s" "xbuf_sequence (shift_out b a s) = xbuf_sequence s" "xbuf_writes (shift_out b a s) = xbuf_writes s"
    "gblctl (shift_out b a s) = gblctl s"
    by (cases u; simp add: e Let_def t nx)+
  show "regs_ok (shift_out b a s) = regs_ok s"
    by (cases u) (simp_all add: e Let_def t fun_eq_iff regs_ok_def)
qed

lemma others_shift: "others_same b s (shift_out b a s)"
  unfolding others_same_def
  by (simp add: transmit_ok_def transmit_ok0_def serializer_ok_def clock_ok_def shift_out_fields)

lemma ok_shift:
  assumes b: "b < 3" and v: "transmit_ok s b" and a: "active_tx_mask s b \<noteq> 0"
  shows "transmit_ok (shift_out b (active_tx_mask s b) s) b"
proof -
  define t where "t = shift_out b (active_tx_mask s b) s"
  note f = shift_out_fields [of b "active_tx_mask s b" s, folded t_def]
  have x: "xstat t b AND NOT 0xF7 = 0"
    using v masked_join [of "xstat s b" _ "0x20"] masked_join [of "xstat s b" _ 1] masked_join [of "xstat s b OR 1" _ "0x20"]
    by (simp add: f transmit_ok_def transmit_ok0_def)
  have r: "\<forall>n. bit (xrdy t b) n \<longrightarrow> n < serializer_count b" by (simp add: f bit_active)
  have s: "serializer_ok t b n" if "n < serializer_count b" for n
    using v that unfolding transmit_ok_def transmit_ok0_def serializer_ok_def f
    by (auto simp: bit_active)
  have off: "\<forall>n<16. serializer_count b \<le> n \<longrightarrow> srctl t b n = 0 \<and> xbuf t b n = 0 \<and> xbuf_sequence t b n = 0 \<and>
      xrsr t b n = 0 \<and> xrsr_source_sequence t b n = 0"
    using v unfolding transmit_ok_def transmit_ok0_def f by simp
  show ?thesis
    using v x r s off a next_tx_le [of s b 0] unfolding t_def [symmetric] transmit_ok_def transmit_ok0_def
    by (simp add: f)
qed

lemma ok_tx_slot:
  assumes ok: "control_ok s" and t: "tx_slot s b = Some (ax, t)"
  shows "control_ok t"
proof -
  define nxt where "nxt = (if xslot s b = 0x17F \<or> xslot s b + 1 = the (frame_slots s b) then 0 else xslot s b + 1)"
  define u where "u = s\<lparr>xslot := (xslot s)(b := nxt), tx_slot_boundaries := (tx_slot_boundaries s)(b := tx_slot_boundaries s b + 1)\<rparr>"
  have b: "b < 3" and g: "gblctl s b AND 0x1F00 = 0x1F00" and a: "active_tx_mask s b \<noteq> 0"
    and fs: "frame_slots s b \<noteq> None" and sl: "xslot s b = 0x17F \<or> xslot s b < the (frame_slots s b)"
    using t by (auto simp: tx_slot_def Let_def not_le split: if_splits option.splits)
  have tu: "t = u \<or> t = shift_out b (active_tx_mask s b) u"
    using t fs by (auto simp: tx_slot_def Let_def u_def nxt_def split: if_splits)
  have "the (frame_slots s b) \<le> 0x180"
    using fs by (auto simp: frame_slots_def Let_def not_less elim: order_trans split: if_splits)
  then have n: "nxt \<le> 0x17F"
    using sl unfolding nxt_def by (auto; unat_arith)
  have au: "active_tx_mask u b = active_tx_mask s b" by (rule active_cong) (simp add: u_def)
  have uo: "others_same b s u" "regs_ok u b" "transmit_ok u b"
    using ok b n by (auto simp: u_def others_same_def ok_defs control_ok_def)
  have gt: "gblctl t b = gblctl s b" using tu by (auto simp: shift_out_fields u_def)
  have "gblctl s b AND 0x400 \<noteq> 0"
  proof -
    have "bit (gblctl s b AND 0x1F00) 10" unfolding g by simp
    then show ?thesis using and_shl_1 [of "gblctl s b" 10] by (simp add: bit_and_iff)
  qed
  then have "clock_ok t b" by (simp add: clock_ok_def gt)
  moreover have "others_same b s t"
    using tu uo(1) others_trans [OF uo(1) others_shift] by auto
  moreover have "regs_ok t b" using tu uo(2) by (auto simp: shift_out_fields)
  moreover have "transmit_ok t b"
    using tu uo(3) ok_shift [OF b uo(3)] a by (auto simp: au)
  ultimately show ?thesis by (intro others_ok [OF ok])
qed

text \<open>Clocks and registers at the instance, for the register writes.\<close>

lemma regs_frame:
  "regs_ok (s\<lparr>srctl := f\<rparr>) = regs_ok s" "regs_ok (s\<lparr>xrdy := h\<rparr>) = regs_ok s" "regs_ok (s\<lparr>xdma_next := k\<rparr>) = regs_ok s"
  "regs_ok (s\<lparr>xstat := h\<rparr>) = regs_ok s" "regs_ok (s\<lparr>xbuf := f\<rparr>) = regs_ok s" "regs_ok (s\<lparr>xbuf_writes := w\<rparr>) = regs_ok s"
  "regs_ok (s\<lparr>xbuf_sequence := g\<rparr>) = regs_ok s" "regs_ok (s\<lparr>xslot := h\<rparr>) = regs_ok s"
  "regs_ok (s\<lparr>axevt_generation := w\<rparr>) = regs_ok s" "regs_ok (s\<lparr>dit := f\<rparr>) = regs_ok s"
  "regs_ok (s\<lparr>xtdm := h\<rparr>) = regs_ok s" "regs_ok (s\<lparr>xmask := h\<rparr>) = regs_ok s"
  by (simp_all add: regs_ok_def fun_eq_iff)

lemma regs_keep:
  "regs_ok (clear_xdata b s) = regs_ok s" "regs_ok (note_xbuf_write b n v s) = regs_ok s" "regs_ok (srctl_commit b n v s) = regs_ok s"
  "gblctl (clear_xdata b s) = gblctl s" "gblctl (note_xbuf_write b n v s) = gblctl s" "gblctl (srctl_commit b n v s) = gblctl s"
  "xrdy (clear_xdata b s) = xrdy s" "xrdy (note_xbuf_write b n v s) = (xrdy s)(b := xrdy s b AND NOT (shl 1 n))"
proof -
  have c: "regs_ok (clear_xdata b t) = regs_ok t" "gblctl (clear_xdata b t) = gblctl t" "xrdy (clear_xdata b t) = xrdy t" for t
    by (simp_all add: clear_xdata_def regs_frame)
  show "regs_ok (clear_xdata b s) = regs_ok s" "gblctl (clear_xdata b s) = gblctl s" "xrdy (clear_xdata b s) = xrdy s" by (rule c)+
  show "regs_ok (note_xbuf_write b n v s) = regs_ok s" "gblctl (note_xbuf_write b n v s) = gblctl s"
    "xrdy (note_xbuf_write b n v s) = (xrdy s)(b := xrdy s b AND NOT (shl 1 n))"
    unfolding note_xbuf_write_def c by (simp_all add: regs_frame del: push_bit_of_1)
  show "regs_ok (srctl_commit b n v s) = regs_ok s" "gblctl (srctl_commit b n v s) = gblctl s"
    unfolding srctl_commit_def Let_def by (simp_all add: c regs_frame del: push_bit_of_1)
qed

lemma srctl_xrdy: "xrdy s b = 0 \<Longrightarrow> xrdy (srctl_commit b n v s) b = 0"
  by (simp add: srctl_commit_def Let_def regs_keep del: push_bit_of_1)

lemma ok_gblctl_write:
  assumes ok: "control_ok s" and b: "b < 3" and v: "v AND NOT 0x1F1F = 0"
  shows "control_ok (write_gblctl b off v s)"
proof -
  define m where "m = (if off = 0x60 then 0x001F else if off = 0xA0 then 0x1F00 else 0x1F1F :: u32)"
  define nxt where "nxt = (gblctl s b AND NOT m) OR (v AND m)"
  define rising where "rising = nxt AND NOT (gblctl s b)"
  define s1 where "s1 = gblctl_slot b nxt (s\<lparr>gblctl := (gblctl s)(b := nxt)\<rparr>)"
  define s2 where "s2 = gblctl_serializers b nxt rising s1"
  have w: "write_gblctl b off v s = gblctl_underrun b rising s2"
    by (simp only: write_gblctl_def Let_def m_def nxt_def rising_def s1_def s2_def)
  have r: "regs_ok s b" "transmit_ok s b" "clock_ok s b" using ok b by (simp_all add: control_ok_def)
  have n: "nxt AND NOT 0x1F1F = 0"
    unfolding nxt_def using r(1) v by (intro masked_join masked_stays) (simp_all add: regs_ok_def)
  have t0: "transmit_ok (s\<lparr>gblctl := (gblctl s)(b := nxt)\<rparr>) b" using r(2) by (simp add: transmit_ok_def transmit_ok0_def serializer_ok_def)
  have t1: "transmit_ok s1 b" unfolding s1_def by (rule ok_gblctl [OF b t0])
  have f1: "gblctl s1 b = nxt" "xrdy s1 = xrdy s" "xstat s1 = xstat s" "srctl s1 = srctl s" by (simp_all add: s1_def gblctl_slot_def)
  have rise: "\<not> bit (xstat s1 b) 5" if "rising AND 0x400 \<noteq> 0"
  proof -
    have "bit rising 10" using that and_shl_1 [of rising 10] by simp
    then have "gblctl s b AND 0x400 = 0" using and_shl_1 [of "gblctl s b" 10] by (simp add: rising_def bit_and_iff bit_not_iff)
    then show ?thesis using r(2,3) by (simp add: f1 clock_ok_def transmit_ok_def)
  qed
  have t2: "transmit_ok s2 b" unfolding s2_def by (rule ok_gblctl(3) [OF b t1 rise])
  have f2: "gblctl s2 b = nxt"
    by (simp add: s2_def gblctl_serializers_def raise_axevt_def Let_def f1)
  have x2: "xrdy s2 b = 0" if "nxt AND 0x400 = 0" using that by (simp add: s2_def gblctl_serializers_def)
  have u: "gblctl (gblctl_underrun b rising s2) = gblctl s2" "xrdy (gblctl_underrun b rising s2) = xrdy s2"
    "regs_ok (gblctl_underrun b rising s2) = regs_ok s2"
    by (simp_all add: gblctl_underrun_def regs_frame)
  have "regs_ok s2 = regs_ok (s\<lparr>gblctl := (gblctl s)(b := nxt)\<rparr>)"
    by (simp add: s2_def s1_def gblctl_serializers_def gblctl_slot_def raise_axevt_def Let_def regs_frame)
  then have "regs_ok s2 b" using r(1) n by (simp add: regs_ok_def)
  moreover have "clock_ok (gblctl_underrun b rising s2) b" using x2 by (simp add: clock_ok_def u f2)
  ultimately show ?thesis
    unfolding w using others_ops(4) [of b s off v, unfolded w] by (intro others_ok [OF ok]) (simp_all add: u ok_gblctl(2) [OF b t2])
qed

lemma ok_register_commit:
  assumes ok: "control_ok s" and b: "b < 3" and v: "register_check s b off v = Some True"
  shows "control_ok (register_commit b off v s)"
proof (cases "off = 0x44 \<or> off = 0x60 \<or> off = 0xA0")
  case True
  then show ?thesis using ok_gblctl_write [OF ok b] v by (auto simp: register_commit_def register_check_def)
next
  case g: False
  have r: "regs_ok s b" "transmit_ok s b" "clock_ok s b" using ok b by (simp_all add: control_ok_def)
  have stat: "transmit_ok (s\<lparr>xstat := (xstat s)(b := xstat s b AND x)\<rparr>) b" for x by (rule ok_xstat_and [OF r(2)])
  have "regs_ok (register_commit b off v s) b"
    using g v r(1) unfolding register_commit_def register_check_def
    by (auto simp: regs_frame split: if_splits) (auto simp: regs_ok_def)
  moreover have "transmit_ok (register_commit b off v s) b"
    using g r(2) stat unfolding register_commit_def
    by (auto simp: transmit_ok_def transmit_ok0_def serializer_ok_def)
  moreover have "clock_ok (register_commit b off v s) b"
    using g r(3) by (simp add: register_commit_def clock_ok_def)
  ultimately show ?thesis by (intro others_ok [OF ok others_ops(6)])
qed

lemma mcasp_locate_bank: "mcasp_locate a = Some (b, off) \<Longrightarrow> b < 3"
proof -
  assume "mcasp_locate a = Some (b, off)"
  then have "b = unat ((a - 0x01D00000) div 0x4000)" "\<not> a < 0x01D00000" "a < 0x01D0C000"
    by (auto simp: mcasp_locate_def split: if_splits)
  moreover then have "unat (a - 0x01D00000) < 0xC000" by unat_arith
  ultimately show "b < 3" by (simp add: unat_div)
qed

lemma ok_ports:
  assumes ok: "control_ok s" and b: "b < 3"
  shows "dma_port_write b v True s = Some t \<Longrightarrow> control_ok t" "config_port_write b n v True s = Some t \<Longrightarrow> control_ok t"
proof -
  have r: "regs_ok s b" "transmit_ok s b" "clock_ok s b" using ok b by (simp_all add: control_ok_def)
  have x: "control_ok (s\<lparr>xstat := (xstat s)(b := xstat s b OR 0x80)\<rparr>)"
    using r ok_xstat_or [OF r(2), of "0x80"] and_shl_1 [of "0x80" 5]
    by (intro others_ok [OF ok others_upd(13)]) (simp_all add: regs_frame clock_ok_def)
  have n: "control_ok (note_xbuf_write b n v s)" if "n < serializer_count b" "xbuf_writes s b \<noteq> - 1" for n
    using r ok_note_xbuf [OF b r(2) that]
    by (intro others_ok [OF ok others_ops(2)]) (simp_all add: regs_keep clock_ok_def del: push_bit_of_1)
  have m: "control_ok (u\<lparr>xdma_next := (xdma_next u)(b := k)\<rparr>)" if "control_ok u" "k \<le> serializer_count b" for u k
    using that b ok_xdma [of u b k] by (intro others_ok [OF that(1) others_upd(18)]) (simp_all add: control_ok_def regs_frame clock_ok_def)
  show "dma_port_write b v True s = Some t \<Longrightarrow> control_ok t"
    using ok x n m next_tx_le by (auto simp: dma_port_write_def Let_def not_le split: if_splits)
  show "config_port_write b n v True s = Some t \<Longrightarrow> control_ok t"
    using ok n by (auto simp: config_port_write_def not_le split: if_splits)
qed

text \<open>The accepted writes, by register group.\<close>

lemma control_write_cases:
  assumes "control_write s a v n True = Some t"
  obtains (latch) b where "b < 3" "t = s\<lparr>undocumented04 := (undocumented04 s)(b := 1)\<rparr>"
    | (dma) b where "b < 3" "dma_port_write b (ucast v) True s = Some t"
    | (config) b k where "b < 3" "config_port_write b k (ucast v) True s = Some t"
    | (reg) b off where "b < 3" "register_check s b off (ucast v) = Some True" "t = register_commit b off (ucast v) s"
    | (dit) b k where "b < 3" "t = s\<lparr>dit := (dit s)(b := (dit s b)(k := ucast v))\<rparr>"
    | (srctl) b k where "b < 3" "k < serializer_count b" "legal_srctl (ucast v)" "t = srctl_commit b k (ucast v) s"
proof -
  obtain b off where l: "mcasp_locate a = Some (b, off)" using assms by (auto simp: control_write_def split: if_splits option.splits)
  note b = mcasp_locate_bank [OF l]
  show ?thesis
    using assms latch [OF b] dma [OF b] config [OF b] reg [OF b, of off] dit [OF b] srctl [OF b]
    unfolding control_write_def l option.case prod.case Let_def
    by (cases "register_check s b off (ucast v)") (auto simp: not_le split: if_splits)
qed

lemma ok_write: "control_ok s \<Longrightarrow> control_write s a v n True = Some t \<Longrightarrow> control_ok t"
proof (erule control_write_cases)
  fix b k :: nat assume ok: "control_ok s" and b: "b < 3"
  then have r: "regs_ok s b" "transmit_ok s b" "clock_ok s b" by (simp_all add: control_ok_def)
  note ins = others_ok [OF ok]
  show "t = s\<lparr>undocumented04 := (undocumented04 s)(b := 1)\<rparr> \<Longrightarrow> control_ok t"
    using r by (auto intro!: ins [OF others_upd(1)] simp: ok_defs)
  show "t = s\<lparr>dit := (dit s)(b := (dit s b)(k := ucast v))\<rparr> \<Longrightarrow> control_ok t"
    using r by (auto intro!: ins [OF others_upd(15)] simp: regs_frame ok_defs)
  show "k < serializer_count b \<Longrightarrow> legal_srctl (ucast v) \<Longrightarrow> t = srctl_commit b k (ucast v) s \<Longrightarrow> control_ok t"
    using r ok_srctl [OF b r(2)] srctl_xrdy by (auto intro!: ins [OF others_ops(5)] simp: regs_keep clock_ok_def)
  show "register_check s b off (ucast v) = Some True \<Longrightarrow> t = register_commit b off (ucast v) s \<Longrightarrow> control_ok t" for off
    using ok_register_commit [OF ok b] by blast
qed (use ok_ports in blast)+

lemma ok_reset: "control_ok control_reset"
proof -
  have "regs_ok control_reset b \<and> transmit_ok control_reset b \<and> clock_ok control_reset b" for b
    by (simp add: regs_ok_def transmit_ok_def transmit_ok0_def serializer_ok_def clock_ok_def control_reset_def
      legal_dlbctl_def legal_afsxctl_def legal_srctl_def)
  then show ?thesis by (simp add: control_ok_def)
qed

lemma port_checks:
  "dma_port_write b v False s = (if dma_port_write b v True s = None then None else Some s)"
  "config_port_write b n v False s = (if config_port_write b n v True s = None then None else Some s)"
  by (simp_all add: dma_port_write_def config_port_write_def Let_def)

interpretation mcasp_mmio: mmio_port_inv control_write control_ok
proof
  fix s a v n t
  show "control_write s a v n False = Some t \<Longrightarrow> t = s"
    unfolding control_write_def Let_def port_checks by (auto split: if_splits option.splits)
  show "control_write s a v n True = None \<longleftrightarrow> control_write s a v n False = None"
  proof (cases "mcasp_locate a")
    case (Some p)
    have tf: "(if q then True else False) = q" for q by simp
    from Some show ?thesis
      unfolding control_write_def Let_def port_checks
      by (cases p, cases "register_check s (fst p) (snd p) (ucast v)")
        (simp_all only: option.case prod.case fst_conv snd_conv if_eq_None option.distinct if_True if_False simp_thms if_cancel tf)
  qed (simp add: control_write_def)
  show "control_ok s \<Longrightarrow> control_write s a v n True = Some t \<Longrightarrow> control_ok t" by (rule ok_write)
qed

interpretation mcasp_pins: mmio_port_stable mcasp_write
  by unfold_locales (auto simp: mcasp_write_def split: if_splits option.splits prod.splits)

text \<open>Every controller the software and the slot clock can reach.\<close>

inductive mcasp_reach :: "mcasp_control \<Rightarrow> bool" where
  at_reset: "mcasp_reach control_reset"
| at_store: "mcasp_reach s \<Longrightarrow> control_write s a v n c = Some t \<Longrightarrow> mcasp_reach t"
| at_slot: "mcasp_reach s \<Longrightarrow> tx_slot s b = Some (ax, t) \<Longrightarrow> mcasp_reach t"

lemma mcasp_reach_ok: "mcasp_reach s \<Longrightarrow> control_ok s"
  by (induction rule: mcasp_reach.induct) (auto intro: ok_reset mcasp_mmio.inv_any ok_tx_slot)

text \<open>C18: every serial-port controller reached from reset by register stores and transmit slots satisfies
  the validity predicate the code applies to a restored checkpoint, and while the transmit serializers of
  an instance are held in reset it signals no ready buffer and no DMA event.\<close>

theorem mcasp_reachable_valid:
  assumes "mcasp_reach s"
  shows "control_valid s \<and> (\<forall>b<3. gblctl s b AND 0x400 = 0 \<longrightarrow> xrdy s b = 0 \<and> \<not> axevt_ready s b)"
  using control_ok_valid [OF mcasp_reach_ok [OF assms]] mcasp_reach_ok [OF assms]
  by (auto simp: control_ok_def clock_ok_def transmit_ok_def axevt_ready_def and_0x20)

lemma mcasp_reachable_valid_witness:
  "control_valid (the (control_write control_reset 0x01D00180 1 4 True))"
proof -
  obtain t where t: "control_write control_reset 0x01D00180 1 4 True = Some t"
    by (simp add: control_write_def mcasp_locate_def register_check_def serializer_count_def legal_srctl_def)
  then have "mcasp_reach t" by (rule mcasp_reach.at_store [OF mcasp_reach.at_reset])
  from mcasp_reachable_valid [OF this] show ?thesis by (simp add: t)
qed

section \<open>One round of the DMA port\<close>

definition active_serializers :: "mcasp_control \<Rightarrow> nat \<Rightarrow> nat \<Rightarrow> nat list" where
  "active_serializers s b k = filter (\<lambda>n. srctl s b n AND 3 = 1) [k..<serializer_count b]"

definition dma_stores :: "nat \<Rightarrow> u32 list \<Rightarrow> mmio_store list" where
  "dma_stores b ws = map (\<lambda>w. \<lparr>st_address = 0x01D02000 + 0x4000 * of_nat b, st_value = ucast w, st_size = 4\<rparr>) ws"

lemma dma_locate: "b < 3 \<Longrightarrow> mcasp_locate (0x01D02000 + 0x4000 * of_nat b) = Some (b, 0x2000)"
  by (auto simp: numeral_3_eq_3 less_Suc_eq mcasp_locate_def)

declare ucast_ucast_32 [simp]

lemma wide_le [simp]: "\<not> (0xFFFFFFFF :: u64) < ucast (w :: u32)"
proof -
  have "unat w < 2 ^ 32" using unsigned_less [of w] by simp
  then show ?thesis by (simp add: word_less_nat_alt)
qed

lemma dma_store_write:
  "b < 3 \<Longrightarrow> control_write s (0x01D02000 + 0x4000 * of_nat b) (ucast w) 4 True = dma_port_write b w True s"
  by (simp add: control_write_def dma_locate)

lemma next_tx_hd: "next_tx_serializer s b k = (case active_serializers s b k of [] \<Rightarrow> serializer_count b | n # _ \<Rightarrow> n)"
  by (simp add: next_tx_serializer_def active_serializers_def)

lemma active_Cons:
  assumes "active_serializers s b k = n # ns"
  shows "active_serializers s b (Suc n) = ns \<and> k \<le> n \<and> n < serializer_count b \<and> n \<notin> set ns"
proof -
  from assms obtain us vs where v: "[k..<serializer_count b] = us @ n # vs" "ns = filter (\<lambda>n. srctl s b n AND 3 = 1) vs"
    unfolding active_serializers_def filter_eq_Cons_iff by blast
  then have "[k..<serializer_count b] ! length us = n" "length us < length [k..<serializer_count b]" by (simp_all add: nth_append)
  then have n: "n = k + length us" "k \<le> n" "n < serializer_count b" by simp_all
  have "drop (Suc (length us)) [k..<serializer_count b] = vs" unfolding v by simp
  then have vs: "vs = [Suc n..<serializer_count b]" using n by (simp add: drop_upt)
  show ?thesis using n by (simp add: v(2) vs active_serializers_def)
qed

lemma note_fields:
  "xbuf (note_xbuf_write b n v s) = (xbuf s)(b := (xbuf s b)(n := v))"
  "xbuf_writes (note_xbuf_write b n v s) = (xbuf_writes s)(b := xbuf_writes s b + 1)"
  "xbuf_sequence (note_xbuf_write b n v s) = (xbuf_sequence s)(b := (xbuf_sequence s b)(n := xbuf_writes s b + 1))"
  "srctl (note_xbuf_write b n v s) = srctl s" "xfmt (note_xbuf_write b n v s) = xfmt s"
  "xrsr (note_xbuf_write b n v s) = xrsr s" "xrsr_source_sequence (note_xbuf_write b n v s) = xrsr_source_sequence s"
  "xstat (note_xbuf_write b n v s) = (xstat s)(b := if (xrdy s b AND NOT (shl 1 n)) AND active_tx_mask s b = 0
     then xstat s b AND NOT 0x20 else xstat s b)"
proof -
  have "active_tx_mask (s\<lparr>xbuf := f, xbuf_writes := w, xbuf_sequence := g, xrdy := h\<rparr>) b = active_tx_mask s b" for f g h w
    by (rule active_cong) simp
  then show
    "xbuf (note_xbuf_write b n v s) = (xbuf s)(b := (xbuf s b)(n := v))"
    "xbuf_writes (note_xbuf_write b n v s) = (xbuf_writes s)(b := xbuf_writes s b + 1)"
    "xbuf_sequence (note_xbuf_write b n v s) = (xbuf_sequence s)(b := (xbuf_sequence s b)(n := xbuf_writes s b + 1))"
    "srctl (note_xbuf_write b n v s) = srctl s" "xfmt (note_xbuf_write b n v s) = xfmt s"
    "xrsr (note_xbuf_write b n v s) = xrsr s" "xrsr_source_sequence (note_xbuf_write b n v s) = xrsr_source_sequence s"
    "xstat (note_xbuf_write b n v s) = (xstat s)(b := if (xrdy s b AND NOT (shl 1 n)) AND active_tx_mask s b = 0
     then xstat s b AND NOT 0x20 else xstat s b)"
    by (simp_all add: note_xbuf_write_def clear_xdata_def del: push_bit_of_1)
qed

text \<open>A buffer write of one word: the state it leaves.\<close>

definition filled :: "nat \<Rightarrow> nat list \<Rightarrow> u32 list \<Rightarrow> mcasp_control \<Rightarrow> mcasp_control \<Rightarrow> bool" where
  "filled b ns ws s t \<longleftrightarrow>
     (\<forall>i<length ns. xbuf t b (ns ! i) = ws ! i \<and> xbuf_writes s b < xbuf_sequence t b (ns ! i)) \<and>
     (\<forall>n. n \<notin> set ns \<longrightarrow> xbuf t b n = xbuf s b n \<and> xbuf_sequence t b n = xbuf_sequence s b n) \<and>
     unat (xbuf_writes t b) = unat (xbuf_writes s b) + length ns \<and>
     srctl t = srctl s \<and> xrsr t = xrsr s \<and> xrsr_source_sequence t = xrsr_source_sequence s \<and>
     bit (xstat t b) 0 = bit (xstat s b) 0 \<and> xdma_next t b = serializer_count b \<and> (ns \<noteq> [] \<longrightarrow> \<not> bit (xstat t b) 5)"

lemma dma_fill:
  assumes "b < 3"
  shows "active_serializers s b k = ns \<Longrightarrow> length ws = length ns \<Longrightarrow> xdma_next s b = next_tx_serializer s b k \<Longrightarrow>
    (\<forall>n. bit (xrdy s b) n \<longleftrightarrow> n \<in> set ns) \<Longrightarrow> xfmt s b AND 8 = 0 \<Longrightarrow> unat (xbuf_writes s b) + length ns < 2 ^ 64 \<Longrightarrow>
    \<exists>t. commit_all control_write s (dma_stores b ws) = Some t \<and> filled b ns ws s t"
proof (induction ns arbitrary: s k ws)
  case Nil
  then show ?case by (simp add: filled_def dma_stores_def next_tx_hd)
next
  case (Cons n ns)
  obtain w ws' where ws: "ws = w # ws'" "length ws' = length ns" using Cons.prems(2) by (cases ws) auto
  note a = active_Cons [OF Cons.prems(1)]
  have d: "xdma_next s b = n" using Cons.prems(1,3) by (simp add: next_tx_hd)
  have room: "xbuf_writes s b \<noteq> - 1" using Cons.prems(6) by (auto simp: unsigned_minus_1_eq_mask mask_eq_exp_minus_1)
  define u where "u = note_xbuf_write b n w s"
  define s1 where "s1 = u\<lparr>xdma_next := (xdma_next u)(b := next_tx_serializer u b (n + 1))\<rparr>"
  have step: "dma_port_write b w True s = Some s1"
    using a Cons.prems(5) room d by (simp add: dma_port_write_def Let_def s1_def u_def not_le [symmetric])
  have u: "srctl u = srctl s" by (simp add: u_def note_fields)
  have "active_serializers s1 b (Suc n) = ns" using a by (simp add: s1_def u active_serializers_def)
  moreover have "xdma_next s1 b = next_tx_serializer s1 b (Suc n)"
    using next_tx_cong [of u b s1] by (simp add: s1_def)
  moreover have rd: "\<forall>m. bit (xrdy s1 b) m \<longleftrightarrow> m \<in> set ns"
    using Cons.prems(4) a bit_imp_le_length [of "xrdy s b"]
    by (auto simp: s1_def u_def regs_keep bit_simps simp del: push_bit_of_1)
  moreover have "xfmt s1 b AND 8 = 0" using Cons.prems(5) by (simp add: s1_def u_def note_fields)
  moreover have w1: "unat (xbuf_writes s1 b) = unat (xbuf_writes s b) + 1"
    using Cons.prems(6) by (simp add: s1_def u_def note_fields unat_word_ariths)
  ultimately obtain t where t: "commit_all control_write s1 (dma_stores b ws') = Some t" "filled b ns ws' s1 t"
    using Cons.IH [of s1 "Suc n" ws'] ws(2) Cons.prems(6) by auto
  have all: "commit_all control_write s (dma_stores b ws) = Some t"
    using t(1) step assms by (simp add: ws dma_stores_def dma_store_write)
  have x1: "xbuf s1 b n = w" "xbuf_sequence s1 b n = xbuf_writes s b + 1" "m \<noteq> n \<Longrightarrow> xbuf s1 b m = xbuf s b m"
    "m \<noteq> n \<Longrightarrow> xbuf_sequence s1 b m = xbuf_sequence s b m" for m
    by (simp_all add: s1_def u_def note_fields)
  have lt: "xbuf_writes s b < xbuf_writes s b + 1" "xbuf_writes s b < xbuf_writes s1 b"
    using w1 by (simp_all add: word_less_nat_alt s1_def u_def note_fields)
  have st: "bit (xstat s1 b) 0 = bit (xstat s b) 0"
    by (simp add: s1_def u_def note_fields bit_and_iff bit_not_iff)
  have last: "ns = [] \<Longrightarrow> \<not> bit (xstat s1 b) 5"
  proof -
    assume "ns = []"
    then have "xrdy s1 b = 0" using rd by (intro bit_word_eqI) simp
    then show ?thesis by (simp add: s1_def u_def note_fields regs_keep bit_and_iff bit_not_iff del: push_bit_of_1)
  qed
  have last': "\<not> bit (xstat t b) 5"
  proof (cases "ns = []")
    case True
    then have "t = s1" using t(1) ws(2) by (simp add: dma_stores_def)
    then show ?thesis using last [OF True] by simp
  next
    case False
    then show ?thesis using t(2) by (simp add: filled_def)
  qed
  have nth: "xbuf t b ((n # ns) ! i) = (w # ws') ! i \<and> xbuf_writes s b < xbuf_sequence t b ((n # ns) ! i)"
    if "i < length (n # ns)" for i
  proof (cases i)
    case 0
    then show ?thesis using t(2) a x1 lt by (simp add: filled_def)
  next
    case (Suc j)
    then show ?thesis using t(2) that lt(2) by (auto simp: filled_def intro: less_trans)
  qed
  have "filled b (n # ns) ws s t"
    unfolding filled_def ws(1)
  proof (intro conjI)
    show "\<forall>m. m \<notin> set (n # ns) \<longrightarrow> xbuf t b m = xbuf s b m \<and> xbuf_sequence t b m = xbuf_sequence s b m"
      using t(2) x1 by (simp add: filled_def)
    show "srctl t = srctl s" "xrsr t = xrsr s" "xrsr_source_sequence t = xrsr_source_sequence s"
      using t(2) by (simp_all add: filled_def s1_def u_def note_fields)
  qed (use nth t(2) w1 st last' in \<open>auto simp: filled_def\<close>)
  then show ?case using all by blast
qed

section \<open>From the DMA port to the serializers\<close>

lemma tx_slot_active:
  assumes "tx_slot s b = Some (True, t)"
  shows "b < 3 \<and> active_tx_mask s b \<noteq> 0 \<and> (\<exists>slot n. t = shift_out b (active_tx_mask s b)
    (s\<lparr>xslot := (xslot s)(b := slot), tx_slot_boundaries := (tx_slot_boundaries s)(b := n)\<rparr>))"
  using assms by (auto simp: tx_slot_def Let_def not_le split: if_splits option.splits)

text \<open>C10: audio path of one port. At an active slot the port asks for words (one AXEVT for the set). Exactly
  one word per active serializer, stored through the DMA port, is taken and clears the request; and at
  the next active slot each active serializer transmits, in increasing order, the word stored for it,
  with no underrun reported.\<close>

theorem mcasp_words_reach_serializers:
  assumes ok: "control_ok s0" and slot: "tx_slot s0 b = Some (True, s)"
    and port: "xfmt s b AND 8 = 0" and len: "length ws = length (active_serializers s b 0)"
    and room: "unat (xbuf_writes s b) + length ws < 2 ^ 64"
  shows "axevt_ready s b \<and> (\<exists>t. commit_all control_write s (dma_stores b ws) = Some t \<and> \<not> axevt_ready t b \<and>
    (\<forall>u. tx_slot t b = Some (True, u) \<longrightarrow>
       (\<forall>i<length ws. xrsr u b (active_serializers s b 0 ! i) = ws ! i) \<and> bit (xstat u b) 0 = bit (xstat s b) 0))"
proof -
  let ?ns = "active_serializers s b 0"
  obtain sl bd where b: "b < 3" and act: "active_tx_mask s0 b \<noteq> 0" and
    s: "s = shift_out b (active_tx_mask s0 b) (s0\<lparr>xslot := sl, tx_slot_boundaries := bd\<rparr>)"
    using tx_slot_active [OF slot] by blast
  have oks: "control_ok s" by (rule ok_tx_slot [OF ok slot])
  have srs: "srctl s = srctl s0" and rd: "xrdy s b = active_tx_mask s0 b" and dn: "xdma_next s b = next_tx_serializer s b 0"
    and st: "bit (xstat s b) 5"
    using next_tx_cong [of s b s0] next_tx_cong [of "s0\<lparr>xslot := sl, tx_slot_boundaries := bd\<rparr>" b s0]
    by (simp_all add: s shift_out_fields bit_or_iff)
  have mem: "n \<in> set ?ns \<longleftrightarrow> bit (active_tx_mask s b) n" for n
    using serializer_count_le [OF b] by (auto simp: active_serializers_def bit_active)
  have rdy: "\<forall>n. bit (xrdy s b) n \<longleftrightarrow> n \<in> set ?ns"
    using active_cong [of s b s0] srs by (simp add: mem rd)
  have ne: "?ns \<noteq> []"
  proof
    assume "?ns = []"
    then have "xrdy s b = 0" using rdy by (intro bit_word_eqI) simp
    then show False using act rd by simp
  qed
  obtain t where t: "commit_all control_write s (dma_stores b ws) = Some t" "filled b ?ns ws s t"
    using dma_fill [OF b refl len dn rdy port] room len by auto
  have "\<not> axevt_ready t b" using t(2) ne by (simp add: filled_def axevt_ready_def and_0x20)
  moreover have "(\<forall>i<length ws. xrsr u b (?ns ! i) = ws ! i) \<and> bit (xstat u b) 0 = bit (xstat s b) 0"
    if tu: "tx_slot t b = Some (True, u)" for u
  proof -
    obtain sl' bd' where u: "u = shift_out b (active_tx_mask t b) (t\<lparr>xslot := sl', tx_slot_boundaries := bd'\<rparr>)"
      using tx_slot_active [OF tu] by blast
    have at: "active_tx_mask t b = active_tx_mask s b" using t(2) by (intro active_cong) (simp add: filled_def)
    have fresh: "xrsr_source_sequence t b n < xbuf_sequence t b n" if m: "n \<in> set ?ns" for n
    proof -
      have "n < serializer_count b" using m by (simp add: active_serializers_def)
      then have "xrsr_source_sequence s b n \<le> xbuf_writes s b"
        using oks b by (auto simp: control_ok_def transmit_ok_def transmit_ok0_def serializer_ok_def intro: order_trans)
      moreover obtain i where "i < length ?ns" "?ns ! i = n" using m unfolding in_set_conv_nth by blast
      then have "xbuf_writes s b < xbuf_sequence t b n" using t(2) by (auto simp: filled_def)
      ultimately show ?thesis using t(2) by (simp add: filled_def)
    qed
    have "xrsr u b (?ns ! i) = ws ! i" if "i < length ws" for i
    proof -
      have n: "?ns ! i \<in> set ?ns" using that len by simp
      then have "?ns ! i < serializer_count b" "bit (active_tx_mask s b) (?ns ! i)"
        using mem by (auto simp: active_serializers_def)
      then show ?thesis using t(2) that len fresh [OF n] by (simp add: u shift_out_fields at filled_def)
    qed
    moreover have "\<not> (\<exists>n < serializer_count b. bit (active_tx_mask s b) n \<and> xbuf_sequence t b n \<le> xrsr_source_sequence t b n)"
      using fresh mem by (meson leD)
    then have "bit (xstat u b) 0 = bit (xstat t b) 0"
      unfolding u shift_out_fields at by (auto simp: bit_or_iff)
    ultimately show ?thesis using t(2) by (simp add: filled_def)
  qed
  ultimately show ?thesis using t(1) st b by (auto simp: axevt_ready_def and_0x20)
qed

text \<open>A stereo pair on the third port: serializers 1 and 3 transmit two slots.\<close>

definition example_port :: mcasp_control where
  "example_port = control_reset\<lparr>gblctl := \<lambda>_. 0x1F00, afsxctl := \<lambda>_. 0x102, xfmt := \<lambda>_. 0xF0, xtdm := \<lambda>_. 3,
     srctl := (\<lambda>_. (\<lambda>n. if n = 1 \<or> n = 3 then 1 else 0))\<rparr>"

lemma example_port_ok: "control_ok example_port"
proof -
  have "regs_ok example_port b \<and> transmit_ok example_port b \<and> clock_ok example_port b" if "b < 3" for b
    using serializer_count_le [OF that] that
    by (auto simp: regs_ok_def transmit_ok_def transmit_ok0_def serializer_ok_def clock_ok_def example_port_def control_reset_def
      legal_dlbctl_def legal_afsxctl_def legal_xfmt_def legal_srctl_def serializer_count_def numeral_3_eq_3 less_Suc_eq)
  then show ?thesis by (simp add: control_ok_def)
qed

lemma mcasp_words_reach_serializers_witness:
  "\<exists>s t u. tx_slot example_port 2 = Some (True, s) \<and> commit_all control_write s (dma_stores 2 [5, 7]) = Some t \<and>
     tx_slot t 2 = Some (True, u) \<and> xrsr u 2 1 = 5 \<and> xrsr u 2 3 = 7"
proof -
  define s where "s = snd (the (tx_slot example_port 2))"
  have s: "tx_slot example_port 2 = Some (True, s)" proof -
    have "map_option fst (tx_slot example_port 2) = Some True" by code_simp
    then show ?thesis by (auto simp: s_def)
  qed
  have a: "active_serializers s 2 0 = [1, 3]" "xfmt s 2 AND 8 = 0" "unat (xbuf_writes s 2) = 0" unfolding s_def by code_simp+
  obtain t where t: "commit_all control_write s (dma_stores 2 [5, 7]) = Some t"
    "\<forall>u. tx_slot t 2 = Some (True, u) \<longrightarrow> (\<forall>i<2. xrsr u 2 ([1, 3] ! i) = [5, 7] ! i)"
    using mcasp_words_reach_serializers [OF example_port_ok s a(2), of "[5, 7]"] by (auto simp: a)
  have "map_option fst (tx_slot (the (commit_all control_write s (dma_stores 2 [5, 7]))) 2) = Some True"
    unfolding s_def by code_simp
  then obtain u where u: "tx_slot t 2 = Some (True, u)" using t(1) by auto
  have "xrsr u 2 ([1, 3] ! 0) = [5, 7] ! 0" "xrsr u 2 ([1, 3] ! 1) = [5, 7] ! 1" using t(2) [rule_format, OF u, of 0] t(2) [rule_format, OF u, of 1] by simp_all
  then show ?thesis using s t(1) u by auto
qed

section \<open>Clock rates\<close>

lemma unat_field_succ:
  "unat (((w :: u32) AND 0xFFF) + 1) = unat (w AND 0xFFF) + 1 \<and> unat (w AND 0xFFF) < 4096"
  "unat ((w AND 0x1F) + 1) = unat (w AND 0x1F) + 1 \<and> unat (w AND 0x1F) < 32"
  "unat ((w AND 15) + 1) = unat (w AND 15) + 1 \<and> unat (w AND 15) < 16"
proof -
  have m: "unat ((w :: u32) AND mask n) < 2 ^ n" if "n < 32" for n
  proof -
    have "unat (take_bit n w) = take_bit n (unat w)" by (simp add: unsigned_take_bit_eq)
    then show ?thesis by (simp add: take_bit_eq_mask [symmetric])
  qed
  have e: "(mask 12 :: u32) = 0xFFF" "(mask 5 :: u32) = 0x1F" "(mask 4 :: u32) = 15" by (simp_all add: mask_eq_exp_minus_1)
  have b: "unat (w AND 0xFFF) < 4096" "unat (w AND 0x1F) < 32" "unat (w AND 15) < 16"
    using m [of 12] m [of 5] m [of 4] unfolding e by simp_all
  show "unat ((w AND 0xFFF) + 1) = unat (w AND 0xFFF) + 1 \<and> unat (w AND 0xFFF) < 4096"
    "unat ((w AND 0x1F) + 1) = unat (w AND 0x1F) + 1 \<and> unat (w AND 0x1F) < 32"
    "unat ((w AND 15) + 1) = unat (w AND 15) + 1 \<and> unat (w AND 15) < 16"
    using b by (simp_all only: unat_word_ariths) simp_all
qed

lemma unat_mult_exact: "unat (x :: u32) = m \<Longrightarrow> unat y = n \<Longrightarrow> m * n < 2 ^ 32 \<Longrightarrow> unat (x * y) = m * n"
  by (simp add: unat_word_ariths)

text \<open>the transmit clock chain is computed without overflow: the denominator is exactly the product of the
  high-clock divider, the bit-clock divider from ACLKX on, and for the frame sync the slots of a frame times
  the bits of a slot, at most 2^27; the numerator is the auxiliary clock.\<close>

theorem tx_clock_exact:
  assumes "tx_clock_hz s b hz tap = Some (num, den)"
  shows "unat num = unat hz \<and> unat den \<le> 2 ^ 27 \<and>
    unat den = (unat (ahclkxctl s b AND 0xFFF) + 1) *
      (if tap \<ge> TAP_ACLKX then unat (aclkxctl s b AND 0x1F) + 1 else 1) *
      (if tap = TAP_AFSX then unat (shr (afsxctl s b) 7) * (2 * (unat (shr (xfmt s b) 4 AND 15) + 1)) else 1)"
proof -
  define h c w where "h = unat (ahclkxctl s b AND 0xFFF)" and "c = unat (aclkxctl s b AND 0x1F)"
    and "w = unat (shr (xfmt s b) 4 AND 15)"
  define k where "k = unat (shr (afsxctl s b) 7)"
  have hb: "unat ((ahclkxctl s b AND 0xFFF) + 1) = h + 1" "h + 1 \<le> 4096"
    and cb: "unat ((aclkxctl s b AND 0x1F) + 1) = c + 1" "c + 1 \<le> 32"
    and wb: "unat ((shr (xfmt s b) 4 AND 15) + 1) = w + 1" "w + 1 \<le> 16"
    using unat_field_succ(1) [of "ahclkxctl s b"] unat_field_succ(2) [of "aclkxctl s b"]
      unat_field_succ(3) [of "shr (xfmt s b) 4"] by (simp_all only: h_def c_def w_def) linarith+
  have hc: "(h + 1) * (c + 1) \<le> 4096 * 32" by (rule mult_le_mono [OF hb(2) cb(2)])
  have uhc: "unat (((ahclkxctl s b AND 0xFFF) + 1) * ((aclkxctl s b AND 0x1F) + 1)) = (h + 1) * (c + 1)"
    by (rule unat_mult_exact [OF hb(1) cb(1)]) (use hc in simp)
  consider "tap = TAP_AHCLKX" "num = ucast hz" "den = (ahclkxctl s b AND 0xFFF) + 1"
    | "tap = TAP_ACLKX" "num = ucast hz" "den = ((ahclkxctl s b AND 0xFFF) + 1) * ((aclkxctl s b AND 0x1F) + 1)"
    | "tap = TAP_AFSX" "num = ucast hz" "shr (afsxctl s b) 7 \<le> 0x20"
      "den = ((ahclkxctl s b AND 0xFFF) + 1) * ((aclkxctl s b AND 0x1F) + 1) *
        (shr (afsxctl s b) 7 * 2 * ((shr (xfmt s b) 4 AND 15) + 1))"
    using assms unfolding tx_clock_hz_def Let_def by (auto simp: not_less split: if_splits)
  then show ?thesis
  proof cases
    case 1
    then show ?thesis using hb by (simp add: h_def)
  next
    case 2
    then show ?thesis using uhc hc by (simp add: h_def c_def)
  next
    case 3
    have k: "k \<le> 32" using 3(3) by (simp add: k_def word_le_nat_alt)
    have k2: "unat (shr (afsxctl s b) 7 * 2) = k * 2" by (rule unat_mult_exact) (use k in \<open>simp_all add: k_def\<close>)
    have kw: "k * 2 * (w + 1) \<le> 1024" using mult_le_mono [OF mult_le_mono [OF k, of 2 2] wb(2)] by simp
    have ukw: "unat (shr (afsxctl s b) 7 * 2 * ((shr (xfmt s b) 4 AND 15) + 1)) = k * 2 * (w + 1)"
      by (rule unat_mult_exact [OF k2 wb(1)]) (use kw in simp)
    have all: "(h + 1) * (c + 1) * (k * 2 * (w + 1)) \<le> 4096 * 32 * 1024" by (rule mult_le_mono [OF hc kw])
    have "unat den = (h + 1) * (c + 1) * (k * 2 * (w + 1))"
      unfolding 3(4) by (rule unat_mult_exact [OF uhc ukw]) (use all in simp)
    then show ?thesis using 3(1,2) all by (simp add: h_def c_def k_def w_def)
  qed
qed

lemma tx_clock_exact_witness:
  "\<exists>num den. tx_clock_hz (example_port\<lparr>afsxctl := \<lambda>_. 0x102, aclkxctl := \<lambda>_. 0x65\<rparr>) 2 16934400 TAP_AFSX = Some (num, den) \<and> unat den = 384"
proof -
  have e: "tx_clock_hz (example_port\<lparr>afsxctl := \<lambda>_. 0x102, aclkxctl := \<lambda>_. 0x65\<rparr>) 2 16934400 TAP_AFSX = Some (16934400, 384)"
    by code_simp
  have "unat (384 :: u32) \<le> 2 ^ 27" using tx_clock_exact [OF e] by blast
  then show ?thesis using e by simp
qed

end
