(* ===== verification/C6747_Cache.thy ===== *)
theory C6747_Cache
  imports Bus_Contract
begin

text \<open>
  \<^verbatim>\<open>emulator/qemu/cdj_c6747_cache.c\<close>: the cache control registers, and the part of the
  32 KiB L1D memory that the configured cache size leaves exposed as SRAM.
\<close>

section \<open>State and operations\<close>

record cache =
  l2cfg :: u32
  l1pcfg :: u32
  l1pcc :: u32
  l1dcfg :: u32
  l1dcc :: u32
  block_base :: "nat \<Rightarrow> u32"
  mar :: "nat \<Rightarrow> u32"

abbreviation CACHE_BASE :: u32 where "CACHE_BASE \<equiv> 0x01840000"

definition mar_supported :: "nat \<Rightarrow> bool" where
  "mar_supported index \<longleftrightarrow> 64 \<le> index \<and> index \<le> 103 \<or> index = 128 \<or> 192 \<le> index \<and> index \<le> 223"

definition l1d_bytes :: "u32 list" where
  "l1d_bytes = [0x8000, 0x7000, 0x6000, 0x4000, 0, 0, 0, 0]"

text \<open>\<open>size_t\<close> values are 64-bit words.\<close>

definition l1d_sram_span :: "cache \<Rightarrow> u32 \<Rightarrow> u64 \<Rightarrow> u32 option" where
  "l1d_sram_span cache address sz =
     (if sz = 0 then None
      else
        (let base = (if address \<ge> 0x00F00000 \<and> address < 0x00F08000 then Some 0x00F00000
                     else if address \<ge> 0x11F00000 \<and> address < 0x11F08000 then Some 0x11F00000 else None)
         in case base of None \<Rightarrow> None
            | Some b \<Rightarrow>
                (let at = address - b; available = l1d_bytes ! unat (l1dcfg cache AND 7)
                 in if at > available \<or> sz > ucast (available - at) then None else Some at)))"

definition cache_reset :: cache where
  "cache_reset = \<lparr>l2cfg = 0, l1pcfg = 7, l1pcc = 0, l1dcfg = 7, l1dcc = 0, block_base = (\<lambda>_. 0), mar = (\<lambda>_. 0)\<rparr>"

text \<open>The block base registers L2WBAR, L2WIBAR, L2IBAR, L1PIBAR, L1DWIBAR, L1DWBAR and L1DIBAR.\<close>

definition block_base_index :: "u32 \<Rightarrow> nat option" where
  "block_base_index off =
     (if off = 0x4000 then Some 0 else if off = 0x4010 then Some 1 else if off = 0x4018 then Some 2
      else if off = 0x4020 then Some 3 else if off = 0x4030 then Some 4 else if off = 0x4040 then Some 5
      else if off = 0x4048 then Some 6 else None)"

definition word_count_offset :: "u32 \<Rightarrow> bool" where
  "word_count_offset off \<longleftrightarrow> off = 0x4004 \<or> off = 0x4014 \<or> off = 0x401C \<or> off = 0x4024 \<or>
     off = 0x4034 \<or> off = 0x4044 \<or> off = 0x404C"

definition global_operation_offset :: "u32 \<Rightarrow> bool" where
  "global_operation_offset off \<longleftrightarrow> off = 0x5000 \<or> off = 0x5004 \<or> off = 0x5008 \<or> off = 0x5028 \<or>
     off = 0x5040 \<or> off = 0x5044 \<or> off = 0x5048"

definition cache_mapped :: "u32 \<Rightarrow> bool" where
  "cache_mapped address \<longleftrightarrow>
     \<not> (address < CACHE_BASE \<or> address \<ge> CACHE_BASE + 0x10000 \<or> address AND 3 \<noteq> 0)"

definition cache_read :: "cache \<Rightarrow> u32 \<Rightarrow> u32 option" where
  "cache_read cache address =
     (if \<not> cache_mapped address then None
      else
        (let off = address - CACHE_BASE
         in if off = 0x0000 then Some (l2cfg cache)
            else if off = 0x0020 then Some (l1pcfg cache)
            else if off = 0x0024 then Some (l1pcc cache)
            else if off = 0x0040 then Some (l1dcfg cache)
            else if off = 0x0044 then Some (l1dcc cache)
            else if word_count_offset off \<or> global_operation_offset off then Some 0
            else if off \<ge> 0x8000 \<and> off \<le> 0x83FC then
              (let index = unat ((off - 0x8000) div 4)
               in if \<not> mar_supported index then None else Some (mar cache index))
            else None))"

definition cache_write :: "cache \<Rightarrow> u32 \<Rightarrow> u64 \<Rightarrow> nat \<Rightarrow> bool \<Rightarrow> cache option" where
  "cache_write cache address value_in sz commit =
     (if sz \<noteq> 4 \<or> value_in > 0xFFFFFFFF \<or> \<not> cache_mapped address then None
      else
        (let off = address - CACHE_BASE; w = ucast value_in
         in if off = 0x0000 then Some (if commit then cache\<lparr>l2cfg := w AND 0xF\<rparr> else cache)
            else if off = 0x0020 then Some (if commit then cache\<lparr>l1pcfg := w AND 7\<rparr> else cache)
            else if off = 0x0024 then
              Some (if commit then cache\<lparr>l1pcc := shl (l1pcc cache AND 1) 16 OR (w AND 1)\<rparr> else cache)
            else if off = 0x0040 then Some (if commit then cache\<lparr>l1dcfg := w AND 7\<rparr> else cache)
            else if off = 0x0044 then
              Some (if commit then cache\<lparr>l1dcc := shl (l1dcc cache AND 1) 16 OR (w AND 1)\<rparr> else cache)
            else
              (case block_base_index off of
                 Some index \<Rightarrow>
                   Some (if commit then cache\<lparr>block_base := (block_base cache)(index := w)\<rparr> else cache)
               | None \<Rightarrow>
                   if word_count_offset off \<or> global_operation_offset off then Some cache
                   else if off \<ge> 0x8000 \<and> off \<le> 0x83FC then
                     (let index = unat ((off - 0x8000) div 4)
                      in if \<not> mar_supported index then None
                         else Some (if commit then cache\<lparr>mar := (mar cache)(index := w AND 1)\<rparr> else cache))
                   else None)))"

interpretation cache_mmio: mmio_port_stable cache_write
  by unfold_locales (auto simp: cache_write_def Let_def split: if_splits option.splits)

section \<open>Bounds\<close>

lemma l1d_bytes_le: "unat (l1d_bytes ! unat ((w :: u32) AND 7)) \<le> 0x8000"
proof -
  have "w AND 7 \<le> 7" by (rule word_and_le1)
  then have "unat (w AND 7) \<le> 7" by (simp add: word_le_nat_alt)
  then have "l1d_bytes ! unat (w AND 7) \<in> set l1d_bytes" by (intro nth_mem) (simp add: l1d_bytes_def)
  then show ?thesis by (auto simp: l1d_bytes_def)
qed

text \<open>An exposed span lies in the part of the memory the cache does not use.\<close>

lemma l1d_sram_span_bounds:
  assumes "l1d_sram_span cache address sz = Some off"
  shows "unat off + unat sz \<le> unat (l1d_bytes ! unat (l1dcfg cache AND 7))" "0 < unat sz"
    "unat off + unat sz \<le> 0x8000"
proof -
  let ?av = "l1d_bytes ! unat (l1dcfg cache AND 7)"
  have a: "sz \<noteq> 0" "off \<le> ?av" "sz \<le> ucast (?av - off)"
    using assms by (auto simp: l1d_sram_span_def Let_def not_less split: if_splits option.splits)
  then have "unat sz \<le> unat ?av - unat off" "unat off \<le> unat ?av"
    by (simp_all add: word_le_nat_alt unat_sub)
  then show "unat off + unat sz \<le> unat ?av" by simp
  then show "unat off + unat sz \<le> 0x8000" using l1d_bytes_le [of "l1dcfg cache"] by linarith
  show "0 < unat sz" using a(1) by (simp add: unat_gt_0)
qed

text \<open>Configuring the data cache: the size written is the size read back, the memory it leaves is
  exposed at both its aliases, and nothing beyond it.\<close>

theorem l1d_configuration_exposes:
  assumes "cache_write cache (CACHE_BASE + 0x40) v 4 True = Some cache'" "sz \<noteq> 0"
  shows "cache_read cache' (CACHE_BASE + 0x40) = Some (ucast v AND 7) \<and>
    l1d_sram_span cache' 0x00F00000 sz = l1d_sram_span cache' 0x11F00000 sz \<and>
    (l1d_sram_span cache' 0x11F00000 sz = Some 0 \<longleftrightarrow> unat sz \<le> unat (l1d_bytes ! unat (ucast v AND (7 :: u32))))"
proof -
  have m: "cache_mapped (CACHE_BASE + 0x40)" by (simp add: cache_mapped_def)
  have c: "cache' = cache\<lparr>l1dcfg := ucast v AND 7\<rparr>"
    using assms(1) m by (auto simp: cache_write_def Let_def split: if_splits)
  have r: "cache_read cache' (CACHE_BASE + 0x40) = Some (ucast v AND 7)"
    using m by (simp add: cache_read_def Let_def c)
  show ?thesis using assms(2) r
    by (simp add: l1d_sram_span_def Let_def c and.assoc not_less word_le_nat_alt word_less_nat_alt)
qed

theorem l1d_configuration_exposes_witness:
  "\<exists>cache'. cache_write cache_reset (CACHE_BASE + 0x40) 2 4 True = Some cache' \<and>
     cache_read cache' (CACHE_BASE + 0x40) = Some 2"
proof -
  obtain c where c: "cache_write cache_reset (CACHE_BASE + 0x40) 2 4 True = Some c"
    by (simp add: cache_write_def cache_mapped_def)
  show ?thesis using c l1d_configuration_exposes [OF c, of 1] by simp
qed

end
