(* ===== verification/C6747_Emifb.thy ===== *)
theory C6747_Emifb
  imports Bus_Contract
begin

text \<open>
  \<^verbatim>\<open>emulator/qemu/cdj_c6747_emifb.c\<close>: the configuration registers of the SDRAM
  controller, whose fields unlock each other, and the translation of an EMIFB address
  to an offset in the populated memory.
\<close>

section \<open>State and registers\<close>

record emifb =
  sdcfg :: u32
  sdrfc :: u32
  sdtim1 :: u32
  sdtim2 :: u32
  sdcfg2 :: u32
  bprio :: u32
  init_sequences :: u32

abbreviation EMIFB_BASE :: u32 where "EMIFB_BASE \<equiv> 0xB0000000"
abbreviation EMIFB_REVID :: u32 where "EMIFB_REVID \<equiv> EMIFB_BASE + 0x00"
abbreviation EMIFB_SDCFG :: u32 where "EMIFB_SDCFG \<equiv> EMIFB_BASE + 0x08"
abbreviation EMIFB_SDRFC :: u32 where "EMIFB_SDRFC \<equiv> EMIFB_BASE + 0x0C"
abbreviation EMIFB_SDTIM1 :: u32 where "EMIFB_SDTIM1 \<equiv> EMIFB_BASE + 0x10"
abbreviation EMIFB_SDTIM2 :: u32 where "EMIFB_SDTIM2 \<equiv> EMIFB_BASE + 0x14"
abbreviation EMIFB_SDCFG2 :: u32 where "EMIFB_SDCFG2 \<equiv> EMIFB_BASE + 0x1C"
abbreviation EMIFB_BPRIO :: u32 where "EMIFB_BPRIO \<equiv> EMIFB_BASE + 0x20"

abbreviation SDCFG_VALID :: u32 where
  "SDCFG_VALID \<equiv> shl 1 26 OR shl 1 25 OR shl 1 23 OR shl 1 16 OR shl 1 15 OR shl 1 14 OR
     shl 7 9 OR shl 7 4 OR 7"
abbreviation SDCFG_BOOT_UNLOCK :: u32 where "SDCFG_BOOT_UNLOCK \<equiv> shl 1 23"
abbreviation SDCFG_SDREN :: u32 where "SDCFG_SDREN \<equiv> shl 1 16"
abbreviation SDCFG_TIMUNLOCK :: u32 where "SDCFG_TIMUNLOCK \<equiv> shl 1 15"
abbreviation SDTIM2_VALID :: u32 where "SDTIM2_VALID \<equiv> shl 15 27 OR shl 127 16 OR 31"
abbreviation SDRFC_VALID :: u32 where "SDRFC_VALID \<equiv> shl 3 30 OR shl 1 23 OR 0xFFFF"

definition emifb_reset :: emifb where
  "emifb_reset = \<lparr>sdcfg = 0x00010620, sdrfc = 0x000004E2, sdtim1 = 0x14D93A90, sdtim2 = 0x700A0007,
     sdcfg2 = 0, bprio = 0xFF, init_sequences = 0\<rparr>"

definition emifb_read :: "emifb \<Rightarrow> u32 \<Rightarrow> u32 option" where
  "emifb_read s address =
     (if address = EMIFB_REVID then Some 0x4033131F
      else if address = EMIFB_SDCFG then Some (sdcfg s)
      else if address = EMIFB_SDRFC then Some (sdrfc s)
      else if address = EMIFB_SDTIM1 then Some (sdtim1 s)
      else if address = EMIFB_SDTIM2 then Some (sdtim2 s)
      else if address = EMIFB_SDCFG2 then Some (sdcfg2 s)
      else if address = EMIFB_BPRIO then Some (bprio s)
      else None)"

definition valid_sdcfg :: "u32 \<Rightarrow> bool" where
  "valid_sdcfg v =
     (let cl = shr v 9 AND 7; ibank = shr v 4 AND 7; page = v AND 7
      in v AND NOT SDCFG_VALID = 0 \<and> cl \<ge> 2 \<and> cl \<le> 3 \<and> ibank \<le> 2 \<and> page \<le> 3)"

definition valid_sdcfg2 :: "u32 \<Rightarrow> bool" where
  "valid_sdcfg2 v =
     (let pasr = shr v 16 AND 7; rows = v AND 7
      in v AND NOT 0x00070007 = 0 \<and> pasr \<noteq> 3 \<and> pasr \<noteq> 4 \<and> pasr \<noteq> 7 \<and> rows \<le> 5)"

section \<open>Writes\<close>

text \<open>The fields of SDCFG that a write may change: BOOT_UNLOCK of the old value opens the protected
  boot fields, TIMUNLOCK of the new value the CAS latency.\<close>

definition sdcfg_protected :: u32 where
  "sdcfg_protected = shl 1 26 OR shl 1 25 OR SDCFG_SDREN"

definition sdcfg_next :: "u32 \<Rightarrow> u32 \<Rightarrow> u32" where
  "sdcfg_next old v =
     (let nxt = (v AND NOT sdcfg_protected) OR (old AND sdcfg_protected);
          nxt = (if old AND SDCFG_BOOT_UNLOCK \<noteq> 0
                 then (nxt AND NOT sdcfg_protected) OR (v AND sdcfg_protected) else nxt)
      in if v AND SDCFG_TIMUNLOCK = 0 then (nxt AND NOT (shl 7 9)) OR (old AND shl 7 9) else nxt)"

definition sdrfc_next :: "emifb \<Rightarrow> u32 \<Rightarrow> u32" where
  "sdrfc_next s v =
     (let rate = v AND 0xFFFF;
          rate = (if rate < 0x100 then 2 * (shr (sdtim1 s) 25 AND 0x7F) else rate)
      in (v AND 0xFFFF0000) OR rate)"

definition emifb_write :: "emifb \<Rightarrow> u32 \<Rightarrow> u64 \<Rightarrow> nat \<Rightarrow> bool \<Rightarrow> emifb option" where
  "emifb_write s address value_in sz commit =
     (if sz \<noteq> 4 \<or> value_in > 0xFFFFFFFF then None
      else
        (let v = ucast value_in
         in if address = EMIFB_SDCFG then
              (if \<not> valid_sdcfg v then None
               else if \<not> commit then Some s
               else Some (s\<lparr>sdcfg := sdcfg_next (sdcfg s) v, init_sequences := init_sequences s + 1\<rparr>))
            else if address = EMIFB_SDRFC then
              (if v AND NOT SDRFC_VALID \<noteq> 0 then None
               else Some (if commit then s\<lparr>sdrfc := sdrfc_next s v\<rparr> else s))
            else if address = EMIFB_SDTIM1 then
              (if v AND 7 \<noteq> 0 then None
               else if (shr v 11 AND 0x1F) < (shr v 19 AND 7) then None
               else Some (if commit \<and> sdcfg s AND SDCFG_TIMUNLOCK \<noteq> 0 then s\<lparr>sdtim1 := v\<rparr> else s))
            else if address = EMIFB_SDTIM2 then
              (if v AND NOT SDTIM2_VALID \<noteq> 0 then None
               else Some (if commit \<and> sdcfg s AND SDCFG_TIMUNLOCK \<noteq> 0 then s\<lparr>sdtim2 := v\<rparr> else s))
            else if address = EMIFB_SDCFG2 then
              (if \<not> valid_sdcfg2 v then None
               else Some (if commit then s\<lparr>sdcfg2 := v, init_sequences := init_sequences s + 1\<rparr> else s))
            else if address = EMIFB_BPRIO then
              (if v AND NOT 0xFF \<noteq> 0 then None
               else Some (if commit then s\<lparr>bprio := v\<rparr> else s))
            else None))"

definition emifb_sdram_enabled :: "emifb \<Rightarrow> bool" where
  "emifb_sdram_enabled s \<longleftrightarrow> sdcfg s AND SDCFG_SDREN \<noteq> 0"

text \<open>\<open>size_t\<close> values are 64-bit words.\<close>

definition emifb_sdram_offset :: "emifb \<Rightarrow> u32 \<Rightarrow> u64 \<Rightarrow> u64 \<Rightarrow> u32 option" where
  "emifb_sdram_offset s address sz populated =
     (if \<not> emifb_sdram_enabled s \<or> sz = 0 \<or> populated = 0 \<or> populated > 0x20000000 \<or>
         populated AND (populated - 1) \<noteq> 0 \<or> address < 0xC0000000 \<or> address \<ge> 0xE0000000 \<or>
         sz > 0xE0000000 - ucast address then None
      else
        (let physical = (ucast (ucast (address - 0xC0000000) AND (populated - 1)) :: u32)
         in if sz > populated - ucast physical then None else Some physical))"

interpretation emifb_mmio: mmio_port_stable emifb_write
  by unfold_locales (auto simp: emifb_write_def Let_def split: if_splits)

section \<open>Field locking\<close>

lemma sdcfg_protected_bit: "bit sdcfg_protected i \<longleftrightarrow> i = 16 \<or> i = 25 \<or> i = 26"
  unfolding sdcfg_protected_def bit_or_iff bit_shl_1 by auto

lemma sdcfg_cl_bit: "bit (shl (7 :: u32) 9) i \<longleftrightarrow> i = 9 \<or> i = 10 \<or> i = 11"
proof -
  have "(7 :: u32) = mask 3" by (simp add: mask_eq_exp_minus_1)
  then show ?thesis by (simp only: bit_push_bit_iff bit_mask_iff) auto
qed

lemma and_shl_1_iff: "(w :: u32) AND shl 1 k \<noteq> 0 \<longleftrightarrow> bit w k"
  using and_exp_eq_0_iff_not_bit [of w k] by (simp add: push_bit_eq_mult)

text \<open>Which bit of the written value reaches the register.\<close>

lemma sdcfg_next_bit:
  "bit (sdcfg_next old v) i \<longleftrightarrow>
     (if i \<in> {16, 25, 26} then (if bit old 23 then bit v i else bit old i)
      else if i \<in> {9, 10, 11} then (if bit v 15 then bit v i else bit old i)
      else bit v i)"
proof -
  have a: "old AND SDCFG_BOOT_UNLOCK \<noteq> 0 \<longleftrightarrow> bit old 23" "v AND SDCFG_TIMUNLOCK = 0 \<longleftrightarrow> \<not> bit v 15"
    using and_shl_1_iff [of old 23] and_shl_1_iff [of v 15] by blast+
  show ?thesis
    unfolding sdcfg_next_def Let_def a
    by (cases "bit old 23"; cases "bit v 15")
      (auto simp only: if_True if_False bit_or_iff bit_and_iff bit_not_iff possible_bit_word
        sdcfg_protected_bit sdcfg_cl_bit insert_iff empty_iff simp_thms split: if_splits dest: bit_imp_le_length)
qed

lemma shr_field_cong:
  "(\<And>i. k \<le> i \<Longrightarrow> i < k + 3 \<Longrightarrow> bit (a :: u32) i = bit b i) \<Longrightarrow> shr a k AND 7 = shr b k AND 7"
  unfolding and_mask_numerals by (rule bit_word_eqI) (auto simp: bit_simps)

lemma valid_sdcfg_next:
  assumes "valid_sdcfg old" "valid_sdcfg v"
  shows "valid_sdcfg (sdcfg_next old v)"
proof -
  let ?n = "sdcfg_next old v"
  have m: "bit ?n i \<longrightarrow> bit SDCFG_VALID i" for i
  proof -
    have *: "bit w i \<longrightarrow> bit SDCFG_VALID i" if "valid_sdcfg w" for w
    proof -
      have "w AND NOT SDCFG_VALID = 0" using that unfolding valid_sdcfg_def Let_def by blast
      then have "\<not> bit (w AND NOT SDCFG_VALID) i" by (metis bit_0_eq bot_apply bot_bool_def)
      then show ?thesis unfolding bit_and_iff bit_not_iff by (auto dest: bit_imp_le_length)
    qed
    show ?thesis using * [OF assms(1)] * [OF assms(2)] unfolding sdcfg_next_bit by (auto split: if_splits)
  qed
  have n: "?n AND NOT SDCFG_VALID = 0"
  proof (rule bit_word_eqI)
    fix i show "bit (?n AND NOT SDCFG_VALID) i = bit (0 :: u32) i"
      unfolding bit_and_iff bit_not_iff using m [of i] by simp
  qed
  have f: "shr ?n 4 AND 7 = shr v 4 AND 7" "shr ?n 0 AND 7 = shr v 0 AND 7"
    by (rule shr_field_cong; simp add: sdcfg_next_bit)+
  have f0: "?n AND 7 = v AND 7" using f(2) by simp
  have "shr ?n 9 AND 7 = shr (if bit v 15 then v else old) 9 AND 7"
    by (rule shr_field_cong) (auto simp: sdcfg_next_bit)
  then show ?thesis using n f(1) f0 assms unfolding valid_sdcfg_def Let_def by (auto split: if_splits)
qed


definition emifb_inv :: "emifb \<Rightarrow> bool" where
  "emifb_inv s \<longleftrightarrow> valid_sdcfg (sdcfg s) \<and> valid_sdcfg2 (sdcfg2 s) \<and> sdrfc s AND NOT SDRFC_VALID = 0 \<and>
     sdtim1 s AND 7 = 0 \<and> (shr (sdtim1 s) 19 AND 7) \<le> (shr (sdtim1 s) 11 AND 0x1F) \<and>
     sdtim2 s AND NOT SDTIM2_VALID = 0 \<and> bprio s AND NOT 0xFF = 0"

lemma emifb_inv_reset: "emifb_inv emifb_reset"
  by (simp add: emifb_inv_def emifb_reset_def valid_sdcfg_def valid_sdcfg2_def)

lemma sdrfc_next_valid:
  assumes "v AND NOT SDRFC_VALID = 0"
  shows "sdrfc_next s v AND NOT SDRFC_VALID = 0"
proof -
  define rate where "rate = (let r = v AND 0xFFFF in if r < 0x100 then 2 * (shr (sdtim1 s) 25 AND 0x7F) else r)"
  have "rate AND NOT (mask 16) = 0"
  proof (cases "v AND 0xFFFF < 0x100")
    case True
    have "2 * (shr (sdtim1 s) 25 AND 0x7F) = shl (shr (sdtim1 s) 25 AND 0x7F) 1" by (simp add: push_bit_eq_mult)
    then have "rate = shl (take_bit 7 (shr (sdtim1 s) 25)) 1" using True by (simp add: rate_def and_mask_numerals)
    then show ?thesis by (simp only:, intro bit_word_eqI) (auto simp: bit_simps)
  next
    case False
    then have "rate = take_bit 16 v" by (simp add: rate_def and_mask_numerals)
    then show ?thesis by (simp only:, intro bit_word_eqI) (auto simp: bit_simps)
  qed
  moreover have "NOT SDRFC_VALID AND NOT (mask 16) = (NOT SDRFC_VALID :: u32)"
    by (simp add: mask_eq_exp_minus_1)
  moreover have "rate AND (NOT SDRFC_VALID AND NOT (mask 16)) = (rate AND NOT (mask 16)) AND NOT SDRFC_VALID"
    by (simp only: ac_simps)
  ultimately have r: "rate AND NOT SDRFC_VALID = 0" by (simp only: and_zero_eq zero_and_eq)
  have "(v AND 0xFFFF0000) AND NOT SDRFC_VALID = (v AND NOT SDRFC_VALID) AND 0xFFFF0000" by (simp only: ac_simps)
  then have "(v AND 0xFFFF0000) AND NOT SDRFC_VALID = 0" unfolding assms by simp
  moreover have "sdrfc_next s v = (v AND 0xFFFF0000) OR rate" by (simp add: sdrfc_next_def rate_def Let_def)
  ultimately show ?thesis using r by (simp only: bit.conj_disj_distrib2 or.right_neutral)
qed

lemma emifb_write_cases:
  assumes "emifb_write s a v n True = Some s'"
  obtains (cfg) w where "valid_sdcfg w"
      "s' = s\<lparr>sdcfg := sdcfg_next (sdcfg s) w, init_sequences := init_sequences s + 1\<rparr>"
    | (rfc) w where "w AND NOT SDRFC_VALID = 0" "s' = s\<lparr>sdrfc := sdrfc_next s w\<rparr>"
    | (tim1) w where "w AND 7 = 0" "(shr w 19 AND 7) \<le> (shr w 11 AND 0x1F)" "sdcfg s AND SDCFG_TIMUNLOCK \<noteq> 0"
      "s' = s\<lparr>sdtim1 := w\<rparr>"
    | (tim2) w where "w AND NOT SDTIM2_VALID = 0" "sdcfg s AND SDCFG_TIMUNLOCK \<noteq> 0" "s' = s\<lparr>sdtim2 := w\<rparr>"
    | (cfg2) w where "valid_sdcfg2 w" "s' = s\<lparr>sdcfg2 := w, init_sequences := init_sequences s + 1\<rparr>"
    | (prio) w where "w AND NOT 0xFF = 0" "s' = s\<lparr>bprio := w\<rparr>"
    | (locked) "sdcfg s AND SDCFG_TIMUNLOCK = 0" "s' = s"
proof -
  have *: "(if n \<noteq> 4 \<or> v > 0xFFFFFFFF then None else X) = Some s' \<Longrightarrow> X = Some s'" for X
    by (simp split: if_splits)
  note w = * [OF assms [unfolded emifb_write_def], unfolded Let_def]
  consider "a = EMIFB_SDCFG" | "a = EMIFB_SDRFC" | "a = EMIFB_SDTIM1" | "a = EMIFB_SDTIM2"
    | "a = EMIFB_SDCFG2" | "a = EMIFB_BPRIO"
    | "a \<notin> {EMIFB_SDCFG, EMIFB_SDRFC, EMIFB_SDTIM1, EMIFB_SDTIM2, EMIFB_SDCFG2, EMIFB_BPRIO}" by blast
  then show ?thesis
  proof cases
    case 1
    let ?x = "ucast v :: u32"
    have "(if \<not> valid_sdcfg ?x then None else if \<not> True then Some s
        else Some (s\<lparr>sdcfg := sdcfg_next (sdcfg s) ?x, init_sequences := init_sequences s + 1\<rparr>)) = Some s'"
      using w by (simp only: 1) simp
    then show ?thesis using cfg [of ?x] by (simp split: if_splits)
  next
    case 2
    let ?x = "ucast v :: u32"
    have "(if ?x AND NOT SDRFC_VALID \<noteq> 0 then None
        else Some (if True then s\<lparr>sdrfc := sdrfc_next s ?x\<rparr> else s)) = Some s'"
      using w by (simp only: 2) simp
    then show ?thesis using rfc [of ?x]
      by (auto simp only: if_True option.inject option.distinct split: if_splits)
  next
    case 3
    have ne: "EMIFB_SDTIM1 \<noteq> EMIFB_SDCFG" "EMIFB_SDTIM1 \<noteq> EMIFB_SDRFC" by simp_all
    let ?x = "ucast v :: u32"
    have "(if ?x AND 7 \<noteq> 0 then None
        else if (shr ?x 11 AND 0x1F) < (shr ?x 19 AND 7) then None
        else Some (if True \<and> sdcfg s AND SDCFG_TIMUNLOCK \<noteq> 0 then s\<lparr>sdtim1 := ?x\<rparr> else s)) = Some s'"
      using w unfolding 3 by (simp only: ne if_False if_True refl)
    then have f: "s' = (if sdcfg s AND SDCFG_TIMUNLOCK \<noteq> 0 then s\<lparr>sdtim1 := ?x\<rparr> else s)"
      and g: "?x AND 7 = 0" "(shr ?x 19 AND 7) \<le> (shr ?x 11 AND 0x1F)"
      by (simp_all only: if_None_Some option.inject simp_thms not_not not_less)
    show ?thesis
    proof (cases "sdcfg s AND SDCFG_TIMUNLOCK = 0")
      case True
      then show ?thesis using f by (intro locked) (simp_all only: simp_thms if_False)
    next
      case False
      then show ?thesis using f by (intro tim1 [OF g]) (simp_all only: simp_thms if_True)
    qed
  next
    case 4
    have ne: "EMIFB_SDTIM2 \<noteq> EMIFB_SDCFG" "EMIFB_SDTIM2 \<noteq> EMIFB_SDRFC" "EMIFB_SDTIM2 \<noteq> EMIFB_SDTIM1" by simp_all
    let ?x = "ucast v :: u32"
    have "(if ?x AND NOT SDTIM2_VALID \<noteq> 0 then None
        else Some (if True \<and> sdcfg s AND SDCFG_TIMUNLOCK \<noteq> 0 then s\<lparr>sdtim2 := ?x\<rparr> else s)) = Some s'"
      using w unfolding 4 by (simp only: ne if_False if_True refl)
    then have f: "s' = (if sdcfg s AND SDCFG_TIMUNLOCK \<noteq> 0 then s\<lparr>sdtim2 := ?x\<rparr> else s)"
      and g: "?x AND NOT SDTIM2_VALID = 0"
      by (simp_all only: if_None_Some option.inject simp_thms not_not)
    show ?thesis
    proof (cases "sdcfg s AND SDCFG_TIMUNLOCK = 0")
      case True
      then show ?thesis using f by (intro locked) (simp_all only: simp_thms if_False)
    next
      case False
      then show ?thesis using f by (intro tim2 [OF g]) (simp_all only: simp_thms if_True)
    qed
  next
    case 5 then show ?thesis using w cfg2 [of "ucast v"] by (simp split: if_splits)
  next
    case 6 then show ?thesis using w prio [of "ucast v"] by (simp split: if_splits)
  next
    case 7 then show ?thesis using w by simp
  qed
qed

lemma emifb_inv_write:
  assumes "emifb_inv s" "emifb_write s a v n True = Some s'"
  shows "emifb_inv s'"
  using assms(2)
proof (cases rule: emifb_write_cases)
  case (cfg w)
  then show ?thesis using assms(1) valid_sdcfg_next [of "sdcfg s" w] by (simp add: emifb_inv_def)
next
  case (rfc w)
  then show ?thesis using assms(1) sdrfc_next_valid [of w s] unfolding emifb_inv_def by simp
qed (use assms(1) in \<open>simp_all add: emifb_inv_def\<close>)

interpretation emifb_mmio: mmio_port_inv emifb_write emifb_inv
  by unfold_locales (rule emifb_inv_write)

section \<open>Translation\<close>

lemma power_of_two_test:
  assumes "(p :: nat) AND (p - 1) = 0" "0 < p"
  shows "\<exists>k. p = 2 ^ k"
proof -
  obtain k where k: "2 ^ k \<le> p" "p < 2 ^ (k + 1)" using ex_power_ivl1 [of 2 p] assms(2) by auto
  have top: "bit n k" if "2 ^ k \<le> n" "n < 2 ^ (k + 1)" for n :: nat
  proof -
    have "n div 2 ^ k = 1" using that by (intro div_nat_eqI) simp_all
    then show ?thesis by (simp add: bit_iff_odd)
  qed
  have "p = 2 ^ k"
  proof (rule ccontr)
    assume "p \<noteq> 2 ^ k"
    then have "2 ^ k \<le> p - 1" "p - 1 < 2 ^ (k + 1)" using k by linarith+
    then have "bit (p AND (p - 1)) k" using top k by (simp add: bit_and_iff)
    then show False using assms(1) by simp
  qed
  then show ?thesis ..
qed

lemma and_minus_1_mod:
  assumes "(p :: u64) AND (p - 1) = 0" "p \<noteq> 0"
  shows "unat (x AND (p - 1)) = unat x mod unat p"
proof -
  have u: "unat (p - 1) = unat p - 1" using assms(2) by (simp add: unat_minus_one)
  have "unat p AND (unat p - 1) = 0" using assms(1) u by (metis unsigned_and_eq unsigned_0)
  then obtain k where k: "unat p = 2 ^ k" using power_of_two_test [of "unat p"] assms(2) by (auto simp: unat_gt_0)
  have "unat (x AND (p - 1)) = unat x AND (2 ^ k - 1)" using u k by (simp add: unsigned_and_eq)
  also have "\<dots> = take_bit k (unat x)" by (simp add: take_bit_eq_mask mask_eq_exp_minus_1)
  finally show ?thesis by (simp add: take_bit_eq_mod k)
qed

text \<open>The translation of an aperture address.\<close>

lemma emifb_offset_bounds:
  assumes "emifb_sdram_offset s address sz populated = Some off"
  shows "unat off + unat sz \<le> unat populated \<and> 0 < unat sz \<and>
    unat off = (unat address - 0xC0000000) mod unat populated \<and>
    0xC0000000 \<le> unat address \<and> unat address + unat sz \<le> 0xE0000000 \<and> bit (sdcfg s) 16"
proof -
  let ?b = "ucast (address - 0xC0000000) :: u64"
  have g: "emifb_sdram_enabled s" "sz \<noteq> 0" "populated \<noteq> 0" "populated \<le> 0x20000000"
    "populated AND (populated - 1) = 0" "0xC0000000 \<le> address" "address < 0xE0000000"
    "sz \<le> 0xE0000000 - ucast address" "sz \<le> populated - ucast off"
    "off = ucast (?b AND (populated - 1))"
    using assms by (auto simp: emifb_sdram_offset_def Let_def not_less split: if_splits)
  have a: "0xC0000000 \<le> unat address" "unat address < 0xE0000000" "unat populated \<le> 0x20000000"
    using g(4,6,7) by (simp_all add: word_le_nat_alt word_less_nat_alt)
  have m: "unat (?b AND (populated - 1)) = (unat address - 0xC0000000) mod unat populated"
    using and_minus_1_mod [OF g(5,3)] g(6) by (simp add: unat_sub)
  have lt: "(unat address - 0xC0000000) mod unat populated < unat populated"
    using g(3) by (simp add: unat_gt_0)
  have off: "unat off = (unat address - 0xC0000000) mod unat populated"
    unfolding g(10) unsigned_ucast_eq using m lt a(3) by (simp add: take_bit_nat_eq_self)
  have "unat sz \<le> unat populated - unat off"
    using g(9) off lt by (simp add: word_le_nat_alt unat_sub)
  moreover have "unat sz \<le> 0xE0000000 - unat address"
    using g(8) a(2) by (simp add: word_le_nat_alt unat_sub)
  moreover have "bit (sdcfg s) 16" using g(1) and_shl_1_iff [of "sdcfg s" 16] unfolding emifb_sdram_enabled_def by blast
  moreover have "0 < unat sz" using g(2) by (simp add: unat_gt_0)
  ultimately have "unat off + unat sz \<le> unat populated" "unat address + unat sz \<le> 0xE0000000"
    using lt a(1,2) unfolding off by linarith+
  then show ?thesis using a(1) off \<open>0 < unat sz\<close> \<open>bit (sdcfg s) 16\<close> by blast
qed

text \<open>A translated transfer lies inside the populated memory: the offset is the aperture offset
  modulo the populated size (so unpopulated addresses alias populated ones), and offset plus
  size never exceeds it.\<close>

theorem emifb_offset_in_memory:
  assumes "emifb_sdram_offset s address sz populated = Some off"
  shows "unat off + unat sz \<le> unat populated \<and> 0 < unat sz \<and>
    unat off = (unat address - 0xC0000000) mod unat populated \<and>
    0xC0000000 \<le> unat address \<and> unat address + unat sz \<le> 0xE0000000 \<and> bit (sdcfg s) 16"
  by (rule emifb_offset_bounds [OF assms])

theorem emifb_offset_in_memory_witness:
  "emifb_sdram_offset emifb_reset 0xC2000010 4 0x2000000 = Some 0x10 \<and>
     unat (0x10 :: u32) + unat (4 :: u64) \<le> unat (0x2000000 :: u64)"
proof -
  have "emifb_sdram_offset emifb_reset 0xC2000010 4 0x2000000 = Some 0x10"
    by (simp add: emifb_sdram_offset_def emifb_sdram_enabled_def emifb_reset_def)
  with emifb_offset_in_memory [OF this] show ?thesis by blast
qed

text \<open>Whatever sequence of stores software issues, the SDRAM controller's registers hold legal
  contents, and a store to SDCFG changes the protected boot fields only when the previous
  value had BOOT_UNLOCK set, and the CAS latency only when the stored value has TIMUNLOCK set.\<close>

theorem emifb_stores_keep_legal:
  assumes "commit_all emifb_write emifb_reset sts = Some s"
  shows "emifb_inv s \<and>
    (\<forall>v s'. emifb_write s EMIFB_SDCFG v 4 True = Some s' \<longrightarrow>
       (\<forall>i. bit (sdcfg s') i = bit (if i \<in> {16, 25, 26} \<and> \<not> bit (sdcfg s) 23 then sdcfg s
             else if i \<in> {9, 10, 11} \<and> \<not> bit (ucast v :: u32) 15 then sdcfg s else ucast v) i))"
proof -
  have "emifb_inv s" using assms by (rule emifb_mmio.inv_commit_all [OF emifb_inv_reset])
  have n: "sdcfg s' = sdcfg_next (sdcfg s) (ucast v)"
    if "emifb_write s EMIFB_SDCFG v 4 True = Some s'" for v s'
    using that by (auto simp: emifb_write_def Let_def split: if_splits)
  have nb: "bit (sdcfg_next x w) i = bit (if i \<in> {16, 25, 26} \<and> \<not> bit x 23 then x
      else if i \<in> {9, 10, 11} \<and> \<not> bit w 15 then x else w) i" for x w i
    unfolding sdcfg_next_bit by (cases "bit x 23"; cases "bit w 15"; simp)
  have "\<forall>v s'. emifb_write s EMIFB_SDCFG v 4 True = Some s' \<longrightarrow>
       (\<forall>i. bit (sdcfg s') i = bit (if i \<in> {16, 25, 26} \<and> \<not> bit (sdcfg s) 23 then sdcfg s
             else if i \<in> {9, 10, 11} \<and> \<not> bit (ucast v :: u32) 15 then sdcfg s else ucast v) i)"
    by (intro allI impI) (simp only: n nb)
  then show ?thesis using \<open>emifb_inv s\<close> by (rule conjI [rotated])
qed

theorem emifb_stores_keep_legal_witness:
  "\<exists>s. commit_all emifb_write emifb_reset [\<lparr>st_address = EMIFB_BPRIO, st_value = 0x20, st_size = 4\<rparr>] = Some s \<and>
     emifb_inv s \<and> bprio s = 0x20"
proof -
  obtain s where s: "commit_all emifb_write emifb_reset [\<lparr>st_address = EMIFB_BPRIO, st_value = 0x20, st_size = 4\<rparr>] = Some s"
    "bprio s = 0x20"
    by (simp add: emifb_write_def Let_def)
  with emifb_stores_keep_legal [OF s(1)] show ?thesis by blast
qed

end
