(* ===== verification/C6747_Intc.thy ===== *)
theory C6747_Intc
  imports Bus_Contract
begin

text \<open>
  \<^verbatim>\<open>emulator/qemu/cdj_c6747_intc.c\<close>: the event registers, event and exception
  combiners and interrupt selector of the DSP. Register arrays are functions of the
  bank. The delivery record is one word of interrupt requests; \<open>None\<close> is the null
  pointer of the plain write path.
\<close>

section \<open>State and delivery\<close>

record intc =
  event_flag :: "nat \<Rightarrow> u32"
  event_mask :: "nat \<Rightarrow> u32"
  exception_mask :: "nat \<Rightarrow> u32"
  interrupt_mux :: "nat \<Rightarrow> u32"

abbreviation INTC_EVTFLAG0 :: u32 where "INTC_EVTFLAG0 \<equiv> 0x01800000"
abbreviation INTC_EVTSET0 :: u32 where "INTC_EVTSET0 \<equiv> 0x01800020"
abbreviation INTC_EVTCLR0 :: u32 where "INTC_EVTCLR0 \<equiv> 0x01800040"
abbreviation INTC_EVTMASK0 :: u32 where "INTC_EVTMASK0 \<equiv> 0x01800080"
abbreviation INTC_MEVTFLAG0 :: u32 where "INTC_MEVTFLAG0 \<equiv> 0x018000A0"
abbreviation INTC_EXPMASK0 :: u32 where "INTC_EXPMASK0 \<equiv> 0x018000C0"
abbreviation INTC_MEXPFLAG0 :: u32 where "INTC_MEXPFLAG0 \<equiv> 0x018000E0"
abbreviation INTC_INTMUX1 :: u32 where "INTC_INTMUX1 \<equiv> 0x01800104"

definition banked :: "u32 \<Rightarrow> u32 \<Rightarrow> nat option" where
  "banked address base =
     (if address < base \<or> address > base + 12 \<or> (address - base) AND 3 \<noteq> 0 then None
      else Some (unat ((address - base) div 4)))"

definition combined_active :: "intc \<Rightarrow> nat \<Rightarrow> bool" where
  "combined_active s bank \<longleftrightarrow> event_flag s bank AND NOT (event_mask s bank) \<noteq> 0"

definition mux_selected :: "intc \<Rightarrow> nat \<Rightarrow> u32" where
  "mux_selected s interrupt =
     (let selector = interrupt - 4
      in shr (interrupt_mux s (selector div 4)) ((selector mod 4) * 8) AND 0x7F)"

definition request_selected_event :: "intc \<Rightarrow> u32 option \<Rightarrow> u32 \<Rightarrow> u32 option" where
  "request_selected_event s delivery event =
     (case delivery of None \<Rightarrow> None
      | Some cpu_request \<Rightarrow>
          Some (fold (\<lambda>interrupt cpu_request.
            cpu_request OR (if mux_selected s interrupt = event then shl 1 interrupt else 0))
            [4..<16] cpu_request))"

definition intc_reset :: intc where
  "intc_reset = \<lparr>event_flag = (\<lambda>_. 0), event_mask = (\<lambda>_. 0)(0 := 0xF),
     exception_mask = (\<lambda>i. if i < 4 then 0xFFFFFFFF else 0),
     interrupt_mux = (\<lambda>_. 0)(0 := 0x07060504, 1 := 0x0B0A0908, 2 := 0x0F0E0D0C)\<rparr>"

definition intc_event :: "intc \<Rightarrow> u32 \<Rightarrow> intc option" where
  "intc_event s event =
     (if event < 4 \<or> event \<ge> 128 then None
      else let bank = unat (event div 32)
           in Some (s\<lparr>event_flag := (event_flag s)(bank := event_flag s bank OR shl 1 (unat (event mod 32)))\<rparr>))"

definition intc_delivery_reset :: "u32 option" where
  "intc_delivery_reset = Some 0"

definition intc_deliver_event :: "intc \<Rightarrow> u32 option \<Rightarrow> u32 \<Rightarrow> (intc \<times> u32 option) option" where
  "intc_deliver_event s delivery event =
     (if event < 4 \<or> event \<ge> 128 then None
      else
        (let bank = unat (event div 32);
             combined_was_active = combined_active s bank;
             s = (case intc_event s event of Some s' \<Rightarrow> s' | None \<Rightarrow> s);
             delivery = request_selected_event s delivery event;
             delivery = (if \<not> combined_was_active \<and> combined_active s bank
                         then request_selected_event s delivery (of_nat bank) else delivery)
         in Some (s, delivery)))"

definition intc_cpu_pending :: "u32 \<Rightarrow> u32 \<times> u32" where
  "intc_cpu_pending cpu_request = (cpu_request, 0)"

section \<open>Register access\<close>

definition mux_index :: "u32 \<Rightarrow> nat option" where
  "mux_index address =
     (if address \<ge> INTC_INTMUX1 \<and> address \<le> INTC_INTMUX1 + 8 \<and> (address - INTC_INTMUX1) AND 3 = 0
      then Some (unat ((address - INTC_INTMUX1) div 4)) else None)"

definition intc_read :: "intc \<Rightarrow> u32 \<Rightarrow> u32 option" where
  "intc_read s address =
     (case banked address INTC_EVTFLAG0 of Some bank \<Rightarrow> Some (event_flag s bank) | None \<Rightarrow>
     (case banked address INTC_EVTMASK0 of Some bank \<Rightarrow> Some (event_mask s bank) | None \<Rightarrow>
     (case banked address INTC_MEVTFLAG0 of
        Some bank \<Rightarrow> Some (event_flag s bank AND NOT (event_mask s bank)) | None \<Rightarrow>
     (case banked address INTC_EXPMASK0 of Some bank \<Rightarrow> Some (exception_mask s bank) | None \<Rightarrow>
     (case banked address INTC_MEXPFLAG0 of
        Some bank \<Rightarrow> Some (event_flag s bank AND NOT (exception_mask s bank)) | None \<Rightarrow>
     (case mux_index address of Some i \<Rightarrow> Some (interrupt_mux s i) | None \<Rightarrow> None))))))"

definition intc_evtset :: "intc \<Rightarrow> u32 option \<Rightarrow> nat \<Rightarrow> u32 \<Rightarrow> intc \<times> u32 option" where
  "intc_evtset s delivery bank value =
     (let events = value AND (if bank = 0 then NOT 0xF else 0xFFFFFFFF);
          combined_was_active = combined_active s bank;
          s = s\<lparr>event_flag := (event_flag s)(bank := event_flag s bank OR events)\<rparr>;
          delivery = fold (\<lambda>k delivery. if events AND shl 1 k \<noteq> 0
            then request_selected_event s delivery (of_nat (bank * 32 + k)) else delivery) [0..<32] delivery;
          delivery = (if \<not> combined_was_active \<and> combined_active s bank
                      then request_selected_event s delivery (of_nat bank) else delivery)
      in (s, delivery))"

text \<open>\<open>(!bank ? 0xfu : 0u)\<close>: the permanently masked combiner outputs.\<close>

definition always_masked :: "nat \<Rightarrow> u32" where
  "always_masked bank = (if bank = 0 then 0xF else 0)"

definition intc_evtmask :: "intc \<Rightarrow> u32 option \<Rightarrow> nat \<Rightarrow> u32 \<Rightarrow> intc \<times> u32 option" where
  "intc_evtmask s delivery bank value =
     (let combined_was_active = combined_active s bank;
          s = s\<lparr>event_mask := (event_mask s)(bank := value OR always_masked bank)\<rparr>;
          delivery = (if \<not> combined_was_active \<and> combined_active s bank
                      then request_selected_event s delivery (of_nat bank) else delivery)
      in (s, delivery))"

definition intc_write_delivery ::
  "intc \<Rightarrow> u32 option \<Rightarrow> u32 \<Rightarrow> u64 \<Rightarrow> nat \<Rightarrow> bool \<Rightarrow> (intc \<times> u32 option) option" where
  "intc_write_delivery s delivery address value sz commit =
     (if sz \<noteq> 4 \<or> value > 0xFFFFFFFF then None
      else case banked address INTC_EVTSET0 of
        Some bank \<Rightarrow> Some (if commit then intc_evtset s delivery bank (ucast value) else (s, delivery))
      | None \<Rightarrow> (case banked address INTC_EVTCLR0 of
        Some bank \<Rightarrow> Some (if commit
          then (s\<lparr>event_flag := (event_flag s)(bank := event_flag s bank AND NOT (ucast value))\<rparr>, delivery)
          else (s, delivery))
      | None \<Rightarrow> (case banked address INTC_EVTMASK0 of
        Some bank \<Rightarrow> Some (if commit then intc_evtmask s delivery bank (ucast value) else (s, delivery))
      | None \<Rightarrow> (case banked address INTC_EXPMASK0 of
        Some bank \<Rightarrow> Some (if commit
          then (s\<lparr>exception_mask := (exception_mask s)
                   (bank := ucast value OR always_masked bank)\<rparr>, delivery)
          else (s, delivery))
      | None \<Rightarrow> (case mux_index address of
        Some i \<Rightarrow> Some (if commit
          then (s\<lparr>interrupt_mux := (interrupt_mux s)(i := ucast value AND 0x7F7F7F7F)\<rparr>, delivery)
          else (s, delivery))
      | None \<Rightarrow> None)))))"

definition intc_write :: "intc \<Rightarrow> u32 \<Rightarrow> u64 \<Rightarrow> nat \<Rightarrow> bool \<Rightarrow> intc option" where
  "intc_write s address value sz commit =
     map_option fst (intc_write_delivery s None address value sz commit)"

section \<open>Requests\<close>

lemma bit_request_selected:
  "request_selected_event s (Some r) event = Some r' \<Longrightarrow>
     bit r' i \<longleftrightarrow> bit r i \<or> (4 \<le> i \<and> i < 16 \<and> mux_selected s i = event)"
proof -
  assume r: "request_selected_event s (Some r) event = Some r'"
  have "bit r' i \<longleftrightarrow> bit r i \<or> (\<exists>k\<in>set [4..<16]. bit (if mux_selected s k = event then shl (1 :: u32) k else 0) i)"
    using r unfolding request_selected_event_def option.case option.inject
    by - (erule subst, rule bit_fold_or)
  also have "\<dots> \<longleftrightarrow> bit r i \<or> (4 \<le> i \<and> i < 16 \<and> mux_selected s i = event)"
    unfolding bit_if_shl_1 set_upt atLeastLessThan_iff Bex_def by auto
  finally show ?thesis .
qed

lemma request_selected_Some:
  obtains r' where "request_selected_event s (Some r) event = Some r'"
  by (auto simp: request_selected_event_def)

lemma request_selected_None [simp]: "request_selected_event s None event = None"
  by (simp add: request_selected_event_def)

lemma mux_selected_frame [simp]:
  "mux_selected (s\<lparr>event_flag := f\<rparr>) i = mux_selected s i"
  "mux_selected (s\<lparr>event_mask := f\<rparr>) i = mux_selected s i"
  by (simp_all add: mux_selected_def)

lemma requests_fold:
  "\<exists>r'. fold (\<lambda>k d. if P k then request_selected_event s d (e k) else d) ks (Some r) = Some r' \<and>
     (\<forall>i. bit r' i \<longleftrightarrow> bit r i \<or> (4 \<le> i \<and> i < 16 \<and> (\<exists>k\<in>set ks. P k \<and> mux_selected s i = e k)))"
proof (induction ks arbitrary: r)
  case (Cons k ks)
  obtain r1 where r1: "request_selected_event s (Some r) (e k) = Some r1"
    by (rule request_selected_Some)
  show ?case
  proof (cases "P k")
    case True
    obtain r' where "fold (\<lambda>k d. if P k then request_selected_event s d (e k) else d) ks (Some r1) = Some r'"
      "\<And>i. bit r' i \<longleftrightarrow> bit r1 i \<or> (4 \<le> i \<and> i < 16 \<and> (\<exists>k\<in>set ks. P k \<and> mux_selected s i = e k))"
      using Cons.IH by blast
    then show ?thesis using True r1 bit_request_selected [OF r1] by auto
  next
    case False
    then show ?thesis using Cons.IH [of r] by auto
  qed
qed simp

lemma event_fits: "\<not> event \<ge> (128 :: u32) \<Longrightarrow> unat (event div 32) < 4 \<and> of_nat (unat (event div 32)) = event div 32"
proof -
  assume "\<not> event \<ge> 128"
  then have "unat event < 128" by (simp add: word_le_nat_alt)
  then have "unat (event div 32) < 4" by (simp add: unat_div_distrib)
  then show ?thesis by (simp only: of_nat_unat ucast_id simp_thms)
qed

lemma intc_deliver_bits:
  assumes "intc_deliver_event s (Some r) event = Some (s', d')"
  shows "4 \<le> event \<and> event < 128 \<and>
    s' = s\<lparr>event_flag := (event_flag s)(unat (event div 32) :=
            event_flag s (unat (event div 32)) OR shl 1 (unat (event mod 32)))\<rparr> \<and>
    (\<exists>r'. d' = Some r' \<and> (\<forall>i. bit r' i \<longleftrightarrow> bit r i \<or>
       (4 \<le> i \<and> i < 16 \<and>
        (mux_selected s i = event \<or>
         (\<not> combined_active s (unat (event div 32)) \<and> combined_active s' (unat (event div 32)) \<and>
          mux_selected s i = event div 32)))))"
proof -
  let ?b = "unat (event div 32)"
  define t where "t = s\<lparr>event_flag := (event_flag s)(?b := event_flag s ?b OR shl 1 (unat (event mod 32)))\<rparr>"
  have g: "\<not> event < 4" "\<not> event \<ge> 128" using assms by (auto simp: intc_deliver_event_def split: if_splits)
  obtain r1 where r1: "request_selected_event t (Some r) event = Some r1"
    by (rule request_selected_Some)
  obtain r2 where r2: "request_selected_event t (Some r1) (event div 32) = Some r2"
    by (rule request_selected_Some)
  have "intc_event s event = Some t" using g by (simp add: intc_event_def t_def Let_def)
  then have e: "s' = t" "d' = (if \<not> combined_active s ?b \<and> combined_active t ?b then Some r2 else Some r1)"
    using assms g event_fits [OF g(2)] r1 r2 by (auto simp: intc_deliver_event_def Let_def split: if_splits)
  have "mux_selected t i = mux_selected s i" for i by (simp add: t_def)
  then show ?thesis
    using g e bit_request_selected [OF r1] bit_request_selected [OF r2]
    unfolding t_def [symmetric] by (auto simp: not_less not_le)
qed

section \<open>Register invariants and the write contract\<close>

text \<open>The bits no write may change: events 0-3 are outputs of the combiner, so their flags stay
  clear and their masks set, and the reserved selector bits stay clear.\<close>

definition intc_wf :: "intc \<Rightarrow> bool" where
  "intc_wf s \<longleftrightarrow> event_flag s 0 AND 0xF = 0 \<and> event_mask s 0 AND 0xF = 0xF \<and>
     exception_mask s 0 AND 0xF = 0xF \<and> (\<forall>i. interrupt_mux s i AND 0x80808080 = 0)"

lemma low_nibble:
  "(w :: u32) AND 0xF = 0 \<longleftrightarrow> (\<forall>i<4. \<not> bit w i)" "w AND 0xF = 0xF \<longleftrightarrow> (\<forall>i<4. bit w i)"
proof -
  have 4: "i < 4 \<Longrightarrow> i < 32" for i :: nat by simp
  show "w AND 0xF = 0 \<longleftrightarrow> (\<forall>i<4. \<not> bit w i)" "w AND 0xF = 0xF \<longleftrightarrow> (\<forall>i<4. bit w i)"
    unfolding bit_eq_iff bit_and_iff bit_low_nibble by (auto dest: 4)
qed

lemma intc_wf_reset: "intc_wf intc_reset"
  by (auto simp: intc_wf_def intc_reset_def)

lemma intc_wf_event:
  assumes "intc_wf s" "intc_event s event = Some s'"
  shows "intc_wf s'"
proof -
  have g: "4 \<le> event" and s': "s' = s\<lparr>event_flag := (event_flag s)(unat (event div 32) :=
      event_flag s (unat (event div 32)) OR shl 1 (unat (event mod 32)))\<rparr>"
    using assms(2) by (auto simp: intc_event_def Let_def not_less split: if_splits)
  have "4 \<le> unat (event mod 32)" if "unat (event div 32) = 0"
    using g that by (simp add: word_le_nat_alt unat_div_distrib unat_mod_distrib div_eq_0_iff)
  then show ?thesis
    using assms(1) unfolding s' intc_wf_def low_nibble by (auto simp: bit_or_iff bit_shl_1 simp del: push_bit_of_1)
qed

lemma intc_wf_deliver:
  "intc_wf s \<Longrightarrow> intc_deliver_event s d event = Some (s', d') \<Longrightarrow> intc_wf s'"
  using intc_wf_event [of s event]
  by (auto simp: intc_deliver_event_def Let_def split: if_splits option.splits)

lemma events_masked: "\<forall>i<4. \<not> bit ((v :: u32) AND NOT 0xF) i" "\<forall>i<4. bit ((v :: u32) OR 0xF) i"
  unfolding bit_and_iff bit_or_iff bit_not_low_nibble bit_low_nibble by auto

lemma intc_wf_evtset: "intc_wf s \<Longrightarrow> intc_wf (fst (intc_evtset s d bank v))"
  using events_masked(1) [of v] unfolding intc_wf_def low_nibble intc_evtset_def Let_def
  by (auto simp: bit_or_iff)

lemma intc_wf_evtmask: "intc_wf s \<Longrightarrow> intc_wf (fst (intc_evtmask s d bank v))"
  using events_masked(2) [of v] unfolding intc_wf_def low_nibble intc_evtmask_def Let_def always_masked_def
  by auto

lemma mux_reserved: "(v AND 0x7F7F7F7F) AND 0x80808080 = (0 :: u32)"
  by (simp add: and.assoc)

text \<open>What a committed write does, by the register it addresses.\<close>

lemma intc_write_cases:
  assumes "intc_write_delivery s d a v n True = Some r"
  obtains (evtset) bank where "r = intc_evtset s d bank (ucast v)"
  | (evtclr) bank where "r = (s\<lparr>event_flag := (event_flag s)(bank := event_flag s bank AND NOT (ucast v))\<rparr>, d)"
  | (evtmask) bank where "r = intc_evtmask s d bank (ucast v)"
  | (expmask) bank where "r = (s\<lparr>exception_mask := (exception_mask s)
      (bank := ucast v OR always_masked bank)\<rparr>, d)"
  | (mux) i where "r = (s\<lparr>interrupt_mux := (interrupt_mux s)(i := ucast v AND 0x7F7F7F7F)\<rparr>, d)"
  using assms unfolding intc_write_delivery_def
  by (simp only: if_True if_False split: if_split_asm option.split_asm)
     (simp_all only: option.inject, blast+)

lemma intc_wf_write:
  assumes "intc_wf s" "intc_write_delivery s d a v n True = Some r"
  shows "intc_wf (fst r)"
  using assms(2)
proof (cases rule: intc_write_cases)
  case (evtset bank)
  then show ?thesis by (simp add: intc_wf_evtset assms(1))
next
  case (evtclr bank)
  then show ?thesis using assms(1) unfolding intc_wf_def low_nibble by (auto simp: bit_and_iff)
next
  case (evtmask bank)
  then show ?thesis by (simp add: intc_wf_evtmask assms(1))
next
  case (expmask bank)
  then show ?thesis
    using assms(1) events_masked(2) [of "ucast v"] unfolding intc_wf_def low_nibble always_masked_def by auto
next
  case (mux i)
  then show ?thesis using assms(1) mux_reserved [of "ucast v"] unfolding intc_wf_def by auto
qed

lemma intc_write_accept:
  "intc_write_delivery s d a v n c = None \<longleftrightarrow>
     n \<noteq> 4 \<or> v > 0xFFFFFFFF \<or> banked a INTC_EVTSET0 = None \<and> banked a INTC_EVTCLR0 = None \<and>
     banked a INTC_EVTMASK0 = None \<and> banked a INTC_EXPMASK0 = None \<and> mux_index a = None"
  by (simp add: intc_write_delivery_def split: option.split)

lemma intc_check: "intc_write_delivery s d a v n False = Some r \<Longrightarrow> r = (s, d)"
  by (auto simp: intc_write_delivery_def split: if_splits option.splits)

text \<open>The two write paths as register ports: with the delivery record as part of the state, and
  the plain path of \<^verbatim>\<open>cdj_c6747_intc_write\<close>.\<close>

definition intc_port :: "(intc \<times> u32 option) mmio_write" where
  "intc_port = (\<lambda>(s, d). intc_write_delivery s d)"

interpretation intc_delivery: mmio_port_stable intc_port
proof
  fix s s' :: "intc \<times> u32 option" and a v n
  show "intc_port s a v n False = Some s' \<Longrightarrow> s' = s"
    by (cases s) (simp add: intc_port_def intc_check)
  show "intc_port s a v n True = None \<longleftrightarrow> intc_port s a v n False = None"
    "intc_port s a v n False = None \<Longrightarrow> intc_port s' a v n False = None"
    by (cases s, cases s', simp only: intc_port_def prod.case intc_write_accept)+
qed

interpretation intc_delivery: mmio_port_inv intc_port "\<lambda>(s, d). intc_wf s"
  by unfold_locales (auto simp: intc_port_def dest: intc_wf_write)

interpretation intc_plain: mmio_port_stable intc_write
  by unfold_locales (auto simp: intc_write_def intc_write_accept dest: intc_check)

section \<open>Reachable controllers\<close>

inductive intc_reach :: "intc \<Rightarrow> u32 option \<Rightarrow> bool" where
  reset: "intc_reach intc_reset intc_delivery_reset"
| event: "intc_reach s d \<Longrightarrow> intc_deliver_event s d e = Some (s', d') \<Longrightarrow> intc_reach s' d'"
| mmio: "intc_reach s d \<Longrightarrow> intc_write_delivery s d a v n c = Some (s', d') \<Longrightarrow> intc_reach s' d'"
| pending: "intc_reach s (Some r) \<Longrightarrow> intc_cpu_pending r = (p, r') \<Longrightarrow> intc_reach s (Some r')"

lemma intc_reach_wf: "intc_reach s d \<Longrightarrow> intc_wf s"
proof (induction rule: intc_reach.induct)
  case (mmio s d a v n c s' d')
  then show ?case using intc_delivery.inv_any [of "(s, d)" a v n c "(s', d')"] by (simp add: intc_port_def)
qed (auto intro: intc_wf_reset intc_wf_deliver)

lemma combined_edge:
  "\<exists>r'. (if p then request_selected_event s (Some r) e else Some r) = Some r' \<and>
    (\<forall>i. bit r' i \<longleftrightarrow> bit r i \<or> (4 \<le> i \<and> i < 16 \<and> p \<and> mux_selected s i = e))"
  using requests_fold [of "\<lambda>_. p" s "\<lambda>_. e" "[0]" r] by simp

lemma intc_evtset_bits:
  assumes "intc_evtset s (Some r) bank v = (s', d')"
  shows "(\<forall>k<32. bit (event_flag s' bank) k \<longleftrightarrow>
            bit (event_flag s bank) k \<or> (bit v k \<and> (bank \<noteq> 0 \<or> 4 \<le> k))) \<and>
    (\<exists>r'. d' = Some r' \<and> (\<forall>i. bit r' i \<longleftrightarrow> bit r i \<or> (4 \<le> i \<and> i < 16 \<and>
       ((\<exists>k<32. bit v k \<and> (bank \<noteq> 0 \<or> 4 \<le> k) \<and> mux_selected s i = of_nat (bank * 32 + k)) \<or>
        \<not> combined_active s bank \<and> combined_active s' bank \<and> mux_selected s i = of_nat bank))))"
proof -
  define events where "events = v AND (if bank = 0 then NOT 0xF else 0xFFFFFFFF)"
  define t where "t = s\<lparr>event_flag := (event_flag s)(bank := event_flag s bank OR events)\<rparr>"
  have ones: "v AND 0xFFFFFFFF = v" by (rule bit_word_eqI) (auto simp: and_mask_numerals bit_simps)
  have ev: "bit events k \<longleftrightarrow> bit v k \<and> (bank \<noteq> 0 \<or> 4 \<le> k)" if "k < 32" for k
    unfolding events_def using that
    by (cases "bank = 0") (auto simp: ones bit_and_iff)
  have b: "events AND shl 1 k \<noteq> 0 \<longleftrightarrow> bit events k" for k
    by (simp only: bit_iff_and_push_bit_not_eq_0)
  obtain r1 where r1: "fold (\<lambda>k d. if bit events k then request_selected_event t d (of_nat (bank * 32 + k)) else d) [0..<32] (Some r) = Some r1"
    "\<forall>i. bit r1 i \<longleftrightarrow> bit r i \<or> (4 \<le> i \<and> i < 16 \<and> (\<exists>k\<in>set [0..<32]. bit events k \<and> mux_selected t i = of_nat (bank * 32 + k)))"
    using requests_fold [of "bit events" t "\<lambda>k. of_nat (bank * 32 + k)" "[0..<32]" r] by blast
  obtain r2 where r2: "(if \<not> combined_active s bank \<and> combined_active t bank
      then request_selected_event t (Some r1) (of_nat bank) else Some r1) = Some r2"
    "\<And>i. bit r2 i \<longleftrightarrow> bit r1 i \<or> (4 \<le> i \<and> i < 16 \<and> (\<not> combined_active s bank \<and> combined_active t bank) \<and> mux_selected t i = of_nat bank)"
    using combined_edge [of "\<not> combined_active s bank \<and> combined_active t bank" t r1 "of_nat bank"] by blast
  have e: "s' = t" "d' = Some r2"
    using assms unfolding intc_evtset_def Let_def events_def [symmetric] t_def [symmetric] b r1(1) r2(1) by simp_all
  have m: "mux_selected t i = mux_selected s i" for i by (simp add: t_def)
  have "\<forall>k<32. bit (event_flag t bank) k \<longleftrightarrow> bit (event_flag s bank) k \<or> (bit v k \<and> (bank \<noteq> 0 \<or> 4 \<le> k))"
    using ev by (simp add: t_def bit_or_iff)
  moreover have "\<forall>i. bit r2 i \<longleftrightarrow> bit r i \<or> (4 \<le> i \<and> i < 16 \<and>
       ((\<exists>k<32. bit v k \<and> (bank \<noteq> 0 \<or> 4 \<le> k) \<and> mux_selected s i = of_nat (bank * 32 + k)) \<or>
        \<not> combined_active s bank \<and> combined_active t bank \<and> mux_selected s i = of_nat bank))"
    unfolding r2(2) r1(2) [rule_format] m set_upt using ev by auto
  ultimately show ?thesis unfolding e by blast
qed

lemma bit_requests_frame:
  assumes "intc_write_delivery s (Some r) a v n c = Some (s', d')" "\<not> (4 \<le> i \<and> i < 16)"
  shows "\<exists>r'. d' = Some r' \<and> bit r' i = bit r i"
proof (cases c)
  case False
  then show ?thesis using assms(1) intc_check [of s "Some r" a v n "(s', d')"] by auto
next
  case True
  then have "intc_write_delivery s (Some r) a v n True = Some (s', d')" using assms(1) by simp
  then show ?thesis
  proof (cases rule: intc_write_cases)
    case (evtset bank)
    then show ?thesis using intc_evtset_bits [of s r bank "ucast v" s' d'] assms(2) by auto
  next
    case (evtmask bank)
    let ?t = "s\<lparr>event_mask := (event_mask s)(bank := ucast v OR always_masked bank)\<rparr>"
    obtain r' where r': "(if \<not> combined_active s bank \<and> combined_active ?t bank
      then request_selected_event ?t (Some r) (of_nat bank) else Some r) = Some r'"
      "\<And>i. bit r' i \<longleftrightarrow> bit r i \<or> (4 \<le> i \<and> i < 16 \<and> (\<not> combined_active s bank \<and> combined_active ?t bank) \<and> mux_selected ?t i = of_nat bank)"
      using combined_edge [of "\<not> combined_active s bank \<and> combined_active ?t bank" ?t r "of_nat bank"] by blast
    then show ?thesis using evtmask assms(2) unfolding intc_evtmask_def Let_def by auto
  qed auto
qed

lemma intc_reach_requests:
  "intc_reach s d \<Longrightarrow> \<exists>r. d = Some r \<and> (\<forall>i. bit r i \<longrightarrow> 4 \<le> i \<and> i < 16)"
proof (induction rule: intc_reach.induct)
  case (event s d e s' d')
  then obtain r where r: "d = Some r" "\<And>i. bit r i \<Longrightarrow> 4 \<le> i \<and> i < 16" by blast
  obtain r' where r': "d' = Some r'" "\<And>i. bit r' i \<Longrightarrow> bit r i \<or> 4 \<le> i \<and> i < 16"
    using intc_deliver_bits [OF event(2) [unfolded r(1)]] by blast
  then show ?case using r(2) by blast
next
  case (mmio s d a v n c s' d')
  then obtain r where r: "d = Some r" "\<And>i. bit r i \<Longrightarrow> 4 \<le> i \<and> i < 16" by blast
  note f = bit_requests_frame [OF mmio(2) [unfolded r(1)]]
  obtain r' where d': "d' = Some r'" using f [of 0] by auto
  have "bit r' i \<Longrightarrow> 4 \<le> i \<and> i < 16" for i using f [of i] r(2) [of i] unfolding d' by blast
  then show ?case using d' by blast
qed (auto simp: intc_delivery_reset_def intc_cpu_pending_def)

section \<open>Properties\<close>

text \<open>C26: Delivering a system event latches exactly its flag and requests exactly the CPU interrupts
  whose selector names the event, whatever the event mask says, and, when the event makes
  its bank's masked combination become active, those that select the combiner output of
  the bank. An event below 4 or above 127 is rejected.\<close>

theorem intc_deliver_event_requests:
  assumes "intc_deliver_event s (Some r) event = Some (s', d')"
  shows "4 \<le> event \<and> event < 128 \<and>
    s' = s\<lparr>event_flag := (event_flag s)(unat (event div 32) :=
            event_flag s (unat (event div 32)) OR shl 1 (unat (event mod 32)))\<rparr> \<and>
    (\<exists>r'. d' = Some r' \<and> (\<forall>i. bit r' i \<longleftrightarrow> bit r i \<or>
       (4 \<le> i \<and> i < 16 \<and>
        (mux_selected s i = event \<or>
         (\<not> combined_active s (unat (event div 32)) \<and> combined_active s' (unat (event div 32)) \<and>
          mux_selected s i = event div 32)))))"
  by (rule intc_deliver_bits [OF assms])

theorem intc_deliver_event_requests_witness:
  "\<exists>s' r'. intc_deliver_event intc_reset (Some 0) 5 = Some (s', Some r') \<and> bit r' 5"
proof -
  obtain s' d' where *: "intc_deliver_event intc_reset (Some 0) 5 = Some (s', d')"
    by (simp add: intc_deliver_event_def Let_def)
  have "mux_selected intc_reset 5 = 5" by (simp add: mux_selected_def intc_reset_def Let_def and_mask_numerals)
  then show ?thesis using intc_deliver_event_requests [OF *] * by auto
qed

text \<open>A write to an event set register latches its bits, except the four combiner outputs of
  bank 0, and requests the CPU interrupts that select one of the events written or, when
  the bank's masked combination becomes active, its combiner output.\<close>

theorem intc_evtset_requests:
  assumes "intc_evtset s (Some r) bank v = (s', d')"
  shows "(\<forall>k<32. bit (event_flag s' bank) k \<longleftrightarrow>
            bit (event_flag s bank) k \<or> (bit v k \<and> (bank \<noteq> 0 \<or> 4 \<le> k))) \<and>
    (\<exists>r'. d' = Some r' \<and> (\<forall>i. bit r' i \<longleftrightarrow> bit r i \<or> (4 \<le> i \<and> i < 16 \<and>
       ((\<exists>k<32. bit v k \<and> (bank \<noteq> 0 \<or> 4 \<le> k) \<and> mux_selected s i = of_nat (bank * 32 + k)) \<or>
        \<not> combined_active s bank \<and> combined_active s' bank \<and> mux_selected s i = of_nat bank))))"
  by (rule intc_evtset_bits [OF assms])

theorem intc_evtset_requests_witness:
  "\<exists>s' r'. intc_evtset intc_reset (Some 0) 0 0xFF = (s', Some r') \<and> bit r' 4"
proof -
  obtain s' d' where *: "intc_evtset intc_reset (Some 0) 0 0xFF = (s', d')" by (metis surj_pair)
  have m: "mux_selected intc_reset 4 = 4" by (simp add: mux_selected_def intc_reset_def Let_def and_mask_numerals)
  have "\<exists>k<32. bit (0xFF :: u32) k \<and> ((0 :: nat) \<noteq> 0 \<or> 4 \<le> k) \<and> mux_selected intc_reset 4 = of_nat (0 * 32 + k)"
    using m by (intro exI [of _ 4]) simp
  then show ?thesis using intc_evtset_requests [OF *] * by auto
qed

text \<open>C33: In every controller reachable from reset by events, register writes and consumed requests, the
  combiner outputs are never latched and always masked, the reserved selector bits are
  clear, and only CPU interrupts 4 to 15 are ever requested.\<close>

theorem intc_reachable_invariant:
  assumes "intc_reach s d"
  shows "event_flag s 0 AND 0xF = 0 \<and> event_mask s 0 AND 0xF = 0xF \<and> exception_mask s 0 AND 0xF = 0xF \<and>
    (\<forall>i. interrupt_mux s i AND 0x80808080 = 0) \<and>
    (\<exists>r. d = Some r \<and> (\<forall>i. bit r i \<longrightarrow> 4 \<le> i \<and> i < 16))"
  using intc_reach_wf [OF assms] intc_reach_requests [OF assms] by (simp add: intc_wf_def)

theorem intc_reachable_invariant_witness:
  "event_flag intc_reset 0 AND 0xF = 0 \<and> intc_reach intc_reset intc_delivery_reset"
  using intc_reachable_invariant [OF intc_reach.reset] intc_reach.reset by simp

text \<open>C34: The controller keeps the store contract of the CPU: a check changes nothing, and any queue
  of stores that were each accepted by a check, in whatever states, commits completely in
  order, leaving the invariant in force.\<close>

theorem intc_queued_stores_commit:
  assumes "\<forall>st\<in>set sts. \<exists>s0. check_store intc_port s0 st" "intc_wf (fst s)"
  shows "\<exists>s'. commit_all intc_port s sts = Some s' \<and> intc_wf (fst s')"
proof -
  obtain s' where s': "commit_all intc_port s sts = Some s'"
    using intc_delivery.queued_stores_commit [of sts s] assms(1) by blast
  moreover have "intc_wf (fst s')"
    using intc_delivery.inv_commit_all [OF _ s'] assms(2) by (simp add: case_prod_beta)
  ultimately show ?thesis by blast
qed

theorem intc_queued_stores_commit_witness:
  "\<exists>s'. commit_all intc_port (intc_reset, Some 0)
     [\<lparr>st_address = INTC_EVTSET0, st_value = 0x30, st_size = 4\<rparr>,
      \<lparr>st_address = INTC_EVTMASK0, st_value = 0, st_size = 4\<rparr>] = Some s' \<and> intc_wf (fst s')"
  by (rule intc_queued_stores_commit)
     (auto simp: check_store_def intc_port_def intc_write_accept banked_def intc_wf_reset simp flip: not_None_eq)

end
