(* ===== verification/C6747_Timer.thy ===== *)
theory C6747_Timer
  imports Bus_Contract
begin

text \<open>
  \<^verbatim>\<open>emulator/qemu/cdj_c6747_timer.c\<close>: the two Timer64P modules. One tick is one timer
  input clock; the three counting modes (64-bit, chained, dual 32-bit unchained) share
  the counter step \<open>advance\<close>. A read is an operation on the state, because reading the
  counters latches and, in read reset mode, restarts them.
\<close>

section \<open>State\<close>

record timer =
  tm_emumgt :: u32
  tm_gpintgpen :: u32
  tm_gpdatgpdir :: u32
  tim12 :: u32
  tim34 :: u32
  tim34_shadow :: u32
  prd12 :: u32
  prd34 :: u32
  tcr :: u32
  tgcr :: u32
  wdtcr :: u32
  rel12 :: u32
  rel34 :: u32
  cap12 :: u32
  cap34 :: u32
  intctlstat :: u32
  compare :: "nat \<Rightarrow> u32"
  tim34_shadow_valid :: bool

type_synonym timers = "nat \<Rightarrow> timer"

abbreviation TIMER_REVID :: u32 where "TIMER_REVID \<equiv> 0x4472020C"
abbreviation TCR_WRITE_MASK :: u32 where "TCR_WRITE_MASK \<equiv> 0x04C03FFE"
abbreviation TGCR_WRITE_MASK :: u32 where "TGCR_WRITE_MASK \<equiv> 0x0000FF1F"
abbreviation GPINTGPEN_WRITE_MASK :: u32 where "GPINTGPEN_WRITE_MASK \<equiv> 0x00030033"
abbreviation GPDATGPDIR_WRITE_MASK :: u32 where "GPDATGPDIR_WRITE_MASK \<equiv> 0x00030003"
abbreviation INTCTL_ENABLE_MASK :: u32 where "INTCTL_ENABLE_MASK \<equiv> 0x00050005"
abbreviation INTCTL_STATUS_MASK :: u32 where "INTCTL_STATUS_MASK \<equiv> 0x000A000A"
abbreviation TIMER0_BASE :: u32 where "TIMER0_BASE \<equiv> 0x01C20000"
abbreviation TIMER1_BASE :: u32 where "TIMER1_BASE \<equiv> 0x01C21000"

abbreviation (input) TIMER_HALF_12 :: nat where "TIMER_HALF_12 \<equiv> 0"
abbreviation (input) TIMER_HALF_34 :: nat where "TIMER_HALF_34 \<equiv> 1"
abbreviation (input) TIMER_OUTPUTS :: nat where "TIMER_OUTPUTS \<equiv> 10"
abbreviation (input) TIMER_OUT_TINT12 :: nat where "TIMER_OUT_TINT12 \<equiv> 0"
abbreviation (input) TIMER_OUT_TINT34 :: nat where "TIMER_OUT_TINT34 \<equiv> 1"
abbreviation (input) TIMER_OUT_CMP0 :: nat where "TIMER_OUT_CMP0 \<equiv> 2"

text \<open>The module and the offset of an address.\<close>

definition timer_decode :: "u32 \<Rightarrow> (nat \<times> u32) option" where
  "timer_decode address =
     (if address \<ge> TIMER0_BASE \<and> address < TIMER0_BASE + 0x1000 then Some (0, address - TIMER0_BASE)
      else if address \<ge> TIMER1_BASE \<and> address < TIMER1_BASE + 0x1000 then Some (1, address - TIMER1_BASE)
      else None)"

definition timer_reset :: timer where
  "timer_reset = \<lparr>tm_emumgt = 0, tm_gpintgpen = 0, tm_gpdatgpdir = 0, tim12 = 0, tim34 = 0, tim34_shadow = 0,
     prd12 = 0, prd34 = 0, tcr = 0, tgcr = 0, wdtcr = 0, rel12 = 0, rel34 = 0, cap12 = 0, cap34 = 0,
     intctlstat = 0, compare = (\<lambda>_. 0), tim34_shadow_valid = False\<rparr>"

definition timers_reset :: timers where
  "timers_reset = (\<lambda>_. timer_reset)"

section \<open>Input clock\<close>

text \<open>The rate as numerator and denominator; \<open>None\<close> where no rate is fixed. The caller's
  output pointers are always present here.\<close>

definition timer_input_hz :: "timer \<Rightarrow> u32 \<Rightarrow> nat \<Rightarrow> (u64 \<times> u32) option" where
  "timer_input_hz s auxclk_hz hlf =
     (if auxclk_hz = 0 \<or> hlf > TIMER_HALF_34 then None
      else
        (let dual_unchained = (shr (tgcr s) 2 AND 3 = 1)
         in if tcr s AND shl 1 8 \<noteq> 0 \<and> (hlf = TIMER_HALF_12 \<or> \<not> dual_unchained) then None
            else if hlf = TIMER_HALF_12 then Some (ucast auxclk_hz, 1)
            else if \<not> dual_unchained then None
            else Some (ucast auxclk_hz, (shr (tgcr s) 8 AND 15) + 1)))"

definition input_clock_known :: "timer \<Rightarrow> nat \<Rightarrow> bool" where
  "input_clock_known s hlf =
     (let dual_unchained = (shr (tgcr s) 2 AND 3 = 1)
      in if tcr s AND shl 1 9 \<noteq> 0 \<and> (hlf = TIMER_HALF_12 \<or> \<not> dual_unchained) then False
         else timer_input_hz s 1 hlf \<noteq> None)"

section \<open>Counting\<close>

text \<open>One clock into one counter: the match flag, the counter and the period.\<close>

definition advance :: "u64 \<Rightarrow> u64 \<Rightarrow> u64 \<Rightarrow> u32 \<Rightarrow> bool \<times> u64 \<times> u64" where
  "advance counter period reload enamode =
     (if enamode = 0 \<or> period = 0 then (False, counter, period)
      else if counter = period then
        (if enamode = 1 then (False, counter, period)
         else (False, 0, if enamode = 3 then reload else period))
      else (counter + 1 = period, counter + 1, period))"

definition compare_matches :: "timer \<Rightarrow> u32" where
  "compare_matches s =
     (if tgcr s AND shl 1 4 = 0 \<or> shr (tgcr s) 2 AND 3 \<noteq> 1 then 0
      else fold (\<lambda>n fired. fired OR
        (if compare s n \<noteq> 0 \<and> compare s n = tim12 s then shl 1 (TIMER_OUT_CMP0 + n) else 0)) [0..<8] 0)"

text \<open>The branches of \<open>tick_one\<close>: the two halves of the dual mode, the chained mode and the 64-bit mode.\<close>

definition tick_half12 :: "timer \<Rightarrow> timer \<times> u32" where
  "tick_half12 s =
     (let before = tim12 s; enamode12 = shr (tcr s) 6 AND 3;
          (hit, counter, period) = advance (ucast (tim12 s)) (ucast (prd12 s)) (ucast (rel12 s)) enamode12;
          fired = (if hit then shl 1 TIMER_OUT_TINT12 else 0);
          s = s\<lparr>tim12 := ucast counter, prd12 := ucast period\<rparr>
      in (s, if tim12 s \<noteq> before then fired OR compare_matches s else fired))"

definition tick_half34 :: "timer \<Rightarrow> timer \<times> u32" where
  "tick_half34 s =
     (let enamode34 = shr (tcr s) 22 AND 3; tddr = shr (tgcr s) 12 AND 15
      in if tddr = shr (tgcr s) 8 AND 15 then
           (let s = s\<lparr>tgcr := tgcr s AND NOT 0xF000\<rparr>;
                (hit, counter, period) =
                  advance (ucast (tim34 s)) (ucast (prd34 s)) (ucast (rel34 s)) enamode34
            in (s\<lparr>tim34 := ucast counter, prd34 := ucast period\<rparr>,
                if hit then shl 1 TIMER_OUT_TINT34 else 0))
         else (s\<lparr>tgcr := (tgcr s AND NOT 0xF000) OR shl (tddr + 1) 12\<rparr>, 0))"

definition tick_dual :: "timer \<Rightarrow> timer \<times> u32" where
  "tick_dual s =
     (let enamode34 = shr (tcr s) 22 AND 3;
          (s, fired) = (if tgcr s AND 1 \<noteq> 0 \<and> input_clock_known s TIMER_HALF_12 then tick_half12 s else (s, 0))
      in if tgcr s AND 2 \<noteq> 0 \<and> enamode34 \<noteq> 0 \<and> input_clock_known s TIMER_HALF_34
         then (case tick_half34 s of (s, f) \<Rightarrow> (s, fired OR f)) else (s, fired))"

definition tick_chained :: "timer \<Rightarrow> timer \<times> u32" where
  "tick_chained s =
     (let enamode12 = shr (tcr s) 6 AND 3
      in if tim34 s = prd34 s then
           (let reload_prd34 = (enamode12 = 3 \<and> prd12 s \<noteq> 0 \<and> tim12 s = prd12 s);
                s = s\<lparr>tim34 := 0\<rparr>;
                (hit, counter, period) =
                  advance (ucast (tim12 s)) (ucast (prd12 s)) (ucast (rel12 s)) enamode12;
                s = s\<lparr>tim12 := ucast counter, prd12 := ucast period\<rparr>
            in (if reload_prd34 then s\<lparr>prd34 := rel34 s\<rparr> else s,
                if hit then shl 1 TIMER_OUT_TINT12 else 0))
         else (s\<lparr>tim34 := tim34 s + 1\<rparr>, 0))"

definition pair64 :: "u32 \<Rightarrow> u32 \<Rightarrow> u64" where
  "pair64 high low = shl (ucast high) 32 OR ucast low"

definition tick_64 :: "timer \<Rightarrow> timer \<times> u32" where
  "tick_64 s =
     (let enamode12 = shr (tcr s) 6 AND 3;
          (hit, counter, period) = advance (pair64 (tim34 s) (tim12 s)) (pair64 (prd34 s) (prd12 s))
             (pair64 (rel34 s) (rel12 s)) enamode12
      in (s\<lparr>tim12 := ucast counter, tim34 := ucast (shr counter 32),
            prd12 := ucast period, prd34 := ucast (shr period 32)\<rparr>,
          if hit then shl 1 TIMER_OUT_TINT12 else 0))"

definition tick_one :: "timer \<Rightarrow> timer \<times> u32" where
  "tick_one s =
     (let mode = shr (tgcr s) 2 AND 3; enamode12 = shr (tcr s) 6 AND 3
      in if mode = 2 then (s, 0)
         else if mode = 1 then tick_dual s
         else if tgcr s AND 3 \<noteq> 3 \<or> \<not> input_clock_known s TIMER_HALF_12 \<or> enamode12 = 0 then (s, 0)
         else if mode = 3 then tick_chained s
         else tick_64 s)"

text \<open>The status bits and the interrupt enables of one timer's outputs.\<close>

definition interrupt_outputs :: "timer \<Rightarrow> u32 \<Rightarrow> timer \<times> u32" where
  "interrupt_outputs s outputs =
     (let (s, outputs) =
        (if outputs AND shl 1 TIMER_OUT_TINT12 \<noteq> 0 then
           (let s = s\<lparr>intctlstat := intctlstat s OR shl 1 1\<rparr>
            in (s, if intctlstat s AND 1 = 0 then outputs AND NOT (shl 1 TIMER_OUT_TINT12) else outputs))
         else (s, outputs))
      in if outputs AND shl 1 TIMER_OUT_TINT34 \<noteq> 0 then
           (let s = s\<lparr>intctlstat := intctlstat s OR shl 1 17\<rparr>
            in (s, if intctlstat s AND shl 1 16 = 0 then outputs AND NOT (shl 1 TIMER_OUT_TINT34) else outputs))
         else (s, outputs))"

text \<open>The body of the loop over the timers, and the loop.\<close>

definition tick_timer :: "nat \<Rightarrow> timers \<times> u32 \<Rightarrow> timers \<times> u32" where
  "tick_timer i st =
     (case st of (ts, fired) \<Rightarrow>
        if tgcr (ts i) AND 3 = 0 then (ts, fired)
        else (case tick_one (ts i) of (s, outputs) \<Rightarrow>
          if outputs = 0 then (ts(i := s), fired)
          else (case interrupt_outputs s outputs of (s, outputs) \<Rightarrow>
            (ts(i := s), fired OR shl outputs (i * TIMER_OUTPUTS)))))"

definition timers_tick :: "timers \<Rightarrow> timers \<times> u32" where
  "timers_tick ts = fold tick_timer [0..<2] (ts, 0)"

definition timer_events :: "nat list list" where
  "timer_events = [[4, 64, 78, 79, 80, 81, 82, 83, 84, 85], [40, 48, 86, 87, 88, 89, 90, 91, 92, 93]]"

definition timer_event :: "nat \<Rightarrow> nat" where
  "timer_event b = (if b \<ge> 2 * TIMER_OUTPUTS then 0
     else timer_events ! (b div TIMER_OUTPUTS) ! (b mod TIMER_OUTPUTS))"

section \<open>Register access\<close>

definition read_reset_selected :: "timer \<Rightarrow> u32 \<Rightarrow> bool" where
  "read_reset_selected s readrstmode \<longleftrightarrow>
     tgcr s AND shl 1 4 \<noteq> 0 \<and> shr (tgcr s) 2 AND 3 = 1 \<and> tcr s AND readrstmode \<noteq> 0"

definition read_tim12 :: "timer \<Rightarrow> u32 \<times> timer" where
  "read_tim12 s =
     (tim12 s,
      if shr (tgcr s) 2 AND 3 = 0 then s\<lparr>tim34_shadow := tim34 s, tim34_shadow_valid := True\<rparr>
      else if read_reset_selected s (shl 1 10) then
        (let s = s\<lparr>cap12 := tim12 s\<rparr>;
             s = (if shr (tcr s) 6 AND 3 = 3 then s\<lparr>prd12 := rel12 s\<rparr> else s)
         in s\<lparr>tim12 := 0\<rparr>)
      else s)"

definition read_tim34 :: "timer \<Rightarrow> u32 \<times> timer" where
  "read_tim34 s =
     (let v = (if tim34_shadow_valid s then tim34_shadow s else tim34 s);
          s = s\<lparr>tim34_shadow_valid := False\<rparr>
      in (v, if read_reset_selected s (shl 1 26) then
               (let s = s\<lparr>cap34 := tim34 s\<rparr>;
                    s = (if shr (tcr s) 22 AND 3 = 3 then s\<lparr>prd34 := rel34 s\<rparr> else s)
                in s\<lparr>tim34 := 0\<rparr>)
             else s))"

definition timer_read :: "timer \<Rightarrow> u32 \<Rightarrow> (u32 \<times> timer) option" where
  "timer_read s off =
     (if off AND 3 \<noteq> 0 then None
      else if off = 0x00 then Some (TIMER_REVID, s)
      else if off = 0x04 then Some (tm_emumgt s, s)
      else if off = 0x08 then Some (tm_gpintgpen s, s)
      else if off = 0x0C then Some (tm_gpdatgpdir s, s)
      else if off = 0x10 then Some (read_tim12 s)
      else if off = 0x14 then Some (read_tim34 s)
      else if off = 0x18 then Some (prd12 s, s)
      else if off = 0x1C then Some (prd34 s, s)
      else if off = 0x20 then Some (tcr s, s)
      else if off = 0x24 then Some (tgcr s, s)
      else if off = 0x28 then Some (wdtcr s, s)
      else if off = 0x34 then Some (rel12 s, s)
      else if off = 0x38 then Some (rel34 s, s)
      else if off = 0x3C then Some (cap12 s, s)
      else if off = 0x40 then Some (cap34 s, s)
      else if off = 0x44 then Some (intctlstat s, s)
      else if off < 0x60 \<or> off > 0x7C then None
      else Some (compare s (unat ((off - 0x60) div 4)), s))"

definition timers_read :: "timers \<Rightarrow> u32 \<Rightarrow> (u32 \<times> timers) option" where
  "timers_read ts address =
     (case timer_decode address of None \<Rightarrow> None
      | Some (i, off) \<Rightarrow>
          (case timer_read (ts i) off of None \<Rightarrow> None | Some (v, s) \<Rightarrow> Some (v, ts(i := s))))"

definition write_tgcr :: "timer \<Rightarrow> u32 \<Rightarrow> timer" where
  "write_tgcr s w =
     (let s = s\<lparr>tgcr := w AND TGCR_WRITE_MASK\<rparr>;
          s = (if shr (tgcr s) 2 AND 3 \<noteq> 0 then s\<lparr>tim34_shadow_valid := False\<rparr> else s);
          s = (if tgcr s AND 1 = 0 then s\<lparr>tim12 := 0\<rparr> else s)
      in if tgcr s AND 2 = 0 then s\<lparr>tim34 := 0, tim34_shadow_valid := False\<rparr> else s)"

definition write_wdtcr :: "timer \<Rightarrow> u32 \<Rightarrow> timer" where
  "write_wdtcr s w =
     (let status = wdtcr s AND shl 1 15;
          status = (if w AND shl 1 15 \<noteq> 0 then 0 else status)
      in s\<lparr>wdtcr := (w AND 0xFFFF4000) OR status\<rparr>)"

definition write_intctlstat :: "timer \<Rightarrow> u32 \<Rightarrow> timer" where
  "write_intctlstat s w =
     (let status = intctlstat s AND INTCTL_STATUS_MASK;
          status = status AND NOT (w AND INTCTL_STATUS_MASK)
      in s\<lparr>intctlstat := status OR (w AND INTCTL_ENABLE_MASK)\<rparr>)"

definition timer_commit :: "timer \<Rightarrow> u32 \<Rightarrow> u32 \<Rightarrow> timer" where
  "timer_commit s off w =
     (if off = 0x04 then s\<lparr>tm_emumgt := w AND 3\<rparr>
      else if off = 0x08 then s\<lparr>tm_gpintgpen := w AND GPINTGPEN_WRITE_MASK\<rparr>
      else if off = 0x0C then s\<lparr>tm_gpdatgpdir := w AND GPDATGPDIR_WRITE_MASK\<rparr>
      else if off = 0x10 then s\<lparr>tim12 := w\<rparr>
      else if off = 0x14 then s\<lparr>tim34 := w, tim34_shadow_valid := False\<rparr>
      else if off = 0x18 then s\<lparr>prd12 := w\<rparr>
      else if off = 0x1C then s\<lparr>prd34 := w\<rparr>
      else if off = 0x20 then s\<lparr>tcr := w AND TCR_WRITE_MASK\<rparr>
      else if off = 0x24 then write_tgcr s w
      else if off = 0x28 then write_wdtcr s w
      else if off = 0x34 then s\<lparr>rel12 := w\<rparr>
      else if off = 0x38 then s\<lparr>rel34 := w\<rparr>
      else if off = 0x3C then s\<lparr>cap12 := w\<rparr>
      else if off = 0x40 then s\<lparr>cap34 := w\<rparr>
      else if off = 0x44 then write_intctlstat s w
      else s\<lparr>compare := (compare s)(unat ((off - 0x60) div 4) := w)\<rparr>)"

text \<open>The offsets with a case of their own in the write switch.\<close>

definition timer_register :: "u32 \<Rightarrow> bool" where
  "timer_register off \<longleftrightarrow>
     off = 0x04 \<or> off = 0x08 \<or> off = 0x0C \<or> off = 0x10 \<or> off = 0x14 \<or> off = 0x18 \<or> off = 0x1C \<or>
     off = 0x20 \<or> off = 0x24 \<or> off = 0x28 \<or> off = 0x34 \<or> off = 0x38 \<or> off = 0x3C \<or> off = 0x40 \<or> off = 0x44"

definition timers_write :: "timers \<Rightarrow> u32 \<Rightarrow> u64 \<Rightarrow> nat \<Rightarrow> bool \<Rightarrow> timers option" where
  "timers_write ts address value_in sz commit =
     (case timer_decode address of None \<Rightarrow> None
      | Some (i, off) \<Rightarrow>
          if sz \<noteq> 4 \<or> value_in > 0xFFFFFFFF \<or> off AND 3 \<noteq> 0 \<or> off = 0 then None
          else if \<not> timer_register off \<and> (off < 0x60 \<or> off > 0x7C) then None
          else Some (if commit then ts(i := timer_commit (ts i) off (ucast value_in)) else ts))"

interpretation timers_mmio: mmio_port_stable timers_write
  by unfold_locales (auto simp: timers_write_def split: if_splits option.splits prod.splits)

section \<open>Periodic counters\<close>

text \<open>
  What every counting mode promises, over the number the mode's registers make up: it
  counts from zero to its period and starts again, and raises its interrupt on the clock
  that brings it to the match value.
\<close>

locale periodic_counter =
  fixes running :: "'s \<Rightarrow> bool" and count :: "'s \<Rightarrow> nat" and period :: "'s \<Rightarrow> nat"
    and mtch :: "'s \<Rightarrow> nat" and tick :: "'s \<Rightarrow> 's" and fires :: "'s \<Rightarrow> bool"
  assumes running_tick: "running s \<Longrightarrow> running (tick s)"
    and count_tick: "running s \<Longrightarrow> count (tick s) = (if count s = period s then 0 else count s + 1)"
    and period_tick: "running s \<Longrightarrow> period (tick s) = period s"
    and mtch_tick: "running s \<Longrightarrow> mtch (tick s) = mtch s"
    and fires_iff: "running s \<Longrightarrow> fires s \<longleftrightarrow> count s + 1 = mtch s"
    and count_le: "running s \<Longrightarrow> count s \<le> period s"
    and mtch_le: "running s \<Longrightarrow> 0 < mtch s \<and> mtch s \<le> period s"
begin

lemma counts:
  "running s \<Longrightarrow> running ((tick ^^ n) s) \<and> period ((tick ^^ n) s) = period s \<and> mtch ((tick ^^ n) s) = mtch s \<and>
     count ((tick ^^ n) s) = (count s + n) mod (period s + 1)"
proof (induction n)
  case 0
  then show ?case using count_le [of s] by simp
next
  case (Suc n)
  let ?t = "(tick ^^ n) s"
  have t: "running ?t" "period ?t = period s" "mtch ?t = mtch s" "count ?t = (count s + n) mod (period s + 1)"
    using Suc by auto
  have "count (tick ?t) = (count s + Suc n) mod (period s + 1)"
    using count_tick [OF t(1)] t by (simp add: mod_Suc)
  then show ?case using t running_tick period_tick mtch_tick by simp
qed

text \<open>One interrupt in each window of one period, at the clock that reaches the match.\<close>

lemma fires_at: "running s \<Longrightarrow> fires ((tick ^^ n) s) \<longleftrightarrow> (count s + n) mod (period s + 1) + 1 = mtch s"
  using counts [of s n] fires_iff [of "(tick ^^ n) s"] by auto

lemma once_per_period:
  assumes "running s"
  shows "\<exists>!k. k \<le> period s \<and> fires ((tick ^^ k) s)"
proof -
  let ?m = "period s + 1" and ?g = "mtch s - 1"
  have g: "?g < ?m" "fires ((tick ^^ k) s) \<longleftrightarrow> (count s + k) mod ?m = ?g" for k
    using fires_at [OF assms, of k] mtch_le [OF assms] by auto
  have c: "count s < ?m" using count_le [OF assms] by simp
  have m: "(count s + k) mod ?m = (if count s + k < ?m then count s + k else count s + k - ?m)" if "k \<le> period s" for k
    using that c by (simp add: mod_if)
  define j where "j = (if count s \<le> ?g then ?g - count s else ?g + ?m - count s)"
  have j: "j \<le> period s" "(count s + j) mod ?m = ?g"
    using g(1) c by (auto simp: j_def mod_if)
  have "k = j" if "k \<le> period s" "fires ((tick ^^ k) s)" for k
    using m [OF that(1)] that c g(1) g(2) [of k] by (auto simp: j_def split: if_splits)
  then show ?thesis using j g(2) [of j] by blast
qed

end

section \<open>The counting modes\<close>

text \<open>What of the control register the prescale field \<open>TDDR34\<close> (bits 15-12) does not touch.\<close>

lemma tgcr_low:
  assumes "take_bit 12 t' = take_bit 12 (t :: u32)"
  shows "t' AND 1 = t AND 1" "t' AND 2 = t AND 2" "t' AND 3 = t AND 3" "shr t' 2 AND 3 = shr t 2 AND 3"
    "shr t' 8 AND 15 = shr t 8 AND 15" "t' AND shl 1 4 = t AND shl 1 4"
proof -
  have b: "bit t' i = bit t i" if "i < 12" for i
    using assms that by (metis bit_take_bit_iff)
  have two: "(2 :: u32) = shl 1 1" by simp
  have tb: "take_bit n (shr t' k) = take_bit n (shr t k)" if "n + k \<le> 12" for n k
  proof (rule bit_word_eqI)
    fix i show "bit (take_bit n (shr t' k)) i = bit (take_bit n (shr t k)) i"
      using b [of "k + i"] that by (auto simp: bit_simps)
  qed
  show "t' AND 1 = t AND 1" "t' AND 3 = t AND 3" "shr t' 2 AND 3 = shr t 2 AND 3" "shr t' 8 AND 15 = shr t 8 AND 15"
    unfolding and_mask_numerals using tb [of 1 0] tb [of 2 0] tb [of 2 2] tb [of 4 8] by simp_all
  show "t' AND 2 = t AND 2" unfolding two by (rule bit_word_eqI) (use b in \<open>auto simp only: bit_and_iff bit_shl_1\<close>)
  show "t' AND shl 1 4 = t AND shl 1 4" by (rule bit_word_eqI) (use b in \<open>auto simp only: bit_and_iff bit_shl_1\<close>)
qed

lemma tddr_field:
  "take_bit 12 (t AND NOT 0xF000) = take_bit 12 (t :: u32)"
  "take_bit 12 ((t AND NOT 0xF000) OR shl v 12) = take_bit 12 t"
  "shr (t AND NOT 0xF000) 12 AND 15 = 0"
  "unat v \<le> 15 \<Longrightarrow> shr ((t AND NOT 0xF000) OR shl v 12) 12 AND 15 = v"
proof -
  have m: "(0xF000 :: u32) = shl (mask 4) 12" by (simp add: mask_eq_exp_minus_1)
  have n: "bit (NOT (0xF000 :: u32)) i \<longleftrightarrow> i < 32 \<and> (i < 12 \<or> 16 \<le> i)" for i
    unfolding m by (auto simp: bit_simps)
  show "take_bit 12 (t AND NOT 0xF000) = take_bit 12 t"
    by (rule bit_word_eqI) (auto simp only: bit_take_bit_iff bit_and_iff n)
  show "take_bit 12 ((t AND NOT 0xF000) OR shl v 12) = take_bit 12 t"
    by (rule bit_word_eqI) (auto simp only: bit_take_bit_iff bit_and_iff bit_or_iff n bit_push_bit_iff)
  show "shr (t AND NOT 0xF000) 12 AND 15 = 0"
    unfolding and_mask_numerals
    by (rule bit_word_eqI) (auto simp only: bit_take_bit_iff bit_and_iff n bit_drop_bit_eq o_def bit_0_eq bot_apply bot_bool_def)
  assume v: "unat v \<le> 15"
  then have "take_bit 4 (unat v) = unat v" by (simp add: take_bit_nat_eq_self)
  then have "v = take_bit 4 v" by (simp add: word_unat_eq_iff unsigned_take_bit_eq)
  then have *: "bit v i \<Longrightarrow> i < 4" for i by (metis bit_take_bit_iff)
  show "shr ((t AND NOT 0xF000) OR shl v 12) 12 AND 15 = v"
    unfolding and_mask_numerals
    by (rule bit_word_eqI)
      (simp only: bit_take_bit_iff bit_and_iff bit_or_iff n bit_push_bit_iff bit_drop_bit_eq o_def
        possible_bit_word, auto dest: * )
qed

lemma input_clock_known_cong:
  assumes "take_bit 12 (tgcr s') = take_bit 12 (tgcr s)" "tcr s' = tcr s"
  shows "input_clock_known s' h = input_clock_known s h"
  unfolding input_clock_known_def timer_input_hz_def assms(2) tgcr_low [OF assms(1)] ..

text \<open>The counter step at the width of the counter: \<open>w\<close> bits of it are kept.\<close>

lemma advance_continuous:
  assumes "counter \<le> period" "period \<noteq> 0"
  shows "advance counter period reload 2 =
    (counter + 1 = period, if counter = period then 0 else counter + 1, period)"
  using assms by (auto simp: advance_def)

lemma unat_inc: "(c :: 'a::len word) < p \<Longrightarrow> unat (c + 1) = unat c + 1"
proof -
  assume "c < p"
  then have "unat c + 1 < 2 ^ LENGTH('a)" using unat_lt_exp [of p] unfolding word_less_nat_alt by linarith
  then show ?thesis by (simp add: unat_word_ariths)
qed

lemma ucast_wide_eq: "(ucast (a :: u32) :: u64) = ucast b \<longleftrightarrow> a = b"
  by (metis unat_widen(5) unsigned_word_eqI)

lemma ucast_wide_le: "(ucast (a :: u32) :: u64) \<le> ucast b \<longleftrightarrow> a \<le> b"
  by (simp add: word_le_nat_alt)

lemma advance_continuous_32:
  assumes "(a :: u32) \<le> p" "p \<noteq> 0"
  shows "advance (ucast a) (ucast p) reload 2 =
    (unat a + 1 = unat p, ucast (if a = p then 0 else a + 1), ucast p)"
proof (cases "a = p")
  case True
  then show ?thesis using assms by (simp add: advance_def unsigned_eq_0_iff)
next
  case False
  then have "a < p" using assms(1) by simp
  then have s: "unat (a + 1) = unat a + 1" by (rule unat_inc)
  have "unat (ucast a + 1 :: u64) = unat a + 1"
    using unat_u32_lt [of a] by (simp add: unat_word_ariths)
  then have u: "ucast a + 1 = (ucast (a + 1) :: u64)" using s by (intro word_unat_eq_iff [THEN iffD2]) simp
  have "a + 1 = p \<longleftrightarrow> unat a + 1 = unat p" using s by (metis unsigned_word_eqI)
  then show ?thesis using False assms(2) u
    using ucast_wide_eq [of p 0] by (simp add: advance_def ucast_wide_eq)
qed

text \<open>The 64-bit counter.\<close>

definition count64 :: "timer \<Rightarrow> nat" where
  "count64 s = unat (pair64 (tim34 s) (tim12 s))"

definition period64 :: "timer \<Rightarrow> nat" where
  "period64 s = unat (pair64 (prd34 s) (prd12 s))"

definition running64 :: "timer \<Rightarrow> bool" where
  "running64 s \<longleftrightarrow> shr (tgcr s) 2 AND 3 = 0 \<and> tgcr s AND 3 = 3 \<and> input_clock_known s TIMER_HALF_12 \<and>
     shr (tcr s) 6 AND 3 = 2 \<and> 0 < period64 s \<and> count64 s \<le> period64 s"

abbreviation clock :: "timer \<Rightarrow> timer" where "clock s \<equiv> fst (tick_one s)"
abbreviation fires12 :: "timer \<Rightarrow> bool" where "fires12 s \<equiv> bit (snd (tick_one s)) TIMER_OUT_TINT12"
abbreviation fires34 :: "timer \<Rightarrow> bool" where "fires34 s \<equiv> bit (snd (tick_one s)) TIMER_OUT_TINT34"

lemma pair64_split: "pair64 (ucast (shr c 32)) (ucast c) = c"
  unfolding pair64_def by (rule bit_word_eqI) (auto simp: bit_simps)

lemma tick_64_continuous:
  assumes "running64 s"
  shows "count64 (clock s) = (if count64 s = period64 s then 0 else count64 s + 1)"
    "prd34 (clock s) = prd34 s" "prd12 (clock s) = prd12 s" "tcr (clock s) = tcr s" "tgcr (clock s) = tgcr s"
    "fires12 s \<longleftrightarrow> count64 s + 1 = period64 s"
proof -
  let ?c = "pair64 (tim34 s) (tim12 s)" and ?p = "pair64 (prd34 s) (prd12 s)"
  have r: "?c \<le> ?p" "?p \<noteq> 0" "shr (tcr s) 6 AND 3 = 2" "shr (tgcr s) 2 AND 3 = 0" "tgcr s AND 3 = 3"
    "input_clock_known s TIMER_HALF_12"
    using assms by (auto simp: running64_def count64_def period64_def word_le_nat_alt)
  let ?c' = "if ?c = ?p then 0 else ?c + 1"
  have t: "tick_one s = (s\<lparr>tim12 := ucast ?c', tim34 := ucast (shr ?c' 32), prd12 := ucast ?p, prd34 := ucast (shr ?p 32)\<rparr>,
      if ?c + 1 = ?p then shl 1 TIMER_OUT_TINT12 else 0)"
    using r advance_continuous [OF r(1,2)] by (simp add: tick_one_def Let_def tick_64_def)
  have p: "ucast ?p = prd12 s" "ucast (shr ?p 32) = prd34 s"
    unfolding pair64_def by (rule bit_word_eqI, auto simp: bit_simps)+
  show "prd34 (clock s) = prd34 s" "prd12 (clock s) = prd12 s" "tcr (clock s) = tcr s" "tgcr (clock s) = tgcr s"
    unfolding t using p by simp_all
  have u: "unat (?c + 1) = unat ?c + 1" if "?c \<noteq> ?p" using that r(1) by (intro unat_inc [of ?c ?p]) simp
  have "tim34 (clock s) = ucast (shr ?c' 32)" "tim12 (clock s) = ucast ?c'" unfolding t by simp_all
  then have "count64 (clock s) = unat ?c'" by (simp only: count64_def pair64_split)
  also have "\<dots> = (if count64 s = period64 s then 0 else count64 s + 1)"
    using u by (auto simp: count64_def period64_def dest: unsigned_word_eqI)
  finally show "count64 (clock s) = (if count64 s = period64 s then 0 else count64 s + 1)" .
  have "?c + 1 = ?p \<longleftrightarrow> unat ?c + 1 = unat ?p"
  proof (cases "?c = ?p")
    case True
    then show ?thesis by simp
  next
    case False
    then show ?thesis using u by (metis unsigned_word_eqI)
  qed
  then show "fires12 s \<longleftrightarrow> count64 s + 1 = period64 s"
    unfolding t count64_def period64_def by simp
qed

interpretation timer64: periodic_counter running64 count64 period64 period64 clock fires12
proof
  fix s assume s: "running64 s"
  note t = tick_64_continuous [OF s]
  have "input_clock_known (clock s) TIMER_HALF_12"
    using input_clock_known_cong [of "clock s" s] t s by (simp add: running64_def)
  then show "running64 (clock s)" using s t by (auto simp: running64_def period64_def)
qed (use tick_64_continuous in \<open>auto simp: period64_def running64_def\<close>)

text \<open>The chained timer: TIM34 prescales TIM12, so the pair is one counter in mixed radix.\<close>

definition count_chained :: "timer \<Rightarrow> nat" where
  "count_chained s = unat (tim12 s) * (unat (prd34 s) + 1) + unat (tim34 s)"

definition period_chained :: "timer \<Rightarrow> nat" where
  "period_chained s = unat (prd12 s) * (unat (prd34 s) + 1) + unat (prd34 s)"

definition match_chained :: "timer \<Rightarrow> nat" where
  "match_chained s = unat (prd12 s) * (unat (prd34 s) + 1)"

definition running_chained :: "timer \<Rightarrow> bool" where
  "running_chained s \<longleftrightarrow> shr (tgcr s) 2 AND 3 = 3 \<and> tgcr s AND 3 = 3 \<and> input_clock_known s TIMER_HALF_12 \<and>
     shr (tcr s) 6 AND 3 = 2 \<and> prd12 s \<noteq> 0 \<and> tim12 s \<le> prd12 s \<and> tim34 s \<le> prd34 s"

text \<open>A counter in mixed radix: the low digit below \<open>q + 1\<close>, the high digit up to \<open>p\<close>.\<close>

lemma mixed_radix_top:
  assumes "h \<le> p" "l \<le> (q :: nat)"
  shows "h * (q + 1) + l = p * (q + 1) + q \<longleftrightarrow> h = p \<and> l = q" "h * (q + 1) + l \<le> p * (q + 1) + q"
proof -
  have *: "h * (q + 1) + l < p * (q + 1)" if "h < p"
  proof -
    have "(h + 1) * (q + 1) \<le> p * (q + 1)" using that by (intro mult_le_mono1) simp
    then show ?thesis using assms(2) by (simp add: algebra_simps)
  qed
  then show "h * (q + 1) + l = p * (q + 1) + q \<longleftrightarrow> h = p \<and> l = q"
    using assms by (cases "h = p") auto
  show "h * (q + 1) + l \<le> p * (q + 1) + q"
    using * assms by (cases "h = p") auto
qed

lemma mixed_radix_match:
  assumes "l \<le> (q :: nat)"
  shows "h * (q + 1) + l + 1 = p * (q + 1) \<longleftrightarrow> h + 1 = p \<and> l = q"
proof
  assume a: "h * (q + 1) + l + 1 = p * (q + 1)"
  have m: "(h * (q + 1) + l + 1) mod (q + 1) = 0" unfolding a by (rule mod_mult_self2_is_0)
  have "(h * (q + 1) + (l + 1)) mod (q + 1) = (l + 1) mod (q + 1)" by (rule mod_mult_self3)
  then have "(l + 1) mod (q + 1) = 0" using m by (simp only: add.assoc)
  then have l: "l = q" using assms by (cases "l = q") (auto simp: mod_if split: if_splits)
  then have "(h + 1) * (q + 1) = p * (q + 1)" using a by (simp add: algebra_simps)
  then have "h + 1 = p" by (metis mult_right_cancel add_is_0 one_neq_zero)
  then show "h + 1 = p \<and> l = q" using l by simp
qed (auto simp: algebra_simps)

lemma tick_chained_continuous:
  assumes "running_chained s"
  shows "tim34 (clock s) = (if tim34 s = prd34 s then 0 else tim34 s + 1)"
    "tim12 (clock s) = (if tim34 s = prd34 s then if tim12 s = prd12 s then 0 else tim12 s + 1 else tim12 s)"
    "prd34 (clock s) = prd34 s" "prd12 (clock s) = prd12 s" "tcr (clock s) = tcr s" "tgcr (clock s) = tgcr s"
    "fires12 s \<longleftrightarrow> tim34 s = prd34 s \<and> unat (tim12 s) + 1 = unat (prd12 s)"
proof -
  have r: "tim12 s \<le> prd12 s" "prd12 s \<noteq> 0" "shr (tcr s) 6 AND 3 = 2" "shr (tgcr s) 2 AND 3 = 3" "tgcr s AND 3 = 3"
    "input_clock_known s TIMER_HALF_12"
    using assms by (auto simp: running_chained_def)
  let ?c' = "if tim12 s = prd12 s then 0 else tim12 s + 1"
  have t: "tick_one s = (if tim34 s = prd34 s
     then (s\<lparr>tim34 := 0, tim12 := ?c', prd12 := prd12 s\<rparr>,
       if unat (tim12 s) + 1 = unat (prd12 s) then shl 1 TIMER_OUT_TINT12 else 0)
     else (s\<lparr>tim34 := tim34 s + 1\<rparr>, 0))"
    using r advance_continuous_32 [OF r(1,2)]
    by (simp add: tick_one_def Let_def tick_chained_def ucast_ucast_32)
  show "tim34 (clock s) = (if tim34 s = prd34 s then 0 else tim34 s + 1)"
    "tim12 (clock s) = (if tim34 s = prd34 s then ?c' else tim12 s)"
    "prd34 (clock s) = prd34 s" "prd12 (clock s) = prd12 s" "tcr (clock s) = tcr s" "tgcr (clock s) = tgcr s"
    "fires12 s \<longleftrightarrow> tim34 s = prd34 s \<and> unat (tim12 s) + 1 = unat (prd12 s)"
    unfolding t by simp_all
qed

text \<open>The step of one digit.\<close>

lemma digit_step:
  assumes "(d :: u32) \<le> p"
  shows "unat (if d = p then 0 else d + 1) = (if unat d = unat p then 0 else unat d + 1)"
    "(if d = p then 0 else d + 1) \<le> p"
proof -
  have u: "unat (d + 1) = unat d + 1" if "d \<noteq> p" using that assms by (intro unat_inc [of d p]) simp
  then show a: "unat (if d = p then 0 else d + 1) = (if unat d = unat p then 0 else unat d + 1)"
    by (auto dest: unsigned_word_eqI)
  have "unat d \<le> unat p" using assms by (simp add: word_le_nat_alt)
  then show "(if d = p then 0 else d + 1) \<le> p" unfolding word_le_nat_alt a by simp
qed

lemma count_chained_step:
  assumes "running_chained s"
  shows "count_chained (clock s) = (if count_chained s = period_chained s then 0 else count_chained s + 1)"
    "running_chained (clock s)"
proof -
  note r = assms [unfolded running_chained_def]
  note t = tick_chained_continuous [OF assms]
  have le: "unat (tim12 s) \<le> unat (prd12 s)" "unat (tim34 s) \<le> unat (prd34 s)"
    using r by (simp_all add: word_le_nat_alt)
  have d12: "tim12 s \<le> prd12 s" and d34: "tim34 s \<le> prd34 s" using r by auto
  have e: "tim34 s = prd34 s \<longleftrightarrow> unat (tim34 s) = unat (prd34 s)" by (auto dest: unsigned_word_eqI)
  have a: "unat (tim34 (clock s)) = (if unat (tim34 s) = unat (prd34 s) then 0 else unat (tim34 s) + 1)"
    unfolding t by (rule digit_step(1) [OF d34])
  have b: "unat (tim12 (clock s)) = (if unat (tim34 s) = unat (prd34 s) then
      if unat (tim12 s) = unat (prd12 s) then 0 else unat (tim12 s) + 1 else unat (tim12 s))"
    unfolding t e using digit_step(1) [OF d12] by simp
  show "count_chained (clock s) = (if count_chained s = period_chained s then 0 else count_chained s + 1)"
    unfolding count_chained_def period_chained_def mixed_radix_top(1) [OF le] a b t(3) by auto
  have "input_clock_known (clock s) TIMER_HALF_12"
    using input_clock_known_cong [of "clock s" s] t(5,6) r by simp
  moreover have "tim12 (clock s) \<le> prd12 s" unfolding t using digit_step(2) [OF d12] d12 by simp
  moreover have "tim34 (clock s) \<le> prd34 s" unfolding t using digit_step(2) [OF d34] by simp
  ultimately show "running_chained (clock s)" using r t(3-6) by (simp add: running_chained_def)
qed

lemma fires_chained: "running_chained s \<Longrightarrow> fires12 s \<longleftrightarrow> count_chained s + 1 = match_chained s"
proof -
  assume s: "running_chained s"
  have le: "unat (tim34 s) \<le> unat (prd34 s)" using s by (simp add: running_chained_def word_le_nat_alt)
  have e: "tim34 s = prd34 s \<longleftrightarrow> unat (tim34 s) = unat (prd34 s)" by (auto dest: unsigned_word_eqI)
  show ?thesis
    unfolding count_chained_def match_chained_def mixed_radix_match [OF le] tick_chained_continuous(7) [OF s] e by blast
qed

interpretation timer_chained:
  periodic_counter running_chained count_chained period_chained match_chained clock fires12
proof
  fix s assume s: "running_chained s"
  show "running_chained (clock s)"
    "count_chained (clock s) = (if count_chained s = period_chained s then 0 else count_chained s + 1)"
    using count_chained_step [OF s] by blast+
  show "period_chained (clock s) = period_chained s" "match_chained (clock s) = match_chained s"
    using tick_chained_continuous(3,4) [OF s] by (simp_all add: period_chained_def match_chained_def)
  show "fires12 s \<longleftrightarrow> count_chained s + 1 = match_chained s" by (rule fires_chained [OF s])
  show "count_chained s \<le> period_chained s"
    unfolding count_chained_def period_chained_def
    using s by (intro mixed_radix_top(2)) (simp_all add: running_chained_def word_le_nat_alt)
  show "0 < match_chained s \<and> match_chained s \<le> period_chained s"
    using s by (simp add: running_chained_def match_chained_def period_chained_def unat_gt_0)
qed

text \<open>The dual timers: two counters of one step, the second behind the prescale field of TGCR.\<close>

definition prescale :: "timer \<Rightarrow> nat" where
  "prescale s = unat (shr (tgcr s) 8 AND 15)"

definition prescale_count :: "timer \<Rightarrow> nat" where
  "prescale_count s = unat (shr (tgcr s) 12 AND 15)"

definition running12 :: "timer \<Rightarrow> bool" where
  "running12 s \<longleftrightarrow> shr (tgcr s) 2 AND 3 = 1 \<and> tgcr s AND 1 \<noteq> 0 \<and> input_clock_known s TIMER_HALF_12 \<and>
     shr (tcr s) 6 AND 3 = 2 \<and> prd12 s \<noteq> 0 \<and> tim12 s \<le> prd12 s"

definition running34 :: "timer \<Rightarrow> bool" where
  "running34 s \<longleftrightarrow> shr (tgcr s) 2 AND 3 = 1 \<and> tgcr s AND 2 \<noteq> 0 \<and> input_clock_known s TIMER_HALF_34 \<and>
     shr (tcr s) 22 AND 3 = 2 \<and> prd34 s \<noteq> 0 \<and> tim34 s \<le> prd34 s \<and> prescale_count s \<le> prescale s"

definition count34 :: "timer \<Rightarrow> nat" where
  "count34 s = unat (tim34 s) * (prescale s + 1) + prescale_count s"

definition period34 :: "timer \<Rightarrow> nat" where
  "period34 s = unat (prd34 s) * (prescale s + 1) + prescale s"

definition match34 :: "timer \<Rightarrow> nat" where
  "match34 s = unat (prd34 s) * (prescale s + 1)"

text \<open>Each half of the step leaves the registers of the other.\<close>

lemma compare_matches_bit: "bit (compare_matches s) i \<Longrightarrow> 2 \<le> i"
  unfolding compare_matches_def bit_fold_or
  by (auto simp: bit_if_shl_1 bit_fold_or split: if_splits)

lemma half12_frame:
  "tim34 (fst (tick_half12 s)) = tim34 s" "prd34 (fst (tick_half12 s)) = prd34 s"
  "tgcr (fst (tick_half12 s)) = tgcr s" "tcr (fst (tick_half12 s)) = tcr s"
  "rel34 (fst (tick_half12 s)) = rel34 s" "\<not> bit (snd (tick_half12 s)) 1"
proof -
  obtain hit c p where a: "advance (ucast (tim12 s)) (ucast (prd12 s)) (ucast (rel12 s)) (shr (tcr s) 6 AND 3) = (hit, c, p)"
    by (metis prod_cases3)
  have e: "fst (tick_half12 s) = s\<lparr>tim12 := ucast c, prd12 := ucast p\<rparr>"
    by (simp add: tick_half12_def Let_def a)
  show "tim34 (fst (tick_half12 s)) = tim34 s" "prd34 (fst (tick_half12 s)) = prd34 s"
    "tgcr (fst (tick_half12 s)) = tgcr s" "tcr (fst (tick_half12 s)) = tcr s" "rel34 (fst (tick_half12 s)) = rel34 s"
    unfolding e by simp_all
  show "\<not> bit (snd (tick_half12 s)) 1"
    using compare_matches_bit [of "s\<lparr>tim12 := ucast c, prd12 := ucast p\<rparr>" 1]
    by (auto simp: tick_half12_def Let_def a bit_or_iff)
qed

lemma half34_frame:
  "tim12 (fst (tick_half34 s)) = tim12 s" "prd12 (fst (tick_half34 s)) = prd12 s"
  "take_bit 12 (tgcr (fst (tick_half34 s))) = take_bit 12 (tgcr s)" "tcr (fst (tick_half34 s)) = tcr s"
  "\<not> bit (snd (tick_half34 s)) 0"
proof -
  obtain hit c p where a: "advance (ucast (tim34 s)) (ucast (prd34 s)) (ucast (rel34 s)) (shr (tcr s) 22 AND 3) = (hit, c, p)"
    by (metis prod_cases3)
  have e: "fst (tick_half34 s) = (if shr (tgcr s) 12 AND 15 = shr (tgcr s) 8 AND 15
      then s\<lparr>tgcr := tgcr s AND NOT 0xF000, tim34 := ucast c, prd34 := ucast p\<rparr>
      else s\<lparr>tgcr := (tgcr s AND NOT 0xF000) OR shl ((shr (tgcr s) 12 AND 15) + 1) 12\<rparr>)"
    by (simp add: tick_half34_def Let_def a)
  show "tim12 (fst (tick_half34 s)) = tim12 s" "prd12 (fst (tick_half34 s)) = prd12 s"
    "tcr (fst (tick_half34 s)) = tcr s" unfolding e by simp_all
  show "take_bit 12 (tgcr (fst (tick_half34 s))) = take_bit 12 (tgcr s)"
    unfolding e using tddr_field(1,2) [of "tgcr s"]
    by (cases "shr (tgcr s) 12 AND 15 = shr (tgcr s) 8 AND 15") (simp_all only: if_True if_False, simp_all)
  show "\<not> bit (snd (tick_half34 s)) 0"
    by (simp add: tick_half34_def Let_def a)
qed

lemma half12_continuous:
  assumes "prd12 s \<noteq> 0" "tim12 s \<le> prd12 s" "shr (tcr s) 6 AND 3 = 2"
  shows "tim12 (fst (tick_half12 s)) = (if tim12 s = prd12 s then 0 else tim12 s + 1)"
    "prd12 (fst (tick_half12 s)) = prd12 s" "bit (snd (tick_half12 s)) 0 \<longleftrightarrow> unat (tim12 s) + 1 = unat (prd12 s)"
proof -
  note a = advance_continuous_32 [OF assms(2,1), of "ucast (rel12 s)"]
  show "tim12 (fst (tick_half12 s)) = (if tim12 s = prd12 s then 0 else tim12 s + 1)"
    "prd12 (fst (tick_half12 s)) = prd12 s"
    using a assms(3) by (simp_all add: tick_half12_def Let_def ucast_ucast_32)
  have nc: "\<not> bit (compare_matches t) 0" for t using compare_matches_bit [of t 0] by auto
  show "bit (snd (tick_half12 s)) 0 \<longleftrightarrow> unat (tim12 s) + 1 = unat (prd12 s)"
    using a assms(3) nc
    by (auto simp: tick_half12_def Let_def ucast_ucast_32 bit_or_iff simp del: bit_0)
qed

lemma half34_continuous:
  assumes "prd34 s \<noteq> 0" "tim34 s \<le> prd34 s" "shr (tcr s) 22 AND 3 = 2" "prescale_count s \<le> prescale s"
  shows "tim34 (fst (tick_half34 s)) = (if prescale_count s = prescale s
        then if tim34 s = prd34 s then 0 else tim34 s + 1 else tim34 s)"
    "prescale_count (fst (tick_half34 s)) = (if prescale_count s = prescale s then 0 else prescale_count s + 1)"
    "prd34 (fst (tick_half34 s)) = prd34 s"
    "bit (snd (tick_half34 s)) 1 \<longleftrightarrow> prescale_count s = prescale s \<and> unat (tim34 s) + 1 = unat (prd34 s)"
proof -
  note a = advance_continuous_32 [OF assms(2,1), of "ucast (rel34 s)"]
  let ?d = "shr (tgcr s) 12 AND 15" and ?q = "shr (tgcr s) 8 AND 15"
  have e: "?d = ?q \<longleftrightarrow> prescale_count s = prescale s"
    unfolding prescale_count_def prescale_def by (auto dest: unsigned_word_eqI)
  have t: "tick_half34 s = (if prescale_count s = prescale s
      then (s\<lparr>tgcr := tgcr s AND NOT 0xF000, tim34 := if tim34 s = prd34 s then 0 else tim34 s + 1, prd34 := prd34 s\<rparr>,
        if unat (tim34 s) + 1 = unat (prd34 s) then shl 1 TIMER_OUT_TINT34 else 0)
      else (s\<lparr>tgcr := (tgcr s AND NOT 0xF000) OR shl (?d + 1) 12\<rparr>, 0))"
    using a assms(3) unfolding e [symmetric] by (simp add: tick_half34_def Let_def ucast_ucast_32)
  show "tim34 (fst (tick_half34 s)) = (if prescale_count s = prescale s
        then if tim34 s = prd34 s then 0 else tim34 s + 1 else tim34 s)"
    "prd34 (fst (tick_half34 s)) = prd34 s"
    "bit (snd (tick_half34 s)) 1 \<longleftrightarrow> prescale_count s = prescale s \<and> unat (tim34 s) + 1 = unat (prd34 s)"
    unfolding t by (simp_all del: push_bit_of_1 add: bit_if_shl_1)
  show "prescale_count (fst (tick_half34 s)) = (if prescale_count s = prescale s then 0 else prescale_count s + 1)"
  proof (cases "prescale_count s = prescale s")
    case True
    then have "tgcr (fst (tick_half34 s)) = tgcr s AND NOT 0xF000" unfolding t if_P [OF True] by simp
    then show ?thesis using True by (simp only: prescale_count_def tddr_field(3) unsigned_0) simp
  next
    case False
    then have "?d < ?q" using assms(4) unfolding prescale_count_def prescale_def
      by (simp add: word_less_nat_alt)
    then have u: "unat (?d + 1) = unat ?d + 1" by (rule unat_inc)
    have "unat ?q \<le> 15"
      using word_and_le1 [of "shr (tgcr s) 8" 15] by (simp add: word_le_nat_alt)
    then have "unat (?d + 1) \<le> 15" using u \<open>?d < ?q\<close> by (simp add: word_less_nat_alt)
    note f = tddr_field(4) [OF this, of "tgcr s"]
    have "tgcr (fst (tick_half34 s)) = (tgcr s AND NOT 0xF000) OR shl (?d + 1) 12"
      unfolding t if_not_P [OF False] by simp
    then show ?thesis using False u unfolding prescale_count_def by (simp only: f) simp
  qed
qed

text \<open>The two halves of the step in sequence.\<close>

definition half34_runs :: "timer \<Rightarrow> bool" where
  "half34_runs s \<longleftrightarrow> tgcr s AND 2 \<noteq> 0 \<and> shr (tcr s) 22 AND 3 \<noteq> 0 \<and> input_clock_known s TIMER_HALF_34"

definition half12_runs :: "timer \<Rightarrow> bool" where
  "half12_runs s \<longleftrightarrow> tgcr s AND 1 \<noteq> 0 \<and> input_clock_known s TIMER_HALF_12"

lemma tick_dual_eq:
  "tick_dual s =
     (let (s1, f1) = (if half12_runs s then tick_half12 s else (s, 0));
          (s2, f2) = (if half34_runs s then tick_half34 s1 else (s1, 0))
      in (s2, f1 OR f2))"
proof -
  obtain s1 f1 where 1: "(if half12_runs s then tick_half12 s else (s, 0)) = (s1, f1)" by fastforce
  have fr: "tgcr s1 = tgcr s" "tcr s1 = tcr s"
    using 1 half12_frame(3,4) [of s] by (auto split: if_splits)
  then have k: "input_clock_known s1 TIMER_HALF_34 = input_clock_known s TIMER_HALF_34"
    by (intro input_clock_known_cong) simp_all
  show ?thesis
    using 1 fr k by (auto simp: tick_dual_def half12_runs_def [symmetric] half34_runs_def Let_def split: prod.splits)
qed

lemma tick_one_dual: "shr (tgcr s) 2 AND 3 = 1 \<Longrightarrow> tick_one s = tick_dual s"
  by (simp add: tick_one_def)

lemma dual_tick_12:
  assumes m: "shr (tgcr s) 2 AND 3 = 1" and r: "half12_runs s"
  shows "tim12 (clock s) = tim12 (fst (tick_half12 s))" "prd12 (clock s) = prd12 (fst (tick_half12 s))"
    "take_bit 12 (tgcr (clock s)) = take_bit 12 (tgcr s)" "tcr (clock s) = tcr s"
    "fires12 s \<longleftrightarrow> bit (snd (tick_half12 s)) 0"
  using half12_frame(3,4) [of s] half34_frame [of "fst (tick_half12 s)"] r
  unfolding tick_one_dual [OF m] tick_dual_eq Let_def
  by (auto simp: case_prod_beta bit_or_iff simp del: bit_0)

lemma dual_tick_34:
  assumes m: "shr (tgcr s) 2 AND 3 = 1" and r: "half34_runs s"
  defines "s1 \<equiv> if half12_runs s then fst (tick_half12 s) else s"
  shows "tim34 (clock s) = tim34 (fst (tick_half34 s1))" "prd34 (clock s) = prd34 (fst (tick_half34 s1))"
    "tgcr (clock s) = tgcr (fst (tick_half34 s1))" "tcr (clock s) = tcr s"
    "fires34 s \<longleftrightarrow> bit (snd (tick_half34 s1)) 1"
    "tim34 s1 = tim34 s" "prd34 s1 = prd34 s" "tgcr s1 = tgcr s" "tcr s1 = tcr s"
  using half12_frame [of s] half34_frame(4) [of s1] r
  unfolding tick_one_dual [OF m] tick_dual_eq Let_def s1_def
  by (auto simp: case_prod_beta bit_or_iff simp del: One_nat_def)

interpretation timer_dual12:
  periodic_counter running12 "\<lambda>s. unat (tim12 s)" "\<lambda>s. unat (prd12 s)" "\<lambda>s. unat (prd12 s)" clock fires12
proof
  fix s assume s: "running12 s"
  note r = s [unfolded running12_def]
  have m: "shr (tgcr s) 2 AND 3 = 1" and h: "half12_runs s" using r by (auto simp: half12_runs_def)
  note d = dual_tick_12 [OF m h]
  have le: "tim12 s \<le> prd12 s" using r by blast
  note c = half12_continuous [of s]
  show "unat (prd12 (clock s)) = unat (prd12 s)" using d c r by simp
  show "unat (tim12 (clock s)) = (if unat (tim12 s) = unat (prd12 s) then 0 else unat (tim12 s) + 1)"
    using digit_step(1) [OF le] d(1) c(1) r by simp
  show "fires12 s \<longleftrightarrow> unat (tim12 s) + 1 = unat (prd12 s)" using d(5) c(3) r by blast
  have "tim12 (clock s) \<le> prd12 (clock s)" using digit_step(2) [OF le] d(1,2) c(1,2) r by simp
  moreover have "input_clock_known (clock s) TIMER_HALF_12"
    using input_clock_known_cong [OF d(3,4)] r by simp
  ultimately show "running12 (clock s)"
    using r d(2,4) c(2) tgcr_low(1,4) [OF d(3)] by (simp add: running12_def)
  show "unat (tim12 s) \<le> unat (prd12 s)" using le by (simp add: word_le_nat_alt)
  show "0 < unat (prd12 s) \<and> unat (prd12 s) \<le> unat (prd12 s)" using r by (simp add: unat_gt_0)
qed

lemma prescale_cong: "take_bit 12 (tgcr s') = take_bit 12 (tgcr s) \<Longrightarrow> prescale s' = prescale s"
  unfolding prescale_def using tgcr_low(5) by metis

lemma dual34_step:
  assumes s: "running34 s"
  shows "count34 (clock s) = (if count34 s = period34 s then 0 else count34 s + 1)"
    "period34 (clock s) = period34 s" "match34 (clock s) = match34 s" "running34 (clock s)"
    "fires34 s \<longleftrightarrow> count34 s + 1 = match34 s"
proof -
  note r = s [unfolded running34_def]
  have m: "shr (tgcr s) 2 AND 3 = 1" and h: "half34_runs s" using r by (auto simp: half34_runs_def)
  define s1 where "s1 = (if half12_runs s then fst (tick_half12 s) else s)"
  note d = dual_tick_34 [OF m h, folded s1_def]
  have p1: "prescale_count s1 = prescale_count s" "prescale s1 = prescale s"
    using d(8) by (simp_all add: prescale_count_def prescale_def)
  note c = half34_continuous [of s1, unfolded d(6-9) p1]
  have le: "tim34 s \<le> prd34 s" "prescale_count s \<le> prescale s" using r by auto
  have leu: "unat (tim34 s) \<le> unat (prd34 s)" using le(1) by (simp add: word_le_nat_alt)
  have tb: "take_bit 12 (tgcr (clock s)) = take_bit 12 (tgcr s)"
    using half34_frame(3) [of s1] d(3,8) by simp
  have t: "tim34 (clock s) = (if prescale_count s = prescale s
        then if tim34 s = prd34 s then 0 else tim34 s + 1 else tim34 s)"
    "prescale_count (clock s) = (if prescale_count s = prescale s then 0 else prescale_count s + 1)"
    "prd34 (clock s) = prd34 s" "prescale (clock s) = prescale s"
    "fires34 s \<longleftrightarrow> prescale_count s = prescale s \<and> unat (tim34 s) + 1 = unat (prd34 s)"
    using d c r prescale_cong [OF tb] by (simp_all add: prescale_count_def)
  have u: "unat (tim34 (clock s)) = (if prescale_count s = prescale s then
      if unat (tim34 s) = unat (prd34 s) then 0 else unat (tim34 s) + 1 else unat (tim34 s))"
    unfolding t(1) using digit_step(1) [OF le(1)] by simp
  show "count34 (clock s) = (if count34 s = period34 s then 0 else count34 s + 1)"
    unfolding count34_def period34_def mixed_radix_top(1) [OF leu le(2)] u t(2,4) by auto
  show "period34 (clock s) = period34 s" "match34 (clock s) = match34 s"
    by (simp_all add: period34_def match34_def t(3,4))
  show "fires34 s \<longleftrightarrow> count34 s + 1 = match34 s"
    unfolding count34_def match34_def mixed_radix_match [OF le(2)] t(5) by blast
  have "tim34 (clock s) \<le> prd34 s" unfolding t(1) using digit_step(2) [OF le(1)] le(1) by simp
  moreover have "prescale_count (clock s) \<le> prescale s" unfolding t(2) using le(2) by simp
  moreover have "input_clock_known (clock s) TIMER_HALF_34"
    using input_clock_known_cong [OF tb d(4)] r by simp
  ultimately show "running34 (clock s)"
    using r t(3,4) d(4) tgcr_low(2,4) [OF tb] by (simp add: running34_def)
qed

interpretation timer_dual34: periodic_counter running34 count34 period34 match34 clock fires34
proof
  fix s assume s: "running34 s"
  show "running34 (clock s)" "period34 (clock s) = period34 s" "match34 (clock s) = match34 s"
    "count34 (clock s) = (if count34 s = period34 s then 0 else count34 s + 1)"
    "fires34 s \<longleftrightarrow> count34 s + 1 = match34 s"
    using dual34_step [OF s] by blast+
  show "count34 s \<le> period34 s"
    unfolding count34_def period34_def
    using s by (intro mixed_radix_top(2)) (simp_all add: running34_def word_le_nat_alt)
  show "0 < match34 s \<and> match34 s \<le> period34 s"
    using s by (simp add: running34_def match34_def period34_def unat_gt_0)
qed

section \<open>Outputs and status\<close>

lemma compare_matches_bit_iff:
  "bit (compare_matches s) i \<longleftrightarrow> tgcr s AND shl 1 4 \<noteq> 0 \<and> shr (tgcr s) 2 AND 3 = 1 \<and> 2 \<le> i \<and> i < 10 \<and>
     compare s (i - 2) \<noteq> 0 \<and> compare s (i - 2) = tim12 s"
proof (cases "tgcr s AND shl 1 4 = 0 \<or> shr (tgcr s) 2 AND 3 \<noteq> 1")
  case True
  then show ?thesis unfolding compare_matches_def if_P [OF True] by auto
next
  case False
  have "(\<exists>n\<in>set [0..<8]. bit (if compare s n \<noteq> 0 \<and> compare s n = tim12 s then shl 1 (2 + n) else (0 :: u32)) i) \<longleftrightarrow>
      2 \<le> i \<and> i < 10 \<and> compare s (i - 2) \<noteq> 0 \<and> compare s (i - 2) = tim12 s"
    unfolding bit_if_shl_1 set_upt atLeastLessThan_iff Bex_def by (auto intro!: exI [of _ "i - 2"])
  then show ?thesis using False unfolding compare_matches_def if_not_P [OF False] bit_fold_or by auto
qed

lemma half_outputs:
  "intctlstat (fst (tick_half12 s)) = intctlstat s" "bit (snd (tick_half12 s)) k \<Longrightarrow> k < 10"
  "intctlstat (fst (tick_half34 s)) = intctlstat s" "bit (snd (tick_half34 s)) k \<Longrightarrow> k < 10"
  by (auto simp: tick_half12_def tick_half34_def Let_def bit_or_iff compare_matches_bit_iff bit_if_shl_1
      simp del: push_bit_of_1 split: prod.splits if_splits)

lemma tick_one_outputs:
  "intctlstat (fst (tick_one s)) = intctlstat s" "bit (snd (tick_one s)) k \<Longrightarrow> k < 10"
proof -
  have d: "intctlstat (fst (tick_dual s)) = intctlstat s" "bit (snd (tick_dual s)) k \<Longrightarrow> k < 10"
    unfolding tick_dual_eq using half_outputs [of s] half_outputs(3,4) [of "fst (tick_half12 s)"]
    by (auto simp: Let_def case_prod_beta bit_or_iff split: if_splits)
  have c: "intctlstat (fst (tick_chained s)) = intctlstat s" "bit (snd (tick_chained s)) k \<Longrightarrow> k < 10"
    by (auto simp: tick_chained_def Let_def bit_if_shl_1 simp del: push_bit_of_1 split: prod.splits if_splits)
  have w: "intctlstat (fst (tick_64 s)) = intctlstat s" "bit (snd (tick_64 s)) k \<Longrightarrow> k < 10"
    by (auto simp: tick_64_def Let_def bit_if_shl_1 simp del: push_bit_of_1 split: prod.splits if_splits)
  show "intctlstat (fst (tick_one s)) = intctlstat s" using d c w by (auto simp: tick_one_def Let_def)
  show "bit (snd (tick_one s)) k \<Longrightarrow> k < 10" using d c w by (auto simp: tick_one_def Let_def split: if_splits)
qed

lemma and_shl_1_nonzero: "(w :: u32) AND shl 1 k \<noteq> 0 \<longleftrightarrow> bit w k"
  using and_exp_eq_0_iff_not_bit [of w k] by (simp add: push_bit_eq_mult)

text \<open>One output with its status and enable bits.\<close>

definition interrupt_output :: "nat \<Rightarrow> nat \<Rightarrow> nat \<Rightarrow> timer \<times> u32 \<Rightarrow> timer \<times> u32" where
  "interrupt_output k status enable st =
     (case st of (s, outputs) \<Rightarrow>
        if outputs AND shl 1 k \<noteq> 0 then
          (let s = s\<lparr>intctlstat := intctlstat s OR shl 1 status\<rparr>
           in (s, if intctlstat s AND shl 1 enable = 0 then outputs AND NOT (shl 1 k) else outputs))
        else (s, outputs))"

lemma interrupt_outputs_eq:
  "interrupt_outputs s out = interrupt_output 1 17 16 (interrupt_output 0 1 0 (s, out))"
  unfolding interrupt_outputs_def interrupt_output_def Let_def prod.case
  by (simp only: push_bit_0_id id_apply split: prod.splits)

lemma interrupt_output_bits:
  assumes "k < 32" "status < 32" "enable < 32" "status \<noteq> enable"
  shows "bit (snd (interrupt_output k status enable (s, out))) i \<longleftrightarrow> bit out i \<and> (i = k \<longrightarrow> bit (intctlstat s) enable)"
    "bit (intctlstat (fst (interrupt_output k status enable (s, out)))) j \<longleftrightarrow>
       bit (intctlstat s) j \<or> j = status \<and> bit out k"
proof -
  have e: "intctlstat (s\<lparr>intctlstat := intctlstat s OR shl 1 status\<rparr>) AND shl 1 enable = 0 \<longleftrightarrow>
      \<not> bit (intctlstat s) enable"
    using and_shl_1_nonzero [of "intctlstat s OR shl 1 status" enable] assms(4)
    by (auto simp: bit_or_iff bit_shl_1 simp del: push_bit_of_1)
  show "bit (snd (interrupt_output k status enable (s, out))) i \<longleftrightarrow> bit out i \<and> (i = k \<longrightarrow> bit (intctlstat s) enable)"
    unfolding interrupt_output_def prod.case Let_def and_shl_1_nonzero e
    using assms(1) by (auto simp: bit_and_iff bit_not_iff bit_shl_1 simp del: push_bit_of_1 dest: bit_imp_le_length)
  show "bit (intctlstat (fst (interrupt_output k status enable (s, out)))) j \<longleftrightarrow>
       bit (intctlstat s) j \<or> j = status \<and> bit out k"
    unfolding interrupt_output_def prod.case Let_def and_shl_1_nonzero
    using assms(2) by (auto simp: bit_or_iff bit_shl_1 simp del: push_bit_of_1)
qed

lemma interrupt_outputs_bits:
  "bit (snd (interrupt_outputs s out)) k \<longleftrightarrow> bit out k \<and>
     (k = 0 \<longrightarrow> bit (intctlstat s) 0) \<and> (k = 1 \<longrightarrow> bit (intctlstat s) 16)"
  "bit (intctlstat (fst (interrupt_outputs s out))) j \<longleftrightarrow>
     bit (intctlstat s) j \<or> j = 1 \<and> bit out 0 \<or> j = 17 \<and> bit out 1"
proof -
  let ?s1 = "fst (interrupt_output 0 1 0 (s, out))" and ?o1 = "snd (interrupt_output 0 1 0 (s, out))"
  have a: "bit ?o1 i \<longleftrightarrow> bit out i \<and> (i = 0 \<longrightarrow> bit (intctlstat s) 0)"
    "bit (intctlstat ?s1) j \<longleftrightarrow> bit (intctlstat s) j \<or> j = 1 \<and> bit out 0" for i j
    by (rule interrupt_output_bits; simp)+
  have b: "bit (snd (interrupt_output 1 17 16 (?s1, ?o1))) i \<longleftrightarrow> bit ?o1 i \<and> (i = 1 \<longrightarrow> bit (intctlstat ?s1) 16)"
    "bit (intctlstat (fst (interrupt_output 1 17 16 (?s1, ?o1)))) j \<longleftrightarrow> bit (intctlstat ?s1) j \<or> j = 17 \<and> bit ?o1 1" for i j
    by (rule interrupt_output_bits; simp)+
  show "bit (snd (interrupt_outputs s out)) k \<longleftrightarrow> bit out k \<and>
      (k = 0 \<longrightarrow> bit (intctlstat s) 0) \<and> (k = 1 \<longrightarrow> bit (intctlstat s) 16)"
    "bit (intctlstat (fst (interrupt_outputs s out))) j \<longleftrightarrow>
      bit (intctlstat s) j \<or> j = 1 \<and> bit out 0 \<or> j = 17 \<and> bit out 1"
    using a b unfolding interrupt_outputs_eq prod.collapse by auto
qed

text \<open>What one step of a running timer leaves in its registers and puts on its output lines.\<close>

definition timer_outputs :: "timer \<Rightarrow> nat \<Rightarrow> bool" where
  "timer_outputs s k \<longleftrightarrow> tgcr s AND 3 \<noteq> 0 \<and> bit (snd (tick_one s)) k \<and>
     (k = 0 \<longrightarrow> bit (intctlstat s) 0) \<and> (k = 1 \<longrightarrow> bit (intctlstat s) 16)"

lemma tick_timer_bits:
  "bit (snd (tick_timer i (ts, fired))) j \<longleftrightarrow>
     bit fired j \<or> j < 32 \<and> i * 10 \<le> j \<and> timer_outputs (ts i) (j - i * 10)"
  "fst (tick_timer i (ts, fired)) = ts(i := fst (tick_timer i (ts, fired)) i)"
  "tgcr (ts i) AND 3 \<noteq> 0 \<Longrightarrow> bit (intctlstat (fst (tick_timer i (ts, fired)) i)) n \<longleftrightarrow>
     bit (intctlstat (ts i)) n \<or> n = 1 \<and> fires12 (ts i) \<or> n = 17 \<and> fires34 (ts i)"
proof -
  obtain s out where t: "tick_one (ts i) = (s, out)" by (cases "tick_one (ts i)")
  have st: "intctlstat s = intctlstat (ts i)" using tick_one_outputs(1) [of "ts i"] t by simp
  note b = interrupt_outputs_bits [of s out]
  show "bit (snd (tick_timer i (ts, fired))) j \<longleftrightarrow>
     bit fired j \<or> j < 32 \<and> i * 10 \<le> j \<and> timer_outputs (ts i) (j - i * 10)"
    using b(1) st by (auto simp: tick_timer_def timer_outputs_def t case_prod_beta bit_or_iff bit_push_bit_iff
        simp del: bit_0)
  show "fst (tick_timer i (ts, fired)) = ts(i := fst (tick_timer i (ts, fired)) i)"
    by (auto simp: tick_timer_def t case_prod_beta)
  show "tgcr (ts i) AND 3 \<noteq> 0 \<Longrightarrow> bit (intctlstat (fst (tick_timer i (ts, fired)) i)) n \<longleftrightarrow>
     bit (intctlstat (ts i)) n \<or> n = 1 \<and> fires12 (ts i) \<or> n = 17 \<and> fires34 (ts i)"
    using b(2) [of n] st by (auto simp: tick_timer_def t case_prod_beta simp del: bit_0)
qed

lemma timers_tick_bits:
  "bit (snd (timers_tick ts)) j \<longleftrightarrow> j < 20 \<and> timer_outputs (ts (j div 10)) (j mod 10)"
proof -
  let ?t1 = "fst (tick_timer 0 (ts, 0))" and ?f1 = "snd (tick_timer 0 (ts, 0))"
  have e: "timers_tick ts = tick_timer 1 (?t1, ?f1)" by (simp add: timers_tick_def upt_rec)
  have "?t1 1 = ts 1" using tick_timer_bits(2) [of 0 ts 0] by (metis fun_upd_other zero_neq_one)
  then have "bit (snd (timers_tick ts)) j \<longleftrightarrow>
      (j < 32 \<and> timer_outputs (ts 0) j) \<or> j < 32 \<and> 10 \<le> j \<and> timer_outputs (ts 1) (j - 10)"
    unfolding e tick_timer_bits(1) by simp
  moreover have "timer_outputs s k \<Longrightarrow> k < 10" for s k
    using tick_one_outputs(2) by (auto simp: timer_outputs_def)
  note this [of "ts 0" j] this [of "ts 1" "j - 10"]
  ultimately show ?thesis by (cases "j < 10") (auto simp: div_nat_eqI mod_if [of j 10] div_if [of j 10])
qed

lemma timers_tick_status:
  assumes "i < 2" "tgcr (ts i) AND 3 \<noteq> 0"
  shows "bit (intctlstat (fst (timers_tick ts) i)) n \<longleftrightarrow>
     bit (intctlstat (ts i)) n \<or> n = 1 \<and> fires12 (ts i) \<or> n = 17 \<and> fires34 (ts i)"
proof -
  let ?t1 = "fst (tick_timer 0 (ts, 0))" and ?f1 = "snd (tick_timer 0 (ts, 0))"
  have e: "timers_tick ts = tick_timer 1 (?t1, ?f1)" by (simp add: timers_tick_def upt_rec)
  have o1: "?t1 1 = ts 1" using tick_timer_bits(2) [of 0 ts 0] by (metis fun_upd_other zero_neq_one)
  have o0: "fst (timers_tick ts) 0 = ?t1 0"
    unfolding e using tick_timer_bits(2) [of 1 ?t1 ?f1] by (metis fun_upd_other zero_neq_one)
  consider "i = 0" | "i = 1" using assms(1) by linarith
  then show ?thesis
  proof cases
    case 1
    then show ?thesis using o0 tick_timer_bits(3) [of ts 0 0 n] assms(2) by simp
  next
    case 2
    then show ?thesis unfolding e using tick_timer_bits(3) [of ?t1 1 ?f1 n] assms(2) o1 by simp
  qed
qed

section \<open>Properties\<close>

lemma watchdog_still: "shr (tgcr s) 2 AND 3 = 2 \<Longrightarrow> (clock ^^ n) s = s \<and> snd (tick_one ((clock ^^ n) s)) = 0"
  by (induction n) (simp_all add: tick_one_def Let_def)

text \<open>C11: The three counting modes count, and the fourth does not. In each counting mode (64-bit; chained, with
  TIM34 prescaling TIM12; and the two halves of the dual mode, the second behind its prescaler), a
  continuously enabled timer with a known clock counts every input clock from zero to its period and
  starts again, and raises its period interrupt exactly once in every window of one period. In
  watchdog mode the code leaves the timer as it is and raises nothing.\<close>

theorem timer_modes_count:
  "(running64 s \<longrightarrow> count64 ((clock ^^ n) s) = (count64 s + n) mod (period64 s + 1) \<and>
      (\<exists>!k. k \<le> period64 s \<and> fires12 ((clock ^^ k) s))) \<and>
   (running_chained s \<longrightarrow> count_chained ((clock ^^ n) s) = (count_chained s + n) mod (period_chained s + 1) \<and>
      (\<exists>!k. k \<le> period_chained s \<and> fires12 ((clock ^^ k) s))) \<and>
   (running12 s \<longrightarrow> unat (tim12 ((clock ^^ n) s)) = (unat (tim12 s) + n) mod (unat (prd12 s) + 1) \<and>
      (\<exists>!k. k \<le> unat (prd12 s) \<and> fires12 ((clock ^^ k) s))) \<and>
   (running34 s \<longrightarrow> count34 ((clock ^^ n) s) = (count34 s + n) mod (period34 s + 1) \<and>
      (\<exists>!k. k \<le> period34 s \<and> fires34 ((clock ^^ k) s))) \<and>
   (shr (tgcr s) 2 AND 3 = 2 \<longrightarrow> (clock ^^ n) s = s \<and> snd (tick_one ((clock ^^ n) s)) = 0)"
  using watchdog_still [of s n] timer64.counts [of s n] timer64.once_per_period [of s]
    timer_chained.counts [of s n] timer_chained.once_per_period [of s]
    timer_dual12.counts [of s n] timer_dual12.once_per_period [of s]
    timer_dual34.counts [of s n] timer_dual34.once_per_period [of s] by blast

theorem timer_modes_count_witness:
  "let s = timer_reset\<lparr>tgcr := 0x217, tcr := 0x00800080, prd12 := 9, prd34 := 4\<rparr>
   in unat (tim12 ((clock ^^ 23) s)) = 3 \<and> count34 ((clock ^^ 23) s) = 8"
proof -
  let ?s = "timer_reset\<lparr>tgcr := 0x217, tcr := 0x00800080, prd12 := 9, prd34 := 4\<rparr>"
  have "running12 ?s" "running34 ?s" "unat (tim12 ?s) = 0" "unat (prd12 ?s) = 9" "count34 ?s = 0" "period34 ?s = 14"
    by (simp_all add: running12_def running34_def timer_reset_def input_clock_known_def timer_input_hz_def
        prescale_def prescale_count_def count34_def period34_def)
  then show ?thesis using timer_modes_count [of ?s 23] by (simp add: Let_def)
qed

text \<open>The outputs of a tick. Line \<open>10 i + k\<close> rises exactly when timer \<open>i\<close> is out of reset and its
  step raises output \<open>k\<close>, for the period interrupts only when enabled; the period status
  bits of a running timer record the match whether or not it is enabled; and each line is
  routed to its own device event.\<close>

theorem timers_tick_outputs:
  "(bit (snd (timers_tick ts)) j \<longleftrightarrow> j < 20 \<and> tgcr (ts (j div 10)) AND 3 \<noteq> 0 \<and>
      bit (snd (tick_one (ts (j div 10)))) (j mod 10) \<and>
      (j mod 10 = 0 \<longrightarrow> bit (intctlstat (ts (j div 10))) 0) \<and>
      (j mod 10 = 1 \<longrightarrow> bit (intctlstat (ts (j div 10))) 16)) \<and>
   (i < 2 \<and> tgcr (ts i) AND 3 \<noteq> 0 \<longrightarrow>
      (bit (intctlstat (fst (timers_tick ts) i)) n \<longleftrightarrow>
         bit (intctlstat (ts i)) n \<or> n = 1 \<and> fires12 (ts i) \<or> n = 17 \<and> fires34 (ts i))) \<and>
   distinct (map timer_event [0..<20]) \<and> set (map timer_event [0..<20]) \<subseteq> {4..<124}"
proof (intro conjI)
  show "distinct (map timer_event [0..<20])" "set (map timer_event [0..<20]) \<subseteq> {4..<124}"
    by (simp_all add: upt_rec timer_event_def timer_events_def)
  show "bit (snd (timers_tick ts)) j \<longleftrightarrow> j < 20 \<and> tgcr (ts (j div 10)) AND 3 \<noteq> 0 \<and>
      bit (snd (tick_one (ts (j div 10)))) (j mod 10) \<and>
      (j mod 10 = 0 \<longrightarrow> bit (intctlstat (ts (j div 10))) 0) \<and>
      (j mod 10 = 1 \<longrightarrow> bit (intctlstat (ts (j div 10))) 16)"
    unfolding timers_tick_bits timer_outputs_def ..
  show "i < 2 \<and> tgcr (ts i) AND 3 \<noteq> 0 \<longrightarrow>
      (bit (intctlstat (fst (timers_tick ts) i)) n \<longleftrightarrow>
         bit (intctlstat (ts i)) n \<or> n = 1 \<and> fires12 (ts i) \<or> n = 17 \<and> fires34 (ts i))"
    using timers_tick_status by blast
qed

theorem timers_tick_outputs_witness:
  "bit (snd (timers_tick (timers_reset(1 := timer_reset\<lparr>tgcr := 3, tcr := 0x80, prd12 := 1, intctlstat := 1\<rparr>)))) 10"
proof -
  let ?s = "timer_reset\<lparr>tgcr := 3, tcr := 0x80, prd12 := 1, intctlstat := 1\<rparr>"
  have "bit (snd (tick_one ?s)) 0"
    by (simp add: tick_one_def tick_64_def Let_def timer_reset_def input_clock_known_def timer_input_hz_def
        advance_def pair64_def)
  moreover have "bit (intctlstat ?s) 0" "tgcr ?s AND 3 \<noteq> 0" by simp_all
  ultimately show ?thesis
    using timers_tick_outputs [of "timers_reset(1 := ?s)" 10] by (simp del: bit_0)
qed

text \<open>A read of both words \<open>n\<close> ticks apart, and the same by a processor that reads each address twice,
  as the loads of \<^verbatim>\<open>cdj_c674x.c\<close> do (once to validate the load at E1, once to sample it).\<close>

definition read_words :: "timer \<Rightarrow> nat \<Rightarrow> u32 \<times> u32" where
  "read_words s n =
     (let (low, s) = read_tim12 s; (high, s) = read_tim34 ((clock ^^ n) s) in (low, high))"

definition read_words_twice :: "timer \<Rightarrow> nat \<Rightarrow> u32 \<times> u32" where
  "read_words_twice s n =
     (let (_, s) = read_tim12 s; (low, s) = read_tim12 s;
          (_, s) = read_tim34 ((clock ^^ n) s); (high, s) = read_tim34 s in (low, high))"

lemma shadow_step:
  "shr (tgcr t) 2 AND 3 = 0 \<Longrightarrow> tgcr (clock t) = tgcr t \<and> tim34_shadow (clock t) = tim34_shadow t \<and>
     tim34_shadow_valid (clock t) = tim34_shadow_valid t"
  by (simp add: tick_one_def tick_64_def case_prod_beta Let_def)

lemma shadow_kept:
  "shr (tgcr s) 2 AND 3 = 0 \<Longrightarrow> shr (tgcr ((clock ^^ n) s)) 2 AND 3 = 0 \<and>
     tim34_shadow ((clock ^^ n) s) = tim34_shadow s \<and> tim34_shadow_valid ((clock ^^ n) s) = tim34_shadow_valid s"
proof (induction n)
  case (Suc n)
  then show ?case using shadow_step [of "(clock ^^ n) s"] by simp
qed simp

text \<open>C21: Reading TIM12 of a 64-bit timer latches the upper word, so a read of TIM34 at any later tick
  completes the 64-bit count of that moment. The latch holds for one read of each register
  only: a processor that reads an address twice, once to validate the load and once to
  sample it, gets the running upper word instead.\<close>

theorem timer_snapshot_coherent:
  assumes "shr (tgcr s) 2 AND 3 = 0"
  shows "read_words s n = (tim12 s, tim34 s) \<and>
    read_words_twice s n = (tim12 s, tim34 ((clock ^^ n) (s\<lparr>tim34_shadow := tim34 s, tim34_shadow_valid := True\<rparr>)))"
proof -
  let ?l = "s\<lparr>tim34_shadow := tim34 s, tim34_shadow_valid := True\<rparr>"
  have k: "shr (tgcr ((clock ^^ n) ?l)) 2 AND 3 = 0" "tim34_shadow ((clock ^^ n) ?l) = tim34 s"
    "tim34_shadow_valid ((clock ^^ n) ?l)"
    using shadow_kept [of ?l n] assms by simp_all
  then have "\<not> read_reset_selected ((clock ^^ n) ?l) b" for b by (simp add: read_reset_selected_def)
  moreover have "\<not> read_reset_selected (((clock ^^ n) ?l)\<lparr>tim34_shadow_valid := False\<rparr>) b" for b
    using k(1) by (simp add: read_reset_selected_def)
  moreover have "read_tim12 s = (tim12 s, ?l)" "read_tim12 ?l = (tim12 s, ?l)"
    using assms by (simp_all add: read_tim12_def)
  ultimately show ?thesis using k by (simp add: read_words_def read_words_twice_def read_tim34_def Let_def)
qed

theorem timer_snapshot_coherent_witness:
  "let s = timer_reset\<lparr>tgcr := 3, tcr := 0x80, tim12 := 0xFFFFFFFF, tim34 := 7, prd34 := 9\<rparr>
   in read_words s 1 = (0xFFFFFFFF, 7) \<and> read_words_twice s 1 = (0xFFFFFFFF, 8)"
proof -
  let ?s = "timer_reset\<lparr>tgcr := 3, tcr := 0x80, tim12 := 0xFFFFFFFF, tim34 := 7, prd34 := 9\<rparr>"
  have "tim34 (clock (?s\<lparr>tim34_shadow := tim34 ?s, tim34_shadow_valid := True\<rparr>)) = 8"
    by (simp add: tick_one_def tick_64_def Let_def timer_reset_def input_clock_known_def timer_input_hz_def
        advance_def pair64_def)
  then show ?thesis using timer_snapshot_coherent [of ?s 1] by (simp add: Let_def timer_reset_def)
qed

end
