(* ===== verification/C6747_Pll.thy ===== *)
theory C6747_Pll
  imports Bus_Contract "HOL-Library.While_Combinator"
begin

text \<open>
  \<^verbatim>\<open>emulator/qemu/cdj_c6747_pll.c\<close>: the PLL controller. Thirteen configuration registers, the
  divider GO command that takes effect eight cycles later, the oscillator clock counted
  from core cycles with its exact fraction, and the rules by which software may bring the
  PLL out of reset and switch to it.

  The loop that computes the lock wait is a search with no bound of its own, so it is a
  \<open>while_option\<close>; \<open>lock_wait_least\<close> is its termination at every operating point.
\<close>

abbreviation (input) CDJ_C6747_OSCIN_HZ :: u32 where "CDJ_C6747_OSCIN_HZ \<equiv> 16934400"

text \<open>The registers by index, their reset values, and the indices of the seven dividers.\<close>

definition pll_offsets :: "u32 list" where
  "pll_offsets = [0x100, 0x104, 0x110, 0x114, 0x118, 0x11C, 0x120, 0x124, 0x128, 0x160, 0x164, 0x168, 0x16C]"

definition pll_defaults :: "u32 list" where
  "pll_defaults = [0xF2, 0x14, 0x13, 0x8000, 0x8000, 0x8001, 0x8002, 0x8000, 0x8001, 0x8003, 0x8002, 0x8000, 0x8005]"

definition divider_index :: "nat list" where
  "divider_index = [4, 5, 6, 9, 10, 11, 12]"

record pll =
  pll_config :: "nat \<Rightarrow> u32"
  legacy_bit4_used :: bool
  active_dividers :: "nat \<Rightarrow> u32"
  target_dividers :: "nat \<Rightarrow> u32"
  pll_command :: u32
  go_remaining :: u32
  oscin_cycles :: u64
  reset_age :: u32
  lock_wait_remaining :: u32
  oscin_phase :: u32
  early_enable :: bool

definition ratio :: "u32 \<Rightarrow> u32" where
  "ratio divider = (if divider AND 0x8000 \<noteq> 0 then (divider AND 31) + 1 else 1)"

definition lock_wait :: "pll \<Rightarrow> u32 option" where
  "lock_wait s =
     (let n = ratio (pll_config s 3); m = pll_config s 2 + 1;
          square = 4000000 * ucast n * ucast n :: u64
      in while_option (\<lambda>wait. ucast wait * ucast wait * ucast m < square) (\<lambda>wait. wait + 1) 0)"

definition valid_operating_point :: "pll \<Rightarrow> bool" where
  "valid_operating_point s =
     (let n = ratio (pll_config s 3); m = pll_config s 2 + 1
      in CDJ_C6747_OSCIN_HZ \<ge> 12000000 * n \<and> CDJ_C6747_OSCIN_HZ \<le> 50000000 * n \<and> m \<ge> 4 \<and> m \<le> 32 \<and>
         (ucast CDJ_C6747_OSCIN_HZ :: u64) * ucast m \<ge> 300000000 * ucast n \<and>
         (ucast CDJ_C6747_OSCIN_HZ :: u64) * ucast m \<le> 600000000 * ucast n)"

definition pll_auxclk_hz :: u32 where
  "pll_auxclk_hz = CDJ_C6747_OSCIN_HZ"

definition enabled_ratio :: "u32 \<Rightarrow> u32 option" where
  "enabled_ratio reg = (if reg AND 0x8000 = 0 then None else Some ((reg AND 31) + 1))"

text \<open>SYSCLKn as a fraction of numerator and denominator.\<close>

definition pll_sysclk_hz :: "pll \<Rightarrow> nat \<Rightarrow> (u64 \<times> u32) option" where
  "pll_sysclk_hz s n =
     (if n < 1 \<or> n > 7 then None
      else case enabled_ratio (active_dividers s (n - 1)) of None \<Rightarrow> None
      | Some sysdiv \<Rightarrow>
          if pll_config s 0 AND 1 = 0 then Some (ucast CDJ_C6747_OSCIN_HZ, sysdiv)
          else (case enabled_ratio (pll_config s 3) of None \<Rightarrow> None
            | Some prediv \<Rightarrow>
                (case enabled_ratio (pll_config s 8) of None \<Rightarrow> None
                 | Some postdiv \<Rightarrow>
                     Some (ucast CDJ_C6747_OSCIN_HZ * ucast (pll_config s 2 + 1), prediv * postdiv * sysdiv))))"

definition index_of :: "u32 \<Rightarrow> nat option" where
  "index_of address =
     (case filter (\<lambda>i. address = 0x01C11000 + pll_offsets ! i) [0..<13] of [] \<Rightarrow> None | i # _ \<Rightarrow> Some i)"

definition pll_write_mapped :: "u32 \<Rightarrow> nat \<Rightarrow> bool" where
  "pll_write_mapped address sz \<longleftrightarrow> sz = 4 \<and> (address = 0x01C11138 \<or> index_of address \<noteq> None)"

definition pll_reset :: pll where
  "pll_reset = \<lparr>pll_config = (\<lambda>i. if i < 13 then pll_defaults ! i else 0), legacy_bit4_used = False,
     active_dividers = (\<lambda>i. if i < 7 then pll_defaults ! (divider_index ! i) else 0),
     target_dividers = (\<lambda>i. if i < 7 then pll_defaults ! (divider_index ! i) else 0),
     pll_command = 0, go_remaining = 0, oscin_cycles = 0, reset_age = 0, lock_wait_remaining = 0,
     oscin_phase = 0, early_enable = False\<rparr>"

section \<open>One core cycle\<close>

text \<open>The oscillator periods of one core cycle, as a fraction in PLL mode.\<close>

definition cycle_numerator :: "pll \<Rightarrow> u32" where
  "cycle_numerator s = ratio (pll_config s 3) * ratio (pll_config s 8) * ratio (active_dividers s 0)"

definition cycle_denominator :: "pll \<Rightarrow> u32" where
  "cycle_denominator s = pll_config s 2 + 1"

definition elapse :: "pll \<Rightarrow> u32 \<times> pll" where
  "elapse s =
     (if pll_config s 0 AND 1 \<noteq> 0 then
        (let phase = oscin_phase s + cycle_numerator s
         in (phase div cycle_denominator s, s\<lparr>oscin_phase := phase mod cycle_denominator s\<rparr>))
      else (ratio (active_dividers s 0), s\<lparr>oscin_phase := 0\<rparr>))"

definition tick_reset_age :: "u32 \<Rightarrow> pll \<Rightarrow> pll" where
  "tick_reset_age elapsed s =
     (if pll_config s 0 AND 0x12B = 0x100 \<and> reset_age s < 17 then
        s\<lparr>reset_age := (if reset_age s + elapsed > 17 then 17 else reset_age s + elapsed)\<rparr>
      else s)"

definition tick_lock_wait :: "u32 \<Rightarrow> pll \<Rightarrow> pll" where
  "tick_lock_wait elapsed s =
     (if lock_wait_remaining s \<noteq> 0 then
        s\<lparr>lock_wait_remaining := (if lock_wait_remaining s > elapsed then lock_wait_remaining s - elapsed else 0)\<rparr>
      else s)"

definition tick_go :: "pll \<Rightarrow> pll" where
  "tick_go s =
     (if go_remaining s = 0 then s
      else (let s = s\<lparr>go_remaining := go_remaining s - 1\<rparr>
            in if go_remaining s \<noteq> 0 then s
               else s\<lparr>active_dividers := (\<lambda>i. if i < 7 then target_dividers s i else active_dividers s i)\<rparr>))"

definition pll_tick :: "pll \<Rightarrow> pll" where
  "pll_tick s =
     (case elapse s of (elapsed, s) \<Rightarrow>
        tick_go (tick_lock_wait elapsed (tick_reset_age elapsed
          (s\<lparr>oscin_cycles := oscin_cycles s + ucast elapsed\<rparr>))))"

section \<open>Registers\<close>

definition pll_read :: "pll \<Rightarrow> u32 \<Rightarrow> u32 option" where
  "pll_read s address =
     (if address = 0x01C11138 then Some (pll_command s)
      else if address = 0x01C1113C then Some (4 OR c_bool (go_remaining s \<noteq> 0))
      else map_option (pll_config s) (index_of address))"

text \<open>The checks of a PLLCTL write, on the value with its reserved bits forced to one.\<close>

definition pllctl_rejected :: "pll \<Rightarrow> u32 \<Rightarrow> bool" where
  "pllctl_rejected s v \<longleftrightarrow>
     v AND 1 \<noteq> 0 \<and> (v AND 0x129 \<noteq> 0x109 \<or> reset_age s < 17 \<or> \<not> valid_operating_point s) \<or>
     v AND 8 \<noteq> 0 \<and> (v AND 0x122 \<noteq> 0x100 \<or> reset_age s < 17 \<or> \<not> valid_operating_point s \<or>
       pll_config s 0 AND 8 \<noteq> 0 \<and> (v XOR pll_config s 0) AND NOT 1 \<noteq> 0)"

definition pll_mask :: "nat \<Rightarrow> u32" where
  "pll_mask i = (if i = 0 then 0x1FB else if i \<le> 2 then 31 else 0x801F)"

text \<open>The effect of a PLLCTL write before the register itself changes.\<close>

definition commit_pllctl :: "u32 \<Rightarrow> pll \<Rightarrow> pll" where
  "commit_pllctl v s =
     (let old = pll_config s 0;
          enable = v AND 1 \<noteq> 0 \<and> old AND 1 = 0;
          s = (if v AND 8 \<noteq> 0 \<and> old AND 8 = 0 then s\<lparr>lock_wait_remaining := the (lock_wait s)\<rparr> else s);
          s = (if v AND 8 = 0 then s\<lparr>lock_wait_remaining := 0\<rparr> else s);
          s = (if v AND 0x122 \<noteq> 0x100 \<or> v AND 8 = 0 \<and> old AND 8 \<noteq> 0 then s\<lparr>reset_age := 0\<rparr> else s);
          s = (if (v XOR old) AND 1 \<noteq> 0 then s\<lparr>oscin_phase := 0\<rparr> else s)
      in if enable \<and> lock_wait_remaining s \<noteq> 0 then s\<lparr>early_enable := True\<rparr> else s)"

definition pll_commit :: "nat \<Rightarrow> u32 \<Rightarrow> pll \<Rightarrow> pll" where
  "pll_commit i v s =
     (let s = (if i = 0 then commit_pllctl v s else s);
          s = s\<lparr>pll_config := (pll_config s)(i := v)\<rparr>
      in if i = 0 \<and> v AND 16 = 0 then s\<lparr>legacy_bit4_used := True\<rparr> else s)"

definition pll_go :: "u64 \<Rightarrow> pll \<Rightarrow> pll" where
  "pll_go v s =
     (let s = s\<lparr>pll_command := ucast v\<rparr>
      in if v \<noteq> 0 then
           s\<lparr>target_dividers := (\<lambda>d. if d < 7 then pll_config s (divider_index ! d) else target_dividers s d),
             go_remaining := 8\<rparr>
         else s)"

definition pll_write :: "pll \<Rightarrow> u32 \<Rightarrow> u64 \<Rightarrow> nat \<Rightarrow> bool \<Rightarrow> pll option" where
  "pll_write s address v sz commit =
     (if address = 0x01C11138 then
        (if sz \<noteq> 4 \<or> v > 1 \<or> (v \<noteq> 0 \<and> go_remaining s \<noteq> 0) then None
         else Some (if commit then pll_go v s else s))
      else
        (case index_of address of None \<Rightarrow> None
         | Some i \<Rightarrow>
             if sz \<noteq> 4 \<or> v > 0xFFFFFFFF then None
             else if go_remaining s \<noteq> 0 then None
             else if v AND ucast (NOT (pll_mask i)) \<noteq> 0 then None
             else if i \<noteq> 0 \<and> pll_config s 0 AND 8 \<noteq> 0 \<and> i \<notin> {4, 5, 6, 9, 10, 11, 12} then None
             else
               (let w = (if i = 0 then ucast v OR 0xC0 else ucast v :: u32)
                in if i = 0 \<and> pllctl_rejected s w then None
                   else if i = 1 \<and> w \<noteq> 0x14 \<and> w \<noteq> 0x1F \<and> (w < 0x17 \<or> w > 0x1D) then None
                   else Some (if commit then pll_commit i w s else s))))"

section \<open>Operating points and the lock wait\<close>

lemma and_31_le: "unat ((w :: u32) AND 31) \<le> 31"
proof -
  have "w AND 31 = take_bit 5 w" by (simp add: and_mask_numerals)
  then show ?thesis using take_bit_nat_less_exp [of 5 "unat w"] by (simp add: unsigned_take_bit_eq)
qed

lemma ratio_bounds: "1 \<le> unat (ratio w) \<and> unat (ratio w) \<le> 32"
proof -
  have l: "unat (w AND 31) \<le> 31" by (rule and_31_le)
  then have "unat ((w AND 31) + 1) = unat (w AND 31) + 1"
    by (intro unat_add_lem [THEN iffD1, THEN trans]) simp_all
  then show ?thesis using l by (simp add: ratio_def)
qed

text \<open>With the board's oscillator, the datasheet limits leave PREDIV at one and PLLM + 1 in 18..32.\<close>

lemma valid_operating_point_iff:
  "valid_operating_point s \<longleftrightarrow> ratio (pll_config s 3) = 1 \<and> 18 \<le> unat (pll_config s 2 + 1) \<and> unat (pll_config s 2 + 1) \<le> 32"
proof -
  define n m where "n = ratio (pll_config s 3)" and "m = pll_config s 2 + 1"
  obtain k where k: "n = of_nat k" "1 \<le> k" "k \<le> 32" by (rule that [of "unat n"]) (use ratio_bounds [of "pll_config s 3"] in \<open>simp_all add: n_def\<close>)
  have u: "unat n = k" using k by (simp add: unat_of_nat)
  have a: "(12000000 * n \<le> 16934400) = (k = 1)" "(16934400 \<le> 50000000 * n) = True"
    unfolding word_le_nat_alt k(1) using k(2,3) by (simp_all add: unat_word_ariths unat_of_nat, presburger)
  have mm: "m \<le> 32 \<longleftrightarrow> unat m \<le> 32" "4 \<le> m \<longleftrightarrow> 4 \<le> unat m" by (simp_all add: word_le_nat_alt)
  have b: "(300000000 * (ucast n :: u64) \<le> 16934400 * ucast m) = (18 \<le> unat m)"
    "(16934400 * (ucast m :: u64) \<le> 600000000 * ucast n) = (unat m \<le> 35)" if "k = 1" "unat m \<le> 32"
    using that u unfolding word_le_nat_alt by (simp_all add: unat_word_ariths unat_widen k(1)) arith+
  have n1: "n = 1 \<longleftrightarrow> k = 1" using u by (simp add: word_unat_eq_iff)
  show ?thesis
    unfolding valid_operating_point_def Let_def n_def [symmetric] m_def [symmetric]
    using a mm b n1 by auto
qed

lemma while_search:
  assumes "\<And>k. k < t \<Longrightarrow> b (of_nat k)" "\<not> b (of_nat t)"
  shows "j \<le> t \<Longrightarrow> while_option b (\<lambda>w. w + 1) (of_nat j :: u32) = Some (of_nat t)"
proof (induction "t - j" arbitrary: j)
  case 0
  then show ?case using assms(2) by (simp add: while_option_unfold)
next
  case (Suc d)
  have "while_option b (\<lambda>w. w + 1) (of_nat (Suc j) :: u32) = Some (of_nat t)"
    using Suc by (intro Suc.hyps(1)) auto
  moreover have "b (of_nat j)" using Suc assms(1) by simp
  ultimately show ?case by (subst while_option_unfold) (simp add: add.commute)
qed

text \<open>C16: at every operating point the search for the lock wait ends, and finds the least number of
  oscillator periods that is at least 2000 N / sqrt M.\<close>

theorem lock_wait_least:
  assumes "valid_operating_point s"
  shows "\<exists>w. lock_wait s = Some w \<and> unat w \<le> 472 \<and>
    2000 ^ 2 \<le> unat w ^ 2 * unat (pll_config s 2 + 1) \<and>
    (\<forall>k<unat w. k ^ 2 * unat (pll_config s 2 + 1) < 2000 ^ 2)"
proof -
  define m where "m = unat (pll_config s 2 + 1)"
  have m: "18 \<le> m" "m \<le> 32" and n: "ratio (pll_config s 3) = 1"
    using assms unfolding valid_operating_point_iff m_def by auto
  define t where "t = (LEAST k. 2000 ^ 2 \<le> k ^ 2 * m)"
  have e: "(2000 :: nat) ^ 2 \<le> 472 ^ 2 * m" using m by simp
  have t: "2000 ^ 2 \<le> t ^ 2 * m" "t \<le> 472" unfolding t_def by (rule LeastI, rule e) (rule Least_le, rule e)
  have below: "k ^ 2 * m < 2000 ^ 2" if "k < t" for k using not_less_Least [OF that [unfolded t_def]] by simp
  have b: "((ucast (of_nat k :: u32) :: u64) * ucast (of_nat k :: u32) * ucast (pll_config s 2 + 1) < 4000000) = (k ^ 2 * m < 2000 ^ 2)"
    if "k \<le> 472" for k
  proof -
    have "k * k * m \<le> 472 * 472 * 32" using that m by (intro mult_le_mono) auto
    moreover have "k * k \<le> 472 * 472" using that by (intro mult_le_mono)
    moreover have "unat (ucast (of_nat k :: u32) :: u64) = k" using that by (simp add: unat_widen unat_of_nat)
    moreover have "unat (ucast (pll_config s 2 + 1) :: u64) = m" by (simp add: unat_widen m_def)
    ultimately show ?thesis by (simp add: word_less_nat_alt unat_word_ariths power2_eq_square)
  qed
  have "while_option (\<lambda>w. (ucast w :: u64) * ucast w * ucast (pll_config s 2 + 1) < 4000000) (\<lambda>w. w + 1) (of_nat 0 :: u32)
      = Some (of_nat t)"
    by (rule while_search) (use t below b in \<open>auto simp: not_less\<close>)
  then have "lock_wait s = Some (of_nat t)" by (simp add: lock_wait_def n)
  moreover have "unat (of_nat t :: u32) = t" using t(2) by (simp add: unat_of_nat)
  ultimately show ?thesis using t below unfolding m_def by auto
qed

lemma lock_wait_least_witness: "\<exists>w. lock_wait (pll_reset\<lparr>pll_config := (pll_config pll_reset)(2 := 0x16)\<rparr>) = Some w \<and> unat w \<le> 472"
proof -
  have "valid_operating_point (pll_reset\<lparr>pll_config := (pll_config pll_reset)(2 := 0x16)\<rparr>)" by code_simp
  from lock_wait_least [OF this] show ?thesis by blast
qed

section \<open>Reachable controllers\<close>

inductive pll_reach :: "pll \<Rightarrow> bool" where
  start: "pll_reach pll_reset"
| cycle: "pll_reach s \<Longrightarrow> pll_reach (pll_tick s)"
| store: "pll_reach s \<Longrightarrow> pll_write s a v n c = Some s' \<Longrightarrow> pll_reach s'"

text \<open>Out of reset the PLL is powered, clocked by the oscillator and inside its operating limits; it is
  selected only out of reset; and the phase remainder is inside one oscillator period.\<close>

definition pll_inv :: "pll \<Rightarrow> bool" where
  "pll_inv s \<longleftrightarrow>
     (pll_config s 0 AND 8 \<noteq> 0 \<longrightarrow> pll_config s 0 AND 0x122 = 0x100 \<and> valid_operating_point s) \<and>
     (pll_config s 0 AND 1 \<noteq> 0 \<longrightarrow> pll_config s 0 AND 0x129 = 0x109 \<and> oscin_phase s < cycle_denominator s) \<and>
     (pll_config s 0 AND 1 = 0 \<longrightarrow> oscin_phase s = 0) \<and>
     unat (go_remaining s) \<le> 8 \<and> unat (reset_age s) \<le> 17"

lemma and_submask: "(v :: u32) AND m = p \<Longrightarrow> q AND m = q \<Longrightarrow> v AND q = p AND q"
  by (metis and.assoc and.commute)

lemma enabled_bits: "(v :: u32) AND 0x129 = 0x109 \<Longrightarrow> v AND 8 = 8 \<and> v AND 1 = 1"
  using and_submask [of v "0x129" "0x109" 8] and_submask [of v "0x129" "0x109" 1] by simp

text \<open>What a tick and a commit leave alone.\<close>

lemma tick_parts:
  "pll_config (tick_go s) = pll_config s" "oscin_phase (tick_go s) = oscin_phase s" "reset_age (tick_go s) = reset_age s"
  "oscin_cycles (tick_go s) = oscin_cycles s"
  "pll_config (tick_lock_wait e s) = pll_config s" "oscin_phase (tick_lock_wait e s) = oscin_phase s"
  "reset_age (tick_lock_wait e s) = reset_age s" "go_remaining (tick_lock_wait e s) = go_remaining s"
  "active_dividers (tick_lock_wait e s) = active_dividers s" "target_dividers (tick_lock_wait e s) = target_dividers s"
  "oscin_cycles (tick_lock_wait e s) = oscin_cycles s"
  "pll_config (tick_reset_age e s) = pll_config s" "oscin_phase (tick_reset_age e s) = oscin_phase s"
  "go_remaining (tick_reset_age e s) = go_remaining s" "active_dividers (tick_reset_age e s) = active_dividers s"
  "target_dividers (tick_reset_age e s) = target_dividers s" "oscin_cycles (tick_reset_age e s) = oscin_cycles s"
  by (simp_all add: tick_go_def tick_lock_wait_def tick_reset_age_def Let_def)

lemma tick_regs:
  "pll_config (pll_tick s) = pll_config s"
  "active_dividers (pll_tick s) = (\<lambda>i. if go_remaining s = 1 \<and> i < 7 then target_dividers s i else active_dividers s i)"
  "target_dividers (pll_tick s) = target_dividers s"
  "go_remaining (pll_tick s) = (if go_remaining s = 0 then 0 else go_remaining s - 1)"
  "oscin_phase (pll_tick s) = (if pll_config s 0 AND 1 \<noteq> 0
     then (oscin_phase s + cycle_numerator s) mod cycle_denominator s else 0)"
  "oscin_cycles (pll_tick s) = oscin_cycles s + ucast (fst (elapse s))"
proof -
  have e: "go_remaining (snd (elapse s)) = go_remaining s" "active_dividers (snd (elapse s)) = active_dividers s"
    "target_dividers (snd (elapse s)) = target_dividers s" "pll_config (snd (elapse s)) = pll_config s"
    "oscin_cycles (snd (elapse s)) = oscin_cycles s"
    "oscin_phase (snd (elapse s)) = (if pll_config s 0 AND 1 \<noteq> 0
     then (oscin_phase s + cycle_numerator s) mod cycle_denominator s else 0)"
    by (simp_all add: elapse_def Let_def)
  have g: "go_remaining (tick_go u) = (if go_remaining u = 0 then 0 else go_remaining u - 1)"
    "active_dividers (tick_go u) = (\<lambda>i. if go_remaining u = 1 \<and> i < 7 then target_dividers u i else active_dividers u i)"
    "target_dividers (tick_go u) = target_dividers u" for u
    by (auto simp: tick_go_def Let_def fun_eq_iff)
  note d = pll_tick_def prod.case_eq_if tick_parts e g
  show "pll_config (pll_tick s) = pll_config s"
    "active_dividers (pll_tick s) = (\<lambda>i. if go_remaining s = 1 \<and> i < 7 then target_dividers s i else active_dividers s i)"
    "target_dividers (pll_tick s) = target_dividers s"
    "go_remaining (pll_tick s) = (if go_remaining s = 0 then 0 else go_remaining s - 1)"
    "oscin_phase (pll_tick s) = (if pll_config s 0 AND 1 \<noteq> 0
     then (oscin_phase s + cycle_numerator s) mod cycle_denominator s else 0)"
    "oscin_cycles (pll_tick s) = oscin_cycles s + ucast (fst (elapse s))"
    by (simp_all add: d cong: if_cong)
qed

lemma tick_age: "unat (reset_age s) \<le> 17 \<Longrightarrow> unat (reset_age (pll_tick s)) \<le> 17"
proof -
  assume a: "unat (reset_age s) \<le> 17"
  have "unat (reset_age (tick_reset_age e u)) \<le> 17" if "unat (reset_age u) \<le> 17" for e u
    using that by (auto simp: tick_reset_age_def word_less_nat_alt not_less)
  moreover have "reset_age (snd (elapse s)) = reset_age s" by (simp add: elapse_def Let_def)
  ultimately show ?thesis using a by (simp add: pll_tick_def prod.case_eq_if tick_parts)
qed

lemma valid_point_cong:
  "pll_config s 2 = pll_config t 2 \<Longrightarrow> pll_config s 3 = pll_config t 3 \<Longrightarrow> valid_operating_point s = valid_operating_point t"
  by (simp add: valid_operating_point_def)

lemma denominator_pos: "valid_operating_point s \<Longrightarrow> 0 < cycle_denominator s"
  by (auto simp: valid_operating_point_iff cycle_denominator_def word_less_nat_alt)

lemma inv_tick:
  assumes "pll_inv s"
  shows "pll_inv (pll_tick s)"
proof -
  have v: "valid_operating_point (pll_tick s) = valid_operating_point s" by (rule valid_point_cong) (simp_all only: tick_regs)
  have p: "pll_config s 0 AND 1 \<noteq> 0 \<Longrightarrow> 0 < cycle_denominator s"
    using assms enabled_bits [of "pll_config s 0"] denominator_pos by (auto simp: pll_inv_def)
  have d: "cycle_denominator (pll_tick s) = cycle_denominator s" by (simp add: cycle_denominator_def tick_regs)
  have g: "unat (if go_remaining s = 0 then 0 else go_remaining s - 1) \<le> 8"
    using assms by (auto simp: pll_inv_def unat_minus_one)
  show ?thesis
    using assms p g tick_age [of s] unfolding pll_inv_def v d tick_regs
    by (auto simp: word_less_nat_alt unat_mod)
qed

text \<open>What an accepted store does: a GO command, or a write to one register the checks allow.\<close>

lemma pll_write_cases:
  assumes "pll_write s a v n True = Some s'"
  obtains (go) "a = 0x01C11138" "n = 4" "v \<le> 1" "v \<noteq> 0 \<Longrightarrow> go_remaining s = 0" "s' = pll_go v s"
    | (reg) i w where "index_of a = Some i" "go_remaining s = 0" "s' = pll_commit i w s"
      "i \<noteq> 0 \<Longrightarrow> pll_config s 0 AND 8 \<noteq> 0 \<Longrightarrow> i \<in> {4, 5, 6, 9, 10, 11, 12}" "i = 0 \<Longrightarrow> \<not> pllctl_rejected s w"
  using assms unfolding pll_write_def Let_def by (auto split: if_splits option.splits)

lemma xor_and_1: "(x XOR y) AND 1 \<noteq> (0 :: u32) \<longleftrightarrow> (x AND 1 \<noteq> 0) \<noteq> (y AND 1 \<noteq> 0)"
proof -
  have "(z AND 1 \<noteq> 0) = bit z 0" for z :: u32 using bit_iff_and_push_bit_not_eq_0 [of z 0] by (simp only: push_bit_0_id id_apply)
  then show ?thesis by (simp only: bit_xor_iff)
qed

lemma commit_pllctl_parts:
  "pll_config (commit_pllctl w s) = pll_config s" "go_remaining (commit_pllctl w s) = go_remaining s"
  "oscin_phase (commit_pllctl w s) = (if (w XOR pll_config s 0) AND 1 \<noteq> 0 then 0 else oscin_phase s)"
  "reset_age (commit_pllctl w s) =
     (if w AND 0x122 \<noteq> 0x100 \<or> w AND 8 = 0 \<and> pll_config s 0 AND 8 \<noteq> 0 then 0 else reset_age s)"
  by (simp_all add: commit_pllctl_def Let_def)

lemma pll_commit_parts:
  "pll_config (pll_commit i w s) = (pll_config s)(i := w)" "go_remaining (pll_commit i w s) = go_remaining s"
  "oscin_phase (pll_commit i w s) = (if i = 0 then oscin_phase (commit_pllctl w s) else oscin_phase s)"
  "reset_age (pll_commit i w s) = (if i = 0 then reset_age (commit_pllctl w s) else reset_age s)"
  by (simp_all add: pll_commit_def Let_def commit_pllctl_parts)

lemma inv_commit_0:
  assumes "pll_inv s" "\<not> pllctl_rejected s w"
  shows "pll_inv (pll_commit 0 w s)"
proof -
  have v: "valid_operating_point (pll_commit 0 w s) = valid_operating_point s"
    "cycle_denominator (pll_commit 0 w s) = cycle_denominator s"
    by (rule valid_point_cong) (simp_all add: cycle_denominator_def pll_commit_parts)
  have a: "w AND 8 \<noteq> 0 \<Longrightarrow> w AND 0x122 = 0x100 \<and> valid_operating_point s"
    "w AND 1 \<noteq> 0 \<Longrightarrow> w AND 0x129 = 0x109 \<and> valid_operating_point s"
    using assms(2) unfolding pllctl_rejected_def by blast+
  have r: "unat (reset_age s) \<le> 17" "unat (go_remaining s) \<le> 8" using assms(1) by (simp_all add: pll_inv_def)
  show ?thesis
  proof (cases "w AND 1 = 0")
    case True
    then have "oscin_phase (pll_commit 0 w s) = 0"
      using assms(1) by (auto simp: pll_commit_parts commit_pllctl_parts xor_and_1 pll_inv_def simp del: word_not_simps)
    then show ?thesis
      using a r True unfolding pll_inv_def v by (simp add: pll_commit_parts commit_pllctl_parts)
  next
    case False
    then have "0 < cycle_denominator s" using a(2) denominator_pos by blast
    then have "oscin_phase (pll_commit 0 w s) < cycle_denominator s"
      using assms(1) False by (auto simp: pll_commit_parts commit_pllctl_parts xor_and_1 pll_inv_def)
    then show ?thesis
      using a r False unfolding pll_inv_def v by (simp add: pll_commit_parts commit_pllctl_parts)
  qed
qed

lemma inv_commit_reg:
  assumes inv: "pll_inv s" and i: "i \<noteq> 0" and ok: "pll_config s 0 AND 8 \<noteq> 0 \<Longrightarrow> i \<in> {4, 5, 6, 9, 10, 11, 12}"
  shows "pll_inv (pll_commit i w s)"
proof (cases "pll_config s 0 AND 8 = 0")
  case True
  then have "pll_config s 0 AND 1 = 0"
    using inv enabled_bits [of "pll_config s 0"] by (auto simp: pll_inv_def)
  then show ?thesis using inv i True by (simp add: pll_inv_def pll_commit_parts)
next
  case False
  then have "i \<noteq> 2" "i \<noteq> 3" using ok by auto
  then have "valid_operating_point (pll_commit i w s) = valid_operating_point s"
    by (intro valid_point_cong) (simp_all add: pll_commit_parts)
  moreover have "cycle_denominator (pll_commit i w s) = cycle_denominator s"
    using \<open>i \<noteq> 2\<close> by (simp add: pll_commit_parts cycle_denominator_def)
  ultimately show ?thesis using inv i by (simp add: pll_inv_def pll_commit_parts)
qed

lemma inv_store: "pll_inv s \<Longrightarrow> pll_write s a v n True = Some s' \<Longrightarrow> pll_inv s'"
proof (erule pll_write_cases)
  assume "pll_inv s" "s' = pll_go v s"
  then show "pll_inv s'"
    by (simp add: pll_go_def Let_def pll_inv_def cycle_denominator_def valid_point_cong [of "s\<lparr>pll_command := c, target_dividers := d, go_remaining := g\<rparr>" s for c d g]
      valid_point_cong [of "s\<lparr>pll_command := c\<rparr>" s for c])
next
  fix i w
  assume "pll_inv s" "s' = pll_commit i w s" "i \<noteq> 0 \<Longrightarrow> pll_config s 0 AND 8 \<noteq> 0 \<Longrightarrow> i \<in> {4, 5, 6, 9, 10, 11, 12}"
    "i = 0 \<Longrightarrow> \<not> pllctl_rejected s w"
  then show "pll_inv s'" using inv_commit_0 inv_commit_reg by (cases "i = 0") auto
qed

lemma inv_reset: "pll_inv pll_reset"
  by (simp add: pll_inv_def pll_reset_def pll_defaults_def)

interpretation pll_mmio: mmio_port_inv pll_write pll_inv
proof
  fix s a v n s'
  show "pll_write s a v n False = Some s' \<Longrightarrow> s' = s"
    unfolding pll_write_def Let_def by (auto split: if_splits option.splits)
  show "pll_write s a v n True = None \<longleftrightarrow> pll_write s a v n False = None"
    unfolding pll_write_def Let_def by (cases "index_of a") (simp_all only: option.case if_eq_None option.distinct if_True if_False)
  show "pll_inv s \<Longrightarrow> pll_write s a v n True = Some s' \<Longrightarrow> pll_inv s'" by (rule inv_store)
qed

text \<open>A start of the PLL, for the example: the multiplier is stored, the PLL powered and held in reset for
  seventeen oscillator periods, released, and selected when it has locked.\<close>

definition pll_powered :: pll where
  "pll_powered = the (pll_write (the (pll_write pll_reset 0x01C11110 0x16 4 True)) 0x01C11100 0x110 4 True)"

definition pll_released :: pll where
  "pll_released = the (pll_write ((pll_tick ^^ 17) pll_powered) 0x01C11100 0x118 4 True)"

definition pll_selected :: pll where
  "pll_selected = the (pll_write ((pll_tick ^^ 480) pll_released) 0x01C11100 0x119 4 True)"

lemma tick_config: "pll_config ((pll_tick ^^ k) s) = pll_config s"
  by (induction k) (simp_all add: tick_regs)

lemma tick_idle: "go_remaining s = 0 \<Longrightarrow>
    go_remaining ((pll_tick ^^ k) s) = 0 \<and> active_dividers ((pll_tick ^^ k) s) = active_dividers s"
  by (induction k) (simp_all add: tick_regs)

lemma tick_age_step:
  assumes "pll_config u 0 = 0x1D0" "active_dividers u 0 = 0x8000" "unat (reset_age u) < 17"
  shows "unat (reset_age (pll_tick u)) = Suc (unat (reset_age u))"
proof -
  have e: "elapse u = (1, u\<lparr>oscin_phase := 0\<rparr>)" using assms by (simp add: elapse_def ratio_def)
  have s: "unat (reset_age u + 1) = Suc (unat (reset_age u))"
    using assms(3) by (simp add: unat_word_ariths)
  then show ?thesis
    using assms(1,3) by (auto simp: pll_tick_def e tick_parts tick_reset_age_def word_less_nat_alt)
qed

lemma tick_powered: "k \<le> 17 \<Longrightarrow> unat (reset_age ((pll_tick ^^ k) pll_powered)) = k"
proof (induction k)
  case 0
  have "reset_age pll_powered = 0" by code_simp
  then show ?case by simp
next
  case (Suc k)
  let ?s = "(pll_tick ^^ k) pll_powered"
  have p: "pll_config pll_powered 0 = 0x1D0" "active_dividers pll_powered 0 = 0x8000" "go_remaining pll_powered = 0" by code_simp+
  have "pll_config ?s 0 = 0x1D0" "active_dividers ?s 0 = 0x8000"
    using tick_idle [OF p(3), of k] p by (simp_all add: tick_config)
  then show ?case using Suc tick_age_step [of ?s] by simp
qed

lemma pll_release:
  assumes "pll_config s 0 = 0x1D0" "pll_config s 2 = 0x16" "ratio (pll_config s 3) = 1" "go_remaining s = 0" "reset_age s = 17"
  shows "\<exists>s'. pll_write s 0x01C11100 0x118 4 True = Some s' \<and> pll_config s' = (pll_config s)(0 := 0x1D8) \<and>
    go_remaining s' = 0 \<and> reset_age s' = 17"
proof -
  have i: "index_of 0x01C11100 = Some 0" by code_simp
  have v: "valid_operating_point s" using assms by (simp add: valid_operating_point_iff)
  show ?thesis
    using assms v by (simp add: pll_write_def i pllctl_rejected_def pll_mask_def pll_commit_def commit_pllctl_def Let_def)
qed

lemma pll_select:
  assumes "pll_config s 0 = 0x1D8" "pll_config s 2 = 0x16" "ratio (pll_config s 3) = 1" "go_remaining s = 0" "reset_age s = 17"
  shows "\<exists>s'. pll_write s 0x01C11100 0x119 4 True = Some s' \<and> pll_config s' = (pll_config s)(0 := 0x1D9)"
proof -
  have i: "index_of 0x01C11100 = Some 0" by code_simp
  have v: "valid_operating_point s" using assms by (simp add: valid_operating_point_iff)
  show ?thesis
    using assms v by (simp add: pll_write_def i pllctl_rejected_def pll_mask_def pll_commit_def commit_pllctl_def Let_def)
qed

lemma age_kept: "pll_config s 0 = 0x1D8 \<Longrightarrow> reset_age (pll_tick s) = reset_age s"
  by (simp add: pll_tick_def elapse_def tick_parts tick_reset_age_def)

lemma pll_selected_reach: "pll_reach pll_selected" "pll_config pll_selected 0 = 0x1D9"
proof -
  have cycles: "pll_reach ((pll_tick ^^ k) s)" if "pll_reach s" for s k
    using that by (induction k) (auto intro: pll_reach.cycle)
  have p: "pll_config pll_powered 0 = 0x1D0" "pll_config pll_powered 2 = 0x16" "ratio (pll_config pll_powered 3) = 1"
    "go_remaining pll_powered = 0" by code_simp+
  have store: "pll_reach (the (pll_write s a v n c))" if "pll_reach s" "pll_write s a v n c \<noteq> None" for s a v n c
    using that by (auto intro: pll_reach.store)
  have w: "pll_write pll_reset 0x01C11110 0x16 4 True \<noteq> None"
    "pll_write (the (pll_write pll_reset 0x01C11110 0x16 4 True)) 0x01C11100 0x110 4 True \<noteq> None" by code_simp+
  have r0: "pll_reach pll_powered" unfolding pll_powered_def by (intro store pll_reach.start w)
  have "reset_age ((pll_tick ^^ 17) pll_powered) = 17" using tick_powered [of 17] by (simp add: word_unat_eq_iff)
  then obtain u where u: "pll_write ((pll_tick ^^ 17) pll_powered) 0x01C11100 0x118 4 True = Some u"
      "pll_config u = (pll_config pll_powered)(0 := 0x1D8)" "go_remaining u = 0" "reset_age u = 17"
    using pll_release [of "(pll_tick ^^ 17) pll_powered"] p tick_idle [OF p(4), of 17] by (auto simp: tick_config)
  have age: "reset_age ((pll_tick ^^ k) u) = 17" for k
    by (induction k) (simp_all add: u tick_config age_kept)
  obtain v where v: "pll_write ((pll_tick ^^ 480) u) 0x01C11100 0x119 4 True = Some v" "pll_config v 0 = 0x1D9"
    using pll_select [of "(pll_tick ^^ 480) u"] p u age tick_idle [OF u(3), of 480] by (auto simp: tick_config)
  have "pll_selected = v" by (simp add: pll_selected_def pll_released_def u(1) v(1))
  moreover have "pll_reach v" by (rule pll_reach.store [OF cycles [OF pll_reach.store [OF cycles [OF r0] u(1)]] v(1)])
  ultimately show "pll_reach pll_selected" "pll_config pll_selected 0 = 0x1D9" using v(2) by simp_all
qed

text \<open>C19: in every controller reached from reset by cycles and stores, checked or committed, a PLL out of
  reset is powered, fed by the oscillator and inside the datasheet's limits, the PLL is selected only out
  of reset with the software-selected source, and the phase remainder stays below one oscillator period.\<close>

theorem pll_reachable_operating_point:
  "pll_reach s \<Longrightarrow>
     (pll_config s 0 AND 8 \<noteq> 0 \<longrightarrow> pll_config s 0 AND 0x122 = 0x100 \<and> valid_operating_point s) \<and>
     (pll_config s 0 AND 1 \<noteq> 0 \<longrightarrow> pll_config s 0 AND 0x129 = 0x109 \<and> oscin_phase s < cycle_denominator s)"
proof -
  have "pll_reach s \<Longrightarrow> pll_inv s"
    by (induction rule: pll_reach.induct) (auto intro: inv_reset inv_tick pll_mmio.inv_any)
  then show "pll_reach s \<Longrightarrow> ?thesis" by (simp add: pll_inv_def)
qed

lemma pll_reachable_operating_point_witness:
  "\<exists>s. pll_reach s \<and> pll_config s 0 = 0x1D9 \<and> pll_config s 0 AND 0x122 = 0x100 \<and> valid_operating_point s \<and>
     pll_config s 0 AND 0x129 = 0x109 \<and> oscin_phase s < cycle_denominator s"
  using pll_reachable_operating_point [OF pll_selected_reach(1)] pll_selected_reach by (intro exI [of _ pll_selected]) simp

section \<open>The divider command\<close>

text \<open>A GO command is a countdown whose visible state is the dividers in effect.\<close>

definition pll_view :: "pll \<Rightarrow> nat \<Rightarrow> u32" where
  "pll_view s i = (if i < 7 then active_dividers s i else 0)"

definition pll_goal :: "pll \<Rightarrow> nat \<Rightarrow> u32" where
  "pll_goal s i = (if i < 7 then target_dividers s i else 0)"

lemma go_remaining_1: "unat (go_remaining s) = 1 \<longleftrightarrow> go_remaining s = 1"
  by (simp add: word_unat_eq_iff)

interpretation pll_go: countdown "\<lambda>s. unat (go_remaining s)" pll_tick pll_view pll_goal
proof
  fix s n
  show "unat (go_remaining s) = Suc n \<Longrightarrow> unat (go_remaining (pll_tick s)) = n"
    by (auto simp: tick_regs unat_minus_one)
  show "unat (go_remaining s) \<noteq> 1 \<Longrightarrow> pll_view (pll_tick s) = pll_view s"
    unfolding go_remaining_1 by (simp add: pll_view_def tick_regs fun_eq_iff)
  show "1 < unat (go_remaining s) \<Longrightarrow> pll_goal (pll_tick s) = pll_goal s"
    by (simp add: pll_goal_def tick_regs fun_eq_iff)
  show "unat (go_remaining s) = 1 \<Longrightarrow> pll_view (pll_tick s) = pll_goal s"
    unfolding go_remaining_1 by (simp add: pll_view_def pll_goal_def tick_regs fun_eq_iff)
  show "unat (go_remaining s) = 0 \<Longrightarrow> unat (go_remaining (pll_tick s)) = 0"
    by (simp add: tick_regs unsigned_eq_0_iff)
qed

text \<open>a GO command takes effect at the eighth core cycle. Until then the dividers in effect stay, the
  status register reads GO busy and every register and command write is refused; then each of the seven
  dividers is what its register held when the command was given, and the status reads idle.\<close>

theorem pll_go_eight_cycles:
  assumes "pll_write s 0x01C11138 1 4 True = Some s'"
  shows "(\<forall>k<8. let t = (pll_tick ^^ k) s' in
      (\<forall>i<7. active_dividers t i = active_dividers s i) \<and> pll_read t 0x01C1113C = Some 5 \<and>
      (\<forall>a v n. (a = 0x01C11138 \<longrightarrow> v \<noteq> 0) \<longrightarrow> pll_write t a v n True = None)) \<and>
    (let t = (pll_tick ^^ 8) s' in
      (\<forall>i<7. active_dividers t i = pll_config s (divider_index ! i)) \<and> pll_read t 0x01C1113C = Some 4)"
proof -
  have s': "s' = pll_go 1 s" using assms by (simp add: pll_write_def split: if_splits)
  have go: "unat (go_remaining s') = 8" "go_remaining s' = 8" and view: "pll_view s' = pll_view s"
    and goal: "pll_goal s' i = (if i < 7 then pll_config s (divider_index ! i) else 0)" for i
    by (simp_all add: s' pll_go_def pll_view_def pll_goal_def fun_eq_iff Let_def)
  have busy: "(\<forall>i<7. active_dividers t i = active_dividers s i) \<and> pll_read t 0x01C1113C = Some 5 \<and>
      (\<forall>a v n. (a = 0x01C11138 \<longrightarrow> v \<noteq> 0) \<longrightarrow> pll_write t a v n True = None)"
    if k: "k < 8" and t: "t = (pll_tick ^^ k) s'" for k t
  proof -
    have r: "unat (go_remaining t) = 8 - k" "pll_view t = pll_view s"
      using pll_go.counting [of k s'] k view by (simp_all add: go t)
    then have nz: "go_remaining t \<noteq> 0" using k by auto
    have "\<forall>i<7. active_dividers t i = active_dividers s i"
      using r(2) unfolding pll_view_def fun_eq_iff by metis
    moreover have "pll_read t 0x01C1113C = Some 5" using nz by (simp add: pll_read_def)
    moreover have "pll_write t a v n True = None" if "a = 0x01C11138 \<longrightarrow> v \<noteq> 0" for a v n
      using nz that unfolding pll_write_def
      by (cases "index_of a") (simp_all only: option.case if_eq_None simp_thms if_cancel if_True if_False, auto)
    ultimately show ?thesis by blast
  qed
  have "pll_view ((pll_tick ^^ 8) s') = pll_goal s'" "unat (go_remaining ((pll_tick ^^ 8) s')) = 0"
    using pll_go.completes [of s'] unfolding go by simp_all
  moreover from this(1) have "\<forall>i<7. active_dividers ((pll_tick ^^ 8) s') i = pll_config s (divider_index ! i)"
    using goal unfolding pll_view_def fun_eq_iff by metis
  ultimately show ?thesis using busy by (simp add: Let_def pll_read_def unsigned_eq_0_iff)
qed

lemma pll_go_eight_cycles_witness:
  "\<exists>s'. pll_write pll_reset 0x01C11138 1 4 True = Some s' \<and> pll_read ((pll_tick ^^ 8) s') 0x01C1113C = Some 4"
proof -
  obtain s' where s': "pll_write pll_reset 0x01C11138 1 4 True = Some s'"
    by (simp add: pll_write_def pll_reset_def)
  from pll_go_eight_cycles [OF this] s' show ?thesis by (auto simp: Let_def)
qed

section \<open>Clocks\<close>

text \<open>With the registers at rest, the oscillator count and the phase are the exact fraction of the
  cycles executed.\<close>

definition registers_of :: "pll \<Rightarrow> (nat \<Rightarrow> u32) \<times> (nat \<Rightarrow> u32)" where
  "registers_of s = (pll_config s, active_dividers s)"

lemma elapse_pll:
  assumes "pll_config s 0 AND 1 \<noteq> 0" "oscin_phase s < cycle_denominator s"
    and "unat (pll_config s 2 + 1) \<le> 32" "0 < unat (cycle_denominator s)"
  shows "unat (fst (elapse s)) * unat (cycle_denominator s) + unat (oscin_phase (pll_tick s)) =
    unat (oscin_phase s) + unat (cycle_numerator s) \<and> unat (cycle_numerator s) \<le> 32768"
proof -
  have m: "a \<le> 32 \<Longrightarrow> b \<le> 32 \<Longrightarrow> c \<le> 32 \<Longrightarrow> a * b * c \<le> (32768 :: nat)" for a b c
    using mult_le_mono [OF mult_le_mono, of a 32 b 32 c 32] by simp
  have m2: "a \<le> 32 \<Longrightarrow> b \<le> 32 \<Longrightarrow> a * b \<le> (1024 :: nat)" for a b
    using mult_le_mono [of a 32 b 32] by simp
  note r = ratio_bounds [of "pll_config s 3"] ratio_bounds [of "pll_config s 8"] ratio_bounds [of "active_dividers s 0"]
  define a b c where "a = unat (ratio (pll_config s 3))" and "b = unat (ratio (pll_config s 8))"
    and "c = unat (ratio (active_dividers s 0))"
  have abc: "a * b * c \<le> 32768" "a * b \<le> 1024" using r m m2 by (simp_all add: a_def b_def c_def)
  then have n: "unat (cycle_numerator s) = a * b * c"
    by (simp add: cycle_numerator_def unat_word_ariths a_def [symmetric] b_def [symmetric] c_def [symmetric])
  have "unat (oscin_phase s) < 32" using assms by (simp add: word_less_nat_alt cycle_denominator_def)
  then have "unat (oscin_phase s + cycle_numerator s) = unat (oscin_phase s) + unat (cycle_numerator s)"
    using abc by (simp add: unat_word_ariths n)
  then show ?thesis
    using assms abc n by (simp add: elapse_def Let_def tick_regs unat_div unat_mod)
qed

text \<open>C17: over any stretch of core cycles in PLL mode with no divider command under way, the oscillator
  count and the phase remainder are together the exact count: after \<open>k\<close> cycles they have advanced by
  \<open>k\<close> times PREDIV POSTDIV PLLDIV1 over PLLM + 1, with no drift however long the stretch.\<close>

theorem pll_clock_exact:
  assumes "pll_inv s" "pll_config s 0 AND 1 \<noteq> 0" "go_remaining s = 0"
    and room: "unat (oscin_cycles s) + k * 32799 < 2 ^ 64"
  shows "let t = (pll_tick ^^ k) s in
    unat (oscin_cycles t) * unat (cycle_denominator s) + unat (oscin_phase t) =
      unat (oscin_cycles s) * unat (cycle_denominator s) + unat (oscin_phase s) + k * unat (cycle_numerator s) \<and>
    oscin_phase t < cycle_denominator s \<and> pll_config t = pll_config s \<and> active_dividers t = active_dividers s"
proof -
  define d where "d = unat (cycle_denominator s)"
  have c: "18 \<le> d" "d \<le> 32"
    using assms(1,2) enabled_bits [of "pll_config s 0"]
    by (auto simp: pll_inv_def valid_operating_point_iff cycle_denominator_def d_def)
  have "unat (oscin_cycles ((pll_tick ^^ k) s)) * d + unat (oscin_phase ((pll_tick ^^ k) s)) =
      unat (oscin_cycles s) * d + unat (oscin_phase s) + k * unat (cycle_numerator s) \<and>
    pll_inv ((pll_tick ^^ k) s) \<and> pll_config ((pll_tick ^^ k) s) = pll_config s \<and>
    active_dividers ((pll_tick ^^ k) s) = active_dividers s \<and> go_remaining ((pll_tick ^^ k) s) = 0 \<and>
    unat (oscin_cycles ((pll_tick ^^ k) s)) \<le> unat (oscin_cycles s) + k * 32799"
    if "unat (oscin_cycles s) + k * 32799 < 2 ^ 64" for k
    using that
  proof (induction k)
    case 0
    then show ?case using assms by simp
  next
    case (Suc k)
    define t where "t = (pll_tick ^^ k) s"
    have t: "unat (oscin_cycles t) * d + unat (oscin_phase t) =
      unat (oscin_cycles s) * d + unat (oscin_phase s) + k * unat (cycle_numerator s)"
      "pll_inv t" "pll_config t = pll_config s" "active_dividers t = active_dividers s" "go_remaining t = 0"
      "unat (oscin_cycles t) \<le> unat (oscin_cycles s) + k * 32799"
      using Suc unfolding t_def by auto
    have n: "cycle_numerator t = cycle_numerator s" "cycle_denominator t = cycle_denominator s"
      by (simp_all add: cycle_numerator_def cycle_denominator_def t)
    have ph: "oscin_phase t < cycle_denominator t" using t(2,3) assms(2) by (simp add: pll_inv_def)
    have e: "unat (fst (elapse t)) * d + unat (oscin_phase (pll_tick t)) = unat (oscin_phase t) + unat (cycle_numerator s)"
      "unat (cycle_numerator s) \<le> 32768"
      using elapse_pll [of t] ph t(3) assms(2) c by (auto simp: n d_def) (simp_all add: cycle_denominator_def)
    have "unat (oscin_phase t) < d" using ph by (simp add: n d_def word_less_nat_alt)
    then have "unat (fst (elapse t)) * d \<le> 32799" using e c by linarith
    then have el: "unat (fst (elapse t)) \<le> 32799" using c by (cases d) auto
    then have cy: "unat (oscin_cycles (pll_tick t)) = unat (oscin_cycles t) + unat (fst (elapse t))"
      using t(6) Suc.prems by (simp add: tick_regs unat_word_ariths)
    have "unat (oscin_cycles (pll_tick t)) * d + unat (oscin_phase (pll_tick t)) =
      unat (oscin_cycles s) * d + unat (oscin_phase s) + Suc k * unat (cycle_numerator s)"
      using t(1) e(1) unfolding cy by (simp add: algebra_simps)
    moreover have "active_dividers (pll_tick t) = active_dividers s" "go_remaining (pll_tick t) = 0"
      "pll_config (pll_tick t) = pll_config s"
      using t(3-5) by (simp_all add: tick_regs)
    ultimately show ?case
      using inv_tick [OF t(2)] cy el t(6) by (simp add: t_def)
  qed
  from this [OF room] show ?thesis
    using assms(2) unfolding d_def Let_def by (auto simp: pll_inv_def cycle_denominator_def)
qed

text \<open>A controller in PLL mode at a multiplier of 23.\<close>

definition pll_at_23 :: pll where
  "pll_at_23 = pll_reset\<lparr>pll_config := (pll_config pll_reset)(0 := 0x1D9, 2 := 0x16), reset_age := 17\<rparr>"

lemma pll_at_23: "pll_inv pll_at_23" "pll_config pll_at_23 0 AND 1 \<noteq> 0" "go_remaining pll_at_23 = 0"
  "oscin_cycles pll_at_23 = 0" "oscin_phase pll_at_23 = 0" "cycle_denominator pll_at_23 = 23" "cycle_numerator pll_at_23 = 2"
  by code_simp+

lemma pll_clock_exact_witness:
  "unat (oscin_cycles ((pll_tick ^^ 23000) pll_at_23)) * 23 + unat (oscin_phase ((pll_tick ^^ 23000) pll_at_23)) = 46000"
  using pll_clock_exact [OF pll_at_23(1-3), of 23000] by (simp add: Let_def pll_at_23)

text \<open>the advertised SYSCLK1 is the clock the model counts: in PLL mode the fraction is computed without
  overflow and the oscillator periods of one core cycle are exactly OSCIN over SYSCLK1, with the PLL output
  between 304 and 542 MHz; in bypass SYSCLK1 is OSCIN over its divider, the periods of a bypassed cycle.\<close>

theorem pll_sysclk1_agrees_with_cycles:
  assumes "pll_inv s" "pll_sysclk_hz s 1 = Some (num, den)"
  shows "if pll_config s 0 AND 1 \<noteq> 0
    then unat num = 16934400 * unat (cycle_denominator s) \<and> den = cycle_numerator s \<and>
      304000000 \<le> unat num \<and> unat num \<le> 542000000
    else unat num = 16934400 \<and> den = fst (elapse s)"
proof -
  have r: "enabled_ratio w = Some x \<Longrightarrow> ratio w = x" for w x
    by (auto simp: enabled_ratio_def ratio_def split: if_splits)
  show ?thesis
  proof (cases "pll_config s 0 AND 1 = 0")
    case True
    then show ?thesis using assms(2) r by (auto simp: pll_sysclk_hz_def elapse_def split: option.splits)
  next
    case False
    then have m: "18 \<le> unat (cycle_denominator s)" "unat (cycle_denominator s) \<le> 32"
      using assms(1) enabled_bits [of "pll_config s 0"]
      by (auto simp: pll_inv_def valid_operating_point_iff cycle_denominator_def)
    have num: "num = 16934400 * ucast (cycle_denominator s)" and den: "den = cycle_numerator s"
      using assms(2) False by (auto simp: pll_sysclk_hz_def cycle_denominator_def cycle_numerator_def dest!: r split: option.splits)
    have "unat num = 16934400 * unat (cycle_denominator s)"
      using m(2) unfolding num by (simp add: unat_word_ariths)
    then show ?thesis using False den m by simp
  qed
qed

lemma pll_sysclk1_agrees_with_cycles_witness:
  "\<exists>num. pll_sysclk_hz pll_at_23 1 = Some (num, 2) \<and> unat num = 389491200"
proof -
  have "pll_sysclk_hz pll_at_23 1 = Some (389491200, 2)" by code_simp
  from pll_sysclk1_agrees_with_cycles [OF pll_at_23(1) this] this show ?thesis by (simp add: pll_at_23)
qed

end
