(* ===== verification/Nxs_Board.thy ===== *)
theory Nxs_Board
  imports C6747_Edma_Invariant C6747_Edma_Simulation C6747_Mcasp C6747_Cache C6747_Emifb C6747_Intc C6747_Timer C6747_Pll
begin

text \<open>
  \<^verbatim>\<open>emulator/qemu/cdj2000_nxs_hpi.c\<close>: the DSP side of the NXS board. The memories and the
  translation of DSP addresses to them, the DMA transaction that stages its writes until
  the whole service has succeeded, the service of the serial ports' DMA requests, and the
  delivery of timer and DMA events to the interrupt controller.

  A C pointer into one of the memories is its region and offset. Allocation is taken to
  succeed, and the transmit capture file is not open.
\<close>

section \<open>Memories\<close>

datatype region = L1D_RAM | L2_RAM | SHARED_RAM | SDRAM

type_synonym memory = "region \<Rightarrow> nat \<Rightarrow> u8"

abbreviation (input) L2_BASE :: u32 where "L2_BASE \<equiv> 0x11800000"
abbreviation (input) L2_SIZE :: u32 where "L2_SIZE \<equiv> 0x40000"
abbreviation (input) SHARED_RAM_BASE :: u32 where "SHARED_RAM_BASE \<equiv> 0x80000000"
abbreviation (input) SHARED_RAM_SIZE :: u32 where "SHARED_RAM_SIZE \<equiv> 0x20000"
abbreviation (input) SDRAM_BASE :: u32 where "SDRAM_BASE \<equiv> 0xC0000000"
abbreviation (input) SDRAM_SIZE :: u32 where "SDRAM_SIZE \<equiv> 0x02000000"

definition region_size :: "region \<Rightarrow> nat" where
  "region_size r = (case r of L1D_RAM \<Rightarrow> 0x8000 | L2_RAM \<Rightarrow> 0x40000 | SHARED_RAM \<Rightarrow> 0x20000 | SDRAM \<Rightarrow> 0x02000000)"

text \<open>The parts of the board state these functions use.\<close>

record board =
  memory :: memory
  bd_cache :: cache
  bd_emifb :: emifb
  bd_edma :: edma
  bd_mcasp :: mcasp_control
  bd_intc :: intc
  bd_delivery :: u32
  bd_timers :: timers
  bd_pll :: pll

definition dsp_memory_span :: "board \<Rightarrow> u32 \<Rightarrow> u64 \<Rightarrow> (region \<times> nat) option" where
  "dsp_memory_span s address sz =
     (let fin = ucast address + sz
      in if sz = 0 \<or> fin > 0x100000000 then None
         else case l1d_sram_span (bd_cache s) address sz of Some off \<Rightarrow> Some (L1D_RAM, unat off)
         | None \<Rightarrow>
             if address \<ge> L2_BASE \<and> fin \<le> ucast L2_BASE + ucast L2_SIZE then Some (L2_RAM, unat (address - L2_BASE))
             else if address \<ge> 0x00800000 \<and> fin \<le> 0x00800000 + ucast L2_SIZE then Some (L2_RAM, unat (address - 0x00800000))
             else if address \<ge> SHARED_RAM_BASE \<and> fin \<le> ucast SHARED_RAM_BASE + ucast SHARED_RAM_SIZE then
               Some (SHARED_RAM, unat (address - SHARED_RAM_BASE))
             else map_option (\<lambda>off. (SDRAM, unat off)) (emifb_sdram_offset (bd_emifb s) address sz (ucast SDRAM_SIZE)))"

definition host_memory :: "board \<Rightarrow> u32 \<Rightarrow> (region \<times> nat) option" where
  "host_memory s address =
     (case (if address \<ge> 0x11F00000 then l1d_sram_span (bd_cache s) address 4 else None) of
        Some off \<Rightarrow> Some (L1D_RAM, unat off)
      | None \<Rightarrow>
          if address \<ge> L2_BASE \<and> address \<le> L2_BASE + L2_SIZE - 4 then Some (L2_RAM, unat (address - L2_BASE))
          else if address \<ge> SHARED_RAM_BASE \<and> address \<le> SHARED_RAM_BASE + SHARED_RAM_SIZE - 4 then
            Some (SHARED_RAM, unat (address - SHARED_RAM_BASE))
          else map_option (\<lambda>off. (SDRAM, unat off)) (emifb_sdram_offset (bd_emifb s) address 4 (ucast SDRAM_SIZE)))"

text \<open>Little-endian access to the bytes at a pointer.\<close>

definition load_bytes :: "memory \<Rightarrow> region \<times> nat \<Rightarrow> nat \<Rightarrow> u8 list" where
  "load_bytes m p n = map (\<lambda>i. m (fst p) (snd p + i)) [0..<n]"

definition store_bytes :: "region \<times> nat \<Rightarrow> u8 list \<Rightarrow> memory \<Rightarrow> memory" where
  "store_bytes p bs m =
     m(fst p := \<lambda>a. if snd p \<le> a \<and> a < snd p + length bs then bs ! (a - snd p) else m (fst p) a)"

definition ldl_le :: "u8 list \<Rightarrow> u32" where
  "ldl_le bs = ucast (bs ! 0) OR shl (ucast (bs ! 1)) 8 OR shl (ucast (bs ! 2)) 16 OR shl (ucast (bs ! 3)) 24"

definition le_bytes :: "u64 \<Rightarrow> nat \<Rightarrow> u8 list" where
  "le_bytes v n = map (\<lambda>i. ucast (shr v (8 * i))) [0..<n]"

text \<open>The memory part of the DSP's loads, and of its stores.\<close>

definition ram_read :: "board \<Rightarrow> u32 \<Rightarrow> u32 option" where
  "ram_read s address =
     (let word = (\<lambda>p. Some (ldl_le (load_bytes (memory s) p 4)))
      in if address AND 3 \<noteq> 0 then None
         else case l1d_sram_span (bd_cache s) address 4 of Some off \<Rightarrow> word (L1D_RAM, unat off)
         | None \<Rightarrow>
             if address \<ge> SHARED_RAM_BASE \<and> address \<le> SHARED_RAM_BASE + SHARED_RAM_SIZE - 4 then
               word (SHARED_RAM, unat (address - SHARED_RAM_BASE))
             else case (if address \<ge> SDRAM_BASE \<and> address < 0xE0000000
                        then emifb_sdram_offset (bd_emifb s) address 4 (ucast SDRAM_SIZE) else None) of
               Some off \<Rightarrow> word (SDRAM, unat off)
             | None \<Rightarrow>
                 (let local = (if address \<ge> 0x00800000 \<and> address < 0x00840000 then address + 0x11000000 else address)
                  in if local \<ge> L2_BASE \<and> local \<le> L2_BASE + L2_SIZE - 4 then word (L2_RAM, unat (local - L2_BASE))
                     else None))"

definition dsp_l1d_write :: "board \<Rightarrow> u32 \<Rightarrow> u64 \<Rightarrow> nat \<Rightarrow> bool \<Rightarrow> board option" where
  "dsp_l1d_write s address v sz commit =
     (if sz \<noteq> 1 \<and> sz \<noteq> 2 \<and> sz \<noteq> 4 \<and> sz \<noteq> 8 then None
      else case l1d_sram_span (bd_cache s) address (of_nat sz) of None \<Rightarrow> None
      | Some off \<Rightarrow>
          Some (if commit then s\<lparr>memory := store_bytes (L1D_RAM, unat off) (le_bytes v sz) (memory s)\<rparr> else s))"

definition ram_write :: "board \<Rightarrow> u32 \<Rightarrow> u64 \<Rightarrow> nat \<Rightarrow> bool \<Rightarrow> board option" where
  "ram_write s address v sz commit =
     (let ok = (sz = 1 \<or> sz = 2 \<or> sz = 4 \<or> sz = 8);
          put = (\<lambda>p. Some (if commit then s\<lparr>memory := store_bytes p (le_bytes v sz) (memory s)\<rparr> else s))
      in if ok \<and> address \<ge> SHARED_RAM_BASE \<and> address \<le> SHARED_RAM_BASE + SHARED_RAM_SIZE - of_nat sz then
           put (SHARED_RAM, unat (address - SHARED_RAM_BASE))
         else case (if ok then emifb_sdram_offset (bd_emifb s) address (of_nat sz) (ucast SDRAM_SIZE) else None) of
           Some off \<Rightarrow> put (SDRAM, unat off)
         | None \<Rightarrow>
             (let address = (if address \<ge> 0x00800000 \<and> address < 0x00840000 then address + 0x11000000 else address)
              in if \<not> ok \<or> address < L2_BASE \<or> address > L2_BASE + L2_SIZE - of_nat sz then None
                 else put (L2_RAM, unat (address - L2_BASE))))"

section \<open>The DMA bus\<close>

text \<open>A transaction runs on trial copies: its writes to memory are staged, in order, and seen by its later reads.\<close>

type_synonym staged_write = "(region \<times> nat) \<times> u8 list"

record edma_context =
  writes :: "staged_write list"
  ctx_mcasp :: mcasp_control

definition edma_stage_write :: "edma_context \<Rightarrow> region \<times> nat \<Rightarrow> u8 list \<Rightarrow> edma_context" where
  "edma_stage_write context target bytes = context\<lparr>writes := writes context @ [(target, bytes)]\<rparr>"

definition memcpy_at :: "u8 list \<Rightarrow> nat \<Rightarrow> u8 list \<Rightarrow> u8 list" where
  "memcpy_at bytes k src = take k bytes @ src @ drop (k + length src) bytes"

definition overlay :: "region \<times> nat \<Rightarrow> staged_write \<Rightarrow> u8 list \<Rightarrow> u8 list" where
  "overlay source w bytes =
     (let read_start = snd source; read_end = read_start + length bytes;
          write_start = snd (fst w); write_end = write_start + length (snd w)
      in if fst (fst w) = fst source \<and> write_start < read_end \<and> read_start < write_end then
           (let start = max write_start read_start; fin = min write_end read_end
            in memcpy_at bytes (start - read_start) (take (fin - start) (drop (start - write_start) (snd w))))
         else bytes)"

definition edma_read_bytes :: "board \<Rightarrow> edma_context \<Rightarrow> u32 \<Rightarrow> nat \<Rightarrow> u8 list option" where
  "edma_read_bytes s context address n =
     (case dsp_memory_span s address (of_nat n) of None \<Rightarrow> None
      | Some source \<Rightarrow> Some (fold (overlay source) (writes context) (load_bytes (memory s) source n)))"

definition edma_write_bytes :: "board \<Rightarrow> edma_context \<Rightarrow> u32 \<Rightarrow> u8 list \<Rightarrow> bool \<Rightarrow> bool \<times> edma_context" where
  "edma_write_bytes s context address bytes commit =
     (case dsp_memory_span s address (of_nat (length bytes)) of
        Some target \<Rightarrow> (True, if commit then edma_stage_write context target bytes else context)
      | None \<Rightarrow>
          if length bytes = 4 then
            (case control_write (ctx_mcasp context) address (ucast (ldl_le bytes)) 4 commit of
               Some mcasp \<Rightarrow> (True, context\<lparr>ctx_mcasp := mcasp\<rparr>)
             | None \<Rightarrow> (False, context))
          else (False, context))"

definition trial_bus :: "board \<Rightarrow> edma_context edma_bus" where
  "trial_bus s = \<lparr>bus_read = edma_read_bytes s, bus_write = edma_write_bytes s\<rparr>"

section \<open>Serial port requests\<close>

text \<open>\<open>port\<close> is the serial port state in the client's memory. The serializer loop of one instance: its channel is triggered while it asks for words and each trigger writes one.\<close>

fun service_instance ::
  "('m \<Rightarrow> mcasp_control) \<Rightarrow> 'm edma_bus \<Rightarrow> nat \<Rightarrow> nat \<Rightarrow> nat \<Rightarrow> edma \<Rightarrow> 'm \<Rightarrow> bool \<times> edma \<times> 'm" where
  "service_instance port bus inst channel 0 edma m = (True, edma, m)"
| "service_instance port bus inst channel (Suc k) edma m =
     (if \<not> axevt_ready (port m) inst then (True, edma, m)
      else
        (let before = xbuf_writes (port m) inst
         in case edma_event bus channel edma m of (ok, edma, m) \<Rightarrow>
              if \<not> ok then (False, edma, m)
              else if xbuf_writes (port m) inst = before then (True, edma, m)
              else service_instance port bus inst channel k edma m))"

definition service_mcasp_axevt :: "('m \<Rightarrow> mcasp_control) \<Rightarrow> 'm edma_bus \<Rightarrow> edma \<Rightarrow> 'm \<Rightarrow> bool \<times> edma \<times> 'm" where
  "service_mcasp_axevt port bus edma m =
     (case service_instance port bus 1 3 16 edma m of (ok, edma, m) \<Rightarrow>
        if \<not> ok then (False, edma, m) else service_instance port bus 2 5 16 edma m)"

text \<open>Events for the CPU.\<close>

definition deliver :: "board \<Rightarrow> u32 \<Rightarrow> board" where
  "deliver s event =
     (case intc_deliver_event (bd_intc s) (Some (bd_delivery s)) event of
        Some (intc, Some delivery) \<Rightarrow> s\<lparr>bd_intc := intc, bd_delivery := delivery\<rparr>
      | _ \<Rightarrow> s)"

definition deliver_edma_notifications :: "board \<Rightarrow> board" where
  "deliver_edma_notifications s =
     (case edma_take_irq_notification (bd_edma s) 1 of (ok, edma) \<Rightarrow>
        (let s = s\<lparr>bd_edma := edma\<rparr> in if ok then deliver s 8 else s))"

section \<open>Transactions\<close>

definition apply_writes :: "staged_write list \<Rightarrow> memory \<Rightarrow> memory" where
  "apply_writes ws m = fold (\<lambda>w m. store_bytes (fst w) (snd w) m) ws m"

definition commit_trial :: "board \<Rightarrow> edma \<Rightarrow> edma_context \<Rightarrow> board" where
  "commit_trial s edma context =
     deliver_edma_notifications
       (s\<lparr>memory := apply_writes (writes context) (memory s), bd_edma := edma, bd_mcasp := ctx_mcasp context\<rparr>)"

definition trial_access ::
  "board \<Rightarrow> bool \<Rightarrow> u32 \<Rightarrow> u64 \<Rightarrow> nat \<Rightarrow> bool \<times> edma \<times> edma_context" where
  "trial_access s edma_access address v sz =
     (let context = \<lparr>writes = [], ctx_mcasp = bd_mcasp s\<rparr>
      in if edma_access then edma_write (trial_bus s) address v sz True (bd_edma s) context
         else (case control_write (bd_mcasp s) address v sz True of
             Some mcasp \<Rightarrow> (True, bd_edma s, context\<lparr>ctx_mcasp := mcasp\<rparr>)
           | None \<Rightarrow> (False, bd_edma s, context)))"

definition edma_mcasp_transaction :: "board \<Rightarrow> bool \<Rightarrow> u32 \<Rightarrow> u64 \<Rightarrow> nat \<Rightarrow> bool \<Rightarrow> bool \<times> board" where
  "edma_mcasp_transaction s edma_access address v sz commit =
     (if \<not> (if edma_access then edma_write_mapped address sz else mcasp_control_write_mapped address sz) then (False, s)
      else case trial_access s edma_access address v sz of (ok, edma, context) \<Rightarrow>
        (case (if ok then service_mcasp_axevt ctx_mcasp (trial_bus s) edma context else (False, edma, context)) of (ok, edma, context) \<Rightarrow>
           (ok, if ok \<and> commit then commit_trial s edma context else s)))"

text \<open>The slot clock of the functional audio mode.\<close>

definition advance_slot :: "nat \<Rightarrow> bool \<times> bool \<times> mcasp_control \<Rightarrow> bool \<times> bool \<times> mcasp_control" where
  "advance_slot inst st =
     (case st of (ok, advanced, mcasp) \<Rightarrow>
        if \<not> ok \<or> gblctl mcasp inst AND 0x1F00 \<noteq> 0x1F00 then (ok, advanced, mcasp)
        else (case tx_slot mcasp inst of None \<Rightarrow> (False, advanced, mcasp) | Some (_, mcasp) \<Rightarrow> (True, True, mcasp)))"

definition advance_functional_mcasp_slots :: "board \<Rightarrow> bool \<times> board" where
  "advance_functional_mcasp_slots s =
     (case fold advance_slot [1, 2] (True, False, bd_mcasp s) of (ok, advanced, mcasp) \<Rightarrow>
        if \<not> (ok \<and> advanced) then (ok, s)
        else (case service_mcasp_axevt ctx_mcasp (trial_bus s) (bd_edma s) \<lparr>writes = [], ctx_mcasp = mcasp\<rparr> of (ok, edma, context) \<Rightarrow>
           (ok, if ok then commit_trial s edma context else s)))"

text \<open>The clocks of one DSP cycle, and the timers' events.\<close>

definition deliver_timer_outputs :: "u32 \<Rightarrow> board \<Rightarrow> board" where
  "deliver_timer_outputs outputs s =
     fold (\<lambda>b s. if outputs AND shl 1 b \<noteq> 0 then deliver s (of_nat (timer_event b)) else s) [0..<32] s"

definition cycle_clocks :: "board \<Rightarrow> board" where
  "cycle_clocks s =
     (let s = s\<lparr>bd_pll := pll_tick (bd_pll s)\<rparr>
      in case timers_tick (bd_timers s) of (timers, outputs) \<Rightarrow>
           deliver_timer_outputs outputs (s\<lparr>bd_timers := timers\<rparr>))"

section \<open>Spans lie in their memory\<close>

lemma unat_diff_le: "(b :: u32) \<le> a \<Longrightarrow> unat (a - b) = unat a - unat b"
  by unat_arith

lemma base_span:
  assumes "(b :: u32) \<le> a" "ucast a + sz \<le> (ucast b + ucast (k :: u32) :: u64)" "unat sz \<le> 0xFFFFFFFF" "unat b + unat k \<le> 0xFFFFFFFF"
  shows "unat (a - b) + unat sz \<le> unat k"
proof -
  have "unat a < 2 ^ 32" using unsigned_less [of a] by simp
  then have a: "unat a \<le> 0xFFFFFFFF" by simp
  have "unat (ucast a + sz) = unat a + unat sz" using a assms(3) by (simp add: unat_word_ariths)
  moreover have "unat (ucast b + ucast k :: u64) = unat b + unat k" using assms(4) by (simp add: unat_word_ariths)
  ultimately have "unat a + unat sz \<le> unat b + unat k" using assms(2) by (simp add: word_le_nat_alt)
  then show ?thesis using assms(1) unat_diff_le [OF assms(1)] by (simp add: word_le_nat_alt)
qed

text \<open>C20: a pointer handed to DMA for a span of DSP addresses stays inside the memory it points into, for
  the whole span, under any cache configuration and SDRAM setup.\<close>

theorem dsp_span_in_memory:
  assumes "dsp_memory_span s address sz = Some (r, off)" "unat sz \<le> 0xFFFFFFFF"
  shows "0 < unat sz \<and> off + unat sz \<le> region_size r"
proof (cases "l1d_sram_span (bd_cache s) address sz")
  case (Some o')
  then have "r = L1D_RAM" "off = unat o'" using assms(1) by (auto simp: dsp_memory_span_def Let_def split: if_splits)
  then show ?thesis using l1d_sram_span_bounds(2,3) [OF Some] by (simp add: region_size_def)
next
  case None
  have nz: "0 < unat sz" using assms(1) by (auto simp: dsp_memory_span_def Let_def word_gt_0 unat_gt_0 split: if_splits)
  consider (l2) "r = L2_RAM" "off = unat (address - L2_BASE)" "address \<ge> L2_BASE" "ucast address + sz \<le> ucast L2_BASE + ucast L2_SIZE"
    | (local) "r = L2_RAM" "off = unat (address - 0x00800000)" "address \<ge> 0x00800000" "ucast address + sz \<le> ucast (0x00800000 :: u32) + ucast L2_SIZE"
    | (shared) "r = SHARED_RAM" "off = unat (address - SHARED_RAM_BASE)" "address \<ge> SHARED_RAM_BASE"
      "ucast address + sz \<le> ucast SHARED_RAM_BASE + ucast SHARED_RAM_SIZE"
    | (sdram) o' where "r = SDRAM" "off = unat o'" "emifb_sdram_offset (bd_emifb s) address sz (ucast SDRAM_SIZE) = Some o'"
    using assms(1) None by (auto simp: dsp_memory_span_def Let_def split: if_splits)
  then show ?thesis
  proof cases
    case l2
    then show ?thesis using base_span [OF l2(3,4) assms(2)] nz by (simp add: region_size_def)
  next
    case local
    then show ?thesis using base_span [OF local(3,4) assms(2)] nz by (simp add: region_size_def)
  next
    case shared
    then show ?thesis using base_span [OF shared(3,4) assms(2)] nz by (simp add: region_size_def)
  next
    case sdram
    then show ?thesis using emifb_offset_bounds [OF sdram(3)] by (simp add: region_size_def)
  qed
qed

text \<open>The board at reset, with its memories cleared.\<close>

definition board_reset :: board where
  "board_reset = \<lparr>memory = (\<lambda>_ _. 0), bd_cache = cache_reset, bd_emifb = emifb_reset, bd_edma = edma_reset,
     bd_mcasp = control_reset, bd_intc = intc_reset, bd_delivery = 0, bd_timers = timers_reset, bd_pll = pll_reset\<rparr>"

theorem dsp_span_in_memory_witness:
  "dsp_memory_span board_reset 0xC2000010 32 = Some (SDRAM, 16) \<and> 16 + 32 \<le> region_size SDRAM"
proof -
  have "dsp_memory_span board_reset 0xC2000010 32 = Some (SDRAM, 16)"
    by (simp add: board_reset_def dsp_memory_span_def Let_def l1d_sram_span_def l1d_bytes_def cache_reset_def emifb_sdram_offset_def emifb_sdram_enabled_def emifb_reset_def)
  with dsp_span_in_memory [OF this] show ?thesis by simp
qed

section \<open>Staged writes\<close>

lemma load_bytes_length [simp]: "length (load_bytes m p n) = n"
  by (simp add: load_bytes_def)

lemma load_bytes_nth: "i < n \<Longrightarrow> load_bytes m p n ! i = m (fst p) (snd p + i)"
  by (simp add: load_bytes_def)

lemma memcpy_at_nth:
  assumes "k + length src \<le> length bs" "i < length bs"
  shows "memcpy_at bs k src ! i = (if k \<le> i \<and> i < k + length src then src ! (i - k) else bs ! i)"
  using assms by (auto simp: memcpy_at_def nth_append min_def)

lemma memcpy_at_length: "k + length src \<le> length bs \<Longrightarrow> length (memcpy_at bs k src) = length bs"
  by (simp add: memcpy_at_def)

text \<open>Overlaying one staged write on the bytes read is reading after the write.\<close>

lemma overlay_load: "overlay p w (load_bytes m p n) = load_bytes (store_bytes (fst w) (snd w) m) p n"
proof -
  obtain r a bs where w: "w = ((r, a), bs)" by (metis prod.collapse)
  obtain q c where p: "p = (q, c)" by (cases p)
  show ?thesis
  proof (cases "r = q \<and> a < c + n \<and> c < a + length bs")
    case True
    define st fn where "st = max a c" and "fn = min (a + length bs) (c + n)"
    define data where "data = take (fn - st) (drop (st - a) bs)"
    have b: "a \<le> st" "c \<le> st" "st \<le> fn" "fn \<le> a + length bs" "fn \<le> c + n" "st = a \<or> st = c" "fn = a + length bs \<or> fn = c + n"
      using True by (auto simp: st_def fn_def max_def min_def)
    have src: "length data = fn - st" using b by (simp add: data_def)
    have fit: "st - c + length data \<le> length (load_bytes m p n)" using b by (simp add: src)
    have ov: "overlay p w (load_bytes m p n) = memcpy_at (load_bytes m p n) (st - c) data"
      using True by (simp add: overlay_def w p Let_def st_def fn_def data_def)
    show ?thesis
      unfolding ov
    proof (rule nth_equalityI)
      show "length (memcpy_at (load_bytes m p n) (st - c) data) = length (load_bytes (store_bytes (fst w) (snd w) m) p n)"
        unfolding memcpy_at_length [OF fit] by simp
      fix i assume "i < length (memcpy_at (load_bytes m p n) (st - c) data)"
      then have i: "i < n" unfolding memcpy_at_length [OF fit] by simp
      have l: "memcpy_at (load_bytes m p n) (st - c) data ! i =
          (if st - c \<le> i \<and> i < st - c + length data then data ! (i - (st - c)) else m q (c + i))"
        using memcpy_at_nth [OF fit, of i] i by (simp add: load_bytes_nth p)
      have r: "load_bytes (store_bytes (fst w) (snd w) m) p n ! i = (if a \<le> c + i \<and> c + i < a + length bs then bs ! (c + i - a) else m q (c + i))"
        using i True by (simp add: load_bytes_nth store_bytes_def w p)
      have cond: "(st - c \<le> i \<and> i < st - c + length data) = (a \<le> c + i \<and> c + i < a + length bs)"
        unfolding src using b i by linarith
      have "data ! (i - (st - c)) = bs ! (c + i - a)" if in_write: "a \<le> c + i" "c + i < a + length bs"
      proof -
        have "i - (st - c) < fn - st" "st - a + (i - (st - c)) = c + i - a" "st - a \<le> length bs"
          using b i in_write by linarith+
        then show ?thesis by (simp add: data_def)
      qed
      then show "memcpy_at (load_bytes m p n) (st - c) data ! i = load_bytes (store_bytes (fst w) (snd w) m) p n ! i"
        unfolding l r cond by simp
    qed
  next
    case False
    have "m q (c + i) = store_bytes (r, a) bs m q (c + i)" if "i < n" for i
      using False that by (auto simp: store_bytes_def)
    then have "load_bytes m p n = load_bytes (store_bytes (r, a) bs m) p n" by (simp add: load_bytes_def p)
    moreover have "overlay p w (load_bytes m p n) = load_bytes m p n" using False by (auto simp: overlay_def w p Let_def)
    ultimately show ?thesis by (simp add: w)
  qed
qed

lemma overlay_fold: "fold (overlay p) ws (load_bytes m p n) = load_bytes (apply_writes ws m) p n"
  by (induction ws arbitrary: m) (simp_all add: apply_writes_def overlay_load)

lemma apply_writes_append: "apply_writes (ws @ [w]) m = store_bytes (fst w) (snd w) (apply_writes ws m)"
  by (simp add: apply_writes_def)

section \<open>The staged bus refines a direct one\<close>

text \<open>A bus with no staging: each committed write goes to memory at once.\<close>

definition direct_bus :: "board \<Rightarrow> (memory \<times> mcasp_control) edma_bus" where
  "direct_bus s = \<lparr>
     bus_read = (\<lambda>m a n. map_option (\<lambda>p. load_bytes (fst m) p n) (dsp_memory_span s a (of_nat n))),
     bus_write = (\<lambda>m a bs c. case dsp_memory_span s a (of_nat (length bs)) of
         Some p \<Rightarrow> (True, if c then (store_bytes p bs (fst m), snd m) else m)
       | None \<Rightarrow> if length bs = 4 then
           (case control_write (snd m) a (ucast (ldl_le bs)) 4 c of Some t \<Rightarrow> (True, (fst m, t)) | None \<Rightarrow> (False, m))
           else (False, m))\<rparr>"

definition staged :: "board \<Rightarrow> edma_context \<Rightarrow> memory \<times> mcasp_control \<Rightarrow> bool" where
  "staged s context m \<longleftrightarrow> fst m = apply_writes (writes context) (memory s) \<and> snd m = ctx_mcasp context"

interpretation nxs_bus: edma_simulation "trial_bus s" "direct_bus s" "staged s" for s
proof
  fix m n a k
  show "staged s m n \<Longrightarrow> bus_read (trial_bus s) m a k = bus_read (direct_bus s) n a k"
    by (auto simp: staged_def trial_bus_def direct_bus_def edma_read_bytes_def overlay_fold split: option.split)
next
  fix m n a bs c
  show "staged s m n \<Longrightarrow> fst (bus_write (trial_bus s) m a bs c) = fst (bus_write (direct_bus s) n a bs c) \<and>
      staged s (snd (bus_write (trial_bus s) m a bs c)) (snd (bus_write (direct_bus s) n a bs c))"
    by (auto simp: staged_def trial_bus_def direct_bus_def edma_write_bytes_def edma_stage_write_def apply_writes_append
      split: option.splits)
qed

lemma staged_instance:
  assumes port: "\<And>m n. staged s m n \<Longrightarrow> ctx_mcasp m = snd n"
  shows "staged s m n \<Longrightarrow> nxs_bus.rel3 s (service_instance ctx_mcasp (trial_bus s) inst ch k e m) (service_instance snd (direct_bus s) inst ch k e n)"
proof (induction k arbitrary: e m n)
  case (Suc k)
  obtain ok e' m' n' where v: "edma_event (trial_bus s) ch e m = (ok, e', m')" "edma_event (direct_bus s) ch e n = (ok, e', n')" "staged s m' n'"
    using nxs_bus.sim_edma_event [OF Suc.prems, of ch e]
    by (cases "edma_event (trial_bus s) ch e m", cases "edma_event (direct_bus s) ch e n") (auto simp: nxs_bus.rel3_def)
  show ?case
    unfolding service_instance.simps Let_def v(1,2) prod.case port [OF Suc.prems] port [OF v(3)]
    by (intro nxs_bus.rel3_if nxs_bus.rel3_leaf Suc.prems v(3) Suc.IH)
qed (simp add: nxs_bus.rel3_leaf)

lemma staged_service:
  "staged s m n \<Longrightarrow> nxs_bus.rel3 s (service_mcasp_axevt ctx_mcasp (trial_bus s) e m) (service_mcasp_axevt snd (direct_bus s) e n)"
proof -
  assume st: "staged s m n"
  have port: "\<And>m n. staged s m n \<Longrightarrow> ctx_mcasp m = snd n" by (simp add: staged_def)
  obtain ok e' m' n' where v: "service_instance ctx_mcasp (trial_bus s) 1 3 16 e m = (ok, e', m')"
    "service_instance snd (direct_bus s) 1 3 16 e n = (ok, e', n')" "staged s m' n'"
    using staged_instance [OF port st, of 1 3 16 e]
    by (cases "service_instance ctx_mcasp (trial_bus s) 1 3 16 e m", cases "service_instance snd (direct_bus s) 1 3 16 e n")
      (auto simp: nxs_bus.rel3_def)
  show ?thesis
    unfolding service_mcasp_axevt_def v(1,2) prod.case
    by (intro nxs_bus.rel3_if nxs_bus.rel3_leaf v(3) staged_instance [OF port])
qed

text \<open>The same access made directly: no trial copies and no staging.\<close>

definition direct_access :: "board \<Rightarrow> bool \<Rightarrow> u32 \<Rightarrow> u64 \<Rightarrow> nat \<Rightarrow> bool \<times> edma \<times> memory \<times> mcasp_control" where
  "direct_access s edma_access address v sz =
     (case (if edma_access then edma_write (direct_bus s) address v sz True (bd_edma s) (memory s, bd_mcasp s)
            else (case control_write (bd_mcasp s) address v sz True of
                Some mcasp \<Rightarrow> (True, bd_edma s, memory s, mcasp) | None \<Rightarrow> (False, bd_edma s, memory s, bd_mcasp s))) of
        (ok, edma, m) \<Rightarrow> if ok then service_mcasp_axevt snd (direct_bus s) edma m else (False, edma, m))"

text \<open>C1: the DMA transaction of the board, run on trial copies with staged writes, is the direct execution made
  all or nothing: when the direct execution of the access and of the serial port service it causes succeeds,
  the board ends with its memory, controller and ports (and the completion notified); when any part of it
  fails, or the access is only checked, nothing changes.\<close>

theorem transaction_refines_direct:
  "edma_mcasp_transaction s edma_access address v sz commit =
     (case direct_access s edma_access address v sz of (ok, edma, m, mcasp) \<Rightarrow>
        (let ok = (ok \<and> (if edma_access then edma_write_mapped address sz else mcasp_control_write_mapped address sz))
         in (ok, if ok \<and> commit
           then deliver_edma_notifications (s\<lparr>memory := m, bd_edma := edma, bd_mcasp := mcasp\<rparr>) else s)))"
proof -
  let ?c = "\<lparr>writes = [], ctx_mcasp = bd_mcasp s\<rparr>"
  have st: "staged s ?c (memory s, bd_mcasp s)" by (simp add: staged_def apply_writes_def)
  have st': "staged s \<lparr>writes = [], ctx_mcasp = mc\<rparr> (memory s, mc)" for mc by (simp add: staged_def apply_writes_def)
  define x where "x = trial_access s edma_access address v sz"
  define y where "y = (if edma_access then edma_write (direct_bus s) address v sz True (bd_edma s) (memory s, bd_mcasp s)
            else (case control_write (bd_mcasp s) address v sz True of
                Some mcasp \<Rightarrow> (True, bd_edma s, memory s, mcasp) | None \<Rightarrow> (False, bd_edma s, memory s, bd_mcasp s)))"
  have "nxs_bus.rel3 s x y"
    unfolding x_def y_def trial_access_def Let_def
    by (intro nxs_bus.rel3_if nxs_bus.sim_edma_write st) (auto intro: nxs_bus.rel3_leaf st st' split: option.split)
  then obtain ok e m n where xy: "x = (ok, e, m)" "y = (ok, e, n)" "staged s m n"
    by (cases x, cases y) (auto simp: nxs_bus.rel3_def)
  define u w where "u = (if ok then service_mcasp_axevt ctx_mcasp (trial_bus s) e m else (False, e, m))"
    and "w = (if ok then service_mcasp_axevt snd (direct_bus s) e n else (False, e, n))"
  have "nxs_bus.rel3 s u w" unfolding u_def w_def by (intro nxs_bus.rel3_if nxs_bus.rel3_leaf xy(3) staged_service)
  then obtain ok' e' m' n' where uw: "u = (ok', e', m')" "w = (ok', e', n')" "staged s m' n'"
    by (cases u, cases w) (auto simp: nxs_bus.rel3_def)
  have d: "direct_access s edma_access address v sz = (ok', e', n')"
    unfolding direct_access_def y_def [symmetric] xy(2) prod.case w_def [symmetric] by (rule uw(2))
  have c: "commit_trial s e' m' = deliver_edma_notifications (s\<lparr>memory := fst n', bd_edma := e', bd_mcasp := snd n'\<rparr>)"
    using uw(3) by (simp add: commit_trial_def staged_def)
  show ?thesis
    unfolding edma_mcasp_transaction_def x_def [symmetric] xy(1) prod.case u_def [symmetric] uw(1) c d
    by (auto simp: Let_def split: prod.split)
qed

section \<open>DMA between memories\<close>

text \<open>The part of the bus that names memory keeps the contract of the DMA controller's client.\<close>

definition ram_bus :: "board \<Rightarrow> edma_context edma_bus" where
  "ram_bus s = \<lparr>bus_read = edma_read_bytes s,
     bus_write = (\<lambda>context a bs c. case dsp_memory_span s a (of_nat (length bs)) of
       Some target \<Rightarrow> (True, if c then edma_stage_write context target bs else context) | None \<Rightarrow> (False, context))\<rparr>"

lemma ram_bus_agrees:
  "mcasp_locate a = None \<Longrightarrow> bus_write (trial_bus s) context a bs c = bus_write (ram_bus s) context a bs c"
  "bus_read (trial_bus s) = bus_read (ram_bus s)"
  by (auto simp: trial_bus_def ram_bus_def edma_write_bytes_def control_write_def split: option.split)

interpretation nxs_ram: edma_memory "ram_bus s" for s
  by unfold_locales (auto simp: ram_bus_def edma_read_bytes_def overlay_fold split: option.splits)

section \<open>One event\<close>

text \<open>C8: a peripheral event on an enabled channel whose set is an A-synchronised transfer between memories of
  the board moves exactly one array. Let \<open>m\<close> be the memory with the writes staged so far. When the source and
  the destination lie in memories of the board, the set's options do not chain, and the set, if it has just
  ended and is linked, is not one an enabled QDMA channel is mapped to, the event is accepted: the memory
  afterwards is \<open>m\<close> with the bytes of the source array at the destination, and the serial ports are untouched;
  the set is kept if it is static, moves on to the next array or frame, or after its last event is replaced by
  the set its link names or the null set; the completion interrupt is posted as the options ask, the event is
  no longer pending, and the counters advance by one request and the array's length.\<close>

theorem edma_event_moves_array:
  assumes ch: "channel < 32" "flag (eer e) channel"
    and p: "param e channel = p" "valid_param p" "\<not> flag (p 0) OPT_SYNCDIM"
      "\<not> flag (p 0) (if final_event p then OPT_TCCHEN else OPT_ITCCHEN)" "links p \<longrightarrow> link_matches e channel = []"
    and n: "n = unat (p 2 AND 0xFFFF)"
    and spans: "dsp_memory_span s (p 1) (of_nat n) = Some source" "dsp_memory_span s (p 3) (of_nat n) = Some target"
    and m: "m = apply_writes (writes context) (memory s)"
  shows "\<exists>e' context'. edma_event (trial_bus s) channel e context = (True, e', context') \<and>
    apply_writes (writes context') (memory s) = store_bytes target (load_bytes m source n) m \<and>
    ctx_mcasp context' = ctx_mcasp context \<and>
    param e' = (param e)(channel := array_successor e p) \<and>
    ipr e' = ipr e OR (if flag (p 0) (if final_event p then OPT_TCINTEN else OPT_ITCINTEN)
      then shl 1 (unat (shr (p 0) 12 AND 0x3F)) else 0) \<and>
    er e' = er e AND NOT (shl 1 channel) \<and> transfer_requests e' = transfer_requests e + 1 \<and>
    bytes_transferred e' = bytes_transferred e + ucast (p 2 AND 0xFFFF)"
proof -
  let ?bs = "load_bytes m source n"
  have r: "bus_read (trial_bus s) context (p 1) (unat (p 2 AND 0xFFFF)) = Some ?bs"
    using spans by (simp add: trial_bus_def edma_read_bytes_def overlay_fold n m)
  have w: "bus_write (trial_bus s) context (p 3) ?bs False = (True, context)"
    "bus_write (trial_bus s) context (p 3) ?bs True = (True, edma_stage_write context target ?bs)"
    using spans by (simp_all add: trial_bus_def edma_write_bytes_def)
  show ?thesis using edma_event_array [OF ch p r w]
    by (auto simp: edma_stage_write_def apply_writes_append m)
qed

text \<open>The last event of a set linked to set 5, between two places of the shared memory.\<close>

definition linked_edma :: edma where
  "linked_edma = edma_reset\<lparr>eer := 4,
     param := (\<lambda>n. if n = 2 then (\<lambda>k. [0x00102000, 0x80000010, 0x00010002, 0x80000100, 0, 0x40A0, 0, 1] ! k)
       else if n = 5 then (\<lambda>k. [0x00100000, 0x80000020, 0x00040002, 0x80000200, 0x00020002, 0xFFFF, 0, 1] ! k) else (\<lambda>_. 0))\<rparr>"

theorem edma_event_moves_array_witness:
  "\<exists>e' context'. edma_event (trial_bus (board_reset\<lparr>memory := \<lambda>_ a. of_nat a\<rparr>)) 2 linked_edma
       \<lparr>writes = [], ctx_mcasp = control_reset\<rparr> = (True, e', context') \<and>
     apply_writes (writes context') (\<lambda>_ a. of_nat a) SHARED_RAM 0x101 = 0x11 \<and>
     param e' 2 3 = 0x80000200 \<and> ipr e' = 4"
proof -
  let ?s = "board_reset\<lparr>memory := \<lambda>_ a. of_nat a\<rparr>" and ?p = "param linked_edma 2"
  have p: "flag (eer linked_edma) 2" "valid_param ?p" "\<not> flag (?p 0) OPT_SYNCDIM"
    "\<not> flag (?p 0) (if final_event ?p then OPT_TCCHEN else OPT_ITCCHEN)" "links ?p \<longrightarrow> link_matches linked_edma 2 = []"
    "2 = unat (?p 2 AND 0xFFFF)" "final_event ?p" "flag (?p 0) OPT_TCINTEN" "unat (shr (?p 0) 12 AND 0x3F) = 2"
    "ipr linked_edma = 0" "array_successor linked_edma ?p 3 = 0x80000200" "?p 1 = 0x80000010" "?p 3 = 0x80000100"
    by code_simp+
  have sp: "dsp_memory_span ?s (?p 1) (of_nat 2) = Some (SHARED_RAM, 0x10)"
    "dsp_memory_span ?s (?p 3) (of_nat 2) = Some (SHARED_RAM, 0x100)"
    unfolding p(12,13) by (simp_all add: board_reset_def dsp_memory_span_def Let_def l1d_sram_span_def l1d_bytes_def cache_reset_def)
  from edma_event_moves_array [OF _ p(1) refl p(2-6) sp refl, of "\<lparr>writes = [], ctx_mcasp = control_reset\<rparr>"] p(7-11)
  show ?thesis by (auto simp: apply_writes_def store_bytes_def load_bytes_def)
qed

end
