(* ===== verification/C6747_Spi.thy ===== *)
theory C6747_Spi
  imports Bus_Contract C6747_Pll
begin

text \<open>
  \<^verbatim>\<open>emulator/qemu/cdj_c6747_spi.c\<close> and \<^verbatim>\<open>cdj_c6747_spi_clock.h\<close>: the two SPI modules, the WM8740
  audio converter on SPI1, and the timed transfer between them. Time is counted in half
  periods of the module clock. The byte fields of the serialized transfer keep their width,
  because the checkpoint code tests their values; the receive flags are only ever assigned
  truth values. A read is an operation on the state, because it consumes received words.
\<close>

section \<open>State\<close>

record spi =
  gcr0 :: u32
  gcr1 :: u32
  interrupt_enable :: u32
  interrupt_level :: u32
  spi_flags :: u32
  pin_function :: u32
  pin_direction :: u32
  pin_input :: u32
  pin_input_valid :: u32
  pin_output :: u32
  dat0 :: u32
  dat1 :: u32
  receive_data :: u32
  receive_status :: u32
  spi_delay :: u32
  chip_select_default :: u32
  spi_format :: "nat \<Rightarrow> u32"
  receive_empty :: bool
  receive_buffer_full :: bool
  receive_buffer_data :: u16

type_synonym spis = "nat \<Rightarrow> spi"

record wm8740 =
  dac_program :: "nat \<Rightarrow> u16"
  last_word :: u16
  dac_transfers :: u64
  active_attenuation :: "nat \<Rightarrow> u8"
  register4_unlocked :: u8

record spi_transfer =
  clock_phase :: u32
  half_ticks_remaining :: u32
  active_control :: u32
  active_format :: u32
  active_delay :: u32
  queued_control :: u32
  queued_format :: u32
  queued_delay :: u32
  tr_phase :: u8
  queued_valid :: u8
  tx_full :: u8
  previous_cshold :: u8
  tr_fault :: u8
  tr_reserved :: "nat \<Rightarrow> u8"

abbreviation SPI0_BASE :: u32 where "SPI0_BASE \<equiv> 0x01C41000"
abbreviation SPI1_BASE :: u32 where "SPI1_BASE \<equiv> 0x01E12000"
abbreviation SPI_PIN_MASK :: u32 where "SPI_PIN_MASK \<equiv> 0xF01"
abbreviation SPI_GCR1_WRITE_MASK :: u32 where "SPI_GCR1_WRITE_MASK \<equiv> 0x01010103"
abbreviation SPI_INTERRUPT_WRITE_MASK :: u32 where "SPI_INTERRUPT_WRITE_MASK \<equiv> 0x0101035F"
abbreviation SPI_LEVEL_WRITE_MASK :: u32 where "SPI_LEVEL_WRITE_MASK \<equiv> 0x35F"
abbreviation SPI_FLAG_W1C_MASK :: u32 where "SPI_FLAG_W1C_MASK \<equiv> 0x15F"
abbreviation SPI_FLAG_RESET_RESERVED :: u32 where "SPI_FLAG_RESET_RESERVED \<equiv> 0x01000000"
abbreviation SPI_DAT1_WRITE_MASK :: u32 where "SPI_DAT1_WRITE_MASK \<equiv> 0x1701FFFF"
abbreviation SPI_FORMAT_WRITE_MASK :: u32 where "SPI_FORMAT_WRITE_MASK \<equiv> 0x3FF7FF1F"
abbreviation SPI_RX_STATUS_MASK :: u32 where "SPI_RX_STATUS_MASK \<equiv> 0x5F000000"
abbreviation SPI_RX_OVERRUN_STATUS :: u32 where "SPI_RX_OVERRUN_STATUS \<equiv> 0x40000000"
abbreviation SPI_TX_FLAG :: u32 where "SPI_TX_FLAG \<equiv> 0x200"
abbreviation SPI_RX_FLAG :: u32 where "SPI_RX_FLAG \<equiv> 0x100"
abbreviation SPI_OVERRUN_FLAG :: u32 where "SPI_OVERRUN_FLAG \<equiv> 0x40"
abbreviation SPI_WM8740_FUNCTION_PINS :: u32 where "SPI_WM8740_FUNCTION_PINS \<equiv> 0x601"
abbreviation SPI_WM8740_STRICT_PINS :: u32 where "SPI_WM8740_STRICT_PINS \<equiv> 0xE01"
abbreviation SPI_WM8740_STRICT_GCR1 :: u32 where "SPI_WM8740_STRICT_GCR1 \<equiv> 0x01000003"
abbreviation SPI_WM8740_STRICT_FORMAT :: u32 where "SPI_WM8740_STRICT_FORMAT \<equiv> 0x00021810"
abbreviation SPI_WM8740_STRICT_DELAY :: u32 where "SPI_WM8740_STRICT_DELAY \<equiv> 0x02020408"
abbreviation SPI_ENABLE :: u32 where "SPI_ENABLE \<equiv> 0x01000000"

abbreviation (input) TRANSFER_IDLE :: u8 where "TRANSFER_IDLE \<equiv> 0"
abbreviation (input) TRANSFER_C2T :: u8 where "TRANSFER_C2T \<equiv> 1"
abbreviation (input) TRANSFER_SHIFT :: u8 where "TRANSFER_SHIFT \<equiv> 2"
abbreviation (input) TRANSFER_T2C :: u8 where "TRANSFER_T2C \<equiv> 3"
abbreviation (input) TRANSFER_GAP :: u8 where "TRANSFER_GAP \<equiv> 4"

definition spi_decode :: "u32 \<Rightarrow> (nat \<times> u32) option" where
  "spi_decode address =
     (if address \<ge> SPI0_BASE \<and> address < SPI0_BASE + 0x1000 then Some (0, address - SPI0_BASE)
      else if address \<ge> SPI1_BASE \<and> address < SPI1_BASE + 0x1000 then Some (1, address - SPI1_BASE)
      else None)"

definition spi_zero :: spi where
  "spi_zero = \<lparr>gcr0 = 0, gcr1 = 0, interrupt_enable = 0, interrupt_level = 0, spi_flags = 0, pin_function = 0,
     pin_direction = 0, pin_input = 0, pin_input_valid = 0, pin_output = 0, dat0 = 0, dat1 = 0,
     receive_data = 0, receive_status = 0, spi_delay = 0, chip_select_default = 0, spi_format = (\<lambda>_. 0),
     receive_empty = False, receive_buffer_full = False, receive_buffer_data = 0\<rparr>"

definition reset_one :: "spi \<Rightarrow> spi" where
  "reset_one s = spi_zero\<lparr>chip_select_default := 0xFF, receive_empty := True,
     pin_input := pin_input s, pin_input_valid := pin_input_valid s\<rparr>"

definition spis_reset :: spis where
  "spis_reset = (\<lambda>i. reset_one spi_zero)"

section \<open>The converter\<close>

definition wm8740_reset :: wm8740 where
  "wm8740_reset = \<lparr>dac_program = (\<lambda>i. if i < 2 then 0xFF else 0), last_word = 0, dac_transfers = 0,
     active_attenuation = (\<lambda>i. if i < 2 then 0xFF else 0), register4_unlocked = 0\<rparr>"

definition wm8740_valid :: "wm8740 \<Rightarrow> bool" where
  "wm8740_valid dac \<longleftrightarrow>
     \<not> (dac_program dac 0 > 0x1FF \<or> dac_program dac 1 > 0x1FF \<or> dac_program dac 2 > 0x1FF \<or>
        dac_program dac 3 AND NOT 0x1DF \<noteq> 0 \<or> dac_program dac 4 AND NOT 0x70 \<noteq> 0 \<or> register4_unlocked dac > 1)"

definition wm8740_write :: "wm8740 \<Rightarrow> u16 \<Rightarrow> bool \<Rightarrow> wm8740 option" where
  "wm8740_write dac word commit =
     (let address = shr word 9 AND 7; data = word AND 0x1FF
      in if address > 3 \<and> address \<noteq> 6 then None
         else if \<not> commit then Some dac
         else
           (let dac = dac\<lparr>last_word := word, dac_transfers := dac_transfers dac + 1\<rparr>
            in Some
              (if address \<le> 1 then
                 (let dac = dac\<lparr>dac_program := (dac_program dac)(unat address := data)\<rparr>
                  in if data AND 0x100 \<noteq> 0 then
                       dac\<lparr>active_attenuation := (active_attenuation dac)
                         (0 := ucast (dac_program dac 0 AND 0xFF), 1 := ucast (dac_program dac 1 AND 0xFF))\<rparr>
                     else dac)
               else if address = 2 then
                 (let dac = dac\<lparr>dac_program := (dac_program dac)(2 := data)\<rparr>
                  in if data AND 0x1E0 = 0x1E0 then dac\<lparr>register4_unlocked := 1\<rparr> else dac)
               else if address = 3 then dac\<lparr>dac_program := (dac_program dac)(3 := data AND 0x1DF)\<rparr>
               else if register4_unlocked dac \<noteq> 0 then dac\<lparr>dac_program := (dac_program dac)(4 := data AND 0x70)\<rparr>
               else dac)))"

definition wm8740_word_valid :: "u32 \<Rightarrow> bool" where
  "wm8740_word_valid control \<longleftrightarrow>
     (let address = shr control 9 AND 7 in control AND 0xFFFF0000 = 0 \<and> (address \<le> 3 \<or> address = 6))"

section \<open>Transfer state\<close>

definition transfer_reset :: spi_transfer where
  "transfer_reset = \<lparr>clock_phase = 0, half_ticks_remaining = 0, active_control = 0, active_format = 0, active_delay = 0,
     queued_control = 0, queued_format = 0, queued_delay = 0, tr_phase = 0, queued_valid = 0, tx_full = 0,
     previous_cshold = 0, tr_fault = 0, tr_reserved = (\<lambda>_. 0)\<rparr>"

definition transfer_active :: "spi_transfer \<Rightarrow> bool" where
  "transfer_active t \<longleftrightarrow> tr_phase t \<noteq> TRANSFER_IDLE \<or> queued_valid t \<noteq> 0 \<or> tx_full t \<noteq> 0"

definition transfer_word_valid :: "u32 \<Rightarrow> u32 \<Rightarrow> u32 \<Rightarrow> bool" where
  "transfer_word_valid control fmt del \<longleftrightarrow>
     wm8740_word_valid control \<and> fmt = SPI_WM8740_STRICT_FORMAT \<and> del = SPI_WM8740_STRICT_DELAY"

definition transfer_bytes_valid :: "spi_transfer \<Rightarrow> bool" where
  "transfer_bytes_valid t \<longleftrightarrow>
     \<not> (tr_phase t > TRANSFER_GAP \<or> queued_valid t > 1 \<or> tx_full t > 1 \<or> previous_cshold t > 1 \<or> tr_fault t > 1 \<or>
        tr_reserved t 0 \<noteq> 0 \<or> tr_reserved t 1 \<noteq> 0 \<or> tr_reserved t 2 \<noteq> 0)"

definition transfer_words_valid :: "spi_transfer \<Rightarrow> bool" where
  "transfer_words_valid t \<longleftrightarrow>
     (let active = (tr_phase t \<noteq> TRANSFER_IDLE);
          shifting_word = (tr_phase t \<ge> TRANSFER_C2T \<and> tr_phase t \<le> TRANSFER_T2C)
      in if active \<noteq> (half_ticks_remaining t \<noteq> 0) then False
         else if shifting_word \<noteq> transfer_word_valid (active_control t) (active_format t) (active_delay t) then False
         else if \<not> shifting_word \<and> (active_control t \<noteq> 0 \<or> active_format t \<noteq> 0 \<or> active_delay t \<noteq> 0) then False
         else if (queued_valid t \<noteq> 0) \<noteq> transfer_word_valid (queued_control t) (queued_format t) (queued_delay t) then False
         else if queued_valid t = 0 \<and> (queued_control t \<noteq> 0 \<or> queued_format t \<noteq> 0 \<or> queued_delay t \<noteq> 0 \<or> tx_full t \<noteq> 0)
           then False
         else if queued_valid t \<noteq> 0 \<and> \<not> active then False
         else \<not> (tx_full t \<noteq> 0 \<and> tr_phase t \<ge> TRANSFER_T2C))"

definition transfer_valid :: "spi_transfer \<Rightarrow> bool" where
  "transfer_valid t \<longleftrightarrow> transfer_bytes_valid t \<and> transfer_words_valid t"

definition timed_mapped :: "u32 \<Rightarrow> bool" where
  "timed_mapped address \<longleftrightarrow> address \<ge> SPI1_BASE \<and> address < SPI1_BASE + 0x1000"

definition set_pins :: "spis \<Rightarrow> nat \<Rightarrow> u32 \<Rightarrow> u32 \<Rightarrow> spis" where
  "set_pins spis index valid v =
     (if index \<ge> 2 then spis
      else
        (let valid = valid AND SPI_PIN_MASK; s = spis index
         in spis(index := s\<lparr>pin_input := (pin_input s AND NOT valid) OR (v AND valid),
                           pin_input_valid := pin_input_valid s OR valid\<rparr>)))"

section \<open>Reads\<close>

definition read_pins :: "spi \<Rightarrow> u32 option" where
  "read_pins s =
     (if pin_input_valid s AND SPI_PIN_MASK \<noteq> SPI_PIN_MASK then None else Some (pin_input s AND SPI_PIN_MASK))"

definition consume_receive :: "spi \<Rightarrow> spi" where
  "consume_receive s =
     (if receive_buffer_full s then
        s\<lparr>receive_data := ucast (receive_buffer_data s), receive_buffer_full := False, receive_empty := False,
          spi_flags := spi_flags s OR SPI_RX_FLAG\<rparr>
      else s\<lparr>receive_empty := True, spi_flags := spi_flags s AND NOT SPI_RX_FLAG\<rparr>)"

definition interrupt_vector :: "spi \<Rightarrow> u32 \<times> spi" where
  "interrupt_vector s =
     (let pending = spi_flags s AND interrupt_enable s AND interrupt_level s
      in if pending AND 0x1F \<noteq> 0 then (shl 0x11 1, s)
         else if pending AND shl 1 6 \<noteq> 0 then (shl 0x13 1, s\<lparr>spi_flags := spi_flags s AND NOT (shl 1 6)\<rparr>)
         else if pending AND shl 1 8 \<noteq> 0 then
           (shl 0x12 1, consume_receive (s\<lparr>spi_flags := spi_flags s AND NOT (shl 1 8)\<rparr>))
         else if pending AND shl 1 9 \<noteq> 0 then (shl 0x14 1, s)
         else (0, s))"

text \<open>SPIBUF: the word and its status, and the next word moves up.\<close>

definition read_spibuf :: "spi \<Rightarrow> u32 \<times> spi" where
  "read_spibuf s =
     ((if receive_empty s then 0x80000000 else 0) OR (receive_status s AND SPI_RX_STATUS_MASK) OR (receive_data s AND 0xFFFF),
      let s = consume_receive s in s\<lparr>receive_status := receive_status s AND SPI_RX_OVERRUN_STATUS\<rparr>)"

definition spi_read :: "spi \<Rightarrow> u32 \<Rightarrow> (u32 \<times> spi) option" where
  "spi_read s off =
     (if off = 0x00 then Some (gcr0 s, s)
      else if off = 0x04 then Some (gcr1 s, s)
      else if off = 0x08 then Some (interrupt_enable s, s)
      else if off = 0x0C then Some (interrupt_level s, s)
      else if off = 0x10 then Some (spi_flags s OR SPI_FLAG_RESET_RESERVED, s)
      else if off = 0x14 then Some (pin_function s, s)
      else if off = 0x18 then Some (pin_direction s, s)
      else if off = 0x1C then map_option (\<lambda>v. (v, s)) (read_pins s)
      else if off = 0x20 then Some (pin_output s, s)
      else if off = 0x24 \<or> off = 0x28 then map_option (\<lambda>v. (v, s)) (read_pins s)
      else if off = 0x38 then Some (dat0 s, s)
      else if off = 0x3C then Some (dat1 s, s)
      else if off = 0x40 then Some (read_spibuf s)
      else if off = 0x44 then Some (receive_data s AND 0xFFFF, s)
      else if off = 0x48 then Some (spi_delay s, s)
      else if off = 0x4C then Some (chip_select_default s, s)
      else if off = 0x50 \<or> off = 0x54 \<or> off = 0x58 \<or> off = 0x5C then
        Some (spi_format s (unat ((off - 0x50) div 4)), s)
      else if off = 0x64 then Some (interrupt_vector s)
      else None)"

definition spis_read :: "spis \<Rightarrow> u32 \<Rightarrow> (u32 \<times> spis) option" where
  "spis_read spis address =
     (case spi_decode address of None \<Rightarrow> None
      | Some (i, off) \<Rightarrow>
          if off AND 3 \<noteq> 0 then None
          else map_option (\<lambda>(v, s). (v, spis(i := s))) (spi_read (spis i) off))"

definition read_timed :: "spis \<Rightarrow> spi_transfer \<Rightarrow> u32 \<Rightarrow> (u32 \<times> spis) option" where
  "read_timed spis t address =
     (if \<not> timed_mapped address \<or> \<not> transfer_valid t \<or> tr_fault t \<noteq> 0 then None
      else map_option (\<lambda>(v, spis). (if address - SPI1_BASE = 0x40 \<and> tx_full t \<noteq> 0 then v OR shl 1 29 else v, spis))
        (spis_read spis address))"

section \<open>Transfer times\<close>

definition discard_transfer :: "spi_transfer \<Rightarrow> spi_transfer" where
  "discard_transfer t = transfer_reset\<lparr>clock_phase := clock_phase t\<rparr>"

definition shift_half_ticks :: "u32 \<Rightarrow> u32" where
  "shift_half_ticks fmt = (let bits = fmt AND 0x1F; prescale = shr fmt 8 AND 0xFF in (2 * bits - 1) * (prescale + 1))"

definition c2t_half_ticks :: "u32 \<Rightarrow> u32" where
  "c2t_half_ticks del = (let c2t = shr del 24 in if c2t \<noteq> 0 then 2 * (c2t + 2) else 0)"

definition t2c_half_ticks :: "u32 \<Rightarrow> u32 \<Rightarrow> u32" where
  "t2c_half_ticks fmt del =
     (let t2c = shr del 16 AND 0xFF; prescale = shr fmt 8 AND 0xFF
      in (if t2c \<noteq> 0 then 2 * (t2c + 1) else 0) + prescale + 1)"

definition start_transfer :: "spi_transfer \<Rightarrow> u32 \<Rightarrow> u32 \<Rightarrow> u32 \<Rightarrow> spi_transfer" where
  "start_transfer t control fmt del =
     (let t = t\<lparr>active_control := control, active_format := fmt, active_delay := del, tr_phase := TRANSFER_C2T,
                half_ticks_remaining := c2t_half_ticks del\<rparr>
      in if half_ticks_remaining t = 0
         then t\<lparr>tr_phase := TRANSFER_SHIFT, half_ticks_remaining := shift_half_ticks fmt\<rparr> else t)"

section \<open>Stores\<close>

definition spi_disable :: "spi \<Rightarrow> spi" where
  "spi_disable s = s\<lparr>dat0 := 0, dat1 := dat1 s AND 0xFFFF0000, spi_flags := 0, receive_data := 0, receive_status := 0,
     receive_empty := True, receive_buffer_full := False, receive_buffer_data := 0\<rparr>"

definition spi_outputs :: "spi \<Rightarrow> u32" where
  "spi_outputs s = NOT (pin_function s) AND pin_direction s AND SPI_PIN_MASK"

definition store_pins :: "u32 \<Rightarrow> u32 \<Rightarrow> spi \<Rightarrow> spi" where
  "store_pins off word s =
     (let outputs = spi_outputs s;
          s = s\<lparr>pin_output := (if off = 0x20 then (pin_output s AND NOT outputs) OR (word AND outputs)
                               else if off = 0x24 then pin_output s OR (word AND outputs)
                               else pin_output s AND NOT (word AND outputs))\<rparr>
      in s\<lparr>pin_input := (pin_input s AND NOT outputs) OR (pin_output s AND outputs),
           pin_input_valid := pin_input_valid s OR outputs\<rparr>)"

definition spi_write :: "spi \<Rightarrow> u32 \<Rightarrow> u32 \<Rightarrow> bool \<Rightarrow> spi option" where
  "spi_write s off word commit =
     (let put = (\<lambda>f. Some (if commit then f s else s))
      in if off = 0x00 then put (\<lambda>s. if word AND 1 \<noteq> 0 then s\<lparr>gcr0 := 1\<rparr> else reset_one s)
      else if off = 0x04 then
        (if word AND 3 = 1 \<or> word AND 3 = 2 then None
         else put (\<lambda>s. let s = s\<lparr>gcr1 := word AND SPI_GCR1_WRITE_MASK\<rparr>
                       in if gcr1 s AND SPI_ENABLE = 0 then spi_disable s else s))
      else if off = 0x08 then put (\<lambda>s. s\<lparr>interrupt_enable := word AND SPI_INTERRUPT_WRITE_MASK\<rparr>)
      else if off = 0x0C then put (\<lambda>s. s\<lparr>interrupt_level := word AND SPI_LEVEL_WRITE_MASK\<rparr>)
      else if off = 0x10 then
        put (\<lambda>s. let s = s\<lparr>spi_flags := spi_flags s AND NOT (word AND SPI_FLAG_W1C_MASK)\<rparr>
                 in if word AND shl 1 8 \<noteq> 0 then consume_receive s else s)
      else if off = 0x14 then put (\<lambda>s. s\<lparr>pin_function := word AND SPI_PIN_MASK\<rparr>)
      else if off = 0x18 then put (\<lambda>s. s\<lparr>pin_direction := word AND SPI_PIN_MASK\<rparr>)
      else if off = 0x20 \<or> off = 0x24 \<or> off = 0x28 then put (store_pins off word)
      else if off = 0x38 \<or> off = 0x3C then
        (if gcr1 s AND SPI_ENABLE \<noteq> 0 then None
         else put (\<lambda>s. let s = (if off = 0x38 then s\<lparr>dat0 := 0\<rparr>
                                else s\<lparr>dat1 := word AND (SPI_DAT1_WRITE_MASK AND 0xFFFF0000)\<rparr>)
                       in s\<lparr>spi_flags := spi_flags s AND NOT (shl 1 9)\<rparr>))
      else if off = 0x48 then put (\<lambda>s. s\<lparr>spi_delay := word\<rparr>)
      else if off = 0x4C then put (\<lambda>s. s\<lparr>chip_select_default := word AND 0xFF\<rparr>)
      else if off = 0x50 \<or> off = 0x54 \<or> off = 0x58 \<or> off = 0x5C then
        put (\<lambda>s. s\<lparr>spi_format := (spi_format s)(unat ((off - 0x50) div 4) := word AND SPI_FORMAT_WRITE_MASK)\<rparr>)
      else None)"

definition spis_write :: "spis \<Rightarrow> u32 \<Rightarrow> u64 \<Rightarrow> nat \<Rightarrow> bool \<Rightarrow> spis option" where
  "spis_write spis address v sz commit =
     (case spi_decode address of None \<Rightarrow> None
      | Some (i, off) \<Rightarrow>
          if sz \<noteq> 4 \<or> v > 0xFFFFFFFF \<or> off AND 3 \<noteq> 0 then None
          else map_option (\<lambda>s. spis(i := s)) (spi_write (spis i) off (ucast v) commit))"

section \<open>Words for the converter\<close>

definition strict_configuration :: "spi \<Rightarrow> wm8740 \<Rightarrow> u32 \<Rightarrow> bool" where
  "strict_configuration s dac control \<longleftrightarrow>
     wm8740_valid dac \<and> gcr1 s = SPI_WM8740_STRICT_GCR1 \<and> pin_function s = SPI_WM8740_STRICT_PINS \<and>
     interrupt_enable s = 0 \<and> interrupt_level s = 0 \<and> chip_select_default s = 0xFF \<and>
     spi_format s 0 = SPI_WM8740_STRICT_FORMAT \<and> spi_delay s = SPI_WM8740_STRICT_DELAY \<and> wm8740_word_valid control"

text \<open>The commit of a word: into the empty shift register, or queued behind the active one.\<close>

definition accept_word :: "spi \<Rightarrow> spi_transfer \<Rightarrow> u32 \<Rightarrow> spi \<times> spi_transfer" where
  "accept_word s t word =
     (let s = s\<lparr>dat1 := word AND SPI_DAT1_WRITE_MASK, spi_flags := spi_flags s AND NOT SPI_TX_FLAG\<rparr>
      in if \<not> transfer_active t then
           (s\<lparr>spi_flags := spi_flags s OR SPI_TX_FLAG\<rparr>, start_transfer t word (spi_format s 0) (spi_delay s))
         else
           (let t = t\<lparr>queued_control := word, queued_format := spi_format s 0, queued_delay := spi_delay s, queued_valid := 1\<rparr>
            in if tr_phase t = TRANSFER_T2C \<or> tr_phase t = TRANSFER_GAP
               then (s\<lparr>spi_flags := spi_flags s OR SPI_TX_FLAG\<rparr>, t\<lparr>tx_full := 0\<rparr>)
               else (s, t\<lparr>tx_full := 1\<rparr>)))"

text \<open>The tests of a timed store: the stores that reset or disable the module, the refusals, and the
  stores that are words for the converter.\<close>

definition timed_reset :: "u32 \<Rightarrow> u64 \<Rightarrow> bool" where
  "timed_reset address v \<longleftrightarrow> address - SPI1_BASE = 0 \<and> (ucast v :: u32) AND 1 = 0"

definition timed_disable :: "u32 \<Rightarrow> u64 \<Rightarrow> bool" where
  "timed_disable address v \<longleftrightarrow> address - SPI1_BASE = 4 \<and> (ucast v :: u32) AND SPI_ENABLE = 0"

definition timed_refused :: "spi_transfer \<Rightarrow> u32 \<Rightarrow> u64 \<Rightarrow> nat \<Rightarrow> bool" where
  "timed_refused t address v sz \<longleftrightarrow>
     \<not> timed_mapped address \<or> \<not> transfer_valid t \<or> tr_fault t \<noteq> 0 \<or> sz \<noteq> 4 \<or> v > 0xFFFFFFFF \<or> address AND 3 \<noteq> 0 \<or>
     (transfer_active t \<and> \<not> timed_reset address v \<and> \<not> timed_disable address v \<and>
      address - SPI1_BASE \<noteq> 0x10 \<and> address - SPI1_BASE \<noteq> 0x3C)"

definition timed_word :: "spis \<Rightarrow> u32 \<Rightarrow> bool" where
  "timed_word spis address \<longleftrightarrow> address - SPI1_BASE = 0x3C \<and> gcr1 (spis 1) AND SPI_ENABLE \<noteq> 0"

definition after_store :: "u32 \<Rightarrow> u64 \<Rightarrow> spi_transfer \<Rightarrow> spi_transfer" where
  "after_store address v t =
     (let t = (if timed_reset address v \<or> timed_disable address v then discard_transfer t else t)
      in if address - SPI1_BASE = 0x3C then t\<lparr>previous_cshold := ucast (shr (ucast v :: u32) 28 AND 1)\<rparr> else t)"

definition write_timed ::
  "spis \<Rightarrow> wm8740 \<Rightarrow> spi_transfer \<Rightarrow> u32 \<Rightarrow> u64 \<Rightarrow> nat \<Rightarrow> bool \<Rightarrow> (spis \<times> spi_transfer) option" where
  "write_timed spis dac t address v sz commit =
     (let s = spis 1; word = (ucast v :: u32)
      in if timed_refused t address v sz then None
         else if \<not> timed_word spis address then
           (case spis_write spis address v sz commit of None \<Rightarrow> None
            | Some spis \<Rightarrow> Some (spis, if commit then after_store address v t else t))
         else if \<not> strict_configuration s dac word \<or> previous_cshold t \<noteq> 0 \<or> queued_valid t \<noteq> 0 \<or>
           wm8740_write dac (ucast word) False = None then None
         else if \<not> commit then Some (spis, t)
         else (case accept_word s t word of (s, t) \<Rightarrow> Some (spis(1 := s), t)))"

section \<open>The passage of time\<close>

definition receive_pulled_up_word :: "spi \<Rightarrow> spi" where
  "receive_pulled_up_word s =
     (if receive_empty s then
        s\<lparr>receive_data := 0xFFFF, receive_status := receive_status s AND SPI_RX_OVERRUN_STATUS, receive_empty := False,
          spi_flags := spi_flags s OR SPI_RX_FLAG\<rparr>
      else if \<not> receive_buffer_full s then s\<lparr>receive_buffer_data := 0xFFFF, receive_buffer_full := True\<rparr>
      else s\<lparr>spi_flags := spi_flags s OR SPI_OVERRUN_FLAG, receive_status := receive_status s OR SPI_RX_OVERRUN_STATUS\<rparr>)"

definition finish_chip_select :: "spi \<Rightarrow> wm8740 \<Rightarrow> spi_transfer \<Rightarrow> (spi \<times> wm8740 \<times> spi_transfer) option" where
  "finish_chip_select s dac t =
     (case wm8740_write dac (ucast (active_control t)) True of None \<Rightarrow> None
      | Some dac \<Rightarrow>
          (let t = t\<lparr>previous_cshold := ucast (shr (active_control t) 28 AND 1)\<rparr>;
               t = t\<lparr>active_control := 0, active_format := 0, active_delay := 0, tr_phase := TRANSFER_GAP,
                     half_ticks_remaining := 4\<rparr>
           in Some (if queued_valid t = 0 then s\<lparr>spi_flags := spi_flags s OR SPI_TX_FLAG\<rparr> else s, dac, t)))"

definition finish_gap :: "spi \<Rightarrow> spi_transfer \<Rightarrow> spi \<times> spi_transfer" where
  "finish_gap s t =
     (if queued_valid t \<noteq> 0 then
        (s\<lparr>spi_flags := spi_flags s OR SPI_TX_FLAG\<rparr>,
         start_transfer (t\<lparr>queued_control := 0, queued_format := 0, queued_delay := 0, queued_valid := 0, tx_full := 0\<rparr>)
           (queued_control t) (queued_format t) (queued_delay t))
      else (s, t\<lparr>tr_phase := TRANSFER_IDLE, half_ticks_remaining := 0\<rparr>))"

text \<open>The end of the phase under way, its half ticks elapsed; \<open>None\<close> where the code reports a fault.\<close>

definition end_phase :: "spi \<Rightarrow> wm8740 \<Rightarrow> spi_transfer \<Rightarrow> (spi \<times> wm8740 \<times> spi_transfer) option" where
  "end_phase s dac t =
     (if tr_phase t = TRANSFER_C2T then
        Some (s, dac, t\<lparr>tr_phase := TRANSFER_SHIFT, half_ticks_remaining := shift_half_ticks (active_format t)\<rparr>)
      else if tr_phase t = TRANSFER_SHIFT then
        (let s = receive_pulled_up_word s;
             (s, t) = (if queued_valid t \<noteq> 0 then (s\<lparr>spi_flags := spi_flags s OR SPI_TX_FLAG\<rparr>, t\<lparr>tx_full := 0\<rparr>) else (s, t))
         in Some (s, dac, t\<lparr>tr_phase := TRANSFER_T2C,
              half_ticks_remaining := t2c_half_ticks (active_format t) (active_delay t)\<rparr>))
      else if tr_phase t = TRANSFER_T2C then finish_chip_select s dac t
      else if tr_phase t = TRANSFER_GAP then (case finish_gap s t of (s, t) \<Rightarrow> Some (s, dac, t))
      else None)"

text \<open>
  Every pass of the loop ends a phase, and the phases go forward: a queued word restarts
  them once. That is the measure, so the loop ends whatever the state.
\<close>

definition phases_left :: "spi_transfer \<Rightarrow> nat" where
  "phases_left t = (if queued_valid t \<noteq> 0 then 5 else 0) + (5 - unat (tr_phase t))"

lemma start_transfer_fields [simp]:
  "queued_valid (start_transfer t c f d) = queued_valid t" "tx_full (start_transfer t c f d) = tx_full t"
  "tr_fault (start_transfer t c f d) = tr_fault t" "clock_phase (start_transfer t c f d) = clock_phase t"
  "previous_cshold (start_transfer t c f d) = previous_cshold t" "tr_reserved (start_transfer t c f d) = tr_reserved t"
  "queued_control (start_transfer t c f d) = queued_control t" "queued_format (start_transfer t c f d) = queued_format t"
  "queued_delay (start_transfer t c f d) = queued_delay t" "active_control (start_transfer t c f d) = c"
  "active_format (start_transfer t c f d) = f" "active_delay (start_transfer t c f d) = d"
  by (simp_all add: start_transfer_def Let_def)

lemma phases_left_start: "phases_left (start_transfer t c f d) \<le> (if queued_valid t \<noteq> 0 then 5 else 0) + 4"
  by (simp add: phases_left_def start_transfer_def Let_def)

lemma end_phase_decreases:
  assumes "end_phase s dac t = Some (s', dac', t')" "tr_phase t \<noteq> TRANSFER_IDLE"
  shows "phases_left t' < phases_left t \<or> tr_phase t' = TRANSFER_IDLE"
proof -
  consider "tr_phase t = 1" | "tr_phase t = 2" | "tr_phase t = 3" | "tr_phase t = 4"
    using assms by (auto simp: end_phase_def split: if_splits)
  then show ?thesis
  proof cases
    case 4
    then show ?thesis
      using assms phases_left_start [of "t\<lparr>queued_control := 0, queued_format := 0, queued_delay := 0, queued_valid := 0, tx_full := 0\<rparr>"
          "queued_control t" "queued_format t" "queued_delay t"]
      by (auto simp: end_phase_def finish_gap_def phases_left_def simp del: start_transfer_fields split: if_splits)
  qed (use assms in \<open>auto simp: end_phase_def finish_chip_select_def phases_left_def Let_def split: if_splits option.splits\<close>)
qed

function advance_loop :: "u32 \<Rightarrow> spi \<Rightarrow> wm8740 \<Rightarrow> spi_transfer \<Rightarrow> bool \<times> spi \<times> wm8740 \<times> spi_transfer" where
  "advance_loop n s dac t =
     (if n = 0 \<or> tr_phase t = TRANSFER_IDLE then (True, s, dac, t)
      else if n < half_ticks_remaining t then
        (True, s, dac, t\<lparr>half_ticks_remaining := half_ticks_remaining t - n\<rparr>)
      else case end_phase s dac (t\<lparr>half_ticks_remaining := 0\<rparr>) of
        None \<Rightarrow> (False, s, dac, t\<lparr>half_ticks_remaining := 0, tr_fault := 1\<rparr>)
      | Some (s', dac', t') \<Rightarrow> advance_loop (n - half_ticks_remaining t) s' dac' t')"
  by pat_completeness auto

termination
proof (relation "measure (\<lambda>(n, s, dac, t). if tr_phase t = TRANSFER_IDLE then 0 else Suc (phases_left t))", simp)
  fix n :: u32 and s dac t x p s' q dac' t'
  assume n: "\<not> (n = 0 \<or> tr_phase t = TRANSFER_IDLE)" and "end_phase s dac (t\<lparr>half_ticks_remaining := 0\<rparr>) = Some x"
    "(p, q) = x" "(dac', t') = q"
  then have "phases_left t' < phases_left (t\<lparr>half_ticks_remaining := 0\<rparr>) \<or> tr_phase t' = TRANSFER_IDLE"
    by (intro end_phase_decreases [where s = s and dac = dac]) auto
  then show "((n - half_ticks_remaining t, p, dac', t'), n, s, dac, t)
    \<in> measure (\<lambda>(n, s, dac, t). if tr_phase t = TRANSFER_IDLE then 0 else Suc (phases_left t))"
    using n by (auto simp: phases_left_def)
qed

declare advance_loop.simps [simp del]

definition spi_advance :: "spis \<Rightarrow> wm8740 \<Rightarrow> spi_transfer \<Rightarrow> u32 \<Rightarrow> bool \<times> spis \<times> wm8740 \<times> spi_transfer" where
  "spi_advance spis dac t half_module_ticks =
     (if \<not> wm8740_valid dac \<or> \<not> transfer_valid t \<or> tr_fault t \<noteq> 0 then (False, spis, dac, t\<lparr>tr_fault := 1\<rparr>)
      else case advance_loop half_module_ticks (spis 1) dac t of (ok, s, dac, t) \<Rightarrow> (ok, spis(1 := s), dac, t))"

section \<open>The immediate endpoint of functional timing\<close>

definition write_wm8740 ::
  "spis \<Rightarrow> wm8740 \<Rightarrow> u32 \<Rightarrow> u64 \<Rightarrow> nat \<Rightarrow> bool \<Rightarrow> bool \<Rightarrow> (spis \<times> wm8740) option" where
  "write_wm8740 spis dac address v sz functional_timing commit =
     (case spi_decode address of None \<Rightarrow> None
      | Some (i, off) \<Rightarrow>
          if i \<noteq> 1 \<or> (off \<noteq> 0x38 \<and> off \<noteq> 0x3C) \<or> sz \<noteq> 4 \<or> v > 0xFFFFFFFF \<or> \<not> functional_timing then None
          else
            (let s = spis i; word = (ucast v :: u32)
             in if gcr1 s AND SPI_ENABLE = 0 \<or> gcr1 s AND 3 \<noteq> 3 \<or> gcr1 s AND shl 1 8 \<noteq> 0 \<or>
                   pin_function s AND SPI_WM8740_FUNCTION_PINS \<noteq> SPI_WM8740_FUNCTION_PINS then None
                else
                  (let control = (if off = 0x3C then word else dat1 s);
                       fmt = spi_format s (unat (shr control 24 AND 3))
                   in if control AND (shl 1 28 OR shl 1 16) \<noteq> 0 \<or> fmt AND 0x1F \<noteq> 16 \<or>
                         fmt AND (shl 1 22 OR shl 1 21 OR shl 1 20) \<noteq> 0 \<or> wm8740_write dac (ucast word) False = None
                      then None
                      else if \<not> commit then Some (spis, dac)
                      else
                        (let s = (if off = 0x38 then s\<lparr>dat0 := word AND 0xFFFF\<rparr> else s\<lparr>dat1 := word AND SPI_DAT1_WRITE_MASK\<rparr>);
                             s = s\<lparr>spi_flags := spi_flags s AND NOT SPI_TX_FLAG\<rparr>;
                             s = s\<lparr>spi_flags := spi_flags s OR SPI_TX_FLAG\<rparr>;
                             s = receive_pulled_up_word s
                         in map_option (\<lambda>dac. (spis(i := s), dac)) (wm8740_write dac (ucast word) True)))))"

section \<open>The clock\<close>

definition spi_divider :: "u32 \<Rightarrow> u32" where
  "spi_divider v = (if v AND 0x8000 \<noteq> 0 then (v AND 31) + 1 else 1)"

definition spi_clock_ready :: "pll \<Rightarrow> bool" where
  "spi_clock_ready pll \<longleftrightarrow>
     go_remaining pll = 0 \<and> active_dividers pll 0 AND 0x8000 \<noteq> 0 \<and> active_dividers pll 1 AND 0x8000 \<noteq> 0 \<and>
     spi_divider (active_dividers pll 1) = 2 * spi_divider (active_dividers pll 0)"

definition spi_core_tick :: "spis \<Rightarrow> wm8740 \<Rightarrow> spi_transfer \<Rightarrow> pll \<Rightarrow> spis \<times> wm8740 \<times> spi_transfer" where
  "spi_core_tick spis dac t pll =
     (if tr_fault t \<noteq> 0 then (spis, dac, t)
      else if \<not> spi_clock_ready pll then
        (spis, dac, if tr_phase t \<noteq> TRANSFER_IDLE \<or> queued_valid t \<noteq> 0 then t\<lparr>tr_fault := 1\<rparr> else t\<lparr>clock_phase := 0\<rparr>)
      else
        (let denominator = spi_divider (active_dividers pll 1); numerator = 2 * spi_divider (active_dividers pll 0);
             t = t\<lparr>clock_phase := clock_phase t + numerator\<rparr>;
             ticks = clock_phase t div denominator;
             t = t\<lparr>clock_phase := clock_phase t mod denominator\<rparr>
         in case spi_advance spis dac t ticks of (ok, spis, dac, t) \<Rightarrow>
              (spis, dac, if ok then t else t\<lparr>tr_fault := 1\<rparr>)))"

section \<open>Well-formed transfers\<close>

lemma no_word_0: "\<not> transfer_word_valid c 0 d" "\<not> transfer_word_valid c f 0"
  by (simp_all add: transfer_word_valid_def)

lemma transfer_valid_iff:
  "transfer_valid t \<longleftrightarrow>
     tr_phase t \<le> TRANSFER_GAP \<and> queued_valid t \<le> 1 \<and> tx_full t \<le> 1 \<and> previous_cshold t \<le> 1 \<and> tr_fault t \<le> 1 \<and>
     tr_reserved t 0 = 0 \<and> tr_reserved t 1 = 0 \<and> tr_reserved t 2 = 0 \<and>
     (tr_phase t = TRANSFER_IDLE \<longleftrightarrow> half_ticks_remaining t = 0) \<and>
     (if TRANSFER_C2T \<le> tr_phase t \<and> tr_phase t \<le> TRANSFER_T2C
      then transfer_word_valid (active_control t) (active_format t) (active_delay t)
      else active_control t = 0 \<and> active_format t = 0 \<and> active_delay t = 0) \<and>
     (if queued_valid t \<noteq> 0
      then transfer_word_valid (queued_control t) (queued_format t) (queued_delay t) \<and> tr_phase t \<noteq> TRANSFER_IDLE
      else queued_control t = 0 \<and> queued_format t = 0 \<and> queued_delay t = 0 \<and> tx_full t = 0) \<and>
     (tr_phase t \<ge> TRANSFER_T2C \<longrightarrow> tx_full t = 0)"
  by (auto simp: transfer_valid_def transfer_bytes_valid_def transfer_words_valid_def Let_def not_le not_less no_word_0)

lemma phase_order [simp]: "\<not> (3 :: u8) \<le> 1" "\<not> (3 :: u8) \<le> 2" "\<not> (4 :: u8) \<le> 3"
  by (simp_all add: word_le_nat_alt)

definition phase_length :: "u8 \<Rightarrow> u32" where
  "phase_length p = (if p = TRANSFER_C2T then 8 else if p = TRANSFER_SHIFT then 775 else if p = TRANSFER_T2C then 31 else 4)"

definition transfer_ok :: "spi_transfer \<Rightarrow> bool" where
  "transfer_ok t \<longleftrightarrow> transfer_valid t \<and> tr_fault t = 0 \<and> half_ticks_remaining t \<le> phase_length (tr_phase t)"

lemma phase_cases:
  "transfer_valid t \<Longrightarrow>
     tr_phase t = TRANSFER_IDLE \<or> tr_phase t = TRANSFER_C2T \<or> tr_phase t = TRANSFER_SHIFT \<or>
     tr_phase t = TRANSFER_T2C \<or> tr_phase t = TRANSFER_GAP"
proof -
  assume "transfer_valid t"
  then have "unat (tr_phase t) \<le> 4" by (simp add: transfer_valid_iff word_le_nat_alt)
  then have "unat (tr_phase t) = 0 \<or> unat (tr_phase t) = 1 \<or> unat (tr_phase t) = 2 \<or> unat (tr_phase t) = 3 \<or> unat (tr_phase t) = 4"
    by linarith
  then show ?thesis by (simp add: word_unat_eq_iff)
qed

text \<open>The times of the one word format the timed path accepts.\<close>

lemma strict_times:
  "c2t_half_ticks SPI_WM8740_STRICT_DELAY = 8" "shift_half_ticks SPI_WM8740_STRICT_FORMAT = 775"
  "t2c_half_ticks SPI_WM8740_STRICT_FORMAT SPI_WM8740_STRICT_DELAY = 31"
  by (simp_all add: c2t_half_ticks_def shift_half_ticks_def t2c_half_ticks_def Let_def)

lemma start_strict:
  "transfer_word_valid c f d \<Longrightarrow> tr_phase (start_transfer t c f d) = TRANSFER_C2T \<and> half_ticks_remaining (start_transfer t c f d) = 8"
  by (simp add: start_transfer_def Let_def transfer_word_valid_def strict_times)

section \<open>The converter's words\<close>

text \<open>What a word does to the converter, and the words accepted and not latched yet.\<close>

definition latch :: "u32 \<Rightarrow> wm8740 \<Rightarrow> wm8740" where
  "latch w dac = the (wm8740_write dac (ucast w) True)"

definition pending :: "spi_transfer \<Rightarrow> u32 list" where
  "pending t =
     (if TRANSFER_C2T \<le> tr_phase t \<and> tr_phase t \<le> TRANSFER_T2C then [active_control t] else []) @
     (if queued_valid t \<noteq> 0 then [queued_control t] else [])"

lemma word_register: "(ucast (shr (ucast (w :: u32) :: u16) 9 AND 7) :: u32) = shr w 9 AND 7"
proof -
  have m: "(7 :: u16) = mask 3" "(7 :: u32) = mask 3" by (simp_all add: mask_eq_exp_minus_1)
  show ?thesis unfolding m by (rule bit_word_eqI) (auto simp: bit_simps)
qed

lemma word_accepted:
  assumes "wm8740_word_valid w"
  shows "wm8740_write dac (ucast w) True = Some (latch w dac)" "wm8740_write dac (ucast w) False = Some dac"
proof -
  have a: "shr w 9 AND 7 \<le> 3 \<or> shr w 9 AND 7 = 6"
    using assms by (auto simp: wm8740_word_valid_def Let_def)
  have "ucast (3 :: u16) = (3 :: u32)" "ucast (6 :: u16) = (6 :: u32)" by simp_all
  then have n: "shr (ucast w :: u16) 9 AND 7 \<le> 3 \<or> shr (ucast w :: u16) 9 AND 7 = 6"
    using a unfolding word_register [symmetric] by (auto simp: word_le_nat_alt word_unat_eq_iff unsigned_ucast_eq)
  then have "wm8740_write dac (ucast w) c \<noteq> None" for c by (auto simp: wm8740_write_def Let_def not_less)
  then show "wm8740_write dac (ucast w) True = Some (latch w dac)" by (simp add: latch_def)
  show "wm8740_write dac (ucast w) False = Some dac" using n by (auto simp: wm8740_write_def Let_def not_less)
qed

lemma word_no_cshold: "wm8740_word_valid w \<Longrightarrow> shr w 28 AND 1 = 0"
proof -
  assume "wm8740_word_valid w"
  then have "w AND 0xFFFF0000 = 0" by (simp add: wm8740_word_valid_def Let_def)
  moreover have "shr w 28 AND 1 = shr (w AND 0xFFFF0000) 28 AND 1"
    unfolding drop_bit_and by (simp add: and.assoc)
  ultimately show ?thesis by simp
qed

lemma valid_upd [simp]:
  "wm8740_valid (dac\<lparr>last_word := w\<rparr>) = wm8740_valid dac" "wm8740_valid (dac\<lparr>dac_transfers := n\<rparr>) = wm8740_valid dac"
  "wm8740_valid (dac\<lparr>active_attenuation := f\<rparr>) = wm8740_valid dac"
  by (simp_all add: wm8740_valid_def)

lemma valid_program:
  assumes "wm8740_valid dac" "i \<le> 2 \<longrightarrow> d \<le> 0x1FF" "i = 3 \<longrightarrow> d AND NOT 0x1DF = 0" "i = 4 \<longrightarrow> d AND NOT 0x70 = 0"
  shows "wm8740_valid (dac\<lparr>dac_program := (dac_program dac)(i := d)\<rparr>)"
  using assms unfolding wm8740_valid_def by (simp add: not_less)

lemma valid_unlocked: "wm8740_valid dac \<Longrightarrow> wm8740_valid (dac\<lparr>register4_unlocked := 1\<rparr>)"
  by (simp add: wm8740_valid_def)

lemma latch_valid:
  assumes "wm8740_valid dac" "wm8740_write dac w True = Some dac'"
  shows "wm8740_valid dac'"
proof -
  define a d where "a = shr w 9 AND 7" and "d = w AND 0x1FF"
  have d: "d \<le> 0x1FF" unfolding d_def by (rule word_and_le1)
  define dac1 where "dac1 = dac\<lparr>last_word := w, dac_transfers := dac_transfers dac + 1\<rparr>"
  have v: "wm8740_valid dac1" using assms(1) by (simp add: dac1_def)
  define dac2 where "dac2 = dac1\<lparr>dac_program := (dac_program dac1)(unat a := d)\<rparr>"
  have "wm8740_valid dac2" if "a \<le> 1"
    unfolding dac2_def using that d by (intro valid_program v) (auto simp: word_le_nat_alt)
  moreover have "wm8740_valid (dac1\<lparr>dac_program := (dac_program dac1)(2 := d)\<rparr>)"
    by (intro valid_program v) (auto simp: d)
  moreover have "wm8740_valid (dac1\<lparr>dac_program := (dac_program dac1)(3 := d AND 0x1DF)\<rparr>)"
    by (intro valid_program v) (auto simp: and.assoc)
  moreover have "wm8740_valid (dac1\<lparr>dac_program := (dac_program dac1)(4 := d AND 0x70)\<rparr>)"
    by (intro valid_program v) (auto simp: and.assoc)
  ultimately show ?thesis
    using assms(2) v unfolding wm8740_write_def Let_def a_def [symmetric] d_def [symmetric] dac1_def [symmetric]
    by (auto simp: dac2_def [symmetric] valid_unlocked simp del: fun_upd_apply split: if_splits)
qed

section \<open>One phase ends\<close>

text \<open>In a well-formed transfer the end of a phase succeeds, leaves a well-formed transfer, latches the
  pending words in order, and takes the time the phase had left.\<close>

definition rest_of_word :: "u8 \<Rightarrow> nat" where
  "rest_of_word p = (if p = TRANSFER_C2T then 810 else if p = TRANSFER_SHIFT then 35 else if p = TRANSFER_T2C then 4 else 0)"

definition time_left :: "spi_transfer \<Rightarrow> nat" where
  "time_left t = unat (half_ticks_remaining t) + rest_of_word (tr_phase t) + (if queued_valid t \<noteq> 0 then 818 else 0)"

definition latch_all :: "u32 list \<Rightarrow> wm8740 \<Rightarrow> wm8740" where
  "latch_all ws dac = fold latch ws dac"

definition phase_done :: "wm8740 \<Rightarrow> spi_transfer \<Rightarrow> (spi \<times> wm8740 \<times> spi_transfer) option \<Rightarrow> bool" where
  "phase_done dac t r \<longleftrightarrow>
     (case r of None \<Rightarrow> False
      | Some (s', dac', t') \<Rightarrow>
          (let ended = (if tr_phase t = TRANSFER_T2C then [active_control t] else [])
           in transfer_ok t' \<and> wm8740_valid dac' \<and> pending t = ended @ pending t' \<and> dac' = latch_all ended dac \<and>
              time_left t' = rest_of_word (tr_phase t) + (if queued_valid t \<noteq> 0 then 818 else 0) \<and>
              (queued_valid t = 0 \<longrightarrow> queued_valid t' = 0) \<and> clock_phase t' = clock_phase t))"

lemma end_phase_done:
  assumes ok: "transfer_ok t" and dac: "wm8740_valid dac" and busy: "tr_phase t \<noteq> TRANSFER_IDLE"
  shows "phase_done dac t (end_phase s dac (t\<lparr>half_ticks_remaining := 0\<rparr>))"
proof -
  have v: "transfer_valid t" "tr_fault t = 0" "half_ticks_remaining t \<le> phase_length (tr_phase t)"
    using ok by (simp_all add: transfer_ok_def)
  note defs = end_phase_def phase_done_def transfer_ok_def transfer_valid_iff pending_def time_left_def rest_of_word_def
    phase_length_def latch_all_def
  have w: "transfer_word_valid (active_control t) (active_format t) (active_delay t)"
    if "tr_phase t = 1 \<or> tr_phase t = 2 \<or> tr_phase t = 3" using v that by (auto simp: transfer_valid_iff)
  have f: "active_format t = SPI_WM8740_STRICT_FORMAT" "active_delay t = SPI_WM8740_STRICT_DELAY" "wm8740_word_valid (active_control t)"
    if "tr_phase t = 1 \<or> tr_phase t = 2 \<or> tr_phase t = 3" using w [OF that] by (simp_all add: transfer_word_valid_def)
  consider (c2t) "tr_phase t = TRANSFER_C2T" | (shift) "tr_phase t = TRANSFER_SHIFT" | (t2c) "tr_phase t = TRANSFER_T2C"
    | (gap) "tr_phase t = TRANSFER_GAP"
    using phase_cases [OF v(1)] busy by blast
  then show ?thesis
  proof cases
    case c2t
    then show ?thesis using v w f dac by (auto simp: defs strict_times)
  next
    case shift
    then show ?thesis using v w f dac by (auto simp: defs strict_times Let_def)
  next
    case t2c
    then have w: "wm8740_word_valid (active_control t)" using f(3) by simp
    have l: "wm8740_write dac (ucast (active_control t)) True = Some (latch (active_control t) dac)" by (rule word_accepted(1) [OF w])
    show ?thesis
      using t2c v word_no_cshold [OF w] latch_valid [OF dac l] by (auto simp: defs finish_chip_select_def l Let_def latch_all_def)
  next
    case gap
    show ?thesis
    proof (cases "queued_valid t = 0")
      case True
      then show ?thesis using gap v dac by (auto simp: defs finish_gap_def)
    next
      case False
      then have w: "transfer_word_valid (queued_control t) (queued_format t) (queued_delay t)" using v by (simp add: transfer_valid_iff)
      show ?thesis
        using gap v False w start_strict [OF w] dac by (auto simp: defs finish_gap_def no_word_0)
    qed
  qed
qed

section \<open>The loop\<close>

lemma idle_time_left: "transfer_ok t \<Longrightarrow> tr_phase t = TRANSFER_IDLE \<longleftrightarrow> time_left t = 0"
  by (cases "queued_valid t = 0") (auto simp: transfer_ok_def transfer_valid_iff time_left_def rest_of_word_def unsigned_eq_0_iff)

lemma pending_idle: "transfer_ok t \<Longrightarrow> tr_phase t = TRANSFER_IDLE \<Longrightarrow> pending t = [] \<and> \<not> transfer_active t"
  by (cases "queued_valid t = 0") (auto simp: transfer_ok_def transfer_valid_iff pending_def transfer_active_def)

text \<open>Time passes exactly: the loop succeeds, and what is left of the transfer is what was left less the
  elapsed half ticks.\<close>

definition time_passed :: "u32 \<Rightarrow> wm8740 \<Rightarrow> spi_transfer \<Rightarrow> bool \<times> spi \<times> wm8740 \<times> spi_transfer \<Rightarrow> bool" where
  "time_passed n dac t r \<longleftrightarrow>
     (case r of (ok, s', dac', t') \<Rightarrow>
        ok \<and> transfer_ok t' \<and> wm8740_valid dac' \<and> (\<exists>p. pending t = p @ pending t' \<and> dac' = latch_all p dac) \<and>
        time_left t' = time_left t - unat n \<and> (queued_valid t = 0 \<longrightarrow> queued_valid t' = 0) \<and> clock_phase t' = clock_phase t)"

lemma latch_all_append: "latch_all (p @ q) dac = latch_all q (latch_all p dac)"
  by (simp add: latch_all_def)

lemma time_passed_trans:
  assumes "pending t = p @ pending u" "dac' = latch_all p dac" "time_left u = time_left t - unat m" "clock_phase u = clock_phase t"
    "queued_valid t = 0 \<longrightarrow> queued_valid u = 0" "time_passed n dac' u r" "unat k = unat m + unat n"
  shows "time_passed k dac t r"
proof -
  obtain ok s' d' t' where r: "r = (ok, s', d', t')" by (cases r)
  obtain q where q: "pending u = q @ pending t'" "d' = latch_all q dac'" using assms(6) by (auto simp: time_passed_def r)
  have "pending t = (p @ q) @ pending t'" "d' = latch_all (p @ q) dac" using assms(1,2) q by (simp_all add: latch_all_append)
  then show ?thesis using assms(3-) unfolding time_passed_def r by auto
qed

lemma advance_loop_ok: "transfer_ok t \<Longrightarrow> wm8740_valid dac \<Longrightarrow> time_passed n dac t (advance_loop n s dac t)"
proof (induction n s dac t rule: advance_loop.induct)
  case (1 n s dac t)
  have nil: "\<exists>p. pending t = p @ pending t \<and> dac = latch_all p dac" by (rule exI [of _ "[]"]) (simp add: latch_all_def)
  consider (stop) "n = 0 \<or> tr_phase t = TRANSFER_IDLE"
    | (part) "n \<noteq> 0" "tr_phase t \<noteq> TRANSFER_IDLE" "n < half_ticks_remaining t"
    | (pass) "\<not> (n = 0 \<or> tr_phase t = TRANSFER_IDLE)" "\<not> n < half_ticks_remaining t" by blast
  then show ?case
  proof cases
    case stop
    then have "time_left t = 0 \<or> n = 0" using idle_time_left [OF 1(2)] by blast
    moreover have "advance_loop n s dac t = (True, s, dac, t)" using stop by (subst advance_loop.simps) simp
    ultimately show ?thesis using 1(2-) nil by (auto simp: time_passed_def)
  next
    case part
    let ?t = "t\<lparr>half_ticks_remaining := half_ticks_remaining t - n\<rparr>"
    have u: "unat (half_ticks_remaining t - n) = unat (half_ticks_remaining t) - unat n"
      using part by (simp add: unat_sub word_less_nat_alt word_le_nat_alt)
    have "half_ticks_remaining t - n \<noteq> 0" using part(3) by auto
    moreover have "half_ticks_remaining t - n \<le> phase_length (tr_phase t)"
      using 1(2) u by (auto simp: transfer_ok_def word_le_nat_alt intro: le_trans [OF diff_le_self])
    ultimately have "transfer_ok ?t" using 1(2) part by (simp add: transfer_ok_def transfer_valid_iff)
    moreover have "pending ?t = pending t" by (simp add: pending_def)
    moreover have "advance_loop n s dac t = (True, s, dac, ?t)" using part by (subst advance_loop.simps) simp
    ultimately show ?thesis
      using part 1(2-) u nil by (simp add: time_passed_def time_left_def word_less_nat_alt)
  next
    case pass
    let ?p = "if tr_phase t = TRANSFER_T2C then [active_control t] else []"
    obtain s' dac' t' where e: "end_phase s dac (t\<lparr>half_ticks_remaining := 0\<rparr>) = Some (s', dac', t')" and
      d: "transfer_ok t'" "wm8740_valid dac'" "pending t = ?p @ pending t'" "dac' = latch_all ?p dac"
      "time_left t' = rest_of_word (tr_phase t) + (if queued_valid t \<noteq> 0 then 818 else 0)" "clock_phase t' = clock_phase t"
      "queued_valid t = 0 \<longrightarrow> queued_valid t' = 0"
      using end_phase_done [OF 1(2,3), of s] pass(1) by (auto simp: phase_done_def Let_def split: option.splits)
    have u: "unat n = unat (half_ticks_remaining t) + unat (n - half_ticks_remaining t)"
      using pass(2) by (simp add: unat_sub word_le_nat_alt not_less)
    have "advance_loop n s dac t = advance_loop (n - half_ticks_remaining t) s' dac' t'"
      using pass e by (subst advance_loop.simps) simp
    moreover have "time_passed (n - half_ticks_remaining t) dac' t' (advance_loop (n - half_ticks_remaining t) s' dac' t')"
      by (rule 1(1) [OF pass(1,2) e refl refl d(1,2)])
    ultimately show ?thesis
      using time_passed_trans [OF d(3,4) _ d(6,7) _ u] d(5) by (simp add: time_left_def)
  qed
qed

text \<open>Batches add up.\<close>

lemma advance_loop_add:
  assumes "advance_loop a s dac t = (True, s', dac', t')" "unat a + unat b < 2 ^ 32"
  shows "advance_loop (a + b) s dac t = advance_loop b s' dac' t'"
  using assms
proof (induction a s dac t rule: advance_loop.induct)
  case (1 a s dac t)
  have u: "unat (a + b) = unat a + unat b" using 1(3) by (simp add: unat_word_ariths)
  consider (zero) "a = 0" | (idle) "tr_phase t = TRANSFER_IDLE"
    | (part) "a \<noteq> 0" "tr_phase t \<noteq> TRANSFER_IDLE" "a < half_ticks_remaining t"
    | (pass) "\<not> (a = 0 \<or> tr_phase t = TRANSFER_IDLE)" "\<not> a < half_ticks_remaining t" by blast
  then show ?case
  proof cases
    case zero
    then show ?thesis using 1(2) by (simp add: advance_loop.simps [of 0])
  next
    case idle
    then show ?thesis using 1(2) by (auto simp: advance_loop.simps [of a] advance_loop.simps [of b] advance_loop.simps [of "a + b"])
  next
    case part
    have nz: "a + b \<noteq> 0" using u part(1) by (metis add_is_0 unat_0 unsigned_eq_0_iff)
    have lt: "b < half_ticks_remaining t - a \<longleftrightarrow> a + b < half_ticks_remaining t"
      using part(3) u by (simp add: word_less_nat_alt unat_sub word_le_nat_alt) linarith
    have e: "s' = s" "dac' = dac" "t' = t\<lparr>half_ticks_remaining := half_ticks_remaining t - a\<rparr>"
      using part 1(2) by (simp_all add: advance_loop.simps [of a])
    have r: "a + b - half_ticks_remaining t = b - (half_ticks_remaining t - a)" by (simp add: algebra_simps)
    show ?thesis
    proof (cases "b = 0")
      case True
      then show ?thesis unfolding e using part by (simp add: advance_loop.simps [of a] advance_loop.simps [of 0])
    next
      case False
      then show ?thesis
        unfolding e using part nz lt
        by (simp add: advance_loop.simps [of "a + b"] advance_loop.simps [of b] r diff_diff_eq split: option.split)
    qed
  next
    case pass
    then obtain s1 dac1 t1 where e: "end_phase s dac (t\<lparr>half_ticks_remaining := 0\<rparr>) = Some (s1, dac1, t1)"
      "advance_loop (a - half_ticks_remaining t) s1 dac1 t1 = (True, s', dac', t')"
      using 1(2) by (subst (asm) advance_loop.simps) (auto split: option.splits)
    have h: "unat (a - half_ticks_remaining t) = unat a - unat (half_ticks_remaining t)" "unat (half_ticks_remaining t) \<le> unat a"
      using pass(2) by (simp_all add: unat_sub word_le_nat_alt not_less)
    have "advance_loop (a - half_ticks_remaining t + b) s1 dac1 t1 = advance_loop b s' dac' t'"
      using h 1(3) by (intro 1(1) [OF pass e(1) refl refl e(2)]) simp
    moreover have "a + b \<noteq> 0" "\<not> a + b < half_ticks_remaining t"
      using pass h u by (metis add_is_0 unat_0 unsigned_eq_0_iff, simp add: word_less_nat_alt)
    ultimately show ?thesis
      using pass e by (simp add: advance_loop.simps [of "a + b"] algebra_simps)
  qed
qed

section \<open>Contract\<close>

lemma spi_write_check: "spi_write s off w False = (if spi_write s off w True = None then None else Some s)"
  by (simp add: spi_write_def Let_def)

interpretation spis_mmio: mmio_port spis_write
proof
  fix s s' :: spis and a v n
  have *: "spis_write s a v n False = (if spis_write s a v n True = None then None else Some s)"
    by (auto simp: spis_write_def spi_write_check split: option.split)
  show "spis_write s a v n False = Some s' \<Longrightarrow> s' = s" using * by (simp split: if_splits)
  show "spis_write s a v n True = None \<longleftrightarrow> spis_write s a v n False = None" using * by simp
qed

interpretation timed_mmio: mmio_port "\<lambda>(spis, t) a v n c. write_timed spis dac t a v n c" for dac
proof
  fix x x' :: "spis \<times> spi_transfer" and a v n
  have *: "write_timed s dac t a v n False = (if write_timed s dac t a v n True = None then None else Some (s, t))" for s t
    unfolding write_timed_def Let_def spis_mmio.check_result [of s a v n]
    by (auto simp only: if_True if_False split: if_split option.split prod.split) 
  show "(case x of (s, t) \<Rightarrow> \<lambda>a v n c. write_timed s dac t a v n c) a v n False = Some x' \<Longrightarrow> x' = x"
    using * by (auto split: prod.splits if_splits)
  show "(case x of (s, t) \<Rightarrow> \<lambda>a v n c. write_timed s dac t a v n c) a v n True = None \<longleftrightarrow>
    (case x of (s, t) \<Rightarrow> \<lambda>a v n c. write_timed s dac t a v n c) a v n False = None"
    using * by (auto split: prod.splits)
qed

text \<open>What an accepted timed store does to the transfer.\<close>

lemma discard_ok: "transfer_ok (discard_transfer t)"
  by (simp add: discard_transfer_def transfer_reset_def transfer_ok_def transfer_valid_iff phase_length_def)

lemma cshold_bit: "ucast (shr (w :: u32) 28 AND 1) \<le> (1 :: u8)"
  by (simp add: and_1_bit c_bool_def)

lemma cshold_ok:
  assumes "transfer_ok t" "x \<le> 1"
  shows "transfer_ok (t\<lparr>previous_cshold := x\<rparr>)"
proof -
  have "transfer_words_valid (t\<lparr>previous_cshold := x\<rparr>) = transfer_words_valid t"
    unfolding transfer_words_valid_def by (cases t) (simp only: spi_transfer.simps)
  then show ?thesis using assms by (simp add: transfer_ok_def transfer_valid_def transfer_bytes_valid_def)
qed

lemma after_store_ok: "transfer_ok t \<Longrightarrow> transfer_ok (after_store a v t)"
  by (simp add: after_store_def Let_def discard_ok cshold_ok cshold_bit)

lemma after_store_frame:
  "clock_phase (after_store a v t) = clock_phase t"
  "pending (after_store a v t) = (if timed_reset a v \<or> timed_disable a v then [] else pending t)"
  by (simp_all add: after_store_def Let_def pending_def discard_transfer_def transfer_reset_def)

lemma accept_word_ok:
  assumes ok: "transfer_ok t" and w: "strict_configuration s dac w" and q: "queued_valid t = 0" "accept_word s t w = (s', t')"
  shows "transfer_ok t' \<and> clock_phase t' = clock_phase t \<and> pending t' = pending t @ [w] \<and>
    time_left t' = time_left t + 818"
proof -
  have v: "transfer_valid t" "tr_fault t = 0" "half_ticks_remaining t \<le> phase_length (tr_phase t)"
    using ok by (simp_all add: transfer_ok_def)
  have wv: "transfer_word_valid w (spi_format s 0) (spi_delay s)"
    using w by (simp add: strict_configuration_def transfer_word_valid_def)
  have tf: "tx_full t = 0" using v(1) q(1) by (simp add: transfer_valid_iff)
  show ?thesis
  proof (cases "tr_phase t = TRANSFER_IDLE")
    case True
    then have t': "t' = start_transfer t w (spi_format s 0) (spi_delay s)"
      using q tf by (simp add: accept_word_def Let_def transfer_active_def)
    show ?thesis
      using True v q(1) start_strict [OF wv, of t] wv
      by (simp add: t' transfer_ok_def transfer_valid_iff pending_def time_left_def rest_of_word_def phase_length_def)
  next
    case False
    then have b: "transfer_active t" by (simp add: transfer_active_def)
    define t1 where "t1 = t\<lparr>queued_control := w, queued_format := spi_format s 0, queued_delay := spi_delay s, queued_valid := 1\<rparr>"
    have t': "t' = t1\<lparr>tx_full := (if tr_phase t = TRANSFER_T2C \<or> tr_phase t = TRANSFER_GAP then 0 else 1)\<rparr>"
      using q(2) b by (auto simp: accept_word_def Let_def t1_def split: if_splits)
    consider "tr_phase t = 1" | "tr_phase t = 2" | "tr_phase t = 3" | "tr_phase t = 4" using phase_cases [OF v(1)] False by auto
    then show ?thesis using v q(1) wv by cases (simp_all add: t' t1_def transfer_ok_def transfer_valid_iff pending_def time_left_def phase_length_def)
  qed
qed

lemma spi_advance_eq:
  "transfer_ok t \<Longrightarrow> wm8740_valid dac \<Longrightarrow>
     spi_advance spis dac t n = (case advance_loop n (spis 1) dac t of (ok, s, dac, t) \<Rightarrow> (ok, spis(1 := s), dac, t))"
  by (simp add: spi_advance_def transfer_ok_def split: prod.split)

section \<open>Runs\<close>

text \<open>The states reached from reset by the timed operations, with the words accepted so far; a store that
  resets or disables the module drops the words still pending.\<close>

inductive spi_run :: "spis \<Rightarrow> wm8740 \<Rightarrow> spi_transfer \<Rightarrow> u32 list \<Rightarrow> bool" where
  start: "spi_run spis_reset wm8740_reset transfer_reset []"
| pins: "spi_run s d t ws \<Longrightarrow> spi_run (set_pins s i valid v) d t ws"
| load: "spi_run s d t ws \<Longrightarrow> read_timed s t a = Some (v, s') \<Longrightarrow> spi_run s' d t ws"
| word: "spi_run s d t ws \<Longrightarrow> write_timed s d t a v n True = Some (s', t') \<Longrightarrow> timed_word s a \<Longrightarrow> spi_run s' d t' (ws @ [ucast v])"
| store: "spi_run s d t ws \<Longrightarrow> write_timed s d t a v n True = Some (s', t') \<Longrightarrow> \<not> timed_word s a \<Longrightarrow>
    \<not> (timed_reset a v \<or> timed_disable a v) \<Longrightarrow> spi_run s' d t' ws"
| discard: "spi_run s d t ws \<Longrightarrow> write_timed s d t a v n True = Some (s', t') \<Longrightarrow> \<not> timed_word s a \<Longrightarrow>
    timed_reset a v \<or> timed_disable a v \<Longrightarrow> spi_run s' d t' (take (length ws - length (pending t)) ws)"
| elapse: "spi_run s d t ws \<Longrightarrow> spi_advance s d t n = (ok, s', d', t') \<Longrightarrow> spi_run s' d' t' ws"

definition run_ok :: "wm8740 \<Rightarrow> spi_transfer \<Rightarrow> u32 list \<Rightarrow> bool" where
  "run_ok d t ws \<longleftrightarrow> transfer_ok t \<and> wm8740_valid d \<and> (\<forall>w\<in>set ws. wm8740_word_valid w) \<and>
     (\<exists>latched. ws = latched @ pending t \<and> d = latch_all latched wm8740_reset)"

lemma write_timed_word:
  assumes "write_timed s d t a v n True = Some (s', t')" "timed_word s a"
  obtains s1 where "strict_configuration (s 1) d (ucast v)" "queued_valid t = 0" "accept_word (s 1) t (ucast v) = (s1, t')"
    "s' = s(1 := s1)"
  using assms by (auto simp: write_timed_def Let_def split: if_splits prod.splits)

lemma write_timed_store:
  assumes "write_timed s d t a v n True = Some (s', t')" "\<not> timed_word s a"
  shows "spis_write s a v n True = Some s' \<and> t' = after_store a v t"
  using assms by (auto simp: write_timed_def Let_def split: if_splits option.splits)

lemma run_reach_ok: "spi_run s d t ws \<Longrightarrow> run_ok d t ws"
proof (induction rule: spi_run.induct)
  case start
  show ?case
    by (simp add: run_ok_def transfer_ok_def transfer_valid_iff transfer_reset_def wm8740_valid_def wm8740_reset_def
        pending_def latch_all_def phase_length_def)
next
  case (word s d t ws a v n s' t')
  obtain s1 where w: "strict_configuration (s 1) d (ucast v)" "queued_valid t = 0" "accept_word (s 1) t (ucast v) = (s1, t')"
    using write_timed_word [OF word(2,3)] by metis
  then have "wm8740_word_valid (ucast v)" by (simp add: strict_configuration_def)
  then show ?case
    using accept_word_ok [OF _ w] word.IH by (auto simp: run_ok_def)
next
  case (store s d t ws a v n s' t')
  then show ?case using write_timed_store [OF store(2,3)] after_store_ok [of t a v] by (auto simp: run_ok_def after_store_frame)
next
  case (discard s d t ws a v n s' t')
  then show ?case
    using write_timed_store [OF discard(2,3)] after_store_ok [of t a v]
    by (auto simp: run_ok_def after_store_frame dest: in_set_takeD)
next
  case (elapse s d t ws n ok s' d' t')
  then have e: "spi_advance s d t n = (case advance_loop n (s 1) d t of (ok, s1, dac, t) \<Rightarrow> (ok, s(1 := s1), dac, t))"
    by (intro spi_advance_eq) (simp_all add: run_ok_def)
  obtain ok1 s1 where a: "advance_loop n (s 1) d t = (ok1, s1, d', t')"
    using elapse(2) e by (auto split: prod.splits)
  have "time_passed n d t (advance_loop n (s 1) d t)" using elapse.IH by (intro advance_loop_ok) (simp_all add: run_ok_def)
  then obtain p where p: "transfer_ok t'" "wm8740_valid d'" "pending t = p @ pending t'" "d' = latch_all p d"
    unfolding a by (auto simp: time_passed_def)
  obtain l where "ws = l @ pending t" "d = latch_all l wm8740_reset" using elapse.IH by (auto simp: run_ok_def)
  then have "ws = (l @ p) @ pending t'" "d' = latch_all (l @ p) wm8740_reset" using p by (simp_all add: latch_all_append)
  then show ?case using elapse.IH p(1,2) unfolding run_ok_def by blast
qed simp_all

lemma pending_le_2: "length (pending t) \<le> 2"
  by (simp add: pending_def)

text \<open>C12: audio converter control path. In every state reached from reset with the cycle-timed serial port, the
  transfer state is valid and free of faults, at most two accepted words are pending, and the converter has
  latched exactly the accepted words before them, each once and in the order of their stores.\<close>

theorem spi_words_in_order:
  assumes "spi_run s d t ws"
  shows "transfer_valid t \<and> tr_fault t = 0 \<and> wm8740_valid d \<and> length (pending t) \<le> 2 \<and>
    (\<exists>latched. ws = latched @ pending t \<and> d = fold (\<lambda>w d. the (wm8740_write d (ucast w) True)) latched wm8740_reset)"
  using run_reach_ok [OF assms] pending_le_2 [of t] unfolding run_ok_def transfer_ok_def latch_all_def latch_def [abs_def] by blast

section \<open>One core cycle\<close>

lemma divider_range: "1 \<le> unat (spi_divider w)" "unat (spi_divider w) \<le> 32"
proof -
  have "unat (w AND 31) \<le> 31" using word_and_le1 [of w 31] by (simp add: word_le_nat_alt)
  then have "unat ((w AND 31) + 1) = unat (w AND 31) + 1" by (simp add: unat_word_ariths)
  then show "1 \<le> unat (spi_divider w)" "unat (spi_divider w) \<le> 32"
    using \<open>unat (w AND 31) \<le> 31\<close> by (simp_all add: spi_divider_def)
qed

definition phase_ok :: "pll \<Rightarrow> spi_transfer \<Rightarrow> bool" where
  "phase_ok pll t \<longleftrightarrow> clock_phase t < spi_divider (active_dividers pll 1)"

text \<open>With the required ratio of the two clocks a core cycle is one half period of the module clock.\<close>

lemma core_tick_one:
  assumes ok: "transfer_ok t" "wm8740_valid dac" and clk: "spi_clock_ready pll" "phase_ok pll t"
  shows "spi_core_tick spis dac t pll = (case advance_loop 1 (spis 1) dac t of (_, s, dac, t) \<Rightarrow> (spis(1 := s), dac, t))"
proof -
  define d where "d = spi_divider (active_dividers pll 1)"
  have n: "2 * spi_divider (active_dividers pll 0) = d" using clk(1) by (simp add: spi_clock_ready_def d_def)
  have d: "0 < unat d" "unat d \<le> 32" using divider_range [of "active_dividers pll 1"] by (simp_all add: d_def)
  have c: "unat (clock_phase t) < unat d" using clk(2) by (simp add: phase_ok_def d_def word_less_nat_alt)
  have u: "unat (clock_phase t + d) = unat (clock_phase t) + unat d" using c d by (simp add: unat_word_ariths)
  have "(clock_phase t + d) div d = 1" "(clock_phase t + d) mod d = clock_phase t"
    using u c d by (simp_all add: word_unat_eq_iff unat_div unat_mod div_add_self2)
  moreover have "t\<lparr>clock_phase := clock_phase t + d, clock_phase := clock_phase t\<rparr> = t" by simp
  ultimately have e: "spi_core_tick spis dac t pll = (case spi_advance spis dac t 1 of (ok, spis, dac, t) \<Rightarrow>
      (spis, dac, if ok then t else t\<lparr>tr_fault := 1\<rparr>))"
    using ok clk(1) by (simp add: spi_core_tick_def Let_def transfer_ok_def n d_def [symmetric] del: One_nat_def)
  have "fst (advance_loop 1 (spis 1) dac t)" using advance_loop_ok [OF ok, of 1 "spis 1"] by (auto simp: time_passed_def)
  then show ?thesis unfolding e spi_advance_eq [OF ok] by (auto split: prod.split)
qed

definition core_ticks :: "(nat \<Rightarrow> pll) \<Rightarrow> nat \<Rightarrow> spis \<times> wm8740 \<times> spi_transfer \<Rightarrow> spis \<times> wm8740 \<times> spi_transfer" where
  "core_ticks plls k st = fold (\<lambda>i (spis, dac, t). spi_core_tick spis dac t (plls i)) [0..<k] st"

lemma core_ticks_eq:
  assumes ok: "transfer_ok t" "wm8740_valid dac" and clk: "\<And>i. i < k \<Longrightarrow> spi_clock_ready (plls i) \<and> phase_ok (plls i) t"
    and k: "k < 2 ^ 32"
  shows "core_ticks plls k (spis, dac, t) = (case advance_loop (of_nat k) (spis 1) dac t of (_, s, dac, t) \<Rightarrow> (spis(1 := s), dac, t))"
  using clk k
proof (induction k)
  case 0
  then show ?case by (simp add: core_ticks_def advance_loop.simps [of 0] fun_eq_iff)
next
  case (Suc k)
  obtain okk s d u where a: "advance_loop (of_nat k) (spis 1) dac t = (okk, s, d, u)" by (cases "advance_loop (of_nat k) (spis 1) dac t")
  have p: "time_passed (of_nat k) dac t (okk, s, d, u)" using advance_loop_ok [OF ok, of "of_nat k" "spis 1"] unfolding a .
  then have u: "okk" "transfer_ok u" "wm8740_valid d" "clock_phase u = clock_phase t" by (auto simp: time_passed_def)
  have pr: "spi_clock_ready (plls k)" "phase_ok (plls k) u" using Suc.prems(1) [of k] u(4) by (simp_all add: phase_ok_def)
  have "unat (of_nat k :: u32) + unat (1 :: u32) < 2 ^ 32" using Suc.prems(2) by (simp add: unat_of_nat take_bit_nat_eq_self)
  then have "advance_loop (of_nat k + 1) (spis 1) dac t = advance_loop 1 s d u"
    using a u(1) by (intro advance_loop_add) simp_all
  moreover have "core_ticks plls k (spis, dac, t) = (case advance_loop (of_nat k) (spis 1) dac t of (_, s, dac, t) \<Rightarrow> (spis(1 := s), dac, t))"
    by (rule Suc.IH) (use Suc.prems in auto)
  then have "core_ticks plls k (spis, dac, t) = (spis(1 := s), d, u)" unfolding a by simp
  then have "core_ticks plls (Suc k) (spis, dac, t) = spi_core_tick (spis(1 := s)) d u (plls k)" by (simp add: core_ticks_def)
  ultimately show ?case
    using core_tick_one [OF u(2,3) pr, of "spis(1 := s)"] by (simp add: add.commute fun_eq_iff split: prod.split)
qed

lemma pending_time:
  assumes "transfer_ok t" "queued_valid t = 0"
  shows "pending t = [] \<longleftrightarrow> time_left t \<le> 4"
proof -
  have v: "transfer_valid t" "half_ticks_remaining t \<le> phase_length (tr_phase t)" using assms(1) by (simp_all add: transfer_ok_def)
  then have h: "unat (half_ticks_remaining t) \<le> unat (phase_length (tr_phase t))"
    "tr_phase t \<noteq> 0 \<Longrightarrow> 0 < unat (half_ticks_remaining t)"
    by (auto simp: word_le_nat_alt transfer_valid_iff unat_gt_0)
  consider "tr_phase t = 0" | "tr_phase t = 1" | "tr_phase t = 2" | "tr_phase t = 3" | "tr_phase t = 4"
    using phase_cases [OF v(1)] by auto
  then show ?thesis using h assms(2) by cases (simp_all add: pending_def time_left_def rest_of_word_def phase_length_def)
qed

text \<open>C13: transfer time. A word stored into an idle serial port is latched by the converter at the 814th core
  cycle, not earlier: 8 half module clocks from chip select to the first bit, 775 for sixteen bits and 31 to
  the end of chip select; four more and the port is idle again. This holds for any sequence of clock
  controller states that keep the required ratio.\<close>

theorem spi_word_latched_at_814:
  assumes run: "spi_run s d t ws" and idle: "\<not> transfer_active t" and enabled: "gcr1 (s 1) AND SPI_ENABLE \<noteq> 0"
    and store: "write_timed s d t (SPI1_BASE + 0x3C) v 4 True = Some (s', t')"
    and clk: "\<And>i. spi_clock_ready (plls i) \<and> clock_phase t < spi_divider (active_dividers (plls i) 1)"
    and k: "k < 2 ^ 32" and r: "core_ticks plls k (s', d, t') = (s'', d'', t'')"
  shows "tr_fault t'' = 0 \<and>
    (if k < 814 then d'' = d else wm8740_write d (ucast (ucast v :: u32)) True = Some d'') \<and>
    (transfer_active t'' \<longleftrightarrow> k < 818)"
proof -
  have ok: "transfer_ok t" "wm8740_valid d" using run_reach_ok [OF run] by (simp_all add: run_ok_def)
  have idle: "tr_phase t = TRANSFER_IDLE" "queued_valid t = 0" using idle by (simp_all add: transfer_active_def)
  have w: "timed_word s (SPI1_BASE + 0x3C)" using enabled by (simp add: timed_word_def)
  obtain s1 where a: "strict_configuration (s 1) d (ucast v)" "queued_valid t = 0" "accept_word (s 1) t (ucast v) = (s1, t')"
    using write_timed_word [OF store w] by metis
  have p0: "pending t = []" "time_left t = 0" using pending_idle [OF ok(1) idle(1)] idle_time_left [OF ok(1)] idle by auto
  have ok': "transfer_ok t'" "clock_phase t' = clock_phase t" "pending t' = [ucast v]" "time_left t' = 818"
    using accept_word_ok [OF ok(1) a] p0 by simp_all
  have q': "queued_valid t' = 0"
    using a(3) idle transfer_ok_def [of t] ok(1) by (auto simp: accept_word_def Let_def transfer_active_def transfer_valid_iff)
  obtain b x where l: "advance_loop (of_nat k) (s' 1) d t' = (b, x, d'', t'')"
    using r core_ticks_eq [OF ok'(1) ok(2) _ k, of plls s'] clk by (auto simp: phase_ok_def ok'(2) split: prod.splits)
  have k': "unat (of_nat k :: u32) = k" using k by (simp add: unat_of_nat take_bit_nat_eq_self)
  have "time_passed (of_nat k) d t' (b, x, d'', t'')" using advance_loop_ok [OF ok'(1) ok(2), of "of_nat k" "s' 1"] unfolding l .
  then obtain p where p: "transfer_ok t''" "[ucast v] = p @ pending t''" "d'' = latch_all p d" "time_left t'' = 818 - k" "queued_valid t'' = 0"
    using ok' q' k' by (auto simp: time_passed_def)
  have m: "pending t'' = [] \<longleftrightarrow> 814 \<le> k" using pending_time [OF p(1,5)] p(4) by auto
  have "wm8740_write d (ucast (ucast v :: u32)) True = Some (latch (ucast v) d)"
    by (rule word_accepted(1)) (use a(1) in \<open>simp add: strict_configuration_def\<close>)
  moreover have "transfer_active t'' \<longleftrightarrow> time_left t'' \<noteq> 0"
    using idle_time_left [OF p(1)] pending_idle [OF p(1)] by (auto simp: transfer_active_def)
  ultimately show ?thesis
    using p m by (cases "pending t''") (auto simp: latch_all_def transfer_ok_def Cons_eq_append_conv)
qed

text \<open>A port configured from reset, for the examples.\<close>

definition configured_spi :: spi where
  "configured_spi = (reset_one spi_zero)\<lparr>pin_function := 0xE01, spi_format := (\<lambda>_. 0)(0 := 0x21810), spi_delay := 0x02020408,
     gcr1 := 0x01000003\<rparr>"

definition configured_spis :: spis where
  "configured_spis = spis_reset(1 := configured_spi)"

lemma configured_run: "spi_run configured_spis wm8740_reset transfer_reset []"
proof -
  define f where "f s = spis_reset(1 := s)" for s
  note eval = write_timed_def Let_def timed_refused_def timed_mapped_def timed_reset_def timed_disable_def timed_word_def
    transfer_valid_iff transfer_active_def transfer_reset_def spis_write_def spi_decode_def spi_write_def after_store_def
    f_def spis_reset_def reset_one_def spi_zero_def
  have 1: "spi_run (f ((reset_one spi_zero)\<lparr>pin_function := 0xE01\<rparr>)) wm8740_reset transfer_reset []"
    by (rule spi_run.store [OF spi_run.start, where a = "SPI1_BASE + 0x14" and v = "0xE01" and n = 4]) (simp_all add: eval)
  have 2: "spi_run (f ((reset_one spi_zero)\<lparr>pin_function := 0xE01, spi_format := (\<lambda>_. 0)(0 := 0x21810)\<rparr>)) wm8740_reset transfer_reset []"
    by (rule spi_run.store [OF 1, where a = "SPI1_BASE + 0x50" and v = "0x21810" and n = 4]) (simp_all add: eval)
  have 3: "spi_run (f ((reset_one spi_zero)\<lparr>pin_function := 0xE01, spi_format := (\<lambda>_. 0)(0 := 0x21810), spi_delay := 0x02020408\<rparr>))
      wm8740_reset transfer_reset []"
    by (rule spi_run.store [OF 2, where a = "SPI1_BASE + 0x48" and v = "0x02020408" and n = 4]) (simp_all add: eval)
  have 4: "spi_run (f configured_spi) wm8740_reset transfer_reset []"
    by (rule spi_run.store [OF 3, where a = "SPI1_BASE + 4" and v = "0x01000003" and n = 4]) (simp_all add: eval configured_spi_def)
  then show ?thesis by (simp add: f_def configured_spis_def)
qed

theorem spi_word_latched_at_814_witness:
  "let plls = (\<lambda>_ :: nat. pll_reset\<lparr>active_dividers := (\<lambda>i. if i = 1 then 0x8001 else 0x8000)\<rparr>);
       (s, t) = the (write_timed configured_spis wm8740_reset transfer_reset (SPI1_BASE + 0x3C) 0x1FF 4 True)
   in last_word (fst (snd (core_ticks plls 813 (s, wm8740_reset, t)))) = 0 \<and>
      last_word (fst (snd (core_ticks plls 814 (s, wm8740_reset, t)))) = 0x1FF"
proof -
  let ?plls = "\<lambda>_ :: nat. pll_reset\<lparr>active_dividers := (\<lambda>i. if i = 1 then 0x8001 else 0x8000)\<rparr>"
  let ?w = "write_timed configured_spis wm8740_reset transfer_reset (SPI1_BASE + 0x3C) 0x1FF 4 True"
  have e: "timed_word configured_spis (SPI1_BASE + 0x3C)" "gcr1 (configured_spis 1) AND SPI_ENABLE \<noteq> 0"
    by (simp_all add: timed_word_def configured_spis_def configured_spi_def)
  have c: "strict_configuration (configured_spis 1) wm8740_reset 0x1FF"
    by (simp add: strict_configuration_def configured_spis_def configured_spi_def reset_one_def spi_zero_def
        wm8740_valid_def wm8740_reset_def wm8740_word_valid_def)
  have "\<not> timed_refused transfer_reset (SPI1_BASE + 0x3C) 0x1FF 4"
    by (simp add: timed_refused_def timed_mapped_def transfer_valid_iff transfer_active_def transfer_reset_def)
  moreover have "wm8740_write wm8740_reset 0x1FF False \<noteq> None" by (simp add: wm8740_write_def)
  ultimately obtain s t where w: "?w = Some (s, t)"
    using e c by (cases "accept_word (configured_spis 1) transfer_reset 0x1FF")
      (auto simp: write_timed_def Let_def transfer_reset_def del: One_nat_def)
  have clk: "spi_clock_ready (?plls i) \<and> clock_phase transfer_reset < spi_divider (active_dividers (?plls i) 1)" for i
    by (simp add: spi_clock_ready_def spi_divider_def pll_reset_def transfer_reset_def)
  have idle: "\<not> transfer_active transfer_reset" by (simp add: transfer_active_def transfer_reset_def)
  obtain s1 d1 t1 s2 d2 t2 where k: "core_ticks ?plls 813 (s, wm8740_reset, t) = (s1, d1, t1)"
    "core_ticks ?plls 814 (s, wm8740_reset, t) = (s2, d2, t2)"
    by (metis prod_cases3)
  have "d1 = wm8740_reset" using spi_word_latched_at_814 [OF configured_run idle e(2) w clk _ k(1)] by simp
  moreover have "wm8740_write wm8740_reset 0x1FF True = Some d2"
    using spi_word_latched_at_814 [OF configured_run idle e(2) w clk _ k(2)] by simp
  then have "last_word d2 = 0x1FF" by (auto simp: wm8740_write_def Let_def)
  moreover have "last_word wm8740_reset = 0" by (simp add: wm8740_reset_def)
  ultimately show ?thesis unfolding Let_def w option.sel prod.case k fst_conv snd_conv by simp
qed

theorem spi_words_in_order_witness:
  "transfer_valid transfer_reset \<and> pending transfer_reset = [] \<and> wm8740_valid wm8740_reset"
  using spi_words_in_order [OF configured_run] by auto

section \<open>Partitions of time\<close>

text \<open>the serial port does not see how its clock is batched: advancing by several amounts of half ticks one
  after the other is advancing once by their sum.\<close>

theorem spi_advance_batches:
  assumes "spi_run s d t ws" "(\<Sum>n\<leftarrow>ns. unat n) < 2 ^ 32"
  shows "fold (\<lambda>n (ok, s, d, t). spi_advance s d t n) ns (True, s, d, t) = spi_advance s d t (sum_list ns)"
  using assms
proof (induction ns rule: rev_induct)
  case Nil
  then have "transfer_ok t" "wm8740_valid d" using run_reach_ok [OF Nil.prems(1)] by (simp_all add: run_ok_def)
  then show ?case by (simp add: spi_advance_eq advance_loop.simps [of 0])
next
  case (snoc n ns)
  have ok: "transfer_ok t" "wm8740_valid d" using run_reach_ok [OF snoc.prems(1)] by (simp_all add: run_ok_def)
  have sm: "unat (sum_list ns) = (\<Sum>n\<leftarrow>ns. unat n)" if "(\<Sum>n\<leftarrow>ns. unat n) < 2 ^ 32" for ns :: "u32 list"
    using that by (induction ns) (simp_all add: unat_word_ariths)
  obtain b x d1 t1 where a: "advance_loop (sum_list ns) (s 1) d t = (b, x, d1, t1)" by (metis prod_cases4)
  have "time_passed (sum_list ns) d t (b, x, d1, t1)" using advance_loop_ok [OF ok, of "sum_list ns" "s 1"] unfolding a .
  then have p: "b" "transfer_ok t1" "wm8740_valid d1" by (auto simp: time_passed_def)
  have "advance_loop (sum_list ns + n) (s 1) d t = advance_loop n x d1 t1"
    using a p(1) sm [of ns] snoc.prems(2) by (intro advance_loop_add) simp_all
  moreover have "fold (\<lambda>n (ok, s, d, t). spi_advance s d t n) ns (True, s, d, t) = (b, s(1 := x), d1, t1)"
    using snoc by (simp add: spi_advance_eq [OF ok] a del: One_nat_def)
  ultimately show ?case
    using spi_advance_eq [OF p(2,3), of "s(1 := x)" n] spi_advance_eq [OF ok, of s "sum_list ns + n"]
    by (auto simp: fun_eq_iff split: prod.split)
qed

section \<open>Two timing modes\<close>

text \<open>The stores of functional timing, in which a word is latched by its store.\<close>

fun functional_stores :: "u32 list \<Rightarrow> spis \<times> wm8740 \<Rightarrow> (spis \<times> wm8740) option" where
  "functional_stores [] st = Some st"
| "functional_stores (w # ws) (spis, dac) =
     (case write_wm8740 spis dac (SPI1_BASE + 0x3C) (ucast w) 4 True True of None \<Rightarrow> None
      | Some st \<Rightarrow> functional_stores ws st)"

definition functional_ready :: "spi \<Rightarrow> bool" where
  "functional_ready s \<longleftrightarrow> gcr1 s AND SPI_ENABLE \<noteq> 0 \<and> gcr1 s AND 3 = 3 \<and> gcr1 s AND shl 1 8 = 0 \<and>
     pin_function s AND SPI_WM8740_FUNCTION_PINS = SPI_WM8740_FUNCTION_PINS \<and>
     spi_format s 0 AND 0x1F = 16 \<and> spi_format s 0 AND 0x700000 = 0"

lemma receive_frame [simp]:
  "gcr1 (receive_pulled_up_word s) = gcr1 s" "pin_function (receive_pulled_up_word s) = pin_function s"
  "spi_format (receive_pulled_up_word s) = spi_format s"
  by (simp_all add: receive_pulled_up_word_def)

lemma functional_store:
  assumes "functional_ready (s 1)" "wm8740_word_valid w"
  shows "\<exists>x. write_wm8740 s d (SPI1_BASE + 0x3C) (ucast w) 4 True True = Some (s(1 := x), latch w d) \<and> functional_ready x"
proof -
  have z: "w AND 0xFFFF0000 = 0" using assms(2) by (simp add: wm8740_word_valid_def Let_def)
  have a: "w AND 0x10010000 = (w AND 0xFFFF0000) AND 0x10010000" by (simp add: and.assoc)
  have b: "shr w 24 AND 3 = shr (w AND 0xFFFF0000) 24 AND 3" by (simp add: and.assoc drop_bit_and)
  have w: "w AND 0x10010000 = 0" unfolding a z by simp
  have w': "shr w 24 AND 3 = 0" unfolding b z by simp
  have u: "(ucast (ucast w :: u64) :: u32) = w" by (rule ucast_ucast_32)
  have l: "(ucast w :: u64) \<le> 0xFFFFFFFF" using unat_u32_lt [of w] by (simp add: word_le_nat_alt)
  define x where "x = receive_pulled_up_word ((s 1)\<lparr>dat1 := w AND SPI_DAT1_WRITE_MASK,
    spi_flags := (spi_flags (s 1) AND NOT SPI_TX_FLAG) OR SPI_TX_FLAG\<rparr>)"
  have "functional_ready x" using assms(1) by (simp add: functional_ready_def x_def)
  moreover have "write_wm8740 s d (SPI1_BASE + 0x3C) (ucast w) 4 True True = Some (s(1 := x), latch w d)"
    using assms(1) w w' u l word_accepted [OF assms(2), of d]
    by (simp add: write_wm8740_def spi_decode_def Let_def functional_ready_def not_less x_def del: One_nat_def)
  ultimately show ?thesis by blast
qed

lemma functional_stores_latch:
  "functional_ready (s 1) \<Longrightarrow> \<forall>w\<in>set ws. wm8740_word_valid w \<Longrightarrow>
     \<exists>s'. functional_stores ws (s, d) = Some (s', latch_all ws d)"
proof (induction ws arbitrary: s d)
  case (Cons w ws)
  obtain x where x: "write_wm8740 s d (SPI1_BASE + 0x3C) (ucast w) 4 True True = Some (s(1 := x), latch w d)" "functional_ready x"
    using functional_store [of s w d] Cons.prems by auto
  have "functional_ready ((s(1 := x)) 1)" using x(2) by simp
  then obtain s' where "functional_stores ws (s(1 := x), latch w d) = Some (s', latch_all ws (latch w d))"
    using Cons.IH Cons.prems(2) by (metis list.set_intros(2))
  then show ?case using x(1) by (simp add: latch_all_def)
qed (simp add: latch_all_def)

text \<open>C14: the two timing modes agree. When the timed port is idle its converter is in the state the converter
  reaches when the same words are stored under functional timing, in any configuration that mode accepts.\<close>

theorem spi_timing_modes_agree:
  assumes "spi_run s d t ws" "\<not> transfer_active t" "functional_ready (fs 1)"
  shows "\<exists>fs'. functional_stores ws (fs, wm8740_reset) = Some (fs', d)"
proof -
  have r: "run_ok d t ws" by (rule run_reach_ok [OF assms(1)])
  then have "pending t = []" using pending_idle [of t] assms(2) by (auto simp: run_ok_def transfer_active_def)
  then have "d = latch_all ws wm8740_reset" using r by (auto simp: run_ok_def)
  then show ?thesis using functional_stores_latch [of fs ws] assms(3) r by (auto simp: run_ok_def)
qed

section \<open>Reading the receive buffer\<close>

text \<open>C15: a load reads its address twice: to validate the access and to sample it. A received word is gone after the
  first read of SPIBUF, so the second reports an empty buffer, or the following word where one is buffered.\<close>

theorem spibuf_second_read:
  assumes "\<not> receive_empty (s i)" "receive_data (s i) = ucast (x :: u16)" "i < 2"
    "a = (if i = 0 then SPI0_BASE else SPI1_BASE) + 0x40"
  shows "\<exists>u v s1 s2. spis_read s a = Some (u, s1) \<and> spis_read s1 a = Some (v, s2) \<and>
    \<not> bit u 31 \<and> ucast u = x \<and>
    (if receive_buffer_full (s i) then \<not> bit v 31 \<and> ucast v = receive_buffer_data (s i) else bit v 31)"
proof -
  have d: "spi_decode a = Some (i, 0x40)" using assms(3,4) by (auto simp: spi_decode_def dest!: less_2_cases)
  have r: "spi_read z 0x40 = Some (read_spibuf z)" for z by (simp add: spi_read_def)
  have m: "(0xFFFF :: u32) = mask 16" "SPI_RX_STATUS_MASK = shl 0x5F 24" by (simp_all add: mask_eq_exp_minus_1)
  have "bit SPI_RX_STATUS_MASK n \<longleftrightarrow> 24 \<le> n \<and> n < 32 \<and> bit (0x5F :: u32) (n - 24)" for n
    unfolding m by (simp only: bit_push_bit_iff possible_bit_word) (auto dest: bit_imp_le_length)
  then have n31: "\<not> bit SPI_RX_STATUS_MASK 31" and ge: "bit SPI_RX_STATUS_MASK n \<Longrightarrow> 24 \<le> n" for n by (simp, blast)
  have lo: "\<not> bit SPI_RX_STATUS_MASK n" if "n < 16" for n
  proof
    assume "bit SPI_RX_STATUS_MASK n"
    then have "24 \<le> n" by (rule ge)
    then show False using that by simp
  qed
  have loi: "\<not> bit (0x5F000000 :: int) n" if "n < 16" for n using lo [OF that] that by simp
  have b: "\<not> bit (z AND SPI_RX_STATUS_MASK) (31 :: nat)" "ucast ((z AND SPI_RX_STATUS_MASK) OR (ucast y AND 0xFFFF)) = y"
    "\<not> bit (ucast y AND 0xFFFF :: u32) 31" for z :: u32 and y :: u16
    unfolding m(1) using n31 by (auto simp: bit_simps loi intro!: bit_word_eqI)
  show ?thesis
    using assms(1,2) b
    by (simp add: spis_read_def d r read_spibuf_def Let_def consume_receive_def bit_or_iff)
qed

theorem spi_advance_batches_witness:
  "fold (\<lambda>n (ok, s, d, t). spi_advance s d t n) [400, 400] (True, configured_spis, wm8740_reset, transfer_reset) =
     spi_advance configured_spis wm8740_reset transfer_reset 800"
  using spi_advance_batches [OF configured_run, of "[400, 400]"] by simp

theorem spi_timing_modes_agree_witness:
  "\<exists>fs'. functional_stores [] (configured_spis, wm8740_reset) = Some (fs', wm8740_reset)"
  by (rule spi_timing_modes_agree [OF configured_run])
    (simp_all add: transfer_active_def transfer_reset_def functional_ready_def configured_spis_def configured_spi_def)

theorem spibuf_second_read_witness:
  "let s = spis_reset(1 := receive_pulled_up_word configured_spi)
   in \<exists>u v s1 s2. spis_read s (SPI1_BASE + 0x40) = Some (u, s1) \<and> spis_read s1 (SPI1_BASE + 0x40) = Some (v, s2) \<and>
     (ucast u :: u16) = 0xFFFF \<and> bit v 31"
  using spibuf_second_read [of "spis_reset(1 := receive_pulled_up_word configured_spi)" 1 "0xFFFF" "SPI1_BASE + 0x40"]
  by (simp add: Let_def receive_pulled_up_word_def configured_spi_def reset_one_def spi_zero_def) metis

end
