(* ===== verification/Nxs_Bus.thy ===== *)
theory Nxs_Bus
  imports Nxs_Board C6747_Spi C6747_Psc C6747_Syscfg C6747_Gpio C6747_I2c C6747_Hpi Dsp_Scheduler
begin

text \<open>
  \<^verbatim>\<open>emulator/qemu/cdj2000_nxs_hpi.c\<close>: the board around the DSP. The record is \<^verbatim>\<open>NxsHpi\<close>, with the
  memories and the devices of the DMA transactions in \<open>bd\<close> and the interpreter in \<open>nx_cpu\<close>, whose
  type is a parameter. Here: the dispatch of the DSP's loads and stores to memories and
  peripherals, the clocks of one cycle, the host's accesses through UHPI, the reset line and the
  boot phase. The log and the files are not modelled; \<open>nx_hint_line\<close> is the level last driven to
  the main board (idle high), \<open>nx_timer_armed\<close> the pending virtual timer.
\<close>

section \<open>State\<close>

record 'c nxs =
  bd :: board
  nx_syscfg :: syscfg
  nx_priority :: mstpri
  nx_psc :: psc
  nx_pins :: mcasp
  nx_gpio :: gpio
  nx_i2c :: i2c
  nx_spis :: spis
  nx_dac :: wm8740
  nx_transfer :: spi_transfer
  nx_hpi :: hpi
  nx_address :: u32
  nx_words :: u64
  nx_boot_phase :: u32
  nx_reset_released :: bool
  nx_started :: bool
  nx_halted :: bool
  nx_running :: bool
  nx_functional_audio :: bool
  nx_scheduler :: scheduler
  nx_timer_armed :: bool
  nx_hint_line :: bool
  nx_cpu :: 'c

section \<open>Dispatch\<close>

text \<open>What one device says to an access. The first that does not pass decides.\<close>

datatype 'a claim = Pass | Refuse | Take 'a

fun cascade :: "'a claim list \<Rightarrow> 'a option" where
  "cascade [] = None"
| "cascade (Pass # cs) = cascade cs"
| "cascade (Refuse # cs) = None"
| "cascade (Take x # cs) = Some x"

definition ask :: "('a \<Rightarrow> 'b) \<Rightarrow> 'a option \<Rightarrow> 'b claim" where
  "ask f r = (case r of None \<Rightarrow> Pass | Some x \<Rightarrow> Take (f x))"

definition insist :: "('a \<Rightarrow> 'b) \<Rightarrow> 'a option \<Rightarrow> 'b claim" where
  "insist f r = (case r of None \<Rightarrow> Refuse | Some x \<Rightarrow> Take (f x))"

text \<open>The functions' \<open>ft\<close> is the process-wide \<^verbatim>\<open>cdj_c674x_loop_functional_timing()\<close>.\<close>

definition hpi_enabled :: "'c nxs \<Rightarrow> bool" where
  "hpi_enabled s \<longleftrightarrow> cfgchip (nx_syscfg s) 1 AND 0x8000 \<noteq> 0"

definition read_claims :: "bool \<Rightarrow> 'c nxs \<Rightarrow> u32 \<Rightarrow> (u32 \<times> 'c nxs) claim list" where
  "read_claims ft s address =
     (let plain = ask (\<lambda>v. (v, s))
      in [plain (ram_read (bd s) address),
          plain (syscfg_read (nx_syscfg s) address),
          plain (priority_read (nx_priority s) address),
          plain (psc_read (nx_psc s) address),
          plain (mcasp_read (nx_pins s) address),
          plain (control_read (bd_mcasp (bd s)) address),
          plain (gpio_read (nx_gpio s) address),
          plain (i2c_read (nx_i2c s) address),
          plain (intc_read (bd_intc (bd s)) address),
          ask (\<lambda>(v, t). (v, s\<lparr>bd := (bd s)\<lparr>bd_timers := t\<rparr>\<rparr>)) (timers_read (bd_timers (bd s)) address),
          (if \<not> ft \<and> timed_mapped address
           then insist (\<lambda>(v, x). (v, s\<lparr>nx_spis := x\<rparr>)) (read_timed (nx_spis s) (nx_transfer s) address) else Pass),
          ask (\<lambda>(v, x). (v, s\<lparr>nx_spis := x\<rparr>)) (spis_read (nx_spis s) address),
          plain (cache_read (bd_cache (bd s)) address),
          plain (edma_read (bd_edma (bd s)) address),
          plain (pll_read (bd_pll (bd s)) address),
          plain (emifb_read (bd_emifb (bd s)) address),
          (if hpi_enabled s then plain (hpi_cpu_read (nx_hpi s) address) else Pass)])"

definition dsp_read :: "bool \<Rightarrow> 'c nxs \<Rightarrow> u32 \<Rightarrow> (u32 \<times> 'c nxs) option" where
  "dsp_read ft s address = cascade (read_claims ft s address)"

text \<open>The timed SPI window: words for the converter need the serial clock.\<close>

definition spi_clock_missing :: "'c nxs \<Rightarrow> u32 \<Rightarrow> bool" where
  "spi_clock_missing s address \<longleftrightarrow>
     (address = SPI1_BASE + 0x38 \<or> address = SPI1_BASE + 0x3C) \<and> gcr1 (nx_spis s 1) AND shl 1 24 \<noteq> 0 \<and>
     \<not> spi_clock_ready (bd_pll (bd s))"

definition transaction_claim :: "'c nxs \<Rightarrow> bool \<Rightarrow> u32 \<Rightarrow> u64 \<Rightarrow> nat \<Rightarrow> bool \<Rightarrow> 'c nxs claim" where
  "transaction_claim s edma_access address v sz commit =
     (case edma_mcasp_transaction (bd s) edma_access address v sz commit of
        (ok, b) \<Rightarrow> if ok then Take (s\<lparr>bd := b\<rparr>) else Pass)"

definition hint_rises :: "'c nxs \<Rightarrow> hpi \<Rightarrow> 'c nxs" where
  "hint_rises s h = (if \<not> hint (nx_hpi s) \<and> hint h then s\<lparr>nx_hpi := h, nx_hint_line := False\<rparr> else s\<lparr>nx_hpi := h\<rparr>)"

definition write_claims :: "bool \<Rightarrow> 'c nxs \<Rightarrow> u32 \<Rightarrow> u64 \<Rightarrow> nat \<Rightarrow> bool \<Rightarrow> 'c nxs claim list" where
  "write_claims ft s address v sz commit =
     (let t = nx_transfer s; put = (\<lambda>b. s\<lparr>bd := b\<rparr>)
      in [ask put (dsp_l1d_write (bd s) address v sz commit),
          (if syscfg_pll_locked (nx_syscfg s) \<and> pll_write_mapped address sz then Take s else Pass),
          (if \<not> ft \<and> (tr_phase t \<noteq> 0 \<or> queued_valid t \<noteq> 0) \<and> pll_write_mapped address sz then Refuse else Pass),
          ask (\<lambda>x. put ((bd s)\<lparr>bd_pll := x\<rparr>)) (pll_write (bd_pll (bd s)) address v sz commit),
          ask (\<lambda>x. s\<lparr>nx_i2c := x\<rparr>) (i2c_write (nx_i2c s) address v sz commit),
          ask (\<lambda>(x, d). put ((bd s)\<lparr>bd_intc := x, bd_delivery := the d\<rparr>))
            (intc_write_delivery (bd_intc (bd s)) (Some (bd_delivery (bd s))) address v sz commit),
          ask (\<lambda>x. put ((bd s)\<lparr>bd_timers := x\<rparr>)) (timers_write (bd_timers (bd s)) address v sz commit),
          (if \<not> ft \<and> timed_mapped address
           then if spi_clock_missing s address then Refuse
                else insist (\<lambda>(x, t). s\<lparr>nx_spis := x, nx_transfer := t\<rparr>)
                  (write_timed (nx_spis s) (nx_dac s) t address v sz commit)
           else Pass),
          ask (\<lambda>(x, d). s\<lparr>nx_spis := x, nx_dac := d\<rparr>) (write_wm8740 (nx_spis s) (nx_dac s) address v sz ft commit),
          ask (\<lambda>x. s\<lparr>nx_spis := x\<rparr>) (spis_write (nx_spis s) address v sz commit),
          ask (\<lambda>x. put ((bd s)\<lparr>bd_cache := x\<rparr>)) (cache_write (bd_cache (bd s)) address v sz commit),
          transaction_claim s True address v sz commit,
          ask (\<lambda>x. s\<lparr>nx_gpio := x\<rparr>) (gpio_write (nx_gpio s) address v sz commit),
          ask (\<lambda>x. s\<lparr>nx_pins := x\<rparr>) (mcasp_write (nx_pins s) address v sz commit),
          transaction_claim s False address v sz commit,
          ask (\<lambda>x. s\<lparr>nx_psc := x\<rparr>) (psc_write (nx_psc s) address v sz commit),
          ask (\<lambda>x. s\<lparr>nx_syscfg := x\<rparr>) (syscfg_write (nx_syscfg s) address v sz commit),
          ask (\<lambda>x. s\<lparr>nx_priority := x\<rparr>) (priority_write (nx_priority s) (nx_syscfg s) address v sz commit),
          ask (\<lambda>x. put ((bd s)\<lparr>bd_emifb := x\<rparr>)) (emifb_write (bd_emifb (bd s)) address v sz commit),
          (if hpi_enabled s then ask (hint_rises s) (hpi_cpu_write (nx_hpi s) address v sz commit) else Pass),
          ask put (ram_write (bd s) address v sz commit)])"

definition dsp_write :: "bool \<Rightarrow> 'c nxs \<Rightarrow> u32 \<Rightarrow> u64 \<Rightarrow> nat \<Rightarrow> bool \<Rightarrow> 'c nxs option" where
  "dsp_write ft s address v sz commit = cascade (write_claims ft s address v sz commit)"

section \<open>One cycle of the DSP\<close>

definition dsp_cycle_tick :: "bool \<Rightarrow> 'c nxs \<Rightarrow> 'c nxs" where
  "dsp_cycle_tick ft s =
     (let s = (if ft then s else
                 case spi_core_tick (nx_spis s) (nx_dac s) (nx_transfer s) (bd_pll (bd s)) of
                   (x, d, t) \<Rightarrow> s\<lparr>nx_spis := x, nx_dac := d, nx_transfer := t\<rparr>)
      in s\<lparr>bd := cycle_clocks (bd s)\<rparr>)"

section \<open>The host side\<close>

definition valid_data :: "'c nxs \<Rightarrow> bool" where
  "valid_data s \<longleftrightarrow> hwob (nx_hpi s) \<and> \<not> hpirst (nx_hpi s) \<and> nx_address s AND 3 = 0 \<and>
     host_memory (bd s) (nx_address s) \<noteq> None"

abbreviation (input) HPIC_OFFSET :: u64 where "HPIC_OFFSET \<equiv> 0"
abbreviation (input) HPIA_OFFSET :: u64 where "HPIA_OFFSET \<equiv> 0x40000"
abbreviation (input) HPID_INCREMENT :: u64 where "HPID_INCREMENT \<equiv> 0x80000"
abbreviation (input) HPID_FIXED :: u64 where "HPID_FIXED \<equiv> 0xC0000"

definition hpi_read :: "'c nxs \<Rightarrow> u64 \<Rightarrow> u32 \<times> 'c nxs" where
  "hpi_read s off =
     (let data_access = (off = HPID_INCREMENT \<or> off = HPID_FIXED);
          result = (if off = HPIC_OFFSET then hpi_host_read (nx_hpi s)
                    else if off = HPIA_OFFSET then nx_address s else 0xFFFFFFFF)
      in if data_access \<and> valid_data s then
           (ldl_le (load_bytes (memory (bd s)) (the (host_memory (bd s) (nx_address s))) 4),
            if off = HPID_INCREMENT then s\<lparr>nx_address := nx_address s + 4\<rparr> else s)
         else (result, s))"

text \<open>What a host store asks of the DSP: to start it, or to run it.\<close>

datatype host_request = No_Request | Start_Dsp | Run_Dsp

definition hpi_control_write :: "'c nxs \<Rightarrow> u64 \<Rightarrow> host_request \<times> 'c nxs" where
  "hpi_control_write s v =
     (let old_hint = hint (nx_hpi s); old_dspint = dspint (nx_hpi s);
          s = s\<lparr>nx_hpi := hpi_host_write (nx_hpi s) (ucast v)\<rparr>;
          dspint_rising = (\<not> old_dspint \<and> dspint (nx_hpi s));
          s = (if dspint_rising then s\<lparr>bd := deliver (bd s) 34\<rparr> else s);
          s = (if old_hint \<noteq> hint (nx_hpi s) then s\<lparr>nx_hint_line := \<not> hint (nx_hpi s)\<rparr> else s)
      in (if dspint_rising \<and> \<not> nx_started s then Start_Dsp
          else if old_hint \<and> \<not> hint (nx_hpi s) then Run_Dsp
          else if dspint_rising \<and> nx_started s then Run_Dsp
          else No_Request, s))"

definition host_store :: "'c nxs \<Rightarrow> u64 \<Rightarrow> 'c nxs" where
  "host_store s v =
     s\<lparr>bd := (bd s)\<lparr>memory := store_bytes (the (host_memory (bd s) (nx_address s))) (le_bytes v 4) (memory (bd s))\<rparr>,
       nx_words := nx_words s + 1\<rparr>"

definition hpi_write :: "'c nxs \<Rightarrow> u64 \<Rightarrow> u64 \<Rightarrow> host_request \<times> 'c nxs" where
  "hpi_write s off v =
     (if off = HPIC_OFFSET then hpi_control_write s v
      else if off = HPIA_OFFSET then (No_Request, s\<lparr>nx_address := ucast v\<rparr>)
      else if (off = HPID_INCREMENT \<or> off = HPID_FIXED) \<and> valid_data s then
        (No_Request, let s = host_store s v in if off = HPID_INCREMENT then s\<lparr>nx_address := nx_address s + 4\<rparr> else s)
      else (No_Request, s))"

section \<open>Reset and boot\<close>

definition scheduler_zero :: scheduler where
  "scheduler_zero = \<lparr>sc_activation_id = 0, sc_slice_id = 0, sc_remaining = 0, sc_slice_steps = 0, sc_pending = 0,
     sc_rearm = 0, sc_mode = 0, sc_reserved = 0\<rparr>"

definition nxs_init :: "'c \<Rightarrow> bool \<Rightarrow> bool \<Rightarrow> 'c nxs" where
  "nxs_init cpu functional_audio deferred = \<lparr>bd = board_reset, nx_syscfg = syscfg_reset, nx_priority = priority_reset (\<lambda>_. 0),
     nx_psc = psc_reset, nx_pins = mcasp_reset, nx_gpio = gpio_reset, nx_i2c = i2c_reset, nx_spis = spis_reset,
     nx_dac = wm8740_reset, nx_transfer = transfer_reset, nx_hpi = hpi_reset, nx_address = 0, nx_words = 0, nx_boot_phase = 0,
     nx_reset_released = False, nx_started = False, nx_halted = False, nx_running = False, nx_functional_audio = functional_audio,
     nx_scheduler = (if deferred then sched_reset else scheduler_zero), nx_timer_armed = False, nx_hint_line = True, nx_cpu = cpu\<rparr>"

definition assert_reset :: "'c nxs \<Rightarrow> 'c nxs" where
  "assert_reset s =
     (let md = sc_mode (nx_scheduler s)
      in s\<lparr>nx_timer_armed := False,
           nx_scheduler := (if md = 0 then scheduler_zero else sched_reset\<lparr>sc_mode := md\<rparr>),
           nx_hpi := hpi_reset,
           bd := (bd s)\<lparr>bd_intc := intc_reset, bd_delivery := 0, bd_timers := timers_reset, bd_cache := cache_reset,
                        memory := (memory (bd s))(L1D_RAM := \<lambda>_. 0), bd_edma := edma_reset, bd_mcasp := control_reset\<rparr>,
           nx_spis := spis_reset, nx_transfer := transfer_reset, nx_dac := wm8740_reset, nx_pins := mcasp_reset,
           nx_started := False, nx_halted := False, nx_running := False, nx_hint_line := True\<rparr>)"

definition reset_line :: "'c nxs \<Rightarrow> bool \<Rightarrow> 'c nxs" where
  "reset_line s released =
     (if released = nx_reset_released s then s
      else
        (let s = s\<lparr>nx_reset_released := released\<rparr>
         in if \<not> released then assert_reset s
            else s\<lparr>nx_hpi := hpi_rom_boot_ready (nx_hpi s), nx_hint_line := False\<rparr>))"

definition boot_pins :: "u32 \<Rightarrow> gpio \<Rightarrow> gpio" where
  "boot_pins phase g =
     fold (\<lambda>(pin, b) g. case gpio_set_input g 4 pin (phase AND b \<noteq> 0) of Some g' \<Rightarrow> g' | None \<Rightarrow> g) [(5, 1), (2, 2), (3, 4)] g"

definition set_boot_phase :: "'c nxs \<Rightarrow> u32 \<Rightarrow> host_request \<times> 'c nxs" where
  "set_boot_phase s phase =
     (if phase > 7 then (No_Request, s)
      else (if phase \<noteq> nx_boot_phase s then Run_Dsp else No_Request,
            s\<lparr>nx_boot_phase := phase, nx_gpio := boot_pins phase (nx_gpio s)\<rparr>))"

end
