(* ===== verification/Nxs_Bus_Invariant.thy ===== *)
theory Nxs_Bus_Invariant
  imports Nxs_Bus
begin

text \<open>
  The invariant of the whole DSP bus (cdj2000_nxs_hpi.c). First the store contract: the write dispatcher as one
  \<^verbatim>\<open>mmio_port\<close>, from the ports of the devices. Then the invariant \<^verbatim>\<open>nxs_ok\<close>, preserved by every operation the
  code performs on the board, and the boards reachable from power-on under any interleaving of these operations.
\<close>

section \<open>The write contract of the whole bus\<close>

interpretation l1d_mmio: mmio_port dsp_l1d_write
  by unfold_locales (auto simp: dsp_l1d_write_def split: if_splits option.splits)

interpretation ram_mmio: mmio_port ram_write
  by unfold_locales (auto simp: ram_write_def Let_def split: if_splits option.splits)

interpretation functional_mmio: mmio_port "\<lambda>(s, d) a v n c. write_wm8740 s d a v n ft c" for ft
proof
  fix x x' :: "spis \<times> wm8740" and a v n
  have w: "wm8740_write d w True = None \<longleftrightarrow> wm8740_write d w False = None" for d w
    by (simp add: wm8740_write_def Let_def)
  have *: "write_wm8740 s d a v n ft False = (if write_wm8740 s d a v n ft True = None then None else Some (s, d))" for s d
    by (auto simp: write_wm8740_def Let_def w [symmetric] split: option.split)
  show "(case x of (s, d) \<Rightarrow> \<lambda>a v n c. write_wm8740 s d a v n ft c) a v n False = Some x' \<Longrightarrow> x' = x"
    using * by (auto split: prod.splits if_splits)
  show "(case x of (s, d) \<Rightarrow> \<lambda>a v n c. write_wm8740 s d a v n ft c) a v n True = None \<longleftrightarrow>
    (case x of (s, d) \<Rightarrow> \<lambda>a v n c. write_wm8740 s d a v n ft c) a v n False = None"
    using * by (auto split: prod.splits)
qed

text \<open>The claim of a device when a store is checked, and when it is committed.\<close>

definition claims_agree :: "'s \<Rightarrow> 's claim \<Rightarrow> 's claim \<Rightarrow> bool" where
  "claims_agree s x y \<longleftrightarrow> (x = Pass \<and> y = Pass) \<or> (x = Refuse \<and> y = Refuse) \<or> (x = Take s \<and> (\<exists>s'. y = Take s'))"

lemma cascade_agrees:
  "list_all2 (claims_agree s) xs ys \<Longrightarrow> cascade xs = (if cascade ys = None then None else Some s)"
  by (induction rule: list_all2_induct) (auto simp: claims_agree_def)

lemma agree_ask:
  assumes "mmio_port wr" "f x = s"
  shows "claims_agree s (ask f (wr x a v n False)) (ask f (wr x a v n True))"
  using mmio_port.check_result [OF assms(1), of x a v n] assms(2)
  by (cases "wr x a v n True") (simp_all add: claims_agree_def ask_def)

lemma agree_insist:
  assumes "mmio_port wr" "f x = s"
  shows "claims_agree s (insist f (wr x a v n False)) (insist f (wr x a v n True))"
  using mmio_port.check_result [OF assms(1), of x a v n] assms(2)
  by (cases "wr x a v n True") (simp_all add: claims_agree_def insist_def)

lemma agree_if: "(b \<Longrightarrow> claims_agree s x y) \<Longrightarrow> (\<not> b \<Longrightarrow> claims_agree s x' y') \<Longrightarrow> claims_agree s (if b then x else x') (if b then y else y')"
  by simp

lemma agree_const: "claims_agree s Pass Pass" "claims_agree s Refuse Refuse" "claims_agree s (Take s) (Take s)"
  by (simp_all add: claims_agree_def)

lemma transaction_check: "edma_mcasp_transaction b e a v n False = (fst (edma_mcasp_transaction b e a v n True), b)"
  by (auto simp: edma_mcasp_transaction_def split: prod.split)

lemma agree_transaction: "claims_agree s (transaction_claim s e a v n False) (transaction_claim s e a v n True)"
  by (auto simp: transaction_claim_def transaction_check claims_agree_def split: prod.split)

lemma write_claims_agree: "list_all2 (claims_agree s) (write_claims ft s a v n False) (write_claims ft s a v n True)"
proof -
  have put: "s\<lparr>bd := bd s\<rparr> = s" "s\<lparr>bd := (bd s)\<lparr>bd_pll := bd_pll (bd s)\<rparr>\<rparr> = s"
    "s\<lparr>bd := (bd s)\<lparr>bd_timers := bd_timers (bd s)\<rparr>\<rparr> = s" "s\<lparr>bd := (bd s)\<lparr>bd_cache := bd_cache (bd s)\<rparr>\<rparr> = s"
    "s\<lparr>bd := (bd s)\<lparr>bd_emifb := bd_emifb (bd s)\<rparr>\<rparr> = s"
    "s\<lparr>bd := (bd s)\<lparr>bd_intc := bd_intc (bd s), bd_delivery := bd_delivery (bd s)\<rparr>\<rparr> = s" by simp_all
  have i: "mmio_port (\<lambda>(x, y). intc_write_delivery x y)" using intc_delivery.mmio_port_axioms by (simp add: intc_port_def)
  have t: "claims_agree s (insist (\<lambda>(x, t). s\<lparr>nx_spis := x, nx_transfer := t\<rparr>) (write_timed (nx_spis s) (nx_dac s) (nx_transfer s) a v n False))
      (insist (\<lambda>(x, t). s\<lparr>nx_spis := x, nx_transfer := t\<rparr>) (write_timed (nx_spis s) (nx_dac s) (nx_transfer s) a v n True))"
    using agree_insist [OF timed_mmio.mmio_port_axioms, of "\<lambda>(x, t). s\<lparr>nx_spis := x, nx_transfer := t\<rparr>" "(nx_spis s, nx_transfer s)" s] by simp
  have f: "claims_agree s (ask (\<lambda>(x, d). s\<lparr>nx_spis := x, nx_dac := d\<rparr>) (write_wm8740 (nx_spis s) (nx_dac s) a v n ft False))
      (ask (\<lambda>(x, d). s\<lparr>nx_spis := x, nx_dac := d\<rparr>) (write_wm8740 (nx_spis s) (nx_dac s) a v n ft True))"
    using agree_ask [OF functional_mmio.mmio_port_axioms, of "\<lambda>(x, d). s\<lparr>nx_spis := x, nx_dac := d\<rparr>" "(nx_spis s, nx_dac s)" s] by simp
  show ?thesis
    unfolding write_claims_def Let_def
    by (intro list.rel_intros agree_if agree_const agree_transaction i t f
        agree_ask [where wr = dsp_l1d_write] l1d_mmio.mmio_port_axioms
        agree_ask [where wr = pll_write] pll_mmio.mmio_port_axioms
        agree_ask [where wr = i2c_write] i2c_mmio.mmio_port_axioms
        agree_ask [where wr = intc_port and x = "(bd_intc (bd s), Some (bd_delivery (bd s)))", unfolded intc_port_def prod.case]
        agree_ask [where wr = timers_write] timers_mmio.mmio_port_axioms
        agree_ask [where wr = spis_write] spis_mmio.mmio_port_axioms
        agree_ask [where wr = cache_write] cache_mmio.mmio_port_axioms
        agree_ask [where wr = gpio_write] gpio_mmio.mmio_port_axioms
        agree_ask [where wr = mcasp_write] mcasp_pins.mmio_port_axioms
        agree_ask [where wr = psc_write] psc_mmio.mmio_port_axioms
        agree_ask [where wr = syscfg_write] syscfg_mmio.mmio_port_axioms
        agree_ask [where wr = "\<lambda>x. priority_write x (nx_syscfg s)"] priority_mmio.mmio_port_axioms
        agree_ask [where wr = emifb_write] emifb_mmio.mmio_port_axioms
        agree_ask [where wr = hpi_cpu_write] hpi_mmio.mmio_port_axioms
        agree_ask [where wr = ram_write] ram_mmio.mmio_port_axioms) (simp_all add: put hint_rises_def)
qed

interpretation dsp_bus: mmio_port "\<lambda>(s :: 'c nxs). dsp_write ft s" for ft
proof
  fix s s' :: "'c nxs" and a v n
  have *: "dsp_write ft s a v n False = (if dsp_write ft s a v n True = None then None else Some s)"
    unfolding dsp_write_def by (rule cascade_agrees [OF write_claims_agree])
  show "dsp_write ft s a v n False = Some s' \<Longrightarrow> s' = s" using * by (simp split: if_splits)
  show "dsp_write ft s a v n True = None \<longleftrightarrow> dsp_write ft s a v n False = None" using * by simp
qed

section \<open>Every device stays well formed\<close>

definition board_ok :: "board \<Rightarrow> bool" where
  "board_ok b \<longleftrightarrow> edma_valid (bd_edma b) \<and> control_ok (bd_mcasp b) \<and> pll_inv (bd_pll b) \<and> intc_wf (bd_intc b) \<and>
     emifb_inv (bd_emifb b)"

text \<open>The serial clock: it is there while a transfer is under way, and its phase is below its divider.\<close>

definition serial_ok :: "pll \<Rightarrow> spi_transfer \<Rightarrow> bool" where
  "serial_ok pll t \<longleftrightarrow> (tr_phase t \<noteq> TRANSFER_IDLE \<longrightarrow> spi_clock_ready pll) \<and>
     (spi_clock_ready pll \<longrightarrow> clock_phase t < spi_divider (active_dividers pll 1))"

definition nxs_ok :: "bool \<Rightarrow> 'c nxs \<Rightarrow> bool" where
  "nxs_ok ft s \<longleftrightarrow> board_ok (bd s) \<and> syscfg_inv (nx_syscfg s) \<and> priority_valid (nx_priority s) \<and> psc_inv (nx_psc s) \<and>
     i2c_inv (nx_i2c s) \<and> hpi_inv (nx_hpi s) \<and> transfer_ok (nx_transfer s) \<and> wm8740_valid (nx_dac s) \<and>
     (\<not> ft \<longrightarrow> serial_ok (bd_pll (bd s)) (nx_transfer s)) \<and> (hint (nx_hpi s) \<longrightarrow> \<not> nx_hint_line s)"

text \<open>A property of the client's memory that bus writes keep is kept by the DMA controller: a bus simulates itself.\<close>

locale bus_invariant =
  fixes bus :: "'m edma_bus" and inv :: "'m \<Rightarrow> bool"
  assumes inv_bus_write: "inv m \<Longrightarrow> inv (snd (bus_write bus m a bs c))"

sublocale bus_invariant \<subseteq> self: edma_simulation bus bus "\<lambda>m n. m = n \<and> inv m"
  by unfold_locales (auto intro: inv_bus_write)

context bus_invariant
begin

lemma inv_edma_write: "inv m \<Longrightarrow> edma_write bus a v k c s m = (ok, s', m') \<Longrightarrow> inv m'"
  using self.sim_edma_write [of m m a v k c s] by (simp add: self.rel3_def)

lemma inv_edma_event: "inv m \<Longrightarrow> edma_event bus channel s m = (ok, s', m') \<Longrightarrow> inv m'"
  using self.sim_edma_event [of m m channel s] by (simp add: self.rel3_def)

lemma inv_service_instance:
  "inv m \<Longrightarrow> edma_valid e \<Longrightarrow> service_instance port bus i ch k e m = (ok, e', m') \<Longrightarrow> inv m' \<and> edma_valid e'"
proof (induction k arbitrary: e m)
  case (Suc k)
  obtain ok1 e1 m1 where v: "edma_event bus ch e m = (ok1, e1, m1)" by (metis prod_cases3)
  have "inv m1" "edma_valid e1" using inv_edma_event [OF Suc.prems(1) v] valid_event [OF Suc.prems(2) v] by simp_all
  then show ?case using Suc v by (auto simp: Let_def split: if_splits)
qed simp

lemma inv_service:
  assumes "inv m" "edma_valid e" "service_mcasp_axevt port bus e m = (ok, e', m')"
  shows "inv m' \<and> edma_valid e'"
proof -
  obtain ok1 e1 m1 where v: "service_instance port bus 1 3 16 e m = (ok1, e1, m1)" by (metis prod_cases3)
  then have "inv m1" "edma_valid e1" using inv_service_instance assms(1,2) by blast+
  then show ?thesis using assms(3) v inv_service_instance [of m1 e1 port 2 5 16 ok e' m'] by (simp add: service_mcasp_axevt_def split: if_splits)
qed

end

interpretation trial_ok: bus_invariant "trial_bus b" "\<lambda>c. control_ok (ctx_mcasp c)" for b
  by unfold_locales
    (auto simp: trial_bus_def edma_write_bytes_def edma_stage_write_def split: option.splits intro: mcasp_mmio.inv_any)

lemma deliver_ok: "board_ok b \<Longrightarrow> board_ok (deliver b e) \<and> bd_pll (deliver b e) = bd_pll b"
  by (auto simp: deliver_def board_ok_def split: option.split dest: intc_wf_deliver)

lemma notifications_ok: "board_ok b \<Longrightarrow> board_ok (deliver_edma_notifications b) \<and> bd_pll (deliver_edma_notifications b) = bd_pll b"
proof -
  assume b: "board_ok b"
  obtain ok e where t: "edma_take_irq_notification (bd_edma b) 1 = (ok, e)" by (metis prod.exhaust)
  then have "board_ok (b\<lparr>bd_edma := e\<rparr>)" using b valid_take [OF _ t] by (simp add: board_ok_def)
  then show ?thesis using deliver_ok [of "b\<lparr>bd_edma := e\<rparr>" 8]
    unfolding deliver_edma_notifications_def t by (simp add: Let_def)
qed

lemma commit_trial_ok:
  assumes "board_ok b" "edma_valid e" "control_ok (ctx_mcasp c)"
  shows "board_ok (commit_trial b e c) \<and> bd_pll (commit_trial b e c) = bd_pll b"
proof -
  have "board_ok (b\<lparr>memory := apply_writes (writes c) (memory b), bd_edma := e, bd_mcasp := ctx_mcasp c\<rparr>)"
    using assms by (simp add: board_ok_def)
  then show ?thesis using notifications_ok by (fastforce simp: commit_trial_def)
qed

lemma transaction_ok:
  assumes b: "board_ok b" and t: "edma_mcasp_transaction b ea a v n c = (ok, b')"
  shows "board_ok b' \<and> bd_pll b' = bd_pll b"
proof -
  obtain ok1 e1 c1 where x: "trial_access b ea a v n = (ok1, e1, c1)" by (metis prod_cases3)
  have v: "edma_valid (bd_edma b)" "control_ok (bd_mcasp b)" using b by (simp_all add: board_ok_def)
  have 1: "edma_valid e1 \<and> control_ok (ctx_mcasp c1)"
  proof (cases ea)
    case True
    then have w: "edma_write (trial_bus b) a v n True (bd_edma b) \<lparr>writes = [], ctx_mcasp = bd_mcasp b\<rparr> = (ok1, e1, c1)"
      using x by (simp add: trial_access_def)
    have "edma_valid e1" using valid_write [OF v(1), of "trial_bus b" a v n True "\<lparr>writes = [], ctx_mcasp = bd_mcasp b\<rparr>"]
      by (simp add: leaves_valid_def w)
    then show ?thesis using trial_ok.inv_edma_write [OF _ w] v(2) by simp
  next
    case False
    then show ?thesis using x v by (auto simp: trial_access_def Let_def split: option.splits intro: mcasp_mmio.inv_any)
  qed
  obtain ok2 e2 c2 where y: "(if ok1 then service_mcasp_axevt ctx_mcasp (trial_bus b) e1 c1 else (False, e1, c1)) = (ok2, e2, c2)"
    by (metis prod_cases3)
  have "edma_valid e2 \<and> control_ok (ctx_mcasp c2)"
    using 1 y trial_ok.inv_service [of c1 e1 ctx_mcasp b ok2 e2 c2] by (auto split: if_splits)
  then have "board_ok (commit_trial b e2 c2) \<and> bd_pll (commit_trial b e2 c2) = bd_pll b" using commit_trial_ok [OF b] by blast
  then show ?thesis using t b x y by (auto simp: edma_mcasp_transaction_def split: if_splits)
qed

lemma slots_ok:
  assumes b: "board_ok b" and t: "advance_functional_mcasp_slots b = (ok, b')"
  shows "board_ok b' \<and> bd_pll b' = bd_pll b"
proof -
  have step: "control_ok (snd (snd st)) \<Longrightarrow> control_ok (snd (snd (advance_slot i st)))" for i st
    by (auto simp: advance_slot_def split: prod.split option.split intro: ok_tx_slot)
  obtain ok1 adv mc where x: "fold advance_slot [1, 2] (True, False, bd_mcasp b) = (ok1, adv, mc)" by (metis prod_cases3)
  have "control_ok (snd (snd (fold advance_slot [1, 2] (True, False, bd_mcasp b))))"
    using b by (auto intro!: step simp: board_ok_def)
  then have mc: "control_ok mc" unfolding x by simp
  obtain ok2 e2 c2 where y: "service_mcasp_axevt ctx_mcasp (trial_bus b) (bd_edma b) \<lparr>writes = [], ctx_mcasp = mc\<rparr> = (ok2, e2, c2)"
    by (metis prod_cases3)
  have "edma_valid e2 \<and> control_ok (ctx_mcasp c2)" using trial_ok.inv_service [OF _ _ y] mc b by (simp add: board_ok_def)
  then have "board_ok (commit_trial b e2 c2) \<and> bd_pll (commit_trial b e2 c2) = bd_pll b" using commit_trial_ok [OF b] by blast
  then show ?thesis using t b x y by (auto simp: advance_functional_mcasp_slots_def split: if_splits)
qed

lemma timer_outputs_ok: "board_ok b \<Longrightarrow> board_ok (deliver_timer_outputs o' b) \<and> bd_pll (deliver_timer_outputs o' b) = bd_pll b"
proof -
  have "board_ok (fold (\<lambda>k s. if o' AND shl 1 k \<noteq> 0 then deliver s (of_nat (timer_event k)) else s) xs b) \<and>
      bd_pll (fold (\<lambda>k s. if o' AND shl 1 k \<noteq> 0 then deliver s (of_nat (timer_event k)) else s) xs b) = bd_pll b"
    if "board_ok b" for xs b
    using that deliver_ok by (induction xs arbitrary: b) auto
  then show "board_ok b \<Longrightarrow> ?thesis" by (simp add: deliver_timer_outputs_def)
qed

lemma clocks_ok: "board_ok b \<Longrightarrow> board_ok (cycle_clocks b) \<and> bd_pll (cycle_clocks b) = pll_tick (bd_pll b)"
proof -
  assume b: "board_ok b"
  obtain ts o' where t: "timers_tick (bd_timers (b\<lparr>bd_pll := pll_tick (bd_pll b)\<rparr>)) = (ts, o')" by (metis prod.exhaust)
  have "board_ok (b\<lparr>bd_pll := pll_tick (bd_pll b), bd_timers := ts\<rparr>)" using b inv_tick by (simp add: board_ok_def)
  then show ?thesis using timer_outputs_ok t by (fastforce simp: cycle_clocks_def Let_def)
qed

section \<open>Stores keep it\<close>

lemma cascade_step:
  "cascade (c # cs) = Some r \<Longrightarrow> (c = Take r \<Longrightarrow> P) \<Longrightarrow> (c = Pass \<Longrightarrow> cascade cs = Some r \<Longrightarrow> P) \<Longrightarrow> P"
  by (cases c) auto

definition claim_ok :: "bool \<Rightarrow> 'c nxs claim \<Rightarrow> bool" where
  "claim_ok ft c \<longleftrightarrow> (\<forall>s. c = Take s \<longrightarrow> nxs_ok ft s)"

lemma cascade_ok: "list_all (claim_ok ft) cs \<Longrightarrow> cascade cs = Some s \<Longrightarrow> nxs_ok ft s"
  by (induction cs) (auto elim!: cascade_step simp: claim_ok_def)

lemma ok_ask: "(\<And>x. r = Some x \<Longrightarrow> nxs_ok ft (f x)) \<Longrightarrow> claim_ok ft (ask f r)"
  by (auto simp: claim_ok_def ask_def split: option.splits)

lemma ok_insist: "(\<And>x. r = Some x \<Longrightarrow> nxs_ok ft (f x)) \<Longrightarrow> claim_ok ft (insist f r)"
  by (auto simp: claim_ok_def insist_def split: option.splits)

lemma ok_if: "(b \<Longrightarrow> claim_ok ft x) \<Longrightarrow> (\<not> b \<Longrightarrow> claim_ok ft y) \<Longrightarrow> claim_ok ft (if b then x else y)"
  by simp

lemma ok_const: "claim_ok ft Pass" "claim_ok ft Refuse"
  by (simp_all add: claim_ok_def)

lemma ok_put: "nxs_ok ft s \<Longrightarrow> board_ok b \<Longrightarrow> bd_pll b = bd_pll (bd s) \<Longrightarrow> nxs_ok ft (s\<lparr>bd := b\<rparr>)"
  by (simp add: nxs_ok_def)

lemma ok_transaction: "nxs_ok ft s \<Longrightarrow> claim_ok ft (transaction_claim s e a v n c)"
  using transaction_ok [of "bd s" e a v n c] ok_put [of ft s]
  by (auto simp: transaction_claim_def claim_ok_def nxs_ok_def split: prod.splits if_splits)

lemma memory_ok:
  "dsp_l1d_write b a v n c = Some b' \<Longrightarrow> board_ok b \<Longrightarrow> board_ok b' \<and> bd_pll b' = bd_pll b"
  "ram_write b a v n c = Some b' \<Longrightarrow> board_ok b \<Longrightarrow> board_ok b' \<and> bd_pll b' = bd_pll b"
  by (auto simp: dsp_l1d_write_def ram_write_def Let_def board_ok_def split: if_splits option.splits)

lemma pll_write_clock:
  assumes "pll_write p a v n c = Some p'"
  shows "pll_write_mapped a n \<and> active_dividers p' = active_dividers p \<and> (go_remaining p' = go_remaining p \<or> go_remaining p' = 8)"
proof (cases c)
  case True
  have keep: "active_dividers (pll_commit i w p) = active_dividers p \<and> go_remaining (pll_commit i w p) = go_remaining p" for i w
    by (simp add: pll_commit_def commit_pllctl_def Let_def)
  show ?thesis
    using assms True keep by (auto simp: pll_write_def pll_go_def pll_write_mapped_def Let_def split: if_splits option.splits)
next
  case False
  then have "p' = p" using pll_mmio.check_pure assms by metis
  then show ?thesis using assms by (auto simp: pll_write_def pll_write_mapped_def split: if_splits option.splits)
qed

lemma ok_pll:
  assumes ok: "nxs_ok ft s" and w: "pll_write (bd_pll (bd s)) a v n c = Some p"
    and idle: "ft \<or> tr_phase (nx_transfer s) = TRANSFER_IDLE"
  shows "nxs_ok ft (s\<lparr>bd := (bd s)\<lparr>bd_pll := p\<rparr>\<rparr>)"
proof -
  have "pll_inv p" using ok pll_mmio.inv_any [OF _ w] by (simp add: nxs_ok_def board_ok_def)
  moreover have "serial_ok p (nx_transfer s)" if "\<not> ft"
    using ok idle that pll_write_clock [OF w] by (auto simp: nxs_ok_def serial_ok_def spi_clock_ready_def)
  ultimately show ?thesis using ok by (simp add: nxs_ok_def board_ok_def)
qed

lemma ok_timed:
  assumes ok: "nxs_ok ft s" and clk: "\<not> spi_clock_missing s a"
    and w: "write_timed (nx_spis s) (nx_dac s) (nx_transfer s) a v n True = Some (x, t)"
  shows "nxs_ok ft (s\<lparr>nx_spis := x, nx_transfer := t\<rparr>)"
proof -
  have t: "transfer_ok (nx_transfer s)" using ok by (simp add: nxs_ok_def)
  have "transfer_ok t \<and> clock_phase t = clock_phase (nx_transfer s) \<and>
      (tr_phase t \<noteq> 0 \<longrightarrow> tr_phase (nx_transfer s) \<noteq> 0 \<or> spi_clock_ready (bd_pll (bd s)))"
  proof (cases "timed_word (nx_spis s) a")
    case True
    then have "a - SPI1_BASE = 0x3C" by (simp add: timed_word_def)
    then have "a = SPI1_BASE + 0x3C" by (metis diff_add_cancel add.commute)
    then have "spi_clock_ready (bd_pll (bd s))" using True clk by (simp add: timed_word_def spi_clock_missing_def)
    then show ?thesis using write_timed_word [OF w True] accept_word_ok [OF t] by metis
  next
    case False
    then have "t = after_store a v (nx_transfer s)" using write_timed_store [OF w] by simp
    then show ?thesis
      using after_store_ok [OF t] after_store_frame
      by (auto simp: after_store_def Let_def discard_transfer_def transfer_reset_def)
  qed
  then show ?thesis using ok by (auto simp: nxs_ok_def serial_ok_def)
qed

lemma ok_functional:
  assumes ok: "nxs_ok ft s" and w: "write_wm8740 (nx_spis s) (nx_dac s) a v n f c = Some (x, d)"
  shows "nxs_ok ft (s\<lparr>nx_spis := x, nx_dac := d\<rparr>)"
proof -
  have "wm8740_valid (nx_dac s)" using ok by (simp add: nxs_ok_def)
  then have "wm8740_valid d" using w latch_valid by (auto simp: write_wm8740_def Let_def split: if_splits option.splits)
  then show ?thesis using ok by (simp add: nxs_ok_def)
qed

lemma ok_hint: "nxs_ok ft s \<Longrightarrow> hpi_inv h \<Longrightarrow> nxs_ok ft (hint_rises s h)"
  by (auto simp: nxs_ok_def hint_rises_def)

lemma ok_write_True:
  assumes ok: "nxs_ok ft s" and w: "dsp_write ft s a v n True = Some s'"
  shows "nxs_ok ft s'"
proof -
  have b: "board_ok (bd s)" using ok by (simp add: nxs_ok_def)
  note fields = b [unfolded board_ok_def] ok [unfolded nxs_ok_def]
  have upd: "nxs_ok ft (s\<lparr>nx_i2c := i\<rparr>)" if "i2c_inv i" for i using ok that by (simp add: nxs_ok_def)
  have intc: "nxs_ok ft (s\<lparr>bd := (bd s)\<lparr>bd_intc := x, bd_delivery := d\<rparr>\<rparr>)"
    if "intc_write_delivery (bd_intc (bd s)) (Some (bd_delivery (bd s))) a v n True = Some (x, y)" for x y d
    using intc_wf_write [OF _ that] b by (intro ok_put [OF ok]) (simp_all add: board_ok_def)
  have emif: "nxs_ok ft (s\<lparr>bd := (bd s)\<lparr>bd_emifb := x\<rparr>\<rparr>)" if "emifb_write (bd_emifb (bd s)) a v n True = Some x" for x
    using emifb_mmio.inv_write [OF _ that] b by (intro ok_put [OF ok]) (simp_all add: board_ok_def)
  have rest: "nxs_ok ft (s\<lparr>bd := (bd s)\<lparr>bd_timers := x\<rparr>\<rparr>)" "nxs_ok ft (s\<lparr>bd := (bd s)\<lparr>bd_cache := y\<rparr>\<rparr>)" for x y
    using b by (auto intro!: ok_put [OF ok] simp: board_ok_def)
  have psc: "nxs_ok ft (s\<lparr>nx_psc := x\<rparr>)" if "psc_write (nx_psc s) a v n True = Some x" for x
    using ok psc_mmio.inv_write [OF _ that] by (simp add: nxs_ok_def)
  have sys: "nxs_ok ft (s\<lparr>nx_syscfg := x\<rparr>)" if "syscfg_write (nx_syscfg s) a v n True = Some x" for x
    using ok syscfg_mmio.inv_write [OF _ that] by (simp add: nxs_ok_def)
  have pri: "nxs_ok ft (s\<lparr>nx_priority := x\<rparr>)" if "priority_write (nx_priority s) (nx_syscfg s) a v n True = Some x" for x
    using ok priority_mmio.inv_write [OF _ that] by (simp add: nxs_ok_def)
  have hp: "nxs_ok ft (hint_rises s x)" if "hpi_cpu_write (nx_hpi s) a v n True = Some x" for x
    using ok hpi_mmio.inv_write [OF _ that] by (intro ok_hint) (simp_all add: nxs_ok_def)
  have mem: "nxs_ok ft (s\<lparr>bd := x\<rparr>)" if "dsp_l1d_write (bd s) a v n True = Some x \<or> ram_write (bd s) a v n True = Some x" for x
    using that memory_ok b by (auto intro!: ok_put [OF ok])
  have i2c: "i2c_inv x" if "i2c_write (nx_i2c s) a v n True = Some x" for x
    using ok i2c_mmio.inv_write [OF _ that] by (simp add: nxs_ok_def)
  have frame: "nxs_ok ft (s\<lparr>nx_spis := x\<rparr>)" "nxs_ok ft (s\<lparr>nx_gpio := g\<rparr>)" "nxs_ok ft (s\<lparr>nx_pins := m\<rparr>)" for x g m
    using ok by (simp_all add: nxs_ok_def)
  have pll: "nxs_ok ft (s\<lparr>bd := (bd s)\<lparr>bd_pll := x\<rparr>\<rparr>)" if "pll_write (bd_pll (bd s)) a v n True = Some x"
    "\<not> (\<not> ft \<and> (tr_phase (nx_transfer s) \<noteq> 0 \<or> queued_valid (nx_transfer s) \<noteq> 0) \<and> pll_write_mapped a n)" for x
    using that pll_write_clock [OF that(1)] by (intro ok_pll [OF ok]) auto
  have timed: "nxs_ok ft (s\<lparr>nx_spis := x, nx_transfer := t\<rparr>)" if "\<not> spi_clock_missing s a"
    "write_timed (nx_spis s) (nx_dac s) (nx_transfer s) a v n True = Some (x, t)" for x t
    by (rule ok_timed [OF ok that])
  then have timed': "nxs_ok False (s\<lparr>nx_spis := x, nx_transfer := t\<rparr>)" if "\<not> ft" "\<not> spi_clock_missing s a"
    "write_timed (nx_spis s) (nx_dac s) (nx_transfer s) a v n True = Some (x, t)" for x t
    using that by simp
  have func: "nxs_ok ft (s\<lparr>nx_spis := x, nx_dac := d\<rparr>)" if "write_wm8740 (nx_spis s) (nx_dac s) a v n ft True = Some (x, d)" for x d
    by (rule ok_functional [OF ok that])
  from w show ?thesis
    unfolding dsp_write_def write_claims_def Let_def
  proof (elim cascade_step, goal_cases)
    case 1
    then show ?case using mem by (auto simp: ask_def split: option.splits)
  next
    case 2
    then show ?case using ok by (simp split: if_splits)
  next
    case 3
    then show ?case by (simp split: if_splits)
  next
    case 4
    then show ?case using pll by (auto simp: ask_def split: option.splits if_splits)
  next
    case 5
    then show ?case using upd i2c by (auto simp: ask_def split: option.splits)
  qed (insert ok_transaction [OF ok, of True a v n True] ok_transaction [OF ok, of False a v n True],
    auto simp: ask_def insist_def claim_ok_def intro: intc rest timed' func frame psc sys pri emif hp mem split: option.splits if_splits)
qed

section \<open>Cycles and the host keep it\<close>

lemma phase_free: "transfer_ok (t\<lparr>clock_phase := x\<rparr>) = transfer_ok t"
  unfolding transfer_ok_def transfer_valid_def transfer_bytes_valid_def transfer_words_valid_def
  by (cases t) (simp only: spi_transfer.simps)

lemma ok_cycle:
  assumes ok: "nxs_ok ft s"
  shows "nxs_ok ft (dsp_cycle_tick ft s)"
proof (cases ft)
  case True
  then show ?thesis using ok clocks_ok [of "bd s"] by (simp add: nxs_ok_def dsp_cycle_tick_def)
next
  case False
  let ?t = "nx_transfer s" and ?p = "bd_pll (bd s)"
  have t: "transfer_ok ?t" "wm8740_valid (nx_dac s)" "serial_ok ?p ?t" "tr_fault ?t = 0" "board_ok (bd s)"
    using ok False by (simp_all add: nxs_ok_def transfer_ok_def)
  obtain x d u where c: "spi_core_tick (nx_spis s) (nx_dac s) ?t ?p = (x, d, u)" by (metis prod_cases3)
  have "transfer_ok u \<and> wm8740_valid d \<and> serial_ok (pll_tick ?p) u"
  proof (cases "spi_clock_ready ?p")
    case True
    then have ph: "phase_ok ?p ?t" using t(3) by (simp add: serial_ok_def phase_ok_def)
    obtain k z where a: "advance_loop 1 (nx_spis s 1) (nx_dac s) ?t = (k, z, d, u)"
      using c core_tick_one [OF t(1,2) True ph, of "nx_spis s"] by (auto split: prod.splits)
    have p: "transfer_ok u" "wm8740_valid d" "clock_phase u = clock_phase ?t"
      using advance_loop_ok [OF t(1,2), of 1 "nx_spis s 1"] unfolding a by (auto simp: time_passed_def)
    have "go_remaining ?p = 0" using True by (simp add: spi_clock_ready_def)
    then have "active_dividers (pll_tick ?p) = active_dividers ?p" "go_remaining (pll_tick ?p) = 0"
      by (auto simp: tick_regs)
    then show ?thesis using p True ph by (simp add: serial_ok_def spi_clock_ready_def phase_ok_def)
  next
    case False
    then have i: "tr_phase ?t = 0" using t(3) by (auto simp: serial_ok_def)
    then have "queued_valid ?t = 0" using pending_idle [OF t(1)] by (simp add: transfer_active_def)
    then have u: "u = ?t\<lparr>clock_phase := 0\<rparr>" "d = nx_dac s" using c False i t(4) by (simp_all add: spi_core_tick_def)
    have "transfer_ok u" using t(1) unfolding u(1) phase_free .
    moreover have "0 < spi_divider w" for w using divider_range(1) [of w] by (simp add: word_less_nat_alt)
    ultimately show ?thesis using u i t(2) by (simp add: serial_ok_def)
  qed
  then show ?thesis using ok False c clocks_ok [of "bd s"] by (simp add: nxs_ok_def dsp_cycle_tick_def)
qed

definition rclaim_ok :: "bool \<Rightarrow> (u32 \<times> 'c nxs) claim \<Rightarrow> bool" where
  "rclaim_ok ft c \<longleftrightarrow> (\<forall>v s. c = Take (v, s) \<longrightarrow> nxs_ok ft s)"

lemma rclaim_ask: "(\<And>x. r = Some x \<Longrightarrow> nxs_ok ft (snd (f x))) \<Longrightarrow> rclaim_ok ft (ask f r)"
  "(\<And>x. r = Some x \<Longrightarrow> nxs_ok ft (snd (f x))) \<Longrightarrow> rclaim_ok ft (insist f r)"
  "rclaim_ok ft Pass"
  by (auto simp: rclaim_ok_def ask_def insist_def split: option.splits)

lemma rclaim_if: "rclaim_ok ft x \<Longrightarrow> rclaim_ok ft y \<Longrightarrow> rclaim_ok ft (if b then x else y)"
  by simp

lemma ok_load: "nxs_ok ft s \<Longrightarrow> dsp_read ft s a = Some (v, s') \<Longrightarrow> nxs_ok ft s'"
proof -
  assume ok: "nxs_ok ft s" and r: "dsp_read ft s a = Some (v, s')"
  have t: "nxs_ok ft (s\<lparr>bd := (bd s)\<lparr>bd_timers := x\<rparr>\<rparr>)" "nxs_ok ft (s\<lparr>nx_spis := y\<rparr>)" for x y
    using ok by (simp_all add: nxs_ok_def board_ok_def)
  have "list_all (rclaim_ok ft) (read_claims ft s a)"
    unfolding read_claims_def Let_def list.pred_inject
    by (intro conjI rclaim_ask rclaim_if) (simp_all add: ok t split: prod.split)
  moreover have "list_all (rclaim_ok ft) cs \<Longrightarrow> cascade cs = Some (v, s') \<Longrightarrow> nxs_ok ft s'" for cs
    by (induction cs) (auto elim!: cascade_step simp: rclaim_ok_def)
  ultimately show "nxs_ok ft s'" using r by (simp add: dsp_read_def)
qed

lemma ok_store: "nxs_ok ft s \<Longrightarrow> dsp_write ft s a v n c = Some s' \<Longrightarrow> nxs_ok ft s'"
  using ok_write_True [of ft s a v n s'] dsp_bus.check_pure [of ft s a v n s'] by (cases c) auto

lemma ok_host_read: "nxs_ok ft s \<Longrightarrow> nxs_ok ft (snd (hpi_read s off))"
  by (auto simp: hpi_read_def Let_def nxs_ok_def)

lemma ok_host_write: "nxs_ok ft s \<Longrightarrow> nxs_ok ft (snd (hpi_write s off v))"
proof -
  assume ok: "nxs_ok ft s"
  have "nxs_ok ft (snd (hpi_control_write s v))"
    using ok deliver_ok [of "bd s" 34] hpi_inv_host [of "nx_hpi s" "ucast v"]
    by (auto simp: hpi_control_write_def Let_def nxs_ok_def)
  then show ?thesis using ok by (auto simp: hpi_write_def host_store_def Let_def nxs_ok_def board_ok_def)
qed

lemma ok_init: "nxs_ok ft (nxs_init cpu fa df)"
proof -
  have "transfer_ok transfer_reset" "wm8740_valid wm8740_reset" using run_reach_ok [OF spi_run.start] by (simp_all add: run_ok_def)
  moreover have "priority_valid (priority_reset f)" for f by (simp add: priority_valid_iff priority_reset_def)
  moreover have "serial_ok pll_reset transfer_reset" using divider_range(1) by (simp add: serial_ok_def transfer_reset_def word_less_nat_alt Suc_le_eq)
  ultimately show ?thesis
    by (simp add: nxs_ok_def nxs_init_def board_ok_def board_reset_def valid_reset ok_reset inv_reset intc_wf_reset emifb_inv_reset
        syscfg_inv_reset psc_inv_reset i2c_inv_reset hpi_inv_def hpi_reset_def)
qed

lemma ok_reset_line: "nxs_ok ft s \<Longrightarrow> nxs_ok ft (reset_line s released)"
proof -
  assume ok: "nxs_ok ft s"
  have "transfer_ok transfer_reset" "wm8740_valid wm8740_reset" using run_reach_ok [OF spi_run.start] by (simp_all add: run_ok_def)
  moreover have "serial_ok p transfer_reset" for p using divider_range(1) by (simp add: serial_ok_def transfer_reset_def word_less_nat_alt Suc_le_eq)
  ultimately show ?thesis
    using ok by (simp add: reset_line_def assert_reset_def Let_def nxs_ok_def board_ok_def valid_reset ok_reset intc_wf_reset
        hpi_inv_def hpi_reset_def hpi_rom_boot_ready_def)
qed

section \<open>Reachable boards\<close>

text \<open>Everything that acts on the board: the DSP's loads, stores and cycles; the controller, audio and event steps of
  the execution loop; the host's accesses, the reset line and the boot phase. The interpreter's own state, the
  scheduler and the run flags may change in any way.\<close>

inductive nxs_reach :: "bool \<Rightarrow> 'c nxs \<Rightarrow> bool" for ft where
  power_on: "nxs_reach ft (nxs_init cpu fa df)"
| load: "nxs_reach ft s \<Longrightarrow> dsp_read ft s a = Some (v, s') \<Longrightarrow> nxs_reach ft s'"
| store: "nxs_reach ft s \<Longrightarrow> dsp_write ft s a v n c = Some s' \<Longrightarrow> nxs_reach ft s'"
| cycle: "nxs_reach ft s \<Longrightarrow> nxs_reach ft (dsp_cycle_tick ft s)"
| psc: "nxs_reach ft s \<Longrightarrow> nxs_reach ft (s\<lparr>nx_psc := psc_tick (nx_psc s)\<rparr>)"
| slots: "nxs_reach ft s \<Longrightarrow> advance_functional_mcasp_slots (bd s) = (ok, b) \<Longrightarrow> nxs_reach ft (s\<lparr>bd := b\<rparr>)"
| notify: "nxs_reach ft s \<Longrightarrow> nxs_reach ft (s\<lparr>bd := deliver_edma_notifications (bd s)\<rparr>)"
| take_requests: "nxs_reach ft s \<Longrightarrow> intc_cpu_pending (bd_delivery (bd s)) = (p, d) \<Longrightarrow>
    nxs_reach ft (s\<lparr>bd := (bd s)\<lparr>bd_delivery := d\<rparr>\<rparr>)"
| host_load: "nxs_reach ft s \<Longrightarrow> hpi_read s off = (x, s') \<Longrightarrow> nxs_reach ft s'"
| host_store: "nxs_reach ft s \<Longrightarrow> hpi_write s off v = (r, s') \<Longrightarrow> nxs_reach ft s'"
| reset: "nxs_reach ft s \<Longrightarrow> nxs_reach ft (reset_line s released)"
| phase: "nxs_reach ft s \<Longrightarrow> set_boot_phase s p = (r, s') \<Longrightarrow> nxs_reach ft s'"
| interpreter: "nxs_reach ft s \<Longrightarrow> nxs_reach ft (s\<lparr>nx_cpu := cpu, nx_scheduler := sc, nx_started := st, nx_halted := ha,
    nx_running := ru, nx_timer_armed := ti\<rparr>)"

lemma reach_ok: "nxs_reach ft s \<Longrightarrow> nxs_ok ft s"
proof (induction rule: nxs_reach.induct)
  case (psc s)
  have "psc_inv (psc_tick (nx_psc s))" using psc.IH psc_inv_tick by (simp add: nxs_ok_def)
  then show ?case using psc.IH by (simp add: nxs_ok_def)
next
  case (slots s ok b)
  then show ?case using slots_ok [of "bd s" ok b] ok_put [of ft s b] by (simp add: nxs_ok_def)
next
  case (notify s)
  then show ?case using notifications_ok [of "bd s"] ok_put [of ft s] by (simp add: nxs_ok_def)
next
  case (take_requests s p d)
  then show ?case by (simp add: nxs_ok_def board_ok_def)
next
  case (host_load s off x s')
  then show ?case using ok_host_read [of ft s off] by simp
next
  case (host_store s off v r s')
  then show ?case using ok_host_write [of ft s off v] by simp
next
  case (phase s p r s')
  then show ?case by (auto simp: set_boot_phase_def nxs_ok_def split: if_splits)
next
  case (interpreter s cpu sc st ha ru ti)
  then show ?case by (simp add: nxs_ok_def)
qed (auto intro: ok_init ok_load ok_store ok_cycle ok_reset_line)

text \<open>C2: board invariant. In every board reached from power-on by the DSP, the host, the clocks and the reset line, in
  any order, the device states satisfy the predicates the code checks on a restored checkpoint, the PLL is at a legal
  operating point, and the serial transfer is valid and has not faulted; while one is under way the serial clock is
  there, so the fault the execution loop tests after every step cannot arise.\<close>

theorem nxs_reachable_valid:
  assumes "nxs_reach ft s"
  shows "edma_valid (bd_edma (bd s)) \<and> control_valid (bd_mcasp (bd s)) \<and> priority_valid (nx_priority s) \<and>
    wm8740_valid (nx_dac s) \<and> transfer_valid (nx_transfer s) \<and> tr_fault (nx_transfer s) = 0 \<and>
    (pll_config (bd_pll (bd s)) 0 AND 8 \<noteq> 0 \<longrightarrow> valid_operating_point (bd_pll (bd s))) \<and>
    (\<not> ft \<and> transfer_active (nx_transfer s) \<longrightarrow> spi_clock_ready (bd_pll (bd s)))"
proof -
  have ok: "nxs_ok ft s" by (rule reach_ok [OF assms])
  then have "transfer_active (nx_transfer s) \<Longrightarrow> tr_phase (nx_transfer s) \<noteq> 0"
    using pending_idle [of "nx_transfer s"] by (auto simp: nxs_ok_def)
  then show ?thesis
    using ok control_ok_valid by (auto simp: nxs_ok_def board_ok_def transfer_ok_def serial_ok_def pll_inv_def)
qed

theorem nxs_reachable_valid_witness:
  "edma_valid (bd_edma (bd (reset_line (nxs_init () False True) True)))"
  by (rule conjunct1 [OF nxs_reachable_valid [where ft = False, OF nxs_reach.reset [OF nxs_reach.power_on]]])

text \<open>C3: store contract of the whole bus. Checking a store of the DSP changes nothing, at any address and size, and the
  check is accepted exactly when the commit would be.\<close>

theorem dsp_store_check_predicts_commit:
  "dsp_write ft s a v n False = (if dsp_write ft s a v n True = None then None else Some s)"
  by (rule dsp_bus.check_result)

end
