(* ===== verification/C674x_Sp.thy ===== *)
theory C674x_Sp
  imports Prelude
begin

text \<open>
  \<^verbatim>\<open>emulator/qemu/cdj_c674x_sp.c\<close>: the single-precision instructions, computed on the bits of binary32 with the
  rounding mode as an argument (0 nearest even, 1 toward zero, 2 upwards, 3 downwards). Signed C variables are
  integers. The status word holds the warning bits (NAN1 0, NAN2 1, DEN1 2, DEN2 3, INVAL 4, INFO 5, OVER 6,
  INEX 7, UNDER 8, UNORD 9).
\<close>

section \<open>Helpers\<close>

record sp_result =
  sf_value :: u32
  sf_status :: u32

definition flag :: "bool \<Rightarrow> nat \<Rightarrow> u32" where
  "flag p k = (if p then shl 1 k else 0)"

text \<open>The downward search for the highest set bit.\<close>

fun top_bit :: "'a::len word \<Rightarrow> nat \<Rightarrow> nat" where
  "top_bit w 0 = 0"
| "top_bit w (Suc n) = (if bit w (Suc n) then Suc n else top_bit w n)"

text \<open>The left normalisation loop: shift until bit \<open>lead\<close> is set. The word is nonzero and below \<open>2 ^ (lead + 1)\<close>
  where it is called, so that \<open>lead\<close> steps are enough.\<close>

fun normalise :: "nat \<Rightarrow> nat \<Rightarrow> 'a::len word \<Rightarrow> int \<Rightarrow> 'a word \<times> int" where
  "normalise 0 lead w e = (w, e)"
| "normalise (Suc fuel) lead w e = (if bit w lead then (w, e) else normalise fuel lead (shl w 1) (e - 1))"

definition right_shift_jam :: "'a::len word \<Rightarrow> nat \<Rightarrow> 'a word" where
  "right_shift_jam v count =
     (if count = 0 then v
      else if count < LENGTH('a) then shr v count OR c_bool (shl v (LENGTH('a) - count) \<noteq> 0)
      else c_bool (v \<noteq> 0))"

definition sp_exponent :: "u32 \<Rightarrow> nat" where "sp_exponent w = unat (shr w 23 AND 255)"
definition sp_fraction :: "u32 \<Rightarrow> u32" where "sp_fraction w = w AND 0x7FFFFF"

definition sp_nan :: "u32 \<Rightarrow> bool" where "sp_nan w \<longleftrightarrow> sp_exponent w = 255 \<and> sp_fraction w \<noteq> 0"
definition sp_infinite :: "u32 \<Rightarrow> bool" where "sp_infinite w \<longleftrightarrow> sp_exponent w = 255 \<and> sp_fraction w = 0"
definition sp_denormal :: "u32 \<Rightarrow> bool" where "sp_denormal w \<longleftrightarrow> sp_exponent w = 0 \<and> sp_fraction w \<noteq> 0"
definition sp_zero :: "u32 \<Rightarrow> bool" where "sp_zero w \<longleftrightarrow> sp_exponent w = 0 \<and> sp_fraction w = 0"

definition sp_source_status :: "u32 \<Rightarrow> u32 \<Rightarrow> u32" where
  "sp_source_status left right =
     flag (sp_nan left) 0 OR flag (sp_nan right) 1 OR flag (sp_denormal left) 2 OR flag (sp_denormal right) 3"

definition sp_signalling :: "u32 \<Rightarrow> bool" where "sp_signalling w \<longleftrightarrow> sp_nan w \<and> sp_fraction w AND 0x400000 = 0"

section \<open>Integer to single\<close>

text \<open>The result and whether a bit was lost.\<close>

definition integer_to_sp :: "u32 \<Rightarrow> bool \<Rightarrow> nat \<Rightarrow> u32 \<times> bool" where
  "integer_to_sp source signed_source rmode =
     (let negative = (signed_source \<and> source AND 0x80000000 \<noteq> 0);
          magnitude = (if negative then 0 - source else source)
      in if magnitude = 0 then (0, False)
         else
           (let msb = top_bit magnitude 31; exponent = of_nat (msb + 127);
                pack = (\<lambda>mantissa exponent. (if negative then 0x80000000 else 0) OR shl exponent 23 OR (mantissa AND 0x7FFFFF))
            in if msb \<le> 23 then (pack (shl magnitude (23 - msb)) exponent, False)
               else
                 (let s = msb - 23; remainder = magnitude AND (shl 1 s - 1); mantissa = shr magnitude s;
                      increment =
                        (if rmode = 0 \<and> remainder \<noteq> 0 then
                           (let halfway = shl 1 (s - 1) in remainder > halfway \<or> (remainder = halfway \<and> bit mantissa 0))
                         else if rmode = 2 then \<not> negative \<and> remainder \<noteq> 0
                         else if rmode = 3 then negative \<and> remainder \<noteq> 0 else False);
                      mantissa = (if increment then mantissa + 1 else mantissa);
                      carried = (increment \<and> mantissa = 0x1000000)
                  in (pack (if carried then shr mantissa 1 else mantissa) (if carried then exponent + 1 else exponent),
                      remainder \<noteq> 0))))"

section \<open>Comparison\<close>

text \<open>Relation 0 is equality, 1 greater, 2 less.\<close>

definition sp_below :: "u32 \<Rightarrow> u32 \<Rightarrow> bool" where
  "sp_below left right =
     (if (left XOR right) AND 0x80000000 \<noteq> 0 then shr left 31 \<noteq> 0
      else if shr left 31 \<noteq> 0 then left > right else left < right)"

definition compare_sp :: "u32 \<Rightarrow> u32 \<Rightarrow> nat \<Rightarrow> sp_result" where
  "compare_sp left right relation =
     (let status = sp_source_status left right
      in if sp_nan left \<or> sp_nan right then
           \<lparr>sf_value = 0, sf_status = status OR shl 1 9 OR flag (relation \<noteq> 0) 4\<rparr>
         else
           (let l = (if sp_denormal left then left AND 0x80000000 else left);
                r = (if sp_denormal right then right AND 0x80000000 else right);
                both_zero = (shl l 1 = 0 \<and> shl r 1 = 0); equal = (both_zero \<or> l = r);
                less = (\<not> equal \<and> sp_below l r)
            in \<lparr>sf_value = c_bool (if relation = 0 then equal else if relation = 1 then \<not> equal \<and> \<not> less else less),
                sf_status = status\<rparr>))"

section \<open>Addition and subtraction\<close>

text \<open>The last rounding step of the sum: mantissa with three extra bits, exponent as an integer.\<close>

definition round_up :: "nat \<Rightarrow> bool \<Rightarrow> bool \<Rightarrow> bool \<Rightarrow> bool \<Rightarrow> bool \<Rightarrow> bool" where
  "round_up rmode negative odd_mantissa inexact above_half at_half \<longleftrightarrow>
     rmode = 0 \<and> (above_half \<or> at_half \<and> odd_mantissa) \<or> rmode = 2 \<and> \<not> negative \<and> inexact \<or>
     rmode = 3 \<and> negative \<and> inexact"

definition away_from_zero :: "nat \<Rightarrow> bool \<Rightarrow> bool" where
  "away_from_zero rmode negative \<longleftrightarrow> rmode = 2 \<and> \<not> negative \<or> rmode = 3 \<and> negative"

definition finish_sum_sp :: "bool \<Rightarrow> u32 \<Rightarrow> int \<Rightarrow> nat \<Rightarrow> u32 \<Rightarrow> sp_result" where
  "finish_sum_sp negative significand exponent rmode status =
     (let sign = (if negative then 0x80000000 else 0)
      in if exponent \<le> 0 then
           \<lparr>sf_value = sign OR (if away_from_zero rmode negative then 0x00800000 else 0),
            sf_status = status OR shl 1 8 OR shl 1 7\<rparr>
         else
           (let mantissa = shr significand 3; remainder = significand AND 7;
                increment = round_up rmode negative (bit mantissa 0) (remainder \<noteq> 0) (remainder > 4) (remainder = 4);
                mantissa = (if increment then mantissa + 1 else mantissa);
                carried = (increment \<and> mantissa = 0x1000000);
                mantissa = (if carried then shr mantissa 1 else mantissa);
                exponent = (if carried then exponent + 1 else exponent)
            in if exponent \<ge> 255 then
                 (let infinity = (rmode = 0 \<or> away_from_zero rmode negative)
                  in \<lparr>sf_value = sign OR (if infinity then 0x7F800000 else 0x7F7FFFFF),
                      sf_status = status OR shl 1 7 OR shl 1 6 OR flag infinity 5\<rparr>)
               else
                 \<lparr>sf_value = sign OR shl (u32_of exponent) 23 OR (mantissa AND 0x7FFFFF),
                  sf_status = status OR flag (remainder \<noteq> 0) 7\<rparr>))"

text \<open>The sum of two normal numbers.\<close>

definition sum_sp :: "u32 \<Rightarrow> u32 \<Rightarrow> nat \<Rightarrow> u32 \<Rightarrow> sp_result" where
  "sum_sp left right rmode status =
     (let le = sp_exponent left; re = sp_exponent right;
          lnegative = (shr left 31 \<noteq> 0); rnegative = (shr right 31 \<noteq> 0);
          lsig = shl (0x800000 OR sp_fraction left) 3; rsig = shl (0x800000 OR sp_fraction right) 3;
          rsig = (if le > re then right_shift_jam rsig (le - re) else rsig);
          lsig = (if re > le then right_shift_jam lsig (re - le) else lsig);
          exponent = int (if re > le then re else le)
      in if lnegative = rnegative then
           (let significand = lsig + rsig
            in if bit significand 27 then finish_sum_sp lnegative (right_shift_jam significand 1) (exponent + 1) rmode status
               else finish_sum_sp lnegative significand exponent rmode status)
         else if lsig = rsig then \<lparr>sf_value = (if rmode = 3 then 0x80000000 else 0), sf_status = status\<rparr>
         else
           (let negative = (if lsig > rsig then lnegative else rnegative);
                difference = (if lsig > rsig then lsig - rsig else rsig - lsig);
                (significand, exponent) = normalise 26 26 difference exponent
            in finish_sum_sp negative significand exponent rmode status))"

definition add_sub_sp :: "u32 \<Rightarrow> u32 \<Rightarrow> nat \<Rightarrow> nat \<Rightarrow> sp_result" where
  "add_sub_sp source1 source2 operation rmode =
     (let status = sp_source_status source1 source2
      in if sp_nan source1 \<or> sp_nan source2 then
           \<lparr>sf_value = 0x7FFFFFFF, sf_status = status OR flag (sp_signalling source1 \<or> sp_signalling source2) 4\<rparr>
         else
           (let status = status OR flag (sp_denormal source1 \<and> \<not> sp_infinite source2) 7 OR
                  flag (sp_denormal source2 \<and> \<not> sp_infinite source1) 7;
                left = (if operation = 2 then source2 else source1);
                right = (if operation = 2 then source1 else source2);
                right = (if operation \<noteq> 0 then right XOR 0x80000000 else right);
                left = (if sp_denormal left then left AND 0x80000000 else left);
                right = (if sp_denormal right then right AND 0x80000000 else right)
            in if sp_infinite left \<or> sp_infinite right then
                 (if sp_infinite left \<and> sp_infinite right \<and> (left XOR right) AND 0x80000000 \<noteq> 0 then
                    \<lparr>sf_value = 0x7FFFFFFF, sf_status = status OR shl 1 4\<rparr>
                  else
                    \<lparr>sf_value = (if sp_infinite left then left else right) AND 0xFF800000, sf_status = status OR shl 1 5\<rparr>)
               else if sp_exponent left = 0 \<and> sp_exponent right = 0 then
                 \<lparr>sf_value = (if shr left 31 = shr right 31 then shl (shr left 31) 31
                              else if rmode = 3 then 0x80000000 else 0), sf_status = status\<rparr>
               else if sp_exponent left = 0 then \<lparr>sf_value = right, sf_status = status\<rparr>
               else if sp_exponent right = 0 then \<lparr>sf_value = left, sf_status = status\<rparr>
               else sum_sp left right rmode status))"

section \<open>Multiplication\<close>

definition product_sp :: "u32 \<Rightarrow> u32 \<Rightarrow> nat \<Rightarrow> u32 \<Rightarrow> sp_result" where
  "product_sp left right rmode status =
     (let sign = (left XOR right) AND 0x80000000; negative = (sign \<noteq> 0);
          product = ucast (0x800000 OR sp_fraction left) * ucast (0x800000 OR sp_fraction right) :: u64;
          msb = (if bit product 47 then 47 else 46);
          exponent = int (sp_exponent left) + int (sp_exponent right) - 127 + int msb - 46;
          s = msb - 23; mantissa = ucast (shr product s) :: u32; remainder = product AND (shl 1 s - 1);
          increment = round_up rmode negative (bit mantissa 0) (remainder \<noteq> 0) (remainder > shl 1 (s - 1)) (remainder = shl 1 (s - 1));
          mantissa = (if increment then mantissa + 1 else mantissa);
          carried = (increment \<and> mantissa = 0x1000000);
          mantissa = (if carried then shr mantissa 1 else mantissa);
          exponent = (if carried then exponent + 1 else exponent)
      in if exponent \<ge> 255 then
           (let infinity = (rmode = 0 \<or> away_from_zero rmode negative)
            in \<lparr>sf_value = sign OR (if infinity then 0x7F800000 else 0x7F7FFFFF),
                sf_status = status OR shl 1 7 OR shl 1 6 OR flag infinity 5\<rparr>)
         else if exponent \<le> 0 then
           \<lparr>sf_value = sign OR (if away_from_zero rmode negative then 0x00800000 else 0),
            sf_status = status OR shl 1 8 OR shl 1 7\<rparr>
         else
           \<lparr>sf_value = sign OR shl (u32_of exponent) 23 OR (mantissa AND 0x7FFFFF),
            sf_status = status OR flag (remainder \<noteq> 0) 7\<rparr>)"

definition multiply_sp :: "u32 \<Rightarrow> u32 \<Rightarrow> nat \<Rightarrow> sp_result" where
  "multiply_sp left right rmode =
     (let sign = (left XOR right) AND 0x80000000; status = sp_source_status left right;
          lflush = sp_zero left \<or> sp_denormal left; rflush = sp_zero right \<or> sp_denormal right
      in if sp_nan left \<or> sp_nan right then
           \<lparr>sf_value = sign OR 0x7FFFFFFF, sf_status = status OR flag (sp_signalling left \<or> sp_signalling right) 4\<rparr>
         else if sp_infinite left \<and> rflush \<or> sp_infinite right \<and> lflush then
           \<lparr>sf_value = sign OR 0x7FFFFFFF, sf_status = status OR shl 1 4\<rparr>
         else if sp_infinite left \<or> sp_infinite right then
           \<lparr>sf_value = sign OR 0x7F800000, sf_status = status OR shl 1 5\<rparr>
         else if lflush \<or> rflush then
           \<lparr>sf_value = sign,
            sf_status = status OR
              flag (sp_denormal left \<and> \<not> sp_zero right \<and> \<not> sp_denormal right \<or>
                    sp_denormal right \<and> \<not> sp_zero left \<and> \<not> sp_denormal left) 7\<rparr>
         else product_sp left right rmode status)"

section \<open>Single to integer\<close>

definition sp_to_integer :: "u32 \<Rightarrow> nat \<Rightarrow> sp_result" where
  "sp_to_integer source rmode =
     (let negative = (source AND 0x80000000 \<noteq> 0); exponent = sp_exponent source; fraction = sp_fraction source;
          saturated = (if negative then 0x80000000 else 0x7FFFFFFF);
          overflow = \<lparr>sf_value = saturated, sf_status = shl 1 7 OR shl 1 6\<rparr>
      in if exponent = 255 then
           (if fraction \<noteq> 0 then \<lparr>sf_value = saturated, sf_status = shl 1 4 OR shl 1 1\<rparr> else overflow)
         else if exponent = 0 then
           \<lparr>sf_value = 0, sf_status = (if fraction \<noteq> 0 then shl 1 7 OR shl 1 3 else 0)\<rparr>
         else
           (let power = int exponent - 127; significand = ucast (0x800000 OR fraction) :: u64
            in if power > 31 then overflow
               else
                 (let (magnitude, remainder, halfway) =
                        (if power \<ge> 23 then (shl significand (nat (power - 23)), 0, 0)
                         else if power \<ge> 0 then
                           (let s = nat (23 - power) in (shr significand s, significand AND (shl 1 s - 1), shl 1 (s - 1)))
                         else (0, significand, if power = -1 then shl 1 23 else 0xFFFFFFFFFFFFFFFF));
                      increment = (remainder \<noteq> 0 \<and>
                        round_up rmode negative (bit magnitude 0) True (remainder > halfway) (remainder = halfway));
                      magnitude = (if increment then magnitude + 1 else magnitude)
                  in if (\<not> negative \<and> magnitude > 0x7FFFFFFF) \<or> (negative \<and> magnitude > 0x80000000) then overflow
                     else \<lparr>sf_value = (if negative then 0 - ucast magnitude else ucast magnitude),
                           sf_status = flag (remainder \<noteq> 0) 7\<rparr>)))"

end
