(* ===== verification/C674x_Dp.thy ===== *)
theory C674x_Dp
  imports C674x_Sp
begin

text \<open>
  \<^verbatim>\<open>emulator/qemu/cdj_c674x_dp.c\<close>: the double-precision instructions on the bits of binary64, with the
  conversions between singles, doubles and integers. Rounding modes and status bits are those of
  \<open>C674x_Sp\<close>, whose rounding rules are shared.
\<close>

section \<open>Classification\<close>

record dp_result =
  df_value :: u64
  df_status :: u32

abbreviation (input) DP_SIGN :: u64 where "DP_SIGN \<equiv> 0x8000000000000000"
abbreviation (input) DP_EXPONENT :: u64 where "DP_EXPONENT \<equiv> 0x7FF0000000000000"
abbreviation (input) DP_FRACTION :: u64 where "DP_FRACTION \<equiv> 0x000FFFFFFFFFFFFF"
abbreviation (input) DP_HIDDEN :: u64 where "DP_HIDDEN \<equiv> 0x0010000000000000"
abbreviation (input) DP_QUIET :: u64 where "DP_QUIET \<equiv> 0x0008000000000000"
abbreviation (input) DP_NAN_OUT :: u64 where "DP_NAN_OUT \<equiv> 0x7FFFFFFFFFFFFFFF"
abbreviation (input) DP_LFPN :: u64 where "DP_LFPN \<equiv> 0x7FEFFFFFFFFFFFFF"
abbreviation (input) DP_SFPN :: u64 where "DP_SFPN \<equiv> 0x0010000000000000"

abbreviation (input) DP_NAN2 :: u32 where "DP_NAN2 \<equiv> 2"
abbreviation (input) DP_DEN2 :: u32 where "DP_DEN2 \<equiv> 8"
abbreviation (input) DP_INVAL :: u32 where "DP_INVAL \<equiv> 0x10"
abbreviation (input) DP_INFO :: u32 where "DP_INFO \<equiv> 0x20"
abbreviation (input) DP_OVER :: u32 where "DP_OVER \<equiv> 0x40"
abbreviation (input) DP_INEX :: u32 where "DP_INEX \<equiv> 0x80"
abbreviation (input) DP_UNDER :: u32 where "DP_UNDER \<equiv> 0x100"
abbreviation (input) DP_UNORD :: u32 where "DP_UNORD \<equiv> 0x200"

definition dp_exponent :: "u64 \<Rightarrow> nat" where "dp_exponent w = unat (shr w 52 AND 0x7FF)"
definition dp_fraction :: "u64 \<Rightarrow> u64" where "dp_fraction w = w AND DP_FRACTION"

definition dp_nan :: "u64 \<Rightarrow> bool" where "dp_nan w \<longleftrightarrow> dp_exponent w = 0x7FF \<and> dp_fraction w \<noteq> 0"
definition dp_infinite :: "u64 \<Rightarrow> bool" where "dp_infinite w \<longleftrightarrow> dp_exponent w = 0x7FF \<and> dp_fraction w = 0"
definition dp_denormal :: "u64 \<Rightarrow> bool" where "dp_denormal w \<longleftrightarrow> dp_exponent w = 0 \<and> dp_fraction w \<noteq> 0"
definition dp_zero :: "u64 \<Rightarrow> bool" where "dp_zero w \<longleftrightarrow> dp_exponent w = 0 \<and> dp_fraction w = 0"
definition dp_signalling :: "u64 \<Rightarrow> bool" where "dp_signalling w \<longleftrightarrow> dp_nan w \<and> dp_fraction w AND DP_QUIET = 0"

definition dp_source_status :: "u64 \<Rightarrow> u64 \<Rightarrow> u32" where
  "dp_source_status left right =
     flag (dp_nan left) 0 OR flag (dp_nan right) 1 OR flag (dp_denormal left) 2 OR flag (dp_denormal right) 3"

section \<open>Absolute value and comparison\<close>

definition abs_dp :: "u64 \<Rightarrow> dp_result" where
  "abs_dp source2 =
     (if dp_nan source2 then
        \<lparr>df_value = DP_NAN_OUT, df_status = DP_NAN2 OR (if dp_fraction source2 AND DP_QUIET \<noteq> 0 then 0 else DP_INVAL)\<rparr>
      else if dp_denormal source2 then \<lparr>df_value = 0, df_status = DP_INEX OR DP_DEN2\<rparr>
      else if dp_exponent source2 = 0x7FF then \<lparr>df_value = DP_EXPONENT, df_status = DP_INFO\<rparr>
      else \<lparr>df_value = source2 AND NOT DP_SIGN, df_status = 0\<rparr>)"

definition dp_below :: "u64 \<Rightarrow> u64 \<Rightarrow> bool" where
  "dp_below left right =
     (if (left XOR right) AND DP_SIGN \<noteq> 0 then shr left 63 \<noteq> 0
      else if shr left 63 \<noteq> 0 then left > right else left < right)"

definition compare_dp :: "u64 \<Rightarrow> u64 \<Rightarrow> nat \<Rightarrow> dp_result" where
  "compare_dp left right relation =
     (let status = dp_source_status left right
      in if dp_nan left \<or> dp_nan right then
           \<lparr>df_value = 0, df_status = status OR DP_UNORD OR (if relation \<noteq> 0 then DP_INVAL else 0)\<rparr>
         else
           (let l = (if dp_denormal left then left AND DP_SIGN else left);
                r = (if dp_denormal right then right AND DP_SIGN else right);
                both_zero = (shl l 1 = 0 \<and> shl r 1 = 0); equal = (both_zero \<or> l = r);
                less = (\<not> equal \<and> dp_below l r)
            in \<lparr>df_value = c_bool (if relation = 0 then equal else if relation = 1 then \<not> equal \<and> \<not> less else less),
                df_status = status\<rparr>))"

section \<open>Addition and subtraction\<close>

definition finish_sum_dp :: "bool \<Rightarrow> u64 \<Rightarrow> int \<Rightarrow> nat \<Rightarrow> u32 \<Rightarrow> dp_result" where
  "finish_sum_dp negative significand exponent rmode status =
     (let sign = (if negative then DP_SIGN else 0)
      in if exponent \<le> 0 then
           \<lparr>df_value = sign OR (if away_from_zero rmode negative then DP_SFPN else 0),
            df_status = status OR DP_UNDER OR DP_INEX\<rparr>
         else
           (let mantissa = shr significand 3; remainder = significand AND 7;
                increment = round_up rmode negative (bit mantissa 0) (remainder \<noteq> 0) (remainder > 4) (remainder = 4);
                mantissa = (if increment then mantissa + 1 else mantissa);
                carried = (increment \<and> mantissa = 0x20000000000000);
                mantissa = (if carried then shr mantissa 1 else mantissa);
                exponent = (if carried then exponent + 1 else exponent)
            in if exponent \<ge> 2047 then
                 (let infinity = (rmode = 0 \<or> away_from_zero rmode negative)
                  in \<lparr>df_value = sign OR (if infinity then DP_EXPONENT else DP_LFPN),
                      df_status = status OR DP_INEX OR DP_OVER OR (if infinity then DP_INFO else 0)\<rparr>)
               else
                 \<lparr>df_value = sign OR shl (u64_of exponent) 52 OR (mantissa AND DP_FRACTION),
                  df_status = status OR (if remainder \<noteq> 0 then DP_INEX else 0)\<rparr>))"

definition sum_dp :: "u64 \<Rightarrow> u64 \<Rightarrow> nat \<Rightarrow> u32 \<Rightarrow> dp_result" where
  "sum_dp left right rmode status =
     (let le = dp_exponent left; re = dp_exponent right;
          lnegative = (shr left 63 \<noteq> 0); rnegative = (shr right 63 \<noteq> 0);
          lsig = shl (DP_HIDDEN OR dp_fraction left) 3; rsig = shl (DP_HIDDEN OR dp_fraction right) 3;
          rsig = (if le > re then right_shift_jam rsig (le - re) else rsig);
          lsig = (if re > le then right_shift_jam lsig (re - le) else lsig);
          exponent = int (if re > le then re else le)
      in if lnegative = rnegative then
           (let significand = lsig + rsig
            in if bit significand 56 then finish_sum_dp lnegative (right_shift_jam significand 1) (exponent + 1) rmode status
               else finish_sum_dp lnegative significand exponent rmode status)
         else if lsig = rsig then \<lparr>df_value = (if rmode = 3 then DP_SIGN else 0), df_status = status\<rparr>
         else
           (let negative = (if lsig > rsig then lnegative else rnegative);
                difference = (if lsig > rsig then lsig - rsig else rsig - lsig);
                (significand, exponent) = normalise 55 55 difference exponent
            in finish_sum_dp negative significand exponent rmode status))"

definition add_sub_dp :: "u64 \<Rightarrow> u64 \<Rightarrow> nat \<Rightarrow> nat \<Rightarrow> dp_result" where
  "add_sub_dp source1 source2 operation rmode =
     (let status = dp_source_status source1 source2
      in if dp_nan source1 \<or> dp_nan source2 then
           \<lparr>df_value = DP_NAN_OUT,
            df_status = status OR (if dp_signalling source1 \<or> dp_signalling source2 then DP_INVAL else 0)\<rparr>
         else
           (let status = status OR (if dp_denormal source1 \<and> \<not> dp_infinite source2 then DP_INEX else 0) OR
                  (if dp_denormal source2 \<and> \<not> dp_infinite source1 then DP_INEX else 0);
                left = (if operation = 2 then source2 else source1);
                right = (if operation = 2 then source1 else source2);
                right = (if operation \<noteq> 0 then right XOR DP_SIGN else right);
                left = (if dp_denormal left then left AND DP_SIGN else left);
                right = (if dp_denormal right then right AND DP_SIGN else right)
            in if dp_infinite left \<or> dp_infinite right then
                 (if dp_infinite left \<and> dp_infinite right \<and> (left XOR right) AND DP_SIGN \<noteq> 0 then
                    \<lparr>df_value = DP_NAN_OUT, df_status = status OR DP_INVAL\<rparr>
                  else
                    \<lparr>df_value = (if dp_infinite left then left else right) AND (DP_SIGN OR DP_EXPONENT),
                     df_status = status OR DP_INFO\<rparr>)
               else if dp_exponent left = 0 \<and> dp_exponent right = 0 then
                 \<lparr>df_value = (if shr left 63 = shr right 63 then shl (shr left 63) 63
                              else if rmode = 3 then DP_SIGN else 0), df_status = status\<rparr>
               else if dp_exponent left = 0 then \<lparr>df_value = right, df_status = status\<rparr>
               else if dp_exponent right = 0 then \<lparr>df_value = left, df_status = status\<rparr>
               else sum_dp left right rmode status))"

section \<open>Multiplication\<close>

text \<open>The 128-bit product in 32-bit halves: high and low word.\<close>

definition multiply64 :: "u64 \<Rightarrow> u64 \<Rightarrow> u64 \<times> u64" where
  "multiply64 a b =
     (let al = a AND 0xFFFFFFFF; ah = shr a 32; bl = b AND 0xFFFFFFFF; bh = shr b 32;
          ll = al * bl; lh = al * bh; hl = ah * bl; hh = ah * bh;
          middle = shr ll 32 + (lh AND 0xFFFFFFFF) + (hl AND 0xFFFFFFFF)
      in (hh + shr lh 32 + shr hl 32 + shr middle 32, (ll AND 0xFFFFFFFF) OR shl middle 32))"

definition product_dp :: "u64 \<Rightarrow> u64 \<Rightarrow> nat \<Rightarrow> u32 \<Rightarrow> dp_result" where
  "product_dp left right rmode status =
     (let sign = (left XOR right) AND DP_SIGN; negative = (sign \<noteq> 0);
          (high, low) = multiply64 (DP_HIDDEN OR dp_fraction left) (DP_HIDDEN OR dp_fraction right);
          msb = (if bit high 41 then 105 else 104);
          exponent = int (dp_exponent left) + int (dp_exponent right) - 1023 + int msb - 104;
          s = msb - 52; mantissa = shl high (64 - s) OR shr low s; remainder = low AND (shl 1 s - 1);
          increment = round_up rmode negative (bit mantissa 0) (remainder \<noteq> 0) (remainder > shl 1 (s - 1)) (remainder = shl 1 (s - 1));
          mantissa = (if increment then mantissa + 1 else mantissa);
          carried = (increment \<and> mantissa = 0x20000000000000);
          mantissa = (if carried then shr mantissa 1 else mantissa);
          exponent = (if carried then exponent + 1 else exponent)
      in if exponent \<ge> 2047 then
           (let infinity = (rmode = 0 \<or> away_from_zero rmode negative)
            in \<lparr>df_value = sign OR (if infinity then DP_EXPONENT else DP_LFPN),
                df_status = status OR DP_INEX OR DP_OVER OR (if infinity then DP_INFO else 0)\<rparr>)
         else if exponent \<le> 0 then
           \<lparr>df_value = sign OR (if away_from_zero rmode negative then DP_SFPN else 0),
            df_status = status OR DP_UNDER OR DP_INEX\<rparr>
         else
           \<lparr>df_value = sign OR shl (u64_of exponent) 52 OR (mantissa AND DP_FRACTION),
            df_status = status OR (if remainder \<noteq> 0 then DP_INEX else 0)\<rparr>)"

definition multiply_dp :: "u64 \<Rightarrow> u64 \<Rightarrow> nat \<Rightarrow> dp_result" where
  "multiply_dp left right rmode =
     (let sign = (left XOR right) AND DP_SIGN; status = dp_source_status left right;
          lflush = dp_zero left \<or> dp_denormal left; rflush = dp_zero right \<or> dp_denormal right
      in if dp_nan left \<or> dp_nan right then
           \<lparr>df_value = sign OR DP_NAN_OUT,
            df_status = status OR (if dp_signalling left \<or> dp_signalling right then DP_INVAL else 0)\<rparr>
         else if dp_infinite left \<and> rflush \<or> dp_infinite right \<and> lflush then
           \<lparr>df_value = sign OR DP_NAN_OUT, df_status = status OR DP_INVAL\<rparr>
         else if dp_infinite left \<or> dp_infinite right then
           \<lparr>df_value = sign OR DP_EXPONENT, df_status = status OR DP_INFO\<rparr>
         else if lflush \<or> rflush then
           \<lparr>df_value = sign,
            df_status = status OR
              (if dp_denormal left \<and> \<not> dp_zero right \<and> \<not> dp_denormal right \<or>
                  dp_denormal right \<and> \<not> dp_zero left \<and> \<not> dp_denormal left then DP_INEX else 0)\<rparr>
         else product_dp left right rmode status)"

section \<open>Conversions\<close>

definition sp_operand_to_dp :: "u32 \<Rightarrow> u64" where
  "sp_operand_to_dp source =
     (let sign = shl (ucast (source AND 0x80000000)) 32; exponent = sp_exponent source; fraction = ucast (sp_fraction source)
      in if exponent = 0 then sign OR (if fraction \<noteq> 0 then 1 else 0)
         else if exponent = 255 then sign OR DP_EXPONENT OR shl fraction 29
         else sign OR shl (of_nat exponent - 127 + 1023) 52 OR shl fraction 29)"

definition sp_to_dp :: "u32 \<Rightarrow> dp_result" where
  "sp_to_dp source2 =
     (let exponent = sp_exponent source2; fraction = sp_fraction source2; sign = shl (ucast (source2 AND 0x80000000)) 32
      in if exponent = 255 \<and> fraction \<noteq> 0 then
           \<lparr>df_value = DP_NAN_OUT, df_status = DP_NAN2 OR (if fraction AND 0x400000 \<noteq> 0 then 0 else DP_INVAL)\<rparr>
         else if exponent = 255 then \<lparr>df_value = sign OR DP_EXPONENT, df_status = DP_INFO\<rparr>
         else if exponent = 0 \<and> fraction \<noteq> 0 then \<lparr>df_value = sign, df_status = DP_INEX OR DP_DEN2\<rparr>
         else if exponent = 0 then \<lparr>df_value = sign, df_status = 0\<rparr>
         else \<lparr>df_value = sign OR shl (of_nat exponent - 127 + 1023) 52 OR shl (ucast fraction) 29, df_status = 0\<rparr>)"

definition dp_to_sp :: "u64 \<Rightarrow> nat \<Rightarrow> dp_result" where
  "dp_to_sp source2 rmode =
     (let exponent = dp_exponent source2; fraction = dp_fraction source2;
          sign = ucast (shr source2 32) AND 0x80000000 :: u32; negative = (sign \<noteq> 0)
      in if exponent = 0x7FF \<and> fraction \<noteq> 0 then
           \<lparr>df_value = 0x7FFFFFFF, df_status = DP_NAN2 OR (if fraction AND DP_QUIET \<noteq> 0 then 0 else DP_INVAL)\<rparr>
         else if exponent = 0x7FF then \<lparr>df_value = ucast (sign OR 0x7F800000), df_status = DP_INFO\<rparr>
         else if exponent = 0 \<and> fraction \<noteq> 0 then \<lparr>df_value = ucast sign, df_status = DP_INEX OR DP_DEN2\<rparr>
         else if exponent = 0 then \<lparr>df_value = ucast sign, df_status = 0\<rparr>
         else
           (let significand = DP_HIDDEN OR fraction; mantissa = ucast (shr significand 29) :: u32;
                remainder = significand AND 0x1FFFFFFF; halfway = 0x10000000;
                increment = round_up rmode negative (bit mantissa 0) (remainder \<noteq> 0) (remainder > halfway) (remainder = halfway);
                mantissa = (if increment then mantissa + 1 else mantissa);
                carried = (increment \<and> mantissa = 0x1000000);
                mantissa = (if carried then shr mantissa 1 else mantissa);
                power = int exponent - 1023;
                biased = (if carried then power + 1 else power) + 127
            in if biased \<ge> 255 then
                 (let infinity = (rmode = 0 \<or> away_from_zero rmode negative)
                  in \<lparr>df_value = ucast (sign OR (if infinity then 0x7F800000 else 0x7F7FFFFF)),
                      df_status = DP_INEX OR DP_OVER OR (if infinity then DP_INFO else 0)\<rparr>)
               else if biased \<le> 0 then
                 \<lparr>df_value = ucast (sign OR (if away_from_zero rmode negative then 0x00800000 else 0)),
                  df_status = DP_INEX OR DP_UNDER\<rparr>
               else
                 \<lparr>df_value = ucast (sign OR shl (u32_of biased) 23 OR (mantissa AND 0x7FFFFF)),
                  df_status = (if remainder \<noteq> 0 then DP_INEX else 0)\<rparr>))"

definition dp_to_integer :: "u64 \<Rightarrow> nat \<Rightarrow> dp_result" where
  "dp_to_integer source2 rmode =
     (let negative = (source2 AND DP_SIGN \<noteq> 0); exponent = dp_exponent source2; fraction = dp_fraction source2;
          saturated = (if negative then 0x80000000 else 0x7FFFFFFF);
          overflow = \<lparr>df_value = saturated, df_status = DP_INEX OR DP_OVER\<rparr>
      in if exponent = 0x7FF then
           (if fraction \<noteq> 0 then \<lparr>df_value = saturated, df_status = DP_INVAL OR DP_NAN2\<rparr> else overflow)
         else if exponent = 0 then \<lparr>df_value = 0, df_status = (if fraction \<noteq> 0 then DP_INEX OR DP_DEN2 else 0)\<rparr>
         else
           (let power = int exponent - 1023
            in if power > 31 then overflow
               else
                 (let significand = DP_HIDDEN OR fraction;
                      (magnitude, remainder, halfway) =
                        (if power \<ge> 0 then
                           (let s = 52 - nat power in (shr significand s, significand AND (shl 1 s - 1), shl 1 (s - 1)))
                         else (0, significand, if power = -1 then DP_HIDDEN else 0xFFFFFFFFFFFFFFFF));
                      increment = (remainder \<noteq> 0 \<and>
                        round_up rmode negative (bit magnitude 0) True (remainder > halfway) (remainder = halfway));
                      magnitude = (if increment then magnitude + 1 else magnitude);
                      result = (if negative then 0 - ucast magnitude else ucast magnitude) :: u32
                  in if (\<not> negative \<and> magnitude > 0x7FFFFFFF) \<or> (negative \<and> magnitude > 0x80000000) then overflow
                     else \<lparr>df_value = ucast result, df_status = (if remainder \<noteq> 0 then DP_INEX else 0)\<rparr>)))"

definition integer_to_dp :: "u32 \<Rightarrow> bool \<Rightarrow> u64" where
  "integer_to_dp source2 signed_source =
     (let negative = (signed_source \<and> source2 AND 0x80000000 \<noteq> 0);
          magnitude = ucast (if negative then 0 - source2 else source2) :: u64
      in if magnitude = 0 then 0
         else
           (let msb = top_bit magnitude 31
            in (if negative then DP_SIGN else 0) OR shl (of_nat (msb + 1023)) 52 OR (shl magnitude (52 - msb) AND DP_FRACTION)))"

end
