(* ===== verification/C674x_Approx.thy ===== *)
theory C674x_Approx
  imports C674x_Dp
begin

text \<open>
  \<^verbatim>\<open>emulator/qemu/cdj_c674x_approx.c\<close>: the reciprocal and reciprocal square root approximations. For normal
  operands the code divides with the host's floating point and the square root of its mathematics library;
  these are the parameter \<open>host_fp\<close>, functions on the bit patterns. Everything else is computed here.
\<close>

record host_fp =
  hf_reciprocal64 :: "u64 \<Rightarrow> u64"
  hf_rsqrt64 :: "u64 \<Rightarrow> u64"
  hf_reciprocal32 :: "u32 \<Rightarrow> u32"
  hf_rsqrt32 :: "u32 \<Rightarrow> u32"
  hf_differ64 :: "u64 \<Rightarrow> u64 \<Rightarrow> bool"
  hf_differ32 :: "u32 \<Rightarrow> u32 \<Rightarrow> bool"

datatype approx_kind = RCPSP | RCPDP | RSQRSP | RSQRDP

record approx_result =
  ap_value :: u64
  ap_status :: u32
  ap_pair :: bool

abbreviation (input) AP_NAN2 :: u32 where "AP_NAN2 \<equiv> 2"
abbreviation (input) AP_DEN2 :: u32 where "AP_DEN2 \<equiv> 8"
abbreviation (input) AP_INVAL :: u32 where "AP_INVAL \<equiv> 0x10"
abbreviation (input) AP_INFO :: u32 where "AP_INFO \<equiv> 0x20"
abbreviation (input) AP_OVER :: u32 where "AP_OVER \<equiv> 0x40"
abbreviation (input) AP_INEX :: u32 where "AP_INEX \<equiv> 0x80"
abbreviation (input) AP_UNDER :: u32 where "AP_UNDER \<equiv> 0x100"
abbreviation (input) AP_DIV0 :: u32 where "AP_DIV0 \<equiv> 0x400"

text \<open>Keep eight explicit mantissa bits.\<close>

definition round_sp :: "u32 \<Rightarrow> u32" where
  "round_sp w = (w + shl 1 14) AND NOT (shl 1 15 - 1)"

definition round_dp :: "u64 \<Rightarrow> u64" where
  "round_dp w = (w + shl 1 43) AND NOT (shl 1 44 - 1)"

record classified =
  cl_sign :: bool
  cl_zero :: bool
  cl_denormal :: bool
  cl_infinity :: bool
  cl_snan :: bool
  cl_qnan :: bool

definition classify_sp :: "u32 \<Rightarrow> classified" where
  "classify_sp w =
     \<lparr>cl_sign = bit w 31, cl_zero = sp_zero w, cl_denormal = sp_denormal w, cl_infinity = sp_infinite w,
      cl_snan = sp_signalling w, cl_qnan = (sp_nan w \<and> \<not> sp_signalling w)\<rparr>"

definition classify_dp :: "u64 \<Rightarrow> classified" where
  "classify_dp w =
     \<lparr>cl_sign = bit w 63, cl_zero = dp_zero w, cl_denormal = dp_denormal w, cl_infinity = dp_infinite w,
      cl_snan = dp_signalling w, cl_qnan = (dp_nan w \<and> \<not> dp_signalling w)\<rparr>"

definition signed_inf :: "bool \<Rightarrow> bool \<Rightarrow> u64" where
  "signed_inf dp sign =
     (if dp then (if sign then 0x8000000000000000 else 0) OR 0x7FF0000000000000
      else (if sign then 0x80000000 else 0) OR 0x7F800000)"

definition signed_zero :: "bool \<Rightarrow> bool \<Rightarrow> u64" where
  "signed_zero dp sign = (if sign then (if dp then 0x8000000000000000 else 0x80000000) else 0)"

definition approx :: "host_fp \<Rightarrow> approx_kind \<Rightarrow> u64 \<Rightarrow> approx_result" where
  "approx host kind src2 =
     (let dp = (kind = RCPDP \<or> kind = RSQRDP); reciprocal = (kind = RCPSP \<or> kind = RCPDP);
          result = (\<lambda>v status. \<lparr>ap_value = v, ap_status = status, ap_pair = dp\<rparr>);
          nan_out = (if dp then 0x7FFFFFFFFFFFFFFF else 0x7FFFFFFF);
          c = (if dp then classify_dp src2 else classify_sp (ucast src2))
      in if cl_snan c \<or> cl_qnan c then result nan_out (AP_NAN2 OR (if cl_snan c then AP_INVAL else 0))
         else if \<not> reciprocal \<and> cl_sign c \<and> \<not> cl_zero c \<and> \<not> cl_denormal c then result nan_out AP_INVAL
         else if cl_denormal c then
           result (signed_inf dp (cl_sign c)) (AP_DIV0 OR AP_INEX OR AP_DEN2 OR (if reciprocal then AP_INFO OR AP_OVER else 0))
         else if cl_zero c then result (signed_inf dp (cl_sign c)) (AP_DIV0 OR AP_INFO)
         else if cl_infinity c then result (signed_zero dp (cl_sign c)) 0
         else if dp then
           (let exact = (if reciprocal then hf_reciprocal64 host src2 else hf_rsqrt64 host src2); rounded = round_dp exact
            in result rounded (if hf_differ64 host rounded exact then AP_INEX else 0))
         else
           (let exact = (if reciprocal then hf_reciprocal32 host (ucast src2) else hf_rsqrt32 host (ucast src2));
                rounded = round_sp exact
            in if reciprocal \<and> rounded AND 0x7F800000 = 0 then result (signed_zero dp (cl_sign c)) (AP_INEX OR AP_UNDER)
               else result (ucast rounded) (if hf_differ32 host rounded exact then AP_INEX else 0)))"

end
