(* ===== verification/C674x_State.thy ===== *)
theory C674x_State
  imports C674x_Control C674x_Loop C674x_Approx Bus_Contract
begin

text \<open>
  The state of the C674x interpreter (\<^verbatim>\<open>CdjC674x\<close> in \<^verbatim>\<open>emulator/qemu/cdj_c674x.h\<close>) and the
  helper functions at the head of \<^verbatim>\<open>cdj_c674x.c\<close>: the saved software-loop context, instruction
  formats, and the memory transfers. Register banks A and B are 0 and 1. The bus is the record
  \<open>cpu_bus\<close> of the three callbacks over a client state \<open>'m\<close>, threaded through every call, and of the host's
  floating point; a null write
  callback is one that refuses, a null cycle callback the identity. Queues are lists in the code's
  order, without the inactive slots. A call that stops the processor is \<open>Inl\<close> of what it records in
  \<^verbatim>\<open>fault_pc\<close>, \<^verbatim>\<open>fault_word\<close> and \<^verbatim>\<open>fault\<close>; \<open>ft\<close> is the process-wide functional timing mode.
\<close>

section \<open>State\<close>

text \<open>The reasons the interpreter gives when it stops, one for each message of the code; the last five are those the
  board's execution loop records in the processor.\<close>

datatype (plugins only:) reason =
    Invalid_interrupt_mask | Reload_restart | Setup_address_unavailable | Retained_buffer_invalid
  | Nested_interrupt | Pipe_down_overflow
  | Unaligned_fetch | Unmapped_fetch | Points_into_header | Unaligned_full_fetch | Nine_instructions
  | Register_conflict | Control_conflict | Status_queue_full | Load_queue_full | Store_queue_full
  | Result_queue_full | Parallel_load_conflict | Parallel_result_conflict
  | Invalid_long_pair | Cross_path_long | Invalid_doubleword_pair | Reserved_memory_mode | Amr_interlock
  | Reserved_circular_mode | Small_circular_buffer | Bad_memory_access
  | Invalid_multiply_pair | Invalid_multiply_source_pair | Faucr_conflict | Invalid_bitfield_counts
  | Control_read_missing | Control_write_missing | Irp_task_state_conflict | Branch_conflict
  | Bdec_with_addkpc | Multiple_bdec | Multiple_multicycle | Addkpc_side | M_opfield_missing
  | Dotp_missing | Dotp_undefined | Not_implemented | Invalid_dp_pair | Invalid_dp_result_pair
  | Invalid_dp_source_pair | Mpyi_constant | Nrp_without_ntsr | Nrp_ier_conflict | Bpos_with_addkpc
  | Multiple_bpos | Nonconditional_l_missing
  | Packet_too_long | Nop_with_spmask | Spmask_position | Reserved_nop_count | Callp_pending | Callp_parallel
  | Callp_queue | Reserved_compact_shift | Reserved_compact_lsd | Unmapped_stack_transfer
  | Bad_stack_access | Unmapped_stack_access | Compact_missing | Interrupt_gate_conflict
  | Reserved_predicate | Parallel_nonaligned | Overlapping_memory | Delayed_result_conflict
  | Delayed_status_conflict | Store_commit_broken | Load_mapping_changed | Branch_out_of_nested_loop
  | Spmaskr_reload | Kernel_position | Reload_boundary | Invalid_kernel_cycle | While_delay
  | Gate_with_kernel | Invalid_loop_nop | Spmask_unit | Invalid_loop_load | Loop_control_missing
  | Loop_mvc | Retained_mismatch | Loop_capacity | Invalid_loop_packet | Reload_count_short
  | Retained_schedule_mismatch | Loop_length | Loop_issue_capacity | Buffered_spmask_unit
  | Loop_packet_capacity | While_ends_loading | Post_body_overflow | Reload_overlap
  | Interrupt_drain_invalid | Sploopd_reload | Loop_predicate | Ilc_not_ready | Reload_branch_pending
  | Invalid_loop_interval | Return_interval_mismatch | Spmask_with_setup | Multicycle_setup
  | Sploopd_overflow
  | Spi_transfer_fault | Audio_slot_fault | Slice_completion_fault | Scheduler_state_fault | Scheduling_request_fault

text \<open>What \<^verbatim>\<open>stop\<close> records.\<close>

record stopped =
  sp_pc :: u32
  sp_word :: u32
  sp_reason :: reason

text \<open>Low byte of a size: the transfer size; from bit 8: the circular address width at issue.\<close>

record store =
  st_due :: u64
  st_data :: u64
  st_at :: u32
  st_encoded :: nat

record load =
  ld_due :: u64
  ld_value :: u64
  ld_address :: u32
  ld_bank :: nat
  ld_dst :: nat
  ld_size :: nat
  ld_sign :: bool

abbreviation (input) DELAYED_IFR_SET :: nat where "DELAYED_IFR_SET \<equiv> 32"
abbreviation (input) DELAYED_IFR_CLEAR :: nat where "DELAYED_IFR_CLEAR \<equiv> 33"
abbreviation (input) DELAYED_SAT :: nat where "DELAYED_SAT \<equiv> 34"
abbreviation (input) DELAYED_FAUCR :: nat where "DELAYED_FAUCR \<equiv> 35"
abbreviation (input) IDLE_FOREVER :: u32 where "IDLE_FOREVER \<equiv> 0xFFFFFFFF"

record instruction =
  in_word :: u32
  in_pc :: u32
  in_header :: u32
  in_compact :: bool

record packet =
  pk_instructions :: "instruction list"
  pk_next_pc :: u32
  pk_single_cycle :: bool

record cpu = cpu_control +
  gpr :: "nat \<Rightarrow> nat \<Rightarrow> u32"
  pc :: u32
  packets :: u64
  branch_due :: u64
  branch_target :: u32
  fault_pc :: u32
  fault_word :: u32
  branch_queue :: "(u64 \<times> u32) list"
  fault :: "reason option"
  stores :: "store list"
  loads :: "load list"
  loop_active :: bool
  idle_cycles :: u32
  loop_wait :: nat
  loop_tags :: nat
  loop_packets :: u32
  loop_pred_bank :: nat
  loop_pred_reg :: nat
  loop_pred_history :: u32
  loop_pred_invert :: bool
  loop_state :: loop_buf
  loop_instructions :: "nat \<Rightarrow> instruction"

record 'm cpu_bus =
  bus_rd :: "'m \<Rightarrow> u32 \<Rightarrow> (u32 \<times> 'm) option"
  bus_wr :: "'m mmio_write"
  bus_tick :: "'m \<Rightarrow> 'm"
  bus_fp :: host_fp

definition stop :: "stopped \<Rightarrow> cpu \<Rightarrow> cpu" where
  "stop e cpu = cpu\<lparr>fault := Some (sp_reason e), fault_pc := sp_pc e, fault_word := sp_word e\<rparr>"

definition cpu_reset :: "u32 \<Rightarrow> cpu" where
  "cpu_reset entry =
     \<lparr>control = (\<lambda>_. 0)(1 := 0x14000100, 4 := 1, 5 := 0x00700000, 24 := 0x0700001D), control_ready = (\<lambda>_. 0),
      cycles = 0, gpr = (\<lambda>_ _. 0), pc = entry, packets = 0, branch_due = 0, branch_target = 0, fault_pc = 0,
      fault_word = 0, branch_queue = [], fault = None, stores = [], loads = [], loop_active = False,
      idle_cycles = 0, loop_wait = 0, loop_tags = 0, loop_packets = 0, loop_pred_bank = 0, loop_pred_reg = 0,
      loop_pred_history = 0, loop_pred_invert = False,
      loop_state = \<lparr>lp_tags = (\<lambda>_ _. 0), lp_count = (\<lambda>_. 0), lp_ii = 0, lp_length = 0, lp_iterations = 0,
        lp_cycle = 0, lp_post_cycle = 0, lp_end_cycle = 0, lp_sealed = False, lp_predicate_loop = False,
        lp_delayed_count = False\<rparr>,
      loop_instructions = (\<lambda>_. \<lparr>in_word = 0, in_pc = 0, in_header = 0, in_compact = False\<rparr>)\<rparr>"

section \<open>The saved loop context\<close>

abbreviation (input) TSR_SPLX :: u32 where "TSR_SPLX \<equiv> 0x4000"
abbreviation (input) LOOP_RETURNING :: u32 where "LOOP_RETURNING \<equiv> 8"
abbreviation (input) LOOP_CONTEXT :: nat where "LOOP_CONTEXT \<equiv> 31"
abbreviation (input) RELOAD_POST_END :: nat where "RELOAD_POST_END \<equiv> 27"
abbreviation (input) RELOAD_OLD_START :: nat where "RELOAD_OLD_START \<equiv> 28"
abbreviation (input) RELOAD_OLD_END :: nat where "RELOAD_OLD_END \<equiv> 29"
abbreviation (input) RELOAD_CURRENT_START :: nat where "RELOAD_CURRENT_START \<equiv> 30"
abbreviation (input) LOOP_INTERRUPT_MASK :: u64 where "LOOP_INTERRUPT_MASK \<equiv> 0xF00000000"
abbreviation (input) LOOP_RETAINED_MASK :: u64 where "LOOP_RETAINED_MASK \<equiv> 0x7FFFF000000000"
abbreviation (input) LOOP_RETAINED_VALID :: u64 where "LOOP_RETAINED_VALID \<equiv> 0x40000000000000"
abbreviation (input) LOOP_CONTEXT_VALID :: u64 where "LOOP_CONTEXT_VALID \<equiv> 0x100000000000000"
abbreviation (input) LOOP_HAS_SPMASK :: u64 where "LOOP_HAS_SPMASK \<equiv> 0x200000000000000"
abbreviation (input) LOOP_IMMEDIATE_RELOAD :: u64 where "LOOP_IMMEDIATE_RELOAD \<equiv> 0x400000000000000"
abbreviation (input) LOOP_INTERRUPT_ARMED :: u64 where "LOOP_INTERRUPT_ARMED \<equiv> 0x4000000000000000"
abbreviation (input) LOOP_INTERRUPT_DRAINING :: u64 where "LOOP_INTERRUPT_DRAINING \<equiv> 0x8000000000000000"

abbreviation (input) loop_context :: "cpu \<Rightarrow> u64" where "loop_context cpu \<equiv> control_ready cpu LOOP_CONTEXT"

definition set_control :: "nat \<Rightarrow> u32 \<Rightarrow> cpu \<Rightarrow> cpu" where
  "set_control n v cpu = cpu\<lparr>control := (control cpu)(n := v)\<rparr>"

definition set_ready :: "nat \<Rightarrow> u64 \<Rightarrow> cpu \<Rightarrow> cpu" where
  "set_ready n v cpu = cpu\<lparr>control_ready := (control_ready cpu)(n := v)\<rparr>"

definition set_reg :: "nat \<Rightarrow> nat \<Rightarrow> u32 \<Rightarrow> cpu \<Rightarrow> cpu" where
  "set_reg bank n v cpu = cpu\<lparr>gpr := (gpr cpu)(bank := (gpr cpu bank)(n := v))\<rparr>"

definition loop_immediate_reload :: "cpu \<Rightarrow> bool" where
  "loop_immediate_reload cpu \<longleftrightarrow> loop_context cpu AND LOOP_IMMEDIATE_RELOAD \<noteq> 0"

definition loop_set_active :: "bool \<Rightarrow> cpu \<Rightarrow> cpu" where
  "loop_set_active active cpu =
     set_control 26 (if active then control cpu 26 OR TSR_SPLX else control cpu 26 AND NOT TSR_SPLX)
       (cpu\<lparr>loop_active := active\<rparr>)"

definition loop_setup_pc :: "cpu \<Rightarrow> u32" where
  "loop_setup_pc cpu = ucast (loop_context cpu AND 0xFFFFFFFF)"

definition loop_interrupt_draining :: "cpu \<Rightarrow> bool" where
  "loop_interrupt_draining cpu \<longleftrightarrow> loop_context cpu AND LOOP_INTERRUPT_DRAINING \<noteq> 0"

definition loop_interrupt_armed :: "cpu \<Rightarrow> bool" where
  "loop_interrupt_armed cpu \<longleftrightarrow> loop_context cpu AND LOOP_INTERRUPT_ARMED \<noteq> 0"

definition loop_selected_interrupt :: "cpu \<Rightarrow> nat" where
  "loop_selected_interrupt cpu = unat (shr (loop_context cpu AND LOOP_INTERRUPT_MASK) 32)"

definition loop_retained_valid :: "cpu \<Rightarrow> bool" where
  "loop_retained_valid cpu \<longleftrightarrow> loop_context cpu AND LOOP_RETAINED_VALID \<noteq> 0"

definition loop_retained_tags :: "cpu \<Rightarrow> nat" where
  "loop_retained_tags cpu = unat (shr (loop_context cpu AND 0x7F000000000) 36)"

definition loop_retained_length :: "cpu \<Rightarrow> nat" where
  "loop_retained_length cpu = unat (shr (loop_context cpu AND 0x1F80000000000) 43)"

definition loop_retained_ii :: "cpu \<Rightarrow> nat" where
  "loop_retained_ii cpu = unat (shr (loop_context cpu AND 0x3E000000000000) 49)"

definition loop_clear_retained :: "cpu \<Rightarrow> cpu" where
  "loop_clear_retained cpu = set_ready LOOP_CONTEXT (loop_context cpu AND NOT LOOP_RETAINED_MASK) cpu"

definition loop_capture_retained :: "cpu \<Rightarrow> cpu option" where
  "loop_capture_retained cpu =
     (let lp = loop_state cpu
      in if loop_tags cpu > 112 \<or> lp_length lp > 48 \<or> lp_ii lp = 0 \<or> lp_ii lp > 16 then None
         else
           (let cpu = loop_clear_retained cpu
            in Some (set_ready LOOP_CONTEXT
                 (loop_context cpu OR (LOOP_RETAINED_VALID OR shl (of_nat (loop_tags cpu)) 36 OR
                   shl (ucast (lp_length lp)) 43 OR shl (ucast (lp_ii lp)) 49)) cpu)))"

definition loop_set_setup :: "u32 \<Rightarrow> bool \<Rightarrow> cpu \<Rightarrow> cpu" where
  "loop_set_setup setup_pc preserve_retained cpu =
     set_ready LOOP_CONTEXT
       (LOOP_CONTEXT_VALID OR (if preserve_retained then loop_context cpu AND LOOP_RETAINED_MASK else 0) OR
         ucast setup_pc) cpu"

definition loop_set_interrupt_phase :: "nat \<Rightarrow> u64 \<Rightarrow> cpu \<Rightarrow> cpu" where
  "loop_set_interrupt_phase interrupt phase cpu =
     (let context = loop_context cpu AND NOT (LOOP_INTERRUPT_MASK OR LOOP_INTERRUPT_ARMED OR LOOP_INTERRUPT_DRAINING)
      in set_ready LOOP_CONTEXT ((context OR shl (of_nat interrupt) 32) OR phase) cpu)"

definition loop_clear_interrupt_phase :: "cpu \<Rightarrow> cpu" where
  "loop_clear_interrupt_phase cpu = loop_set_interrupt_phase 0 0 cpu"

definition interrupt_pipe_down :: "bool \<Rightarrow> cpu \<Rightarrow> cpu option" where
  "interrupt_pipe_down ft cpu =
     (if \<not> ft then Some (cpu\<lparr>idle_cycles := 9\<rparr>)
      else
        (let latest = fold (\<lambda>l t. if ld_due l > t then ld_due l else t) (loads cpu) (cycles cpu);
             latest = fold (\<lambda>s t. if st_due s > t then st_due s else t) (stores cpu) latest;
             drain = latest - cycles cpu
         in if drain \<ge> 0xFFFFFFFF then None
            else
              (let idle = (if idle_cycles cpu = IDLE_FOREVER then 0 else idle_cycles cpu)
               in Some (cpu\<lparr>idle_cycles := (if ucast idle < drain then ucast drain else idle)\<rparr>))))"

end
