(* ===== verification/C674x_Format.thy ===== *)
theory C674x_Format
  imports C674x_State
begin

text \<open>
  The format helpers of \<^verbatim>\<open>emulator/qemu/cdj_c674x.c\<close>: sign extension, address arithmetic, what an
  instruction word is, the packet timing rules of \<^verbatim>\<open>cdj_c674x_multicycle.h\<close>, and transfers over the bus,
  which reads words and writes 1, 2, 4 or 8 bytes.
\<close>

section \<open>Arithmetic helpers\<close>

text \<open>\<^verbatim>\<open>sx\<close> as the bits of its signed result.\<close>

definition sx :: "u32 \<Rightarrow> nat \<Rightarrow> u32" where
  "sx v bits = (let sign = shl 1 (bits - 1) in (v XOR sign) - sign)"

text \<open>A field of an instruction word, as a count or a register number.\<close>

definition bits_at :: "u32 \<Rightarrow> nat \<Rightarrow> nat \<Rightarrow> nat" where
  "bits_at w lo n = unat (shr w lo AND mask n)"

definition queued_memory_load :: "load \<Rightarrow> bool" where
  "queued_memory_load l \<longleftrightarrow> (let n = ld_size l mod 256 in n = 1 \<or> n = 2 \<or> n = 4 \<or> n = 8)"

definition queued_result_registers :: "load \<Rightarrow> nat" where
  "queued_result_registers l =
     (if ld_size l = DELAYED_IFR_SET \<or> ld_size l = DELAYED_IFR_CLEAR \<or> ld_size l = DELAYED_SAT \<or> ld_size l = DELAYED_FAUCR
      then 0 else if ld_size l mod 256 = 8 \<or> ld_size l = 16 then 2 else 1)"

definition saturate32 :: "int \<Rightarrow> u32 \<times> bool" where
  "saturate32 v =
     ((if v > int32_max then u32_of int32_max else if v < int32_min then u32_of int32_min else u32_of v),
      v > int32_max \<or> v < int32_min)"

text \<open>\<open>None\<close>: the mode is not yet available or reserved. Width 0 is linear.\<close>

definition address_width :: "cpu \<Rightarrow> nat \<Rightarrow> nat \<Rightarrow> nat option" where
  "address_width cpu bank n =
     (if n < 4 \<or> n > 7 then Some 0
      else if control_ready cpu 0 > cycles cpu then None
      else
        (let mode = bits_at (control cpu 0) (bank * 8 + (n - 4) * 2) 2
         in if mode = 3 then None
            else if mode = 0 then Some 0
            else Some (bits_at (control cpu 0) (if mode = 1 then 16 else 21) 5 + 1)))"

definition circular_address :: "u32 \<Rightarrow> u32 \<Rightarrow> nat \<Rightarrow> u32" where
  "circular_address base result width =
     (if width = 0 \<or> width = 32 then result
      else (let m = shl 1 width - 1 in (base AND NOT m) OR (result AND m)))"

definition saturating_shift32 :: "u32 \<Rightarrow> nat \<Rightarrow> u32 \<times> bool" where
  "saturating_shift32 source count =
     (if count < 32 then saturate32 (sint source * 2 ^ count)
      else ((if source = 0 then 0 else if source AND 0x80000000 \<noteq> 0 then 0x80000000 else 0x7FFFFFFF), source \<noteq> 0))"

definition arithmetic_shift_right64 :: "u64 \<Rightarrow> nat \<Rightarrow> u64" where
  "arithmetic_shift_right64 v count =
     (if shr v 63 \<noteq> 0 then shr v count OR shl 0xFFFFFFFFFFFFFFFF (64 - count) else shr v count)"

definition register_long40 :: "cpu \<Rightarrow> nat \<Rightarrow> nat \<Rightarrow> u64" where
  "register_long40 cpu bank n = shl (ucast (gpr cpu bank (n + 1) AND 0xFF)) 32 OR ucast (gpr cpu bank n)"

definition shift_32 :: "u32 \<Rightarrow> nat \<Rightarrow> nat \<Rightarrow> u32" where
  "shift_32 source count operation =
     (if operation = 0 then (if count \<ge> 32 then 0 else shl source count)
      else if operation = 2 then (if count \<ge> 32 then 0 else shr source count)
      else if count \<ge> 32 then (if source AND 0x80000000 \<noteq> 0 then 0xFFFFFFFF else 0)
      else if count = 0 then source
      else shr source count OR (if source AND 0x80000000 \<noteq> 0 then shl 0xFFFFFFFF (32 - count) else 0))"

section \<open>Instruction formats\<close>

definition nop_cycles :: "instruction \<Rightarrow> nat" where
  "nop_cycles insn =
     (let w = in_word insn
      in if in_compact insn then (if w AND 0x1FFF = 0x0C6E then unat (shr w 13) + 1 else 0)
         else if w AND 0xFFFE1FFE = 0 then bits_at w 13 4 + 1 else 0)"

datatype interrupt_gate = Gate_none | Gate_disable | Gate_restore

definition interrupt_gate_decode :: "instruction \<Rightarrow> interrupt_gate" where
  "interrupt_gate_decode insn =
     (let w = in_word insn AND NOT 1
      in if in_compact insn then Gate_none
         else if w = 0x10004000 then Gate_disable
         else if w = 0x10006000 then Gate_restore else Gate_none)"

definition interrupt_gate_parallel_conflict :: "interrupt_gate \<Rightarrow> instruction \<Rightarrow> bool" where
  "interrupt_gate_parallel_conflict gate insn =
     (let other = interrupt_gate_decode insn; w = in_word insn
      in if other \<noteq> Gate_none then other \<noteq> gate
         else if nop_cycles insn > 1 then True
         else if in_compact insn then
           w AND 0xBC7E = 0x0C66 \<or> w AND 0x3C7E = 0x1C66 \<or> w AND 0x3C7E = 0x2C66 \<or> w AND 0x3C7E = 0x3C66
         else if w AND NOT 1 = 0x10000000 \<or> w AND NOT 1 = 0x10002000 \<or> w AND NOT 1 = 0x00036000 then True
         else if w AND 0xF03FFFFE = 0x00034000 then True
         else if w AND 0x007FFFFC = 0x00038000 \<or> w AND 0x007FFFFC = 0x0003A000 \<or> w AND 0x007FFFFE = 0x0003E000 then True
         else if w AND 0xFC03FFFE = 0x00030000 \<or> w AND 0xFC03FFFE = 0x00032000 then True
         else if w AND 0x0FFFFFFE = 0x001800E2 \<or> w AND 0x0FFFFFFE = 0x001C00E2 then True
         else w AND 0xFFE = 0x3A2 \<and> bits_at w 13 5 = 0 \<and> (bits_at w 23 5 = 1 \<or> bits_at w 23 5 = 26))"

definition spmask_decode :: "instruction \<Rightarrow> u32 option" where
  "spmask_decode insn =
     (let w = in_word insn
      in if in_compact insn \<and> w AND 0x3C7E = 0x2C66 then Some ((w AND 1) OR (shr w 6 AND 14) OR (shr w 10 AND 48))
         else if \<not> in_compact insn \<and> w AND 0xFC03FFFE = 0x30000 then Some (shr w 18 AND 255)
         else None)"

definition spmaskr_decode :: "instruction \<Rightarrow> bool" where
  "spmaskr_decode insn =
     (if in_compact insn then in_word insn AND 0x3C7E = 0x3C66 else in_word insn AND 0xFC03FFFE = 0x00032000)"

text \<open>The functional units of an instruction as a mask (L1, L2, S1, S2, D1, D2, M1, M2); zero is unknown.\<close>

definition instruction_unit :: "instruction \<Rightarrow> u32" where
  "instruction_unit insn =
     (let w = in_word insn; side = (if in_compact insn then bits_at w 0 1 else bits_at w 1 1)
      in if \<not> in_compact insn then
           if w AND 0x0C = 12 then 32
           else if w AND 0x1C = 0x18 then shl 1 side
           else if w AND 0x0C = 4 \<or> w AND 0x0C = 12 \<or> w AND 0x7C = 0x40 \<or> w AND 0xC3C = 0x830 then shl 16 side
           else if w AND 0x3C = 0x20 \<or> w AND 0x3C = 0x28 \<or> w AND 0x3C = 8 \<or> w AND 0x7C = 0x10 \<or>
             w AND 0x7C = 0x50 \<or> w AND 0xC3C = 0xC30 then shl 4 side
           else if w AND 0x7C = 0 \<or> w AND 0x83C = 0x30 then shl 64 side
           else 0
         else if (w AND 0x26 = 6 \<or> w AND 0x1C66 = 0x0866 \<or> w AND 0x1C66 = 0x1866) \<and> bits_at w 3 2 \<noteq> 3 then
           shl 1 (2 * bits_at w 3 2 + side)
         else if w AND 6 = 4 \<or> w AND 0x087F = 0x0077 \<or> w AND 0x047E = 0x0036 \<or> w AND 0x047E = 0x0436 \<or>
           w AND 0x1C7E = 0x0C76 then shl 16 side
         else if w AND 0x040E = 0 \<or> w AND 0x040E = 0x400 \<or> w AND 0x040E = 0x408 \<or> w AND 0x047E = 0x426 \<or>
           w AND 0x047E = 0x26 then shl 1 side
         else if w AND 0x001E = 0x001E then shl 64 side
         else if w AND 0x040E = 0xA \<or> w AND 0x040E = 0x40A \<or> w AND 0x001E = 0x12 \<or> w AND 0x001E = 2 \<or>
           w AND 0x047E = 0x62 \<or> w AND 0x047E = 0x462 \<or> w AND 0x047E = 0x2E \<or> w AND 0x047E = 0x42E \<or>
           w AND 0x187E = 0x6E \<or> w AND 0x1C7E = 0x186E then shl 4 side
         else 0)"

definition compact_branch :: "instruction \<Rightarrow> bool" where
  "compact_branch i \<longleftrightarrow>
     (let w = in_word i
      in in_compact i \<and>
         (w AND 0x187F = 0x006F \<or>
          in_header i AND 0x8000 \<noteq> 0 \<and> (w AND 0x3E = 0x0A \<or> w AND 0x3E = 0x1A \<or> w AND 0x2E = 0x2A)))"

definition protected_load :: "instruction \<Rightarrow> bool" where
  "protected_load i \<longleftrightarrow>
     (let w = in_word i
      in if in_header i AND shl 1 20 = 0 then False
         else if in_compact i then
           (if w AND 0x087F = 0x0077 then w AND 0x4000 \<noteq> 0 else w AND 6 = 4 \<and> w AND 8 \<noteq> 0)
         else
           (let op = bits_at w 4 3
            in if w AND 0x0C = 12 then op \<noteq> 3 \<and> op \<noteq> 5 \<and> op \<noteq> 7
               else if w AND 0x10C \<noteq> 4 \<and> w AND 0x17C \<noteq> 0x134 \<and> w AND 0x17C \<noteq> 0x154 \<and> w AND 0x17C \<noteq> 0x124 \<and>
                 w AND 0x17C \<noteq> 0x174 \<and> w AND 0x17C \<noteq> 0x164 \<and> w AND 0x17C \<noteq> 0x144 then False
               else op \<noteq> 5 \<and> op \<noteq> 7 \<and> op \<noteq> (if w AND 0x100 \<noteq> 0 then 4 else 3)))"

text \<open>The filter of the loop buffer under an SPMASK; \<open>masking_unknown\<close> is its report of an issued
  instruction whose unit it could not tell (such a tag is never held back).\<close>

definition loop_allow :: "cpu \<Rightarrow> u32 \<Rightarrow> u32 \<Rightarrow> bool" where
  "loop_allow cpu m tag \<longleftrightarrow> m = 0 \<or> instruction_unit (loop_instructions cpu (unat tag)) AND m = 0"

definition masking_unknown :: "cpu \<Rightarrow> u32 \<Rightarrow> u32 list \<Rightarrow> bool" where
  "masking_unknown cpu m tags \<longleftrightarrow>
     m \<noteq> 0 \<and> (\<exists>tag\<in>set tags. instruction_unit (loop_instructions cpu (unat tag)) = 0)"

definition loop_retained_tag :: "cpu \<Rightarrow> instruction \<Rightarrow> nat option" where
  "loop_retained_tag cpu insn =
     (let limit = loop_retained_tags cpu
      in if \<not> loop_retained_valid cpu \<or> limit > 112 then None
         else case List.filter (\<lambda>i. loop_instructions cpu i = insn) [0..<limit] of
             [found] \<Rightarrow> Some found
           | _ \<Rightarrow> None)"

definition loop_buffer_tags :: "loop_buf \<Rightarrow> u32 list" where
  "loop_buffer_tags lp = concat (map (\<lambda>origin. map (lp_tags lp origin) [0..<lp_count lp origin]) [0..<unat (lp_length lp)])"

definition loop_retained_schedule_complete :: "cpu \<Rightarrow> bool" where
  "loop_retained_schedule_complete cpu \<longleftrightarrow>
     (let limit = loop_retained_tags cpu; lp = loop_state cpu; tags = map unat (loop_buffer_tags lp)
      in loop_retained_valid cpu \<and> limit \<le> 112 \<and> unat (lp_length lp) = loop_retained_length cpu \<and>
         unat (lp_ii lp) = loop_retained_ii cpu \<and>
         (\<forall>tag\<in>set tags. tag < limit) \<and> distinct tags \<and> (\<forall>i\<in>set [0..<limit]. i \<in> set tags))"

section \<open>Packet timing\<close>

record timing =
  tm_cycles :: nat
  tm_nop :: nat
  tm_idle :: bool
  tm_protect :: bool

definition timing_init :: timing where
  "timing_init = \<lparr>tm_cycles = 1, tm_nop = 0, tm_idle = False, tm_protect = False\<rparr>"

definition packet_generator :: "timing \<Rightarrow> bool" where
  "packet_generator p \<longleftrightarrow> tm_cycles p > 1 \<or> tm_idle p"

definition packet_nop :: "nat \<Rightarrow> timing \<Rightarrow> timing option" where
  "packet_nop count p =
     (if count > 1 \<and> (tm_idle p \<or> (tm_cycles p > 1 \<and> tm_nop p \<noteq> count)) then None
      else
        (let p = (if count > 1 then p\<lparr>tm_nop := count\<rparr> else p)
         in Some (if count > tm_cycles p then p\<lparr>tm_cycles := count\<rparr> else p)))"

definition packet_idle :: "timing \<Rightarrow> timing option" where
  "packet_idle p = (if packet_generator p then None else Some (p\<lparr>tm_idle := True\<rparr>))"

definition packet_protected_load :: "timing \<Rightarrow> timing option" where
  "packet_protected_load p =
     (if tm_protect p then Some p
      else if packet_generator p then None
      else Some (p\<lparr>tm_protect := True, tm_cycles := 5\<rparr>))"

definition packet_multicycle :: "nat \<Rightarrow> timing \<Rightarrow> timing option" where
  "packet_multicycle n p =
     (if n > 1 \<and> packet_generator p then None
      else Some (if n > tm_cycles p then p\<lparr>tm_cycles := n\<rparr> else p))"

section \<open>Transfers\<close>

lemma scalar_step: "\<not> (sz :: nat) \<le> got \<Longrightarrow> sz - (got + min (4 - unat ((a :: u32) AND 3)) (sz - got)) < sz - got"
proof -
  define k where "k = unat (a AND 3)"
  have "k \<le> 3" using word_and_le1 [of a 3] by (simp add: k_def word_le_nat_alt)
  then show "\<not> sz \<le> got \<Longrightarrow> ?thesis" unfolding k_def [symmetric] by simp
qed

function read_words :: "'m cpu_bus \<Rightarrow> u32 \<Rightarrow> nat \<Rightarrow> nat \<Rightarrow> u64 \<Rightarrow> 'm \<Rightarrow> u64 option \<times> 'm" where
  "read_words bus address sz got v m =
     (if sz \<le> got then (Some v, m)
      else
        (let current = address + of_nat got
         in case bus_rd bus m (current AND NOT 3) of
              None \<Rightarrow> (None, m)
            | Some (word, m') \<Rightarrow>
                (let lane = unat (current AND 3); n = min (4 - lane) (sz - got);
                     word = shr word (lane * 8);
                     word = (if n < 4 then word AND (shl 1 (n * 8) - 1) else word)
                 in read_words bus address sz (got + n) (v OR shl (ucast word) (got * 8)) m')))"
  by auto

termination
  apply (relation "measure (\<lambda>(bus, address, sz, got, v, m). sz - got)")
   apply (rule wf_measure)
  apply (simp only: in_measure prod.case)
  apply (erule scalar_step)
  done

declare read_words.simps [simp del]

definition read_scalar :: "'m cpu_bus \<Rightarrow> u32 \<Rightarrow> nat \<Rightarrow> 'm \<Rightarrow> u64 option \<times> 'm" where
  "read_scalar bus address sz m =
     (if unat address + sz > 0x100000000 then (None, m) else read_words bus address sz 0 0 m)"

fun read_circular :: "'m cpu_bus \<Rightarrow> u32 \<Rightarrow> nat \<Rightarrow> nat list \<Rightarrow> u64 \<Rightarrow> 'm \<Rightarrow> u64 option \<times> 'm" where
  "read_circular bus address width [] v m = (Some v, m)"
| "read_circular bus address width (i # is) v m =
     (case read_scalar bus (circular_address address (address + of_nat i) width) 1 m of
        (None, m) \<Rightarrow> (None, m)
      | (Some byte, m) \<Rightarrow> read_circular bus address width is (v OR shl byte (8 * i)) m)"

definition read_transfer :: "'m cpu_bus \<Rightarrow> u32 \<Rightarrow> nat \<Rightarrow> 'm \<Rightarrow> u64 option \<times> 'm" where
  "read_transfer bus address encoded m =
     (let sz = encoded mod 256; width = encoded div 256
      in if width = 0 then read_scalar bus address sz m else read_circular bus address width [0..<sz] 0 m)"

fun write_circular :: "'m cpu_bus \<Rightarrow> u32 \<Rightarrow> nat \<Rightarrow> u64 \<Rightarrow> bool \<Rightarrow> nat list \<Rightarrow> 'm \<Rightarrow> bool \<times> 'm" where
  "write_circular bus address width v commit [] m = (True, m)"
| "write_circular bus address width v commit (i # is) m =
     (case bus_wr bus m (circular_address address (address + of_nat i) width) (shr v (8 * i) AND 255) 1 commit of
        None \<Rightarrow> (False, m)
      | Some m \<Rightarrow> write_circular bus address width v commit is m)"

definition write_transfer :: "'m cpu_bus \<Rightarrow> u32 \<Rightarrow> u64 \<Rightarrow> nat \<Rightarrow> bool \<Rightarrow> 'm \<Rightarrow> bool \<times> 'm" where
  "write_transfer bus address v encoded commit m =
     (let sz = encoded mod 256; width = encoded div 256
      in if width = 0 \<or> (ucast (circular_address address (address + of_nat sz - 1) width) :: u64) = ucast address + of_nat sz - 1
         then case bus_wr bus m address v sz commit of None \<Rightarrow> (False, m) | Some m \<Rightarrow> (True, m)
         else write_circular bus address width v commit [0..<sz] m)"

section \<open>The branch queue\<close>

definition queue_branch :: "u64 \<Rightarrow> u32 \<Rightarrow> cpu \<Rightarrow> cpu option" where
  "queue_branch t target out =
     (if branch_due out = 0 then Some (out\<lparr>branch_due := t, branch_target := target\<rparr>)
      else if branch_due out = t \<or> length (branch_queue out) = 5 \<or>
        (branch_queue out \<noteq> [] \<and> fst (last (branch_queue out)) = t) then None
      else Some (out\<lparr>branch_queue := branch_queue out @ [(t, target)]\<rparr>))"

end
