(* ===== verification/C674x_Arm.thy ===== *)
theory C674x_Arm
  imports C674x_Format
begin

text \<open>
  The dispatch of conditional instructions in \<^verbatim>\<open>emulator/qemu/cdj_c674x.c\<close>: \<^verbatim>\<open>CdjC674xArm\<close>, what an arm may do
  to the packet's transactional state, and the arms for memory, address arithmetic, branches and control
  registers. \<open>issue\<close> is the state the instructions of one execute packet share, \<open>arm\<close> adds the fields
  decoded from the instruction; \<open>x_cpu\<close> is the committed processor, \<open>out\<close> the copy being built.
\<close>

section \<open>The arm\<close>

record issue =
  out :: cpu
  written :: "nat \<Rightarrow> nat \<Rightarrow> bool"
  controls :: "nat \<Rightarrow> bool"
  packet_timing :: timing
  memory_count :: nat
  nonaligned_memory :: bool
  bdec_issued :: bool

record arm = issue +
  x_cpu :: cpu
  x_packet :: packet
  x_index :: nat
  x_insn :: instruction
  x_w :: u32
  x_pc :: u32
  x_value :: u32
  x_side :: nat
  x_dst :: nat
  x_a :: nat
  x_b :: nat
  x_cross :: nat
  x_sat_op :: u32
  x_enabled :: bool
  x_reg_write :: bool
  x_control_write :: bool
  x_long_offset :: bool

abbreviation src1 :: "arm \<Rightarrow> u32" where "src1 x \<equiv> gpr (x_cpu x) (x_side x) (x_a x)"
abbreviation src2 :: "arm \<Rightarrow> u32" where "src2 x \<equiv> gpr (x_cpu x) (x_cross x) (x_b x)"
abbreviation imm5 :: "arm \<Rightarrow> u32" where "imm5 x \<equiv> sx (of_nat (x_a x)) 5"
abbreviation op10 :: "arm \<Rightarrow> u32" where "op10 x \<equiv> x_w x AND 0xFFC"

definition reject :: "arm \<Rightarrow> reason \<Rightarrow> stopped + 'a" where
  "reject x why = Inl \<lparr>sp_pc = x_pc x, sp_word = in_word (x_insn x), sp_reason = why\<rparr>"

definition reject_word :: "arm \<Rightarrow> reason \<Rightarrow> stopped + 'a" where
  "reject_word x why = Inl \<lparr>sp_pc = x_pc x, sp_word = x_w x, sp_reason = why\<rparr>"

definition result :: "arm \<Rightarrow> u32 \<Rightarrow> stopped + arm" where
  "result x v = Inr (x\<lparr>x_value := v\<rparr>)"

definition no_write :: "arm \<Rightarrow> arm" where
  "no_write x = x\<lparr>x_reg_write := False\<rparr>"

definition update_out :: "(cpu \<Rightarrow> cpu) \<Rightarrow> arm \<Rightarrow> arm" where
  "update_out f x = x\<lparr>out := f (out x)\<rparr>"

definition append_load :: "load \<Rightarrow> cpu \<Rightarrow> cpu" where
  "append_load l cpu = cpu\<lparr>loads := loads cpu @ [l]\<rparr>"

definition append_store :: "store \<Rightarrow> cpu \<Rightarrow> cpu" where
  "append_store s cpu = cpu\<lparr>stores := stores cpu @ [s]\<rparr>"

text \<open>Both halves of an even/odd pair, written in E1.\<close>

definition write_pair :: "u32 \<Rightarrow> u32 \<Rightarrow> arm \<Rightarrow> stopped + arm" where
  "write_pair low high x =
     (let s = x_side x; d = x_dst x
      in if written x s d \<or> written x s (d + 1) then reject x Register_conflict
         else Inr ((update_out (set_reg s (d + 1) high \<circ> set_reg s d low) x)
                     \<lparr>written := (written x)(s := (written x s)(d := True, d + 1 := True))\<rparr>))"

text \<open>The delayed CSR.SAT and SSR effect.\<close>

definition saturation_load :: "u64 \<Rightarrow> nat \<Rightarrow> load" where
  "saturation_load t unit_bit =
     \<lparr>ld_due = t, ld_value = 0, ld_address = shl 1 unit_bit, ld_bank = 0, ld_dst = 0, ld_size = DELAYED_SAT, ld_sign = False\<rparr>"

definition queue_status :: "nat \<Rightarrow> arm \<Rightarrow> stopped + arm" where
  "queue_status unit_bit x =
     (if length (loads (out x)) = 40 then reject x Status_queue_full
      else Inr (update_out (append_load (saturation_load (cycles (x_cpu x) + 2) unit_bit)) x))"

definition queue_saturation :: "arm \<Rightarrow> stopped + arm" where
  "queue_saturation x = queue_status (x_side x) x"

text \<open>The overlap test every delayed result makes, and the results queued after it.\<close>

definition result_conflict :: "load list \<Rightarrow> u64 \<Rightarrow> nat \<Rightarrow> nat \<Rightarrow> nat \<Rightarrow> bool" where
  "result_conflict ls t bank dst count \<longleftrightarrow>
     (\<exists>l\<in>set ls. ld_due l = t \<and> ld_bank l = bank \<and> ld_dst l < dst + count \<and> dst < ld_dst l + queued_result_registers l)"

definition result_load :: "arm \<Rightarrow> u64 \<Rightarrow> u64 \<Rightarrow> u32 \<Rightarrow> nat \<Rightarrow> nat \<Rightarrow> bool \<Rightarrow> load" where
  "result_load x t v status dst count sign =
     \<lparr>ld_due = t, ld_value = v, ld_address = status, ld_bank = x_side x, ld_dst = dst,
      ld_size = (if count = 2 then 16 else 0), ld_sign = sign\<rparr>"

definition queue_result :: "u64 \<Rightarrow> u64 \<Rightarrow> u32 \<Rightarrow> nat \<Rightarrow> nat \<Rightarrow> bool \<Rightarrow> arm \<Rightarrow> stopped + arm" where
  "queue_result t v status dst count sign x =
     (if length (loads (out x)) = 40 then reject x Result_queue_full
      else if result_conflict (loads (out x)) t (x_side x) dst count then reject x Parallel_result_conflict
      else Inr (update_out (append_load (result_load x t v status dst count sign)) x))"

text \<open>A result and, when it saturated, the multiplier's status one cycle later.\<close>

definition queue_saturating :: "u64 \<Rightarrow> u64 \<Rightarrow> nat \<Rightarrow> bool \<Rightarrow> arm \<Rightarrow> stopped + arm" where
  "queue_saturating t v count saturated x =
     (if length (loads (out x)) + (if saturated then 2 else 1) > 40 then reject x Result_queue_full
      else if result_conflict (loads (out x)) t (x_side x) (x_dst x) count then reject x Parallel_result_conflict
      else
        (let x = update_out (append_load (result_load x t v 0 (x_dst x) count False)) x
         in Inr (if saturated then update_out (append_load (saturation_load (t + 1) (4 + x_side x))) x else x)))"

definition bind :: "stopped + 'a \<Rightarrow> ('a \<Rightarrow> stopped + 'b) \<Rightarrow> stopped + 'b" where
  "bind r f = (case r of Inl e \<Rightarrow> Inl e | Inr x \<Rightarrow> f x)"

definition when_enabled :: "arm \<Rightarrow> (arm \<Rightarrow> stopped + arm) \<Rightarrow> stopped + arm" where
  "when_enabled x f = (if x_enabled x then f x else Inr x)"

text \<open>The sticky status write to FAUCR of the single-cycle floating-point instructions.\<close>

definition faucr_status :: "u32 \<Rightarrow> arm \<Rightarrow> stopped + arm" where
  "faucr_status status x =
     (if status = 0 then Inr x
      else if controls x 19 then reject x Faucr_conflict
      else Inr ((update_out (\<lambda>o'. set_control 19 (control o' 19 OR shl status (if x_side x = 1 then 16 else 0)) o') x)
                  \<lparr>controls := (controls x)(19 := True)\<rparr>))"

section \<open>Memory\<close>

definition arm_scalar_memory :: "'m cpu_bus \<Rightarrow> arm \<Rightarrow> 'm \<Rightarrow> (stopped + arm) \<times> 'm" where
  "arm_scalar_memory bus x m =
     (let w = x_w x; cpu = x_cpu x; op = bits_at w 4 3;
          extended = (\<not> x_long_offset x \<and> w AND 0x100 \<noteq> 0);
          pair = (extended \<and> (op = 2 \<or> op = 4 \<or> op = 6 \<or> op = 7));
          nonaligned = (extended \<and> op \<noteq> 4 \<and> op \<noteq> 6);
          sz = (if pair then 8 else if nonaligned then 4 else if op \<ge> 6 then 4 else if op = 0 \<or> op = 4 \<or> op = 5 then 2 else 1);
          is_store = (if extended then op = 4 \<or> op = 5 \<or> op = 7 else op = 3 \<or> op = 5 \<or> op = 7);
          scale = (if pair \<and> nonaligned then (if bit w 23 then 8 else 1) else sz);
          x = (if pair \<and> nonaligned then x\<lparr>x_dst := x_dst x - x_dst x mod 2\<rparr> else x);
          s = bits_at w 7 1;
          x = (if x_long_offset x then x\<lparr>x_b := 14 + s\<rparr> else x);
          bank = (if x_long_offset x then 1 else s);
          mode = (if x_long_offset x then 1 else shr w 9 AND 15)
      in if pair \<and> \<not> nonaligned \<and> odd (x_dst x) then (reject x Invalid_doubleword_pair, m)
         else
           (let x = no_write x
            in if mode AND 8 = 0 \<and> mode AND 2 \<noteq> 0 then (reject x Reserved_memory_mode, m)
               else if x_b x \<ge> 4 \<and> x_b x \<le> 7 \<and> control_ready cpu 0 > cycles cpu then (reject x Amr_interlock, m)
               else if \<not> x_enabled x then (Inr x, m)
               else
                 (let x = x\<lparr>memory_count := memory_count x + 1, nonaligned_memory := (nonaligned_memory x \<or> nonaligned)\<rparr>
                  in case address_width cpu bank (x_b x) of
                       None \<Rightarrow> (reject x (if control_ready cpu 0 > cycles cpu then Amr_interlock else Reserved_circular_mode), m)
                     | Some width \<Rightarrow>
                   if nonaligned \<and> width \<noteq> 0 \<and> width < 5 then (reject x Small_circular_buffer, m)
                   else
                     (let offset = (if x_long_offset x then shr w 8 AND 32767
                                    else if mode AND 4 \<noteq> 0 then gpr cpu bank (x_a x) else of_nat (x_a x)) * of_nat scale;
                          base = gpr cpu bank (x_b x);
                          updated = circular_address base (if mode AND 1 \<noteq> 0 then base + offset else base - offset) width;
                          address = (if mode AND 10 = 10 then base else updated);
                          encoded = sz + (if nonaligned then width else 0) * 256;
                          data = (if pair then ucast (gpr cpu (x_side x) (x_dst x)) OR shl (ucast (gpr cpu (x_side x) (x_dst x + 1))) 32
                                  else ucast (gpr cpu (x_side x) (x_dst x)));
                          (ok, m) =
                            (if \<not> nonaligned \<and> address AND (of_nat sz - 1) \<noteq> 0 then (False, m)
                             else if is_store then write_transfer bus address data encoded False m
                             else case read_transfer bus address encoded m of (r, m) \<Rightarrow> (r \<noteq> None, m));
                          advance = (\<lambda>x. if mode AND 8 = 0 then Inr x
                            else if written x bank (x_b x) then reject x Register_conflict
                            else Inr ((update_out (set_reg bank (x_b x) updated) x)
                                        \<lparr>written := (written x)(bank := (written x bank)(x_b x := True))\<rparr>))
                      in if \<not> ok then (reject x Bad_memory_access, m)
                         else if is_store then
                           (if length (stores (out x)) = 24 then (reject x Store_queue_full, m)
                            else (advance (update_out (append_store
                                   \<lparr>st_due = cycles cpu + 3, st_data = data, st_at = address, st_encoded = encoded\<rparr>) x), m))
                         else if length (loads (out x)) = 40 then (reject x Load_queue_full, m)
                         else if result_conflict (loads (out x)) (cycles cpu + 5) (x_side x) (x_dst x) (if pair then 2 else 1)
                           then (reject x Parallel_load_conflict, m)
                         else
                           (advance (update_out (append_load
                             \<lparr>ld_due = cycles cpu + 5, ld_value = 0, ld_address = address, ld_bank = x_side x, ld_dst = x_dst x,
                              ld_size = encoded, ld_sign = (\<not> extended \<and> (op = 2 \<or> op = 4))\<rparr>) x), m)))))"

section \<open>Address arithmetic\<close>

definition arm_addk :: "arm \<Rightarrow> stopped + arm" where
  "arm_addk x = result x (gpr (x_cpu x) (x_side x) (x_dst x) + sx (shr (x_w x) 7 AND 0xFFFF) 16)"

definition arm_mvk_s :: "arm \<Rightarrow> stopped + arm" where
  "arm_mvk_s x = result x (sx (shr (x_w x) 7 AND 0xFFFF) 16)"

definition arm_mvkh :: "arm \<Rightarrow> stopped + arm" where
  "arm_mvkh x = result x ((gpr (x_cpu x) (x_side x) (x_dst x) AND 0xFFFF) OR shl (shr (x_w x) 7 AND 0xFFFF) 16)"

definition arm_d_adda :: "arm \<Rightarrow> stopped + arm" where
  "arm_d_adda x =
     (let op = bits_at (x_w x) 7 6; cpu = x_cpu x
      in if x_b x \<ge> 4 \<and> x_b x \<le> 7 \<and> control_ready cpu 0 > cycles cpu then reject x Amr_interlock
         else
           (let offset = (if (if op \<ge> 0x3C then odd op else bit op 1) then of_nat (x_a x) else src1 x);
                offset = shl offset ((op - 0x30) div 4);
                base = gpr cpu (x_side x) (x_b x);
                v = (if op < 0x3C \<and> odd op then base - offset else base + offset)
            in if x_enabled x then
                 (case address_width cpu (x_side x) (x_b x) of
                    None \<Rightarrow> reject x (if control_ready cpu 0 > cycles cpu then Amr_interlock else Reserved_circular_mode)
                  | Some width \<Rightarrow> result x (circular_address base v width))
               else result x v))"

definition arm_d_addsub :: "arm \<Rightarrow> stopped + arm" where
  "arm_d_addsub x =
     (let op = bits_at (x_w x) 7 6; left = gpr (x_cpu x) (x_side x) (x_b x);
          right = (if bit op 1 then of_nat (x_a x) else src1 x)
      in result x (if odd op then left - right else left + right))"

definition arm_d_addsub_cross :: "arm \<Rightarrow> stopped + arm" where
  "arm_d_addsub_cross x =
     (let left = (if op10 x = 0xAF0 then imm5 x else src1 x)
      in result x (if op10 x = 0xB30 then left - src2 x else left + src2 x))"

section \<open>Control registers and branches\<close>

definition arm_mvc_read :: "arm \<Rightarrow> stopped + arm" where
  "arm_mvc_read x =
     (if \<not> control_read_supported (x_b x) then reject x Control_read_missing
      else
        (let x = x\<lparr>x_value := control_read (x_cpu x) (x_b x)\<rparr>
         in Inr (if x_enabled x \<and> x_b x = 10 then update_out (set_control 16 (ucast (shr (timestamp (x_cpu x)) 32))) x else x)))"

definition arm_mvc_write :: "arm \<Rightarrow> stopped + arm" where
  "arm_mvc_write x =
     (if \<not> control_write_supported (x_dst x) then reject x Control_write_missing
      else Inr (x\<lparr>x_control_write := True, x_reg_write := False, x_value := src2 x\<rparr>))"

definition branch_to :: "u32 \<Rightarrow> arm \<Rightarrow> stopped + arm" where
  "branch_to target x =
     (case queue_branch (cycles (x_cpu x) + 6) target (out x) of
        None \<Rightarrow> reject x Branch_conflict
      | Some o' \<Rightarrow> Inr (x\<lparr>out := o'\<rparr>))"

definition fetch_base :: "arm \<Rightarrow> u32" where
  "fetch_base x = x_pc x AND NOT 31"

definition arm_b_irp :: "arm \<Rightarrow> stopped + arm" where
  "arm_b_irp x =
     when_enabled (no_write x) (\<lambda>x.
       if controls x 1 \<or> controls x 26 \<or> controls x 27 then reject x Irp_task_state_conflict
       else bind (branch_to (control (x_cpu x) 6) x) (\<lambda>x.
         (let restored = (control (x_cpu x) 27 AND 0xC6DE) OR (shr (control (x_cpu x) 1) 1 AND 1)
          in Inr ((update_out (\<lambda>o'. set_control 1 ((control o' 1 AND NOT 1) OR (restored AND 1)) (set_control 26 restored o')) x)
                    \<lparr>controls := (controls x)(1 := True, 26 := True, 27 := True)\<rparr>))))"

definition arm_b_disp :: "arm \<Rightarrow> stopped + arm" where
  "arm_b_disp x =
     when_enabled (no_write x) (\<lambda>x. branch_to (fetch_base x + sx (shr (x_w x) 7 AND 0x1FFFFF) 21 * 4) x)"

definition addkpc_in_packet :: "packet \<Rightarrow> bool" where
  "addkpc_in_packet p \<longleftrightarrow> (\<exists>i\<in>set (pk_instructions p). \<not> in_compact i \<and> in_word i AND 0x1FFE = 0x162)"

definition branch_to_word :: "u32 \<Rightarrow> arm \<Rightarrow> stopped + arm" where
  "branch_to_word target x =
     (case queue_branch (cycles (x_cpu x) + 6) target (out x) of
        None \<Rightarrow> reject_word x Branch_conflict
      | Some o' \<Rightarrow> Inr (x\<lparr>out := o'\<rparr>))"

definition short_target :: "arm \<Rightarrow> u32" where
  "short_target x = fetch_base x + sx (shr (x_w x) 13 AND 1023) 10 * 4"

definition arm_bdec :: "arm \<Rightarrow> stopped + arm" where
  "arm_bdec x =
     (if addkpc_in_packet (x_packet x) then reject_word x Bdec_with_addkpc
      else when_enabled (no_write x) (\<lambda>x.
        if bdec_issued x then reject_word x Multiple_bdec
        else
          (let x = x\<lparr>bdec_issued := True\<rparr>; counter = gpr (x_cpu x) (x_side x) (x_dst x)
           in if counter AND 0x80000000 \<noteq> 0 then Inr x
              else bind (branch_to_word (short_target x) x) (\<lambda>x. Inr (x\<lparr>x_value := counter - 1, x_reg_write := True\<rparr>)))))"

definition with_nops :: "nat \<Rightarrow> arm \<Rightarrow> stopped + arm" where
  "with_nops n x =
     (case packet_multicycle n (packet_timing x) of
        None \<Rightarrow> reject x Multiple_multicycle
      | Some t \<Rightarrow> Inr (x\<lparr>packet_timing := t\<rparr>))"

definition arm_bnop_disp :: "arm \<Rightarrow> stopped + arm" where
  "arm_bnop_disp x =
     bind (with_nops (bits_at (x_w x) 13 3 + 1) (no_write x)) (\<lambda>x. when_enabled x (\<lambda>x.
       branch_to (fetch_base x + sx (shr (x_w x) 16 AND 4095) 12 * (if in_header (x_insn x) \<noteq> 0 then 2 else 4)) x))"

definition arm_bnop_reg :: "arm \<Rightarrow> stopped + arm" where
  "arm_bnop_reg x =
     bind (with_nops (bits_at (x_w x) 13 3 + 1) (no_write x)) (\<lambda>x. when_enabled x (\<lambda>x. branch_to (src2 x) x))"

definition arm_b_reg :: "arm \<Rightarrow> stopped + arm" where
  "arm_b_reg x =
     when_enabled (no_write x) (\<lambda>x. branch_to (gpr (x_cpu x) (if bit (x_w x) 12 then 0 else 1) (x_b x)) x)"

definition arm_addkpc :: "arm \<Rightarrow> stopped + arm" where
  "arm_addkpc x =
     (if x_side x = 0 then reject x Addkpc_side
      else
        (let x = x\<lparr>x_value := fetch_base x + sx (shr (x_w x) 16 AND 127) 7 * 4\<rparr>
         in when_enabled x (with_nops (1 + bits_at (x_w x) 13 3))))"

definition arm_b_nrp :: "arm \<Rightarrow> stopped + arm" where
  "arm_b_nrp x =
     when_enabled (no_write x) (\<lambda>x.
       if control (x_cpu x) 26 AND 0xC6DE \<noteq> 0 then reject x Nrp_without_ntsr
       else if controls x 4 then reject x Nrp_ier_conflict
       else bind (branch_to (control (x_cpu x) 7) x) (\<lambda>x.
         Inr ((update_out (\<lambda>o'. set_control 4 (control o' 4 OR 2) o') x)\<lparr>controls := (controls x)(4 := True)\<rparr>)))"

text \<open>The packet scan of BPOS stops at the first offender.\<close>

definition bpos_offence :: "nat \<Rightarrow> nat \<times> instruction \<Rightarrow> reason option" where
  "bpos_offence index = (\<lambda>(j, other).
     if in_compact other \<or> j = index then None
     else if in_word other AND 0x1FFE = 0x162 then Some Bpos_with_addkpc
     else if in_word other AND 0x1FFC = 0x0020 then Some Multiple_bpos else None)"

definition arm_bpos :: "arm \<Rightarrow> stopped + arm" where
  "arm_bpos x =
     (case List.map_filter (bpos_offence (x_index x)) (enumerate 0 (pk_instructions (x_packet x))) of
        why # _ \<Rightarrow> reject_word x why
      | [] \<Rightarrow>
          (let x = no_write x
           in if x_enabled x \<and> gpr (x_cpu x) (x_side x) (x_dst x) AND 0x80000000 = 0 then branch_to_word (short_target x) x
              else Inr x))"

end
