(* ===== verification/C674x_Arms.thy ===== *)
theory C674x_Arms
  imports C674x_Arm C674x_Packed8 C674x_Packed16 C674x_Packbits C674x_Mpy C674x_Dotp
begin

text \<open>
  The remaining arms of the dispatch table in \<^verbatim>\<open>emulator/qemu/cdj_c674x.c\<close>: scalar and packed arithmetic, 40-bit
  longs, multiplies and floating point. An arm reads the committed registers and either sets the value the
  packet loop writes in E1, writes a pair in E1, or queues a result for a later cycle.
\<close>

section \<open>Saturating scalar arithmetic\<close>

definition arm_sat_long :: "arm \<Rightarrow> stopped + arm" where
  "arm_sat_long x =
     (let x = no_write x; op = x_sat_op x
      in if odd (x_dst x) \<or> odd (x_b x) then reject x Invalid_long_pair
         else if op \<noteq> 0x638 \<and> x_w x AND 0x1000 \<noteq> 0 then reject x Cross_path_long
         else when_enabled x (\<lambda>x.
           let left = (if op = 0x638 then sint (gpr (x_cpu x) (x_cross x) (x_a x)) else sint (imm5 x));
               raw = register_long40 (x_cpu x) (x_side x) (x_b x);
               right = uint raw - (if bit raw 39 then 2 ^ 40 else 0);
               exact = (if op = 0x598 then left - right else left + right);
               limit = 2 ^ 39;
               saturated = (exact \<ge> limit \<or> exact < - limit);
               v = u64_of (if exact \<ge> limit then limit - 1 else if exact < - limit then - limit else exact)
           in bind (write_pair (ucast v) (ucast (shr v 32) AND 0xFF) x)
                (\<lambda>x. if saturated then queue_status (x_side x) x else Inr x)))"

definition arm_sat_scalar :: "arm \<Rightarrow> stopped + arm" where
  "arm_sat_scalar x =
     when_enabled x (\<lambda>x.
       let op = x_sat_op x; unit_bit = (if op AND 0x1C = 0x18 then x_side x else 2 + x_side x);
           (v, saturated) =
             (if op = 0x8E0 \<or> op = 0x8A0 then
                saturating_shift32 (src2 x) (if op = 0x8A0 then x_a x else unat (src1 x AND 63))
              else
                (let left = (if op = 0x258 \<or> op = 0x1D8 then sint (imm5 x)
                             else sint (gpr (x_cpu x) (if op = 0x3F8 then x_cross x else x_side x) (x_a x)));
                     right = sint (gpr (x_cpu x) (if op = 0x3F8 then x_side x else x_cross x) (x_b x))
                 in saturate32 (if op = 0x1F8 \<or> op = 0x3F8 \<or> op = 0x1D8 then left - right else left + right)));
           x = x\<lparr>x_value := v\<rparr>
       in if saturated then queue_status unit_bit x else Inr x)"

definition arm_rpack2 :: "arm \<Rightarrow> stopped + arm" where
  "arm_rpack2 x =
     (let (s1, sat1) = saturate32 (sint (src1 x) * 2); (s2, sat2) = saturate32 (sint (src2 x) * 2);
          x = x\<lparr>x_value := (s1 AND 0xFFFF0000) OR shr s2 16\<rparr>
      in if x_enabled x \<and> (sat1 \<or> sat2) then queue_status (2 + x_side x) x else Inr x)"

definition arm_sat40 :: "arm \<Rightarrow> stopped + arm" where
  "arm_sat40 x =
     (if odd (x_b x) then reject x Invalid_long_pair
      else if x_w x AND 0x1000 \<noteq> 0 then reject x Cross_path_long
      else when_enabled x (\<lambda>x.
        let (v, saturated) = sat40 (register_long40 (x_cpu x) (x_side x) (x_b x)); x = x\<lparr>x_value := v\<rparr>
        in if saturated then queue_status (x_side x) x else Inr x))"

section \<open>Scalar arithmetic and logic\<close>

definition arm_mvk_d :: "arm \<Rightarrow> stopped + arm" where "arm_mvk_d x = result x (imm5 x)"
definition arm_mvk_l :: "arm \<Rightarrow> stopped + arm" where "arm_mvk_l x = result x (sx (of_nat (x_b x)) 5)"
definition arm_andn :: "arm \<Rightarrow> stopped + arm" where "arm_andn x = result x (src1 x AND NOT (src2 x))"
definition arm_and_imm :: "arm \<Rightarrow> stopped + arm" where "arm_and_imm x = result x (imm5 x AND src2 x)"
definition arm_and_reg :: "arm \<Rightarrow> stopped + arm" where "arm_and_reg x = result x (src1 x AND src2 x)"
definition arm_add_imm :: "arm \<Rightarrow> stopped + arm" where "arm_add_imm x = result x (imm5 x + src2 x)"
definition arm_add_reg :: "arm \<Rightarrow> stopped + arm" where "arm_add_reg x = result x (src1 x + src2 x)"
definition arm_sub_imm :: "arm \<Rightarrow> stopped + arm" where "arm_sub_imm x = result x (imm5 x - src2 x)"
definition arm_sub_reg :: "arm \<Rightarrow> stopped + arm" where "arm_sub_reg x = result x (src1 x - src2 x)"
definition arm_or_imm :: "arm \<Rightarrow> stopped + arm" where "arm_or_imm x = result x (imm5 x OR src2 x)"
definition arm_or_reg :: "arm \<Rightarrow> stopped + arm" where "arm_or_reg x = result x (src1 x OR src2 x)"
definition arm_xor_imm :: "arm \<Rightarrow> stopped + arm" where "arm_xor_imm x = result x (imm5 x XOR src2 x)"
definition arm_xor_reg :: "arm \<Rightarrow> stopped + arm" where "arm_xor_reg x = result x (src1 x XOR src2 x)"
definition arm_subc :: "arm \<Rightarrow> stopped + arm" where "arm_subc x = result x (subc (src1 x) (src2 x))"

definition arm_sub_reverse :: "arm \<Rightarrow> stopped + arm" where
  "arm_sub_reverse x =
     (if op10 x = 0xD70 then result x (src2 x - src1 x)
      else result x (gpr (x_cpu x) (x_cross x) (x_a x) - gpr (x_cpu x) (x_side x) (x_b x)))"

definition arm_cmp :: "arm \<Rightarrow> stopped + arm" where
  "arm_cmp x =
     (let encoding = op10 x; immediate = (encoding AND 0x20 = 0);
          left = (if immediate then of_nat (x_a x) else src1 x);
          signed_left = (if immediate then imm5 x else left);
          right = src2 x; kind = encoding AND NOT 0x20
      in result x (c_bool
           (if kind = 0xA58 then signed_left = right
            else if kind = 0x8D8 then sint signed_left > sint right
            else if kind = 0x9D8 then left > right
            else if kind = 0xAD8 then sint signed_left < sint right
            else left < right)))"

definition arm_bitfield :: "arm \<Rightarrow> stopped + arm" where
  "arm_bitfield x =
     (let w = x_w x; immediate = (w AND 0x3C = 8);
          op = (if immediate then bits_at w 6 2 else unat ((shr w 9 AND 2) OR (shr w 8 AND 1)));
          fields = src1 x
      in if \<not> immediate \<and> x_enabled x \<and> fields AND NOT 1023 \<noteq> 0 then reject x Invalid_bitfield_counts
         else
           (let left = (if immediate then x_a x else bits_at fields 5 5);
                right = (if immediate then bits_at w 8 5 else bits_at fields 0 5);
                source = gpr (x_cpu x) (if immediate then x_side x else x_cross x) (x_b x)
            in if op < 2 then
                 (let shifted = shl source left
                  in result x (shr shifted right OR
                       (if op = 1 \<and> right \<noteq> 0 \<and> shifted AND 0x80000000 \<noteq> 0 then shl 0xFFFFFFFF (32 - right) else 0)))
               else
                 (let field = (if right < left then 0 else shl 0xFFFFFFFF left AND shr 0xFFFFFFFF (31 - right))
                  in result x (if op = 2 then source OR field else source AND NOT field))))"

definition arm_shift_s :: "arm \<Rightarrow> stopped + arm" where
  "arm_shift_s x =
     (let n = (if x_w x AND 0x40 \<noteq> 0 then unat (src1 x AND 63) else x_a x); op = x_w x AND 0xFBC
      in result x (shift_32 (src2 x) n (if op = 0xCA0 then 0 else if op = 0x9A0 then 2 else 1)))"

definition arm_pack :: "arm \<Rightarrow> stopped + arm" where
  "arm_pack x =
     (let left = src1 x; right = src2 x; op = op10 x
      in result x
           (if op = 0x018 \<or> op = 0xFF0 then shl left 16 OR (right AND 0xFFFF)
            else if op = 0x3D8 \<or> op = 0x260 then (left AND 0xFFFF0000) OR shr right 16
            else if op = 0x398 \<or> op = 0x220 then (left AND 0xFFFF0000) OR (right AND 0xFFFF)
            else if op = 0x378 \<or> op = 0x420 then shl left 16 OR shr right 16
            else if op = 0xD18 then
              shl (left AND 0x00FF0000) 8 OR shl (left AND 0xFF) 16 OR shr (right AND 0x00FF0000) 8 OR (right AND 0xFF)
            else
              (left AND 0xFF000000) OR shl (left AND 0x0000FF00) 8 OR shr (right AND 0xFF000000) 16 OR
                shr (right AND 0x0000FF00) 8))"

definition arm_dmv :: "arm \<Rightarrow> stopped + arm" where
  "arm_dmv x =
     (let x = no_write x
      in if odd (x_dst x) then reject x Invalid_long_pair else when_enabled x (write_pair (src2 x) (src1 x)))"

section \<open>40-bit longs\<close>

definition write_long40 :: "u64 \<Rightarrow> arm \<Rightarrow> stopped + arm" where
  "write_long40 v = write_pair (ucast v) (ucast (shr (v AND LONG40_MASK) 32))"

definition arm_l_long_addsub :: "arm \<Rightarrow> stopped + arm" where
  "arm_l_long_addsub x =
     (let op = bits_at (x_w x) 5 7; cpu = x_cpu x; x = no_write x;
          pair_source = (op = 0x20 \<or> op = 0x21 \<or> op = 0x24 \<or> op = 0x29);
          s = (\<lambda>v. scast (v :: u32) :: u64); u = (\<lambda>v. ucast (v :: u32) :: u64);
          long = register_long40 cpu (x_side x) (x_b x);
          cross_a = gpr cpu (x_cross x) (x_a x); local_b = gpr cpu (x_side x) (x_b x)
      in if (op = 0x20 \<or> op = 0x24) \<and> bit (x_w x) 12 then reject x Cross_path_long
         else if odd (x_dst x) \<or> (pair_source \<and> odd (x_b x)) then reject x Invalid_long_pair
         else when_enabled x (\<lambda>x.
           let v = (if op = 0x20 then s (imm5 x) + long
                    else if op = 0x21 then s cross_a + long
                    else if op = 0x23 then s (src1 x) + s (src2 x)
                    else if op = 0x24 then s (imm5 x) - long
                    else if op = 0x27 then s (src1 x) - s (src2 x)
                    else if op = 0x29 then u cross_a + long
                    else if op = 0x2B then u (src1 x) + u (src2 x)
                    else if op = 0x2F then u (src1 x) - u (src2 x)
                    else if op = 0x37 then s cross_a - s local_b
                    else u cross_a - u local_b) AND 0xFFFFFFFFFF
           in write_pair (ucast v) (ucast (shr v 32)) x))"

definition arm_abs :: "arm \<Rightarrow> stopped + arm" where
  "arm_abs x =
     (if bits_at (x_w x) 5 7 \<noteq> 0x38 then
        (let v = src2 x; x = x\<lparr>x_value := abs32 v\<rparr>
         in if x_enabled x \<and> v = 0x80000000 then queue_saturation x else Inr x)
      else
        (let x = no_write x
         in if odd (x_dst x) \<or> odd (x_b x) then reject x Invalid_long_pair
            else if x_w x AND 0x1000 \<noteq> 0 then reject x Cross_path_long
            else when_enabled x (\<lambda>x.
              let v = register_long40 (x_cpu x) (x_side x) (x_b x)
              in bind (write_long40 (abs40 v) x) (\<lambda>x. if v = shl 1 39 then queue_saturation x else Inr x))))"

definition arm_cmp_long :: "arm \<Rightarrow> stopped + arm" where
  "arm_cmp_long x =
     (let op = bits_at (x_w x) 5 7; immediate = even op;
          unsigned_compare = (op = 0x4C \<or> op = 0x4D \<or> op = 0x5C \<or> op = 0x5D)
      in if odd (x_b x) then reject x Invalid_long_pair
         else if immediate \<and> x_w x AND 0x1000 \<noteq> 0 then reject x Cross_path_long
         else when_enabled x (\<lambda>x.
           let raw = register_long40 (x_cpu x) (x_side x) (x_b x); cross_a = gpr (x_cpu x) (x_cross x) (x_a x)
           in if unsigned_compare then
                (let left = (if immediate then of_nat (x_a x) else ucast cross_a); right = raw AND LONG40_MASK
                 in result x (c_bool (if op = 0x4C \<or> op = 0x4D then left > right else left < right)))
              else
                (let left = (if immediate then sint (imm5 x) else sint cross_a); right = sx40 raw
                 in result x (c_bool (if op = 0x50 \<or> op = 0x51 then left = right
                                      else if op = 0x44 \<or> op = 0x45 then left > right else left < right)))))"

definition arm_shift_long :: "arm \<Rightarrow> stopped + arm" where
  "arm_shift_long x =
     (let op = bits_at (x_w x) 6 6; pair_source = (op \<noteq> 0x12 \<and> op \<noteq> 0x13);
          count = (if x_w x AND 0x40 \<noteq> 0 then src1 x AND 63 else of_nat (x_a x));
          operation = (if op = 0x34 \<or> op = 0x35 then SHIFT40_ARITHMETIC
                       else if op = 0x24 \<or> op = 0x25 then SHIFT40_LOGICAL else SHIFT40_LEFT);
          x = no_write x
      in if odd (x_dst x) \<or> (pair_source \<and> odd (x_b x)) then reject x Invalid_long_pair
         else if pair_source \<and> x_w x AND 0x1000 \<noteq> 0 then reject x Cross_path_long
         else when_enabled x (\<lambda>x.
           write_long40 (shift40 (if pair_source then register_long40 (x_cpu x) (x_side x) (x_b x) else ucast (src2 x))
             count operation) x))"

section \<open>Multiplies\<close>

text \<open>A result of one register or a pair, with the parity check of the pair.\<close>

definition queue_product :: "nat \<Rightarrow> bool \<Rightarrow> u64 \<Rightarrow> arm \<Rightarrow> stopped + arm" where
  "queue_product stage pair v x =
     queue_result (cycles (x_cpu x) + of_nat stage) v 0 (x_dst x) (if pair then 2 else 1) False x"

definition low_word :: "u64 \<Rightarrow> u64" where "low_word v = v AND 0xFFFFFFFF"

definition arm_mpy32 :: "arm \<Rightarrow> stopped + arm" where
  "arm_mpy32 x =
     (let mpy_encoding = (x_w x AND 0x7C = 0);
          op = (if mpy_encoding then bits_at (x_w x) 7 5 else bits_at (x_w x) 6 5);
          pair = (\<not> mpy_encoding \<or> op \<noteq> 0x10); x = no_write x
      in if pair \<and> odd (x_dst x) then reject x Invalid_multiply_pair
         else when_enabled x (\<lambda>x.
           let left = src1 x; right = src2 x;
               v = (if mpy_encoding \<and> (op = 0x10 \<or> op = 0x14) then u64_of (sint left * sint right)
                    else if mpy_encoding then u64_of (sint left * uint right)
                    else if op = 0x18 then ucast left * ucast right
                    else u64_of (uint left * sint right))
           in queue_product 4 pair (if pair then v else low_word v) x))"

definition arm_mpy16 :: "arm \<Rightarrow> stopped + arm" where
  "arm_mpy16 x =
     (let op = bits_at (x_w x) 7 5; l = src1 x; r = src2 x;
          v = (if op = 0x18 then sint (imm5 x) * s16 r 0
               else if op = 0x1E then sint (imm5 x) * u16 r 0
               else if op = 0x01 then s16 l 1 * s16 r 1
               else if op = 0x09 then s16 l 1 * s16 r 0
               else if op = 0x0F then u16 l 1 * u16 r 0
               else if op = 0x0B then s16 l 1 * u16 r 0
               else if op = 0x03 then s16 l 1 * u16 r 1
               else if op = 0x07 then u16 l 1 * u16 r 1
               else if op = 0x0D then u16 l 1 * s16 r 0
               else if op = 0x05 then u16 l 1 * s16 r 1
               else if op = 0x11 then s16 l 0 * s16 r 1
               else if op = 0x17 then u16 l 0 * u16 r 1
               else if op = 0x13 then s16 l 0 * u16 r 1
               else if op = 0x15 then u16 l 0 * s16 r 1
               else if op = 0x1B then s16 l 0 * u16 r 0
               else if op = 0x1F then u16 l 0 * u16 r 0
               else if op = 0x1D then u16 l 0 * s16 r 0
               else s16 l 0 * s16 r 0)
      in when_enabled (no_write x) (queue_product 2 False (ucast (u32_of v))))"

definition arm_smpy16 :: "arm \<Rightarrow> stopped + arm" where
  "arm_smpy16 x =
     (let op = bits_at (x_w x) 7 5; packed = (x_w x AND 0x7C \<noteq> 0); x = no_write x
      in if packed \<and> odd (x_dst x) then reject x Invalid_multiply_pair
         else when_enabled x (\<lambda>x.
           let low = smpy16 (src1 x) (src2 x) (\<not> packed \<and> \<not> bit op 4) (\<not> packed \<and> \<not> bit op 3);
               high = (if packed then smpy16 (src1 x) (src2 x) True True else low)
           in queue_saturating (cycles (x_cpu x) + (if packed then 4 else 2))
                (if packed then shl (ucast (mpy_value high)) 32 OR ucast (mpy_value low) else ucast (mpy_value low))
                (if packed then 2 else 1) (mpy_saturated low \<or> mpy_saturated high) x))"

definition arm_mpy_half32 :: "arm \<Rightarrow> stopped + arm" where
  "arm_mpy_half32 x =
     (let op = bits_at (x_w x) 6 5; high = (op = 0x10 \<or> op = 0x14); pair = (op = 0x14 \<or> op = 0x15); x = no_write x
      in if pair \<and> odd (x_dst x) then reject x Invalid_multiply_pair
         else when_enabled x (\<lambda>x.
           let product = s16 (src1 x) (if high then 1 else 0) * sint (src2 x);
               v = (if pair then u64_of product else arithmetic_shift_right64 (u64_of (product + 0x4000)) 15)
           in queue_product 4 pair v x))"

definition arm_mvd :: "arm \<Rightarrow> stopped + arm" where
  "arm_mvd x =
     when_enabled (no_write x) (\<lambda>x.
       if length (loads (out x)) = 40 then reject_word x Result_queue_full
       else if result_conflict (loads (out x)) (cycles (x_cpu x) + 4) (x_side x) (x_dst x) 1
         then reject_word x Parallel_result_conflict
       else Inr (update_out (append_load (result_load x (cycles (x_cpu x) + 4) (ucast (src2 x)) 0 (x_dst x) 1 False)) x))"

definition arm_cmpy :: "arm \<Rightarrow> stopped + arm" where
  "arm_cmpy x =
     (let op = shr (x_w x) 6 AND 31; mpy32 = (op = SMPY32 \<or> op = MPY2IR);
          shape = (if mpy32 then mpy32_nonconditional op 0 0 else cmpy op 0 0 0); x = no_write x
      in if \<not> cm_valid shape then reject x M_opfield_missing
         else if cm_pair_dst shape \<and> odd (x_dst x) then reject x Invalid_multiply_pair
         else if cm_pair_src1 shape \<and> odd (x_a x) then reject x Invalid_multiply_source_pair
         else when_enabled x (\<lambda>x.
           let hi = (if cm_pair_src1 shape then gpr (x_cpu x) (x_side x) (x_a x + 1) else 0);
               r = (if mpy32 then mpy32_nonconditional op (src1 x) (src2 x) else cmpy op (src1 x) hi (src2 x))
           in queue_product 4 (cm_pair_dst r) (if cm_pair_dst r then cm_value r else low_word (cm_value r)) x))"

definition arm_dotp :: "arm \<Rightarrow> stopped + arm" where
  "arm_dotp x =
     (let op = shr (x_w x) 6 AND 31; pair = (op = DOTP2L); x = no_write x
      in if pair \<and> odd (x_dst x) then reject x Invalid_multiply_pair
         else when_enabled x (\<lambda>x.
           let r = dotp op (src1 x) (src2 x)
           in if \<not> dp_valid r then reject x Dotp_missing
              else if dp_undefined r then reject x Dotp_undefined
              else queue_product 4 pair (if pair then dp_value r else low_word (dp_value r)) x))"

definition arm_gmpy_word :: "arm \<Rightarrow> stopped + arm" where
  "arm_gmpy_word x =
     (let op = bits_at (x_w x) 6 5
      in when_enabled (no_write x) (\<lambda>x.
           let poly = (if op = 0x1F then control (x_cpu x) (22 + x_side x) else 0)
           in queue_product 4 False (ucast (gmpy_word (src1 x) (src2 x) poly)) x))"

definition arm_mpyi :: "arm \<Rightarrow> stopped + arm" where
  "arm_mpyi x =
     (let op = bits_at (x_w x) 7 5; pair = (op = 0x08 \<or> op = 0x0C); x = no_write x
      in if op = 0x06 \<or> op = 0x0C then reject x Mpyi_constant
         else if pair \<and> odd (x_dst x) then reject x Invalid_multiply_pair
         else when_enabled x (\<lambda>x.
           let product = mpyi (src1 x) (src2 x); now = cycles (x_cpu x);
               low = queue_result (now + 9) (low_word product) 0 (x_dst x) 1 False x
           in if pair then bind low (queue_result (now + 10) (shr product 32) 0 (x_dst x + 1) 1 False) else low))"

definition arm_mpy2_gmpy4 :: "arm \<Rightarrow> stopped + arm" where
  "arm_mpy2_gmpy4 x =
     (let op = bits_at (x_w x) 6 5; pair = (op = 0x00); x = no_write x
      in if pair \<and> odd (x_dst x) then reject x Invalid_multiply_pair
         else when_enabled x (\<lambda>x.
           let gfpgfr = control (x_cpu x) 24;
               v = (if pair then mpy2 (src1 x) (src2 x)
                    else ucast (gmpy4 (src1 x) (src2 x) (gfpgfr AND 0xFF) (bits_at gfpgfr 24 3)))
           in queue_product 4 pair v x))"

section \<open>Packed operands\<close>

definition arm_packed16 :: "arm \<Rightarrow> stopped + arm" where
  "arm_packed16 x =
     (let left = src1 x; right = src2 x; op = op10 x
      in if op = 0x358 then result x (abs2 right)
         else if op = 0x060 \<or> op = 0x0B8 \<or> op = 0x930 then result x (add2 left right)
         else if op = 0x460 \<or> op = 0x098 \<or> op = 0x970 then result x (sub2 left right)
         else if op = 0xC30 then result x (sadd2 left right)
         else if op = 0xC98 then result x (ssub2 left right)
         else if op = 0xC70 then result x (saddus2 left right)
         else if op = 0x858 \<or> op = 0xF70 then result x (max2 left right)
         else if op = 0x838 \<or> op = 0xF30 then result x (min2 left right)
         else if op = 0xDF0 then result x (shr2 right left)
         else if op = 0x620 then result x (shr2 right (of_nat (x_a x)))
         else if op = 0xE30 then result x (shru2 right left)
         else if op = 0x660 then result x (shru2 right (of_nat (x_a x)))
         else if op = 0x760 then result x (cmpeq2 left right)
         else if op = 0x520 then result x (cmpgt2 left right)
         else if op = 0xCB0 then result x (spack2 left right)
         else reject x Not_implemented)"

definition arm_packed16_m :: "arm \<Rightarrow> stopped + arm" where
  "arm_packed16_m x =
     (let op = op10 x
      in when_enabled (no_write x) (\<lambda>x.
           let s = sshv (src2 x) (src1 x) (op = 0x6B0);
               (v, saturated) = (if op = 0x4F0 then (avg2 (src1 x) (src2 x), False) else (p16_value s, p16_saturated s))
           in queue_saturating (cycles (x_cpu x) + 2) (ucast v) 1 saturated x))"

text \<open>Operation, result stage and whether the result is a pair.\<close>

definition packed8_operation :: "u32 \<Rightarrow> u32 \<Rightarrow> u32 \<Rightarrow> (u64 \<times> nat \<times> bool) option" where
  "packed8_operation op s1 s2 =
     (if op = 0xCB8 then Some (ucast (add4 s1 s2), 1, False)
      else if op = 0xCD8 then Some (ucast (sub4 s1 s2), 1, False)
      else if op = 0xB58 then Some (ucast (subabs4 s1 s2), 1, False)
      else if op = 0xCF0 then Some (ucast (saddu4 s1 s2), 1, False)
      else if op = 0x878 then Some (ucast (maxu4 s1 s2), 1, False)
      else if op = 0x918 then Some (ucast (minu4 s1 s2), 1, False)
      else if op = 0x720 then Some (ucast (cmpeq4 s1 s2), 1, False)
      else if op = 0x560 then Some (ucast (cmpgtu4 s1 s2), 1, False)
      else if op = 0xD30 then Some (ucast (spacku4 s1 s2), 1, False)
      else if op = 0x4B0 then Some (ucast (avgu4 s1 s2), 2, False)
      else if op = 0x130 then Some (mpyu4 s1 s2, 4, True)
      else if op = 0x170 then Some (mpysu4 s1 s2, 4, True)
      else None)"

definition arm_packed8 :: "arm \<Rightarrow> stopped + arm" where
  "arm_packed8 x =
     (case packed8_operation (op10 x) (src1 x) (src2 x) of
        None \<Rightarrow> reject x Not_implemented
      | Some (v, stage, pair) \<Rightarrow>
          if stage = 1 then result x (ucast v)
          else
            (let x = no_write x
             in if pair \<and> odd (x_dst x) then reject x Invalid_multiply_pair
                else when_enabled x (queue_product stage pair (if pair then v else low_word v))))"

definition arm_packbits_m :: "arm \<Rightarrow> stopped + arm" where
  "arm_packbits_m x =
     (let s2 = src2 x; op = op10 x; kind = bits_at (x_w x) 13 5;
          v = (if op = 0x770 \<or> op = 0x7B0 then rotl s2 (if op = 0x770 then src1 x else of_nat (x_a x))
               else if kind = 0x1F then bitr s2
               else if kind = 0x1E then bitc4 s2
               else if kind = 0x1D then deal s2
               else if kind = 0x1C then shfl s2
               else if kind = 0x19 then xpnd2 s2
               else xpnd4 s2)
      in when_enabled (no_write x) (queue_product 2 False (ucast v)))"

definition arm_packbits_unpack :: "arm \<Rightarrow> stopped + arm" where
  "arm_packbits_unpack x =
     (let kind = bits_at (x_w x) 13 5
      in result x (if kind = 3 then unpkhu4 (src2 x) else if kind = 2 then unpklu4 (src2 x) else swap4 (src2 x)))"

definition arm_packbits_mergebyte :: "arm \<Rightarrow> stopped + arm" where
  "arm_packbits_mergebyte x =
     result x (if op10 x = 0xC38 \<or> op10 x = 0xE70 then shlmb (src1 x) (src2 x) else shrmb (src1 x) (src2 x))"

definition arm_packbits_lmbd :: "arm \<Rightarrow> stopped + arm" where
  "arm_packbits_lmbd x = result x (lmbd (if op10 x = 0xD58 then of_nat (x_a x) else src1 x) (src2 x))"

definition arm_packbits_norm :: "arm \<Rightarrow> stopped + arm" where
  "arm_packbits_norm x =
     (if bits_at (x_w x) 5 7 = 0x63 then result x (norm32 (src2 x))
      else if odd (x_b x) then reject x Invalid_long_pair
      else if x_w x AND 0x1000 \<noteq> 0 then reject x Cross_path_long
      else result x (norm40 (register_long40 (x_cpu x) (x_side x) (x_b x))))"

definition arm_packbits_dual :: "arm \<Rightarrow> stopped + arm" where
  "arm_packbits_dual x =
     (let s1 = src1 x; s2 = src2 x; op = op10 x; x = no_write x;
          r = addsub (shr (x_w x) 5 AND 0x7F) s1 s2; plain = (op = 0x698 \<or> op = 0x678 \<or> op = 0x6D8);
          v = (if op = 0x698 then dpack2 s1 s2 else if op = 0x678 then dpackx2 s1 s2
               else if op = 0x6D8 then shfl3 s1 s2 else as_value r)
      in if odd (x_dst x) then reject x Invalid_long_pair
         else if \<not> plain \<and> \<not> as_valid r then reject x Nonconditional_l_missing
         else bind (write_pair (ucast v) (ucast (shr v 32)) x)
                (\<lambda>x. if \<not> plain \<and> as_saturated r then queue_saturation x else Inr x))"

section \<open>Single precision\<close>

definition fp_mode :: "u32 \<Rightarrow> arm \<Rightarrow> nat" where
  "fp_mode reg x = bits_at reg (if x_side x = 1 then 25 else 9) 2"

definition fp_status :: "u32 \<Rightarrow> arm \<Rightarrow> u32" where
  "fp_status status x = shl status (if x_side x = 1 then 16 else 0)"

definition queue_sp :: "sp_result \<Rightarrow> bool \<Rightarrow> arm \<Rightarrow> stopped + arm" where
  "queue_sp r multiplier x =
     queue_result (cycles (x_cpu x) + 4) (ucast (sf_value r)) (fp_status (sf_status r) x) (x_dst x) 1 multiplier x"

definition arm_intsp :: "arm \<Rightarrow> stopped + arm" where
  "arm_intsp x =
     when_enabled (no_write x) (\<lambda>x.
       let (v, inexact) = integer_to_sp (src2 x) (x_w x AND 0x3CFFC = 0x958) (fp_mode (control (x_cpu x) 18) x)
       in queue_sp \<lparr>sf_value = v, sf_status = flag inexact 7\<rparr> False x)"

definition arm_spint :: "arm \<Rightarrow> stopped + arm" where
  "arm_spint x =
     when_enabled (no_write x) (\<lambda>x.
       let rmode = (if x_w x AND 0x20 \<noteq> 0 then 1 else fp_mode (control (x_cpu x) 18) x)
       in queue_sp (sp_to_integer (src2 x) rmode) False x)"

definition arm_abssp :: "arm \<Rightarrow> stopped + arm" where
  "arm_abssp x =
     (let source = src2 x;
          (v, status) =
            (if sp_nan source then (0x7FFFFFFF, shl 1 1 OR flag (sp_fraction source AND 0x400000 = 0) 4)
             else if sp_denormal source then (0, shl 1 7 OR shl 1 3)
             else (source AND 0x7FFFFFFF, flag (sp_exponent source = 255) 5));
          x = x\<lparr>x_value := v\<rparr>
      in when_enabled x (faucr_status status))"

definition arm_cmpsp :: "arm \<Rightarrow> stopped + arm" where
  "arm_cmpsp x =
     (let r = compare_sp (src1 x) (src2 x) (bits_at (x_w x) 6 6 - 0x38); x = x\<lparr>x_value := sf_value r\<rparr>
      in when_enabled x (faucr_status (sf_status r)))"

definition arm_addsubsp :: "arm \<Rightarrow> stopped + arm" where
  "arm_addsubsp x =
     (let encoding = op10 x; cpu = x_cpu x;
          operation = (if encoding = 0x218 \<or> encoding = 0xE18 then 0 else if encoding = 0xEB8 then 2 else 1);
          source1 = (if encoding = 0x2B8 then gpr cpu (x_cross x) (x_a x) else src1 x);
          source2 = (if encoding = 0x2B8 then gpr cpu (x_side x) (x_b x) else src2 x)
      in when_enabled (no_write x) (\<lambda>x.
           queue_sp (add_sub_sp source1 source2 operation (fp_mode (control cpu 18) x)) False x))"

definition arm_mpysp :: "arm \<Rightarrow> stopped + arm" where
  "arm_mpysp x =
     when_enabled (no_write x) (\<lambda>x.
       queue_sp (multiply_sp (src1 x) (src2 x) (fp_mode (control (x_cpu x) 20) x)) True x)"

section \<open>Double precision\<close>

definition dp_pair :: "cpu \<Rightarrow> nat \<Rightarrow> nat \<Rightarrow> u64" where
  "dp_pair cpu bank n = shl (ucast (gpr cpu bank (n + 1))) 32 OR ucast (gpr cpu bank n)"

definition odd_pair :: "arm \<Rightarrow> u64" where
  "odd_pair x = shl (ucast (src2 x)) 32 OR ucast (gpr (x_cpu x) (x_cross x) (x_b x - 1))"

definition high_word :: "u64 \<Rightarrow> u64" where "high_word v = shr v 32"

definition dp_queue :: "u64 \<Rightarrow> nat \<Rightarrow> u64 \<Rightarrow> u32 \<Rightarrow> bool \<Rightarrow> arm \<Rightarrow> stopped + arm" where
  "dp_queue t dst v status multiplier x = queue_result t v status dst 1 multiplier x"

definition dp_queue_pair :: "nat \<Rightarrow> dp_result \<Rightarrow> bool \<Rightarrow> arm \<Rightarrow> stopped + arm" where
  "dp_queue_pair low r multiplier x =
     (let now = cycles (x_cpu x)
      in bind (dp_queue (now + of_nat low) (x_dst x) (low_word (df_value r)) (fp_status (df_status r) x) multiplier x)
           (dp_queue (now + of_nat low + 1) (x_dst x + 1) (high_word (df_value r)) 0 multiplier))"

definition room_for_two :: "arm \<Rightarrow> (arm \<Rightarrow> stopped + arm) \<Rightarrow> stopped + arm" where
  "room_for_two x f = (if length (loads (out x)) + 2 > 40 then reject x Result_queue_full else f x)"

definition arm_approx :: "host_fp \<Rightarrow> arm \<Rightarrow> stopped + arm" where
  "arm_approx host x =
     (let encoding = op10 x;
          kind = (if encoding = 0xF60 then RCPSP else if encoding = 0xFA0 then RSQRSP
                  else if encoding = 0xB60 then RCPDP else RSQRDP);
          pair = ap_pair (approx host kind 0)
      in if pair \<and> (odd (x_dst x) \<or> even (x_b x)) then reject x Invalid_dp_pair
         else
           (let r = approx host kind (if pair then odd_pair x else ucast (src2 x)); x = x\<lparr>x_value := ucast (ap_value r)\<rparr>
            in when_enabled x (\<lambda>x.
                 bind (if pair then dp_queue (cycles (x_cpu x) + 2) (x_dst x + 1) (high_word (ap_value r)) 0 False x else Inr x)
                   (faucr_status (ap_status r)))))"

definition arm_two_cycle_dp :: "arm \<Rightarrow> stopped + arm" where
  "arm_two_cycle_dp x =
     (let absolute = (op10 x = 0xB20)
      in if odd (x_dst x) then reject x Invalid_dp_result_pair
         else if absolute \<and> even (x_b x) then reject x Invalid_dp_source_pair
         else
           (let r = (if absolute then abs_dp (odd_pair x) else sp_to_dp (src2 x)); x = x\<lparr>x_value := ucast (df_value r)\<rparr>
            in when_enabled x (\<lambda>x.
                 bind (dp_queue (cycles (x_cpu x) + 2) (x_dst x + 1) (high_word (df_value r)) 0 False x)
                   (faucr_status (df_status r)))))"

definition faucr_load :: "u64 \<Rightarrow> u32 \<Rightarrow> load" where
  "faucr_load t status =
     \<lparr>ld_due = t, ld_value = 0, ld_address = status, ld_bank = 0, ld_dst = 0, ld_size = DELAYED_FAUCR, ld_sign = False\<rparr>"

definition arm_cmpdp :: "arm \<Rightarrow> stopped + arm" where
  "arm_cmpdp x =
     (let op = bits_at (x_w x) 5 7; relation = (if op = 0x51 then 0 else if op = 0x53 then 1 else 2)
      in if odd (x_a x) \<or> odd (x_b x) then reject x Invalid_dp_source_pair
         else when_enabled (no_write x) (\<lambda>x.
           let r = compare_dp (dp_pair (x_cpu x) (x_side x) (x_a x)) (dp_pair (x_cpu x) (x_cross x) (x_b x)) relation;
               t = cycles (x_cpu x) + 2
           in if length (loads (out x)) + (if df_status r \<noteq> 0 then 2 else 1) > 40 then reject x Result_queue_full
              else bind (dp_queue t (x_dst x) (low_word (df_value r)) 0 False x) (\<lambda>x.
                Inr (if df_status r \<noteq> 0 then update_out (append_load (faucr_load t (fp_status (df_status r) x))) x else x))))"

definition arm_addsubdp :: "arm \<Rightarrow> stopped + arm" where
  "arm_addsubdp x =
     (let encoding = op10 x;
          operation = (if encoding = 0x318 \<or> encoding = 0xE58 then 0 else if encoding = 0xEF8 then 2 else 1)
      in if odd (x_a x) \<or> odd (x_b x) then reject x Invalid_dp_source_pair
         else if odd (x_dst x) then reject x Invalid_dp_result_pair
         else when_enabled (no_write x) (\<lambda>x.
           let cpu = x_cpu x; reverse = (encoding = 0x3B8);
               source1 = dp_pair cpu (if reverse then x_cross x else x_side x) (x_a x);
               source2 = dp_pair cpu (if reverse then x_side x else x_cross x) (x_b x)
           in room_for_two x
                (dp_queue_pair 6 (add_sub_dp source1 source2 operation (fp_mode (control cpu 18) x)) False)))"

definition arm_mpydp :: "arm \<Rightarrow> stopped + arm" where
  "arm_mpydp x =
     (let encoding = op10 x; pair_src1 = (encoding = 0x700); pair_src2 = (encoding \<noteq> 0x5F0)
      in if (pair_src1 \<and> odd (x_a x)) \<or> (pair_src2 \<and> odd (x_b x)) then reject x Invalid_dp_source_pair
         else if odd (x_dst x) then reject x Invalid_dp_result_pair
         else when_enabled (no_write x) (\<lambda>x.
           let cpu = x_cpu x;
               left = (if pair_src1 then dp_pair cpu (x_side x) (x_a x) else sp_operand_to_dp (src1 x));
               right = (if pair_src2 then dp_pair cpu (x_cross x) (x_b x) else sp_operand_to_dp (src2 x));
               low = (if encoding = 0x700 then 9 else if encoding = 0x5B0 then 6 else 4)
           in room_for_two x (dp_queue_pair low (multiply_dp left right (fp_mode (control cpu 20) x)) True)))"

definition arm_dp_convert :: "arm \<Rightarrow> stopped + arm" where
  "arm_dp_convert x =
     (let encoding = op10 x
      in if even (x_b x) then reject x Invalid_dp_source_pair
         else when_enabled (no_write x) (\<lambda>x.
           let rmode = (if encoding = 0x038 then 1 else fp_mode (control (x_cpu x) 18) x); source = odd_pair x;
               r = (if encoding = 0x138 then dp_to_sp source rmode else dp_to_integer source rmode)
           in dp_queue (cycles (x_cpu x) + 4) (x_dst x) (low_word (df_value r)) (fp_status (df_status r) x) False x))"

definition arm_intdp :: "arm \<Rightarrow> stopped + arm" where
  "arm_intdp x =
     (if odd (x_dst x) then reject x Invalid_dp_result_pair
      else when_enabled (no_write x) (\<lambda>x.
        let v = integer_to_dp (src2 x) (op10 x = 0x738)
        in room_for_two x (dp_queue_pair 4 \<lparr>df_value = v, df_status = 0\<rparr> False)))"

end
