(* ===== verification/C674x_Table.thy ===== *)
theory C674x_Table
  imports C674x_Arms C674x_Uncond
begin

text \<open>
  \<^verbatim>\<open>cdj_c674x_arms\<close> and its lookup: one row per encoding, a mask, a value, sometimes a further predicate, and
  the arm. The first row that claims the word wins; a word with the nonconditional 0001 in its top bits is
  claimed only by rows whose mask covers these bits.
\<close>

section \<open>The further predicates\<close>

definition match_d_adda :: "arm \<Rightarrow> bool" where
  "match_d_adda x \<longleftrightarrow> bits_at (x_w x) 7 6 \<ge> 0x30 \<and> bits_at (x_w x) 7 6 \<le> 0x3D"

definition match_d_addsub :: "arm \<Rightarrow> bool" where
  "match_d_addsub x \<longleftrightarrow> bits_at (x_w x) 7 6 \<ge> 0x10 \<and> bits_at (x_w x) 7 6 \<le> 0x13"

definition match_l_long_addsub :: "arm \<Rightarrow> bool" where
  "match_l_long_addsub x \<longleftrightarrow>
     bits_at (x_w x) 5 7 \<in> {0x20, 0x21, 0x23, 0x24, 0x27, 0x29, 0x2B, 0x2F, 0x37, 0x3F}"

definition match_mpy32_scalar :: "arm \<Rightarrow> bool" where
  "match_mpy32_scalar x \<longleftrightarrow> bits_at (x_w x) 7 5 \<in> {0x10, 0x14, 0x16}"

definition match_mpy32_packed :: "arm \<Rightarrow> bool" where
  "match_mpy32_packed x \<longleftrightarrow> bits_at (x_w x) 6 5 \<in> {0x18, 0x19}"

definition match_mpy16 :: "arm \<Rightarrow> bool" where
  "match_mpy16 x \<longleftrightarrow>
     bits_at (x_w x) 7 5 \<in> {0x19, 0x18, 0x01, 0x09, 0x0F, 0x0B, 0x03, 0x07, 0x0D, 0x05, 0x11, 0x17, 0x13, 0x15, 0x1B, 0x1E, 0x1F, 0x1D}"

definition match_smpy16_scalar :: "arm \<Rightarrow> bool" where
  "match_smpy16_scalar x \<longleftrightarrow> bits_at (x_w x) 7 5 \<in> {0x1A, 0x02, 0x0A, 0x12}"

definition match_smpy16_packed :: "arm \<Rightarrow> bool" where
  "match_smpy16_packed x \<longleftrightarrow> bits_at (x_w x) 6 5 = 0x01"

definition match_mpy_half32 :: "arm \<Rightarrow> bool" where
  "match_mpy_half32 x \<longleftrightarrow> bits_at (x_w x) 6 5 \<in> {0x0E, 0x10, 0x14, 0x15}"

definition match_cmpsp :: "arm \<Rightarrow> bool" where
  "match_cmpsp x \<longleftrightarrow> bits_at (x_w x) 6 6 \<ge> 0x38 \<and> bits_at (x_w x) 6 6 \<le> 0x3A"

definition match_src1_zero :: "arm \<Rightarrow> bool" where
  "match_src1_zero x \<longleftrightarrow> x_a x = 0"

definition match_cmpy :: "arm \<Rightarrow> bool" where
  "match_cmpy x \<longleftrightarrow>
     (let op = shr (x_w x) 6 AND 31 in cm_valid (cmpy op 0 0 0) \<or> cm_valid (mpy32_nonconditional op 0 0))"

definition match_dotp :: "arm \<Rightarrow> bool" where
  "match_dotp x \<longleftrightarrow>
     shr (x_w x) 6 AND 31 \<in> {DOTPSU4, DOTPU4, DOTPNRSU2, DOTPN2, DOTP2L, DOTP2, DOTPRSU2}"

definition match_mpyi :: "arm \<Rightarrow> bool" where
  "match_mpyi x \<longleftrightarrow> bits_at (x_w x) 7 5 \<in> {0x04, 0x06, 0x08, 0x0C}"

definition match_mpy2_gmpy4 :: "arm \<Rightarrow> bool" where
  "match_mpy2_gmpy4 x \<longleftrightarrow> bits_at (x_w x) 6 5 \<in> {0x00, 0x11}"

definition match_gmpy_word :: "arm \<Rightarrow> bool" where
  "match_gmpy_word x \<longleftrightarrow> bits_at (x_w x) 6 5 \<in> {0x1B, 0x1F}"

section \<open>The table\<close>

record 'm arm_entry =
  en_mask :: u32
  en_match :: u32
  en_also :: "(arm \<Rightarrow> bool) option"
  en_run :: "'m cpu_bus \<Rightarrow> arm \<Rightarrow> 'm \<Rightarrow> (stopped + arm) \<times> 'm"

definition entry ::
  "u32 \<Rightarrow> u32 \<Rightarrow> (arm \<Rightarrow> bool) option \<Rightarrow> ('m cpu_bus \<Rightarrow> arm \<Rightarrow> 'm \<Rightarrow> (stopped + arm) \<times> 'm) \<Rightarrow> 'm arm_entry" where
  "entry m v also run = \<lparr>en_mask = m, en_match = v, en_also = also, en_run = run\<rparr>"

definition pure :: "(arm \<Rightarrow> stopped + arm) \<Rightarrow> 'm cpu_bus \<Rightarrow> arm \<Rightarrow> 'm \<Rightarrow> (stopped + arm) \<times> 'm" where
  "pure f bus x m = (f x, m)"

definition arm_table :: "'m arm_entry list" where
  "arm_table =
     [entry 0x00000FFC 0x00000618 None (pure arm_sat_long),
      entry 0x00000FFC 0x00000638 None (pure arm_sat_long),
      entry 0x00000FFC 0x00000598 None (pure arm_sat_long),
      entry 0x00000FFC 0x00000278 None (pure arm_sat_scalar),
      entry 0x00000FFC 0x00000258 None (pure arm_sat_scalar),
      entry 0x00000FFC 0x000001F8 None (pure arm_sat_scalar),
      entry 0x00000FFC 0x000003F8 None (pure arm_sat_scalar),
      entry 0x00000FFC 0x000001D8 None (pure arm_sat_scalar),
      entry 0x00000FFC 0x00000820 None (pure arm_sat_scalar),
      entry 0x00000FFC 0x000008E0 None (pure arm_sat_scalar),
      entry 0x00000FFC 0x000008A0 None (pure arm_sat_scalar),
      entry 0x0000000C 0x0000000C None arm_scalar_memory,
      entry 0x0000010C 0x00000004 None arm_scalar_memory,
      entry 0x0000017C 0x00000134 None arm_scalar_memory,
      entry 0x0000017C 0x00000154 None arm_scalar_memory,
      entry 0x0000017C 0x00000124 None arm_scalar_memory,
      entry 0x0000017C 0x00000174 None arm_scalar_memory,
      entry 0x0000017C 0x00000164 None arm_scalar_memory,
      entry 0x0000017C 0x00000144 None arm_scalar_memory,
      entry 0x0000007C 0x00000050 None (pure arm_addk),
      entry 0x0000007C 0x00000028 None (pure arm_mvk_s),
      entry 0x0000007C 0x00000068 None (pure arm_mvkh),
      entry 0x0000007C 0x00000040 (Some match_d_adda) (pure arm_d_adda),
      entry 0x0000007C 0x00000040 (Some match_d_addsub) (pure arm_d_addsub),
      entry 0x00000FFC 0x00000AB0 None (pure arm_d_addsub_cross),
      entry 0x00000FFC 0x00000AF0 None (pure arm_d_addsub_cross),
      entry 0x00000FFC 0x00000B30 None (pure arm_d_addsub_cross),
      entry 0x007C1FFC 0x00000040 None (pure arm_mvk_d),
      entry 0x0003EFFC 0x0000A358 None (pure arm_mvk_l),
      entry 0x0000001C 0x00000018 (Some match_l_long_addsub) (pure arm_l_long_addsub),
      entry 0x0000007C 0x00000000 (Some match_mpy32_scalar) (pure arm_mpy32),
      entry 0x0000083C 0x00000030 (Some match_mpy32_packed) (pure arm_mpy32),
      entry 0x0000007C 0x00000000 (Some match_mpy16) (pure arm_mpy16),
      entry 0x0000007C 0x00000000 (Some match_smpy16_scalar) (pure arm_smpy16),
      entry 0x0000083C 0x00000030 (Some match_smpy16_packed) (pure arm_smpy16),
      entry 0x0000083C 0x00000030 (Some match_mpy_half32) (pure arm_mpy_half32),
      entry 0x0003EFFC 0x000340F0 None (pure arm_mvd),
      entry 0x0003CFFC 0x00000958 None (pure arm_intsp),
      entry 0x0003CFFC 0x00000938 None (pure arm_intsp),
      entry 0x0003CFFC 0x00000158 None (pure arm_spint),
      entry 0x0003CFFC 0x00000178 None (pure arm_spint),
      entry 0x0003EFFC 0x00000F20 None (pure arm_abssp),
      entry 0x0000003C 0x00000020 (Some match_cmpsp) (pure arm_cmpsp),
      entry 0x00000FFC 0x00000218 None (pure arm_addsubsp),
      entry 0x00000FFC 0x00000E18 None (pure arm_addsubsp),
      entry 0x00000FFC 0x00000238 None (pure arm_addsubsp),
      entry 0x00000FFC 0x000002B8 None (pure arm_addsubsp),
      entry 0x00000FFC 0x00000E38 None (pure arm_addsubsp),
      entry 0x00000FFC 0x00000EB8 None (pure arm_addsubsp),
      entry 0x00000FFC 0x00000E00 None (pure arm_mpysp),
      entry 0x00000FFC 0x00000018 None (pure arm_pack),
      entry 0x00000FFC 0x00000FF0 None (pure arm_pack),
      entry 0x00000FFC 0x000003D8 None (pure arm_pack),
      entry 0x00000FFC 0x00000260 None (pure arm_pack),
      entry 0x00000FFC 0x00000398 None (pure arm_pack),
      entry 0x00000FFC 0x00000220 None (pure arm_pack),
      entry 0x00000FFC 0x00000378 None (pure arm_pack),
      entry 0x00000FFC 0x00000420 None (pure arm_pack),
      entry 0x00000FFC 0x00000D18 None (pure arm_pack),
      entry 0x00000FFC 0x00000D38 None (pure arm_pack),
      entry 0x00000FFC 0x00000F98 None (pure arm_andn),
      entry 0x00000FFC 0x00000DB0 None (pure arm_andn),
      entry 0x00000FFC 0x00000830 None (pure arm_andn),
      entry 0x00000FFC 0x000007A0 None (pure arm_and_imm),
      entry 0x00000FFC 0x00000F58 None (pure arm_and_imm),
      entry 0x00000FFC 0x000009F0 None (pure arm_and_imm),
      entry 0x00000FFC 0x000007E0 None (pure arm_and_reg),
      entry 0x00000FFC 0x00000F78 None (pure arm_and_reg),
      entry 0x00000FFC 0x000009B0 None (pure arm_and_reg),
      entry 0x00000FFC 0x00000058 None (pure arm_add_imm),
      entry 0x00000FFC 0x000001A0 None (pure arm_add_imm),
      entry 0x00000FFC 0x00000078 None (pure arm_add_reg),
      entry 0x00000FFC 0x000001E0 None (pure arm_add_reg),
      entry 0x00000FFC 0x000000D8 None (pure arm_sub_imm),
      entry 0x00000FFC 0x000005A0 None (pure arm_sub_imm),
      entry 0x00000FFC 0x000000F8 None (pure arm_sub_reg),
      entry 0x00000FFC 0x000005E0 None (pure arm_sub_reg),
      entry 0x00000FFC 0x000002F8 None (pure arm_sub_reverse),
      entry 0x00000FFC 0x00000D70 None (pure arm_sub_reverse),
      entry 0x00000FFC 0x00000A58 None (pure arm_cmp),
      entry 0x00000FFC 0x00000A78 None (pure arm_cmp),
      entry 0x00000FFC 0x000008D8 None (pure arm_cmp),
      entry 0x00000FFC 0x000008F8 None (pure arm_cmp),
      entry 0x00000FFC 0x000009D8 None (pure arm_cmp),
      entry 0x00000FFC 0x000009F8 None (pure arm_cmp),
      entry 0x00000FFC 0x00000AD8 None (pure arm_cmp),
      entry 0x00000FFC 0x00000AF8 None (pure arm_cmp),
      entry 0x00000FFC 0x00000BD8 None (pure arm_cmp),
      entry 0x00000FFC 0x00000BF8 None (pure arm_cmp),
      entry 0x00000FFC 0x00000FD8 None (pure arm_or_imm),
      entry 0x00000FFC 0x000006A0 None (pure arm_or_imm),
      entry 0x00000FFC 0x000008F0 None (pure arm_or_imm),
      entry 0x00000FFC 0x00000FF8 None (pure arm_or_reg),
      entry 0x00000FFC 0x000006E0 None (pure arm_or_reg),
      entry 0x00000FFC 0x000008B0 None (pure arm_or_reg),
      entry 0x00000FFC 0x00000DD8 None (pure arm_xor_imm),
      entry 0x00000FFC 0x000002A0 None (pure arm_xor_imm),
      entry 0x00000FFC 0x00000BF0 None (pure arm_xor_imm),
      entry 0x00000FFC 0x00000DF8 None (pure arm_xor_reg),
      entry 0x00000FFC 0x000002E0 None (pure arm_xor_reg),
      entry 0x00000FFC 0x00000BB0 None (pure arm_xor_reg),
      entry 0x0000003C 0x00000008 None (pure arm_bitfield),
      entry 0x00000AFC 0x00000AE0 None (pure arm_bitfield),
      entry 0x00000FBC 0x000009A0 None (pure arm_shift_s),
      entry 0x00000FBC 0x00000DA0 None (pure arm_shift_s),
      entry 0x00000FBC 0x00000CA0 None (pure arm_shift_s),
      entry 0x00000FFE 0x000003E2 (Some match_src1_zero) (pure arm_mvc_read),
      entry 0x00000FFE 0x000003A2 (Some match_src1_zero) (pure arm_mvc_write),
      entry 0x0FFFFFFE 0x001800E2 None (pure arm_b_irp),
      entry 0x0000007C 0x00000010 None (pure arm_b_disp),
      entry 0x00001FFC 0x00001020 None (pure arm_bdec),
      entry 0x00001FFC 0x00000120 None (pure arm_bnop_disp),
      entry 0x0F830FFE 0x00800362 None (pure arm_bnop_reg),
      entry 0x0F83EFFE 0x00000362 None (pure arm_b_reg),
      entry 0x00001FFE 0x00000162 None (pure arm_addkpc),
      entry 0xF000083C 0x10000030 (Some match_cmpy) (pure arm_cmpy),
      entry 0x0000083C 0x00000030 (Some match_dotp) (pure arm_dotp),
      entry 0x0003EFFC 0x00008358 None (pure arm_packed16),
      entry 0x00000FFC 0x00000060 None (pure arm_packed16),
      entry 0x00000FFC 0x000000B8 None (pure arm_packed16),
      entry 0x00000FFC 0x00000930 None (pure arm_packed16),
      entry 0x00000FFC 0x00000460 None (pure arm_packed16),
      entry 0x00000FFC 0x00000098 None (pure arm_packed16),
      entry 0x00000FFC 0x00000970 None (pure arm_packed16),
      entry 0x00000FFC 0x00000C30 None (pure arm_packed16),
      entry 0x00000FFC 0x00000C98 None (pure arm_packed16),
      entry 0x00000FFC 0x00000C70 None (pure arm_packed16),
      entry 0x00000FFC 0x00000858 None (pure arm_packed16),
      entry 0x00000FFC 0x00000F70 None (pure arm_packed16),
      entry 0x00000FFC 0x00000838 None (pure arm_packed16),
      entry 0x00000FFC 0x00000F30 None (pure arm_packed16),
      entry 0x00000FFC 0x00000DF0 None (pure arm_packed16),
      entry 0x00000FFC 0x00000620 None (pure arm_packed16),
      entry 0x00000FFC 0x00000E30 None (pure arm_packed16),
      entry 0x00000FFC 0x00000660 None (pure arm_packed16),
      entry 0x00000FFC 0x00000760 None (pure arm_packed16),
      entry 0x00000FFC 0x00000520 None (pure arm_packed16),
      entry 0x00000FFC 0x00000CB0 None (pure arm_packed16),
      entry 0x00000FFC 0x000004F0 None (pure arm_packed16_m),
      entry 0x00000FFC 0x00000730 None (pure arm_packed16_m),
      entry 0x00000FFC 0x000006B0 None (pure arm_packed16_m),
      entry 0x00000FFC 0x00000CB8 None (pure arm_packed8),
      entry 0x00000FFC 0x00000CD8 None (pure arm_packed8),
      entry 0x00000FFC 0x00000B58 None (pure arm_packed8),
      entry 0x00000FFC 0x00000CF0 None (pure arm_packed8),
      entry 0x00000FFC 0x00000878 None (pure arm_packed8),
      entry 0x00000FFC 0x00000918 None (pure arm_packed8),
      entry 0x00000FFC 0x00000720 None (pure arm_packed8),
      entry 0x00000FFC 0x00000560 None (pure arm_packed8),
      entry 0x00000FFC 0x00000D30 None (pure arm_packed8),
      entry 0x00000FFC 0x000004B0 None (pure arm_packed8),
      entry 0x00000FFC 0x00000130 None (pure arm_packed8),
      entry 0x00000FFC 0x00000170 None (pure arm_packed8),
      entry 0xF0000FFC 0x10000198 None (pure arm_packbits_dual),
      entry 0xF0000FFC 0x100001B8 None (pure arm_packbits_dual),
      entry 0xF0000FFC 0x100001D8 None (pure arm_packbits_dual),
      entry 0xF0000FFC 0x100001F8 None (pure arm_packbits_dual),
      entry 0x0003EFFC 0x00006358 None (pure arm_packbits_unpack),
      entry 0x0003EFFC 0x00006F20 None (pure arm_packbits_unpack),
      entry 0x0003EFFC 0x00004358 None (pure arm_packbits_unpack),
      entry 0x0003EFFC 0x00004F20 None (pure arm_packbits_unpack),
      entry 0x0003EFFC 0x00002358 None (pure arm_packbits_unpack),
      entry 0x0003EFFC 0x0003E0F0 None (pure arm_packbits_m),
      entry 0x0003EFFC 0x0003C0F0 None (pure arm_packbits_m),
      entry 0x0003EFFC 0x0003A0F0 None (pure arm_packbits_m),
      entry 0x0003EFFC 0x000380F0 None (pure arm_packbits_m),
      entry 0x0003EFFC 0x000320F0 None (pure arm_packbits_m),
      entry 0x0003EFFC 0x000300F0 None (pure arm_packbits_m),
      entry 0x00000FFC 0x00000770 None (pure arm_packbits_m),
      entry 0x00000FFC 0x000007B0 None (pure arm_packbits_m),
      entry 0x00000FFC 0x00000D58 None (pure arm_packbits_lmbd),
      entry 0x00000FFC 0x00000D78 None (pure arm_packbits_lmbd),
      entry 0x0003EFFC 0x00000C78 None (pure arm_packbits_norm),
      entry 0x0003EFFC 0x00000C18 None (pure arm_packbits_norm),
      entry 0x00000FFC 0x00000C38 None (pure arm_packbits_mergebyte),
      entry 0x00000FFC 0x00000E70 None (pure arm_packbits_mergebyte),
      entry 0x00000FFC 0x00000C58 None (pure arm_packbits_mergebyte),
      entry 0x00000FFC 0x00000EB0 None (pure arm_packbits_mergebyte),
      entry 0xF0800FFC 0x10000698 None (pure arm_packbits_dual),
      entry 0xF0800FFC 0x10000678 None (pure arm_packbits_dual),
      entry 0xF0000FFC 0x100006D8 None (pure arm_packbits_dual),
      entry 0x00000FFC 0x00000F60 None (\<lambda>bus. pure (arm_approx (bus_fp bus)) bus),
      entry 0x00000FFC 0x00000FA0 None (\<lambda>bus. pure (arm_approx (bus_fp bus)) bus),
      entry 0x00000FFC 0x00000B60 None (\<lambda>bus. pure (arm_approx (bus_fp bus)) bus),
      entry 0x00000FFC 0x00000BA0 None (\<lambda>bus. pure (arm_approx (bus_fp bus)) bus),
      entry 0x0003EFFC 0x00000B20 None (pure arm_two_cycle_dp),
      entry 0x0003EFFC 0x000000A0 None (pure arm_two_cycle_dp),
      entry 0x00000FFC 0x00000A20 None (pure arm_cmpdp),
      entry 0x00000FFC 0x00000A60 None (pure arm_cmpdp),
      entry 0x00000FFC 0x00000AA0 None (pure arm_cmpdp),
      entry 0x00000FFC 0x00000318 None (pure arm_addsubdp),
      entry 0x00000FFC 0x00000E58 None (pure arm_addsubdp),
      entry 0x00000FFC 0x00000338 None (pure arm_addsubdp),
      entry 0x00000FFC 0x000003B8 None (pure arm_addsubdp),
      entry 0x00000FFC 0x00000E78 None (pure arm_addsubdp),
      entry 0x00000FFC 0x00000EF8 None (pure arm_addsubdp),
      entry 0x00000FFC 0x00000700 None (pure arm_mpydp),
      entry 0x00000FFC 0x000005B0 None (pure arm_mpydp),
      entry 0x00000FFC 0x000005F0 None (pure arm_mpydp),
      entry 0x00000FFC 0x00000138 None (pure arm_dp_convert),
      entry 0x00000FFC 0x00000118 None (pure arm_dp_convert),
      entry 0x00000FFC 0x00000038 None (pure arm_dp_convert),
      entry 0x0003EFFC 0x00000738 None (pure arm_intdp),
      entry 0x0003EFFC 0x00000778 None (pure arm_intdp),
      entry 0x0000007C 0x00000000 (Some match_mpyi) (pure arm_mpyi),
      entry 0x0000083C 0x00000030 (Some match_mpy2_gmpy4) (pure arm_mpy2_gmpy4),
      entry 0xF000083C 0x10000030 (Some match_gmpy_word) (pure arm_gmpy_word),
      entry 0x00000FFC 0x00000EF0 None (pure arm_dmv),
      entry 0xF0000FFC 0x10000EF0 None (pure arm_rpack2),
      entry 0x0003EFFC 0x00000818 None (pure arm_sat40),
      entry 0x00000FFC 0x00000978 None (pure arm_subc),
      entry 0x0003EFFC 0x00000358 None (pure arm_abs),
      entry 0x0003EFFC 0x00000718 None (pure arm_abs),
      entry 0x00000FDC 0x00000A18 None (pure arm_cmp_long),
      entry 0x00000FDC 0x00000898 None (pure arm_cmp_long),
      entry 0x00000FDC 0x00000998 None (pure arm_cmp_long),
      entry 0x00000FDC 0x00000A98 None (pure arm_cmp_long),
      entry 0x00000FDC 0x00000B98 None (pure arm_cmp_long),
      entry 0x00000FBC 0x00000C20 None (pure arm_shift_long),
      entry 0x00000FBC 0x000004A0 None (pure arm_shift_long),
      entry 0x00000FBC 0x00000D20 None (pure arm_shift_long),
      entry 0x00000FBC 0x00000920 None (pure arm_shift_long),
      entry 0x0FFFFFFE 0x001C00E2 None (pure arm_b_nrp),
      entry 0x00001FFC 0x00000020 None (pure arm_bpos)]"

definition entry_claims :: "arm \<Rightarrow> 'm arm_entry \<Rightarrow> bool" where
  "entry_claims x e \<longleftrightarrow>
     \<not> (shr (x_w x) 28 = 1 \<and> shr (en_mask e) 28 \<noteq> 0xF) \<and> x_w x AND en_mask e = en_match e \<and>
     (case en_also e of None \<Rightarrow> True | Some also \<Rightarrow> also x)"

definition arm_lookup :: "arm \<Rightarrow> 'm arm_entry option" where
  "arm_lookup x = List.find (entry_claims x) arm_table"

end
