(* ===== verification/C674x_Compact.thy ===== *)
theory C674x_Compact
  imports C674x_Arm
begin

text \<open>
  The compact instructions of \<^verbatim>\<open>cdj_c674x_execute\<close>: the memory, saturating and multiply forms that are
  rewritten into the full 32-bit encoding (\<open>lower\<close>), and those executed on the spot (\<open>compact_simple\<close>).
  The instruction's header carries the register subset (bit 19), the data size (bits 16-18), and the
  branch and saturation selectors (bits 15 and 14).
\<close>

section \<open>Fields\<close>

definition fld :: "u32 \<Rightarrow> nat \<Rightarrow> nat \<Rightarrow> u32" where
  "fld w lo n = shr w lo AND mask n"

definition hdr_rs :: "instruction \<Rightarrow> nat" where
  "hdr_rs insn = (if bit (in_header insn) 19 then 16 else 0)"

definition hdr_br :: "instruction \<Rightarrow> bool" where "hdr_br insn = bit (in_header insn) 15"
definition hdr_sat :: "instruction \<Rightarrow> bool" where "hdr_sat insn = bit (in_header insn) 14"

text \<open>A three-bit register field in the header's subset, and the split five-bit constant.\<close>

definition reg_rs :: "instruction \<Rightarrow> nat \<Rightarrow> nat" where
  "reg_rs insn lo = bits_at (in_word insn) lo 3 + hdr_rs insn"

definition split_constant :: "u32 \<Rightarrow> u32" where
  "split_constant w = fld w 13 3 OR shl (fld w 11 2) 3"

section \<open>Lowering\<close>

definition compact_doff :: "u32 \<Rightarrow> bool" where "compact_doff w \<longleftrightarrow> w AND 0x0406 = 0x0004"
definition compact_dind :: "u32 \<Rightarrow> bool" where "compact_dind w \<longleftrightarrow> w AND 0x0C06 = 0x0404"
definition compact_dinc :: "u32 \<Rightarrow> bool" where "compact_dinc w \<longleftrightarrow> w AND 0xCC06 = 0x0C04"
definition compact_ddec :: "u32 \<Rightarrow> bool" where "compact_ddec w \<longleftrightarrow> w AND 0xCC06 = 0x4C04"

definition compact_memory :: "instruction \<Rightarrow> bool" where
  "compact_memory insn \<longleftrightarrow>
     (let w = in_word insn
      in in_compact insn \<and> (compact_doff w \<or> compact_dind w \<or> compact_dinc w \<or> compact_ddec w))"

text \<open>Figures C-8 to C-15: the operation code, whether it is an extended one, and whether it is the
  nonaligned pair.\<close>

definition compact_memory_op :: "instruction \<Rightarrow> u32 \<times> bool \<times> bool" where
  "compact_memory_op insn =
     (let w = in_word insn; dsz = bits_at (in_header insn) 16 3; ld = bit w 3; secondary = bit w 9
      in if \<not> secondary \<and> dsz \<ge> 4 then
           (let nonaligned = bit w 4
            in (if ld then (if nonaligned then 2 else 6) else (if nonaligned then 7 else 4), True, nonaligned))
         else if \<not> secondary then (if ld then 6 else 7, False, False)
         else ((if ld then [1, 2, 0, 4, 6, 2, 3, 4] else [3, 3, 5, 5, 7, 3, 5, 5]) ! dsz, dsz = 6, False))"

definition compact_memory_pair :: "instruction \<Rightarrow> bool" where
  "compact_memory_pair insn \<longleftrightarrow> \<not> bit (in_word insn) 9 \<and> bits_at (in_header insn) 16 3 \<ge> 4"

definition lower_memory :: "instruction \<Rightarrow> u32" where
  "lower_memory insn =
     (let w = in_word insn; rs = (of_nat (hdr_rs insn) :: u32);
          (op, extended, nonaligned) = compact_memory_op insn;
          r = fld w 4 3 + rs;
          r = (if compact_memory_pair insn then r AND NOT 1 else r);
          (offset, mode) =
            (if compact_doff w then (fld w 13 3 OR shl (fld w 11 1) 3, 1)
             else if compact_dind w then (fld w 13 3 + rs, 5)
             else (fld w 13 1 + 1, if compact_dinc w then 11 else 8));
          scaled = (if nonaligned \<and> (compact_dinc w \<or> compact_ddec w) then shl 1 23 else 0)
      in shl r 23 OR shl (4 + fld w 7 2) 18 OR shl offset 13 OR shl mode 9 OR scaled OR
         (if extended then 0x100 else 0) OR shl (w AND 1) 7 OR shl op 4 OR 4 OR shl (fld w 12 1) 1)"

text \<open>Figures D-4, F-22, F-25, F-26 and E-5.\<close>

definition m3_op :: "bool \<Rightarrow> nat \<Rightarrow> u32" where
  "m3_op sat n = (if sat then [0x1A, 0x02, 0x12, 0x0A] else [0x19, 0x01, 0x11, 0x09]) ! n"

definition lower_scalar :: "instruction \<Rightarrow> u32 option" where
  "lower_scalar insn =
     (let w = in_word insn; rs = (of_nat (hdr_rs insn) :: u32); s = w AND 1; d = fld w 4 3 + rs;
          left = fld w 13 3 + rs; right = fld w 7 3 + rs; sat = hdr_sat insn;
          opcode = (if sat \<and> w AND 0x040E = 0 then (if bit w 11 then 0x1F8 else 0x278)
                    else if sat \<and> \<not> hdr_br insn \<and> w AND 0x0C0E = 0x000A then 0x820 else 0)
      in if opcode \<noteq> 0 then
           Some (shl d 23 OR shl right 18 OR shl left 13 OR (w AND 0x1000) OR opcode OR shl s 1)
         else if sat \<and> w AND 0x047E = 0x0442 then
           Some (shl right 23 OR shl right 18 OR shl (split_constant w) 13 OR 0x8A0 OR shl s 1)
         else if w AND 0x1C7E = 0x1C62 then
           Some (shl right 23 OR shl right 18 OR shl left 13 OR 0x8E0 OR shl s 1)
         else if w AND 0x001E = 0x001E then
           Some (shl (fld w 10 2 * 2 + rs) 23 OR shl right 18 OR shl left 13 OR (w AND 0x1000) OR
                 shl (m3_op sat (bits_at w 5 2)) 7 OR shl s 1)
         else None)"

text \<open>The word to execute and whether it is still a compact one.\<close>

definition lower :: "instruction \<Rightarrow> u32 \<times> bool" where
  "lower insn =
     (if compact_memory insn then (lower_memory insn, False)
      else if \<not> in_compact insn then (in_word insn, False)
      else case lower_scalar insn of Some w \<Rightarrow> (w, False) | None \<Rightarrow> (in_word insn, True))"

section \<open>Compact instructions executed on the spot\<close>

datatype simple_outcome = Simple_skip | Simple_write nat nat u32 | Simple_refuse reason | Simple_none

definition add_or_subtract :: "bool \<Rightarrow> u32 \<Rightarrow> u32 \<Rightarrow> u32" where
  "add_or_subtract subtract left right = (if subtract then left - right else left + right)"

definition of_truth :: "bool \<Rightarrow> u32" where "of_truth c = (if c then 1 else 0)"

definition compact_l2c :: "nat \<Rightarrow> u32 \<Rightarrow> u32 \<Rightarrow> u32" where
  "compact_l2c op left right =
     (if op = 0 then left AND right else if op = 1 then left OR right else if op = 2 then left XOR right
      else if op = 3 then of_truth (left = right) else if op = 4 then of_truth (sint left < sint right)
      else if op = 5 then of_truth (sint left > sint right) else if op = 6 then of_truth (left < right)
      else of_truth (left > right))"

definition compact_lsdx1 :: "nat \<Rightarrow> u32 \<Rightarrow> u32" where
  "compact_lsdx1 op source =
     (if op = 0 then 0 else if op = 1 then 1 else if op = 2 then 0 - source else if op = 3 then source - 1
      else if op = 5 then source + 1 else source XOR 1)"

definition compact_ordered :: "nat \<Rightarrow> u32 \<Rightarrow> u32 \<Rightarrow> u32" where
  "compact_ordered kind constant source =
     (if kind = 0 then of_truth (sint constant < sint source)
      else if kind = 1 then of_truth (sint constant > sint source)
      else if kind = 2 then of_truth (constant < source) else of_truth (constant > source))"

definition compact_bitfield :: "nat \<Rightarrow> nat \<Rightarrow> u32 \<Rightarrow> u32" where
  "compact_bitfield op n source =
     (if op = 0 then shr source (31 - n) AND 1 else if op = 1 then source OR shl 1 n else source AND NOT (shl 1 n))"

definition compact_extend :: "nat \<Rightarrow> u32 \<Rightarrow> u32" where
  "compact_extend kind source =
     (let n = (if odd kind then 8 else 16); v = source AND (shl 1 n - 1)
      in if kind \<ge> 2 then v else sx v n)"

text \<open>Figures G-3, F-22, F-29, F-30, C-18, C-19, C-17, F-23, F-25, F-26, D-5, F-27, F-28, F-24, G-4, D-8,
  D-9, D-10 and D-7, in the order of the code.\<close>

definition compact_simple :: "cpu \<Rightarrow> instruction \<Rightarrow> simple_outcome" where
  "compact_simple cpu insn =
     (let w = in_word insn; rs = hdr_rs insn; side = bits_at w 0 1; cross = (if bit w 12 then 1 - side else side);
          subtract = bit w 11; left = gpr cpu side (reg_rs insn 13); right = gpr cpu cross (reg_rs insn 7);
          here = gpr cpu side (reg_rs insn 7); d13 = reg_rs insn 13; d7 = reg_rs insn 7; d4 = reg_rs insn 4
      in if w AND 0x1C66 = 0x0866 \<and> bits_at w 3 2 \<noteq> 3 then
           (let cc = unat (shr w 14)
            in if (gpr cpu (cc div 2) 0 \<noteq> 0) = odd cc then Simple_skip else Simple_write side d7 (fld w 13 1))
         else if \<not> hdr_br insn \<and> w AND 0x040E = 0x000A then Simple_write side d4 (add_or_subtract subtract left right)
         else if w AND 0x047E = 0x002E then Simple_write side d13 (add_or_subtract subtract left right)
         else if w AND 0x047E = 0x042E then Simple_write side d7 (here + split_constant w)
         else if w AND 0x047E = 0x0436 then Simple_write side d7 (gpr cpu 1 15 + split_constant w * 4)
         else if w AND 0x1C7F = 0x0C77 then
           Simple_write 1 15 (add_or_subtract (bit w 7) (gpr cpu 1 15) ((fld w 13 3 OR shl (fld w 8 2) 3) * 4))
         else if w AND 0x047E = 0x0036 then Simple_write side d13 (add_or_subtract subtract left right)
         else if \<not> hdr_br insn \<and> w AND 0x040E = 0x040A then
           (let encoded = bits_at w 13 3; count = (if encoded = 0 then 16 else if encoded = 7 then 8 else encoded)
            in Simple_write side d4 (shift_32 right count (bits_at w 11 1)))
         else if w AND 0x041E = 0x0402 \<and> w AND 0x047E \<noteq> 0x0462 then
           (if bits_at w 5 2 = 3 then Simple_refuse Reserved_compact_shift
            else Simple_write side d7 (shift_32 here (unat (split_constant w)) (bits_at w 5 2)))
         else if w AND 0x047E = 0x0462 then
           Simple_write side d7 (shift_32 here (unat (left AND 63)) (bits_at w 11 2))
         else if w AND 0x040E = 0x0400 then
           (let imm = fld w 13 3; offset = (if subtract then imm - 8 else if imm \<noteq> 0 then imm else 8)
            in Simple_write side d4 (right + offset))
         else if w AND 0x041E = 2 then
           (let op = bits_at w 5 2
            in if op = 3 then Simple_write side d13 (compact_extend (bits_at w 11 2) here)
               else Simple_write side (if op \<noteq> 0 then d7 else 0) (compact_bitfield op (unat (split_constant w)) here))
         else if w AND 0x001E = 0x0012 then
           Simple_write side d7 (split_constant w OR shl (fld w 5 2) 5 OR shl (fld w 10 1) 7)
         else if w AND 0x1C66 = 0x1866 \<and> bits_at w 13 3 \<noteq> 6 then
           (let u = bits_at w 3 2; op = bits_at w 13 3
            in if u = 3 \<or> op = 4 \<or> op = 2 \<and> u = 2 then Simple_refuse Reserved_compact_lsd
               else Simple_write side d7 (compact_lsdx1 op here))
         else if w AND 0x047E = 0x0426 then Simple_write side d7 (sx (split_constant w) 5)
         else if w AND 0x147E = 0x0026 then Simple_write side (bits_at w 11 1) (of_truth (fld w 13 3 = here))
         else if w AND 0x147E = 0x1026 then
           Simple_write side (bits_at w 11 1 + rs) (compact_ordered (unat (shr w 14)) (fld w 13 1) here)
         else if w AND 0x040E = 0x0408 then
           Simple_write side (bits_at w 4 1) (compact_l2c (4 * bits_at w 11 1 + bits_at w 5 2) left right)
         else Simple_none)"

text \<open>The register-to-register moves of Figures G-1 and G-2 and the plain add and subtract of Figure D-4:
  the destination side and register, and the result.\<close>

definition compact_move :: "instruction \<Rightarrow> bool" where
  "compact_move insn \<longleftrightarrow> in_word insn AND 0x0026 = 0x0006 \<and> bits_at (in_word insn) 3 2 \<noteq> 3"

definition compact_rest :: "cpu \<Rightarrow> instruction \<Rightarrow> simple_outcome" where
  "compact_rest cpu insn =
     (let w = in_word insn; rs = hdr_rs insn; side = bits_at w 0 1; cross = (if bit w 12 then 1 - side else side)
      in if compact_move insn then
           (let ms = 8 * bits_at w 10 2; d = bits_at w 13 3; b = bits_at w 7 3
            in if bit w 6 then Simple_write side (d + ms) (gpr cpu cross (b + rs))
               else Simple_write side (d + rs) (gpr cpu cross (b + ms)))
         else if w AND 0x040E \<noteq> 0 \<or> hdr_sat insn then Simple_refuse Compact_missing
         else Simple_write side (reg_rs insn 4)
                (add_or_subtract (bit w 11) (gpr cpu side (reg_rs insn 13)) (gpr cpu cross (reg_rs insn 7))))"

end
