(* ===== verification/C674x_Issue.thy ===== *)
theory C674x_Issue
  imports C674x_Table C674x_Compact
begin

text \<open>
  The issue half of \<^verbatim>\<open>cdj_c674x_execute\<close>: what the instructions of an execute packet do in E1, to the
  transactional copy \<open>out\<close> and to the state \<open>issue\<close> they share. An instruction is a NOP, a lowered or
  full 32-bit word dispatched through the arm table, or a compact one; the remaining definitions are the
  control register writes of MVC and the scan that forbids a NOP beside SPMASK.
\<close>

section \<open>Registers and control registers\<close>

definition refuse :: "instruction \<Rightarrow> reason \<Rightarrow> stopped + 'a" where
  "refuse insn why = Inl \<lparr>sp_pc = in_pc insn, sp_word = in_word insn, sp_reason = why\<rparr>"

definition on_out :: "(cpu \<Rightarrow> cpu) \<Rightarrow> issue \<Rightarrow> issue" where
  "on_out f st = st\<lparr>out := f (out st)\<rparr>"

definition write_register :: "instruction \<Rightarrow> nat \<Rightarrow> nat \<Rightarrow> u32 \<Rightarrow> issue \<Rightarrow> stopped + issue" where
  "write_register insn side d v st =
     (if written st side d then refuse insn Register_conflict
      else Inr ((on_out (set_reg side d v) st)\<lparr>written := (written st)(side := (written st side)(d := True))\<rparr>))"

text \<open>The effect of an MVC to control register \<open>d\<close>, its conflict with another write of the packet aside:
  AMR, CSR, GFPGFR, the floating-point configurations, SSR, TSCL, IER, ISTP, ITSR, TSR and the plain ones.\<close>

definition control_effect :: "u64 \<Rightarrow> nat \<Rightarrow> u32 \<Rightarrow> cpu \<Rightarrow> cpu" where
  "control_effect now d v o' =
     (let c = control o'
      in if d = 0 then set_ready 0 (now + 2) (set_control 0 (v AND 0x03FFFFFF) o')
         else if d = 1 then
           set_control 27 ((c 27 AND NOT 1) OR (shr v 1 AND 1))
             (set_control 26 ((c 26 AND NOT 1) OR (v AND 1))
               (set_control 1 ((c 1 AND 0xFFFF0100) OR (c 1 AND v AND 0x200) OR (v AND 3)) o'))
         else if d = 24 then set_control 24 (v AND 0x070000FF) o'
         else if d = 18 \<or> d = 19 \<or> d = 20 then set_control d (v AND 0x07FF07FF) o'
         else if d = 21 then set_control 21 (v AND 0x3F) o'
         else if d = 10 then (if control_ready o' 16 = 0 then set_ready 16 (now + 1) o' else o')
         else if d = 4 then set_control 4 ((v AND 0xFFF0) OR ((c 4 OR v) AND 2) OR 1) o'
         else if d = 5 then set_control 5 (v AND 0xFFFFFC00) o'
         else if d = 27 then
           set_control 1 ((c 1 AND NOT 2) OR shl (v AND 1) 1) (set_control 27 (v AND 0xC6DF) o')
         else if d = 26 then
           set_control 1 ((c 1 AND NOT 1) OR (v AND 1)) (set_control 26 ((c 26 AND NOT 3) OR (v AND 3)) o')
         else set_control d v o')"

text \<open>ISR and ICR act on IFR two cycles later, through the delayed-result queue.\<close>

definition interrupt_flag_load :: "u64 \<Rightarrow> nat \<Rightarrow> u32 \<Rightarrow> load" where
  "interrupt_flag_load now d v =
     \<lparr>ld_due = now + 2, ld_value = 0, ld_address = v AND 0xFFF0, ld_bank = 0, ld_dst = 0,
      ld_size = (if d = 2 then DELAYED_IFR_SET else DELAYED_IFR_CLEAR), ld_sign = False\<rparr>"

definition write_control :: "instruction \<Rightarrow> u64 \<Rightarrow> nat \<Rightarrow> u32 \<Rightarrow> issue \<Rightarrow> stopped + issue" where
  "write_control insn now d v st =
     (if controls st d then refuse insn Control_conflict
      else
        (let marked = (\<lambda>st. st\<lparr>controls := (controls st)(d := True)\<rparr>)
         in if d = 2 \<or> d = 3 then
              (if length (loads (out st)) = 40 then refuse insn Load_queue_full
               else Inr (marked (on_out (append_load (interrupt_flag_load now d v)) st)))
            else
              (let st = marked (on_out (control_effect now d v) st)
               in Inr (if d = 13 \<or> d = 14 then on_out (set_ready d (now + 4)) st else st))))"

section \<open>Packet scan and timing\<close>

definition is_spmask :: "instruction \<Rightarrow> bool" where
  "is_spmask insn \<longleftrightarrow> spmask_decode insn \<noteq> None \<or> spmaskr_decode insn"

definition is_multicycle_nop :: "instruction \<Rightarrow> bool" where
  "is_multicycle_nop insn \<longleftrightarrow> nop_cycles insn > 1 \<and> nop_cycles insn \<le> 9"

text \<open>The first instruction that puts a NOP n beside an SPMASK(R) of the packet.\<close>

fun nop_with_spmask :: "bool \<Rightarrow> bool \<Rightarrow> instruction list \<Rightarrow> instruction option" where
  "nop_with_spmask seen_spmask seen_nop [] = None"
| "nop_with_spmask seen_spmask seen_nop (insn # rest) =
     (if is_spmask insn \<and> seen_nop \<or> is_multicycle_nop insn \<and> seen_spmask then Some insn
      else nop_with_spmask (seen_spmask \<or> is_spmask insn) (seen_nop \<or> is_multicycle_nop insn) rest)"

definition with_timing :: "instruction \<Rightarrow> timing option \<Rightarrow> issue \<Rightarrow> stopped + issue" where
  "with_timing insn t st =
     (case t of None \<Rightarrow> refuse insn Multiple_multicycle | Some t \<Rightarrow> Inr (st\<lparr>packet_timing := t\<rparr>))"

definition issue_nop :: "instruction \<Rightarrow> issue \<Rightarrow> stopped + issue" where
  "issue_nop insn st =
     (let n = nop_cycles insn
      in if n = 16 \<and> \<not> in_compact insn then with_timing insn (packet_idle (packet_timing st)) st
         else if n > 9 then refuse insn Reserved_nop_count
         else with_timing insn (packet_nop n (packet_timing st)) st)"

section \<open>Branches and moves of the compact formats\<close>

definition take_branch :: "instruction \<Rightarrow> reason \<Rightarrow> u64 \<Rightarrow> u32 \<Rightarrow> issue \<Rightarrow> stopped + issue" where
  "take_branch insn why t target st =
     (case queue_branch t target (out st) of None \<Rightarrow> refuse insn why | Some o' \<Rightarrow> Inr (st\<lparr>out := o'\<rparr>))"

definition is_callp :: "instruction \<Rightarrow> u32 \<Rightarrow> bool \<Rightarrow> bool" where
  "is_callp insn w compact \<longleftrightarrow>
     \<not> compact \<and> w AND 0xF000007C = 0x10000010 \<or> compact \<and> hdr_br insn \<and> w AND 0x3E = 0x1A"

definition callp_blocked :: "instruction \<Rightarrow> bool" where
  "callp_blocked other \<longleftrightarrow>
     (let w = in_word other
      in \<not> in_compact other \<and> (w AND 0x7C = 0x10 \<or> w AND 0x1FFE = 0x162 \<or> w AND 0xFFE = 0x362 \<or> w AND 0x1FFC = 0x120) \<or>
         compact_branch other)"

definition others :: "packet \<Rightarrow> nat \<Rightarrow> instruction list" where
  "others p i = map snd (List.filter (\<lambda>(j, _). j \<noteq> i) (enumerate 0 (pk_instructions p)))"

definition issue_callp :: "u64 \<Rightarrow> packet \<Rightarrow> nat \<Rightarrow> instruction \<Rightarrow> u32 \<Rightarrow> bool \<Rightarrow> issue \<Rightarrow> stopped + issue" where
  "issue_callp now p i insn w compact st =
     (let side = (if compact then bits_at w 0 1 else bits_at w 1 1);
          offset = (if compact then sx (shr w 6) 10 * 4 else sx (shr w 7 AND 0x1FFFFF) 21 * 4)
      in case packet_multicycle 6 (packet_timing st) of
           None \<Rightarrow> refuse insn Callp_pending
         | Some t \<Rightarrow>
             if branch_due (out st) \<noteq> 0 then refuse insn Callp_pending
             else if list_ex callp_blocked (others p i) then refuse insn Callp_parallel
             else bind (write_register insn side 3 (pk_next_pc p) (st\<lparr>packet_timing := t\<rparr>))
                    (take_branch insn Callp_queue (now + 6) ((in_pc insn AND NOT 31) + offset)))"

text \<open>Figures F-32, F-31 and F-17 to F-21.\<close>

definition issue_compact_bnop_reg :: "cpu \<Rightarrow> instruction \<Rightarrow> issue \<Rightarrow> stopped + issue" where
  "issue_compact_bnop_reg cpu insn st =
     (let w = in_word insn
      in bind (with_timing insn (packet_multicycle (unat (shr w 13) + 1) (packet_timing st)) st)
           (take_branch insn Branch_conflict (cycles cpu + 6) (gpr cpu 1 (bits_at w 7 4))))"

definition issue_compact_ilc :: "cpu \<Rightarrow> instruction \<Rightarrow> issue \<Rightarrow> stopped + issue" where
  "issue_compact_ilc cpu insn st =
     (if controls st 13 then refuse insn Control_conflict
      else Inr ((on_out (set_ready 13 (cycles cpu + 4) \<circ> set_control 13 (gpr cpu 1 (reg_rs insn 7))) st)
                  \<lparr>controls := (controls st)(13 := True)\<rparr>))"

definition issue_compact_bnop :: "cpu \<Rightarrow> instruction \<Rightarrow> issue \<Rightarrow> stopped + issue" where
  "issue_compact_bnop cpu insn st =
     (let w = in_word insn; unsigned_offset = (w AND 0xC000 = 0xC000);
          n = (if unsigned_offset then 5 else unat (shr w 13));
          displacement = (if unsigned_offset then shr w 6 AND 255 else sx (shr w 6 AND 127) 7);
          enabled = (w AND 0x20 = 0 \<or> (gpr cpu (bits_at w 0 1) 0 \<noteq> 0) \<noteq> bit w 4)
      in bind (with_timing insn (packet_multicycle (n + 1) (packet_timing st)) st) (\<lambda>st.
           if enabled then take_branch insn Branch_conflict (cycles cpu + 6) ((in_pc insn AND NOT 31) + displacement * 2) st
           else Inr st))"

section \<open>Compact stack transfers\<close>

definition queue_store :: "instruction \<Rightarrow> store \<Rightarrow> issue \<Rightarrow> stopped + issue" where
  "queue_store insn s st =
     (if length (stores (out st)) = 24 then refuse insn Store_queue_full else Inr (on_out (append_store s) st))"

definition queue_load :: "instruction \<Rightarrow> (load \<Rightarrow> bool) \<Rightarrow> load \<Rightarrow> issue \<Rightarrow> stopped + issue" where
  "queue_load insn conflict l st =
     (if length (loads (out st)) = 40 then refuse insn Load_queue_full
      else if list_ex conflict (loads (out st)) then refuse insn Parallel_load_conflict
      else Inr (on_out (append_load l) st))"

definition plain_load :: "u64 \<Rightarrow> u32 \<Rightarrow> nat \<Rightarrow> nat \<Rightarrow> nat \<Rightarrow> load" where
  "plain_load now address bank d sz =
     \<lparr>ld_due = now + 5, ld_value = 0, ld_address = address, ld_bank = bank, ld_dst = d, ld_size = sz, ld_sign = False\<rparr>"

definition plain_store :: "u64 \<Rightarrow> u32 \<Rightarrow> u64 \<Rightarrow> nat \<Rightarrow> store" where
  "plain_store now address data sz = \<lparr>st_due = now + 3, st_data = data, st_at = address, st_encoded = sz\<rparr>"

text \<open>The E1 check of an access: a load is read once and dropped, a store asked without committing.\<close>

definition probe :: "'m cpu_bus \<Rightarrow> bool \<Rightarrow> u32 \<Rightarrow> u64 \<Rightarrow> nat \<Rightarrow> 'm \<Rightarrow> bool \<times> 'm" where
  "probe bus is_load address data sz m =
     (if is_load then (case read_scalar bus address sz m of (r, m) \<Rightarrow> (r \<noteq> None, m))
      else case bus_wr bus m address data sz False of None \<Rightarrow> (False, m) | Some m \<Rightarrow> (True, m))"

text \<open>Figure C-16.\<close>

definition issue_b15 :: "'m cpu_bus \<Rightarrow> cpu \<Rightarrow> instruction \<Rightarrow> issue \<Rightarrow> 'm \<Rightarrow> (stopped + issue) \<times> 'm" where
  "issue_b15 bus cpu insn st m =
     (let w = in_word insn; st = st\<lparr>memory_count := memory_count st + 1\<rparr>; ld = bit w 3; bank = bits_at w 12 1;
          d = reg_rs insn 4; offset = fld w 13 2 OR shl (fld w 7 3) 2; address = gpr cpu 1 15 + offset * 4;
          data = ucast (gpr cpu bank d); now = cycles cpu;
          (ok, m) = (if address AND 3 \<noteq> 0 then (False, m) else probe bus ld address data 4 m)
      in if \<not> ok then (refuse insn Unmapped_stack_transfer, m)
         else if ld then
           (queue_load insn (\<lambda>l. ld_due l = now + 5 \<and> ld_bank l = bank \<and> ld_dst l = d) (plain_load now address bank d 4) st, m)
         else (queue_store insn (plain_store now address data 4) st, m))"

text \<open>Figure C-21.\<close>

definition issue_stack :: "'m cpu_bus \<Rightarrow> cpu \<Rightarrow> instruction \<Rightarrow> issue \<Rightarrow> 'm \<Rightarrow> (stopped + issue) \<times> 'm" where
  "issue_stack bus cpu insn st m =
     (let w = in_word insn; st = st\<lparr>memory_count := memory_count st + 1\<rparr>; bank = bits_at w 12 1; d = bits_at w 7 4;
          sz = (if bit w 15 then 8 else 4); ld = bit w 14; old_sp = gpr cpu 1 15;
          delta = of_nat (sz * (bits_at w 13 1 + 1)); address = (if ld then old_sp + delta else old_sp);
          data = ucast (gpr cpu bank d) OR (if sz = 8 then shl (ucast (gpr cpu bank (d + 1))) 32 else 0);
          now = cycles cpu
      in if address AND of_nat (sz - 1) \<noteq> 0 \<or> sz = 8 \<and> odd d then (refuse insn Bad_stack_access, m)
         else case probe bus ld address data sz m of (ok, m) \<Rightarrow>
           if \<not> ok then (refuse insn Unmapped_stack_access, m)
           else if written st 1 15 then (refuse insn Register_conflict, m)
           else
             (bind (if ld then queue_load insn (\<lambda>l. result_conflict [l] (now + 5) bank d (if sz = 8 then 2 else 1))
                             (plain_load now address bank d sz) st
                    else queue_store insn (plain_store now address data sz) st)
                (write_register insn 1 15 (if ld then address else old_sp - delta)), m))"

definition issue_compact :: "'m cpu_bus \<Rightarrow> cpu \<Rightarrow> instruction \<Rightarrow> issue \<Rightarrow> 'm \<Rightarrow> (stopped + issue) \<times> 'm" where
  "issue_compact bus cpu insn st m =
     (let w = in_word insn;
          commit = (\<lambda>outcome. case outcome of
             Simple_skip \<Rightarrow> Inr st
           | Simple_refuse why \<Rightarrow> refuse insn why
           | Simple_write side d v \<Rightarrow> write_register insn side d v st
           | Simple_none \<Rightarrow> Inr st)
      in case compact_simple cpu insn of
           Simple_none \<Rightarrow>
             if w AND 0x187F = 0x006F then (issue_compact_bnop_reg cpu insn st, m)
             else if w AND 0xFC7F = 0xD86F then (issue_compact_ilc cpu insn st, m)
             else if hdr_br insn \<and> (w AND 0x3E = 0x0A \<or> w AND 0x2E = 0x2A) then (issue_compact_bnop cpu insn st, m)
             else if w AND 0x8C07 = 0x8C05 then issue_b15 bus cpu insn st m
             else if w AND 0x087F = 0x0077 then issue_stack bus cpu insn st m
             else (commit (compact_rest cpu insn), m)
         | outcome \<Rightarrow> (commit outcome, m))"

section \<open>Full instructions\<close>

definition issue_gate :: "cpu \<Rightarrow> packet \<Rightarrow> nat \<Rightarrow> instruction \<Rightarrow> interrupt_gate \<Rightarrow> issue \<Rightarrow> stopped + issue" where
  "issue_gate cpu p i insn gate st =
     (if list_ex (interrupt_gate_parallel_conflict gate) (others p i) then refuse insn Interrupt_gate_conflict
      else if gate = Gate_disable then
        Inr (on_out (\<lambda>o'. set_control 1 (control o' 1 AND NOT 1)
               (set_control 26 ((control o' 26 AND NOT 3) OR shl (control cpu 1 AND 1) 1) o')) st)
      else
        (let gie = shr (control cpu 26) 1 AND 1
         in Inr (on_out (\<lambda>o'. set_control 1 ((control o' 1 AND NOT 1) OR gie)
                  (set_control 26 ((control o' 26 AND NOT 3) OR gie) o')) st)))"

text \<open>The predicate registers A0 to A2 and B0 to B2 by their creg code.\<close>

definition predicate_holds :: "cpu \<Rightarrow> nat \<Rightarrow> bool \<Rightarrow> bool" where
  "predicate_holds cpu creg z \<longleftrightarrow>
     creg = 0 \<or> (gpr cpu ([0, 1, 1, 1, 0, 0, 0] ! creg) ([0, 0, 1, 2, 1, 2, 0] ! creg) \<noteq> 0) \<noteq> z"

definition decode_arm :: "cpu \<Rightarrow> packet \<Rightarrow> nat \<Rightarrow> instruction \<Rightarrow> u32 \<Rightarrow> issue \<Rightarrow> arm" where
  "decode_arm cpu p i insn w st =
     (let side = bits_at w 1 1
      in issue.extend st (arm.fields cpu p i insn w (in_pc insn) 0 side (bits_at w 23 5) (bits_at w 13 5) (bits_at w 18 5)
           (if bit w 12 then 1 - side else side) (w AND 0xFFC) (predicate_holds cpu (unat (shr w 29)) (bit w 28))
           True False (w AND 12 = 12)))"

text \<open>What the dispatcher commits after an arm: the register, or the control register, it left to be written.\<close>

definition commit_arm :: "arm \<Rightarrow> stopped + issue" where
  "commit_arm x =
     (let insn = x_insn x;
          r = (if x_enabled x \<and> x_reg_write x then write_register insn (x_side x) (x_dst x) (x_value x) (issue.truncate x)
               else Inr (issue.truncate x))
      in if x_enabled x \<and> x_control_write x then bind r (write_control insn (cycles (x_cpu x)) (x_dst x) (x_value x)) else r)"

definition issue_full ::
  "'m cpu_bus \<Rightarrow> cpu \<Rightarrow> packet \<Rightarrow> nat \<Rightarrow> instruction \<Rightarrow> u32 \<Rightarrow> issue \<Rightarrow> 'm \<Rightarrow> (stopped + issue) \<times> 'm" where
  "issue_full bus cpu p i insn w st m =
     (let creg = unat (shr w 29); z = bit w 28; u = uncond_classify w
      in if creg = 7 \<or> creg = 0 \<and> z \<and> u = UNCOND_NONE then (refuse insn Reserved_predicate, m)
         else if u = UNCOND_UNIMPLEMENTED then (refuse insn Not_implemented, m)
         else if u \<noteq> UNCOND_NONE \<and> u \<noteq> UNCOND_ARM_TABLE then
           (let adda = adda_long u w (gpr cpu 1 14) (gpr cpu 1 15)
            in (write_register insn (unat (al_side adda)) (unat (al_dst adda)) (al_result adda) st, m))
         else
           (let x = decode_arm cpu p i insn w st
            in case arm_lookup x of
                 None \<Rightarrow> (refuse insn Not_implemented, m)
               | Some e \<Rightarrow> (case en_run e bus x m of (r, m) \<Rightarrow> (bind r commit_arm, m))))"

section \<open>One instruction, and the packet\<close>

definition issue_one ::
  "'m cpu_bus \<Rightarrow> cpu \<Rightarrow> packet \<Rightarrow> nat \<Rightarrow> instruction \<Rightarrow> issue \<Rightarrow> 'm \<Rightarrow> (stopped + issue) \<times> 'm" where
  "issue_one bus cpu p i insn st m =
     (if is_spmask insn then (if i \<noteq> 0 then refuse insn Spmask_position else Inr st, m)
      else if nop_cycles insn \<noteq> 0 then (issue_nop insn st, m)
      else case (if protected_load insn then with_timing insn (packet_protected_load (packet_timing st)) st else Inr st) of
          Inl e \<Rightarrow> (Inl e, m)
        | Inr st \<Rightarrow>
            (case lower insn of (w, compact) \<Rightarrow>
               if is_callp insn w compact then (issue_callp (cycles cpu) p i insn w compact st, m)
               else if compact then issue_compact bus cpu insn st m
               else case interrupt_gate_decode insn of
                   Gate_none \<Rightarrow> issue_full bus cpu p i insn w st m
                 | gate \<Rightarrow> (issue_gate cpu p i insn gate st, m)))"

fun issue_packet ::
  "'m cpu_bus \<Rightarrow> cpu \<Rightarrow> packet \<Rightarrow> nat \<Rightarrow> instruction list \<Rightarrow> issue \<Rightarrow> 'm \<Rightarrow> (stopped + issue) \<times> 'm" where
  "issue_packet bus cpu p i [] st m = (Inr st, m)"
| "issue_packet bus cpu p i (insn # rest) st m =
     (case issue_one bus cpu p i insn st m of
        (Inl e, m) \<Rightarrow> (Inl e, m)
      | (Inr st, m) \<Rightarrow> issue_packet bus cpu p (i + 1) rest st m)"

definition issue_start :: "cpu \<Rightarrow> issue" where
  "issue_start cpu =
     \<lparr>out = cpu, written = (\<lambda>_ _. False), controls = (\<lambda>_. False), packet_timing = timing_init, memory_count = 0,
      nonaligned_memory = False, bdec_issued = False\<rparr>"

end
