(* ===== verification/C674x_Fetch.thy ===== *)
theory C674x_Fetch
  imports C674x_Format
begin

text \<open>
  \<^verbatim>\<open>cdj_c674x_fetch\<close>: the execute packet at the program counter. A fetch packet is 32 bytes; when its last
  word is a header (top nibble 14), the header says which words hold two 16-bit instructions and which of
  these run in parallel with the next. Nothing of the CPU but \<open>pc\<close> is read.
\<close>

section \<open>Fetch\<close>

definition slot_after :: "bool \<Rightarrow> u32 \<Rightarrow> u32" where
  "slot_after mixed next_pc = (if mixed \<and> next_pc AND 31 = 28 then next_pc + 4 else next_pc)"

lemma header_slot_left: "(a :: u32) AND 31 = 28 \<Longrightarrow> (a + 4) AND 31 = 0"
proof -
  have m: "unat (w AND 31) = unat w mod 32" for w :: u32
  proof -
    have "w AND 31 = w AND mask 5" by (simp add: mask_eq_exp_minus_1)
    then show ?thesis by (simp add: unsigned_and_eq unsigned_take_bit_eq flip: take_bit_eq_mask, simp add: take_bit_eq_mod)
  qed
  assume "a AND 31 = 28"
  then have a: "unat a mod 32 = 28" using m [of a] by simp
  have "unat (a + 4) = (unat a + 4) mod 2 ^ 32" by (simp add: unat_word_ariths)
  then have "unat (a + 4) mod 32 = (unat a + 4) mod 32" by (simp add: mod_mod_cancel)
  also have "\<dots> = (unat a mod 32 + 4) mod 32" by (simp only: mod_add_left_eq)
  also have "\<dots> = 0" by (simp add: a)
  finally have "unat ((a + 4) AND 31) = 0" using m [of "a + 4"] by simp
  then show "(a + 4) AND 31 = 0" by (simp only: unat_eq_zero)
qed

definition fetch_measure :: "u32 \<Rightarrow> instruction list \<Rightarrow> nat" where
  "fetch_measure next_pc insns = 2 * (8 - length insns) + (if next_pc AND 31 = 28 then 1 else 0)"

text \<open>The loop. \<open>cached\<close> is the header last read with its address; \<open>insns\<close> what has been collected. A step
  that only skips a header word leaves the fetch packet, so the next step collects or stops.\<close>

function fetch_loop ::
  "'m cpu_bus \<Rightarrow> (u32 \<times> u32) option \<Rightarrow> u32 \<Rightarrow> instruction list \<Rightarrow> 'm \<Rightarrow> (stopped + instruction list \<times> u32) \<times> 'm" where
  "fetch_loop bus cached next_pc insns m =
     (let quit = (\<lambda>word why m. (Inl \<lparr>sp_pc = next_pc, sp_word = word, sp_reason = why\<rparr>, m));
          block = (next_pc AND NOT 31) + 28
      in if next_pc AND 1 \<noteq> 0 then quit 0 Unaligned_fetch m
         else case (case cached of Some (at, header) \<Rightarrow> if at = block then Some (header, m) else bus_rd bus m block
                      | None \<Rightarrow> bus_rd bus m block) of
             None \<Rightarrow> quit 0 Unmapped_fetch m
           | Some (header, m) \<Rightarrow>
               (let mixed = (shr header 28 = 14); slot = unat (next_pc AND 31) div 4;
                    short = (mixed \<and> bit header (21 + slot))
                in if mixed \<and> next_pc AND 31 = 28 then fetch_loop bus (Some (block, header)) (next_pc + 4) insns m
                   else if mixed \<and> next_pc AND 31 = 30 then quit header Points_into_header m
                   else if \<not> short \<and> next_pc AND 3 \<noteq> 0 then quit 0 Unaligned_full_fetch m
                   else case bus_rd bus m (next_pc AND NOT 3) of
                       None \<Rightarrow> quit 0 Unmapped_fetch m
                     | Some (word, m) \<Rightarrow>
                         if length insns \<ge> 8 then quit word Nine_instructions m
                         else
                           (let word = (if short then shr word (unat (next_pc AND 2) * 8) AND 0xFFFF else word);
                                parallel = (if short then bit header (unat (next_pc AND 31) div 2) else bit word 0);
                                insn = \<lparr>in_word = word, in_pc = next_pc, in_header = (if mixed then header else 0),
                                        in_compact = short\<rparr>;
                                after = slot_after mixed (next_pc + (if short then 2 else 4))
                            in if parallel then fetch_loop bus (Some (block, header)) after (insns @ [insn]) m
                               else (Inr (insns @ [insn], after), m))))"
  by auto

termination
proof (relation "measure (\<lambda>(bus, cached, next_pc, insns, m). fetch_measure next_pc insns)")
qed (auto simp: fetch_measure_def header_slot_left)

declare fetch_loop.simps [simp del]

definition fetch :: "'m cpu_bus \<Rightarrow> u32 \<Rightarrow> 'm \<Rightarrow> (stopped + packet) \<times> 'm" where
  "fetch bus start m =
     (case fetch_loop bus None start [] m of
        (Inl e, m) \<Rightarrow> (Inl e, m)
      | (Inr (insns, next_pc), m) \<Rightarrow> (Inr \<lparr>pk_instructions = insns, pk_next_pc = next_pc, pk_single_cycle = False\<rparr>, m))"

end
