(* ===== verification/C674x_Execute.thy ===== *)
theory C674x_Execute
  imports C674x_Issue C674x_Fetch
begin

text \<open>
  \<^verbatim>\<open>cdj_c674x_execute\<close>: issue, the conflict checks on the whole packet, and the cycles it takes. In each
  cycle the board's clock ticks, due stores are written, loads are sampled two cycles ahead and due results
  retired, and a due branch is taken. \<open>Inl\<close> leaves the committed processor alone but for the fault.
\<close>

section \<open>Conflicts\<close>

text \<open>A load and a store that reach memory in the same cycle at a common byte.\<close>

definition transfer_bytes_of :: "u32 \<Rightarrow> nat \<Rightarrow> u32 list" where
  "transfer_bytes_of address encoded =
     map (\<lambda>l. circular_address address (address + of_nat l) (encoded div 256)) [0..<encoded mod 256]"

definition overlapping_access :: "load \<Rightarrow> store \<Rightarrow> bool" where
  "overlapping_access l s \<longleftrightarrow>
     queued_memory_load l \<and> ld_due l - 2 = st_due s \<and>
     list_ex (\<lambda>a. a \<in> set (transfer_bytes_of (st_at s) (st_encoded s))) (transfer_bytes_of (ld_address l) (ld_size l))"

text \<open>The conflict of a delayed result due in this packet's cycle with what the packet wrote.\<close>

definition delayed_conflict :: "u64 \<Rightarrow> issue \<Rightarrow> load \<Rightarrow> reason option" where
  "delayed_conflict now st l =
     (let n = queued_result_registers l; due_now = (ld_due l = now + 1)
      in if n \<noteq> 0 \<and> due_now \<and> (written st (ld_bank l) (ld_dst l) \<or> n = 2 \<and> written st (ld_bank l) (ld_dst l + 1))
         then Some Delayed_result_conflict
         else if ld_size l = 0 \<and> ld_address l \<noteq> 0 \<and> due_now \<and> controls st (if ld_sign l then 20 else 18)
         then Some Delayed_status_conflict
         else if ld_size l = DELAYED_FAUCR \<and> due_now \<and> controls st 19 then Some Delayed_status_conflict
         else None)"

definition packet_conflict :: "u64 \<Rightarrow> issue \<Rightarrow> reason option" where
  "packet_conflict now st =
     (if nonaligned_memory st \<and> memory_count st > 1 then Some Parallel_nonaligned
      else if list_ex (\<lambda>l. list_ex (overlapping_access l) (stores (out st))) (loads (out st)) then Some Overlapping_memory
      else case List.map_filter (delayed_conflict now st) (loads (out st)) of why # _ \<Rightarrow> Some why | [] \<Rightarrow> None)"

section \<open>Retirement\<close>

text \<open>Due stores are written in queue order; \<open>None\<close> is a store that passed its check and then failed.\<close>

fun retire_stores :: "'m cpu_bus \<Rightarrow> u64 \<Rightarrow> store list \<Rightarrow> 'm \<Rightarrow> store list option \<times> 'm" where
  "retire_stores bus now [] m = (Some [], m)"
| "retire_stores bus now (s # ss) m =
     (if st_due s > now then (case retire_stores bus now ss m of (kept, m) \<Rightarrow> (map_option ((#) s) kept, m))
      else case write_transfer bus (st_at s) (st_data s) (st_encoded s) True m of
          (False, m) \<Rightarrow> (None, m)
        | (True, m) \<Rightarrow> retire_stores bus now ss m)"

text \<open>The sample of a memory load in E3.\<close>

definition sample_load :: "'m cpu_bus \<Rightarrow> u64 \<Rightarrow> load \<Rightarrow> 'm \<Rightarrow> load option \<times> 'm" where
  "sample_load bus now l m =
     (if queued_memory_load l \<and> ld_due l = now + 2 then
        (case read_transfer bus (ld_address l) (ld_size l) m of
           (None, m) \<Rightarrow> (None, m)
         | (Some data, m) \<Rightarrow>
             (Some (l\<lparr>ld_value := (if ld_sign l then scast (sx (ucast data) (ld_size l mod 256 * 8)) else data)\<rparr>), m))
      else (Some l, m))"

definition interrupt_flag_effect :: "u64 \<Rightarrow> load \<Rightarrow> bool" where
  "interrupt_flag_effect now l \<longleftrightarrow> ld_due l \<le> now \<and> (ld_size l = DELAYED_IFR_SET \<or> ld_size l = DELAYED_IFR_CLEAR)"

text \<open>All due IFR effects at once: a set wins over a clear.\<close>

definition flag_mask :: "nat \<Rightarrow> u64 \<Rightarrow> load list \<Rightarrow> u32" where
  "flag_mask kind now ls =
     fold (\<lambda>l m. if ld_due l \<le> now \<and> ld_size l = kind then m OR ld_address l else m) ls 0"

definition apply_flags :: "load list \<Rightarrow> cpu \<Rightarrow> cpu" where
  "apply_flags ls cpu =
     set_control 2 (((control cpu 2 AND NOT (flag_mask DELAYED_IFR_CLEAR (cycles cpu) ls)) OR
       flag_mask DELAYED_IFR_SET (cycles cpu) ls) AND 0xFFF2) cpu"

text \<open>A due result of any other kind: the saturation status, the FAUCR status, or registers with the
  floating-point status of a size 0 entry.\<close>

definition retire_result :: "load \<Rightarrow> cpu \<Rightarrow> cpu" where
  "retire_result l cpu =
     (if ld_size l = DELAYED_SAT then
        set_control 21 (control cpu 21 OR (ld_address l AND 0x3F)) (set_control 1 (control cpu 1 OR 0x200) cpu)
      else if ld_size l = DELAYED_FAUCR then set_control 19 (control cpu 19 OR ld_address l) cpu
      else
        (let cpu = set_reg (ld_bank l) (ld_dst l) (ucast (ld_value l)) cpu;
             cpu = (if queued_result_registers l = 2
                    then set_reg (ld_bank l) (ld_dst l + 1) (ucast (shr (ld_value l) 32)) cpu else cpu);
             status = (if ld_sign l then 20 else 18)
         in if ld_size l = 0 then set_control status (control cpu status OR ld_address l) cpu else cpu))"

lemma fewer_after_flags:
  assumes "interrupt_flag_effect now l"
  shows "length (List.filter (\<lambda>l. \<not> interrupt_flag_effect now l) (kept @ l # rest)) < length kept + length (l # rest)"
  using assms add_mono [OF length_filter_le [of "\<lambda>l. \<not> interrupt_flag_effect now l" kept]
    length_filter_le [of "\<lambda>l. \<not> interrupt_flag_effect now l" rest]]
  by simp

text \<open>The queue is walked once, \<open>kept\<close> the entries that stay; an IFR effect restarts the walk.\<close>

function retire_loads :: "'m cpu_bus \<Rightarrow> cpu \<Rightarrow> load list \<Rightarrow> load list \<Rightarrow> 'm \<Rightarrow> cpu option \<times> 'm" where
  "retire_loads bus cpu kept [] m = (Some (cpu\<lparr>loads := kept\<rparr>), m)"
| "retire_loads bus cpu kept (l0 # rest) m =
     (case sample_load bus (cycles cpu) l0 m of
        (None, m) \<Rightarrow> (None, m)
      | (Some l, m) \<Rightarrow>
          if ld_due l > cycles cpu then retire_loads bus cpu (kept @ [l]) rest m
          else if interrupt_flag_effect (cycles cpu) l0 then
            retire_loads bus (apply_flags (l0 # rest) cpu) []
              (List.filter (\<lambda>l. \<not> interrupt_flag_effect (cycles cpu) l) (kept @ l0 # rest)) m
          else retire_loads bus (retire_result l cpu) kept rest m)"
  by pat_completeness auto

termination
  by (relation "measures [\<lambda>(bus, cpu, kept, rest, m). length kept + length rest, \<lambda>(bus, cpu, kept, rest, m). length rest]")
    (use fewer_after_flags in \<open>fastforce simp del: filter_append List.filter.simps\<close>)+

declare retire_loads.simps [simp del]

section \<open>Cycles\<close>

text \<open>A due branch: the program counter, the loop buffer it leaves, and the next queued branch.\<close>

definition next_branch :: "cpu \<Rightarrow> cpu" where
  "next_branch cpu =
     (case branch_queue cpu of
        (t, target) # rest \<Rightarrow> cpu\<lparr>branch_due := t, branch_target := target, branch_queue := rest\<rparr>
      | [] \<Rightarrow> cpu\<lparr>branch_due := 0\<rparr>)"

definition complete_branch :: "cpu \<Rightarrow> stopped + cpu" where
  "complete_branch cpu =
     (let cpu = cpu\<lparr>pc := branch_target cpu\<rparr>
      in if loop_active cpu \<and> loop_retained_valid cpu then
           Inl \<lparr>sp_pc = pc cpu, sp_word = 0, sp_reason = Branch_out_of_nested_loop\<rparr>
         else
           (let cpu = (if loop_active cpu then loop_clear_interrupt_phase (loop_set_active False cpu) else cpu)
            in Inr ((next_branch cpu)\<lparr>idle_cycles := 0\<rparr>)))"

text \<open>One cycle; the boolean says that a branch ended the packet.\<close>

definition run_cycle :: "'m cpu_bus \<Rightarrow> u32 \<Rightarrow> cpu \<Rightarrow> 'm \<Rightarrow> (stopped + bool \<times> cpu) \<times> 'm" where
  "run_cycle bus at cpu m =
     (let quit = (\<lambda>why. Inl \<lparr>sp_pc = at, sp_word = 0, sp_reason = why\<rparr>);
          cpu = cpu\<lparr>cycles := cycles cpu + 1\<rparr>
      in case retire_stores bus (cycles cpu) (stores cpu) (bus_tick bus m) of
           (None, m) \<Rightarrow> (quit Store_commit_broken, m)
         | (Some ss, m) \<Rightarrow>
             (let cpu = cpu\<lparr>stores := ss\<rparr>
              in case retire_loads bus cpu [] (loads cpu) m of
                   (None, m) \<Rightarrow> (quit Load_mapping_changed, m)
                 | (Some cpu, m) \<Rightarrow>
                     (if branch_due cpu \<noteq> 0 \<and> cycles cpu = branch_due cpu
                      then bind (complete_branch cpu) (\<lambda>cpu. Inr (True, cpu)) else Inr (False, cpu), m)))"

fun run_cycles :: "'m cpu_bus \<Rightarrow> u32 \<Rightarrow> nat \<Rightarrow> cpu \<Rightarrow> 'm \<Rightarrow> (stopped + cpu) \<times> 'm" where
  "run_cycles bus at 0 cpu m = (Inr cpu, m)"
| "run_cycles bus at (Suc n) cpu m =
     (case run_cycle bus at cpu m of
        (Inl e, m) \<Rightarrow> (Inl e, m)
      | (Inr (branched, cpu), m) \<Rightarrow> if branched then (Inr cpu, m) else run_cycles bus at n cpu m)"

section \<open>Execute\<close>

text \<open>The cycles a packet issues itself, and the state it starts them in.\<close>

definition packet_state :: "packet \<Rightarrow> issue \<Rightarrow> nat \<times> cpu" where
  "packet_state p st =
     (let o' = out st; t = packet_timing st; split = (pk_single_cycle p \<and> tm_cycles t > 1);
          o' = (if split then o'\<lparr>idle_cycles := of_nat (tm_cycles t) - 1\<rparr> else o');
          o' = (if tm_idle t then o'\<lparr>idle_cycles := IDLE_FOREVER\<rparr> else o')
      in (if split then 1 else tm_cycles t, o'\<lparr>pc := pk_next_pc p\<rparr>))"

definition execute :: "'m cpu_bus \<Rightarrow> cpu \<Rightarrow> packet \<Rightarrow> 'm \<Rightarrow> (stopped + cpu) \<times> 'm" where
  "execute bus cpu p m =
     (let quit = (\<lambda>why. Inl \<lparr>sp_pc = pc cpu, sp_word = 0, sp_reason = why\<rparr>)
      in case fault cpu of
           Some why \<Rightarrow> (Inl \<lparr>sp_pc = fault_pc cpu, sp_word = fault_word cpu, sp_reason = why\<rparr>, m)
         | None \<Rightarrow>
             if length (pk_instructions p) > 8 then (quit Packet_too_long, m)
             else case nop_with_spmask False False (pk_instructions p) of
                 Some insn \<Rightarrow> (refuse insn Nop_with_spmask, m)
               | None \<Rightarrow>
                   (case issue_packet bus cpu p 0 (pk_instructions p) (issue_start cpu) m of
                      (Inl e, m) \<Rightarrow> (Inl e, m)
                    | (Inr st, m) \<Rightarrow>
                        (case packet_conflict (cycles cpu) st of
                           Some why \<Rightarrow> (quit why, m)
                         | None \<Rightarrow>
                             (case packet_state p st of (n, o') \<Rightarrow>
                                (case run_cycles bus (pc cpu) n o' m of
                                   (Inl e, m) \<Rightarrow> (Inl e, m)
                                 | (Inr o', m) \<Rightarrow> (Inr (o'\<lparr>packets := packets o' + 1\<rparr>), m))))))"

end
