(* ===== verification/C674x_Interrupt.thy ===== *)
theory C674x_Interrupt
  imports C674x_Format
begin

text \<open>
  \<^verbatim>\<open>cdj_c674x_interrupt\<close>: the maskable CPU interrupts INT4 to INT15. Requests latch in IFR; one is taken when
  GIE and NMIE allow it and no branch is pending. In an active software loop it is armed at a stage boundary and
  entered when the loop has drained. Unlike a step, a call that stops keeps the state it had reached, so the
  result is a boolean and the processor. \<open>ft\<close> is the functional timing mode.
\<close>

section \<open>Recognition\<close>

text \<open>The lowest numbered request is the one with the highest priority.\<close>

definition first_request :: "u32 \<Rightarrow> nat" where
  "first_request eligible = (case List.find (bit eligible) [4..<32] of Some i \<Rightarrow> i | None \<Rightarrow> 0)"

definition eligible_requests :: "cpu \<Rightarrow> u32" where
  "eligible_requests cpu = control cpu 2 AND control cpu 4 AND 0xFFF0"

definition stop_here :: "reason \<Rightarrow> cpu \<Rightarrow> cpu" where
  "stop_here why cpu = stop \<lparr>sp_pc = pc cpu, sp_word = 0, sp_reason = why\<rparr> cpu"

text \<open>Whether the loop buffer is at a stage boundary at which it may be interrupted.\<close>

definition loop_interruptible :: "cpu \<Rightarrow> bool" where
  "loop_interruptible cpu \<longleftrightarrow>
     (let lp = loop_state cpu; boundary_cycle = lp_cycle lp + 1;
          boundary = (lp_sealed lp \<and> lp_ii lp \<noteq> 0 \<and> boundary_cycle mod ucast (lp_ii lp) = 0);
          opening = (boundary_cycle < 4);
          terminating = (if lp_predicate_loop lp then boundary_cycle \<ge> 4 \<and> loop_pred_history cpu AND 4 = 0
                         else lp_cycle lp \<ge> ucast (lp_iterations lp) * ucast (lp_ii lp));
          loading_stages = (lp_length lp + lp_ii lp - 1) div lp_ii lp;
          enough_ilc = (lp_predicate_loop lp \<or> control cpu 13 \<ge> loading_stages)
      in boundary \<and> \<not> opening \<and> \<not> terminating \<and> enough_ilc)"

definition arm_loop_interrupt :: "u32 \<Rightarrow> cpu \<Rightarrow> bool \<times> cpu" where
  "arm_loop_interrupt eligible cpu =
     (if loop_immediate_reload cpu then (False, stop_here Reload_restart cpu)
      else if loop_interrupt_armed cpu \<or> loop_interrupt_draining cpu then (True, cpu)
      else if \<not> loop_interruptible cpu then (True, cpu)
      else if loop_context cpu AND LOOP_CONTEXT_VALID = 0 then (False, stop_here Setup_address_unavailable cpu)
      else case loop_capture_retained cpu of
          None \<Rightarrow> (False, stop_here Retained_buffer_invalid cpu)
        | Some cpu \<Rightarrow> (True, loop_set_interrupt_phase (first_request eligible) LOOP_INTERRUPT_ARMED cpu))"

section \<open>Entry\<close>

text \<open>Table 5-3: TSR is saved in ITSR and the return address in IRP, the request is cleared, and the processor
  continues at the interrupt's fetch packet.\<close>

definition saved_tsr :: "bool \<Rightarrow> cpu \<Rightarrow> u32" where
  "saved_tsr in_loop cpu =
     (let saved = ((control cpu 26 AND 0xC6DE) OR (control cpu 1 AND 1)) AND NOT (shl 1 15)
      in if in_loop then saved OR TSR_SPLX else saved AND NOT TSR_SPLX)"

definition enter_interrupt :: "bool \<Rightarrow> nat \<Rightarrow> cpu \<Rightarrow> cpu" where
  "enter_interrupt in_loop interrupt cpu =
     (let saved = saved_tsr in_loop cpu; return_pc = (if in_loop then loop_setup_pc cpu else pc cpu);
          cpu = set_control 27 saved cpu;
          cpu = set_control 6 return_pc cpu;
          cpu = set_control 2 (control cpu 2 AND NOT (shl 1 interrupt)) cpu;
          cpu = loop_clear_interrupt_phase cpu;
          cpu = set_control 1 ((control cpu 1 AND NOT 3) OR shl (saved AND 1) 1) cpu;
          cpu = set_control 26 ((saved AND (shl 1 4 OR shl 1 2)) OR shl 1 15 OR shl 1 9) cpu
      in cpu\<lparr>pc := (control cpu 5 AND 0xFFFFFC00) + of_nat interrupt * 32\<rparr>)"

definition take_interrupt :: "bool \<Rightarrow> u32 \<Rightarrow> cpu \<Rightarrow> bool \<times> cpu" where
  "take_interrupt ft eligible cpu =
     (let draining = loop_interrupt_draining cpu; selected = loop_selected_interrupt cpu;
          stale = (draining \<and> (selected < 4 \<or> selected > 15 \<or> \<not> bit eligible selected));
          cpu = (if stale then loop_clear_retained (loop_clear_interrupt_phase cpu) else cpu);
          in_loop = (draining \<and> \<not> stale)
      in if stale \<and> eligible = 0 then (True, cpu)
         else
           (let cpu = enter_interrupt in_loop (if in_loop then selected else first_request eligible) cpu
            in case interrupt_pipe_down ft cpu of
                 None \<Rightarrow> (False, stop_here Pipe_down_overflow cpu)
               | Some cpu \<Rightarrow> (True, cpu)))"

definition interrupt :: "bool \<Rightarrow> u32 \<Rightarrow> cpu \<Rightarrow> bool \<times> cpu" where
  "interrupt ft pending cpu =
     (if fault cpu \<noteq> None then (False, cpu)
      else if pending AND NOT 0xFFF0 \<noteq> 0 then (False, stop_here Invalid_interrupt_mask cpu)
      else
        (let cpu = set_control 2 ((control cpu 2 OR pending) AND 0xFFF0) cpu; eligible = eligible_requests cpu
         in if control cpu 1 AND 1 = 0 \<or> control cpu 4 AND 2 = 0 \<or> eligible = 0 then
              (True, if \<not> loop_active cpu \<and> loop_interrupt_draining cpu then loop_clear_interrupt_phase cpu else cpu)
            else if branch_due cpu \<noteq> 0 \<or> branch_queue cpu \<noteq> [] then (True, cpu)
            else if loop_active cpu then arm_loop_interrupt eligible cpu
            else if bit (control cpu 26) 9 then (False, stop_here Nested_interrupt cpu)
            else take_interrupt ft eligible cpu))"

end
