(* ===== verification/C674x_Step.thy ===== *)
theory C674x_Step
  imports C674x_Execute C674x_Interrupt
begin

text \<open>
  \<^verbatim>\<open>cdj_c674x_step\<close>: a fetched packet is executed, or sets up the software loop; while the loop buffer is active
  \<^verbatim>\<open>loop_step\<close> loads, issues and drains it; an idle processor issues an empty packet. A step that fails leaves
  the committed processor alone but for the fault. \<open>ft\<close> is the functional timing mode.
\<close>

section \<open>Loading the loop buffer\<close>

text \<open>What the walk over a loading packet has found: the processor being built, the kernel mark and its fetch
  delay, the tags to load, and the instructions executed once.\<close>

record loop_scan =
  sc_out :: cpu
  sc_finish :: bool
  sc_protect :: bool
  sc_delay :: u32
  sc_tags :: "u32 list"
  sc_direct :: "instruction list"

definition is_kernel_reload :: "instruction \<Rightarrow> bool" where
  "is_kernel_reload insn \<longleftrightarrow> \<not> in_compact insn \<and> in_word insn AND NOT 1 = 0x36000"

definition is_kernel :: "instruction \<Rightarrow> bool" where
  "is_kernel insn \<longleftrightarrow>
     \<not> in_compact insn \<and> in_word insn AND 0xF03FFFFC = 0x34000 \<or>
     in_compact insn \<and> in_word insn AND 0x3C7E = 0x1C66 \<or> is_kernel_reload insn"

text \<open>The stage and cycle field of SPKERNEL: the low bits count cycles below \<open>ii\<close>, the high ones are the
  stage with its bits reversed.\<close>

definition kernel_field :: "instruction \<Rightarrow> u32" where
  "kernel_field insn =
     (let w = in_word insn
      in if is_kernel_reload insn then 0
         else if in_compact insn then shl (w AND 1) 5 OR (shr w 7 AND 7) OR shl (shr w 14 AND 3) 3
         else shr w 22 AND 63)"

definition cycle_bits :: "u32 \<Rightarrow> nat" where
  "cycle_bits ii = (case List.find (\<lambda>c. \<not> shl 1 c < ii) [0..<32] of Some c \<Rightarrow> c | None \<Rightarrow> 32)"

definition kernel_stage :: "nat \<Rightarrow> u32 \<Rightarrow> u32" where
  "kernel_stage cbits field = fold (\<lambda>j stage. stage OR shl (shr field j AND 1) (5 - j)) (rev [cbits..<6]) 0"

definition scan_kernel :: "bool \<Rightarrow> nat \<Rightarrow> instruction \<Rightarrow> loop_scan \<Rightarrow> stopped + loop_scan" where
  "scan_kernel reload i insn sc =
     (if i \<noteq> 0 then refuse insn Kernel_position
      else if reload \<noteq> is_kernel_reload insn then refuse insn Reload_boundary
      else
        (let lp = loop_state (sc_out sc); field = kernel_field insn; cbits = cycle_bits (lp_ii lp);
             stage = kernel_stage cbits field; cycle = field AND (shl 1 cbits - 1);
             delay = stage * lp_ii lp + cycle
         in if cycle \<ge> lp_ii lp then refuse insn Invalid_kernel_cycle
            else if lp_predicate_loop lp \<and> delay \<noteq> 0 then refuse insn While_delay
            else Inr (sc\<lparr>sc_finish := True, sc_delay := delay\<rparr>)))"

text \<open>The NOP count of an instruction that loads nothing; a returning loop counts BNOP with an immediate target
  as one. \<open>None\<close> is a reserved predicate.\<close>

definition scan_nops :: "bool \<Rightarrow> instruction \<Rightarrow> nat option" where
  "scan_nops returning insn =
     (let w = in_word insn
      in if returning \<and> \<not> in_compact insn \<and> w AND 0x1FFC = 0x120 then
           (if shr w 29 = 7 \<or> shr w 29 = 0 \<and> bit w 28 then None else Some (bits_at w 13 3 + 1))
         else if returning \<and> in_compact insn \<and> hdr_br insn \<and> (w AND 0x3E = 0x0A \<or> w AND 0x2E = 0x2A) then
           Some (if w AND 0xC000 = 0xC000 then 6 else unat (shr w 13) + 1)
         else Some (nop_cycles insn))"

text \<open>The four loading cycles of a protected load, shared by those of one packet.\<close>

definition scan_protect :: "instruction \<Rightarrow> loop_scan \<Rightarrow> stopped + loop_scan" where
  "scan_protect insn sc =
     (if \<not> protected_load insn then Inr sc
      else if sc_finish sc \<or> loop_wait (sc_out sc) \<noteq> 0 \<and> \<not> sc_protect sc then refuse insn Invalid_loop_load
      else Inr (sc\<lparr>sc_out := (sc_out sc)\<lparr>loop_wait := 4\<rparr>, sc_protect := True\<rparr>))"

definition loop_body_control :: "instruction \<Rightarrow> bool" where
  "loop_body_control insn \<longleftrightarrow>
     (let w = in_word insn
      in \<not> in_compact insn \<and> (w AND 0x1FFE = 0x162 \<or> w AND 0x7C = 0x10 \<or> w AND 0xFFE = 0x362 \<or> w AND 0x1FFC = 0x120) \<or>
         compact_branch insn)"

definition loop_body_mvc :: "instruction \<Rightarrow> bool" where
  "loop_body_mvc insn \<longleftrightarrow>
     (if in_compact insn then in_word insn AND 0xFC7F = 0xD86F else in_word insn AND 0xFFE = 0x3A2)"

definition scan_store :: "bool \<Rightarrow> instruction \<Rightarrow> loop_scan \<Rightarrow> stopped + loop_scan" where
  "scan_store returning insn sc =
     (let o' = sc_out sc
      in if returning \<and> loop_retained_valid o' then
           (case loop_retained_tag o' insn of
              None \<Rightarrow> refuse insn Retained_mismatch
            | Some tag \<Rightarrow> Inr (sc\<lparr>sc_tags := sc_tags sc @ [of_nat tag]\<rparr>))
         else if loop_tags o' = 112 then refuse insn Loop_capacity
         else
           Inr (sc\<lparr>sc_tags := sc_tags sc @ [of_nat (loop_tags o')],
                   sc_out := o'\<lparr>loop_instructions := (loop_instructions o')(loop_tags o' := insn),
                                loop_tags := loop_tags o' + 1\<rparr>\<rparr>))"

text \<open>An instruction that is neither mask, kernel nor NOP: annulled, executed once, or stored.\<close>

definition scan_operation :: "bool \<Rightarrow> u32 option \<Rightarrow> instruction \<Rightarrow> loop_scan \<Rightarrow> stopped + loop_scan" where
  "scan_operation returning spmask insn sc =
     (let masks = (case spmask of None \<Rightarrow> False | Some m \<Rightarrow> m \<noteq> 0); u = instruction_unit insn;
          masked = (masks \<and> u AND the spmask \<noteq> 0)
      in if masks \<and> u = 0 then refuse insn Spmask_unit
         else bind (scan_protect insn sc) (\<lambda>sc.
           if masked \<and> returning then Inr sc
           else
             (let kept = (if protected_load insn then insn\<lparr>in_header := in_header insn AND NOT (shl 1 20)\<rparr> else insn)
              in if loop_body_control kept then refuse insn Loop_control_missing
                 else if masked then Inr (sc\<lparr>sc_direct := sc_direct sc @ [kept]\<rparr>)
                 else if loop_body_mvc insn then refuse insn Loop_mvc
                 else scan_store returning kept sc)))"

definition scan_instruction ::
  "bool \<Rightarrow> bool \<Rightarrow> u32 option \<Rightarrow> nat \<Rightarrow> instruction \<Rightarrow> loop_scan \<Rightarrow> stopped + loop_scan" where
  "scan_instruction reload returning spmask i insn sc =
     (if spmaskr_decode insn then refuse insn Spmaskr_reload
      else if spmask_decode insn \<noteq> None then (if i \<noteq> 0 then refuse insn Spmask_position else Inr sc)
      else if is_kernel insn then scan_kernel reload i insn sc
      else if sc_finish sc \<and> interrupt_gate_decode insn \<noteq> Gate_none then refuse insn Gate_with_kernel
      else case scan_nops returning insn of
          None \<Rightarrow> refuse insn Reserved_predicate
        | Some n \<Rightarrow>
            if n \<noteq> 0 then
              (if n > 9 \<or> n > 1 \<and> (sc_finish sc \<or> loop_wait (sc_out sc) \<noteq> 0) then refuse insn Invalid_loop_nop
               else Inr (if n > 1 then sc\<lparr>sc_out := (sc_out sc)\<lparr>loop_wait := n - 1\<rparr>\<rparr> else sc))
            else scan_operation returning spmask insn sc)"

fun scan_packet ::
  "bool \<Rightarrow> bool \<Rightarrow> u32 option \<Rightarrow> nat \<Rightarrow> instruction list \<Rightarrow> loop_scan \<Rightarrow> stopped + loop_scan" where
  "scan_packet reload returning spmask i [] sc = Inr sc"
| "scan_packet reload returning spmask i (insn # rest) sc =
     bind (scan_instruction reload returning spmask i insn sc) (scan_packet reload returning spmask (i + 1) rest)"

section \<open>The loop step\<close>

definition quit_at :: "cpu \<Rightarrow> reason \<Rightarrow> stopped + 'a" where
  "quit_at cpu why = Inl \<lparr>sp_pc = pc cpu, sp_word = 0, sp_reason = why\<rparr>"

definition on_loop :: "(loop_buf \<Rightarrow> loop_buf) \<Rightarrow> cpu \<Rightarrow> cpu" where
  "on_loop f cpu = cpu\<lparr>loop_state := f (loop_state cpu)\<rparr>"

abbreviation (input) returning_now :: "cpu \<Rightarrow> bool" where
  "returning_now cpu \<equiv> loop_pred_history cpu AND LOOP_RETURNING \<noteq> 0"

definition loading_stages :: "loop_buf \<Rightarrow> u32" where
  "loading_stages lp = (lp_length lp + lp_ii lp - 1) div lp_ii lp"

definition span_of :: "loop_buf \<Rightarrow> u64" where
  "span_of lp = ucast (lp_iterations lp) * ucast (lp_ii lp)"

text \<open>The seal of an SPKERNELR loop: it runs to the boundary after its last iteration.\<close>

definition seal_reload :: "cpu \<Rightarrow> reason + cpu" where
  "seal_reload cpu =
     (let lp = loop_state cpu
      in if lp_iterations lp < loading_stages lp \<or> span_of lp < 4 then Inl Reload_count_short
         else
           Inr (on_loop (\<lambda>lp. lp\<lparr>lp_end_cycle := (if lp_end_cycle lp < span_of lp then span_of lp else lp_end_cycle lp),
                                 lp_post_cycle := UINT64_MAX\<rparr>) cpu))"

definition seal_returned :: "cpu \<Rightarrow> reason + cpu" where
  "seal_returned cpu =
     (if loop_retained_valid cpu \<and> \<not> loop_retained_schedule_complete cpu then Inl Retained_schedule_mismatch
      else Inr (loop_clear_retained (cpu\<lparr>loop_pred_history := loop_pred_history cpu AND NOT LOOP_RETURNING\<rparr>)))"

text \<open>The loading half of a loop step: a packet is fetched and stored, or a wait cycle passes. The result is the
  processor, the next fetch address, the mask, and the instructions to execute once.\<close>

record loop_loaded =
  ll_cpu :: cpu
  ll_next_pc :: u32
  ll_mask :: u32
  ll_direct :: "instruction list"

definition load_packet :: "bool \<Rightarrow> cpu \<Rightarrow> cpu \<Rightarrow> packet \<Rightarrow> stopped + loop_loaded" where
  "load_packet ft cpu o' source =
     (let reload = loop_immediate_reload o'; returning = returning_now o';
          spmask = spmask_decode (hd (pk_instructions source));
          o' = o'\<lparr>loop_packets := loop_packets o' + 1\<rparr>;
          o' = (if spmask \<noteq> None then set_ready LOOP_CONTEXT (loop_context o' OR LOOP_HAS_SPMASK) o' else o')
      in bind (scan_packet reload returning spmask 0 (pk_instructions source)
                 \<lparr>sc_out = o', sc_finish = False, sc_protect = False, sc_delay = 0, sc_tags = [], sc_direct = []\<rparr>) (\<lambda>sc.
           case loop_load ft (loop_state (sc_out sc)) (sc_tags sc) (sc_finish sc) (sc_delay sc) of
             None \<Rightarrow> quit_at cpu Invalid_loop_packet
           | Some lp \<Rightarrow>
               (let o' = (sc_out sc)\<lparr>loop_state := lp\<rparr>;
                    r = (if sc_finish sc \<and> reload then seal_reload o' else Inr o');
                    r = (case r of Inl why \<Rightarrow> Inl why
                           | Inr o' \<Rightarrow> if sc_finish sc \<and> returning then seal_returned o' else Inr o')
                in case r of
                     Inl why \<Rightarrow> quit_at cpu why
                   | Inr o' \<Rightarrow>
                       Inr \<lparr>ll_cpu = o', ll_next_pc = pk_next_pc source,
                            ll_mask = (case spmask of None \<Rightarrow> 0 | Some m \<Rightarrow> m), ll_direct = sc_direct sc\<rparr>)))"

definition loop_loading :: "bool \<Rightarrow> 'm cpu_bus \<Rightarrow> cpu \<Rightarrow> cpu \<Rightarrow> 'm \<Rightarrow> (stopped + loop_loaded) \<times> 'm" where
  "loop_loading ft bus cpu o' m =
     (let still = (\<lambda>o'. \<lparr>ll_cpu = o', ll_next_pc = pc cpu, ll_mask = 0, ll_direct = []\<rparr>)
      in if lp_sealed (loop_state o') then (Inr (still o'), m)
         else if loop_wait o' = 0 then
           (case fetch bus (pc o') m of
              (Inl e, m) \<Rightarrow> (Inl e, m)
            | (Inr source, m) \<Rightarrow> (load_packet ft cpu o' source, m))
         else
           (case loop_load ft (loop_state o') [] False 0 of
              None \<Rightarrow> (quit_at cpu Loop_length, m)
            | Some lp \<Rightarrow> (Inr (still (o'\<lparr>loop_wait := loop_wait o' - 1, loop_state := lp\<rparr>)), m)))"

text \<open>The program memory beside a draining loop: its packets are executed with what the buffer issues.\<close>

fun post_instructions :: "instruction list \<Rightarrow> stopped + instruction list" where
  "post_instructions [] = Inr []"
| "post_instructions (insn # rest) =
     (if spmaskr_decode insn then refuse insn Spmaskr_reload
      else if spmask_decode insn \<noteq> None then refuse insn Spmask_position
      else bind (post_instructions rest) (\<lambda>is. Inr (insn # is)))"

definition count_idle :: "cpu \<Rightarrow> cpu" where
  "count_idle cpu =
     (if idle_cycles cpu \<noteq> IDLE_FOREVER then cpu\<lparr>idle_cycles := idle_cycles cpu - 1\<rparr> else cpu)"

definition loop_post :: "bool \<Rightarrow> 'm cpu_bus \<Rightarrow> loop_loaded \<Rightarrow> 'm \<Rightarrow> (stopped + loop_loaded) \<times> 'm" where
  "loop_post post bus ll m =
     (let o' = ll_cpu ll
      in if post \<and> \<not> loop_interrupt_draining o' \<and> idle_cycles o' = 0 then
           (case fetch bus (pc o') m of
              (Inl e, m) \<Rightarrow> (Inl e, m)
            | (Inr source, m) \<Rightarrow>
                (let spmask = spmask_decode (hd (pk_instructions source));
                     body = (if spmask \<noteq> None then tl (pk_instructions source) else pk_instructions source)
                 in (bind (post_instructions body) (\<lambda>is.
                       Inr (ll\<lparr>ll_next_pc := pk_next_pc source, ll_direct := ll_direct ll @ is,
                               ll_mask := (case spmask of None \<Rightarrow> ll_mask ll | Some m \<Rightarrow> m)\<rparr>)), m)))
         else (Inr (if idle_cycles o' \<noteq> 0 then ll\<lparr>ll_cpu := count_idle o'\<rparr> else ll), m))"

text \<open>The cycle's issue from the buffer, with what is executed once beside it.\<close>

definition loop_issue :: "loop_loaded \<Rightarrow> (issue_result \<times> loop_buf) option" where
  "loop_issue ll =
     (let o' = ll_cpu ll; lp = loop_state o'; m = (if returning_now o' then 0 else ll_mask ll); r = control_ready o'
      in if loop_immediate_reload o' \<and> lp_sealed lp then
           loop_issue_reload lp (r RELOAD_CURRENT_START) (r RELOAD_OLD_START) (r RELOAD_OLD_END) (r RELOAD_POST_END)
             (loop_allow o' m)
         else loop_issue_filtered lp (loop_allow o' m))"

definition combine_packet :: "cpu \<Rightarrow> loop_loaded \<Rightarrow> issue_result \<Rightarrow> stopped + packet" where
  "combine_packet cpu ll r =
     (let o' = ll_cpu ll
      in if masking_unknown o' (if returning_now o' then 0 else ll_mask ll) (is_tags r) then quit_at cpu Buffered_spmask_unit
         else if length (is_tags r) + length (ll_direct ll) > 8 then quit_at cpu Loop_packet_capacity
         else
           Inr \<lparr>pk_instructions = map (loop_instructions o' \<circ> unat) (is_tags r) @ ll_direct ll,
                pk_next_pc = ll_next_pc ll, pk_single_cycle = True\<rparr>)"

definition loop_condition :: "cpu \<Rightarrow> cpu \<Rightarrow> bool" where
  "loop_condition cpu o' \<longleftrightarrow> (gpr cpu (loop_pred_bank o') (loop_pred_reg o') \<noteq> 0) \<noteq> loop_pred_invert o'"

text \<open>SPLOOPW ends at a stage boundary whose condition was false three cycles earlier.\<close>

definition while_ends :: "cpu \<Rightarrow> bool" where
  "while_ends o' \<longleftrightarrow>
     (let lp = loop_state o'
      in lp_predicate_loop lp \<and> lp_cycle lp \<ge> 4 \<and> lp_cycle lp mod ucast (lp_ii lp) = 0 \<and> loop_pred_history o' AND 4 = 0)"

definition reload_local :: "cpu \<Rightarrow> u64" where
  "reload_local o' = lp_cycle (loop_state o') - control_ready o' RELOAD_CURRENT_START"

definition reload_boundary :: "cpu \<Rightarrow> bool" where
  "reload_boundary o' \<longleftrightarrow> lp_sealed (loop_state o') \<and> reload_local o' = span_of (loop_state o')"

definition reload_taken :: "cpu \<Rightarrow> cpu \<Rightarrow> bool" where
  "reload_taken cpu o' \<longleftrightarrow> reload_boundary o' \<and> loop_pred_history cpu AND 0x800 \<noteq> 0"

definition next_history :: "cpu \<Rightarrow> cpu \<Rightarrow> u32" where
  "next_history cpu o' =
     (let c = loop_condition cpu o'
      in if loop_immediate_reload o' then
           (loop_pred_history cpu AND 0xFF) OR (shl (loop_pred_history cpu AND 0xF00) 1 AND 0xF00) OR (if c then 0x100 else 0)
         else
           (loop_pred_history o' AND LOOP_RETURNING) OR ((shl (loop_pred_history o' AND 7) 1 OR (if c then 1 else 0)) AND 7))"

text \<open>The refusals of a reload boundary.\<close>

definition reload_refusal :: "cpu \<Rightarrow> cpu \<Rightarrow> reason option" where
  "reload_refusal cpu o' =
     (let lp = loop_state o'; rilc = control o' 14
      in if reload_boundary o' \<and> lp_cycle lp > UINT64_MAX - ucast (lp_length lp) then Some Post_body_overflow
         else if reload_taken cpu o' \<and>
           (control_ready o' RELOAD_OLD_END > lp_cycle lp \<or> rilc < loading_stages lp \<or> cycles o' < control_ready o' 14 \<or>
            ucast rilc * ucast (lp_ii lp) > UINT64_MAX - lp_cycle lp - ucast (lp_length lp)) then Some Reload_overlap
         else None)"

text \<open>After the packet, at a boundary of an immediate reload: the next invocation, with the count RILC held
  before the packet, or the end of the last one; between boundaries ILC counts the stages.\<close>

definition start_invocation :: "u32 \<Rightarrow> cpu \<Rightarrow> cpu" where
  "start_invocation rilc o' =
     (let lp = loop_state o'; start = control_ready o' RELOAD_CURRENT_START;
          o' = set_ready RELOAD_CURRENT_START (lp_cycle lp)
                 (set_ready RELOAD_OLD_END (lp_end_cycle lp) (set_ready RELOAD_OLD_START start o'));
          o' = set_control 13 (rilc - 1) o';
          end_cycle = lp_cycle lp + ucast (rilc - 1) * ucast (lp_ii lp) + ucast (lp_length lp);
          last_boundary = lp_cycle lp + ucast rilc * ucast (lp_ii lp)
      in on_loop (\<lambda>lp. lp\<lparr>lp_iterations := rilc,
                          lp_end_cycle := (if end_cycle < last_boundary then last_boundary else end_cycle)\<rparr>) o')"

definition reload_stage :: "bool \<Rightarrow> bool \<Rightarrow> u32 \<Rightarrow> cpu \<Rightarrow> cpu" where
  "reload_stage boundary taken rilc o' =
     (let lp = loop_state o'
      in if reload_local o' mod ucast (lp_ii lp) \<noteq> 0 then o'
         else if boundary then
           (let o' = on_loop (\<lambda>lp. lp\<lparr>lp_post_cycle := lp_cycle lp\<rparr>)
                       (set_ready RELOAD_POST_END (lp_cycle lp + ucast (lp_length lp)) o')
            in if taken then start_invocation rilc o' else o')
         else if control o' 13 \<noteq> 0 then set_control 13 (control o' 13 - 1) o' else o')"

text \<open>ILC after the cycle of a loop that does not reload.\<close>

definition count_stage :: "bool \<Rightarrow> bool \<Rightarrow> cpu \<Rightarrow> cpu" where
  "count_stage scheduler_post interrupted o' =
     (let lp = loop_state o'; launched = 1 + lp_cycle lp div ucast (lp_ii lp)
      in if lp_delayed_count lp then
           (if \<not> scheduler_post \<and> \<not> interrupted \<and> lp_cycle lp \<ge> 4 \<and> lp_cycle lp mod ucast (lp_ii lp) = 0 \<and> control o' 13 \<noteq> 0
            then set_control 13 (control o' 13 - 1) o' else o')
         else if \<not> lp_predicate_loop lp \<and> \<not> interrupted then
           set_control 13 (if launched < ucast (lp_iterations lp) then ucast (ucast (lp_iterations lp) - launched) else 0) o'
         else o')"

text \<open>A branch that matures while an immediate reload is active does not idle the buffer.\<close>

definition close_post_window :: "cpu \<Rightarrow> cpu" where
  "close_post_window o' =
     (let o' = loop_set_active True o'; now = lp_cycle (loop_state o')
      in if control_ready o' RELOAD_POST_END > now then set_ready RELOAD_POST_END now o' else o')"

text \<open>The end of the cycle: the drain an armed interrupt asked for, and the ends of the loop.\<close>

definition start_drain :: "cpu \<Rightarrow> cpu option" where
  "start_drain o' =
     (case loop_interrupt_drain (loop_state o') of
        None \<Rightarrow> None
      | Some lp \<Rightarrow>
          (let o' = o'\<lparr>loop_state := lp\<rparr>
           in Some (loop_set_interrupt_phase (loop_selected_interrupt o') LOOP_INTERRUPT_DRAINING o')))"

definition end_while_loop :: "bool \<Rightarrow> cpu \<Rightarrow> cpu" where
  "end_while_loop draining o' =
     (let o' = loop_set_active False o' in if draining then loop_clear_retained (loop_clear_interrupt_phase o') else o')"

definition loop_finish ::
  "cpu \<Rightarrow> issue_result \<Rightarrow> cpu \<Rightarrow> cpu \<Rightarrow> stopped + cpu" where
  "loop_finish cpu r before o' =
     (let reload = loop_immediate_reload before; armed = loop_interrupt_armed before;
          draining = loop_interrupt_draining before; taken = reload \<and> reload_taken cpu before;
          o' = (if reload \<and> branch_due cpu \<noteq> 0 \<and> branch_due cpu = cycles cpu + 1 then close_post_window o' else o');
          o' = (if reload then reload_stage (reload_boundary before) taken (control before 14) o'
                else count_stage (is_post_fetch r) (armed \<or> draining) o')
      in case (if armed then start_drain o' else Some o') of
           None \<Rightarrow> quit_at cpu Interrupt_drain_invalid
         | Some o' \<Rightarrow>
             (let o' = (if while_ends before then end_while_loop draining o' else o')
              in Inr (if is_drained r \<and> (if reload then \<not> taken else is_post_fetch r) \<and>
                         (\<not> draining \<or> loads o' = [] \<and> stores o' = [])
                      then loop_set_active False o' else o')))"

definition loop_step :: "bool \<Rightarrow> 'm cpu_bus \<Rightarrow> cpu \<Rightarrow> 'm \<Rightarrow> (stopped + cpu) \<times> 'm" where
  "loop_step ft bus cpu m =
     (let o' = set_control 26 (control cpu 26 OR TSR_SPLX) cpu; lp = loop_state o';
          post = (lp_sealed lp \<and> lp_cycle lp \<ge> lp_post_cycle lp \<and>
                  (\<not> loop_immediate_reload o' \<or> lp_cycle lp < control_ready o' RELOAD_POST_END))
      in case loop_loading ft bus cpu o' m of
           (Inl e, m) \<Rightarrow> (Inl e, m)
         | (Inr ll, m) \<Rightarrow>
           (case loop_post post bus ll m of
              (Inl e, m) \<Rightarrow> (Inl e, m)
            | (Inr ll, m) \<Rightarrow>
              (case loop_issue ll of
                 None \<Rightarrow> (quit_at cpu Loop_issue_capacity, m)
               | Some (r, lp) \<Rightarrow>
                 (case combine_packet cpu ll r of
                    Inl e \<Rightarrow> (Inl e, m)
                  | Inr p \<Rightarrow>
                    (let o' = (ll_cpu ll)\<lparr>loop_state := lp\<rparr>
                     in if while_ends o' \<and> \<not> lp_sealed lp then (quit_at cpu While_ends_loading, m)
                        else case (if loop_immediate_reload o' then reload_refusal cpu o' else None) of
                            Some why \<Rightarrow> (quit_at cpu why, m)
                          | None \<Rightarrow>
                            (case execute bus (o'\<lparr>loop_pred_history := next_history cpu o'\<rparr>) p m of
                               (Inl e, m) \<Rightarrow> (Inl e, m)
                             | (Inr after, m) \<Rightarrow> (loop_finish cpu r o' after, m)))))))"

section \<open>Setting up a loop\<close>

datatype loop_kind = No_loop | Counted_loop | Delayed_loop | While_loop

definition loop_kind_of :: "instruction \<Rightarrow> loop_kind" where
  "loop_kind_of insn =
     (let w = in_word insn
      in if in_compact insn then
           (if w AND 0xBC7F = 0x0C66 then Counted_loop else if w AND 0xBC7F = 0x0C67 then Delayed_loop else No_loop)
         else if w AND 0x007FFFFC = 0x38000 then Counted_loop
         else if w AND 0x007FFFFC = 0x3A000 then Delayed_loop
         else if w AND 0x007FFFFE = 0x3E000 then While_loop else No_loop)"

definition sploopd_reload :: "instruction \<Rightarrow> bool" where
  "sploopd_reload insn \<longleftrightarrow> in_compact insn \<and> in_word insn AND 0xBC7E = 0x8C66"

definition setup_interval :: "instruction \<Rightarrow> u32" where
  "setup_interval insn =
     (let w = in_word insn
      in if in_compact insn then ((shr w 7 AND 7) OR (shr w 11 AND 8)) + 1 else (shr w 23 AND 31) + 1)"

definition setup_predicate :: "instruction \<Rightarrow> nat" where
  "setup_predicate insn = (if in_compact insn then 0 else unat (shr (in_word insn) 29))"

definition bad_loop_predicate :: "loop_kind \<Rightarrow> bool \<Rightarrow> bool \<Rightarrow> instruction \<Rightarrow> bool" where
  "bad_loop_predicate kind reload returning insn \<longleftrightarrow>
     (let pred = setup_predicate insn
      in if kind = While_loop then pred = 0 \<or> pred = 7
         else if reload then pred = 7 \<or> returning
         else \<not> in_compact insn \<and> shr (in_word insn) 28 \<noteq> 0)"

text \<open>An instruction that may not share the packet of the loop setup.\<close>

definition setup_offence :: "instruction \<Rightarrow> reason option" where
  "setup_offence insn =
     (let v = in_word insn
      in if spmask_decode insn \<noteq> None then Some Spmask_with_setup
         else if protected_load insn \<or> nop_cycles insn > 1 \<or> interrupt_gate_decode insn \<noteq> Gate_none \<or>
           (\<not> in_compact insn \<and> (v AND 0xFFE = 0x362 \<or> v AND 0x7C = 0x10 \<or> v AND 0x1FFC = 0x120)) \<or> compact_branch insn
         then Some Multicycle_setup else None)"

fun setup_offender :: "instruction list \<Rightarrow> (instruction \<times> reason) option" where
  "setup_offender [] = None"
| "setup_offender (insn # rest) =
     (case setup_offence insn of Some why \<Rightarrow> Some (insn, why) | None \<Rightarrow> setup_offender rest)"

text \<open>The predicate of SPLOOPW and of a reloading SPLOOP, with the condition the code samples at setup.\<close>

definition set_predicate :: "instruction \<Rightarrow> cpu \<Rightarrow> cpu" where
  "set_predicate insn o' =
     (let pred = setup_predicate insn
      in o'\<lparr>loop_pred_bank := [0, 1, 1, 1, 0, 0, 0] ! pred, loop_pred_reg := [0, 0, 1, 2, 1, 2, 0] ! pred,
            loop_pred_invert := bit (in_word insn) 28\<rparr>)"

definition setup_history :: "loop_kind \<Rightarrow> bool \<Rightarrow> bool \<Rightarrow> cpu \<Rightarrow> cpu \<Rightarrow> u32" where
  "setup_history kind reload returning cpu o' =
     (let history = (if returning then LOOP_RETURNING else 0)
      in if kind = While_loop then history OR 7
         else if reload \<and> loop_condition cpu o' then 0x100 else history)"

definition setup_state :: "loop_kind \<Rightarrow> bool \<Rightarrow> bool \<Rightarrow> instruction \<Rightarrow> loop_buf \<Rightarrow> cpu \<Rightarrow> cpu" where
  "setup_state kind reload returning insn lp cpu =
     (let o' = loop_set_setup (in_pc insn) returning (cpu\<lparr>loop_state := lp\<rparr>);
          o' = (if reload then
                  set_ready RELOAD_CURRENT_START 0 (set_ready RELOAD_OLD_END 0 (set_ready RELOAD_OLD_START 0
                    (set_ready RELOAD_POST_END 0 (set_ready LOOP_CONTEXT (loop_context o' OR LOOP_IMMEDIATE_RELOAD) o'))))
                else o');
          o' = on_loop (\<lambda>lp. lp\<lparr>lp_predicate_loop := (kind = While_loop),
                                lp_delayed_count := (kind = Delayed_loop \<and> \<not> returning)\<rparr>) o';
          o' = (if reload \<or> kind = While_loop then set_predicate insn o' else o')
      in o'\<lparr>loop_pred_history := setup_history kind reload returning cpu o'\<rparr>)"

text \<open>After the packet of the setup: the count of SPLOOPD, whether a branch left the loop at once, and the
  first stage of ILC.\<close>

definition setup_finish :: "loop_kind \<Rightarrow> bool \<Rightarrow> instruction \<Rightarrow> cpu \<Rightarrow> cpu \<Rightarrow> stopped + cpu" where
  "setup_finish kind returning insn cpu o' =
     (let delayed = (kind = Delayed_loop \<and> \<not> returning); ii = setup_interval insn; minimum = (4 + ii - 1) div ii
      in if delayed \<and> control o' 13 > 0xFFFFFFFF - minimum then
           Inl \<lparr>sp_pc = pc cpu, sp_word = in_word insn, sp_reason = Sploopd_overflow\<rparr>
         else
           (let o' = (if delayed then on_loop (\<lambda>lp. lp\<lparr>lp_iterations := control o' 13 + minimum\<rparr>) o' else o');
                active = (\<not> (branch_due cpu \<noteq> 0 \<and> cycles o' \<ge> branch_due cpu));
                o' = (if active then loop_set_active True o'
                      else
                        (let o' = o'\<lparr>loop_active := False\<rparr>
                         in if returning then o' else set_control 26 (control o' 26 AND NOT TSR_SPLX) o'));
                o' = o'\<lparr>loop_wait := 0, loop_packets := 0,
                        loop_tags := (if loop_retained_valid o' then loop_retained_tags o' else 0)\<rparr>
            in Inr (if kind \<noteq> While_loop \<and> \<not> delayed \<and> control o' 13 \<noteq> 0
                    then set_control 13 (control o' 13 - 1) o' else o')))"

definition loop_setup :: "'m cpu_bus \<Rightarrow> cpu \<Rightarrow> packet \<Rightarrow> loop_kind \<Rightarrow> 'm \<Rightarrow> (stopped + cpu) \<times> 'm" where
  "loop_setup bus cpu p kind m =
     (let insn = hd (pk_instructions p); rest = tl (pk_instructions p);
          quit = (\<lambda>why. (Inl \<lparr>sp_pc = pc cpu, sp_word = in_word insn, sp_reason = why\<rparr>, m));
          returning = (control cpu 26 AND TSR_SPLX \<noteq> 0); delayed = (kind = Delayed_loop \<and> \<not> returning);
          reload = (\<not> in_compact insn \<and> kind = Counted_loop \<and> setup_predicate insn \<noteq> 0); ii = setup_interval insn
      in if bad_loop_predicate kind reload returning insn then quit Loop_predicate
         else if kind \<noteq> While_loop \<and> \<not> delayed \<and> cycles cpu < control_ready cpu 13 then quit Ilc_not_ready
         else if reload \<and> branch_due cpu \<noteq> 0 then quit Reload_branch_pending
         else case loop_init ii (control cpu 13) of
             None \<Rightarrow> quit Invalid_loop_interval
           | Some lp \<Rightarrow>
               if returning \<and> loop_retained_valid cpu \<and> unat ii \<noteq> loop_retained_ii cpu then quit Return_interval_mismatch
               else case setup_offender rest of
                   Some (other, why) \<Rightarrow> (refuse other why, m)
                 | None \<Rightarrow>
                     (case execute bus (setup_state kind reload returning insn lp cpu)
                             (p\<lparr>pk_instructions := (if returning then [] else rest)\<rparr>) m of
                        (Inl e, m) \<Rightarrow> (Inl e, m)
                      | (Inr o', m) \<Rightarrow> (setup_finish kind returning insn cpu o', m)))"

section \<open>Step\<close>

definition step :: "bool \<Rightarrow> 'm cpu_bus \<Rightarrow> cpu \<Rightarrow> 'm \<Rightarrow> (stopped + cpu) \<times> 'm" where
  "step ft bus cpu m =
     (case fault cpu of
        Some why \<Rightarrow> (Inl \<lparr>sp_pc = fault_pc cpu, sp_word = fault_word cpu, sp_reason = why\<rparr>, m)
      | None \<Rightarrow>
          if loop_active cpu then loop_step ft bus cpu m
          else if idle_cycles cpu \<noteq> 0 then
            execute bus (count_idle cpu) \<lparr>pk_instructions = [], pk_next_pc = pc cpu, pk_single_cycle = True\<rparr> m
          else
            (case fetch bus (pc cpu) m of
               (Inl e, m) \<Rightarrow> (Inl e, m)
             | (Inr p, m) \<Rightarrow>
                 (let insn = hd (pk_instructions p)
                  in if sploopd_reload insn then (Inl \<lparr>sp_pc = pc cpu, sp_word = in_word insn, sp_reason = Sploopd_reload\<rparr>, m)
                     else if loop_kind_of insn = No_loop then execute bus cpu p m
                     else loop_setup bus cpu p (loop_kind_of insn) m)))"

text \<open>The step of the committed processor: a failing one records its fault.\<close>

definition step_cpu :: "bool \<Rightarrow> 'm cpu_bus \<Rightarrow> cpu \<times> 'm \<Rightarrow> bool \<times> cpu \<times> 'm" where
  "step_cpu ft bus s =
     (case step ft bus (fst s) (snd s) of
        (Inl e, m) \<Rightarrow> (False, stop e (fst s), m)
      | (Inr cpu, m) \<Rightarrow> (True, cpu, m))"

end
