(* ===== verification/C674x_Dispatch.thy ===== *)
theory C674x_Dispatch
  imports C674x_Issue "HOL-Library.Multiset"
begin

text \<open>
  The order of \<^verbatim>\<open>cdj_c674x_arms\<close> is not load-bearing: no two rows claim one instruction word. Each row is
  covered by cubes (whether the row is a conditional one, a mask and a value); a decision procedure that splits
  on the opcode bits shows that the cubes are pairwise apart.
\<close>

section \<open>Cubes\<close>

type_synonym cube = "bool \<times> int \<times> int"

definition in_cube :: "u32 \<Rightarrow> cube \<Rightarrow> bool" where
  "in_cube w c = (case c of (conditional, m, v) \<Rightarrow> (conditional \<longrightarrow> shr w 28 \<noteq> 1) \<and> w AND word_of_int m = word_of_int v)"

text \<open>At most one cube is left after splitting on the given bits.\<close>

fun apart :: "nat list \<Rightarrow> cube list \<Rightarrow> bool" where
  "apart [] cs = (length cs \<le> 1)"
| "apart (b # bs) cs =
     (if length cs \<le> 1 then True
      else if apart bs (List.filter (\<lambda>(_, m, v). bit m b \<longrightarrow> bit v b) cs)
      then apart bs (List.filter (\<lambda>(_, m, v). bit m b \<longrightarrow> \<not> bit v b) cs) else False)"

text \<open>The cubes of a row with a predicate on the field of \<open>n\<close> bits at \<open>lo\<close>, one for each admitted code.\<close>

definition field_cubes :: "cube \<Rightarrow> nat \<Rightarrow> nat \<Rightarrow> nat list \<Rightarrow> cube list" where
  "field_cubes = (\<lambda>(c, m, v) lo n ks. map (\<lambda>k. (c, m OR push_bit lo (mask n), v OR push_bit lo (int k))) ks)"

definition table_cubes :: "cube list list" where
  "table_cubes =
     [[(True, 0xFFC, 0x618)], [(True, 0xFFC, 0x638)], [(True, 0xFFC, 0x598)], [(True, 0xFFC, 0x278)],
      [(True, 0xFFC, 0x258)], [(True, 0xFFC, 0x1F8)], [(True, 0xFFC, 0x3F8)], [(True, 0xFFC, 0x1D8)],
      [(True, 0xFFC, 0x820)], [(True, 0xFFC, 0x8E0)], [(True, 0xFFC, 0x8A0)], [(True, 0xC, 0xC)],
      [(True, 0x10C, 0x4)], [(True, 0x17C, 0x134)], [(True, 0x17C, 0x154)], [(True, 0x17C, 0x124)],
      [(True, 0x17C, 0x174)], [(True, 0x17C, 0x164)], [(True, 0x17C, 0x144)], [(True, 0x7C, 0x50)],
      [(True, 0x7C, 0x28)], [(True, 0x7C, 0x68)],
      field_cubes (True, 0x7C, 0x40) 7 6 [48..<62],
      field_cubes (True, 0x7C, 0x40) 7 6 [16..<20], [(True, 0xFFC, 0xAB0)], [(True, 0xFFC, 0xAF0)],
      [(True, 0xFFC, 0xB30)], [(True, 0x7C1FFC, 0x40)], [(True, 0x3EFFC, 0xA358)],
      field_cubes (True, 0x1C, 0x18) 5 7 [32, 33, 35, 36, 39, 41, 43, 47, 55, 63],
      field_cubes (True, 0x7C, 0x0) 7 5 [16, 20, 22], field_cubes (True, 0x83C, 0x30) 6 5 [24, 25],
      field_cubes (True, 0x7C, 0x0) 7 5 [25, 24, 1, 9, 15, 11, 3, 7, 13, 5, 17, 23, 19, 21, 27, 30, 31, 29],
      field_cubes (True, 0x7C, 0x0) 7 5 [26, 2, 10, 18], field_cubes (True, 0x83C, 0x30) 6 5 [1],
      field_cubes (True, 0x83C, 0x30) 6 5 [14, 16, 20, 21], [(True, 0x3EFFC, 0x340F0)],
      [(True, 0x3CFFC, 0x958)], [(True, 0x3CFFC, 0x938)], [(True, 0x3CFFC, 0x158)], [(True, 0x3CFFC, 0x178)],
      [(True, 0x3EFFC, 0xF20)], field_cubes (True, 0x3C, 0x20) 6 6 [56, 57, 58], [(True, 0xFFC, 0x218)],
      [(True, 0xFFC, 0xE18)], [(True, 0xFFC, 0x238)], [(True, 0xFFC, 0x2B8)], [(True, 0xFFC, 0xE38)],
      [(True, 0xFFC, 0xEB8)], [(True, 0xFFC, 0xE00)], [(True, 0xFFC, 0x18)], [(True, 0xFFC, 0xFF0)],
      [(True, 0xFFC, 0x3D8)], [(True, 0xFFC, 0x260)], [(True, 0xFFC, 0x398)], [(True, 0xFFC, 0x220)],
      [(True, 0xFFC, 0x378)], [(True, 0xFFC, 0x420)], [(True, 0xFFC, 0xD18)], [(True, 0xFFC, 0xD38)],
      [(True, 0xFFC, 0xF98)], [(True, 0xFFC, 0xDB0)], [(True, 0xFFC, 0x830)], [(True, 0xFFC, 0x7A0)],
      [(True, 0xFFC, 0xF58)], [(True, 0xFFC, 0x9F0)], [(True, 0xFFC, 0x7E0)], [(True, 0xFFC, 0xF78)],
      [(True, 0xFFC, 0x9B0)], [(True, 0xFFC, 0x58)], [(True, 0xFFC, 0x1A0)], [(True, 0xFFC, 0x78)],
      [(True, 0xFFC, 0x1E0)], [(True, 0xFFC, 0xD8)], [(True, 0xFFC, 0x5A0)], [(True, 0xFFC, 0xF8)],
      [(True, 0xFFC, 0x5E0)], [(True, 0xFFC, 0x2F8)], [(True, 0xFFC, 0xD70)], [(True, 0xFFC, 0xA58)],
      [(True, 0xFFC, 0xA78)], [(True, 0xFFC, 0x8D8)], [(True, 0xFFC, 0x8F8)], [(True, 0xFFC, 0x9D8)],
      [(True, 0xFFC, 0x9F8)], [(True, 0xFFC, 0xAD8)], [(True, 0xFFC, 0xAF8)], [(True, 0xFFC, 0xBD8)],
      [(True, 0xFFC, 0xBF8)], [(True, 0xFFC, 0xFD8)], [(True, 0xFFC, 0x6A0)], [(True, 0xFFC, 0x8F0)],
      [(True, 0xFFC, 0xFF8)], [(True, 0xFFC, 0x6E0)], [(True, 0xFFC, 0x8B0)], [(True, 0xFFC, 0xDD8)],
      [(True, 0xFFC, 0x2A0)], [(True, 0xFFC, 0xBF0)], [(True, 0xFFC, 0xDF8)], [(True, 0xFFC, 0x2E0)],
      [(True, 0xFFC, 0xBB0)], [(True, 0x3C, 0x8)], [(True, 0xAFC, 0xAE0)], [(True, 0xFBC, 0x9A0)],
      [(True, 0xFBC, 0xDA0)], [(True, 0xFBC, 0xCA0)], field_cubes (True, 0xFFE, 0x3E2) 13 5 [0],
      field_cubes (True, 0xFFE, 0x3A2) 13 5 [0], [(True, 0xFFFFFFE, 0x1800E2)], [(True, 0x7C, 0x10)],
      [(True, 0x1FFC, 0x1020)], [(True, 0x1FFC, 0x120)], [(True, 0xF830FFE, 0x800362)],
      [(True, 0xF83EFFE, 0x362)], [(True, 0x1FFE, 0x162)],
      field_cubes (False, 0xF000083C, 0x10000030) 6 5 [10, 11, 12, 20, 21, 22, 23, 24, 25, 15],
      field_cubes (True, 0x83C, 0x30) 6 5 [2, 6, 7, 9, 11, 12, 13], [(True, 0x3EFFC, 0x8358)],
      [(True, 0xFFC, 0x60)], [(True, 0xFFC, 0xB8)], [(True, 0xFFC, 0x930)], [(True, 0xFFC, 0x460)],
      [(True, 0xFFC, 0x98)], [(True, 0xFFC, 0x970)], [(True, 0xFFC, 0xC30)], [(True, 0xFFC, 0xC98)],
      [(True, 0xFFC, 0xC70)], [(True, 0xFFC, 0x858)], [(True, 0xFFC, 0xF70)], [(True, 0xFFC, 0x838)],
      [(True, 0xFFC, 0xF30)], [(True, 0xFFC, 0xDF0)], [(True, 0xFFC, 0x620)], [(True, 0xFFC, 0xE30)],
      [(True, 0xFFC, 0x660)], [(True, 0xFFC, 0x760)], [(True, 0xFFC, 0x520)], [(True, 0xFFC, 0xCB0)],
      [(True, 0xFFC, 0x4F0)], [(True, 0xFFC, 0x730)], [(True, 0xFFC, 0x6B0)], [(True, 0xFFC, 0xCB8)],
      [(True, 0xFFC, 0xCD8)], [(True, 0xFFC, 0xB58)], [(True, 0xFFC, 0xCF0)], [(True, 0xFFC, 0x878)],
      [(True, 0xFFC, 0x918)], [(True, 0xFFC, 0x720)], [(True, 0xFFC, 0x560)], [(True, 0xFFC, 0xD30)],
      [(True, 0xFFC, 0x4B0)], [(True, 0xFFC, 0x130)], [(True, 0xFFC, 0x170)], [(False, 0xF0000FFC, 0x10000198)],
      [(False, 0xF0000FFC, 0x100001B8)], [(False, 0xF0000FFC, 0x100001D8)], [(False, 0xF0000FFC, 0x100001F8)],
      [(True, 0x3EFFC, 0x6358)], [(True, 0x3EFFC, 0x6F20)], [(True, 0x3EFFC, 0x4358)],
      [(True, 0x3EFFC, 0x4F20)], [(True, 0x3EFFC, 0x2358)], [(True, 0x3EFFC, 0x3E0F0)],
      [(True, 0x3EFFC, 0x3C0F0)], [(True, 0x3EFFC, 0x3A0F0)], [(True, 0x3EFFC, 0x380F0)],
      [(True, 0x3EFFC, 0x320F0)], [(True, 0x3EFFC, 0x300F0)], [(True, 0xFFC, 0x770)], [(True, 0xFFC, 0x7B0)],
      [(True, 0xFFC, 0xD58)], [(True, 0xFFC, 0xD78)], [(True, 0x3EFFC, 0xC78)], [(True, 0x3EFFC, 0xC18)],
      [(True, 0xFFC, 0xC38)], [(True, 0xFFC, 0xE70)], [(True, 0xFFC, 0xC58)], [(True, 0xFFC, 0xEB0)],
      [(False, 0xF0800FFC, 0x10000698)], [(False, 0xF0800FFC, 0x10000678)], [(False, 0xF0000FFC, 0x100006D8)],
      [(True, 0xFFC, 0xF60)], [(True, 0xFFC, 0xFA0)], [(True, 0xFFC, 0xB60)], [(True, 0xFFC, 0xBA0)],
      [(True, 0x3EFFC, 0xB20)], [(True, 0x3EFFC, 0xA0)], [(True, 0xFFC, 0xA20)], [(True, 0xFFC, 0xA60)],
      [(True, 0xFFC, 0xAA0)], [(True, 0xFFC, 0x318)], [(True, 0xFFC, 0xE58)], [(True, 0xFFC, 0x338)],
      [(True, 0xFFC, 0x3B8)], [(True, 0xFFC, 0xE78)], [(True, 0xFFC, 0xEF8)], [(True, 0xFFC, 0x700)],
      [(True, 0xFFC, 0x5B0)], [(True, 0xFFC, 0x5F0)], [(True, 0xFFC, 0x138)], [(True, 0xFFC, 0x118)],
      [(True, 0xFFC, 0x38)], [(True, 0x3EFFC, 0x738)], [(True, 0x3EFFC, 0x778)],
      field_cubes (True, 0x7C, 0x0) 7 5 [4, 6, 8, 12], field_cubes (True, 0x83C, 0x30) 6 5 [0, 17],
      field_cubes (False, 0xF000083C, 0x10000030) 6 5 [27, 31], [(True, 0xFFC, 0xEF0)],
      [(False, 0xF0000FFC, 0x10000EF0)], [(True, 0x3EFFC, 0x818)], [(True, 0xFFC, 0x978)],
      [(True, 0x3EFFC, 0x358)], [(True, 0x3EFFC, 0x718)], [(True, 0xFDC, 0xA18)], [(True, 0xFDC, 0x898)],
      [(True, 0xFDC, 0x998)], [(True, 0xFDC, 0xA98)], [(True, 0xFDC, 0xB98)], [(True, 0xFBC, 0xC20)],
      [(True, 0xFBC, 0x4A0)], [(True, 0xFBC, 0xD20)], [(True, 0xFBC, 0x920)], [(True, 0xFFFFFFE, 0x1C00E2)],
      [(True, 0x1FFC, 0x20)]]"

section \<open>Soundness\<close>

lemma in_cube_bit:
  assumes "in_cube w (c, m, v)" "bit m b" "b < 32"
  shows "bit v b = bit w b"
proof -
  have e: "w AND word_of_int m = word_of_int v" using assms(1) by (simp add: in_cube_def)
  have "bit (word_of_int v :: u32) b = bit (w AND word_of_int m) b" by (simp only: e)
  then show ?thesis using assms(2,3) by (simp add: bit_and_iff bit_word_of_int_iff)
qed

lemma apart_sound: "apart bs cs \<Longrightarrow> (\<And>b. b \<in> set bs \<Longrightarrow> b < 32) \<Longrightarrow> length (List.filter (in_cube w) cs) \<le> 1"
proof (induction bs arbitrary: cs)
  case Nil
  then show ?case by (auto intro: le_trans [OF length_filter_le])
next
  case (Cons b bs)
  let ?p = "\<lambda>(_ :: bool, m, v). bit m b \<longrightarrow> bit v b"
  let ?n = "\<lambda>(_ :: bool, m, v). bit m b \<longrightarrow> \<not> bit v b"
  have b: "b < 32" using Cons.prems(2) by simp
  have keep: "List.filter (in_cube w) (List.filter (if bit w b then ?p else ?n) cs) = List.filter (in_cube w) cs"
    by (auto simp: filter_filter intro!: filter_cong dest: in_cube_bit [OF _ _ b])
  show ?case
  proof (cases "length cs \<le> 1")
    case True
    then show ?thesis by (auto intro: le_trans [OF length_filter_le])
  next
    case False
    then have "apart bs (List.filter (if bit w b then ?p else ?n) cs)"
      using Cons.prems(1) by (simp split: if_splits)
    then have "length (List.filter (in_cube w) (List.filter (if bit w b then ?p else ?n) cs)) \<le> 1"
      using Cons.prems(2) by (intro Cons.IH) simp_all
    then show ?thesis unfolding keep .
  qed
qed

text \<open>Words of the nonconditional format and the others are told apart by their top four bits, which every cube
  of a nonconditional row fixes at 1.\<close>

definition fixes_format :: "cube \<Rightarrow> bool" where
  "fixes_format = (\<lambda>(c, m, v). c \<or> bit m 28 \<and> bit m 29 \<and> bit m 30 \<and> bit m 31 \<and>
     bit v 28 \<and> \<not> bit v 29 \<and> \<not> bit v 30 \<and> \<not> bit v 31)"

lemma top_nibble_one:
  assumes "bit (w :: u32) 28" "\<not> bit w 29" "\<not> bit w 30" "\<not> bit w 31"
  shows "shr w 28 = 1"
proof (rule bit_word_eqI)
  fix i assume "i < LENGTH(32)"
  then have "i < 32" by simp
  have "bit (shr w 28) i = bit w (28 + i)" by (simp add: bit_drop_bit_eq)
  also have "\<dots> = (i = 0)"
  proof (cases "i < 4")
    case True
    then consider "i = 0" | "i = 1" | "i = 2" | "i = 3" by linarith
    then show ?thesis using assms by cases simp_all
  next
    case False
    then show ?thesis using bit_imp_le_length [of w "28 + i"] by auto
  qed
  finally show "bit (shr w 28) i = bit (1 :: u32) i" by (simp add: bit_1_iff)
qed

lemma fixes_format_nibble: "in_cube w (False, m, v) \<Longrightarrow> fixes_format (False, m, v) \<Longrightarrow> shr w 28 = 1"
  using in_cube_bit [of w False m v 28] in_cube_bit [of w False m v 29] in_cube_bit [of w False m v 30]
    in_cube_bit [of w False m v 31]
  by (intro top_nibble_one) (simp_all add: fixes_format_def)

lemma two_formats:
  assumes "apart bs (List.filter (\<lambda>(c, _, _). c) cs)" "apart bs (List.filter (\<lambda>(c, _, _). \<not> c) cs)"
    and "\<And>b. b \<in> set bs \<Longrightarrow> b < 32" and format: "list_all fixes_format cs"
  shows "length (List.filter (in_cube w) cs) \<le> 1"
proof (cases "shr w 28 = 1")
  case True
  then have "List.filter (in_cube w) cs = List.filter (in_cube w) (List.filter (\<lambda>(c, _, _). \<not> c) cs)"
    by (auto simp: filter_filter in_cube_def intro!: filter_cong)
  then show ?thesis using apart_sound [OF assms(2,3), of w] by simp
next
  case False
  have "c" if "(c, m, v) \<in> set cs" "in_cube w (c, m, v)" for c m v
    using False fixes_format_nibble [of w m v] format that by (cases c) (auto simp: list_all_iff)
  then have "List.filter (in_cube w) cs = List.filter (in_cube w) (List.filter (\<lambda>(c, _, _). c) cs)"
    by (auto simp: filter_filter intro!: filter_cong)
  then show ?thesis using apart_sound [OF assms(1,3), of w] by simp
qed

abbreviation (input) opcode_bits :: "nat list" where
  "opcode_bits \<equiv> [2, 3, 4, 5, 6, 7, 8, 9, 10, 11, 12, 13, 14, 15, 16, 17, 18, 19, 20, 21, 22, 23]"

lemma conditional_cubes_apart: "apart opcode_bits (List.filter (\<lambda>(c, _, _). c) (concat table_cubes))"
  by (simp add: table_cubes_def field_cubes_def mask_eq_exp_minus_1 push_bit_eq_mult cong: if_weak_cong)

lemma nonconditional_cubes_apart: "apart opcode_bits (List.filter (\<lambda>(c, _, _). \<not> c) (concat table_cubes))"
  by (simp add: table_cubes_def field_cubes_def mask_eq_exp_minus_1 push_bit_eq_mult cong: if_weak_cong)

lemma cubes_fix_format: "list_all fixes_format (concat table_cubes)"
  by (simp add: table_cubes_def field_cubes_def mask_eq_exp_minus_1 push_bit_eq_mult fixes_format_def)

lemma table_cubes_apart: "length (List.filter (in_cube w) (concat table_cubes)) \<le> 1"
  by (rule two_formats [OF conditional_cubes_apart nonconditional_cubes_apart _ cubes_fix_format]) auto

section \<open>The rows\<close>

text \<open>The register field read by the one predicate that does not look at the word is the word's.\<close>

definition decoded :: "arm \<Rightarrow> bool" where
  "decoded x \<longleftrightarrow> x_a x = bits_at (x_w x) 13 5"

definition covered :: "'m arm_entry \<Rightarrow> cube list \<Rightarrow> bool" where
  "covered e cs \<longleftrightarrow> (\<forall>x. decoded x \<longrightarrow> entry_claims x e \<longrightarrow> list_ex (in_cube (x_w x)) cs)"

lemma covered_row [simp]:
  "c = (shr m 28 \<noteq> 15) \<Longrightarrow> word_of_int mi = m \<Longrightarrow> word_of_int vi = v \<Longrightarrow> covered (entry m v None run) [(c, mi, vi)]"
  by (auto simp: covered_def entry_claims_def entry_def in_cube_def)

lemma field_cube:
  assumes "(w :: u32) AND word_of_int m = word_of_int v" "bits_at w lo n = k"
  shows "w AND word_of_int (m OR push_bit lo (mask n)) = word_of_int (v OR push_bit lo (int k))"
proof -
  have "shl (of_nat k) lo = w AND shl (mask n) lo"
    unfolding assms(2) [symmetric] bits_at_def
    by (rule bit_word_eqI) (auto simp: bit_and_iff bit_push_bit_iff bit_drop_bit_eq bit_mask_iff)
  moreover have shift: "word_of_int (push_bit lo a) = (shl (word_of_int a) lo :: u32)" for a
    by (rule bit_word_eqI) (auto simp: bit_word_of_int_iff bit_push_bit_iff)
  moreover have "word_of_int (mask n) = (mask n :: u32)"
    by (rule bit_word_eqI) (auto simp: bit_word_of_int_iff bit_mask_iff)
  moreover have "word_of_int (a OR b) = (word_of_int a OR word_of_int b :: u32)" for a b
    by (rule bit_word_eqI) (simp add: bit_word_of_int_iff bit_or_iff)
  ultimately show ?thesis using assms(1) by (simp add: bit.conj_disj_distrib)
qed

lemma covered_field:
  assumes "c = (shr m 28 \<noteq> 15)" "word_of_int mi = m" "word_of_int vi = v"
    and "\<And>x. decoded x \<Longrightarrow> also x \<Longrightarrow> bits_at (x_w x) lo n \<in> set ks"
  shows "covered (entry m v (Some also) run) (field_cubes (c, mi, vi) lo n ks)"
  unfolding covered_def
proof (intro allI impI)
  fix x assume x: "decoded x" and e: "entry_claims x (entry m v (Some also) run)"
  define k where "k = bits_at (x_w x) lo n"
  have a: "also x" and w: "x_w x AND word_of_int mi = word_of_int vi" and c: "c \<longrightarrow> shr (x_w x) 28 \<noteq> 1"
    using e assms(1-3) by (auto simp: entry_claims_def entry_def)
  have "in_cube (x_w x) (c, mi OR push_bit lo (mask n), vi OR push_bit lo (int k))"
    using c field_cube [OF w] by (simp add: in_cube_def k_def)
  moreover have "k \<in> set ks" using assms(4) x a by (simp add: k_def)
  ultimately show "list_ex (in_cube (x_w x)) (field_cubes (c, mi, vi) lo n ks)"
    by (auto simp: list_ex_iff field_cubes_def)
qed

lemma top_of_masks [simp]:
  "shr (0xF000083C :: u32) 28 = 15" "shr (0xF0000FFC :: u32) 28 = 15" "shr (0xF0800FFC :: u32) 28 = 15"
  by (simp_all add: word_unat_eq_iff unat_drop_bit_eq drop_bit_eq_div)

lemma word_field_code: "bits_at w lo 5 = unat (shr w lo AND 31)"
  by (simp add: bits_at_def mask_eq_exp_minus_1)

text \<open>What each predicate says of its field.\<close>

lemma predicate_codes:
  "match_d_adda x \<Longrightarrow> bits_at (x_w x) 7 6 \<in> set [48..<62]"
  "match_d_addsub x \<Longrightarrow> bits_at (x_w x) 7 6 \<in> set [16..<20]"
  "match_l_long_addsub x \<Longrightarrow> bits_at (x_w x) 5 7 \<in> set [32, 33, 35, 36, 39, 41, 43, 47, 55, 63]"
  "match_mpy32_scalar x \<Longrightarrow> bits_at (x_w x) 7 5 \<in> set [16, 20, 22]"
  "match_mpy32_packed x \<Longrightarrow> bits_at (x_w x) 6 5 \<in> set [24, 25]"
  "match_mpy16 x \<Longrightarrow>
   bits_at (x_w x) 7 5 \<in> set [25, 24, 1, 9, 15, 11, 3, 7, 13, 5, 17, 23, 19, 21, 27, 30, 31, 29]"
  "match_smpy16_scalar x \<Longrightarrow> bits_at (x_w x) 7 5 \<in> set [26, 2, 10, 18]"
  "match_smpy16_packed x \<Longrightarrow> bits_at (x_w x) 6 5 \<in> set [1]"
  "match_mpy_half32 x \<Longrightarrow> bits_at (x_w x) 6 5 \<in> set [14, 16, 20, 21]"
  "match_cmpsp x \<Longrightarrow> bits_at (x_w x) 6 6 \<in> set [56, 57, 58]"
  "decoded x \<Longrightarrow> match_src1_zero x \<Longrightarrow> bits_at (x_w x) 13 5 \<in> set [0]"
  "match_mpyi x \<Longrightarrow> bits_at (x_w x) 7 5 \<in> set [4, 6, 8, 12]"
  "match_mpy2_gmpy4 x \<Longrightarrow> bits_at (x_w x) 6 5 \<in> set [0, 17]"
  "match_gmpy_word x \<Longrightarrow> bits_at (x_w x) 6 5 \<in> set [27, 31]"
  unfolding match_d_adda_def match_d_addsub_def match_l_long_addsub_def match_mpy32_scalar_def match_mpy32_packed_def
    match_mpy16_def match_smpy16_scalar_def match_smpy16_packed_def match_mpy_half32_def match_cmpsp_def
    match_src1_zero_def match_mpyi_def match_mpy2_gmpy4_def match_gmpy_word_def decoded_def
  by (auto simp del: upt_rec_numeral)

lemma dotp_code: "match_dotp x \<Longrightarrow> bits_at (x_w x) 6 5 \<in> set [2, 6, 7, 9, 11, 12, 13]"
  unfolding match_dotp_def word_field_code by auto

lemma cmpy_code: "match_cmpy x \<Longrightarrow> bits_at (x_w x) 6 5 \<in> set [10, 11, 12, 20, 21, 22, 23, 24, 25, 15]"
proof -
  have "cm_valid (cmpy op 0 0 0) \<or> cm_valid (mpy32_nonconditional op 0 0) \<Longrightarrow>
      op \<in> {10, 11, 12, 20, 21, 22, 23, 24, 25, 15}" for op
    by (rule ccontr) (simp add: cmpy_def mpy32_nonconditional_def)
  then show "match_cmpy x \<Longrightarrow> ?thesis" unfolding match_cmpy_def Let_def word_field_code by fastforce
qed

lemmas covered_fields = predicate_codes dotp_code cmpy_code

lemma table_covered: "list_all2 covered arm_table table_cubes"
  apply (simp add: arm_table_def table_cubes_def pure_def covered_fields [THEN covered_field [rotated -1]]
      del: upt_rec_numeral One_nat_def)
  apply (simp add: covered_fields [THEN covered_field [rotated -1]])
  done

lemma filter_covered:
  "list_all2 covered es css \<Longrightarrow> decoded x \<Longrightarrow>
   length (List.filter (entry_claims x) es) \<le> length (List.filter (in_cube (x_w x)) (concat css))"
proof (induction rule: list_all2_induct)
  case (Cons e es cs css)
  have "entry_claims x e \<Longrightarrow> List.filter (in_cube (x_w x)) cs \<noteq> []"
    using Cons by (auto simp: covered_def list_ex_iff filter_empty_conv)
  then show ?case using Cons by (cases "List.filter (in_cube (x_w x)) cs") (auto simp: le_SucI)
qed simp

lemma one_row_claims: "decoded x \<Longrightarrow> length (List.filter (entry_claims x) arm_table) \<le> 1"
  using filter_covered [OF table_covered] table_cubes_apart [of "x_w x"] le_trans by blast

lemma decode_arm_decoded: "decoded (decode_arm cpu p i insn w st)"
  by (simp add: decoded_def decode_arm_def issue.defs arm.defs Let_def)

section \<open>The order of the rows\<close>

lemma find_unique:
  assumes "length (List.filter P xs) \<le> 1" "mset ys = mset xs"
  shows "List.find P ys = List.find P xs"
proof -
  have m: "mset (List.filter P ys) = mset (List.filter P xs)" using assms(2) by simp
  have "List.filter P ys = List.filter P xs"
  proof (cases "List.filter P xs")
    case Nil
    then show ?thesis using m by (metis mset_zero_iff)
  next
    case (Cons a l)
    then have "List.filter P xs = [a]" using assms(1) by simp
    then show ?thesis using m by (metis mset_single_iff mset.simps add_mset_add_single)
  qed
  moreover have "List.find P zs = (case List.filter P zs of [] \<Rightarrow> None | z # _ \<Rightarrow> Some z)" for zs
    by (induction zs) auto
  ultimately show ?thesis by simp
qed

text \<open>C22: For every decoded instruction at most one row of the arm table claims it, so that the table in any other
  order dispatches every instruction to the same arm.\<close>

theorem dispatch_order_irrelevant:
  fixes t :: "'m arm_entry list"
  assumes "mset t = mset arm_table"
  shows "List.find (entry_claims (decode_arm cpu p i insn w st)) t = arm_lookup (decode_arm cpu p i insn w st) \<and>
    length (List.filter (entry_claims (decode_arm cpu p i insn w st)) t) \<le> 1"
proof -
  let ?P = "entry_claims (decode_arm cpu p i insn w st)"
  have one: "length (List.filter ?P (arm_table :: 'm arm_entry list)) \<le> 1"
    by (rule one_row_claims) (rule decode_arm_decoded)
  have "mset (List.filter ?P t) = mset (List.filter ?P arm_table)" using assms by simp
  then have "length (List.filter ?P t) = length (List.filter ?P (arm_table :: 'm arm_entry list))" by (rule mset_eq_length)
  then show ?thesis using one find_unique [OF one assms] by (simp add: arm_lookup_def)
qed

theorem dispatch_order_irrelevant_witness:
  "let t = rev arm_table :: nat arm_entry list;
       x = decode_arm (cpu_reset 0) \<lparr>pk_instructions = [], pk_next_pc = 0, pk_single_cycle = False\<rparr> 0
             \<lparr>in_word = 0x00000FC0, in_pc = 0, in_header = 0, in_compact = False\<rparr> 0x00000FC0 (issue_start (cpu_reset 0))
   in List.find (entry_claims x) t = arm_lookup x \<and> length (List.filter (entry_claims x) t) \<le> 1"
  unfolding Let_def by (rule dispatch_order_irrelevant) simp

end
