(* ===== verification/C674x_Pipeline.thy ===== *)
theory C674x_Pipeline
  imports C674x_Step
begin

text \<open>
  The pipeline invariant of the interpreter: the queues of stores, loads and branches stay within the arrays of
  \<^verbatim>\<open>CdjC674x\<close> and hold only entries due soon, the branches in order. What issuing a packet may do to the
  processor (\<open>keeps\<close>), and that every arm without memory does no more.
\<close>

section \<open>The pipeline invariant\<close>

text \<open>The due cycles of the taken branches, oldest first.\<close>

definition branch_dues :: "cpu \<Rightarrow> u64 list" where
  "branch_dues c = (if branch_due c = 0 then [] else branch_due c # map fst (branch_queue c))"

definition due_within :: "u64 \<Rightarrow> nat \<Rightarrow> u64 \<Rightarrow> bool" where
  "due_within now n t \<longleftrightarrow> unat now < unat t \<and> unat t \<le> unat now + n"

definition pipeline_ok :: "cpu \<Rightarrow> bool" where
  "pipeline_ok c \<longleftrightarrow>
     length (stores c) \<le> 24 \<and> list_all (\<lambda>s. due_within (cycles c) 3 (st_due s)) (stores c) \<and>
     length (loads c) \<le> 40 \<and> list_all (\<lambda>l. due_within (cycles c) 11 (ld_due l)) (loads c) \<and>
     (branch_due c = 0 \<longrightarrow> branch_queue c = []) \<and>
     sorted_wrt (<) (branch_dues c) \<and> list_all (due_within (cycles c) 6) (branch_dues c)"

text \<open>What the issue of a packet leaves alone, and that it keeps the pipeline while the cycle counter is far
  from its end.\<close>

definition same_frame :: "cpu \<Rightarrow> cpu \<Rightarrow> bool" where
  "same_frame c c' \<longleftrightarrow>
     loop_state c' = loop_state c \<and> loop_instructions c' = loop_instructions c \<and> cycles c' = cycles c \<and> pc c' = pc c \<and>
     packets c' = packets c \<and> fault c' = fault c \<and> loop_active c' = loop_active c \<and> idle_cycles c' = idle_cycles c \<and>
     loop_wait c' = loop_wait c \<and> loop_tags c' = loop_tags c \<and> loop_packets c' = loop_packets c \<and>
     loop_pred_history c' = loop_pred_history c \<and> loop_context c' = loop_context c"

definition keeps :: "cpu \<Rightarrow> cpu \<Rightarrow> bool" where
  "keeps c c' \<longleftrightarrow> same_frame c c' \<and> (unat (cycles c) + 64 < 2 ^ 64 \<longrightarrow> pipeline_ok c \<longrightarrow> pipeline_ok c')"

lemma keeps_refl [simp]: "keeps c c"
  by (simp add: keeps_def same_frame_def)

lemma keeps_trans [trans]: "keeps a b \<Longrightarrow> keeps b c \<Longrightarrow> keeps a c"
  by (auto simp: keeps_def same_frame_def)

lemma keeps_cycles: "keeps a b \<Longrightarrow> cycles b = cycles a"
  by (simp add: keeps_def same_frame_def)

lemma pipeline_ok_regs [simp]:
  "pipeline_ok (set_reg b n v c) = pipeline_ok c"
  "pipeline_ok (set_control n v c) = pipeline_ok c"
  "pipeline_ok (set_ready n v' c) = pipeline_ok c"
  by (simp_all add: pipeline_ok_def branch_dues_def set_reg_def set_control_def set_ready_def)

lemma keeps_set_reg [simp]: "keeps a (set_reg b n v c) = keeps a c"
  by (simp add: keeps_def same_frame_def) (simp add: set_reg_def)

lemma keeps_set_control [simp]: "keeps a (set_control n v c) = keeps a c"
  by (simp add: keeps_def same_frame_def) (simp add: set_control_def)

lemma keeps_set_ready [simp]: "n \<noteq> 31 \<Longrightarrow> keeps a (set_ready n v c) = keeps a c"
  by (simp add: keeps_def same_frame_def) (simp add: set_ready_def)

lemma unat_add_due: "unat (now :: u64) + 64 < 2 ^ 64 \<Longrightarrow> k \<le> 11 \<Longrightarrow> unat (now + of_nat k) = unat now + k"
  by (simp add: unat_word_ariths unsigned_of_nat take_bit_eq_mod)

definition due_step :: "u64 \<Rightarrow> u64 \<Rightarrow> bool" where
  "due_step now t \<longleftrightarrow> (\<exists>k. 1 \<le> k \<and> k \<le> 11 \<and> t = now + of_nat k)"

lemma due_stepI [simp]: "1 \<le> k \<Longrightarrow> k \<le> 11 \<Longrightarrow> due_step now (now + of_nat k)"
  by (auto simp: due_step_def)

lemma due_step_numeral [simp]: "numeral k \<le> (11 :: nat) \<Longrightarrow> due_step now (now + numeral k)"
  using due_stepI [of "numeral k" now] by simp

lemma due_step_one [simp]: "due_step now (now + 1)"
  using due_stepI [of 1 now] by simp

lemma due_step_numeral_one [simp]: "numeral k \<le> (10 :: nat) \<Longrightarrow> due_step now (now + numeral k + 1)"
  using due_stepI [of "numeral k + 1" now] by (simp only: of_nat_add of_nat_numeral of_nat_1 add.assoc)

lemma due_step_commuted [simp]: "numeral k \<le> (11 :: nat) \<Longrightarrow> due_step now (numeral k + now)"
  using due_step_numeral [of k now] by (simp add: add.commute)

lemma due_step_if [simp]: "(p \<Longrightarrow> due_step now (now + a)) \<Longrightarrow> (\<not> p \<Longrightarrow> due_step now (now + b)) \<Longrightarrow> due_step now (now + (if p then a else b))"
  by simp

lemma branch_dues_append [simp]:
  "branch_dues (append_load l c) = branch_dues c" "branch_dues (append_store s c) = branch_dues c"
  by (simp_all add: branch_dues_def append_load_def append_store_def)

lemma same_frame_append [simp]:
  "same_frame a (append_load l c) = same_frame a c" "same_frame a (append_store s c) = same_frame a c"
  by (simp_all add: same_frame_def append_load_def append_store_def)

lemma pipeline_ok_append:
  "pipeline_ok c \<Longrightarrow> due_within (cycles c) 11 (ld_due l) \<Longrightarrow> length (loads c) \<noteq> 40 \<Longrightarrow> pipeline_ok (append_load l c)"
  "pipeline_ok c \<Longrightarrow> due_within (cycles c) 3 (st_due s) \<Longrightarrow> length (stores c) \<noteq> 24 \<Longrightarrow> pipeline_ok (append_store s c)"
  unfolding pipeline_ok_def branch_dues_append by (simp_all add: append_load_def append_store_def)

lemma keeps_append_load:
  assumes "keeps a c" "due_step (cycles a) (ld_due l)" "length (loads c) \<noteq> 40"
  shows "keeps a (append_load l c)"
proof -
  obtain k where k: "1 \<le> k" "k \<le> 11" "ld_due l = cycles a + of_nat k" using assms(2) by (auto simp: due_step_def)
  then have "due_within (cycles a) 11 (ld_due l)" if "unat (cycles a) + 64 < 2 ^ 64"
    using that by (simp add: due_within_def unat_add_due)
  then show ?thesis using assms(1,3) keeps_cycles [OF assms(1)] by (simp add: keeps_def pipeline_ok_append)
qed

lemma keeps_append_store:
  assumes "keeps a c" "st_due s = cycles a + 3" "length (stores c) \<noteq> 24"
  shows "keeps a (append_store s c)"
proof -
  have "due_within (cycles a) 3 (st_due s)" if "unat (cycles a) + 64 < 2 ^ 64"
    using that unat_add_due [of "cycles a" 3] by (simp add: due_within_def assms(2))
  then show ?thesis using assms(1,3) keeps_cycles [OF assms(1)] by (simp add: keeps_def pipeline_ok_append)
qed

lemma sorted_snoc: "sorted_wrt (<) (xs @ [x]) \<longleftrightarrow> sorted_wrt (<) xs \<and> (xs = [] \<or> last xs < (x :: u64))"
  by (induction xs rule: rev_induct) (auto simp: sorted_wrt_append)

lemma queue_branch_dues:
  assumes "queue_branch t target c = Some c'" "branch_due c = 0 \<longrightarrow> branch_queue c = []" "t \<noteq> 0"
  shows "branch_dues c' = branch_dues c @ [t]" "branch_due c' \<noteq> 0" "branch_dues c \<noteq> [] \<Longrightarrow> last (branch_dues c) \<noteq> t"
  using assms by (auto simp: queue_branch_def branch_dues_def last_map split: if_splits)

lemma keeps_queue_branch:
  assumes "keeps a c" "queue_branch (cycles a + 6) target c = Some c'"
  shows "keeps a c'"
proof -
  have f: "same_frame a c'" and o: "stores c' = stores c" "loads c' = loads c" "cycles c = cycles a" "cycles c' = cycles a"
    using assms by (auto simp: keeps_def same_frame_def queue_branch_def split: if_splits)
  have "pipeline_ok c'" if room: "unat (cycles a) + 64 < 2 ^ 64" and c: "pipeline_ok c"
  proof -
    have t: "unat (cycles a + 6) = unat (cycles a) + 6" using unat_add_due [OF room, of 6] by simp
    have n: "cycles a + 6 \<noteq> 0" using t by (metis add_is_0 unat_0 zero_neq_numeral)
    have b: "branch_due c = 0 \<longrightarrow> branch_queue c = []" and w: "list_all (due_within (cycles a) 6) (branch_dues c)"
      using c o by (simp_all add: pipeline_ok_def)
    note q = queue_branch_dues [OF assms(2) b n]
    have "last (branch_dues c) < cycles a + 6" if "branch_dues c \<noteq> []"
    proof -
      have "due_within (cycles a) 6 (last (branch_dues c))" using w that by (simp add: list_all_iff)
      then have "unat (last (branch_dues c)) \<le> unat (cycles a + 6)" by (simp add: due_within_def t)
      then show ?thesis using q(3) [OF that] by (simp add: order_less_le word_le_nat_alt)
    qed
    then have "sorted_wrt (<) (branch_dues c')" using c q(1) by (auto simp: pipeline_ok_def sorted_snoc)
    moreover have "list_all (due_within (cycles a) 6) (branch_dues c')" using w q(1) by (simp add: due_within_def t)
    ultimately show ?thesis using c q(2) o by (simp add: pipeline_ok_def)
  qed
  then show ?thesis using f assms(1) by (simp add: keeps_def)
qed

section \<open>Arms\<close>

text \<open>A packet takes one to nine cycles.\<close>

definition timing_ok :: "timing \<Rightarrow> bool" where
  "timing_ok t \<longleftrightarrow> 1 \<le> tm_cycles t \<and> tm_cycles t \<le> 9"

definition arel :: "arm \<Rightarrow> arm \<Rightarrow> bool" where
  "arel x y \<longleftrightarrow>
     x_cpu y = x_cpu x \<and> x_insn y = x_insn x \<and>
     (cycles (out x) = cycles (x_cpu x) \<longrightarrow> keeps (out x) (out y)) \<and>
     (timing_ok (packet_timing x) \<longrightarrow> timing_ok (packet_timing y))"

definition arm_ok :: "arm \<Rightarrow> stopped + arm \<Rightarrow> bool" where
  "arm_ok x r \<longleftrightarrow> (\<forall>y. r = Inr y \<longrightarrow> arel x y)"

named_theorems arm_rules

lemma arel_refl [arm_rules]: "arel x x"
  by (simp add: arel_def)

lemma arel_updates [simp]:
  "arel x (y\<lparr>x_value := v\<rparr>) = arel x y" "arel x (y\<lparr>x_dst := d\<rparr>) = arel x y" "arel x (y\<lparr>x_b := b\<rparr>) = arel x y"
  "arel x (y\<lparr>x_reg_write := r\<rparr>) = arel x y" "arel x (y\<lparr>x_control_write := q\<rparr>) = arel x y"
  "arel x (y\<lparr>written := wr\<rparr>) = arel x y" "arel x (y\<lparr>controls := co\<rparr>) = arel x y"
  "arel x (y\<lparr>memory_count := mc\<rparr>) = arel x y" "arel x (y\<lparr>nonaligned_memory := nm\<rparr>) = arel x y"
  "arel x (y\<lparr>bdec_issued := bi\<rparr>) = arel x y" "arel x (no_write y) = arel x y"
  by (simp_all add: arel_def no_write_def)

lemma arel_updates_rules [arm_rules]:
  "arel x y \<Longrightarrow> arel x (y\<lparr>x_value := v\<rparr>)" "arel x y \<Longrightarrow> arel x (y\<lparr>x_dst := d\<rparr>)" "arel x y \<Longrightarrow> arel x (y\<lparr>x_b := b\<rparr>)"
  "arel x y \<Longrightarrow> arel x (y\<lparr>x_reg_write := r\<rparr>)" "arel x y \<Longrightarrow> arel x (y\<lparr>x_control_write := q\<rparr>)"
  "arel x y \<Longrightarrow> arel x (y\<lparr>written := wr\<rparr>)" "arel x y \<Longrightarrow> arel x (y\<lparr>controls := co\<rparr>)"
  "arel x y \<Longrightarrow> arel x (y\<lparr>memory_count := mc\<rparr>)" "arel x y \<Longrightarrow> arel x (y\<lparr>nonaligned_memory := nm\<rparr>)"
  "arel x y \<Longrightarrow> arel x (y\<lparr>bdec_issued := bi\<rparr>)" "arel x y \<Longrightarrow> arel x (no_write y)"
  by simp_all

lemma arel_if [arm_rules]: "(p \<Longrightarrow> arel x y) \<Longrightarrow> (\<not> p \<Longrightarrow> arel x z) \<Longrightarrow> arel x (if p then y else z)"
  by simp

lemma arel_trans: "arel x y \<Longrightarrow> arel y z \<Longrightarrow> arel x z"
  by (auto simp: arel_def intro: keeps_trans dest: keeps_cycles)

lemma arel_out: "arel x y \<Longrightarrow> (cycles (out x) = cycles (x_cpu x) \<Longrightarrow> keeps (out x) (out y) \<Longrightarrow> keeps (out x) c) \<Longrightarrow> arel x (y\<lparr>out := c\<rparr>)"
  by (simp add: arel_def)

lemma arel_set [arm_rules]:
  "arel x y \<Longrightarrow> arel x (update_out (set_control n v) y)"
  "arel x y \<Longrightarrow> arel x (update_out (set_reg b m v) y)"
  "arel x y \<Longrightarrow> arel x (update_out (\<lambda>c. set_control n (f c) c) y)"
  "arel x y \<Longrightarrow> arel x (update_out (\<lambda>c. set_control n (f c) (set_control k (g c) c)) y)"
  "arel x y \<Longrightarrow> arel x (update_out (set_reg b m v \<circ> set_reg b' m' v') y)"
  by (simp_all add: arel_def update_out_def)

lemma arel_append_load [arm_rules]:
  "arel x y \<Longrightarrow> due_step (cycles (x_cpu y)) (ld_due l) \<Longrightarrow> length (loads (out y)) \<noteq> 40 \<Longrightarrow> arel x (update_out (append_load l) y)"
  by (auto simp: arel_def update_out_def intro!: keeps_append_load)

lemma arel_append_store [arm_rules]:
  "arel x y \<Longrightarrow> st_due s = cycles (x_cpu y) + 3 \<Longrightarrow> length (stores (out y)) \<noteq> 24 \<Longrightarrow> arel x (update_out (append_store s) y)"
  by (auto simp: arel_def update_out_def intro!: keeps_append_store)

lemma arel_branch:
  "arel x y \<Longrightarrow> queue_branch (cycles (x_cpu y) + 6) target (out y) = Some c \<Longrightarrow> arel x (y\<lparr>out := c\<rparr>)"
  by (auto simp: arel_def intro: keeps_queue_branch)

lemma arel_timing: "arel x y \<Longrightarrow> (timing_ok (packet_timing y) \<Longrightarrow> timing_ok t) \<Longrightarrow> arel x (y\<lparr>packet_timing := t\<rparr>)"
  by (simp add: arel_def)

lemma arm_ok_reject [arm_rules]: "arm_ok x (reject y why)" "arm_ok x (reject_word y why)" "arm_ok x (Inl e)"
  by (simp_all add: arm_ok_def reject_def reject_word_def)

lemma arm_ok_Inr [arm_rules]: "arel x y \<Longrightarrow> arm_ok x (Inr y)"
  by (simp add: arm_ok_def)

lemma arm_ok_result [arm_rules]: "arel x y \<Longrightarrow> arm_ok x (result y v)"
  by (simp add: arm_ok_def result_def)

lemma arm_ok_if [arm_rules]: "(p \<Longrightarrow> arm_ok x r) \<Longrightarrow> (\<not> p \<Longrightarrow> arm_ok x s) \<Longrightarrow> arm_ok x (if p then r else s)"
  by simp

lemma arm_ok_bind [arm_rules]:
  "arm_ok x r \<Longrightarrow> (\<And>y. r = Inr y \<Longrightarrow> arel x y \<Longrightarrow> arm_ok x (f y)) \<Longrightarrow> arm_ok x (bind r f)"
  by (auto simp: arm_ok_def bind_def split: sum.splits)

lemma arm_ok_when_enabled [arm_rules]: "arel x y \<Longrightarrow> (\<And>y. arel x y \<Longrightarrow> arm_ok x (f y)) \<Longrightarrow> arm_ok x (when_enabled y f)"
  by (simp add: when_enabled_def arm_ok_Inr)

lemma arm_ok_room [arm_rules]: "(\<And>y. arel x y \<Longrightarrow> arm_ok x (f y)) \<Longrightarrow> arel x y \<Longrightarrow> arm_ok x (room_for_two y f)"
  by (simp add: room_for_two_def arm_ok_reject)

lemma arm_ok_let_arm [arm_rules]: "arel x e \<Longrightarrow> (\<And>y. arel x y \<Longrightarrow> arm_ok x (f y)) \<Longrightarrow> arm_ok x (let y = e in f y)"
  by simp

lemma arm_ok_option [arm_rules]:
  "(q = None \<Longrightarrow> arm_ok x r) \<Longrightarrow> (\<And>v. q = Some v \<Longrightarrow> arm_ok x (f v)) \<Longrightarrow> arm_ok x (case q of None \<Rightarrow> r | Some v \<Rightarrow> f v)"
  by (cases q) auto

lemma arm_ok_prod [arm_rules]: "(\<And>a b. q = (a, b) \<Longrightarrow> arm_ok x (f a b)) \<Longrightarrow> arm_ok x (case q of (a, b) \<Rightarrow> f a b)"
  by (cases q) auto

lemma arm_ok_list [arm_rules]:
  "(q = [] \<Longrightarrow> arm_ok x r) \<Longrightarrow> (\<And>v vs. q = v # vs \<Longrightarrow> arm_ok x (f v vs)) \<Longrightarrow> arm_ok x (case q of [] \<Rightarrow> r | v # vs \<Rightarrow> f v vs)"
  by (cases q) auto

section \<open>The calls an arm makes\<close>

lemma arm_ok_write_pair [arm_rules]: "arel x y \<Longrightarrow> arm_ok x (write_pair low high y)"
  unfolding write_pair_def Let_def by (intro arm_rules)

lemma saturation_load_due [simp]: "ld_due (saturation_load t u) = t"
  by (simp add: saturation_load_def)

lemma result_load_due [simp]: "ld_due (result_load x t v st d n s) = t"
  by (simp add: result_load_def)

lemma arm_ok_queue_status [arm_rules]: "arel x y \<Longrightarrow> arm_ok x (queue_status u y)"
  unfolding queue_status_def by (intro arm_rules) simp_all

lemma arm_ok_queue_saturation [arm_rules]: "arel x y \<Longrightarrow> arm_ok x (queue_saturation y)"
  unfolding queue_saturation_def by (intro arm_rules)

lemma arm_ok_queue_result [arm_rules]:
  "arel x y \<Longrightarrow> due_step (cycles (x_cpu y)) t \<Longrightarrow> arm_ok x (queue_result t v st d n s y)"
  unfolding queue_result_def by (intro arm_rules) simp_all

lemma loads_append [simp]: "loads (append_load l c) = loads c @ [l]"
  by (simp add: append_load_def)

lemma arm_ok_queue_saturating [arm_rules]:
  assumes "arel x y" "due_step (cycles (x_cpu y)) t" "due_step (cycles (x_cpu y)) (t + 1)"
  shows "arm_ok x (queue_saturating t v n s y)"
  unfolding queue_saturating_def Let_def
  using assms by (intro arm_rules) (simp_all add: update_out_def)

lemma arm_ok_faucr_status [arm_rules]: "arel x y \<Longrightarrow> arm_ok x (faucr_status st y)"
  unfolding faucr_status_def by (intro arm_rules)

lemma arm_ok_branch_to [arm_rules]: "arel x y \<Longrightarrow> arm_ok x (branch_to target y)"
  unfolding branch_to_def by (intro arm_rules arel_branch)

lemma arm_ok_branch_to_word [arm_rules]: "arel x y \<Longrightarrow> arm_ok x (branch_to_word target y)"
  unfolding branch_to_word_def by (intro arm_rules arel_branch)

lemma packet_multicycle_bound:
  "packet_multicycle n t = Some t' \<Longrightarrow> n \<le> 9 \<Longrightarrow> timing_ok t \<Longrightarrow> timing_ok t'"
  by (auto simp: packet_multicycle_def timing_ok_def split: if_splits)

lemma arm_ok_with_nops [arm_rules]: "arel x y \<Longrightarrow> n \<le> 9 \<Longrightarrow> arm_ok x (with_nops n y)"
  unfolding with_nops_def by (intro arm_rules arel_timing) (auto intro: packet_multicycle_bound)

lemma bits_at_less: "bits_at w lo n < 2 ^ n"
  by (simp add: bits_at_def unsigned_take_bit_eq flip: take_bit_eq_mask)

lemma bits_at_3: "bits_at w lo 3 \<le> 8"
  using bits_at_less [of w lo 3] by simp

lemma arm_ok_queue_product [arm_rules]: "arel x y \<Longrightarrow> 1 \<le> k \<Longrightarrow> k \<le> 11 \<Longrightarrow> arm_ok x (queue_product k pair v y)"
  unfolding queue_product_def by (intro arm_rules) simp_all

lemma arm_ok_write_long40 [arm_rules]: "arel x y \<Longrightarrow> arm_ok x (write_long40 v y)"
  unfolding write_long40_def by (intro arm_rules)

lemma arm_ok_queue_sp [arm_rules]: "arel x y \<Longrightarrow> arm_ok x (queue_sp r q y)"
  unfolding queue_sp_def by (intro arm_rules) simp_all

lemma arm_ok_dp_queue [arm_rules]: "arel x y \<Longrightarrow> due_step (cycles (x_cpu y)) t \<Longrightarrow> arm_ok x (dp_queue t d v st q y)"
  unfolding dp_queue_def by (intro arm_rules)

lemma arm_ok_dp_queue_pair [arm_rules]:
  assumes "arel x y" "1 \<le> k" "k \<le> 10"
  shows "arm_ok x (dp_queue_pair k r q y)"
proof -
  have "due_step c (c + of_nat k)" "due_step c (c + of_nat k + 1)" for c
    using due_stepI [of k c] due_stepI [of "k + 1" c] assms(2,3) by (simp_all only: of_nat_add of_nat_1 add.assoc)
  then show ?thesis unfolding dp_queue_pair_def Let_def
    using assms(1) by (intro arm_rules) (simp_all add: arel_def)
qed

text \<open>Most arms are built from the calls above alone.\<close>

lemma simple_arms_ok [simp]:
  "arm_ok x (arm_bpos x)"
  "arm_ok x (arm_addk x)"
  "arm_ok x (arm_mvk_s x)"
  "arm_ok x (arm_mvkh x)"
  "arm_ok x (arm_d_adda x)"
  "arm_ok x (arm_d_addsub x)"
  "arm_ok x (arm_d_addsub_cross x)"
  "arm_ok x (arm_mvc_read x)"
  "arm_ok x (arm_mvc_write x)"
  "arm_ok x (arm_rpack2 x)"
  "arm_ok x (arm_mvk_d x)"
  "arm_ok x (arm_mvk_l x)"
  "arm_ok x (arm_andn x)"
  "arm_ok x (arm_and_imm x)"
  "arm_ok x (arm_and_reg x)"
  "arm_ok x (arm_add_imm x)"
  "arm_ok x (arm_add_reg x)"
  "arm_ok x (arm_sub_imm x)"
  "arm_ok x (arm_sub_reg x)"
  "arm_ok x (arm_or_imm x)"
  "arm_ok x (arm_or_reg x)"
  "arm_ok x (arm_xor_imm x)"
  "arm_ok x (arm_xor_reg x)"
  "arm_ok x (arm_subc x)"
  "arm_ok x (arm_sub_reverse x)"
  "arm_ok x (arm_cmp x)"
  "arm_ok x (arm_bitfield x)"
  "arm_ok x (arm_shift_s x)"
  "arm_ok x (arm_pack x)"
  "arm_ok x (arm_packed16 x)"
  "arm_ok x (arm_packbits_unpack x)"
  "arm_ok x (arm_packbits_mergebyte x)"
  "arm_ok x (arm_packbits_lmbd x)"
  "arm_ok x (arm_packbits_norm x)"
  unfolding arm_bpos_def arm_addk_def arm_mvk_s_def arm_mvkh_def arm_d_adda_def arm_d_addsub_def arm_d_addsub_cross_def
    arm_mvc_read_def arm_mvc_write_def arm_rpack2_def arm_mvk_d_def arm_mvk_l_def arm_andn_def arm_and_imm_def
    arm_and_reg_def arm_add_imm_def arm_add_reg_def arm_sub_imm_def arm_sub_reg_def arm_or_imm_def
    arm_or_reg_def arm_xor_imm_def arm_xor_reg_def arm_subc_def arm_sub_reverse_def arm_cmp_def
    arm_bitfield_def arm_shift_s_def arm_pack_def arm_packed16_def arm_packbits_unpack_def
    arm_packbits_mergebyte_def arm_packbits_lmbd_def arm_packbits_norm_def Let_def
  by (intro arm_rules)+

lemma ok_arm_b_irp [simp]: "arm_ok x (arm_b_irp x)"
  unfolding arm_b_irp_def Let_def by (intro arm_rules) (simp_all add: arel_def bits_at_3)

lemma ok_arm_b_disp [simp]: "arm_ok x (arm_b_disp x)"
  unfolding arm_b_disp_def Let_def by (intro arm_rules) (simp_all add: arel_def bits_at_3)

lemma ok_arm_bdec [simp]: "arm_ok x (arm_bdec x)"
  unfolding arm_bdec_def Let_def by (intro arm_rules) (simp_all add: arel_def bits_at_3)

lemma ok_arm_bnop_disp [simp]: "arm_ok x (arm_bnop_disp x)"
  unfolding arm_bnop_disp_def Let_def by (intro arm_rules) (simp_all add: arel_def bits_at_3)

lemma ok_arm_bnop_reg [simp]: "arm_ok x (arm_bnop_reg x)"
  unfolding arm_bnop_reg_def Let_def by (intro arm_rules) (simp_all add: arel_def bits_at_3)

lemma ok_arm_b_reg [simp]: "arm_ok x (arm_b_reg x)"
  unfolding arm_b_reg_def Let_def by (intro arm_rules) (simp_all add: arel_def bits_at_3)

lemma ok_arm_addkpc [simp]: "arm_ok x (arm_addkpc x)"
  unfolding arm_addkpc_def Let_def by (intro arm_rules) (simp_all add: arel_def bits_at_3)

lemma ok_arm_b_nrp [simp]: "arm_ok x (arm_b_nrp x)"
  unfolding arm_b_nrp_def Let_def by (intro arm_rules) (simp_all add: arel_def bits_at_3)

lemma ok_arm_sat_long [simp]: "arm_ok x (arm_sat_long x)"
  unfolding arm_sat_long_def Let_def by (intro arm_rules) (simp_all add: arel_def bits_at_3)

lemma ok_arm_sat_scalar [simp]: "arm_ok x (arm_sat_scalar x)"
  unfolding arm_sat_scalar_def Let_def by (intro arm_rules) (simp_all add: arel_def bits_at_3)

lemma ok_arm_sat40 [simp]: "arm_ok x (arm_sat40 x)"
  unfolding arm_sat40_def Let_def by (intro arm_rules) (simp_all add: arel_def bits_at_3)

lemma ok_arm_dmv [simp]: "arm_ok x (arm_dmv x)"
  unfolding arm_dmv_def Let_def by (intro arm_rules) (simp_all add: arel_def bits_at_3)

lemma ok_arm_l_long_addsub [simp]: "arm_ok x (arm_l_long_addsub x)"
  unfolding arm_l_long_addsub_def Let_def by (intro arm_rules) (simp_all add: arel_def bits_at_3)

lemma ok_arm_abs [simp]: "arm_ok x (arm_abs x)"
  unfolding arm_abs_def Let_def by (intro arm_rules) (simp_all add: arel_def bits_at_3)

lemma ok_arm_cmp_long [simp]: "arm_ok x (arm_cmp_long x)"
  unfolding arm_cmp_long_def Let_def by (intro arm_rules) (simp_all add: arel_def bits_at_3)

lemma ok_arm_shift_long [simp]: "arm_ok x (arm_shift_long x)"
  unfolding arm_shift_long_def Let_def by (intro arm_rules) (simp_all add: arel_def bits_at_3)

lemma ok_arm_mpy32 [simp]: "arm_ok x (arm_mpy32 x)"
  unfolding arm_mpy32_def Let_def by (intro arm_rules) (simp_all add: arel_def bits_at_3)

lemma ok_arm_mpy16 [simp]: "arm_ok x (arm_mpy16 x)"
  unfolding arm_mpy16_def Let_def by (intro arm_rules) (simp_all add: arel_def bits_at_3)

lemma ok_arm_smpy16 [simp]: "arm_ok x (arm_smpy16 x)"
  unfolding arm_smpy16_def Let_def by (intro arm_rules) (simp_all add: arel_def bits_at_3)

lemma ok_arm_mpy_half32 [simp]: "arm_ok x (arm_mpy_half32 x)"
  unfolding arm_mpy_half32_def Let_def by (intro arm_rules) (simp_all add: arel_def bits_at_3)

lemma ok_arm_mvd [simp]: "arm_ok x (arm_mvd x)"
  unfolding arm_mvd_def Let_def by (intro arm_rules) (simp_all add: arel_def bits_at_3)

lemma ok_arm_cmpy [simp]: "arm_ok x (arm_cmpy x)"
  unfolding arm_cmpy_def Let_def by (intro arm_rules) (simp_all add: arel_def bits_at_3)

lemma ok_arm_dotp [simp]: "arm_ok x (arm_dotp x)"
  unfolding arm_dotp_def Let_def by (intro arm_rules) (simp_all add: arel_def bits_at_3)

lemma ok_arm_gmpy_word [simp]: "arm_ok x (arm_gmpy_word x)"
  unfolding arm_gmpy_word_def Let_def by (intro arm_rules) (simp_all add: arel_def bits_at_3)

lemma ok_arm_mpyi [simp]: "arm_ok x (arm_mpyi x)"
  unfolding arm_mpyi_def Let_def by (intro arm_rules) (simp_all add: arel_def bits_at_3)

lemma ok_arm_mpy2_gmpy4 [simp]: "arm_ok x (arm_mpy2_gmpy4 x)"
  unfolding arm_mpy2_gmpy4_def Let_def by (intro arm_rules) (simp_all add: arel_def bits_at_3)

lemma ok_arm_packed16_m [simp]: "arm_ok x (arm_packed16_m x)"
  unfolding arm_packed16_m_def Let_def by (intro arm_rules) (simp_all add: arel_def bits_at_3)

lemma ok_arm_packbits_m [simp]: "arm_ok x (arm_packbits_m x)"
  unfolding arm_packbits_m_def Let_def by (intro arm_rules) (simp_all add: arel_def bits_at_3)

lemma ok_arm_packbits_dual [simp]: "arm_ok x (arm_packbits_dual x)"
  unfolding arm_packbits_dual_def Let_def by (intro arm_rules) (simp_all add: arel_def bits_at_3)

lemma ok_arm_intsp [simp]: "arm_ok x (arm_intsp x)"
  unfolding arm_intsp_def Let_def by (intro arm_rules) (simp_all add: arel_def bits_at_3)

lemma ok_arm_spint [simp]: "arm_ok x (arm_spint x)"
  unfolding arm_spint_def Let_def by (intro arm_rules) (simp_all add: arel_def bits_at_3)

lemma ok_arm_abssp [simp]: "arm_ok x (arm_abssp x)"
  unfolding arm_abssp_def Let_def by (intro arm_rules) (simp_all add: arel_def bits_at_3)

lemma ok_arm_cmpsp [simp]: "arm_ok x (arm_cmpsp x)"
  unfolding arm_cmpsp_def Let_def by (intro arm_rules) (simp_all add: arel_def bits_at_3)

lemma ok_arm_addsubsp [simp]: "arm_ok x (arm_addsubsp x)"
  unfolding arm_addsubsp_def Let_def by (intro arm_rules) (simp_all add: arel_def bits_at_3)

lemma ok_arm_mpysp [simp]: "arm_ok x (arm_mpysp x)"
  unfolding arm_mpysp_def Let_def by (intro arm_rules) (simp_all add: arel_def bits_at_3)

lemma ok_arm_approx [simp]: "arm_ok x (arm_approx host x)"
  unfolding arm_approx_def Let_def by (intro arm_rules) (simp_all add: arel_def bits_at_3)

lemma ok_arm_two_cycle_dp [simp]: "arm_ok x (arm_two_cycle_dp x)"
  unfolding arm_two_cycle_dp_def Let_def by (intro arm_rules) (simp_all add: arel_def bits_at_3)

lemma ok_arm_addsubdp [simp]: "arm_ok x (arm_addsubdp x)"
  unfolding arm_addsubdp_def Let_def by (intro arm_rules) (simp_all add: arel_def bits_at_3)

lemma ok_arm_mpydp [simp]: "arm_ok x (arm_mpydp x)"
  unfolding arm_mpydp_def Let_def by (intro arm_rules) (simp_all add: arel_def bits_at_3)

lemma ok_arm_dp_convert [simp]: "arm_ok x (arm_dp_convert x)"
  unfolding arm_dp_convert_def Let_def by (intro arm_rules) (simp_all add: arel_def bits_at_3)

lemma ok_arm_intdp [simp]: "arm_ok x (arm_intdp x)"
  unfolding arm_intdp_def Let_def by (intro arm_rules) (simp_all add: arel_def bits_at_3)

lemma packed8_stage: "packed8_operation op s1 s2 = Some (v, stage, pair) \<Longrightarrow> 1 \<le> stage \<and> stage \<le> 11"
  by (simp add: packed8_operation_def split: if_splits)

lemma ok_arm_packed8 [simp]: "arm_ok x (arm_packed8 x)"
  unfolding arm_packed8_def Let_def by (intro arm_rules) (simp_all add: arel_def packed8_stage [simplified])

lemma queue_result_room: "queue_result t v st d n q y = Inr z \<Longrightarrow> length (loads (out z)) = Suc (length (loads (out y)))"
  by (auto simp: queue_result_def reject_def update_out_def split: if_splits)

lemma faucr_load_due [simp]: "ld_due (faucr_load t st) = t"
  by (simp add: faucr_load_def)

lemma ok_arm_cmpdp [simp]: "arm_ok x (arm_cmpdp x)"
  unfolding arm_cmpdp_def Let_def
  by (intro arm_rules) (auto simp: arel_def dp_queue_def dest!: queue_result_room split: if_splits)

end
