(* ===== verification/C674x_Bus_Keeps.thy ===== *)
theory C674x_Bus_Keeps
  imports C674x_Step
begin

text \<open>
  A property of the client's state that the three bus callbacks keep, as the locale \<open>bus_keeps\<close>: every transfer and
  the fetch of a packet keep it too, whether they stop or not.
\<close>

section \<open>Outcomes\<close>

text \<open>A call on the bus keeps \<open>I\<close> of the client's state whether it stops or not, and what it returns has \<open>P\<close>.\<close>

definition outcome :: "('m \<Rightarrow> bool) \<Rightarrow> ('a \<Rightarrow> bool) \<Rightarrow> ('e + 'a) \<times> 'm \<Rightarrow> bool" where
  "outcome I P c \<longleftrightarrow> I (snd c) \<and> (\<forall>y. fst c = Inr y \<longrightarrow> P y)"

named_theorems outcome_rules

lemma outcome_pair: "I m \<Longrightarrow> (\<And>y. r = Inr y \<Longrightarrow> P y) \<Longrightarrow> outcome I P (r, m)"
  by (simp add: outcome_def)

lemma outcome_stop [outcome_rules]: "I m \<Longrightarrow> outcome I P (Inl e, m)"
  by (simp add: outcome_def)

lemma outcome_return [outcome_rules]: "I m \<Longrightarrow> P y \<Longrightarrow> outcome I P (Inr y, m)"
  by (simp add: outcome_def)

lemma outcome_if [outcome_rules]: "(p \<Longrightarrow> outcome I P c) \<Longrightarrow> (\<not> p \<Longrightarrow> outcome I P d) \<Longrightarrow> outcome I P (if p then c else d)"
  by simp

lemma outcome_option [outcome_rules]:
  "(q = None \<Longrightarrow> outcome I P c) \<Longrightarrow> (\<And>v. q = Some v \<Longrightarrow> outcome I P (f v)) \<Longrightarrow>
    outcome I P (case q of None \<Rightarrow> c | Some v \<Rightarrow> f v)"
  by (cases q) auto

lemma outcome_pair_case [outcome_rules]: "(\<And>a b. q = (a, b) \<Longrightarrow> outcome I P (f a b)) \<Longrightarrow> outcome I P (case q of (a, b) \<Rightarrow> f a b)"
  by (cases q) auto

lemma outcome_sum_case:
  "(\<And>e. r = Inl e \<Longrightarrow> outcome I P (g e)) \<Longrightarrow> (\<And>y. r = Inr y \<Longrightarrow> outcome I P (f y)) \<Longrightarrow>
    outcome I P (case r of Inl e \<Rightarrow> g e | Inr y \<Rightarrow> f y)"
  by (cases r) auto

text \<open>Sequencing: the rest of a call runs on what the first part returned.\<close>

lemma outcome_seq:
  assumes "outcome I Q c" "\<And>y m. I m \<Longrightarrow> Q y \<Longrightarrow> outcome I P (f y m)"
  shows "outcome I P (case c of (Inl e, m) \<Rightarrow> (Inl e, m) | (Inr y, m) \<Rightarrow> f y m)"
  using assms by (auto simp: outcome_def split: prod.splits sum.splits)

lemma outcome_mono: "outcome I P c \<Longrightarrow> (\<And>y. P y \<Longrightarrow> Q y) \<Longrightarrow> outcome I Q c"
  by (simp add: outcome_def)

lemma outcome_keeps: "outcome I P c \<Longrightarrow> I (snd c)"
  by (simp add: outcome_def)

lemma outcome_result: "outcome I P c \<Longrightarrow> c = (Inr y, m) \<Longrightarrow> P y"
  by (simp add: outcome_def)

section \<open>What the bus keeps\<close>

text \<open>A property of the client's state that every bus callback keeps is kept by every transfer, and by
  everything built on transfers.\<close>

locale bus_keeps =
  fixes bus :: "'m cpu_bus" and I :: "'m \<Rightarrow> bool"
  assumes read_keeps: "I m \<Longrightarrow> bus_rd bus m a = Some (v, m') \<Longrightarrow> I m'"
    and write_keeps: "I m \<Longrightarrow> bus_wr bus m a d n commit = Some m' \<Longrightarrow> I m'"
    and tick_keeps: "I m \<Longrightarrow> I (bus_tick bus m)"
begin

lemma read_words_keeps: "I m \<Longrightarrow> I (snd (read_words bus address sz got v m))"
proof (induction "sz - got" arbitrary: got v m rule: less_induct)
  case less
  show ?case
  proof (cases "sz \<le> got \<or> bus_rd bus m ((address + of_nat got) AND NOT 3) = None")
    case True
    then show ?thesis using less.prems by (subst read_words.simps) (auto simp: Let_def)
  next
    case False
    then obtain word m' where r: "bus_rd bus m ((address + of_nat got) AND NOT 3) = Some (word, m')" by auto
    have i: "I m'" by (rule read_keeps [OF less.prems r])
    have "\<not> sz \<le> got" using False by simp
    then show ?thesis
      by (subst read_words.simps) (simp only: Let_def r option.case prod.case if_False, rule less.hyps [OF scalar_step i])
  qed
qed

lemma read_scalar_keeps: "I m \<Longrightarrow> I (snd (read_scalar bus address sz m))"
  by (simp add: read_scalar_def read_words_keeps)

lemma read_circular_keeps: "I m \<Longrightarrow> I (snd (read_circular bus address width is v m))"
proof (induction "is" arbitrary: v m)
  case (Cons i "is")
  then show ?case
    using read_scalar_keeps [OF Cons.prems, of "circular_address address (address + of_nat i) width" 1]
    by (auto split: prod.splits option.splits)
qed simp

lemma read_transfer_keeps: "I m \<Longrightarrow> I (snd (read_transfer bus address encoded m))"
  by (simp add: read_transfer_def Let_def read_scalar_keeps read_circular_keeps)

lemma write_circular_keeps: "I m \<Longrightarrow> I (snd (write_circular bus address width v commit is m))"
  by (induction "is" arbitrary: m) (auto split: option.splits intro: write_keeps)

lemma write_transfer_keeps: "I m \<Longrightarrow> I (snd (write_transfer bus address v encoded commit m))"
  by (auto simp: write_transfer_def Let_def write_circular_keeps split: option.splits intro: write_keeps)

lemma probe_keeps: "I m \<Longrightarrow> I (snd (probe bus is_load address data sz m))"
  by (auto simp: probe_def split: prod.splits option.splits intro: write_keeps dest: read_scalar_keeps [of _ address sz])

end

section \<open>Fetch\<close>

text \<open>A compact instruction is 16 bits.\<close>

definition wf_insn :: "instruction \<Rightarrow> bool" where
  "wf_insn insn \<longleftrightarrow> (in_compact insn \<longrightarrow> in_word insn < 0x10000)"

definition wf_fetched :: "instruction list \<times> u32 \<Rightarrow> bool" where
  "wf_fetched = (\<lambda>(insns, _). list_all wf_insn insns \<and> 0 < length insns \<and> length insns \<le> 8)"

definition wf_packet :: "packet \<Rightarrow> bool" where
  "wf_packet p \<longleftrightarrow> list_all wf_insn (pk_instructions p)"

lemma wf_slot: "wf_insn \<lparr>in_word = (if short then w AND 0xFFFF else v), in_pc = at, in_header = h, in_compact = short\<rparr>"
proof -
  have "w AND 0xFFFF < 0x10000" by (rule le_less_trans [OF word_and_le1]) simp
  then show ?thesis by (simp add: wf_insn_def)
qed

lemma skip_measure: "mixed \<and> next_pc AND 31 = 28 \<Longrightarrow> fetch_measure (next_pc + 4) insns < fetch_measure next_pc insns"
  by (simp add: fetch_measure_def header_slot_left)

lemma slot_measure: "\<not> 8 \<le> length insns \<Longrightarrow> fetch_measure after (insns @ [insn]) < fetch_measure next_pc insns"
  by (auto simp: fetch_measure_def)

context bus_keeps
begin

lemma fetch_loop_outcome:
  "I m \<Longrightarrow> list_all wf_insn insns \<Longrightarrow> outcome I wf_fetched (fetch_loop bus cached next_pc insns m)"
proof (induction "fetch_measure next_pc insns" arbitrary: cached next_pc insns m rule: less_induct)
  case less
  have header: "I m'" if "(case cached of Some (at, header) \<Rightarrow> if at = block then Some (header, m) else bus_rd bus m block
                      | None \<Rightarrow> bus_rd bus m block) = Some v" "v = (h, m')" for block v h m'
    using that less.prems by (auto split: option.splits if_splits intro: read_keeps)
  have word: "I m''" if "I m'" "bus_rd bus m' a = Some v" "v = (word, m'')" for m' a v word m''
    using that by (auto intro: read_keeps)
  have wf: "list_all wf_insn (insns @ [insn])" if "wf_insn insn" for insn using less.prems that by simp
  have complete: "wf_fetched (insns @ [insn], after)" if "\<not> 8 \<le> length insns" "wf_insn insn" for insn after
    using that wf by (simp add: wf_fetched_def)
  show ?case
    by (subst fetch_loop.simps, simp only: Let_def, intro outcome_rules)
      (assumption | rule less.prems wf wf_slot less.hyps [OF skip_measure] less.hyps [OF slot_measure]
        | erule (1) header | erule (1) word [rotated] | erule complete)+
qed

lemma fetch_outcome: "I m \<Longrightarrow> outcome I (\<lambda>p. wf_packet p \<and> pk_instructions p \<noteq> []) (fetch bus start m)"
  unfolding fetch_def
  by (intro outcome_seq [OF fetch_loop_outcome]) (auto simp: wf_fetched_def wf_packet_def outcome_def)

end

end
