(* ===== verification/C674x_Issue_Keeps.thy ===== *)
theory C674x_Issue_Keeps
  imports C674x_Pipeline C674x_Bus_Keeps
begin

text \<open>
  Every row of the arm table, every instruction and every packet keeps the pipeline invariant and the bus property.
\<close>

section \<open>The arms of the table\<close>

lemma outcome_arm: "I m \<Longrightarrow> arm_ok x r \<Longrightarrow> outcome I (arel x) (r, m)"
  by (simp add: outcome_def arm_ok_def)

lemma outcome_pure [simp]: "I m \<Longrightarrow> arm_ok x (f x) \<Longrightarrow> outcome I (arel x) (pure f bus x m)"
  by (simp add: pure_def outcome_arm)

lemma outcome_let_arm:
  "arel x e \<Longrightarrow> (\<And>y. arel x y \<Longrightarrow> outcome I (arel x) (f y)) \<Longrightarrow> outcome I (arel x) (let y = e in f y)"
  by simp

lemma outcome_let_pair: "(\<And>a b. q = (a, b) \<Longrightarrow> outcome I P (f a b)) \<Longrightarrow> outcome I P (let (a, b) = q in f a b)"
  by (cases q) simp

lemma outcome_let_value:
  fixes i :: nat and p :: bool and w :: "'a :: len word"
  shows "(\<And>y. outcome I P (f y)) \<Longrightarrow> outcome I P (let y = i in f y)"
    and "(\<And>y. outcome I P (g y)) \<Longrightarrow> outcome I P (let y = p in g y)"
    and "(\<And>y. outcome I P (h y)) \<Longrightarrow> outcome I P (let y = w in h y)"
  by simp_all

lemma outcome_let_cpu: "outcome I P (f cpu) \<Longrightarrow> outcome I P (let y = cpu :: cpu in f y)"
  by simp

lemma outcome_let_function: "outcome I P (f g) \<Longrightarrow> outcome I P (let y = g :: arm \<Rightarrow> 'a in f y)"
  by simp

context bus_keeps
begin

lemma outcome_scalar_memory [simp]: "I m \<Longrightarrow> outcome I (arel x) (arm_scalar_memory bus x m)"
proof -
  assume m: "I m"
  have probe: "I m'" if "(if p then (False, m) else if q then write_transfer bus a v n False m
      else case read_transfer bus a k m of (r, m) \<Rightarrow> (r \<noteq> None, m)) = (ok, m')" for p q a v n k ok m'
    using that m write_transfer_keeps [OF m, of a v n False] read_transfer_keeps [OF m, of a k]
    by (auto split: if_splits prod.splits)
  show ?thesis
    unfolding arm_scalar_memory_def
    apply (intro outcome_let_arm outcome_let_pair outcome_let_value outcome_let_cpu outcome_let_function outcome_if outcome_option outcome_pair_case outcome_arm arm_rules m)
    apply (assumption | erule probe | (simp add: arel_def update_out_def; fail))+
    done
qed

lemma table_outcome: "list_all (\<lambda>e. \<forall>x m. I m \<longrightarrow> outcome I (arel x) (en_run e bus x m)) arm_table"
  by (simp add: arm_table_def entry_def)

end

section \<open>Issue\<close>

definition issue_inv :: "cpu \<Rightarrow> issue \<Rightarrow> bool" where
  "issue_inv cpu st \<longleftrightarrow> keeps cpu (out st) \<and> timing_ok (packet_timing st)"

definition issue_ok :: "cpu \<Rightarrow> stopped + issue \<Rightarrow> bool" where
  "issue_ok cpu r \<longleftrightarrow> (\<forall>st. r = Inr st \<longrightarrow> issue_inv cpu st)"

named_theorems issue_rules

lemma issue_inv_updates [simp]:
  "issue_inv cpu (st\<lparr>written := wr\<rparr>) = issue_inv cpu st" "issue_inv cpu (st\<lparr>controls := co\<rparr>) = issue_inv cpu st"
  "issue_inv cpu (st\<lparr>memory_count := n\<rparr>) = issue_inv cpu st"
  by (simp_all add: issue_inv_def)

lemma issue_inv_out: "issue_inv cpu st \<Longrightarrow> (keeps cpu (out st) \<Longrightarrow> keeps cpu (f (out st))) \<Longrightarrow> issue_inv cpu (on_out f st)"
  by (simp add: issue_inv_def on_out_def)

lemma issue_inv_timing: "issue_inv cpu st \<Longrightarrow> timing_ok t \<Longrightarrow> issue_inv cpu (st\<lparr>packet_timing := t\<rparr>)"
  by (simp add: issue_inv_def)

lemma issue_ok_refuse [issue_rules]: "issue_ok cpu (refuse insn why)"
  by (simp add: issue_ok_def refuse_def)

lemma issue_ok_Inr: "issue_inv cpu st \<Longrightarrow> issue_ok cpu (Inr st)"
  by (simp add: issue_ok_def)

lemma issue_ok_if [issue_rules]: "(p \<Longrightarrow> issue_ok cpu r) \<Longrightarrow> (\<not> p \<Longrightarrow> issue_ok cpu s) \<Longrightarrow> issue_ok cpu (if p then r else s)"
  by simp

lemma issue_ok_bind [issue_rules]:
  "issue_ok cpu r \<Longrightarrow> (\<And>st. issue_inv cpu st \<Longrightarrow> issue_ok cpu (f st)) \<Longrightarrow> issue_ok cpu (bind r f)"
  by (auto simp: issue_ok_def bind_def split: sum.splits)

lemma issue_ok_option [issue_rules]:
  "(q = None \<Longrightarrow> issue_ok cpu r) \<Longrightarrow> (\<And>v. q = Some v \<Longrightarrow> issue_ok cpu (f v)) \<Longrightarrow>
    issue_ok cpu (case q of None \<Rightarrow> r | Some v \<Rightarrow> f v)"
  by (cases q) auto

section \<open>Its parts\<close>

lemma ok_write_register [issue_rules]: "issue_inv cpu st \<Longrightarrow> issue_ok cpu (write_register insn side d v st)"
  by (simp add: write_register_def issue_ok_refuse issue_ok_Inr issue_inv_out)

lemma keeps_control_effect: "keeps cpu c \<Longrightarrow> keeps cpu (control_effect now d v c)"
  by (simp add: control_effect_def Let_def)

lemma ok_write_control [issue_rules]: "issue_inv cpu st \<Longrightarrow> issue_ok cpu (write_control insn (cycles cpu) d v st)"
  unfolding write_control_def Let_def
  by (intro issue_rules issue_ok_Inr)
    (auto simp: interrupt_flag_load_def intro!: issue_inv_out keeps_append_load keeps_control_effect)

lemma ok_with_timing: "issue_inv cpu st \<Longrightarrow> (\<And>t'. t = Some t' \<Longrightarrow> timing_ok t') \<Longrightarrow> issue_ok cpu (with_timing insn t st)"
  unfolding with_timing_def by (intro issue_rules issue_ok_Inr issue_inv_timing) auto

lemma ok_multicycle [issue_rules]:
  "issue_inv cpu st \<Longrightarrow> n \<le> 9 \<Longrightarrow> issue_ok cpu (with_timing insn (packet_multicycle n (packet_timing st)) st)"
  by (rule ok_with_timing) (auto simp: issue_inv_def intro: packet_multicycle_bound)

lemma ok_protected [issue_rules]:
  "issue_inv cpu st \<Longrightarrow> issue_ok cpu (with_timing insn (packet_protected_load (packet_timing st)) st)"
  by (rule ok_with_timing) (auto simp: issue_inv_def packet_protected_load_def timing_ok_def split: if_splits)

lemma ok_issue_nop [issue_rules]: "issue_inv cpu st \<Longrightarrow> issue_ok cpu (issue_nop insn st)"
  unfolding issue_nop_def Let_def
  by (intro issue_rules ok_with_timing)
    (auto simp: issue_inv_def packet_idle_def packet_nop_def timing_ok_def Let_def split: if_splits)

lemma ok_take_branch [issue_rules]:
  assumes "issue_inv cpu st"
  shows "issue_ok cpu (take_branch insn why (cycles cpu + 6) target st)"
proof -
  have "keeps cpu c" if "queue_branch (cycles cpu + 6) target (out st) = Some c" for c
    using that assms by (auto simp: issue_inv_def intro: keeps_queue_branch)
  then show ?thesis
    using assms unfolding take_branch_def by (intro issue_rules issue_ok_Inr) (simp add: issue_inv_def)
qed

lemma ok_issue_callp [issue_rules]: "issue_inv cpu st \<Longrightarrow> issue_ok cpu (issue_callp (cycles cpu) p i insn w compact st)"
  unfolding issue_callp_def Let_def
  by (intro issue_rules issue_inv_timing) (auto simp: issue_inv_def intro: packet_multicycle_bound)

lemma compact_top: "(w :: u32) < 0x10000 \<Longrightarrow> unat (shr w 13) \<le> 7"
  using less_mult_imp_div_less [of "unat w" 8 8192] by (simp add: word_less_nat_alt drop_bit_eq_div unat_div)

lemma ok_compact_bnop_reg [issue_rules]:
  "issue_inv cpu st \<Longrightarrow> in_word insn < 0x10000 \<Longrightarrow> issue_ok cpu (issue_compact_bnop_reg cpu insn st)"
  unfolding issue_compact_bnop_reg_def Let_def
  by (intro issue_rules) (use compact_top [of "in_word insn"] in simp_all)

lemma ok_compact_bnop [issue_rules]:
  "issue_inv cpu st \<Longrightarrow> in_word insn < 0x10000 \<Longrightarrow> issue_ok cpu (issue_compact_bnop cpu insn st)"
  unfolding issue_compact_bnop_def Let_def
  by (intro issue_rules issue_ok_Inr) (use compact_top [of "in_word insn"] in simp_all)

lemma ok_compact_ilc [issue_rules]: "issue_inv cpu st \<Longrightarrow> issue_ok cpu (issue_compact_ilc cpu insn st)"
  unfolding issue_compact_ilc_def by (intro issue_rules issue_ok_Inr) (simp add: issue_inv_out)

lemma ok_queue_store [issue_rules]: "issue_inv cpu st \<Longrightarrow> issue_ok cpu (queue_store insn (plain_store (cycles cpu) a d n) st)"
  unfolding queue_store_def
  by (intro issue_rules issue_ok_Inr issue_inv_out) (simp_all add: keeps_append_store plain_store_def)

lemma ok_queue_load [issue_rules]:
  "issue_inv cpu st \<Longrightarrow> issue_ok cpu (queue_load insn p (plain_load (cycles cpu) a b d n) st)"
  unfolding queue_load_def
  by (intro issue_rules issue_ok_Inr issue_inv_out) (simp_all add: keeps_append_load plain_load_def)

lemma ok_issue_gate [issue_rules]: "issue_inv cpu st \<Longrightarrow> issue_ok cpu (issue_gate cpu p i insn gate st)"
  unfolding issue_gate_def Let_def by (intro issue_rules issue_ok_Inr issue_inv_out) simp_all

lemma issue_inv_arm:
  "issue_inv cpu st \<Longrightarrow> arel (decode_arm cpu p i insn w st) y \<Longrightarrow> issue_inv cpu (issue.truncate y) \<and> x_cpu y = cpu \<and> x_insn y = insn"
  by (auto simp: issue_inv_def arel_def decode_arm_def issue.defs arm.defs Let_def intro: keeps_trans dest: keeps_cycles)

lemma ok_commit_arm:
  "issue_inv cpu st \<Longrightarrow> arel (decode_arm cpu p i insn w st) y \<Longrightarrow> issue_ok cpu (commit_arm y)"
  unfolding commit_arm_def Let_def by (frule (1) issue_inv_arm) (auto intro!: issue_rules issue_ok_Inr)


section \<open>One instruction, and the packet\<close>

abbreviation (input) issues :: "('m \<Rightarrow> bool) \<Rightarrow> cpu \<Rightarrow> (stopped + issue) \<times> 'm \<Rightarrow> bool" where
  "issues I cpu \<equiv> outcome I (issue_inv cpu)"

lemma outcome_issue [outcome_rules]: "I m \<Longrightarrow> issue_ok cpu r \<Longrightarrow> issues I cpu (r, m)"
  by (simp add: outcome_def issue_ok_def)

lemma outcome_let_issue:
  "issue_inv cpu e \<Longrightarrow> (\<And>y. issue_inv cpu y \<Longrightarrow> issues I cpu (f y)) \<Longrightarrow> issues I cpu (let y = e in f y)"
  by simp

context bus_keeps
begin

lemma probe_pair: "probe bus is_load a d n m = (ok, m') \<Longrightarrow> I m \<Longrightarrow> I m'"
  using probe_keeps [of m is_load a d n] by simp

lemma outcome_b15: "I m \<Longrightarrow> issue_inv cpu st \<Longrightarrow> issues I cpu (issue_b15 bus cpu insn st m)"
  unfolding issue_b15_def Let_def
  by (intro outcome_rules issue_rules) (auto dest: probe_pair split: if_splits)

lemma outcome_stack: "I m \<Longrightarrow> issue_inv cpu st \<Longrightarrow> issues I cpu (issue_stack bus cpu insn st m)"
  unfolding issue_stack_def Let_def
  by (intro outcome_rules issue_rules) (auto dest: probe_pair split: if_splits)

lemma outcome_compact:
  assumes "I m" "issue_inv cpu st" "in_word insn < 0x10000"
  shows "issues I cpu (issue_compact bus cpu insn st m)"
proof -
  have commit: "issues I cpu (case r of Simple_skip \<Rightarrow> Inr st | Simple_refuse why \<Rightarrow> refuse insn why
      | Simple_write side d v \<Rightarrow> write_register insn side d v st | Simple_none \<Rightarrow> Inr st, m)" for r
    using assms(1,2) by (cases r) (auto intro!: outcome_issue issue_rules issue_ok_Inr)
  have rest: "issues I cpu (if p then (issue_compact_bnop_reg cpu insn st, m)
      else if q then (issue_compact_ilc cpu insn st, m) else if r then (issue_compact_bnop cpu insn st, m)
      else if s then issue_b15 bus cpu insn st m else if t then issue_stack bus cpu insn st m
      else (case compact_rest cpu insn of Simple_skip \<Rightarrow> Inr st | Simple_refuse why \<Rightarrow> refuse insn why
        | Simple_write side d v \<Rightarrow> write_register insn side d v st | Simple_none \<Rightarrow> Inr st, m))" for p q r s t
    by (intro outcome_if outcome_issue issue_rules outcome_b15 outcome_stack commit assms)
  show ?thesis
    unfolding issue_compact_def Let_def
    using rest commit [of "compact_simple cpu insn"] by (cases "compact_simple cpu insn") simp_all
qed

lemma outcome_full:
  assumes "I m" "issue_inv cpu st"
  shows "issues I cpu (issue_full bus cpu p i insn w st m)"
proof -
  let ?x = "decode_arm cpu p i insn w st"
  have arm: "issues I cpu (case en_run e bus ?x m of (r, m) \<Rightarrow> (bind r commit_arm, m))" if "arm_lookup ?x = Some e" for e
  proof -
    have "e \<in> set arm_table" using that by (auto simp: arm_lookup_def find_Some_iff)
    then have "outcome I (arel ?x) (en_run e bus ?x m)" using table_outcome assms(1) by (simp add: list_all_iff)
    then show ?thesis
      by (auto simp: outcome_def bind_def issue_ok_def split: prod.splits sum.splits
          dest: ok_commit_arm [OF assms(2), unfolded issue_ok_def, rule_format])
  qed
  show ?thesis
    unfolding issue_full_def Let_def
    by (intro outcome_if outcome_option outcome_issue issue_rules arm assms)
qed

lemma outcome_one:
  assumes "I m" "issue_inv cpu st" "wf_insn insn"
  shows "issues I cpu (issue_one bus cpu p i insn st m)"
proof -
  have lowered: "in_word insn < 0x10000" if "lower insn = (w, True)" for w
    using that assms(3) by (auto simp: lower_def wf_insn_def split: if_splits option.splits)
  have body: "issues I cpu (case lower insn of (w, compact) \<Rightarrow>
      if is_callp insn w compact then (issue_callp (cycles cpu) p i insn w compact st', m)
      else if compact then issue_compact bus cpu insn st' m
      else case interrupt_gate_decode insn of
          Gate_none \<Rightarrow> issue_full bus cpu p i insn w st' m
        | gate \<Rightarrow> (issue_gate cpu p i insn gate st', m))" if "issue_inv cpu st'" for st'
    using assms(1) that lowered
    by (auto intro!: outcome_issue issue_rules outcome_compact outcome_full split: prod.splits interrupt_gate.splits)
  have protected: "issue_ok cpu (if q then with_timing insn (packet_protected_load (packet_timing st)) st else Inr st)" for q
    using assms(2) by (auto intro!: issue_rules issue_ok_Inr)
  have mask: "issue_ok cpu (if q then refuse insn Spmask_position else Inr st)" for q
    using assms(2) by (auto intro!: issue_rules issue_ok_Inr)
  have start: "issue_inv cpu st'" if "(if q then with_timing insn (packet_protected_load (packet_timing st)) st else Inr st) = Inr st'" for q st'
    using protected [of q] that by (simp add: issue_ok_def)
  show ?thesis
    unfolding issue_one_def
    by (intro outcome_if outcome_issue mask ok_issue_nop outcome_sum_case outcome_stop assms body) (erule start)
qed

lemma outcome_packet:
  "I m \<Longrightarrow> issue_inv cpu st \<Longrightarrow> list_all wf_insn insns \<Longrightarrow> issues I cpu (issue_packet bus cpu p i insns st m)"
proof (induction insns arbitrary: i st m)
  case (Cons insn insns)
  then show ?case by (auto intro!: outcome_seq [OF outcome_one])
qed (simp add: outcome_return)

end

end
