(* ===== verification/C674x_Execute_Keeps.thy ===== *)
theory C674x_Execute_Keeps
  imports C674x_Issue_Keeps
begin

text \<open>
  The cycles of a packet: what one retires, that the pipeline invariant survives it, and the execution of a packet.
\<close>

section \<open>Retirement\<close>

text \<open>What a cycle of a packet leaves alone.\<close>

definition run_frame :: "cpu \<Rightarrow> cpu \<Rightarrow> bool" where
  "run_frame c c' \<longleftrightarrow>
     loop_state c' = loop_state c \<and> loop_instructions c' = loop_instructions c \<and> packets c' = packets c \<and>
     fault c' = fault c \<and> loop_wait c' = loop_wait c \<and> loop_tags c' = loop_tags c \<and> loop_packets c' = loop_packets c \<and>
     loop_pred_history c' = loop_pred_history c"

lemma run_frame_refl [simp]: "run_frame c c"
  by (simp add: run_frame_def)

lemma run_frame_trans: "run_frame a b \<Longrightarrow> run_frame b c \<Longrightarrow> run_frame a c"
  by (simp add: run_frame_def)

lemma same_frame_run: "same_frame c c' \<Longrightarrow> run_frame c c'"
  by (simp add: same_frame_def run_frame_def)

text \<open>What a load in the queue asks for: everything but the value it has sampled.\<close>

definition unsampled :: "load \<Rightarrow> load" where
  "unsampled l = l\<lparr>ld_value := 0\<rparr>"

lemma unsampled_due: "unsampled l = unsampled l' \<Longrightarrow> ld_due l = ld_due l'"
  by (cases l, cases l') (simp add: unsampled_def)

lemma sample_unsampled: "sample_load bus now l m = (Some l', m') \<Longrightarrow> unsampled l' = unsampled l"
  by (auto simp: sample_load_def unsampled_def split: if_splits prod.splits option.splits)

lemma retire_stores_filter:
  "retire_stores bus now ss m = (Some kept, m') \<Longrightarrow> kept = List.filter (\<lambda>s. now < st_due s) ss"
  by (induction ss arbitrary: m kept) (auto split: if_splits prod.splits bool.splits)

definition retired_frame :: "cpu \<Rightarrow> cpu \<Rightarrow> bool" where
  "retired_frame c c' \<longleftrightarrow>
     run_frame c c' \<and> cycles c' = cycles c \<and> stores c' = stores c \<and> branch_due c' = branch_due c \<and>
     branch_queue c' = branch_queue c \<and> branch_target c' = branch_target c \<and> pc c' = pc c \<and> loop_active c' = loop_active c \<and>
     loop_context c' = loop_context c"

lemma retired_frame_steps:
  "retired_frame c (apply_flags ls c)" "retired_frame c (retire_result l c)" "retired_frame c (c\<lparr>loads := ls\<rparr>)"
  by (simp_all add: retired_frame_def run_frame_def apply_flags_def retire_result_def Let_def set_control_def set_reg_def)

lemma retired_frame_trans: "retired_frame a b \<Longrightarrow> retired_frame b c \<Longrightarrow> retired_frame a c"
  by (auto simp: retired_frame_def dest: run_frame_trans)

lemma retire_loads_filter:
  assumes "retire_loads bus cpu kept rest m = (Some cpu', m')" "list_all (\<lambda>l. cycles cpu < ld_due l) kept"
  shows "retired_frame cpu cpu' \<and>
    map unsampled (loads cpu') = map unsampled (List.filter (\<lambda>l. cycles cpu < ld_due l) (kept @ rest))"
  using assms
proof (induction bus cpu kept rest m arbitrary: rule: retire_loads.induct)
  case (1 bus cpu kept m)
  then show ?case by (auto simp: retire_loads.simps list_all_iff retired_frame_steps)
next
  case (2 bus cpu kept l0 rest m)
  let ?now = "cycles cpu"
  obtain l m1 where s: "sample_load bus ?now l0 m = (Some l, m1)"
    using "2.prems" by (auto simp: retire_loads.simps split: prod.splits option.splits)
  note u = sample_unsampled [OF s]
  note step = retire_loads.simps(2) [of bus cpu kept l0 rest m, unfolded s, simplified]
  consider (later) "?now < ld_due l" | (flag) "\<not> ?now < ld_due l" "interrupt_flag_effect ?now l0"
    | (result) "\<not> ?now < ld_due l" "\<not> interrupt_flag_effect ?now l0" by blast
  then show ?case
  proof cases
    case later
    then have "ld_due l0 > ?now" using unsampled_due [OF u] by simp
    then show ?thesis using "2.IH"(1) [OF s [symmetric] refl later] "2.prems" step later u by simp
  next
    case flag
    have n: "cycles (apply_flags (l0 # rest) cpu) = ?now" by (simp add: apply_flags_def set_control_def)
    have "List.filter (\<lambda>l. ?now < ld_due l) (List.filter (\<lambda>l. \<not> interrupt_flag_effect ?now l) xs) =
      List.filter (\<lambda>l. ?now < ld_due l) xs" for xs
      by (auto simp: filter_filter interrupt_flag_effect_def intro!: filter_cong)
    then show ?thesis
      using "2.IH"(2) [OF s [symmetric] refl flag] "2.prems" step flag n unsampled_due [OF u]
        retired_frame_trans [OF retired_frame_steps(1)] by auto
  next
    case result
    then have "\<not> ld_due l0 > ?now" using unsampled_due [OF u] by simp
    moreover have "cycles (retire_result l cpu) = ?now" using retired_frame_steps(2) [of cpu l] by (simp add: retired_frame_def)
    ultimately show ?thesis
      using "2.IH"(3) [OF s [symmetric] refl result] "2.prems" step result
        retired_frame_trans [OF retired_frame_steps(2)] by auto
  qed
qed

section \<open>One cycle\<close>

lemma complete_branch_frame:
  assumes "complete_branch c = Inr c'"
  shows "run_frame c c' \<and> cycles c' = cycles c \<and> stores c' = stores c \<and> loads c' = loads c \<and> pc c' = branch_target c \<and>
    \<not> loop_active c' \<and> branch_due c' = (case branch_queue c of [] \<Rightarrow> 0 | b # _ \<Rightarrow> fst b) \<and>
    branch_queue c' = tl (branch_queue c)"
  using assms
  by (auto simp: complete_branch_def next_branch_def Let_def run_frame_def loop_set_active_def
      loop_clear_interrupt_phase_def loop_set_interrupt_phase_def set_control_def set_ready_def
      split: if_splits list.splits)

lemma run_cycle_frame:
  assumes "run_cycle bus at cpu m = (Inr (branched, cpu'), m')"
  shows "run_frame cpu cpu' \<and> cycles cpu' = cycles cpu + 1 \<and>
    stores cpu' = List.filter (\<lambda>s. cycles cpu + 1 < st_due s) (stores cpu) \<and>
    map unsampled (loads cpu') = map unsampled (List.filter (\<lambda>l. cycles cpu + 1 < ld_due l) (loads cpu)) \<and>
    (branched \<longleftrightarrow> branch_due cpu \<noteq> 0 \<and> branch_due cpu = cycles cpu + 1) \<and>
    (if branched then pc cpu' = branch_target cpu \<and> \<not> loop_active cpu' \<and>
       branch_due cpu' = (case branch_queue cpu of [] \<Rightarrow> 0 | b # _ \<Rightarrow> fst b) \<and> branch_queue cpu' = tl (branch_queue cpu)
     else pc cpu' = pc cpu \<and> branch_due cpu' = branch_due cpu \<and> branch_queue cpu' = branch_queue cpu)"
proof -
  let ?c = "cpu\<lparr>cycles := cycles cpu + 1\<rparr>"
  obtain ss m1 c2 m2 where ss: "retire_stores bus (cycles cpu + 1) (stores cpu) (bus_tick bus m) = (Some ss, m1)"
    and c2: "retire_loads bus (?c\<lparr>stores := ss\<rparr>) [] (loads cpu) m1 = (Some c2, m2)"
    and e: "(if branch_due c2 \<noteq> 0 \<and> cycles c2 = branch_due c2
      then bind (complete_branch c2) (\<lambda>cpu. Inr (True, cpu)) else Inr (False, c2)) = Inr (branched, cpu')"
    using assms by (auto simp: run_cycle_def Let_def split: prod.splits option.splits)
  have r: "retired_frame (?c\<lparr>stores := ss\<rparr>) c2"
    "map unsampled (loads c2) = map unsampled (List.filter (\<lambda>l. cycles cpu + 1 < ld_due l) (loads cpu))"
    using retire_loads_filter [OF c2] by simp_all
  have f: "run_frame cpu c2" "cycles c2 = cycles cpu + 1" "stores c2 = ss" "branch_due c2 = branch_due cpu"
    "branch_queue c2 = branch_queue cpu" "branch_target c2 = branch_target cpu" "pc c2 = pc cpu"
    using r(1) by (auto simp: retired_frame_def run_frame_def)
  show ?thesis
  proof (cases "branch_due c2 \<noteq> 0 \<and> cycles c2 = branch_due c2")
    case True
    then obtain c3 where c3: "complete_branch c2 = Inr c3" and b: "branched" "cpu' = c3"
      using e by (auto simp: bind_def split: sum.splits)
    then show ?thesis using True complete_branch_frame [OF c3] f r(2) retire_stores_filter [OF ss]
      by (simp add: run_frame_trans [OF f(1)])
  next
    case False
    then show ?thesis using e f r(2) retire_stores_filter [OF ss] by auto
  qed
qed

section \<open>The pipeline in a cycle\<close>

lemma due_within_next:
  assumes "due_within now n t" "now + 1 < t" "unat now + 64 < 2 ^ 64"
  shows "due_within (now + 1) n t"
  using assms unat_add_due [of now 1] by (simp add: due_within_def word_less_nat_alt)

lemma due_within_least: "due_within now n t \<Longrightarrow> unat now + 64 < 2 ^ 64 \<Longrightarrow> now + 1 \<le> t"
  using unat_add_due [of now 1] by (simp add: due_within_def word_le_nat_alt)

lemma unsampled_dues: "map unsampled ls = map unsampled ls' \<Longrightarrow> map ld_due ls = map ld_due ls'"
proof -
  have d: "map ld_due xs = map ld_due (map unsampled xs)" for xs by (induction xs) (simp_all add: unsampled_def)
  assume "map unsampled ls = map unsampled ls'"
  then show ?thesis using d [of ls] d [of ls'] by simp
qed

lemma run_cycle_pipeline:
  assumes r: "run_cycle bus at cpu m = (Inr (branched, cpu'), m')" and room: "unat (cycles cpu) + 64 < 2 ^ 64"
    and ok: "pipeline_ok cpu"
  shows "pipeline_ok cpu'"
proof -
  note f = run_cycle_frame [OF r]
  let ?now = "cycles cpu + 1"
  have stores: "length (stores cpu') \<le> 24" "list_all (\<lambda>s. due_within ?now 3 (st_due s)) (stores cpu')"
    using f ok le_trans [OF length_filter_le] by (auto simp: pipeline_ok_def list_all_iff intro: due_within_next [OF _ _ room])
  have ds: "map ld_due (loads cpu') = map ld_due (List.filter (\<lambda>l. ?now < ld_due l) (loads cpu))"
    using f by (blast intro: unsampled_dues)
  then have "length (loads cpu') = length (List.filter (\<lambda>l. ?now < ld_due l) (loads cpu))" by (metis length_map)
  then have l: "length (loads cpu') \<le> 40" using ok le_trans [OF length_filter_le] by (auto simp: pipeline_ok_def)
  have "list_all (due_within ?now 11) (map ld_due (loads cpu'))"
    unfolding ds using ok by (auto simp: pipeline_ok_def list_all_iff intro: due_within_next [OF _ _ room])
  then have loads: "list_all (\<lambda>l. due_within ?now 11 (ld_due l)) (loads cpu')" by (simp add: list_all_iff)
  have sorted: "sorted_wrt (<) (branch_dues cpu)" and within: "list_all (due_within (cycles cpu) 6) (branch_dues cpu)"
    and idle: "branch_due cpu = 0 \<longrightarrow> branch_queue cpu = []"
    using ok by (simp_all add: pipeline_ok_def)
  have nonzero: "t \<noteq> 0" if "due_within (cycles cpu) 6 t" for t using that by (auto simp: due_within_def)
  have branches: "branch_dues cpu' = List.filter (\<lambda>t. ?now < t) (branch_dues cpu) \<and> (branch_due cpu' = 0 \<longrightarrow> branch_queue cpu' = [])"
  proof (cases "branch_due cpu = 0")
    case True
    then show ?thesis using f idle by (auto simp: branch_dues_def)
  next
    case False
    then have d: "branch_dues cpu = branch_due cpu # map fst (branch_queue cpu)" by (simp add: branch_dues_def)
    have later: "\<forall>t\<in>set (map fst (branch_queue cpu)). branch_due cpu < t" using sorted d by simp
    have least: "?now \<le> branch_due cpu" using within d due_within_least [OF _ room, of 6] by simp
    have nz: "\<forall>t\<in>set (map fst (branch_queue cpu)). t \<noteq> 0" using within d nonzero by (auto simp: list_all_iff)
    have all: "List.filter (\<lambda>t. ?now < t) (map fst (branch_queue cpu)) = map fst (branch_queue cpu)"
      using later least by (intro filter_True) (auto intro: le_less_trans)
    show ?thesis
    proof (cases branched)
      case True
      then have "branch_due cpu = ?now" using f by simp
      then show ?thesis using True f d all nz by (cases "branch_queue cpu") (auto simp: branch_dues_def)
    next
      case False
      then have "branch_due cpu \<noteq> ?now" using f \<open>branch_due cpu \<noteq> 0\<close> by simp
      then show ?thesis using False f d all least \<open>branch_due cpu \<noteq> 0\<close> by (auto simp: branch_dues_def)
    qed
  qed
  then have "list_all (due_within ?now 6) (branch_dues cpu')" "sorted_wrt (<) (branch_dues cpu')"
    using within sorted by (auto simp: list_all_iff sorted_wrt_filter intro: due_within_next [OF _ _ room])
  then show ?thesis using stores l loads branches f by (simp add: pipeline_ok_def)
qed

section \<open>The cycles of a packet\<close>

definition ran :: "nat \<Rightarrow> cpu \<Rightarrow> cpu \<Rightarrow> bool" where
  "ran n c c' \<longleftrightarrow> run_frame c c' \<and>
     (unat (cycles c) + n + 64 < 2 ^ 64 \<longrightarrow>
       unat (cycles c') \<le> unat (cycles c) + n \<and> unat (cycles c) + min 1 n \<le> unat (cycles c') \<and>
       (pipeline_ok c \<longrightarrow> pipeline_ok c'))"

lemma run_cycle_ran:
  assumes "run_cycle bus at cpu m = (Inr (branched, cpu'), m')" "branched \<and> cpu'' = cpu' \<or> ran n cpu' cpu''"
  shows "ran (Suc n) cpu cpu''"
proof -
  have f: "run_frame cpu cpu'" "cycles cpu' = cycles cpu + 1" using run_cycle_frame [OF assms(1)] by simp_all
  have n: "unat (cycles cpu') = unat (cycles cpu) + 1" if "unat (cycles cpu) + 64 < 2 ^ 64"
    using f unat_add_due [OF that, of 1] by simp
  show ?thesis
    using assms(2) f(1) n run_cycle_pipeline [OF assms(1)]
    by (auto simp: ran_def simp del: f(2) dest: run_frame_trans)
qed

lemma run_cycles_ran: "run_cycles bus at n cpu m = (Inr cpu', m') \<Longrightarrow> ran n cpu cpu'"
proof (induction n arbitrary: cpu m)
  case 0
  then show ?case by (simp add: ran_def)
next
  case (Suc n)
  then show ?case
    by (auto split: prod.splits sum.splits if_splits intro: run_cycle_ran)
qed

context bus_keeps
begin

lemma retire_stores_keeps: "I m \<Longrightarrow> I (snd (retire_stores bus now ss m))"
proof (induction ss arbitrary: m)
  case (Cons s ss)
  obtain q m1 where r: "retire_stores bus now ss m = (q, m1)" by (cases "retire_stores bus now ss m")
  obtain ok m2 where w: "write_transfer bus (st_at s) (st_data s) (st_encoded s) True m = (ok, m2)"
    by (cases "write_transfer bus (st_at s) (st_data s) (st_encoded s) True m")
  have "I m1" "I m2"
    using Cons.IH [OF Cons.prems] write_transfer_keeps [OF Cons.prems, of "st_at s" "st_data s" "st_encoded s" True] r w by simp_all
  then show ?case using Cons.IH [of m2] r w by (cases ok) simp_all
qed simp

lemma sample_keeps: "I m \<Longrightarrow> I (snd (sample_load bus now l m))"
  using read_transfer_keeps [of m "ld_address l" "ld_size l"]
  by (auto simp: sample_load_def split: prod.splits option.splits)

lemma retire_loads_keeps: "I m \<Longrightarrow> b = bus \<Longrightarrow> I (snd (retire_loads b cpu kept rest m))"
proof (induction b cpu kept rest m rule: retire_loads.induct)
  case (2 b cpu kept l0 rest m)
  obtain q m1 where s: "sample_load bus (cycles cpu) l0 m = (q, m1)" by (cases "sample_load bus (cycles cpu) l0 m")
  have i: "I m1" using sample_keeps [OF "2.prems"(1), of "cycles cpu" l0] s by simp
  show ?case
  proof (cases q)
    case None
    then show ?thesis using s i "2.prems" by (simp add: retire_loads.simps)
  next
    case (Some l)
    then show ?thesis
      using "2.IH" [OF _ Some] s i "2.prems" by (simp add: retire_loads.simps)
  qed
qed (simp add: retire_loads.simps)

lemma run_cycle_keeps: "I m \<Longrightarrow> I (snd (run_cycle bus at cpu m))"
proof -
  assume m: "I m"
  have s: "I m'" if "retire_stores bus now ss (bus_tick bus m) = (q, m')" for now ss q m'
    using retire_stores_keeps [OF tick_keeps [OF m], of now ss] that by simp
  have l: "I m''" if "retire_loads bus c kept rest m' = (q, m'')" "I m'" for c kept rest m' q m''
    using retire_loads_keeps [OF that(2) refl, of c kept rest] that(1) by simp
  show ?thesis by (auto simp: run_cycle_def Let_def split: prod.splits option.splits dest: s l)
qed

lemma run_cycles_keeps: "I m \<Longrightarrow> I (snd (run_cycles bus at n cpu m))"
proof (induction n arbitrary: cpu m)
  case (Suc n)
  then show ?case using run_cycle_keeps [OF Suc.prems, of at cpu] by (auto split: prod.splits sum.splits)
qed simp

lemma outcome_cycles: "I m \<Longrightarrow> outcome I (ran n cpu) (run_cycles bus at n cpu m)"
  using run_cycles_keeps [of m at n cpu] run_cycles_ran [of bus at n cpu m]
  by (cases "run_cycles bus at n cpu m") (auto simp: outcome_def)

end

section \<open>Execute\<close>

text \<open>What a packet does to the processor: nothing to the loop buffer, one to nine cycles (one when it is issued
  cycle by cycle), and the pipeline is kept.\<close>

definition executed :: "packet \<Rightarrow> cpu \<Rightarrow> cpu \<Rightarrow> bool" where
  "executed p c c' \<longleftrightarrow>
     loop_state c' = loop_state c \<and> loop_instructions c' = loop_instructions c \<and> loop_tags c' = loop_tags c \<and>
     loop_wait c' = loop_wait c \<and> fault c = None \<and> fault c' = None \<and> packets c' = packets c + 1 \<and>
     (unat (cycles c) + 128 < 2 ^ 64 \<longrightarrow>
       unat (cycles c) < unat (cycles c') \<and> unat (cycles c') \<le> unat (cycles c) + (if pk_single_cycle p then 1 else 9) \<and>
       (pipeline_ok c \<longrightarrow> pipeline_ok c'))"

lemma pipeline_ok_frame [simp]:
  "pipeline_ok (c\<lparr>pc := x\<rparr>) = pipeline_ok c" "pipeline_ok (c\<lparr>idle_cycles := n\<rparr>) = pipeline_ok c"
  "pipeline_ok (c\<lparr>packets := k\<rparr>) = pipeline_ok c"
  by (simp_all add: pipeline_ok_def branch_dues_def)

lemma packet_state_out:
  "snd (packet_state p st) =
    (out st)\<lparr>idle_cycles := (if tm_idle (packet_timing st) then IDLE_FOREVER
       else if pk_single_cycle p \<and> tm_cycles (packet_timing st) > 1 then of_nat (tm_cycles (packet_timing st)) - 1
       else idle_cycles (out st)), pc := pk_next_pc p\<rparr>"
  by (simp add: packet_state_def Let_def)

lemma executed_packet:
  assumes "issue_inv c st" "packet_state p st = (n, o')" "ran n o' c'" "fault c = None"
  shows "executed p c (c'\<lparr>packets := packets c' + 1\<rparr>)"
proof -
  have k: "same_frame c (out st)" "unat (cycles c) + 64 < 2 ^ 64 \<Longrightarrow> pipeline_ok c \<Longrightarrow> pipeline_ok (out st)"
    "timing_ok (packet_timing st)"
    using assms(1) by (auto simp: issue_inv_def keeps_def)
  obtain i where o': "o' = (out st)\<lparr>idle_cycles := i, pc := pk_next_pc p\<rparr>"
    using assms(2) packet_state_out [of p st] by simp
  have p: "pipeline_ok o' = pipeline_ok (out st)" "run_frame (out st) o'" "cycles o' = cycles (out st)"
    unfolding o' by (simp_all add: run_frame_def)
  have n: "n = (if pk_single_cycle p \<and> tm_cycles (packet_timing st) > 1 then 1 else tm_cycles (packet_timing st))"
    using assms(2) by (simp add: packet_state_def Let_def)
  have n: "1 \<le> n" "n \<le> (if pk_single_cycle p then 1 else 9)" using n k(3) by (auto simp: timing_ok_def)
  have f: "run_frame c o'" using run_frame_trans [OF same_frame_run [OF k(1)] p(2)] .
  have c: "cycles o' = cycles c" using p(3) k(1) by (simp add: same_frame_def)
  have r: "run_frame o' c'" using assms(3) by (simp add: ran_def)
  have t: "unat (cycles c) < unat (cycles c') \<and> unat (cycles c') \<le> unat (cycles c) + (if pk_single_cycle p then 1 else 9) \<and>
      (pipeline_ok c \<longrightarrow> pipeline_ok c')" if "unat (cycles c) + 128 < 2 ^ 64"
  proof -
    have "n \<le> 9" using n(2) by (simp split: if_splits)
    then have "unat (cycles c') \<le> unat (cycles c) + n" "unat (cycles c) + 1 \<le> unat (cycles c')" "pipeline_ok o' \<longrightarrow> pipeline_ok c'"
      using assms(3) that c n(1) by (simp_all add: ran_def)
    then show ?thesis using n(2) k(2) p(1) that by (simp split: if_splits)
  qed
  show ?thesis
    using run_frame_trans [OF f r] assms(4) t unfolding executed_def run_frame_def by simp
qed

context bus_keeps
begin

lemma outcome_execute:
  assumes "I m" "wf_packet p"
  shows "outcome I (executed p cpu) (execute bus cpu p m)"
proof -
  have start: "issue_inv cpu (issue_start cpu)" by (simp add: issue_inv_def issue_start_def timing_ok_def timing_init_def)
  have run: "outcome I (executed p cpu) (case run_cycles bus at n o' m of
       (Inl e, m) \<Rightarrow> (Inl e, m) | (Inr o', m) \<Rightarrow> (Inr (o'\<lparr>packets := packets o' + 1\<rparr>), m))"
    if "issue_inv cpu st" "packet_state p st = (n, o')" "fault cpu = None" "I m" for st n o' m "at"
    using that by (intro outcome_seq [OF outcome_cycles] outcome_return executed_packet)
  show ?thesis
    unfolding execute_def Let_def
    by (intro outcome_option outcome_if outcome_stop assms outcome_pair outcome_seq [OF outcome_packet] start
        outcome_pair_case run) (use assms in \<open>auto simp: wf_packet_def refuse_def\<close>)
qed

end

section \<open>What a cycle retires\<close>







end
