(* ===== verification/C674x_Step_Keeps.thy ===== *)
theory C674x_Step_Keeps
  imports C674x_Execute_Keeps
begin

text \<open>
  One step of the interpreter, with the software loop buffer and interrupts, keeps the pipeline invariant and the bus
  property, and takes one to nine cycles.
\<close>

section \<open>The loop buffer beside the pipeline\<close>

definition cpu_wf :: "cpu \<Rightarrow> bool" where
  "cpu_wf c \<longleftrightarrow> (\<forall>i. wf_insn (loop_instructions c i))"

text \<open>What the loop buffer's own operations leave alone.\<close>

definition quiet :: "cpu \<Rightarrow> cpu \<Rightarrow> bool" where
  "quiet c c' \<longleftrightarrow>
     cycles c' = cycles c \<and> stores c' = stores c \<and> loads c' = loads c \<and> branch_due c' = branch_due c \<and>
     branch_queue c' = branch_queue c \<and> fault c' = fault c \<and> (cpu_wf c \<longrightarrow> cpu_wf c')"

lemma quiet_refl [simp]: "quiet c c"
  by (simp add: quiet_def)

lemma quiet_trans: "quiet a b \<Longrightarrow> quiet b c \<Longrightarrow> quiet a c"
  by (simp add: quiet_def)

lemma quiet_pipeline: "quiet c c' \<Longrightarrow> pipeline_ok c' = pipeline_ok c"
  by (simp add: quiet_def pipeline_ok_def branch_dues_def)

lemma quiet_wf: "quiet c c' \<Longrightarrow> cpu_wf c \<Longrightarrow> cpu_wf c'"
  by (simp add: quiet_def)

lemma quiet_updates [simp]:
  "quiet c (c'\<lparr>pc := a\<rparr>) = quiet c c'" "quiet c (c'\<lparr>idle_cycles := w\<rparr>) = quiet c c'"
  "quiet c (c'\<lparr>loop_wait := n\<rparr>) = quiet c c'" "quiet c (c'\<lparr>loop_tags := n\<rparr>) = quiet c c'"
  "quiet c (c'\<lparr>loop_packets := w\<rparr>) = quiet c c'" "quiet c (c'\<lparr>loop_active := b\<rparr>) = quiet c c'"
  "quiet c (c'\<lparr>loop_state := lp\<rparr>) = quiet c c'" "quiet c (c'\<lparr>loop_pred_history := w\<rparr>) = quiet c c'"
  "quiet c (c'\<lparr>loop_pred_bank := n\<rparr>) = quiet c c'" "quiet c (c'\<lparr>loop_pred_reg := n\<rparr>) = quiet c c'"
  "quiet c (c'\<lparr>loop_pred_invert := b\<rparr>) = quiet c c'" "quiet c (set_control k v c') = quiet c c'"
  "quiet c (set_ready k t c') = quiet c c'"
  by (simp_all add: quiet_def cpu_wf_def set_control_def set_ready_def)

lemma quiet_if [simp]: "quiet c (if p then a else b) \<longleftrightarrow> (if p then quiet c a else quiet c b)"
  by simp

lemma quiet_loop [simp]:
  "quiet c (on_loop f c') = quiet c c'" "quiet c (loop_set_active b c') = quiet c c'"
  "quiet c (loop_clear_retained c') = quiet c c'" "quiet c (loop_set_interrupt_phase n ph c') = quiet c c'"
  "quiet c (loop_clear_interrupt_phase c') = quiet c c'" "quiet c (loop_set_setup a b c') = quiet c c'"
  "quiet c (count_idle c') = quiet c c'"
  by (simp_all add: on_loop_def loop_set_active_def loop_clear_retained_def loop_set_interrupt_phase_def
      loop_clear_interrupt_phase_def loop_set_setup_def count_idle_def Let_def)

lemma quiet_instruction:
  "quiet c c' \<Longrightarrow> wf_insn insn \<Longrightarrow> quiet c (c'\<lparr>loop_instructions := (loop_instructions c')(n := insn)\<rparr>)"
  by (simp add: quiet_def cpu_wf_def)

section \<open>Results\<close>

definition yields :: "('a \<Rightarrow> bool) \<Rightarrow> 'e + 'a \<Rightarrow> bool" where
  "yields P r \<longleftrightarrow> (\<forall>y. r = Inr y \<longrightarrow> P y)"

named_theorems yields_rules

lemma yields_Inl [yields_rules]: "yields P (Inl e)" "yields P (refuse insn why)" "yields P (quit_at cpu why)"
  by (simp_all add: yields_def refuse_def quit_at_def)

lemma yields_Inr: "P y \<Longrightarrow> yields P (Inr y)"
  by (simp add: yields_def)

lemma yields_if [yields_rules]: "(p \<Longrightarrow> yields P r) \<Longrightarrow> (\<not> p \<Longrightarrow> yields P s) \<Longrightarrow> yields P (if p then r else s)"
  by simp

lemma yields_bind [yields_rules]: "yields Q r \<Longrightarrow> (\<And>y. Q y \<Longrightarrow> yields P (f y)) \<Longrightarrow> yields P (bind r f)"
  by (auto simp: yields_def bind_def split: sum.splits)

lemma yields_option [yields_rules]:
  "(q = None \<Longrightarrow> yields P r) \<Longrightarrow> (\<And>v. q = Some v \<Longrightarrow> yields P (f v)) \<Longrightarrow> yields P (case q of None \<Rightarrow> r | Some v \<Rightarrow> f v)"
  by (cases q) auto

section \<open>Scanning a packet\<close>

definition scanned :: "cpu \<Rightarrow> loop_scan \<Rightarrow> bool" where
  "scanned c sc \<longleftrightarrow> quiet c (sc_out sc) \<and> list_all wf_insn (sc_direct sc)"

lemma scanned_updates [simp]:
  "scanned c (sc\<lparr>sc_finish := b\<rparr>) = scanned c sc" "scanned c (sc\<lparr>sc_protect := b\<rparr>) = scanned c sc"
  "scanned c (sc\<lparr>sc_delay := w\<rparr>) = scanned c sc" "scanned c (sc\<lparr>sc_tags := ts\<rparr>) = scanned c sc"
  "scanned c (sc\<lparr>sc_out := o'\<rparr>) \<longleftrightarrow> quiet c o' \<and> list_all wf_insn (sc_direct sc)"
  "scanned c (sc\<lparr>sc_direct := ds\<rparr>) \<longleftrightarrow> quiet c (sc_out sc) \<and> list_all wf_insn ds"
  by (simp_all add: scanned_def)

lemma scanned_parts: "scanned c sc \<Longrightarrow> quiet c (sc_out sc)" "scanned c sc \<Longrightarrow> list_all wf_insn (sc_direct sc)"
  by (simp_all add: scanned_def)

lemma scan_kernel_ok: "scanned c sc \<Longrightarrow> yields (scanned c) (scan_kernel reload i insn sc)"
  unfolding scan_kernel_def Let_def by (intro yields_rules yields_Inr) simp

lemma scan_protect_ok: "scanned c sc \<Longrightarrow> yields (scanned c) (scan_protect insn sc)"
  unfolding scan_protect_def by (intro yields_rules yields_Inr) (auto dest: scanned_parts)

lemma scan_store_ok: "scanned c sc \<Longrightarrow> wf_insn insn \<Longrightarrow> yields (scanned c) (scan_store returning insn sc)"
  unfolding scan_store_def Let_def
  by (intro yields_rules yields_Inr) (auto simp: scanned_def intro: quiet_instruction)

lemma wf_kept: "wf_insn insn \<Longrightarrow> wf_insn (insn\<lparr>in_header := h\<rparr>)"
  by (simp add: wf_insn_def)

lemma scan_operation_ok:
  "scanned c sc \<Longrightarrow> wf_insn insn \<Longrightarrow> yields (scanned c) (scan_operation returning spmask insn sc)"
  unfolding scan_operation_def Let_def
  by (intro yields_if yields_Inl yields_bind [OF scan_protect_ok] yields_Inr scan_store_ok) (auto simp: scanned_def wf_kept)

lemma scan_instruction_ok:
  "scanned c sc \<Longrightarrow> wf_insn insn \<Longrightarrow> yields (scanned c) (scan_instruction reload returning spmask i insn sc)"
  unfolding scan_instruction_def
  by (intro yields_rules yields_Inr scan_kernel_ok scan_operation_ok) (auto dest: scanned_parts)

lemma scan_packet_ok:
  "scanned c sc \<Longrightarrow> list_all wf_insn insns \<Longrightarrow> yields (scanned c) (scan_packet reload returning spmask i insns sc)"
proof (induction insns arbitrary: i sc)
  case (Cons insn insns)
  then show ?case by (auto intro!: yields_bind [OF scan_instruction_ok])
qed (simp add: yields_Inr)

section \<open>The parts of a loop step\<close>

definition loaded :: "cpu \<Rightarrow> loop_loaded \<Rightarrow> bool" where
  "loaded c ll \<longleftrightarrow> quiet c (ll_cpu ll) \<and> list_all wf_insn (ll_direct ll)"

lemma loaded_updates [simp]:
  "loaded c (ll\<lparr>ll_next_pc := a\<rparr>) = loaded c ll" "loaded c (ll\<lparr>ll_mask := w\<rparr>) = loaded c ll"
  "loaded c (ll\<lparr>ll_cpu := o'\<rparr>) \<longleftrightarrow> quiet c o' \<and> list_all wf_insn (ll_direct ll)"
  "loaded c (ll\<lparr>ll_direct := ds\<rparr>) \<longleftrightarrow> quiet c (ll_cpu ll) \<and> list_all wf_insn ds"
  by (simp_all add: loaded_def)

lemma quiet_seal:
  "seal_reload o' = Inr o'' \<Longrightarrow> quiet c o'' = quiet c o'" "seal_returned o' = Inr o'' \<Longrightarrow> quiet c o'' = quiet c o'"
  by (auto simp: seal_reload_def seal_returned_def Let_def split: if_splits)

lemma load_packet_ok: "quiet c o' \<Longrightarrow> wf_packet source \<Longrightarrow> yields (loaded c) (load_packet ft cpu o' source)"
  unfolding load_packet_def Let_def
  by (intro yields_bind [OF scan_packet_ok [of c]])
    (auto simp: scanned_def wf_packet_def loaded_def yields_def quit_at_def quiet_seal
      split: option.splits sum.splits if_splits)

lemma post_instructions_eq: "post_instructions is = Inr is' \<Longrightarrow> is' = is"
  by (induction "is" arbitrary: is') (auto simp: bind_def refuse_def split: if_splits sum.splits)

lemma combine_packet_ok: "loaded c ll \<Longrightarrow> cpu_wf c \<Longrightarrow> yields wf_packet (combine_packet cpu ll r)"
  unfolding combine_packet_def Let_def
  by (intro yields_rules yields_Inr) (auto simp: loaded_def wf_packet_def list_all_iff cpu_wf_def dest: quiet_wf)

lemma quiet_finish:
  "quiet c (close_post_window o') = quiet c o'" "quiet c (reload_stage b t rilc o') = quiet c o'"
  "quiet c (count_stage sp i o') = quiet c o'" "quiet c (end_while_loop d o') = quiet c o'"
  "start_drain o' = Some o'' \<Longrightarrow> quiet c o'' = quiet c o'"
  by (auto simp: close_post_window_def reload_stage_def start_invocation_def count_stage_def end_while_loop_def
      start_drain_def Let_def split: option.splits)

lemma loop_finish_ok: "quiet c o' \<Longrightarrow> yields (quiet c) (loop_finish cpu r before o')"
  unfolding loop_finish_def Let_def
  by (intro yields_rules yields_Inr) (auto simp: quiet_finish split: if_splits)

lemma setup_finish_ok: "quiet c o' \<Longrightarrow> yields (quiet c) (setup_finish kind returning insn cpu o')"
  unfolding setup_finish_def Let_def by (intro yields_rules yields_Inr) simp_all

lemma quiet_setup: "quiet c (setup_state kind reload returning insn lp cpu) = quiet c cpu"
  by (simp add: setup_state_def set_predicate_def Let_def)

section \<open>One step\<close>

text \<open>What a step does: one to nine cycles, the pipeline is kept, and nothing but well-formed instructions
  gets into the loop buffer.\<close>

definition stepped :: "cpu \<Rightarrow> cpu \<Rightarrow> bool" where
  "stepped c c' \<longleftrightarrow>
     fault c = None \<and> fault c' = None \<and> (cpu_wf c \<longrightarrow> cpu_wf c') \<and>
     (unat (cycles c) + 128 < 2 ^ 64 \<longrightarrow>
       unat (cycles c) < unat (cycles c') \<and> unat (cycles c') \<le> unat (cycles c) + 9 \<and> (pipeline_ok c \<longrightarrow> pipeline_ok c'))"

lemma list_all_tl: "list_all P xs \<Longrightarrow> list_all P (tl xs)"
  by (cases xs) simp_all

lemma executed_stepped: "executed p c c' \<Longrightarrow> stepped c c'"
  by (auto simp: executed_def stepped_def cpu_wf_def split: if_splits)

lemma quiet_stepped: "quiet c a \<Longrightarrow> stepped a b \<Longrightarrow> quiet b d \<Longrightarrow> stepped c d"
  by (auto simp: stepped_def quiet_pipeline dest: quiet_wf) (simp_all add: quiet_def)

context bus_keeps
begin

lemma outcome_run:
  assumes "I m" "wf_packet p" "quiet c a" "\<And>b. yields (quiet b) (f b)"
  shows "outcome I (stepped c) (case execute bus a p m of (Inl e, m) \<Rightarrow> (Inl e, m) | (Inr b, m) \<Rightarrow> (f b, m))"
  by (intro outcome_seq [OF outcome_execute] outcome_pair assms)
    (use assms(3,4) in \<open>auto simp: yields_def intro: quiet_stepped executed_stepped\<close>)

lemma load_packet_loaded:
  "quiet c o' \<Longrightarrow> wf_packet source \<Longrightarrow> load_packet ft cpu o' source = Inr y \<Longrightarrow> loaded c y"
  using load_packet_ok by (simp add: yields_def)

lemma outcome_loading: "I m \<Longrightarrow> quiet c o' \<Longrightarrow> outcome I (loaded c) (loop_loading ft bus cpu o' m)"
  unfolding loop_loading_def Let_def
  by (intro outcome_if outcome_option outcome_seq [OF fetch_outcome] outcome_pair)
    (auto simp: quit_at_def loaded_def [of _ "loop_loaded.make _ _ _ _", unfolded loop_loaded.make_def] dest: load_packet_loaded)

lemma outcome_post: "I m \<Longrightarrow> loaded c ll \<Longrightarrow> outcome I (loaded c) (loop_post post bus ll m)"
  unfolding loop_post_def Let_def
  by (intro outcome_if outcome_seq [OF fetch_outcome] outcome_pair)
    (auto simp: loaded_def bind_def wf_packet_def list_all_tl dest!: post_instructions_eq split: sum.splits if_splits)

lemma outcome_loop_step:
  assumes "I m" "cpu_wf cpu"
  shows "outcome I (stepped cpu) (loop_step ft bus cpu m)"
proof -
  let ?o = "set_control 26 (control cpu 26 OR TSR_SPLX) cpu"
  have start: "quiet cpu ?o" by simp
  have finish: "yields (quiet b) (loop_finish cpu r before b)" for r before b by (simp add: loop_finish_ok)
  have packet: "wf_packet p" if "loaded cpu ll" "combine_packet cpu ll r = Inr p" for ll r p
    using combine_packet_ok [OF that(1) assms(2)] that(2) by (simp add: yields_def)
  have quit: "I m \<Longrightarrow> outcome I (stepped cpu) (quit_at cpu why, m)" for why m by (simp add: quit_at_def outcome_stop)
  show ?thesis
    unfolding loop_step_def Let_def
    by (intro outcome_seq [OF outcome_loading [OF assms(1) start]] outcome_seq [OF outcome_post [of _ cpu]] outcome_option
        outcome_run outcome_pair_case outcome_sum_case outcome_if outcome_stop finish quit)
      (auto simp: loaded_def intro: packet)
qed

lemma outcome_setup:
  assumes "I m" "wf_packet p" "pk_instructions p \<noteq> []"
  shows "outcome I (stepped cpu) (loop_setup bus cpu p kind m)"
  unfolding loop_setup_def Let_def
  by (intro outcome_if outcome_option outcome_pair_case outcome_stop outcome_run assms setup_finish_ok quiet_refl)
    (use assms in \<open>auto simp: refuse_def wf_packet_def quiet_setup list_all_tl intro: outcome_stop\<close>)

lemma outcome_execute_stepped:
  assumes "I m" "wf_packet p" "quiet c a"
  shows "outcome I (stepped c) (execute bus a p m)"
  by (rule outcome_mono [OF outcome_execute [OF assms(1,2)]])
    (rule quiet_stepped [OF assms(3) executed_stepped quiet_refl])

lemma outcome_step: "I m \<Longrightarrow> cpu_wf cpu \<Longrightarrow> outcome I (stepped cpu) (step ft bus cpu m)"
  unfolding step_def Let_def
  by (intro outcome_option outcome_if outcome_stop outcome_loop_step outcome_setup outcome_seq [OF fetch_outcome]
      outcome_execute_stepped) (simp_all add: wf_packet_def)

end

section \<open>Interrupts\<close>

text \<open>An interrupt touches neither the pipeline nor the clock, stops included.\<close>

definition undisturbed :: "cpu \<Rightarrow> cpu \<Rightarrow> bool" where
  "undisturbed c c' \<longleftrightarrow> quiet c (c'\<lparr>fault := fault c\<rparr>)"

lemma undisturbed_quiet: "quiet c c' \<Longrightarrow> undisturbed c c'"
  by (simp add: undisturbed_def quiet_def cpu_wf_def)

lemma undisturbed_stop: "quiet c c' \<Longrightarrow> undisturbed c (stop e c')"
  by (simp add: undisturbed_def quiet_def cpu_wf_def stop_def)

lemma quiet_interrupt_parts:
  "quiet c (enter_interrupt l n c') = quiet c c'"
  "interrupt_pipe_down ft c' = Some d \<Longrightarrow> quiet c d = quiet c c'"
  "loop_capture_retained c' = Some d \<Longrightarrow> quiet c d = quiet c c'"
  by (auto simp: enter_interrupt_def interrupt_pipe_down_def loop_capture_retained_def Let_def split: if_splits)

lemma interrupt_undisturbed:
  assumes "interrupt ft pending cpu = (ok, cpu')"
  shows "undisturbed cpu cpu' \<and> (ok \<longrightarrow> fault cpu = None \<and> fault cpu' = None)"
proof -
  have q: "quiet cpu (set_control 2 v cpu)" for v by simp
  have a: "arm_loop_interrupt e c = (ok, c') \<Longrightarrow> quiet cpu c \<Longrightarrow> undisturbed cpu c' \<and> (ok \<longrightarrow> quiet cpu c')" for e c ok c'
    by (auto simp: arm_loop_interrupt_def stop_here_def quiet_interrupt_parts undisturbed_quiet undisturbed_stop
        split: if_splits option.splits)
  have t: "take_interrupt ft e c = (ok, c') \<Longrightarrow> quiet cpu c \<Longrightarrow> undisturbed cpu c' \<and> (ok \<longrightarrow> quiet cpu c')" for e c ok c'
    by (auto simp: take_interrupt_def stop_here_def Let_def quiet_interrupt_parts undisturbed_quiet undisturbed_stop
        split: if_splits option.splits)
  have "undisturbed cpu cpu' \<and> (ok \<longrightarrow> fault cpu = None \<and> quiet cpu cpu')"
    using assms unfolding interrupt_def Let_def
    by (auto simp: stop_here_def undisturbed_quiet undisturbed_stop dest: a [OF _ q] t [OF _ q] split: if_splits)
  then show ?thesis by (auto simp: quiet_def)
qed

end
