(* ===== verification/Nxs_Dsp.thy ===== *)
theory Nxs_Dsp
  imports C674x_Step_Keeps Nxs_Bus_Invariant
begin

text \<open>
  \<^verbatim>\<open>emulator/qemu/cdj2000_nxs_hpi.c\<close>: the DSP of the board, running. The loop that executes interpreter steps on the
  board's bus with the clocks and events between them, its slices under the deferred scheduler, and what the host's
  accesses start. \<open>fp\<close> is the host's floating point and \<open>ft\<close> the functional timing mode. The log, the checkpoint
  captures and the transmit capture file are not modelled; the virtual timer is its armed flag.
\<close>

section \<open>Executing steps\<close>

definition nxs_cpu_bus :: "host_fp \<Rightarrow> bool \<Rightarrow> 'c nxs cpu_bus" where
  "nxs_cpu_bus fp ft = \<lparr>bus_rd = dsp_read ft, bus_wr = dsp_write ft, bus_tick = dsp_cycle_tick ft, bus_fp = fp\<rparr>"

text \<open>A fault of the execution loop, recorded in the processor.\<close>

definition dsp_fault :: "reason \<Rightarrow> cpu nxs \<Rightarrow> cpu nxs" where
  "dsp_fault why s = s\<lparr>nx_cpu := (nx_cpu s)\<lparr>fault := Some why, fault_pc := pc (nx_cpu s)\<rparr>\<rparr>"

definition functional_audio_tick :: "cpu nxs \<Rightarrow> bool \<times> cpu nxs" where
  "functional_audio_tick s =
     (if \<not> nx_functional_audio s \<or> packets (nx_cpu s) mod 1024 \<noteq> 0 then (True, s)
      else case advance_functional_mcasp_slots (bd s) of (ok, b) \<Rightarrow>
        (let s = s\<lparr>bd := b\<rparr>
         in if ok then (True, s)
            else (False, (dsp_fault Audio_slot_fault s)\<lparr>nx_cpu := (nx_cpu (dsp_fault Audio_slot_fault s))\<lparr>fault_word := 0\<rparr>\<rparr>)))"

text \<open>How one turn of the loop ends: before its step is counted, after it, at a yield, or with another turn.\<close>

datatype turn = Stop_uncounted | Stop_counted | Yield_turn | Next_turn

definition dsp_turn :: "host_fp \<Rightarrow> bool \<Rightarrow> cpu nxs \<Rightarrow> turn \<times> cpu nxs" where
  "dsp_turn fp ft s =
     (let s = s\<lparr>bd := deliver_edma_notifications (bd s)\<rparr>
      in case intc_cpu_pending (bd_delivery (bd s)) of (requests, d) \<Rightarrow>
           (let s = s\<lparr>bd := (bd s)\<lparr>bd_delivery := d\<rparr>\<rparr>
            in case interrupt ft requests (nx_cpu s) of (ok, c) \<Rightarrow>
                 (let s = s\<lparr>nx_cpu := c\<rparr>
                  in if \<not> ok then (Stop_uncounted, s)
                     else case step_cpu ft (nxs_cpu_bus fp ft) (c, s) of (ok, c, s) \<Rightarrow>
                       (let s = s\<lparr>nx_cpu := c\<rparr>
                        in if \<not> ok then (Stop_uncounted, s)
                           else if tr_fault (nx_transfer s) \<noteq> 0 then (Stop_counted, dsp_fault Spi_transfer_fault s)
                           else case functional_audio_tick (s\<lparr>nx_psc := psc_tick (nx_psc s)\<rparr>) of (ok, s) \<Rightarrow>
                             if \<not> ok then (Stop_counted, s)
                             else if hint (nx_hpi s) then (Yield_turn, s) else (Next_turn, s)))))"

text \<open>The loop, with the turns it has left; the number is the steps it ran.\<close>

fun dsp_turns :: "host_fp \<Rightarrow> bool \<Rightarrow> nat \<Rightarrow> cpu nxs \<Rightarrow> nat \<times> cpu nxs" where
  "dsp_turns fp ft 0 s = (0, s)"
| "dsp_turns fp ft (Suc n) s =
     (case dsp_turn fp ft s of (t, s) \<Rightarrow>
        (case t of
           Stop_uncounted \<Rightarrow> (0, s\<lparr>nx_halted := True\<rparr>)
         | Stop_counted \<Rightarrow> (1, s\<lparr>nx_halted := True\<rparr>)
         | Yield_turn \<Rightarrow> (1, s)
         | Next_turn \<Rightarrow> (case dsp_turns fp ft n s of (k, s) \<Rightarrow> (Suc k, s))))"

definition execute_dsp :: "host_fp \<Rightarrow> bool \<Rightarrow> nat \<Rightarrow> cpu nxs \<Rightarrow> cpu nxs" where
  "execute_dsp fp ft quota s =
     (if \<not> nx_started s \<or> nx_halted s \<or> nx_running s then s
      else case dsp_turns fp ft quota (s\<lparr>nx_running := True\<rparr>) of (steps, s) \<Rightarrow>
        (let s = s\<lparr>nx_running := False\<rparr>
         in if sc_mode (nx_scheduler s) = 0 then s
            else case sched_end (nx_scheduler s) (of_nat steps) (hint (nx_hpi s)) (nx_halted s) of
                Some sc \<Rightarrow> s\<lparr>nx_scheduler := sc\<rparr>
              | None \<Rightarrow> (dsp_fault Slice_completion_fault s)\<lparr>nx_halted := True\<rparr>))"

text \<open>The callback of the virtual timer, which is no longer pending when it runs.\<close>

definition deferred_dsp_tick :: "host_fp \<Rightarrow> bool \<Rightarrow> cpu nxs \<Rightarrow> cpu nxs" where
  "deferred_dsp_tick fp ft s =
     (if \<not> nx_started s \<or> nx_halted s \<or> sc_pending (nx_scheduler s) = 0 then s
      else case sched_begin (nx_scheduler s) of (quota, sc) \<Rightarrow>
        (let s = s\<lparr>nx_scheduler := sc\<rparr>
         in if quota = 0 then (dsp_fault Scheduler_state_fault s)\<lparr>nx_halted := True\<rparr>
            else
              (let s = execute_dsp fp ft (unat quota) s
               in if sc_pending (nx_scheduler s) \<noteq> 0 \<and> \<not> nx_halted s then s\<lparr>nx_timer_armed := True\<rparr> else s)))"

definition run_dsp :: "host_fp \<Rightarrow> bool \<Rightarrow> cpu nxs \<Rightarrow> cpu nxs" where
  "run_dsp fp ft s =
     (if \<not> nx_started s \<or> nx_halted s \<or> nx_running s then s
      else if sc_mode (nx_scheduler s) = 0 then execute_dsp fp ft 1000000 s
      else case sched_request (nx_scheduler s) of
          None \<Rightarrow> (dsp_fault Scheduling_request_fault s)\<lparr>nx_halted := True\<rparr>
        | Some sc \<Rightarrow> s\<lparr>nx_scheduler := sc, nx_timer_armed := True\<rparr>)"

definition start_dsp :: "host_fp \<Rightarrow> bool \<Rightarrow> cpu nxs \<Rightarrow> cpu nxs" where
  "start_dsp fp ft s =
     run_dsp fp ft (s\<lparr>nx_cpu := cpu_reset (ldl_le (load_bytes (memory (bd s)) (L2_RAM, 0) 4)), nx_started := True\<rparr>)"

text \<open>The host's stores and the boot phase, with what they start.\<close>

definition serve_request :: "host_fp \<Rightarrow> bool \<Rightarrow> host_request \<times> cpu nxs \<Rightarrow> cpu nxs" where
  "serve_request fp ft r =
     (case r of (q, s) \<Rightarrow>
        (case q of No_Request \<Rightarrow> s | Start_Dsp \<Rightarrow> start_dsp fp ft s | Run_Dsp \<Rightarrow> run_dsp fp ft s))"

section \<open>What the bus leaves alone\<close>

text \<open>The run flags and the scheduler are the execution loop's own.\<close>

type_synonym run_state = "bool \<times> bool \<times> bool \<times> scheduler \<times> bool"

definition loop_part :: "'c nxs \<Rightarrow> run_state" where
  "loop_part s = (nx_started s, nx_halted s, nx_running s, nx_scheduler s, nx_timer_armed s)"

lemma loop_part_updates [simp]:
  "loop_part (s\<lparr>bd := a\<rparr>) = loop_part s" "loop_part (s\<lparr>nx_i2c := b\<rparr>) = loop_part s" "loop_part (s\<lparr>nx_spis := c\<rparr>) = loop_part s"
  "loop_part (s\<lparr>nx_dac := d\<rparr>) = loop_part s" "loop_part (s\<lparr>nx_transfer := e\<rparr>) = loop_part s" "loop_part (s\<lparr>nx_gpio := f\<rparr>) = loop_part s"
  "loop_part (s\<lparr>nx_pins := g\<rparr>) = loop_part s" "loop_part (s\<lparr>nx_psc := h\<rparr>) = loop_part s" "loop_part (s\<lparr>nx_syscfg := i\<rparr>) = loop_part s"
  "loop_part (s\<lparr>nx_priority := j\<rparr>) = loop_part s" "loop_part (s\<lparr>nx_hpi := k\<rparr>) = loop_part s" "loop_part (s\<lparr>nx_hint_line := l\<rparr>) = loop_part s"
  "loop_part (s\<lparr>nx_address := m\<rparr>) = loop_part s" "loop_part (s\<lparr>nx_words := n\<rparr>) = loop_part s"
  "loop_part (s\<lparr>nx_boot_phase := p\<rparr>) = loop_part s" "loop_part (s\<lparr>nx_cpu := q\<rparr>) = loop_part s"
  by (simp_all add: loop_part_def)

definition claim_keeps :: "('a \<Rightarrow> bool) \<Rightarrow> 'a claim \<Rightarrow> bool" where
  "claim_keeps P c \<longleftrightarrow> (\<forall>x. c = Take x \<longrightarrow> P x)"

lemma cascade_keeps: "cascade cs = Some x \<Longrightarrow> list_all (claim_keeps P) cs \<Longrightarrow> P x"
  by (induction cs rule: cascade.induct) (auto simp: claim_keeps_def)

lemma claim_keeps_rules [simp]:
  "claim_keeps P Pass" "claim_keeps P Refuse" "claim_keeps P (Take x) = P x"
  "(\<And>x. P (f x)) \<Longrightarrow> claim_keeps P (ask f r)" "(\<And>x. P (f x)) \<Longrightarrow> claim_keeps P (insist f r)"
  by (auto simp: claim_keeps_def ask_def insist_def split: option.splits)

lemma claim_keeps_if [simp]: "(q \<Longrightarrow> claim_keeps P a) \<Longrightarrow> (\<not> q \<Longrightarrow> claim_keeps P b) \<Longrightarrow> claim_keeps P (if q then a else b)"
  by simp

lemma claim_keeps_transaction [simp]: "(\<And>b. P (s\<lparr>bd := b\<rparr>)) \<Longrightarrow> claim_keeps P (transaction_claim s e a v n c)"
  by (simp add: transaction_claim_def split: prod.split)

lemma read_keeps_loop: "dsp_read ft s a = Some (v, s') \<Longrightarrow> loop_part s' = loop_part s"
  unfolding dsp_read_def read_claims_def Let_def
  by (drule cascade_keeps [where P = "\<lambda>x. loop_part (snd x) = loop_part s"]) (auto split: prod.split)

lemma write_keeps_loop: "dsp_write ft s a v n c = Some s' \<Longrightarrow> loop_part s' = loop_part s"
  unfolding dsp_write_def write_claims_def Let_def
  by (drule cascade_keeps [where P = "\<lambda>x. loop_part x = loop_part s"]) (auto simp: hint_rises_def split: prod.split)

lemma tick_keeps_loop: "loop_part (dsp_cycle_tick ft s) = loop_part s"
  by (simp add: dsp_cycle_tick_def Let_def split: prod.split)

definition board_run :: "bool \<Rightarrow> run_state \<Rightarrow> 'c nxs \<Rightarrow> bool" where
  "board_run ft l s \<longleftrightarrow> nxs_reach ft s \<and> loop_part s = l"

text \<open>So whatever program runs, every access it makes takes a reachable board to a reachable board.\<close>

interpretation board_dsp: bus_keeps "nxs_cpu_bus fp ft" "board_run ft l" for fp ft l
  by unfold_locales
    (auto simp: nxs_cpu_bus_def board_run_def tick_keeps_loop read_keeps_loop write_keeps_loop
      intro: nxs_reach.load nxs_reach.store nxs_reach.cycle)

section \<open>One turn\<close>

text \<open>The processor, at most \<open>n\<close> steps after its start.\<close>

definition cpu_ok :: "nat \<Rightarrow> cpu \<Rightarrow> bool" where
  "cpu_ok n c \<longleftrightarrow> cpu_wf c \<and> (9 * n + 128 < 2 ^ 64 \<longrightarrow> unat (cycles c) \<le> 9 * n \<and> pipeline_ok c)"

lemma cpu_ok_reset: "cpu_ok n (cpu_reset start_pc)"
  by (simp add: cpu_ok_def cpu_wf_def wf_insn_def cpu_reset_def pipeline_ok_def branch_dues_def)

lemma cpu_ok_mono: "cpu_ok n c \<Longrightarrow> n \<le> m \<Longrightarrow> cpu_ok m c"
  by (auto simp: cpu_ok_def)

lemma cpu_ok_stepped: "cpu_ok n c \<Longrightarrow> stepped c c' \<Longrightarrow> cpu_ok (Suc n) c'"
  by (auto simp: cpu_ok_def stepped_def)

lemma cpu_ok_undisturbed: "cpu_ok n c \<Longrightarrow> undisturbed c c' \<Longrightarrow> cpu_ok n c'"
proof -
  assume ok: "cpu_ok n c" and u: "undisturbed c c'"
  have q: "quiet c (c'\<lparr>fault := fault c\<rparr>)" using u by (simp add: undisturbed_def)
  have "pipeline_ok c' = pipeline_ok (c'\<lparr>fault := fault c\<rparr>)" by (simp add: pipeline_ok_def branch_dues_def)
  also have "\<dots> = pipeline_ok c" by (rule quiet_pipeline [OF q])
  finally show ?thesis using ok q by (simp add: cpu_ok_def quiet_def cpu_wf_def)
qed

lemma cpu_ok_fault [simp]:
  "cpu_ok n (c\<lparr>fault := f\<rparr>) = cpu_ok n c" "cpu_ok n (c\<lparr>fault_pc := a\<rparr>) = cpu_ok n c" "cpu_ok n (c\<lparr>fault_word := w\<rparr>) = cpu_ok n c"
  by (simp_all add: cpu_ok_def cpu_wf_def pipeline_ok_def branch_dues_def)

lemma cpu_ok_stop [simp]: "cpu_ok n (stop e c) = cpu_ok n c"
  by (simp add: stop_def)

lemma reach_loop [intro]:
  "nxs_reach ft s \<Longrightarrow> nxs_reach ft (s\<lparr>nx_cpu := c\<rparr>)" "nxs_reach ft s \<Longrightarrow> nxs_reach ft (s\<lparr>nx_scheduler := sc\<rparr>)"
  "nxs_reach ft s \<Longrightarrow> nxs_reach ft (s\<lparr>nx_started := b\<rparr>)" "nxs_reach ft s \<Longrightarrow> nxs_reach ft (s\<lparr>nx_halted := b\<rparr>)"
  "nxs_reach ft s \<Longrightarrow> nxs_reach ft (s\<lparr>nx_running := b\<rparr>)" "nxs_reach ft s \<Longrightarrow> nxs_reach ft (s\<lparr>nx_timer_armed := b\<rparr>)"
  using nxs_reach.interpreter [of ft s, where cpu = c and sc = "nx_scheduler s" and st = "nx_started s" and ha = "nx_halted s" and ru = "nx_running s" and ti = "nx_timer_armed s"]
    nxs_reach.interpreter [of ft s, where cpu = "nx_cpu s" and sc = sc and st = "nx_started s" and ha = "nx_halted s" and ru = "nx_running s" and ti = "nx_timer_armed s"]
    nxs_reach.interpreter [of ft s, where cpu = "nx_cpu s" and sc = "nx_scheduler s" and st = b and ha = "nx_halted s" and ru = "nx_running s" and ti = "nx_timer_armed s"]
    nxs_reach.interpreter [of ft s, where cpu = "nx_cpu s" and sc = "nx_scheduler s" and st = "nx_started s" and ha = b and ru = "nx_running s" and ti = "nx_timer_armed s"]
    nxs_reach.interpreter [of ft s, where cpu = "nx_cpu s" and sc = "nx_scheduler s" and st = "nx_started s" and ha = "nx_halted s" and ru = b and ti = "nx_timer_armed s"]
    nxs_reach.interpreter [of ft s, where cpu = "nx_cpu s" and sc = "nx_scheduler s" and st = "nx_started s" and ha = "nx_halted s" and ru = "nx_running s" and ti = b]
  by simp_all

text \<open>A board between turns: reachable, with the loop's part \<open>l\<close>, its processor \<open>n\<close> steps old.\<close>

definition runs_ok :: "bool \<Rightarrow> run_state \<Rightarrow> nat \<Rightarrow> cpu nxs \<Rightarrow> bool" where
  "runs_ok ft l n s \<longleftrightarrow> nxs_reach ft s \<and> loop_part s = l \<and> cpu_ok n (nx_cpu s)"

lemma step_cpu_runs:
  assumes "runs_ok ft l n s" "step_cpu ft (nxs_cpu_bus fp ft) (nx_cpu s, s) = (ok, c, s')"
  shows "runs_ok ft l (Suc n) (s'\<lparr>nx_cpu := c\<rparr>)"
proof -
  have "board_run ft l s" "cpu_wf (nx_cpu s)" using assms(1) by (simp_all add: runs_ok_def board_run_def cpu_ok_def)
  then have o: "outcome (board_run ft l) (stepped (nx_cpu s)) (step ft (nxs_cpu_bus fp ft) (nx_cpu s) s)"
    by (rule board_dsp.outcome_step)
  then have "nxs_reach ft s'" "loop_part s' = l"
    using assms(2) by (auto simp: step_cpu_def outcome_def board_run_def split: prod.splits sum.splits)
  moreover have "cpu_ok (Suc n) c"
    using assms o cpu_ok_mono [of n "nx_cpu s" "Suc n"]
    by (auto simp: step_cpu_def outcome_def runs_ok_def intro: cpu_ok_stepped split: prod.splits sum.splits)
  ultimately show ?thesis by (auto simp: runs_ok_def)
qed

lemma runs_ok_fault [simp]: "runs_ok ft l n (dsp_fault why s) \<longleftrightarrow> nxs_reach ft (dsp_fault why s) \<and> loop_part s = l \<and> cpu_ok n (nx_cpu s)"
  by (simp add: runs_ok_def dsp_fault_def)

lemma audio_runs: "runs_ok ft l n s \<Longrightarrow> functional_audio_tick s = (ok, s') \<Longrightarrow> runs_ok ft l n s'"
  by (auto simp: functional_audio_tick_def Let_def runs_ok_def dsp_fault_def intro: nxs_reach.slots split: if_splits prod.splits)

lemma turn_runs:
  assumes "runs_ok ft l n s" "dsp_turn fp ft s = (t, s')"
  shows "runs_ok ft l (Suc n) s' \<and> (t = Yield_turn \<longrightarrow> hint (nx_hpi s'))"
proof -
  define s0 where "s0 = s\<lparr>bd := deliver_edma_notifications (bd s)\<rparr>"
  obtain q d where q: "intc_cpu_pending (bd_delivery (bd s0)) = (q, d)" by (cases "intc_cpu_pending (bd_delivery (bd s0))")
  define s1 where "s1 = s0\<lparr>bd := (bd s0)\<lparr>bd_delivery := d\<rparr>\<rparr>"
  obtain ok c where i: "interrupt ft q (nx_cpu s1) = (ok, c)" by (cases "interrupt ft q (nx_cpu s1)")
  define s2 where "s2 = s1\<lparr>nx_cpu := c\<rparr>"
  obtain ok3 c3 m3 where st: "step_cpu ft (nxs_cpu_bus fp ft) (c, s2) = (ok3, c3, m3)"
    by (cases "step_cpu ft (nxs_cpu_bus fp ft) (c, s2)")
  define s3 where "s3 = m3\<lparr>nx_cpu := c3\<rparr>"
  have "nxs_reach ft s0" using assms(1) by (simp add: s0_def runs_ok_def nxs_reach.notify)
  then have "nxs_reach ft s1" using q by (simp add: s1_def nxs_reach.take_requests)
  then have r2: "runs_ok ft l n s2"
    using assms(1) i cpu_ok_undisturbed [of n "nx_cpu s1" c] interrupt_undisturbed [OF i]
    by (auto simp: runs_ok_def s2_def s1_def s0_def)
  have r3: "runs_ok ft l (Suc n) s3"
    using step_cpu_runs [OF r2, of fp ok3 c3 m3] st by (simp add: s2_def s3_def)
  have r4: "runs_ok ft l (Suc n) (s3\<lparr>nx_psc := psc_tick (nx_psc s3)\<rparr>)"
    using r3 by (simp add: runs_ok_def nxs_reach.psc)
  obtain ok5 s5 where a: "functional_audio_tick (s3\<lparr>nx_psc := psc_tick (nx_psc s3)\<rparr>) = (ok5, s5)"
    by (cases "functional_audio_tick (s3\<lparr>nx_psc := psc_tick (nx_psc s3)\<rparr>)")
  have r5: "runs_ok ft l (Suc n) s5" by (rule audio_runs [OF r4 a])
  have "runs_ok ft l (Suc n) (dsp_fault Spi_transfer_fault s3)"
    using r3 by (auto simp: runs_ok_def dsp_fault_def)
  moreover have "runs_ok ft l (Suc n) s2" using r2 cpu_ok_mono [of n "nx_cpu s2" "Suc n"] by (simp add: runs_ok_def)
  moreover have "(t, s') = (if \<not> ok then (Stop_uncounted, s2) else if \<not> ok3 then (Stop_uncounted, s3)
      else if tr_fault (nx_transfer s3) \<noteq> 0 then (Stop_counted, dsp_fault Spi_transfer_fault s3)
      else if \<not> ok5 then (Stop_counted, s5) else if hint (nx_hpi s5) then (Yield_turn, s5) else (Next_turn, s5))"
    using assms(2) unfolding dsp_turn_def Let_def s0_def [symmetric] q prod.case s1_def [symmetric] i s2_def [symmetric] st
      s3_def [symmetric] a by simp
  ultimately show ?thesis using r3 r5 by (auto split: if_splits)
qed

section \<open>A slice\<close>

text \<open>The loop runs all its turns unless the processor halts or the DSP yields to the host.\<close>

lemma turns_run:
  assumes "dsp_turns fp ft k s = (steps, s')" "runs_ok ft (st, h, ru, sc, ti) n s"
  shows "steps \<le> k \<and> (\<exists>h'. runs_ok ft (st, h', ru, sc, ti) (n + k) s' \<and> (h \<longrightarrow> h') \<and> (steps < k \<longrightarrow> h' \<or> hint (nx_hpi s')))"
  using assms
proof (induction k arbitrary: s steps s' n)
  case (Suc k)
  obtain t s1 where t: "dsp_turn fp ft s = (t, s1)" by (cases "dsp_turn fp ft s")
  note r = turn_runs [OF Suc.prems(2) t]
  have later: "runs_ok ft l (n + Suc k) s1" if "runs_ok ft l (Suc n) s1" for l
    using that cpu_ok_mono [of "Suc n" "nx_cpu s1" "n + Suc k"] by (simp add: runs_ok_def)
  have halt: "runs_ok ft (st, True, ru, sc, ti) (n + Suc k) (s1\<lparr>nx_halted := True\<rparr>)"
    using later r by (auto simp: runs_ok_def loop_part_def)
  show ?case
  proof (cases t)
    case Next_turn
    obtain j s2 where j: "dsp_turns fp ft k s1 = (j, s2)" by (cases "dsp_turns fp ft k s1")
    then show ?thesis using Suc.IH [OF j conjunct1 [OF r]] Suc.prems(1) t Next_turn by auto
  qed (use Suc.prems(1) t halt r later in \<open>auto intro: exI [of _ h] exI [of _ True]\<close>)
qed auto

section \<open>The running machine\<close>

text \<open>Everything that happens to the board from power-on: the host's accesses and the boot phase with what they
  start, the reset line, and the expiry of the virtual timer. \<open>n\<close> counts the operations that can run the DSP, each
  of which runs at most a million steps.\<close>

inductive nxs_machine :: "host_fp \<Rightarrow> bool \<Rightarrow> nat \<Rightarrow> cpu nxs \<Rightarrow> bool" for fp ft where
  power_on: "nxs_machine fp ft 0 (nxs_init cpu functional_audio deferred)"
| host_load: "nxs_machine fp ft n s \<Longrightarrow> hpi_read s off = (x, s') \<Longrightarrow> nxs_machine fp ft n s'"
| host_store: "nxs_machine fp ft n s \<Longrightarrow> nxs_machine fp ft (Suc n) (serve_request fp ft (hpi_write s off v))"
| boot_phase: "nxs_machine fp ft n s \<Longrightarrow> nxs_machine fp ft (Suc n) (serve_request fp ft (set_boot_phase s p))"
| reset_line: "nxs_machine fp ft n s \<Longrightarrow> nxs_machine fp ft n (reset_line s released)"
| timer: "nxs_machine fp ft n s \<Longrightarrow> nx_timer_armed s \<Longrightarrow>
    nxs_machine fp ft (Suc n) (deferred_dsp_tick fp ft (s\<lparr>nx_timer_armed := False\<rparr>))"

text \<open>The scheduler: unused, or deferred with its counters no larger than the operations so far.\<close>

definition sched_ok :: "nat \<Rightarrow> scheduler \<Rightarrow> bool" where
  "sched_ok n sc \<longleftrightarrow> sc = scheduler_zero \<or>
     deferred_wf sc \<and> unat (sc_activation_id sc) \<le> n \<and> unat (sc_slice_id sc) \<le> n"

lemma unat_inc_le: "unat (x :: u64) \<le> n \<Longrightarrow> unat (x + 1) \<le> Suc n"
  using mod_less_eq_dividend [of "unat x + 1" "2 ^ 64"] by (simp add: unat_word_ariths)

lemma sched_ok_request: "sched_ok n sc \<Longrightarrow> sched_request sc = Some sc' \<Longrightarrow> sched_ok (Suc n) sc'"
  using wf_request [of sc sc']
  by (auto simp: sched_ok_def sched_request_def scheduler_zero_def intro: unat_inc_le split: if_splits)

lemma sched_ok_begin: "sched_ok n sc \<Longrightarrow> sched_begin sc = (q, sc') \<Longrightarrow> sched_ok (Suc n) sc' \<and> unat (sc_activation_id sc') \<le> n"
  using wf_begin [of sc]
  by (auto simp: sched_ok_def sched_begin_def scheduler_zero_def intro: unat_inc_le split: if_splits)

lemma sched_ok_end:
  assumes "sched_ok n sc" "unat (sc_activation_id sc) < n \<or> n = 0" "sched_end sc k h f = Some sc'"
  shows "sched_ok n sc'"
proof -
  have m: "sc_mode sc = MODE_DEFERRED_V1" using assms(3) by (auto simp: sched_end_def split: if_splits)
  then have ok: "deferred_wf sc" "unat (sc_slice_id sc) \<le> n" "unat (sc_activation_id sc) \<le> n"
    using assms(1) by (auto simp: sched_ok_def scheduler_zero_def)
  have c: "sc_slice_id sc' = sc_slice_id sc" "sc_activation_id sc' = sc_activation_id sc \<or> sc_activation_id sc' = sc_activation_id sc + 1"
    using assms(3) by (auto simp: sched_end_def sched_next_def Let_def split: if_splits option.splits)
  have "n \<noteq> 0"
  proof
    assume "n = 0"
    then have "sc_activation_id sc = 0" using ok by (simp add: unat_eq_zero)
    then have "sc_pending sc = 0" using ok(1) by (auto simp: deferred_wf_def)
    then show False using assms(3) by (simp add: sched_end_def)
  qed
  then have "unat (sc_activation_id sc + 1) \<le> n" using assms(2) unat_inc_le [of "sc_activation_id sc" "n - 1"] by simp
  then show ?thesis using c ok wf_end [OF m assms(3)] by (auto simp: sched_ok_def)
qed

definition machine_ok :: "bool \<Rightarrow> nat \<Rightarrow> cpu nxs \<Rightarrow> bool" where
  "machine_ok ft n s \<longleftrightarrow> nxs_reach ft s \<and> \<not> nx_running s \<and> (nx_started s \<longrightarrow> cpu_ok (1000000 * n) (nx_cpu s)) \<and>
     sched_ok n (nx_scheduler s)"

lemma sched_ok_mono: "sched_ok n sc \<Longrightarrow> n \<le> m \<Longrightarrow> sched_ok m sc"
  by (auto simp: sched_ok_def)

lemma machine_ok_Suc: "machine_ok ft n s \<Longrightarrow> machine_ok ft (Suc n) s"
  using cpu_ok_mono [of "1000000 * n" "nx_cpu s" "1000000 * Suc n"] sched_ok_mono [of n "nx_scheduler s" "Suc n"]
  by (auto simp: machine_ok_def)

lemma machine_ok_updates [simp]:
  "machine_ok ft n (s\<lparr>nx_halted := b\<rparr>) \<longleftrightarrow> nxs_reach ft (s\<lparr>nx_halted := b\<rparr>) \<and> \<not> nx_running s \<and>
     (nx_started s \<longrightarrow> cpu_ok (1000000 * n) (nx_cpu s)) \<and> sched_ok n (nx_scheduler s)"
  by (simp add: machine_ok_def)

lemma fault_ok: "machine_ok ft n s \<Longrightarrow> machine_ok ft n ((dsp_fault why s)\<lparr>nx_halted := True\<rparr>)"
  by (auto simp: machine_ok_def dsp_fault_def)

text \<open>An execution of at most a million steps.\<close>

lemma execute_ok:
  assumes r: "nxs_reach ft s" "\<not> nx_running s" "nx_started s \<longrightarrow> cpu_ok (1000000 * n) (nx_cpu s)"
    and sc: "sched_ok (Suc n) (nx_scheduler s)" "unat (sc_activation_id (nx_scheduler s)) \<le> n" and q: "quota \<le> 1000000"
  shows "machine_ok ft (Suc n) (execute_dsp fp ft quota s)"
proof (cases "\<not> nx_started s \<or> nx_halted s \<or> nx_running s")
  case True
  then show ?thesis
    using r sc cpu_ok_mono [of "1000000 * n" "nx_cpu s" "1000000 * Suc n"] by (auto simp: execute_dsp_def machine_ok_def)
next
  case False
  let ?s = "s\<lparr>nx_running := True\<rparr>"
  obtain k s1 where t: "dsp_turns fp ft quota ?s = (k, s1)" by (cases "dsp_turns fp ft quota ?s")
  have "runs_ok ft (True, False, True, nx_scheduler s, nx_timer_armed s) (1000000 * n) ?s"
    using r False by (auto simp: runs_ok_def loop_part_def)
  from turns_run [OF t this] obtain h where
    s1: "runs_ok ft (True, h, True, nx_scheduler s, nx_timer_armed s) (1000000 * n + quota) s1" by blast
  define s2 where "s2 = s1\<lparr>nx_running := False\<rparr>"
  have s2: "machine_ok ft (Suc n) s2" "nx_scheduler s2 = nx_scheduler s"
    using s1 sc q cpu_ok_mono [of "1000000 * n + quota" "nx_cpu s1" "1000000 * Suc n"]
    by (auto simp: machine_ok_def s2_def runs_ok_def loop_part_def)
  have "machine_ok ft (Suc n) (s2\<lparr>nx_scheduler := sc'\<rparr>)"
    if "sched_end (nx_scheduler s) (of_nat k) (hint (nx_hpi s2)) (nx_halted s2) = Some sc'" for sc'
    using s2 sched_ok_end [OF sc(1) _ that] sc(2) by (auto simp: machine_ok_def)
  then show ?thesis
    using False s2 fault_ok [OF s2(1)] unfolding execute_dsp_def t prod.case Let_def s2_def [symmetric]
    by (auto split: option.split)
qed

lemma sched_ok_pending: "sched_ok n sc \<Longrightarrow> sc_mode sc \<noteq> 0 \<Longrightarrow> deferred_wf sc"
  by (auto simp: sched_ok_def scheduler_zero_def)

lemma run_dsp_ok: "machine_ok ft n s \<Longrightarrow> machine_ok ft (Suc n) (run_dsp fp ft s)"
proof -
  assume s: "machine_ok ft n s"
  show ?thesis
  proof (cases "\<not> nx_started s \<or> nx_halted s \<or> nx_running s")
    case True
    then show ?thesis using machine_ok_Suc [OF s] by (simp add: run_dsp_def)
  next
    case False
    have e: "machine_ok ft (Suc n) (execute_dsp fp ft 1000000 s)" if "sc_mode (nx_scheduler s) = 0"
      using s that machine_ok_Suc [OF s]
      by (intro execute_ok) (auto simp: machine_ok_def sched_ok_def deferred_wf_def scheduler_zero_def)
    have d: "machine_ok ft (Suc n) (s\<lparr>nx_scheduler := sc, nx_timer_armed := True\<rparr>)"
      if "sched_request (nx_scheduler s) = Some sc" for sc
      using machine_ok_Suc [OF s] s sched_ok_request [OF _ that] by (auto simp: machine_ok_def)
    show ?thesis using False e d fault_ok [OF machine_ok_Suc [OF s]] by (auto simp: run_dsp_def split: option.split)
  qed
qed

lemma start_dsp_ok: "machine_ok ft n s \<Longrightarrow> machine_ok ft (Suc n) (start_dsp fp ft s)"
  unfolding start_dsp_def by (rule run_dsp_ok) (auto simp: machine_ok_def cpu_ok_reset)

lemma serve_ok: "machine_ok ft n s \<Longrightarrow> machine_ok ft (Suc n) (serve_request fp ft (q, s))"
  by (auto simp: serve_request_def intro: run_dsp_ok start_dsp_ok machine_ok_Suc split: host_request.split)

lemma tick_ok: "machine_ok ft n s \<Longrightarrow> machine_ok ft (Suc n) (deferred_dsp_tick fp ft (s\<lparr>nx_timer_armed := False\<rparr>))"
proof -
  assume s: "machine_ok ft n s"
  let ?s = "s\<lparr>nx_timer_armed := False\<rparr>"
  have s': "machine_ok ft n ?s" using s by (auto simp: machine_ok_def)
  obtain q sc where b: "sched_begin (nx_scheduler s) = (q, sc)" by (cases "sched_begin (nx_scheduler s)")
  have sc: "sched_ok (Suc n) sc" "unat (sc_activation_id sc) \<le> n"
    using sched_ok_begin [OF _ b] s by (auto simp: machine_ok_def)
  have m: "machine_ok ft (Suc n) (?s\<lparr>nx_scheduler := sc\<rparr>)"
    using machine_ok_Suc [OF s'] sc by (auto simp: machine_ok_def)
  have "unat q \<le> 1000000"
  proof (cases "sc_mode (nx_scheduler s) = 0 \<or> sc_pending (nx_scheduler s) = 0")
    case True
    then have "q = 0" using b by (auto simp: sched_begin_def)
    then show ?thesis by simp
  next
    case False
    then have "deferred_wf (nx_scheduler s)" using s sched_ok_pending by (auto simp: machine_ok_def)
    then have "unat (sched_quota (nx_scheduler s)) \<le> 4096" by (simp add: unat_quota_wf)
    then show ?thesis using b by (auto simp: sched_begin_def split: if_splits)
  qed
  then have e: "machine_ok ft (Suc n) (execute_dsp fp ft (unat q) (?s\<lparr>nx_scheduler := sc\<rparr>))"
    using s' sc by (intro execute_ok) (auto simp: machine_ok_def)
  then have "machine_ok ft (Suc n) ((execute_dsp fp ft (unat q) (?s\<lparr>nx_scheduler := sc\<rparr>))\<lparr>nx_timer_armed := True\<rparr>)"
    by (auto simp: machine_ok_def)
  then show ?thesis
    using machine_ok_Suc [OF s'] m e fault_ok [OF m] b by (auto simp: deferred_dsp_tick_def Let_def)
qed

section \<open>Its invariant\<close>

lemma host_keeps_loop:
  "hpi_read s off = (x, s') \<Longrightarrow> loop_part s' = loop_part s \<and> nx_cpu s' = nx_cpu s"
  "hpi_write s off v = (q, s') \<Longrightarrow> loop_part s' = loop_part s \<and> nx_cpu s' = nx_cpu s"
  "set_boot_phase s p = (q, s') \<Longrightarrow> loop_part s' = loop_part s \<and> nx_cpu s' = nx_cpu s"
  by (auto simp: hpi_read_def hpi_write_def hpi_control_write_def host_store_def set_boot_phase_def Let_def split: if_splits)

lemma machine_ok_frame:
  "machine_ok ft n s \<Longrightarrow> loop_part s' = loop_part s \<and> nx_cpu s' = nx_cpu s \<Longrightarrow> nxs_reach ft s' \<Longrightarrow> machine_ok ft n s'"
  by (simp add: machine_ok_def loop_part_def)

lemma machine_reachable: "nxs_machine fp ft n s \<Longrightarrow> machine_ok ft n s"
proof (induction rule: nxs_machine.induct)
  case (power_on cpu functional_audio deferred)
  have "nx_scheduler (nxs_init cpu functional_audio deferred) = (if deferred then sched_reset else scheduler_zero)"
    "\<not> nx_running (nxs_init cpu functional_audio deferred)" "\<not> nx_started (nxs_init cpu functional_audio deferred)"
    by (simp_all add: nxs_init_def)
  then show ?case using nxs_reach.power_on by (auto simp: machine_ok_def sched_ok_def sched_reset_def deferred_wf_def)
next
  case (host_load n s off x s')
  have "nxs_reach ft s'" using host_load.IH nxs_reach.host_load [OF _ host_load.hyps(2)] by (simp add: machine_ok_def)
  then show ?case by (rule machine_ok_frame [OF host_load.IH host_keeps_loop(1) [OF host_load.hyps(2)]])
next
  case (host_store n s off v)
  obtain q s' where w: "hpi_write s off v = (q, s')" by (cases "hpi_write s off v")
  have "machine_ok ft n s'"
    using machine_ok_frame [OF host_store.IH host_keeps_loop(2) [OF w]] nxs_reach.host_store [OF _ w] host_store.IH
    by (simp add: machine_ok_def)
  then show ?case by (simp add: w serve_ok)
next
  case (boot_phase n s p)
  obtain q s' where w: "set_boot_phase s p = (q, s')" by (cases "set_boot_phase s p")
  have "machine_ok ft n s'"
    using machine_ok_frame [OF boot_phase.IH host_keeps_loop(3) [OF w]] nxs_reach.phase [OF _ w] boot_phase.IH
    by (simp add: machine_ok_def)
  then show ?case by (simp add: w serve_ok)
next
  case (reset_line n s released)
  have "nxs_reach ft (reset_line s released)" using reset_line.IH by (simp add: machine_ok_def nxs_reach.reset)
  then show ?case
    using reset_line.IH
    by (auto simp: machine_ok_def reset_line_def assert_reset_def Let_def sched_ok_def deferred_wf_def sched_reset_def scheduler_zero_def)
next
  case (timer n s)
  show ?case by (rule tick_ok [OF timer.IH])
qed

lemma sorted_window: "sorted_wrt (<) (ts :: u64 list) \<Longrightarrow> list_all (due_within now n) ts \<Longrightarrow> length ts \<le> n"
proof -
  assume s: "sorted_wrt (<) ts" and w: "list_all (due_within now n) ts"
  have "card (set ts) = length ts" using s by (simp add: distinct_card strict_sorted_iff)
  moreover have "unat ` set ts \<subseteq> {unat now<..unat now + n}" using w by (auto simp: list_all_iff due_within_def)
  then have "card (unat ` set ts) \<le> n" using card_mono [of "{unat now<..unat now + n}"] by fastforce
  moreover have "card (unat ` set ts) = card (set ts)" by (rule card_image) (auto intro: inj_onI unsigned_word_eqI)
  ultimately show ?thesis by simp
qed

lemma pipeline_bounds:
  assumes ok: "pipeline_ok c" and room: "unat (cycles c) + 64 < 2 ^ 64"
  shows "length (stores c) \<le> 24 \<and> (\<forall>s\<in>set (stores c). cycles c < st_due s \<and> st_due s \<le> cycles c + 3) \<and>
    length (loads c) \<le> 40 \<and> (\<forall>l\<in>set (loads c). cycles c < ld_due l \<and> ld_due l \<le> cycles c + 11) \<and>
    length (branch_queue c) \<le> 5 \<and> (branch_due c = 0 \<longrightarrow> branch_queue c = []) \<and>
    (branch_due c \<noteq> 0 \<longrightarrow> sorted_wrt (<) (cycles c # branch_due c # map fst (branch_queue c)) \<and>
      (\<forall>t\<in>set (branch_due c # map fst (branch_queue c)). t \<le> cycles c + 6))"
proof -
  have due: "cycles c < t \<and> t \<le> cycles c + of_nat k" if "due_within (cycles c) k t" "k \<le> 11" for k t
    using that unat_add_due [OF room that(2)] by (simp add: due_within_def word_less_nat_alt word_le_nat_alt)
  have b: "sorted_wrt (<) (branch_dues c)" "list_all (due_within (cycles c) 6) (branch_dues c)"
    using ok by (simp_all add: pipeline_ok_def)
  have "length (branch_queue c) \<le> 5"
    using sorted_window [OF b] ok by (auto simp: branch_dues_def pipeline_ok_def split: if_splits)
  moreover have "sorted_wrt (<) (cycles c # branch_due c # map fst (branch_queue c)) \<and>
      (\<forall>t\<in>set (branch_due c # map fst (branch_queue c)). t \<le> cycles c + 6)" if "branch_due c \<noteq> 0"
    using b that due [of 6] by (auto simp: branch_dues_def list_all_iff)
  ultimately show ?thesis
    using ok due [of 3] due [of 11] by (auto simp: pipeline_ok_def list_all_iff)
qed

text \<open>C4: The pipeline of the running processor. In every machine reached from power-on by the host, the boot phase,
  the reset line and the virtual timer, whatever the program in memory is, the started processor keeps its queues
  within the arrays of the code (24 stores, 40 loads, five branches behind the next one); every queued store is due
  in at most 3 cycles, every load or delayed result in at most 11, every branch in at most 6; the branches are in
  order with no two due together. The bound on the operations keeps the cycle counter from wrapping: each operation
  runs at most a million steps of at most nine cycles.\<close>

theorem machine_pipeline_bounds:
  assumes "nxs_machine fp ft n s" "9000000 * n + 128 < 2 ^ 64" "nx_started s" "nx_cpu s = c"
  shows "length (stores c) \<le> 24 \<and> (\<forall>s\<in>set (stores c). cycles c < st_due s \<and> st_due s \<le> cycles c + 3) \<and>
    length (loads c) \<le> 40 \<and> (\<forall>l\<in>set (loads c). cycles c < ld_due l \<and> ld_due l \<le> cycles c + 11) \<and>
    length (branch_queue c) \<le> 5 \<and> (branch_due c = 0 \<longrightarrow> branch_queue c = []) \<and>
    (branch_due c \<noteq> 0 \<longrightarrow> sorted_wrt (<) (cycles c # branch_due c # map fst (branch_queue c)) \<and>
      (\<forall>t\<in>set (branch_due c # map fst (branch_queue c)). t \<le> cycles c + 6))"
proof -
  have "cpu_ok (1000000 * n) c" using machine_reachable [OF assms(1)] assms(3,4) by (simp add: machine_ok_def)
  then have "pipeline_ok c" "unat (cycles c) + 64 < 2 ^ 64" using assms(2) by (simp_all add: cpu_ok_def)
  then show ?thesis by (rule pipeline_bounds)
qed

text \<open>A machine whose host has raised DSPINT under the deferred scheduler: the DSP is started and its first
  activation waits for the timer.\<close>

definition host_example :: host_fp where
  "host_example = \<lparr>hf_reciprocal64 = id, hf_rsqrt64 = id, hf_reciprocal32 = id, hf_rsqrt32 = id, hf_differ64 = (\<noteq>), hf_differ32 = (\<noteq>)\<rparr>"

definition started_machine :: "host_fp \<Rightarrow> cpu nxs" where
  "started_machine fp = serve_request fp False
     (hpi_write (reset_line (nxs_init (cpu_reset 0) False True) True) 0 0x20002)"

lemma started_machine_facts:
  "nxs_machine fp False 1 (started_machine fp)"
  "nx_started (started_machine fp)" "\<not> nx_halted (started_machine fp)" "sc_pending (nx_scheduler (started_machine fp)) = 1"
  and started_scheduler: "nx_scheduler (started_machine fp) = sched_reset\<lparr>sc_activation_id := 1, sc_remaining := 1000000, sc_pending := 1\<rparr>"
proof -
  show "nxs_machine fp False 1 (started_machine fp)"
    unfolding started_machine_def
    using nxs_machine.host_store [OF nxs_machine.reset_line [OF nxs_machine.power_on]] by simp
  have w: "fst (hpi_write (reset_line (nxs_init (cpu_reset 0) False True) True) 0 0x20002) = Start_Dsp"
    by code_simp
  then obtain s where s: "hpi_write (reset_line (nxs_init (cpu_reset 0) False True) True) 0 0x20002 = (Start_Dsp, s)"
    by (cases "hpi_write (reset_line (nxs_init (cpu_reset 0) False True) True) 0 0x20002") simp
  have "loop_part s = loop_part (reset_line (nxs_init (cpu_reset 0) False True) True)" using host_keeps_loop(2) [OF s] by blast
  then have l: "\<not> nx_halted s" "\<not> nx_running s" "nx_scheduler s = sched_reset"
    by (simp_all add: loop_part_def reset_line_def nxs_init_def Let_def)
  have q: "sc_mode sched_reset \<noteq> 0" "sched_request sched_reset = Some (sched_reset\<lparr>sc_activation_id := 1, sc_remaining := 1000000, sc_pending := 1\<rparr>)"
    by (simp_all add: sched_request_def sched_reset_def sched_valid_def)
  show "nx_started (started_machine fp)" "\<not> nx_halted (started_machine fp)" "sc_pending (nx_scheduler (started_machine fp)) = 1"
    "nx_scheduler (started_machine fp) = sched_reset\<lparr>sc_activation_id := 1, sc_remaining := 1000000, sc_pending := 1\<rparr>"
    using l q by (simp_all add: started_machine_def serve_request_def s start_dsp_def run_dsp_def)
qed

theorem machine_pipeline_bounds_witness:
  "\<exists>s. nxs_machine host_example False 1 s \<and> nx_started s \<and> length (loads (nx_cpu s)) \<le> 40"
  using machine_pipeline_bounds [OF started_machine_facts(1) _ started_machine_facts(2) refl, of host_example] started_machine_facts [of host_example]
  by auto

text \<open>A slice of a pending activation: it begins, and any number of steps up to its quota ends it, fewer being
  explained by a hint or a fault.\<close>

lemma pending_slice:
  assumes wf: "deferred_wf sc" and p: "sc_pending sc \<noteq> 0" and nt: "sc_slice_id sc \<noteq> UINT64_TOP" "sc_activation_id sc \<noteq> UINT64_TOP"
  obtains sc1 where "sched_begin sc = (sched_quota sc, sc1)" "sched_quota sc \<noteq> 0" "sc_mode sc1 \<noteq> 0"
    "\<And>k h f. k \<le> unat (sched_quota sc) \<Longrightarrow> k = unat (sched_quota sc) \<or> h \<or> f \<Longrightarrow> sched_end sc1 (of_nat k) h f \<noteq> None"
proof -
  have mode: "sc_mode sc = MODE_DEFERRED_V1" using wf by (simp add: deferred_wf_def)
  have v: "sched_valid sc" using wf deferred_valid [OF mode] by simp
  define sc1 where "sc1 = sc\<lparr>sc_slice_id := sc_slice_id sc + 1\<rparr>"
  have b: "sched_begin sc = (sched_quota sc, sc1)" using v mode p nt by (simp add: sched_begin_def sc1_def)
  have q: "sched_quota sc \<noteq> 0"
    using wf_remaining [OF wf p] unat_quota_wf [OF wf] by (metis min_def unat_eq_zero zero_neq_numeral)
  have sc1: "sc_mode sc1 = MODE_DEFERRED_V1" "sc_pending sc1 \<noteq> 0" "sc_slice_id sc1 \<noteq> 0" "sched_quota sc1 = sched_quota sc"
    "sc_activation_id sc1 \<noteq> UINT64_TOP"
    using mode p nt u64_inc_nonzero by (simp_all add: sc1_def sched_quota_def)
  have v1: "sched_valid sc1" using wf_begin [OF wf] b deferred_valid [OF sc1(1)] by simp
  have e: "sched_end sc1 (of_nat k) h f \<noteq> None" if k: "k \<le> unat (sched_quota sc)" "k = unat (sched_quota sc) \<or> h \<or> f" for k h f
  proof -
    have "unat (sched_quota sc) < 2 ^ 32" using unsigned_less [of "sched_quota sc"] by simp
    then have ku: "unat (of_nat k :: u32) = k" using k(1) by (simp add: unat_of_nat)
    have "\<not> of_nat k > sched_quota sc" using k(1) ku by (simp add: word_less_nat_alt)
    moreover have "of_nat k = sched_quota sc" if "\<not> h" "\<not> f" using k(2) that ku by simp
    ultimately show ?thesis using sc1 by (subst end_fails_iff [OF v1 sc1(1,2)]) auto
  qed
  show thesis by (rule that [OF b q _ e]) (use sc1(1) in simp_all)
qed

text \<open>C5: A slice of the deferred scheduler. In every machine reached within the range of the counters, when the timer
  finds the started DSP with work pending, a slice begins; the loop runs its whole quota unless the processor halts
  or the DSP raises HINT; the scheduler accepts the end of the slice; and the timer is armed again exactly when
  work is left. The loop's faults about the scheduler cannot arise.\<close>

theorem deferred_slice_completes:
  assumes m: "nxs_machine fp ft n s" and n: "n + 1 < 2 ^ 64"
    and run: "nx_started s" "\<not> nx_halted s" "sc_pending (nx_scheduler s) \<noteq> 0"
  shows "\<exists>quota sc steps s' sc'. sched_begin (nx_scheduler s) = (quota, sc) \<and> quota \<noteq> 0 \<and>
    dsp_turns fp ft (unat quota) (s\<lparr>nx_timer_armed := False, nx_scheduler := sc, nx_running := True\<rparr>) = (steps, s') \<and>
    steps \<le> unat quota \<and> (steps < unat quota \<longrightarrow> nx_halted s' \<or> hint (nx_hpi s')) \<and>
    sched_end sc (of_nat steps) (hint (nx_hpi s')) (nx_halted s') = Some sc' \<and>
    deferred_dsp_tick fp ft (s\<lparr>nx_timer_armed := False\<rparr>) =
      s'\<lparr>nx_running := False, nx_scheduler := sc', nx_timer_armed := (sc_pending sc' \<noteq> 0 \<and> \<not> nx_halted s')\<rparr>"
proof -
  let ?sc = "nx_scheduler s"
  have ok: "machine_ok ft n s" by (rule machine_reachable [OF m])
  then have wf: "deferred_wf ?sc" and top: "unat (sc_activation_id ?sc) \<le> n" "unat (sc_slice_id ?sc) \<le> n"
    using run(3) by (auto simp: machine_ok_def sched_ok_def scheduler_zero_def)
  have "sc_slice_id ?sc \<noteq> UINT64_TOP" "sc_activation_id ?sc \<noteq> UINT64_TOP" using top n by auto
  from pending_slice [OF wf run(3) this] obtain sc where b: "sched_begin ?sc = (sched_quota ?sc, sc)" and q: "sched_quota ?sc \<noteq> 0"
    and sc: "sc_mode sc \<noteq> 0"
    and fits: "\<And>k h f. k \<le> unat (sched_quota ?sc) \<Longrightarrow> k = unat (sched_quota ?sc) \<or> h \<or> f \<Longrightarrow> sched_end sc (of_nat k) h f \<noteq> None"
    by blast
  let ?t = "s\<lparr>nx_timer_armed := False, nx_scheduler := sc, nx_running := True\<rparr>"
  obtain k s' where t: "dsp_turns fp ft (unat (sched_quota ?sc)) ?t = (k, s')" by (cases "dsp_turns fp ft (unat (sched_quota ?sc)) ?t")
  have "runs_ok ft (True, False, True, sc, False) (1000000 * n) ?t"
    using ok run by (auto simp: runs_ok_def loop_part_def machine_ok_def)
  from turns_run [OF t this] obtain h where k: "k \<le> unat (sched_quota ?sc)" "k < unat (sched_quota ?sc) \<longrightarrow> h \<or> hint (nx_hpi s')"
    and r: "runs_ok ft (True, h, True, sc, False) (1000000 * n + unat (sched_quota ?sc)) s'" by blast
  have p: "nx_halted s' = h" "nx_scheduler s' = sc" "nx_timer_armed s' = False" "nx_started s'"
    using r by (auto simp: runs_ok_def loop_part_def)
  obtain sc' where e: "sched_end sc (of_nat k) (hint (nx_hpi s')) h = Some sc'"
    using fits [OF k(1), of "hint (nx_hpi s')" h] k by (auto simp: le_less)
  have x: "execute_dsp fp ft (unat (sched_quota ?sc)) (s\<lparr>nx_timer_armed := False, nx_scheduler := sc\<rparr>)
      = s'\<lparr>nx_running := False, nx_scheduler := sc'\<rparr>"
    using ok run t p sc e by (simp add: execute_dsp_def machine_ok_def Let_def)
  have "deferred_dsp_tick fp ft (s\<lparr>nx_timer_armed := False\<rparr>) =
      s'\<lparr>nx_running := False, nx_scheduler := sc', nx_timer_armed := (sc_pending sc' \<noteq> 0 \<and> \<not> nx_halted s')\<rparr>"
    using run b q x p by (auto simp: deferred_dsp_tick_def Let_def)
  then show ?thesis using b q t k p e by blast
qed


theorem deferred_slice_completes_witness:
  "\<exists>s sc steps s' sc'. nxs_machine host_example False 1 s \<and> sched_begin (nx_scheduler s) = (4096, sc) \<and>
     dsp_turns host_example False 4096 (s\<lparr>nx_timer_armed := False, nx_scheduler := sc, nx_running := True\<rparr>) = (steps, s') \<and>
     sched_end sc (of_nat steps) (hint (nx_hpi s')) (nx_halted s') = Some sc'"
proof -
  let ?s = "started_machine host_example"
  have p: "sc_pending (nx_scheduler ?s) \<noteq> 0" using started_machine_facts(4) by simp
  have "fst (sched_begin (nx_scheduler ?s)) = 4096"
    by (simp add: started_scheduler sched_begin_def sched_reset_def sched_valid_def sched_quota_def)
  moreover have "unat (4096 :: u32) = 4096" by simp
  ultimately show ?thesis
    using deferred_slice_completes [OF started_machine_facts(1) _ started_machine_facts(2,3) p] started_machine_facts(1) [of host_example] by fastforce
qed

end
