(* ===== verification/Spec2Isabelle.thy ===== *)
theory Spec2Isabelle
  imports
    C674x_Packed8 C674x_Packed16 C674x_Packbits C674x_Mpy C674x_Dotp C674x_Uncond
    C674x_Control C674x_Loop Dsp_Scheduler
    C6747_Psc C6747_Syscfg C6747_Gpio C6747_I2c C6747_Hpi Nxs_Bus_Invariant
    C674x_Step C674x_Dispatch Nxs_Dsp
begin

text \<open>
  A verification library for the CDJ-2000 emulator: the DSP side of \<^verbatim>\<open>emulator/qemu\<close>. All file names below are
  of that directory. The player's digital signal processor is a TMS320C6747. The emulator interprets its C674x
  instruction set, models the peripherals the firmware programs, and hangs both on the NXS board, where a host
  processor reaches the DSP's memory through the host port.

  Parts and how they interact

  The interpreter (\<^verbatim>\<open>cdj_c674x.c\<close>) calls its bus through three functions: a read, a write with a flag that says
  whether to check or to commit, and a clock tick. The board (\<^verbatim>\<open>cdj2000_nxs_hpi.c\<close>) provides them: it decodes the
  address, hands a register access to the device that owns it, moves the data of DMA transfers, delivers system
  events and passes core cycles to the devices that count. The scheduler (\<^verbatim>\<open>cdj_dsp_scheduler.c\<close>) cuts the work
  of the DSP into slices that the host's main loop runs. The host reaches the same memories and the host port
  control register from its own side.

  Conventions

  A C integer of a fixed width is a word of that width (Prelude), a struct is a record with the source's field
  names, a tagged variant a datatype, an array a list or a function of its index, a pointer that may be null an
  option. A function that changes its argument returns it changed. A stop of the interpreter is the left summand
  of a sum that carries the fault; a refused device access is None, False or the Refuse value of its result.
  The DMA bus, the processor's bus and the host's floating point operations behind the approximation tables are
  arguments of the definitions that call them.

  Theories

  Prelude: C integer types, casts, shifts, bit fields, lanes of a word, lemmas on loops over bits.
  Lanes: a register as a vector of lanes; the contract of an instruction that works on each lane alone.
  Bus_Contract: the check-then-commit contract of \<^verbatim>\<open>CdjC674xWrite\<close>, as a locale, with queues of stores.

  C674x_Packed8, C674x_Packed16, C674x_Packbits, C674x_Mpy, C674x_Dotp: the instruction functions of
  \<^verbatim>\<open>cdj_c674x_packed8.c\<close>, \<^verbatim>\<open>_packed16.c\<close>, \<^verbatim>\<open>_packbits.c\<close>, \<^verbatim>\<open>_mpy.c\<close>, \<^verbatim>\<open>_mpy32.c\<close>, \<^verbatim>\<open>_dotp.c\<close>, with the lemmas that they
  are lane-wise, exact, saturate at the right operands and undo each other.
  C674x_Sp, C674x_Dp, C674x_Approx: floating point on the bits of binary32 and binary64 (\<^verbatim>\<open>_sp.c\<close>, \<^verbatim>\<open>_dp.c\<close>,
  \<^verbatim>\<open>_approx.c\<close>). Normalising shifts at most 64 places, which is the fuel of its loop.
  C674x_Uncond, C674x_Control: the nonconditional classifier and the control registers.
  C674x_Loop: the software-pipelined loop buffer (\<^verbatim>\<open>_loop.c\<close>), with its issue schedule proved against a closed
  form, the drain and the reload.
  C674x_State: \<^verbatim>\<open>CdjC674x\<close>, its registers, the queues of pending loads, stores and branches. C674x_Format: the
  format helpers. C674x_Fetch: the execute packet at the program counter; the loop over the slots of a fetch
  packet ends because the slots left decrease. C674x_Arm, C674x_Arms, C674x_Compact: what each instruction does.
  C674x_Table: the arm table and its lookup; C674x_Dispatch: no two rows claim one word, so that the order of the
  table does not matter. C674x_Issue: E1 of a packet. C674x_Execute: the conflict checks on the whole packet and
  the cycles it takes, with the retirement of loads, stores and branches. C674x_Interrupt: the twelve maskable
  interrupts. C674x_Step: one step, with and without a software loop.
  C674x_Pipeline, C674x_Bus_Keeps, C674x_Issue_Keeps, C674x_Execute_Keeps, C674x_Step_Keeps: two invariants carried
  through the whole interpreter, from every arm of the table over packets and cycles to a step and an interrupt:
  the bounds of the pipeline's queues, and any property of the client's state that the bus keeps. The second is a
  locale, which Nxs_Dsp interprets on the board.

  Dsp_Scheduler: requests, slices and activations, with validity and completion.

  C6747_Intc, C6747_Psc, C6747_Syscfg, C6747_Gpio, C6747_I2c, C6747_Hpi, C6747_Timer, C6747_Pll, C6747_Cache,
  C6747_Emifb, C6747_Mcasp, C6747_Spi: one theory for each device file \<^verbatim>\<open>cdj_c6747_*.c\<close>, in the order state, reset,
  reads, writes, ticks, invariant, behaviour. Each keeps the register-write contract by an interpretation.
  C6747_Edma: the DMA controller over an abstract memory, with a service queue of at most 2^20 entries as in the
  code, which bounds its loop. C6747_Edma_Contract, C6747_Edma_Invariant, C6747_Edma_Simulation: its contract over
  any bus that keeps one, its validity predicate, and two buses that simulate each other.
  Nxs_Board: memories, spans, the staged DMA transaction of the board and its refinement to the direct execution.
  Nxs_Bus: the dispatch of DSP loads and stores, the cycle clocks, the host's accesses, reset.
  Nxs_Bus_Invariant: the board as one port from the ports of its devices, and the invariant of every reachable
  board.
  Nxs_Dsp: the execution loop, its slices under the deferred scheduler and what the host's accesses start; the
  machine reached from power-on, with the interpreter running on the board's bus.

  What the lemmas show

  Each device: the functional behaviour of its operations on every branch, refusals included; an invariant of
  the states reached from reset (for most devices the validity predicate of the checkpoint code); and that a
  store is accepted by its check exactly when it commits. The instruction functions: agreement with arithmetic
  on integers, saturation exactly where the exact result does not fit, round trips. The loop buffer: each issue
  returns exactly the instructions due. The board: the invariant, and that a transaction is all or nothing.
  The interpreter: what a cycle retires, and that no program takes its queues out of their arrays. The execution
  loop: each slice ends in a way the scheduler accepts. The machine's runs are bounded only by the 64-bit counters:
  an operation of the host runs at most a million steps, a step takes at most nine cycles.

  Not modelled

  The QEMU devices that carry these parts (\<^verbatim>\<open>cdj2000_dsp.c\<close>, \<^verbatim>\<open>cdj2000_main.c\<close>, \<^verbatim>\<open>cdj2000_ata.c\<close>, input and USB), and
  the network and co-simulation files, are built on QEMU's callbacks and sockets, which are not in the
  repository. The two I2C controllers, the authentication identity, the PHY, the media pacing and the checkpoint
  codec are small devices beside the DSP and are left out, as are the command line tools. The text of a stop
  message is kept as a constructor or a string, not its formatting.
\<close>

end
